(* ===== verification/Nyx_Prelude.thy ===== *)
theory Nyx_Prelude
  imports Main "HOL-Library.Word" "HOL-Library.Multiset"
begin

text \<open>
  Shared vocabulary of the NyxOS development: the C integer types as words, static
  arrays as functions from indices, the collections the component theories put their
  rewrite rules into, and the generic facts about words, bit masks, loops over static
  tables and ring buffers that more than one component uses.
\<close>

unbundle bit_operations_syntax

section \<open>C types\<close>

type_synonym u8 = "8 word"
type_synonym u16 = "16 word"
type_synonym u32 = "32 word"
type_synonym u64 = "64 word"

text \<open>
  A static C array is a function from the index. Every component that uses one proves
  that the indices it touches are below the declared length.
\<close>

type_synonym 'a arr = "nat \<Rightarrow> 'a"

text \<open>An operation returns, or stops the machine in \<open>kernel_panic\<close>.\<close>

datatype 'a outcome = Ret 'a | Panic

named_theorems nyx_defs
named_theorems nyx_inv

section \<open>Single-bit masks\<close>

text \<open>The C expression \<open>1u << n\<close>.\<close>

definition mask_bit :: "nat \<Rightarrow> 'a::len word" where
  "mask_bit n = push_bit n 1"

lemma bit_mask_bit: "bit (mask_bit n :: 'a::len word) k \<longleftrightarrow> k = n \<and> n < LENGTH('a)"
  by (auto simp: mask_bit_def bit_simps simp del: push_bit_of_1)

lemma bit_set_mask:
  "bit (w OR mask_bit n :: 'a::len word) k \<longleftrightarrow> (k = n \<and> n < LENGTH('a)) \<or> bit w k"
  by (auto simp: bit_or_iff bit_mask_bit)

lemma bit_clear_mask:
  "bit (w AND NOT (mask_bit n) :: 'a::len word) k \<longleftrightarrow> k \<noteq> n \<and> bit w k"
  by (auto simp: bit_and_iff bit_not_iff bit_mask_bit dest: bit_imp_le_length)

lemma and_mask_bit_eq_0:
  "w AND mask_bit n = (0 :: 'a::len word) \<longleftrightarrow> \<not> bit w n"
proof
  assume "w AND mask_bit n = 0"
  then have "\<not> bit (w AND mask_bit n) n" by simp
  then show "\<not> bit w n"
    by (auto simp: bit_and_iff bit_mask_bit dest: bit_imp_le_length)
next
  assume "\<not> bit w n"
  then show "w AND mask_bit n = 0"
    by (intro bit_word_eqI) (auto simp: bit_and_iff bit_mask_bit)
qed

lemmas mask_simps = bit_set_mask bit_clear_mask and_mask_bit_eq_0 bit_mask_bit

lemma word_neq_0_bit: "w \<noteq> 0 \<longleftrightarrow> (\<exists>n. bit w n)" for w :: "'a::len word"
  by (metis bit_0_eq bit_word_eqI bot_apply bot_bool_def)

section \<open>Bounds of the C types\<close>

lemma u8_bound: "unat (w :: u8) < 256"
  using unsigned_less[of w, where ?'a = nat] by simp

lemma u16_bound: "unat (w :: u16) < 65536"
  using unsigned_less[of w, where ?'a = nat] by simp

lemma u32_bound: "unat (w :: u32) < 4294967296"
  using unsigned_less[of w, where ?'a = nat] by simp

lemma u64_bound: "unat (w :: u64) < 18446744073709551616"
  using unsigned_less[of w, where ?'a = nat] by simp

lemma unat_inc: "unat (w :: 'a::len word) + 1 < 2 ^ LENGTH('a) \<Longrightarrow> unat (w + 1) = unat w + 1"
  by (simp add: unat_word_ariths)

lemma unat_dec: "(w :: 'a::len word) \<noteq> 0 \<Longrightarrow> unat (w - 1) = unat w - 1"
  by (metis unat_minus_one)

text \<open>The first \<open>n\<close> bytes of a word in memory order.\<close>

definition le_bytes :: "nat \<Rightarrow> 'a::len word \<Rightarrow> u8 list" where
  "le_bytes n w = map (\<lambda>i. ucast (drop_bit (8 * i) w)) [0..<n]"

lemma length_le_bytes [simp]: "length (le_bytes n w) = n"
  by (simp add: le_bytes_def)

section \<open>Count trailing zeros\<close>

text \<open>The compiler builtin \<open>__builtin_ctz\<close> on a non-zero 32-bit word.\<close>

definition ctz32 :: "u32 \<Rightarrow> nat" where
  "ctz32 w = length (takeWhile (\<lambda>n. \<not> bit w n) [0..<32])"

lemma ctz32_props:
  assumes "w \<noteq> 0"
  shows "ctz32 w < 32" and "bit w (ctz32 w)" and "k < ctz32 w \<Longrightarrow> \<not> bit w k"
proof -
  let ?P = "\<lambda>n. \<not> bit w n"
  let ?t = "takeWhile ?P [0..<32]"
  from assms obtain n where n: "bit w n" by (auto simp: word_neq_0_bit)
  then have "n < 32" using bit_imp_le_length[of w n] by simp
  have lt: "length ?t < length [0..<32::nat]"
  proof (rule ccontr)
    assume "\<not> ?thesis"
    then have "length ?t = length [0..<32::nat]"
      by (metis le_neq_implies_less length_takeWhile_le)
    then have "?t = [0..<32]"
      by (metis append_Nil2 append_eq_append_conv takeWhile_dropWhile_id)
    then have "\<forall>x \<in> set [0..<32]. ?P x" by (simp only: takeWhile_eq_all_conv)
    with n \<open>n < 32\<close> show False by simp
  qed
  then show "ctz32 w < 32" by (simp add: ctz32_def)
  from nth_length_takeWhile[OF lt] lt show "bit w (ctz32 w)"
    by (simp add: ctz32_def nth_upt)
  assume "k < ctz32 w"
  then have "k < length ?t" by (simp add: ctz32_def)
  then have "?t ! k \<in> set ?t" by (rule nth_mem)
  moreover have "?t ! k = k"
    using \<open>k < length ?t\<close> lt by (simp add: takeWhile_nth nth_upt)
  ultimately show "\<not> bit w k" by (auto dest: set_takeWhileD)
qed

section \<open>Static tables\<close>

text \<open>
  The C idiom \<open>for (i = 0; i < n; i++) if (P(i)) return i;\<close> over a static table.
\<close>

definition find_idx :: "nat \<Rightarrow> (nat \<Rightarrow> bool) \<Rightarrow> nat option" where
  "find_idx n P = find P [0..<n]"

lemma find_idx_None [simp]: "find_idx n P = None \<longleftrightarrow> (\<forall>i<n. \<not> P i)"
  by (auto simp: find_idx_def find_None_iff)

lemma find_idx_Some:
  "find_idx n P = Some i \<longleftrightarrow> i < n \<and> P i \<and> (\<forall>j<i. \<not> P j)"
proof
  assume "find_idx n P = Some i"
  then show "i < n \<and> P i \<and> (\<forall>j<i. \<not> P j)"
    by (auto simp: find_idx_def find_Some_iff)
next
  assume "i < n \<and> P i \<and> (\<forall>j<i. \<not> P j)"
  then show "find_idx n P = Some i"
    unfolding find_idx_def find_Some_iff by (intro exI[of _ i]) auto
qed

lemma find_idx_SomeD:
  assumes "find_idx n P = Some i"
  shows "i < n" and "P i" and "j < i \<Longrightarrow> \<not> P j"
  using assms by (auto simp: find_idx_Some)

text \<open>A loop whose body may fail to return.\<close>

fun ofold :: "('a \<Rightarrow> 's \<Rightarrow> 's option) \<Rightarrow> 'a list \<Rightarrow> 's \<Rightarrow> 's option" where
  "ofold f [] s = Some s"
| "ofold f (x # xs) s = (case f x s of None \<Rightarrow> None | Some s \<Rightarrow> ofold f xs s)"

lemma ofold_append: "ofold f (xs @ ys) s = Option.bind (ofold f xs s) (ofold f ys)"
  by (induction xs arbitrary: s) (auto split: option.split)

lemma ofold_stay: "(\<And>x. x \<in> set xs \<Longrightarrow> f x s = Some s) \<Longrightarrow> ofold f xs s = Some s"
  by (induction xs) auto

section \<open>Addresses\<close>

lemma unat_addr: "a < 2 ^ 64 \<Longrightarrow> unat (of_nat a :: u64) = a"
  by (simp add: unsigned_of_nat take_bit_eq_mod)

lemma addr_eq: "a < 2 ^ 64 \<Longrightarrow> b < 2 ^ 64 \<Longrightarrow> (of_nat a :: u64) = of_nat b \<longleftrightarrow> a = b"
  by (metis unat_addr)

lemma addr_eq_0: "a < 2 ^ 64 \<Longrightarrow> (of_nat a :: u64) = 0 \<longleftrightarrow> a = 0"
  using addr_eq[of a 0] by simp

lemma ucast_u32_nat: "unat (w :: u32) = m \<Longrightarrow> (ucast w :: u64) = of_nat m"
  using u32_bound[of w]
  by (simp add: word_unat_eq_iff unsigned_ucast_eq unsigned_of_nat take_bit_eq_mod)

lemma unat_align_down: "unat ((w :: u64) AND NOT 4095) = unat w div 4096 * 4096"
proof -
  have m: "(4095 :: u64) = mask 12" by (simp add: mask_eq_exp_minus_1)
  have e: "w AND NOT 4095 = push_bit 12 (drop_bit 12 w)"
    unfolding m by (intro bit_word_eqI) (auto simp: bit_simps)
  have "unat w div 4096 * 4096 \<le> unat w" by simp
  also have "\<dots> < 18446744073709551616" by (rule u64_bound)
  finally show ?thesis unfolding e
    by (simp add: push_bit_eq_mult drop_bit_eq_div unat_word_ariths unat_div_distrib)
qed

section \<open>Allocators of objects\<close>

text \<open>
  The contract of an allocator of byte ranges, over the set of live ranges (start and size): an
  allocation of less than \<open>limit\<close> bytes always returns, a non-null result is a fresh range of at least the requested size
  that meets no live range, and releasing a live range removes just that range.
\<close>

definition apart :: "nat \<times> nat \<Rightarrow> nat \<times> nat \<Rightarrow> bool" where
  "apart x y \<longleftrightarrow> fst x + snd x \<le> fst y \<or> fst y + snd y \<le> fst x"

lemma apart_sym: "apart x y \<Longrightarrow> apart y x"
  by (auto simp: apart_def)

locale object_allocator =
  fixes alloc :: "u64 \<Rightarrow> 's \<Rightarrow> (u64 \<times> 's) option"
    and release :: "u64 \<Rightarrow> 's \<Rightarrow> 's"
    and rep :: "'s \<Rightarrow> (nat \<times> nat) set \<Rightarrow> bool"
    and limit :: nat
  assumes alloc_total: "rep s R \<Longrightarrow> unat n < limit \<Longrightarrow> \<exists>p s'. alloc n s = Some (p, s')"
    and alloc_null: "rep s R \<Longrightarrow> unat n < limit \<Longrightarrow> alloc n s = Some (0, s') \<Longrightarrow> rep s' R"
    and alloc_fresh: "rep s R \<Longrightarrow> unat n < limit \<Longrightarrow> alloc n s = Some (p, s') \<Longrightarrow> p \<noteq> 0 \<Longrightarrow>
      \<exists>k \<ge> unat n. rep s' (insert (unat p, k) R) \<and> (\<forall>r \<in> R. apart (unat p, k) r)"
    and release_live: "rep s R \<Longrightarrow> (unat p, k) \<in> R \<Longrightarrow> rep (release p s) (R - {(unat p, k)})"
begin

text \<open>Allocating and releasing again leaves the live ranges as they were.\<close>

lemma alloc_release:
  assumes "rep s R" and "unat n < limit" and "alloc n s = Some (p, s')" and "p \<noteq> 0" and "0 < n"
  shows "rep (release p s') R"
proof -
  from alloc_fresh[OF assms(1-4)] obtain k where k: "k \<ge> unat n"
    "rep s' (insert (unat p, k) R)" "\<forall>r \<in> R. apart (unat p, k) r" by blast
  have "0 < unat n" using assms(5) by (simp add: word_less_nat_alt)
  then have "(unat p, k) \<notin> R" using k(1,3) by (auto simp: apart_def)
  then have "insert (unat p, k) R - {(unat p, k)} = R" by simp
  with release_live[OF k(2), of p k] show ?thesis by simp
qed

text \<open>Pairwise disjointness of the live ranges survives every allocation.\<close>

definition separated :: "(nat \<times> nat) set \<Rightarrow> bool" where
  "separated R \<longleftrightarrow> (\<forall>x \<in> R. \<forall>y \<in> R. x \<noteq> y \<longrightarrow> apart x y)"

lemma alloc_separated:
  assumes "rep s R" and "separated R" and "unat n < limit" and "alloc n s = Some (p, s')"
  shows "\<exists>R'. rep s' R' \<and> separated R' \<and> R \<subseteq> R'"
proof (cases "p = 0")
  case True
  with alloc_null assms show ?thesis by blast
next
  case False
  from alloc_fresh[OF assms(1,3,4) this] obtain k where
    "rep s' (insert (unat p, k) R)" "\<forall>r \<in> R. apart (unat p, k) r" by blast
  with assms(2) show ?thesis
    by (intro exI[of _ "insert (unat p, k) R"]) (auto simp: separated_def intro: apart_sym)
qed

end

lemma sint_of_nat_small: "k < 2 ^ 31 \<Longrightarrow> sint (of_nat k :: u32) = int k"
  by (simp add: signed_of_nat signed_take_bit_int_eq_self)

lemma sint_small: "unat (w :: u32) < 2 ^ 31 \<Longrightarrow> sint w = int (unat w)"
  using sint_of_nat_small [of "unat w"] by simp

end
