(* ===== verification/Heap.thy ===== *)
theory Heap
  imports Nyx_Prelude
begin

text \<open>
  The kernel heap of \<open>src/kernel/heap.c\<close>: a first-fit allocator over a singly linked list of
  block headers inside a 16 MB array. The headers are kept in a store indexed by their address,
  with the \<open>next\<close> pointers of the source; following them is a loop that a corrupt list could
  make infinite, so the scan is a partial function. The abstract heap is the list of block
  sizes in address order, and the operations are shown to refine first-fit on that list.
\<close>

section \<open>The allocator\<close>

definition HEAP_SIZE :: nat where
  "HEAP_SIZE = 16777216"

text \<open>\<open>sizeof(heap_block_t)\<close>: a \<open>size_t\<close>, a padded \<open>uint8_t\<close> and a pointer.\<close>

abbreviation HDR :: u64 where
  "HDR \<equiv> 24"

record heap_block =
  hb_size :: u64
  hb_used :: u8
  hb_next :: u64

record heap_st =
  heap_free_list :: u64
  hblk :: "u64 \<Rightarrow> heap_block"

definition put_block :: "u64 \<Rightarrow> heap_block \<Rightarrow> heap_st \<Rightarrow> heap_st" where
  "put_block a b s = s\<lparr>hblk := (hblk s)(a := b)\<rparr>"

definition init_heap :: "heap_st \<Rightarrow> heap_st" where
  "init_heap s = put_block (heap_free_list s)
     \<lparr>hb_size = of_nat HEAP_SIZE - HDR, hb_used = 0, hb_next = 0\<rparr> s"

partial_function (option) heap_scan :: "heap_st \<Rightarrow> u64 \<Rightarrow> u64 \<Rightarrow> u64 option" where
  "heap_scan s sz cur =
     (if cur = 0 then Some 0
      else if hb_used (hblk s cur) = 0 \<and> hb_size (hblk s cur) \<ge> sz then Some cur
      else heap_scan s sz (hb_next (hblk s cur)))"

definition take_block :: "u64 \<Rightarrow> u64 \<Rightarrow> heap_st \<Rightarrow> heap_st" where
  "take_block sz cur s =
     (let b = hblk s cur in
      if hb_size b > sz + HDR + 16 then
        (let new = cur + HDR + sz;
             s = put_block new \<lparr>hb_size = hb_size b - sz - HDR, hb_used = 0, hb_next = hb_next b\<rparr> s
         in put_block cur \<lparr>hb_size = sz, hb_used = 1, hb_next = new\<rparr> s)
      else put_block cur (b\<lparr>hb_used := 1\<rparr>) s)"

text \<open>\<open>None\<close> is a scan that never ends; a result of 0 is \<open>NULL\<close>.\<close>

definition heap_alloc :: "u64 \<Rightarrow> heap_st \<Rightarrow> (u64 \<times> heap_st) option" where
  "heap_alloc sz s =
     (case heap_scan s sz (heap_free_list s) of
        None \<Rightarrow> None
      | Some cur \<Rightarrow> if cur = 0 then Some (0, s) else Some (cur + HDR, take_block sz cur s))"

definition heap_free :: "u64 \<Rightarrow> heap_st \<Rightarrow> heap_st" where
  "heap_free ptr s =
     (if ptr = 0 then s
      else
        (let blk = ptr - HDR;
             s = put_block blk ((hblk s blk)\<lparr>hb_used := 0\<rparr>) s;
             b = hblk s blk; nx = hb_next b
         in if nx \<noteq> 0 \<and> hb_used (hblk s nx) = 0
            then put_block blk (b\<lparr>hb_size := hb_size b + (HDR + hb_size (hblk s nx)),
                                   hb_next := hb_next (hblk s nx)\<rparr>) s
            else s))"

section \<open>The abstract heap\<close>

text \<open>The blocks in address order: payload size and whether it is in use.\<close>

type_synonym blocks = "(nat \<times> bool) list"

definition span :: "blocks \<Rightarrow> nat" where
  "span bs = sum_list (map (\<lambda>(m, u). m + 24) bs)"

fun first_fit :: "nat \<Rightarrow> nat \<Rightarrow> blocks \<Rightarrow> nat option" where
  "first_fit n a [] = None"
| "first_fit n a ((m, u) # bs) =
     (if \<not> u \<and> n \<le> m then Some a else first_fit n (a + 24 + m) bs)"

fun alloc_blocks :: "nat \<Rightarrow> blocks \<Rightarrow> blocks" where
  "alloc_blocks n [] = []"
| "alloc_blocks n ((m, u) # bs) =
     (if \<not> u \<and> n \<le> m then
        (if n + 40 < m then (n, True) # (m - n - 24, False) # bs else (m, True) # bs)
      else (m, u) # alloc_blocks n bs)"

fun merge_next :: "nat \<Rightarrow> blocks \<Rightarrow> blocks" where
  "merge_next m ((m', False) # bs) = (m + 24 + m', False) # bs"
| "merge_next m bs = (m, False) # bs"

fun free_blocks :: "nat \<Rightarrow> nat \<Rightarrow> blocks \<Rightarrow> blocks" where
  "free_blocks c a [] = []"
| "free_blocks c a ((m, u) # bs) =
     (if a = c then merge_next m bs else (m, u) # free_blocks c (a + 24 + m) bs)"

text \<open>Payload ranges in use, as start address and size.\<close>

fun live :: "nat \<Rightarrow> blocks \<Rightarrow> (nat \<times> nat) set" where
  "live a [] = {}"
| "live a ((m, u) # bs) = (if u then {(a + 24, m)} else {}) \<union> live (a + 24 + m) bs"

text \<open>The header list starting at address \<open>a\<close> stores exactly the abstract blocks.\<close>

fun chain :: "heap_st \<Rightarrow> nat \<Rightarrow> blocks \<Rightarrow> bool" where
  "chain s a [] \<longleftrightarrow> True"
| "chain s a ((m, u) # bs) \<longleftrightarrow>
     hb_size (hblk s (of_nat a)) = of_nat m \<and> (hb_used (hblk s (of_nat a)) \<noteq> 0) = u \<and>
     hb_next (hblk s (of_nat a)) = (if bs = [] then 0 else of_nat (a + 24 + m)) \<and>
     chain s (a + 24 + m) bs"

definition heap_rep :: "nat \<Rightarrow> heap_st \<Rightarrow> blocks \<Rightarrow> bool" where
  "heap_rep base s bs \<longleftrightarrow> 0 < base \<and> base + HEAP_SIZE < 2 ^ 64 \<and> bs \<noteq> [] \<and>
     span bs = HEAP_SIZE \<and> heap_free_list s = of_nat base \<and> chain s base bs"

section \<open>Refinement\<close>

lemma span_simps [simp]: "span [] = 0" "span ((m, u) # bs) = m + 24 + span bs"
  by (simp_all add: span_def)

lemma hblk_put [simp]:
  "hblk (put_block a b s) = (hblk s)(a := b)"
  "heap_free_list (put_block a b s) = heap_free_list s"
  by (simp_all add: put_block_def)

text \<open>The list is unchanged by a header write outside the range it covers.\<close>

lemma chain_frame:
  "\<forall>x. a \<le> x \<and> x < a + span bs \<longrightarrow> hblk s' (of_nat x) = hblk s (of_nat x) \<Longrightarrow>
     chain s' a bs = chain s a bs"
proof (induction bs arbitrary: a)
  case (Cons mu bs)
  obtain m u where mu: "mu = (m, u)" by (cases mu)
  have "chain s' (a + 24 + m) bs = chain s (a + 24 + m) bs"
    using Cons.prems by (intro Cons.IH) (auto simp: mu)
  moreover have "hblk s' (of_nat a) = hblk s (of_nat a)" using Cons.prems by (simp add: mu)
  ultimately show ?case by (simp add: mu)
qed simp

lemma chain_put_below:
  assumes "chain s a bs" and "x < a" and "a + span bs < 2 ^ 64"
  shows "chain (put_block (of_nat x) b s) a bs"
proof -
  have "chain (put_block (of_nat x) b s) a bs = chain s a bs"
    using assms(2,3) by (intro chain_frame) (auto simp: addr_eq)
  with assms(1) show ?thesis by simp
qed

lemma scan_first_fit:
  assumes "chain s a bs" and "bs \<noteq> []" and "0 < a" and "a + span bs < 2 ^ 64" and "n < 2 ^ 64"
  shows "heap_scan s (of_nat n) (of_nat a) =
    Some (case first_fit n a bs of None \<Rightarrow> 0 | Some c \<Rightarrow> of_nat c)"
  using assms
proof (induction bs arbitrary: a)
  case (Cons mu bs)
  obtain m u where mu: "mu = (m, u)" by (cases mu)
  have a0: "(of_nat a :: u64) \<noteq> 0" using Cons.prems(3,4) by (simp add: addr_eq_0)
  have le: "((of_nat n :: u64) \<le> of_nat m) = (n \<le> m)"
    using Cons.prems(4,5) by (simp add: word_le_nat_alt unat_addr mu)
  show ?case
  proof (cases "\<not> u \<and> n \<le> m")
    case True
    then show ?thesis using Cons.prems(1) a0 le by (subst heap_scan.simps) (simp add: mu)
  next
    case False
    have "heap_scan s (of_nat n) (of_nat a) = heap_scan s (of_nat n) (hb_next (hblk s (of_nat a)))"
      using False Cons.prems(1) a0 le by (subst heap_scan.simps) (auto simp: mu)
    also have "\<dots> = Some (case first_fit n (a + 24 + m) bs of None \<Rightarrow> 0 | Some c \<Rightarrow> of_nat c)"
    proof (cases "bs = []")
      case True
      then show ?thesis using Cons.prems(1) by (simp add: mu heap_scan.simps)
    next
      case ne: False
      then show ?thesis using Cons.IH[of "a + 24 + m"] Cons.prems by (simp add: mu)
    qed
    finally show ?thesis using False by (auto simp: mu)
  qed
qed simp

lemma first_fit_bounds:
  "first_fit n a bs = Some c \<Longrightarrow> a \<le> c \<and> c + 24 + n \<le> a + span bs"
  by (induction n a bs rule: first_fit.induct) (auto split: if_splits)

lemma alloc_blocks_span: "span (alloc_blocks n bs) = span bs"
  by (induction n bs rule: alloc_blocks.induct) auto

lemma alloc_blocks_Nil [simp]: "alloc_blocks n bs = [] \<longleftrightarrow> bs = []"
  by (cases "(n, bs)" rule: alloc_blocks.cases) auto

lemma take_block_eq:
  assumes "hb_size (hblk s (of_nat a)) = of_nat m" and "n \<le> m" and "m \<le> HEAP_SIZE"
  shows "take_block (of_nat n) (of_nat a) s =
    (if n + 40 < m then
       put_block (of_nat a) \<lparr>hb_size = of_nat n, hb_used = 1, hb_next = of_nat (a + 24 + n)\<rparr>
         (put_block (of_nat (a + 24 + n)) \<lparr>hb_size = of_nat (m - n - 24), hb_used = 0,
            hb_next = hb_next (hblk s (of_nat a))\<rparr> s)
     else put_block (of_nat a) ((hblk s (of_nat a))\<lparr>hb_used := 1\<rparr>) s)"
proof -
  have "unat (of_nat n + HDR + 16) = n + 40" "unat (of_nat m :: u64) = m"
    using assms(2,3) by (simp_all add: HEAP_SIZE_def unat_word_ariths unsigned_of_nat take_bit_eq_mod)
  then have c: "(of_nat m > of_nat n + HDR + 16) = (n + 40 < m)"
    unfolding word_less_nat_alt by simp
  have d: "n + 40 < m \<Longrightarrow> of_nat (m - n - 24) = of_nat m - of_nat n - HDR"
    by simp
  show ?thesis
    unfolding take_block_def Let_def assms(1) c using d by (simp add: add.assoc diff_diff_eq)
qed

lemma take_block_chain:
  assumes "chain s a bs" and "0 < a" and "a + span bs < 2 ^ 64" and "span bs \<le> HEAP_SIZE"
    and "first_fit n a bs = Some c"
  shows "chain (take_block (of_nat n) (of_nat c) s) a (alloc_blocks n bs)"
  using assms
proof (induction bs arbitrary: a)
  case (Cons mu bs)
  obtain m u where mu: "mu = (m, u)" by (cases mu)
  let ?a' = "a + 24 + m"
  have bound: "?a' + span bs < 2 ^ 64" and m: "m \<le> HEAP_SIZE" using Cons.prems(3,4) by (simp_all add: mu)
  have b: "hb_size (hblk s (of_nat a)) = of_nat m"
      "hb_next (hblk s (of_nat a)) = (if bs = [] then 0 else of_nat ?a')"
      and tl: "chain s ?a' bs"
    using Cons.prems(1) by (auto simp: mu)
  show ?case
  proof (cases "\<not> u \<and> n \<le> m")
    case True
    with Cons.prems(5) have c: "c = a" by (simp add: mu)
    note te = take_block_eq[OF b(1) conjunct2[OF True] m]
    show ?thesis
    proof (cases "n + 40 < m")
      case split: True
      have ne: "(of_nat a :: u64) \<noteq> of_nat (a + 24 + n)" using bound split by (subst addr_eq) auto
      have "a + 24 + n + 24 + (m - n - 24) = ?a'" using split by simp
      then show ?thesis
        using True split te b ne
          chain_put_below[OF chain_put_below[OF tl, of "a + 24 + n"], of a] bound
        by (simp add: mu c ac_simps del: of_nat_add)
    next
      case False
      then show ?thesis
        using True te b chain_put_below[OF tl, of a] bound by (simp add: mu c)
    qed
  next
    case False
    then have ff: "first_fit n ?a' bs = Some c" using Cons.prems(5) by (auto simp: mu)
    then have "bs \<noteq> []" by auto
    have "chain (take_block (of_nat n) (of_nat c) s) ?a' (alloc_blocks n bs)"
      using Cons.IH[OF tl _ bound _ ff] Cons.prems(4) by (simp add: mu)
    moreover have "hblk (take_block (of_nat n) (of_nat c) s) (of_nat a) = hblk s (of_nat a)"
    proof -
      from first_fit_bounds[OF ff] bound have "a < c" "c + 24 + n < 2 ^ 64" by auto
      then have "(of_nat a :: u64) \<noteq> of_nat c" "(of_nat a :: u64) \<noteq> of_nat (c + 24 + n)"
        by (auto simp: addr_eq simp del: of_nat_add)
      then show ?thesis by (simp add: take_block_def Let_def add.assoc)
    qed
    ultimately show ?thesis using False Cons.prems(1) by (auto simp: mu)
  qed
qed simp

lemma heap_free_list_take [simp]: "heap_free_list (take_block n c s) = heap_free_list s"
  by (simp add: take_block_def Let_def)

text \<open>On a well-formed heap \<open>heap_alloc\<close> always returns, and does first-fit.\<close>

lemma heap_alloc_refines:
  assumes "heap_rep base s bs"
  shows "heap_alloc sz s = (case first_fit (unat sz) base bs of
       None \<Rightarrow> Some (0, s)
     | Some c \<Rightarrow> Some (of_nat (c + 24), take_block sz (of_nat c) s))"
    and "first_fit (unat sz) base bs = Some c \<Longrightarrow>
       heap_rep base (take_block sz (of_nat c) s) (alloc_blocks (unat sz) bs)"
proof -
  have r: "0 < base" "base + span bs < 2 ^ 64" "bs \<noteq> []" "chain s base bs" "span bs \<le> HEAP_SIZE"
    "heap_free_list s = of_nat base"
    using assms by (simp_all add: heap_rep_def)
  have scan: "heap_scan s sz (of_nat base) =
    Some (case first_fit (unat sz) base bs of None \<Rightarrow> 0 | Some c \<Rightarrow> of_nat c)"
    using scan_first_fit[OF r(4,3,1,2), of "unat sz"] u64_bound[of sz] by simp
  have nz: "(of_nat c :: u64) \<noteq> 0" if "first_fit (unat sz) base bs = Some c" for c
    using first_fit_bounds[OF that] r(1,2) by (simp add: addr_eq_0)
  show "heap_alloc sz s = (case first_fit (unat sz) base bs of
       None \<Rightarrow> Some (0, s)
     | Some c \<Rightarrow> Some (of_nat (c + 24), take_block sz (of_nat c) s))"
    using nz by (auto simp: heap_alloc_def r(6) scan split: option.splits)
  show "heap_rep base (take_block sz (of_nat c) s) (alloc_blocks (unat sz) bs)"
    if "first_fit (unat sz) base bs = Some c"
    using take_block_chain[OF r(4,1,2,5) that] assms
    by (simp add: heap_rep_def alloc_blocks_span)
qed

lemma free_blocks_Nil [simp]: "free_blocks c a bs = [] \<longleftrightarrow> bs = []"
proof (cases bs)
  case (Cons mu bs')
  then show ?thesis by (cases mu, cases "(fst mu, bs')" rule: merge_next.cases) auto
qed simp

lemma merge_next_span: "span (merge_next m bs) = m + 24 + span bs"
  by (induction m bs rule: merge_next.induct) auto

lemma free_blocks_span: "span (free_blocks c a bs) = span bs"
  by (induction c a bs rule: free_blocks.induct) (auto simp: merge_next_span)

lemma live_bounds: "(p, m) \<in> live a bs \<Longrightarrow> a + 24 \<le> p \<and> p + m \<le> a + span bs"
proof (induction bs arbitrary: a)
  case (Cons mu bs)
  obtain k u where mu: "mu = (k, u)" by (cases mu)
  from Cons.prems consider "(p, m) = (a + 24, k)" | "(p, m) \<in> live (a + 24 + k) bs"
    by (auto simp: mu split: if_splits)
  then show ?case
  proof cases
    case 2
    from Cons.IH[OF this] show ?thesis by (simp add: mu)
  qed (simp add: mu)
qed simp

definition release :: "u64 \<Rightarrow> heap_st \<Rightarrow> heap_st" where
  "release blk s = heap_free (blk + HDR) s"

lemma merge_chain:
  assumes "chain s a ((m, u) # bs)" and "0 < a" and "a + 24 + m + span bs < 2 ^ 64"
  shows "chain (release (of_nat a) s) a (merge_next m bs)"
proof -
  let ?a' = "a + 24 + m"
  have b: "hb_size (hblk s (of_nat a)) = of_nat m"
      "hb_next (hblk s (of_nat a)) = (if bs = [] then 0 else of_nat ?a')"
      and tl: "chain s ?a' bs"
    using assms(1) by auto
  have nz: "(of_nat a :: u64) + HDR \<noteq> 0"
    using addr_eq_0[of "a + 24"] assms(3) by simp
  show ?thesis
  proof (cases bs)
    case Nil
    then show ?thesis using b nz by (simp add: release_def heap_free_def Let_def)
  next
    case (Cons mu' bs')
    obtain m' u' where mu': "mu' = (m', u')" by (cases mu')
    have ne: "(of_nat a :: u64) \<noteq> of_nat ?a'" and nz': "(of_nat ?a' :: u64) \<noteq> 0"
      using assms(2,3) by (auto simp: addr_eq addr_eq_0 Cons mu' simp del: of_nat_add)
    have tl': "chain s (?a' + 24 + m') bs'" "hb_size (hblk s (of_nat ?a')) = of_nat m'"
      "(hb_used (hblk s (of_nat ?a')) \<noteq> 0) = u'"
      "hb_next (hblk s (of_nat ?a')) = (if bs' = [] then 0 else of_nat (?a' + 24 + m'))"
      using tl by (simp_all add: Cons mu' del: of_nat_add)
    let ?s1 = "put_block (of_nat a) ((hblk s (of_nat a))\<lparr>hb_used := 0\<rparr>) s"
    have keep: "chain (put_block (of_nat a) x ?s1) (?a' + 24 + m') bs'"
      "chain ?s1 ?a' bs" for x
      using chain_put_below[OF chain_put_below[OF tl'(1), of a], of a]
        chain_put_below[OF tl, of a] assms(3) by (simp_all add: Cons mu')
    show ?thesis
    proof (cases u')
      case False
      then have "release (of_nat a) s = put_block (of_nat a)
          ((hblk ?s1 (of_nat a))\<lparr>hb_size := of_nat (m + 24 + m'),
             hb_next := (if bs' = [] then 0 else of_nat (?a' + 24 + m'))\<rparr>) ?s1"
        using b ne nz nz' tl' by (simp add: release_def heap_free_def Let_def Cons add.assoc)
      then show ?thesis using keep(1) False by (simp add: Cons mu' ac_simps del: of_nat_add)
    next
      case True
      then have "release (of_nat a) s = ?s1"
        using b ne nz nz' tl' by (simp add: release_def heap_free_def Let_def Cons del: of_nat_add)
      then show ?thesis using keep(2) True b by (simp add: Cons mu' del: of_nat_add)
    qed
  qed
qed

lemma release_frame: "x \<noteq> of_nat c \<Longrightarrow> hblk (release (of_nat c) s) x = hblk s x"
  by (simp add: release_def heap_free_def Let_def)

lemma release_free_list [simp]: "heap_free_list (release x s) = heap_free_list s"
  by (simp add: release_def heap_free_def Let_def)

lemma release_chain:
  assumes "chain s a bs" and "0 < a" and "a + span bs < 2 ^ 64" and "(c + 24, k) \<in> live a bs"
  shows "chain (release (of_nat c) s) a (free_blocks c a bs)"
  using assms
proof (induction bs arbitrary: a)
  case (Cons mu bs)
  obtain m u where mu: "mu = (m, u)" by (cases mu)
  show ?case
  proof (cases "a = c")
    case True
    then show ?thesis using merge_chain[of s a m u bs] Cons.prems by (simp add: mu)
  next
    case False
    let ?t = "release (of_nat c) s"
    have l: "(c + 24, k) \<in> live (a + 24 + m) bs"
      using Cons.prems(4) False by (auto simp: mu split: if_splits)
    have "chain ?t (a + 24 + m) (free_blocks c (a + 24 + m) bs)"
      using Cons.IH[OF _ _ _ l] Cons.prems by (simp add: mu)
    moreover from live_bounds[OF l] have "a < c" "c < a + 24 + m + span bs" by simp_all
    then have "hblk ?t (of_nat a) = hblk s (of_nat a)"
      using Cons.prems(3) by (intro release_frame) (simp add: addr_eq mu)
    ultimately show ?thesis using Cons.prems(1) False by (simp add: mu)
  qed
qed simp

lemma live_alloc:
  "first_fit n a bs = Some c \<Longrightarrow>
     \<exists>k \<ge> n. live a (alloc_blocks n bs) = insert (c + 24, k) (live a bs) \<and>
       c + 24 + k \<le> a + span bs \<and> (\<forall>r \<in> live a bs. apart (c + 24, k) r)"
proof (induction n a bs rule: first_fit.induct)
  case (2 n a m u bs)
  show ?case
  proof (cases "\<not> u \<and> n \<le> m")
    case True
    then have c: "c = a" using "2.prems" by simp
    define k where "k = (if n + 40 < m then n else m)"
    have "n + 40 < m \<Longrightarrow> a + 24 + n + 24 + (m - n - 24) = a + 24 + m" by simp
    then have l: "live a (alloc_blocks n ((m, u) # bs)) = insert (c + 24, k) (live a ((m, u) # bs))"
      using True c by (auto simp: k_def ac_simps)
    have "apart (c + 24, k) r" if "r \<in> live a ((m, u) # bs)" for r
    proof -
      obtain q j where r: "r = (q, j)" by (cases r)
      with that True have "(q, j) \<in> live (a + 24 + m) bs" by simp
      from live_bounds[OF this] True show ?thesis by (auto simp: apart_def r c k_def)
    qed
    with l True show ?thesis by (intro exI[of _ k]) (auto simp: k_def c)
  next
    case False
    then have ff: "first_fit n (a + 24 + m) bs = Some c" using "2.prems" by (auto split: if_splits)
    with "2.IH" False obtain k where k: "k \<ge> n" "c + 24 + k \<le> a + 24 + m + span bs"
      "live (a + 24 + m) (alloc_blocks n bs) = insert (c + 24, k) (live (a + 24 + m) bs)"
      "\<forall>r \<in> live (a + 24 + m) bs. apart (c + 24, k) r" by blast
    have "apart (c + 24, k) (a + 24, m)" using first_fit_bounds[OF ff] by (simp add: apart_def)
    with False k show ?thesis by (intro exI[of _ k]) auto
  qed
qed simp

lemma live_merge: "live a (merge_next m bs) = live (a + 24 + m) bs"
  by (induction m bs rule: merge_next.induct) (auto simp: ac_simps)

lemma live_free:
  "(c + 24, k) \<in> live a bs \<Longrightarrow> live a (free_blocks c a bs) = live a bs - {(c + 24, k)}"
proof (induction c a bs rule: free_blocks.induct)
  case (2 c a m u bs)
  show ?case
  proof (cases "a = c")
    case True
    have nin: "(c + 24, j) \<notin> live (a + 24 + m) bs" for j
      using live_bounds[of "c + 24" j "a + 24 + m" bs] True by auto
    with "2.prems" True have u: "u" and k: "k = m" by (auto split: if_splits)
    have "live (a + 24 + m) bs - {(c + 24, k)} = live (a + 24 + m) bs" using nin by blast
    with True u k show ?thesis by (simp add: live_merge)
  next
    case False
    with "2.prems" have "(c + 24, k) \<in> live (a + 24 + m) bs" by (auto split: if_splits)
    from "2.IH"[OF False this] have e: "live (a + 24 + m) (free_blocks c (a + 24 + m) bs) =
      live (a + 24 + m) bs - {(c + 24, k)}" .
    have "(a + 24, m) \<noteq> (c + 24, k)" using False by simp
    then have "{(a + 24, m)} \<union> (live (a + 24 + m) bs - {(c + 24, k)}) =
      ({(a + 24, m)} \<union> live (a + 24 + m) bs) - {(c + 24, k)}"
      by (simp del: prod.inject add: insert_Diff_if)
    with False e show ?thesis by (simp only: free_blocks.simps live.simps if_False) simp
  qed
qed simp

definition heap_live :: "nat \<Rightarrow> heap_st \<Rightarrow> (nat \<times> nat) set \<Rightarrow> bool" where
  "heap_live base s R \<longleftrightarrow> (\<exists>bs. heap_rep base s bs \<and> live base bs = R)"

lemma heap_alloc_fresh:
  assumes "heap_rep base s bs" and "heap_alloc n s = Some (p, s')" and "p \<noteq> 0"
  shows "\<exists>k bs'. unat n \<le> k \<and> heap_rep base s' bs' \<and>
     live base bs' = insert (unat p, k) (live base bs) \<and> base + 24 \<le> unat p \<and>
     unat p + k \<le> base + HEAP_SIZE \<and> (\<forall>r \<in> live base bs. apart (unat p, k) r)"
proof -
  note r = heap_alloc_refines[OF assms(1), of n]
  from assms(2,3) r(1) obtain c where c: "first_fit (unat n) base bs = Some c"
    and p: "p = of_nat (c + 24)" "s' = take_block n (of_nat c) s"
    by (cases "first_fit (unat n) base bs") auto
  have b: "span bs = HEAP_SIZE" "base + HEAP_SIZE < 2 ^ 64" using assms(1) by (simp_all add: heap_rep_def)
  have "unat p = c + 24"
    using first_fit_bounds[OF c] b unfolding p(1) by (intro unat_addr) simp
  with live_alloc[OF c] r(2)[OF c] p(2) b(1) first_fit_bounds[OF c] show ?thesis by auto
qed

lemma heap_free_live:
  assumes "heap_rep base s bs" and "(unat p, k) \<in> live base bs"
  shows "\<exists>bs'. heap_rep base (heap_free p s) bs' \<and> live base bs' = live base bs - {(unat p, k)}"
proof -
  have b: "base + 24 \<le> unat p" using live_bounds[OF assms(2)] by simp
  define c where "c = unat p - 24"
  have c: "unat p = c + 24" using b by (simp add: c_def)
  have "p = of_nat (unat p)" by simp
  then have p: "p = of_nat c + HDR" unfolding c by simp
  have rel: "heap_free p s = release (of_nat c) s" by (simp add: release_def p)
  from assms(2) c have l: "(c + 24, k) \<in> live base bs" by simp
  have "chain (release (of_nat c) s) base (free_blocks c base bs)"
    using assms(1) by (intro release_chain[OF _ _ _ l]) (simp_all add: heap_rep_def)
  then have "heap_rep base (heap_free p s) (free_blocks c base bs)"
    using assms(1) by (simp add: heap_rep_def rel free_blocks_span)
  with live_free[OF l] c show ?thesis by auto
qed

interpretation kheap: object_allocator heap_alloc heap_free "heap_live base" "2 ^ 64" for base
proof unfold_locales
  fix s R n p s' k
  assume "heap_live base s R"
  then obtain bs where bs: "heap_rep base s bs" "live base bs = R" by (auto simp: heap_live_def)
  note r = heap_alloc_refines[OF bs(1), of n]
  show "\<exists>p s'. heap_alloc n s = Some (p, s')"
    using r(1) by (cases "first_fit (unat n) base bs") auto
  show "heap_alloc n s = Some (0, s') \<Longrightarrow> heap_live base s' R"
  proof (cases "first_fit (unat n) base bs")
    case (Some c)
    have "(of_nat (c + 24) :: u64) \<noteq> 0" using first_fit_bounds[OF Some] bs(1)
      by (subst addr_eq_0) (auto simp: heap_rep_def)
    then show "heap_alloc n s = Some (0, s') \<Longrightarrow> heap_live base s' R" using r(1) Some by simp
  qed (use r(1) bs in \<open>auto simp: heap_live_def\<close>)
  show "heap_alloc n s = Some (p, s') \<Longrightarrow> p \<noteq> 0 \<Longrightarrow>
      \<exists>k \<ge> unat n. heap_live base s' (insert (unat p, k) R) \<and> (\<forall>r \<in> R. apart (unat p, k) r)"
    using heap_alloc_fresh[OF bs(1)] bs(2) unfolding heap_live_def by blast
  show "(unat p, k) \<in> R \<Longrightarrow> heap_live base (heap_free p s) (R - {(unat p, k)})"
    using heap_free_live[OF bs(1)] bs(2) unfolding heap_live_def by blast
qed

section \<open>Properties\<close>

lemma init_heap_rep:
  assumes "0 < base" and "base + HEAP_SIZE < 2 ^ 64" and "heap_free_list s = of_nat base"
  shows "heap_rep base (init_heap s) [(HEAP_SIZE - 24, False)]"
  using assms by (simp add: heap_rep_def init_heap_def HEAP_SIZE_def)

definition heap_example :: heap_st where
  "heap_example = init_heap \<lparr>heap_free_list = 0x400000,
     hblk = (\<lambda>_. \<lparr>hb_size = 0, hb_used = 0, hb_next = 0\<rparr>)\<rparr>"

lemma heap_example_rep: "heap_rep 0x400000 heap_example [(16777192, False)]"
  using init_heap_rep[of "0x400000" "\<lparr>heap_free_list = 0x400000,
     hblk = (\<lambda>_. \<lparr>hb_size = 0, hb_used = 0, hb_next = 0\<rparr>)\<rparr>"]
  by (simp add: heap_example_def HEAP_SIZE_def)

lemma first_fit_None: "first_fit n a bs = None \<longleftrightarrow> (\<forall>(m, u) \<in> set bs. u \<or> m < n)"
  by (induction n a bs rule: first_fit.induct) (auto simp: not_le)

text \<open>C5: On a well-formed kernel heap \<open>heap_alloc\<close> always returns. It returns \<open>NULL\<close> only when
  no free block is large enough, leaving the heap as it was; otherwise the payload has at least
  the requested size, lies inside the heap array, meets no payload already in use, and the heap
  is well-formed with exactly that payload added.\<close>

theorem heap_alloc_correct:
  assumes "heap_rep base s bs"
  shows "\<exists>p s' bs'. heap_alloc n s = Some (p, s') \<and> heap_rep base s' bs' \<and>
    (if p = 0 then s' = s \<and> (\<forall>(m, u) \<in> set bs. u \<or> m < unat n)
     else \<exists>k \<ge> unat n. live base bs' = insert (unat p, k) (live base bs) \<and>
       base + 24 \<le> unat p \<and> unat p + k \<le> base + HEAP_SIZE \<and>
       (\<forall>r \<in> live base bs. apart (unat p, k) r))"
proof -
  obtain p s' where a: "heap_alloc n s = Some (p, s')"
    using kheap.alloc_total[of base s "live base bs" n] u64_bound[of n] assms by (auto simp: heap_live_def)
  show ?thesis
  proof (cases "first_fit (unat n) base bs")
    case None
    with a heap_alloc_refines(1)[OF assms, of n] assms first_fit_None show ?thesis
      by (intro exI[of _ 0] exI[of _ s] exI[of _ bs]) simp
  next
    case (Some c)
    have "c + 24 < 2 ^ 64" using first_fit_bounds[OF Some] assms by (simp add: heap_rep_def)
    then have "p \<noteq> 0" using a heap_alloc_refines(1)[OF assms, of n] Some addr_eq_0[of "c + 24"]
      by auto
    with heap_alloc_fresh[OF assms a this] a show ?thesis by auto
  qed
qed

theorem heap_alloc_correct_witness:
  "\<exists>p s' bs'. heap_alloc 100 heap_example = Some (p, s') \<and> heap_rep 0x400000 s' bs' \<and> p \<noteq> 0"
proof -
  have "first_fit (unat (100 :: u64)) 0x400000 [(16777192, False)] = Some 0x400000" by simp
  then have "heap_alloc 100 heap_example = Some (of_nat (0x400000 + 24), take_block 100 0x400000 heap_example)"
    using heap_alloc_refines(1)[OF heap_example_rep, of 100] by simp
  with heap_alloc_correct[OF heap_example_rep, of 100] show ?thesis by auto
qed

text \<open>C6: Releasing a payload that is in use keeps the kernel heap well-formed and removes exactly
  that payload from those in use: all others keep their place and size, whether or not the freed
  block is merged with its successor.\<close>

theorem heap_free_correct:
  assumes "heap_rep base s bs" and "(unat p, k) \<in> live base bs"
  shows "\<exists>bs'. heap_rep base (heap_free p s) bs' \<and> live base bs' = live base bs - {(unat p, k)}"
  using assms by (rule heap_free_live)

theorem heap_free_correct_witness:
  "\<exists>bs'. heap_rep 0x400000 (heap_free 0x400018 (take_block 100 0x400000 heap_example)) bs' \<and>
     live 0x400000 bs' = {}"
proof -
  have f: "first_fit (unat (100 :: u64)) 0x400000 [(16777192, False)] = Some 0x400000" by simp
  from heap_alloc_refines(2)[OF heap_example_rep f]
  have "heap_rep 0x400000 (take_block 100 0x400000 heap_example) [(100, True), (16777068, False)]"
    by simp
  from heap_free_correct[OF this, of "0x400018" 100] show ?thesis by simp
qed

end
