(* ===== verification/Pmm.thy ===== *)
theory Pmm
  imports Nyx_Prelude
begin

text \<open>
  The physical page allocator of \<open>src/kernel/memory.c\<close>: the frame bitmap (a set bit is a
  free frame), the per-frame reference count used by copy-on-write, the pinned frames of
  the shared libc, and initialisation from the firmware memory map. Every operation runs
  under \<open>page_lock\<close> with interrupts off, so an operation is one atomic step here; the
  lock itself and the \<open>printf\<close> diagnostics carry no state and are left out. The arrays
  are functions from the frame number; \<open>MAX_PAGES\<close> bounds them.
\<close>

section \<open>State and operations\<close>

definition MAX_PAGES :: nat where
  "MAX_PAGES = 131072"

definition BITMAP_WORDS :: nat where
  "BITMAP_WORDS = 4096"

record mb_mmap_entry =
  mb_base :: u64
  mb_len :: u64
  mb_type :: u32

record pmm =
  page_bitmap :: "u32 arr"
  total_pages :: u32
  free_pages :: u32
  page_refcount :: "u8 arr"
  page_pinned :: "u8 arr"
  memory_total :: u64
  memory_used :: u64

text \<open>\<open>(uint32_t)(uintptr_t)addr / PAGE_SIZE\<close>: the address is cut to 32 bits first.\<close>

definition page_idx :: "u64 \<Rightarrow> u32" where
  "page_idx addr = (ucast addr :: u32) div 4096"

abbreviation pidx :: "u64 \<Rightarrow> nat" where
  "pidx addr \<equiv> unat (page_idx addr)"

text \<open>The bit of frame \<open>i\<close> in \<open>page_bitmap[i / 32]\<close>.\<close>

definition page_bit :: "pmm \<Rightarrow> nat \<Rightarrow> bool" where
  "page_bit s i \<longleftrightarrow> page_bitmap s (i div 32) AND mask_bit (i mod 32) \<noteq> 0"

definition set_page_bit :: "nat \<Rightarrow> pmm \<Rightarrow> pmm" where
  "set_page_bit i s = s\<lparr>page_bitmap :=
     (page_bitmap s)(i div 32 := page_bitmap s (i div 32) OR mask_bit (i mod 32))\<rparr>"

definition clear_page_bit :: "nat \<Rightarrow> pmm \<Rightarrow> pmm" where
  "clear_page_bit i s = s\<lparr>page_bitmap :=
     (page_bitmap s)(i div 32 := page_bitmap s (i div 32) AND NOT (mask_bit (i mod 32)))\<rparr>"

definition page_pin :: "u64 \<Rightarrow> pmm \<Rightarrow> pmm" where
  "page_pin addr s =
     (if pidx addr < MAX_PAGES then s\<lparr>page_pinned := (page_pinned s)(pidx addr := 1)\<rparr> else s)"

definition reserve_one :: "nat \<Rightarrow> pmm \<Rightarrow> pmm" where
  "reserve_one i s =
     (if page_bit s i then (clear_page_bit i s)\<lparr>free_pages := free_pages s - 1\<rparr> else s)"

definition reserve_low_pages :: "u32 \<Rightarrow> pmm \<Rightarrow> pmm" where
  "reserve_low_pages end_page s =
     fold reserve_one [0..<min (unat end_page) (unat (total_pages s))] s"

text \<open>The inner loop of the firmware-map branch of \<open>init_memory\<close>.\<close>

definition free_one :: "nat \<Rightarrow> pmm \<Rightarrow> pmm" where
  "free_one p s =
     (if page_bit s p then s else (set_page_bit p s)\<lparr>free_pages := free_pages s + 1\<rparr>)"

lemma free_one_total [simp]: "total_pages (free_one p s) = total_pages s"
  by (simp add: free_one_def set_page_bit_def)

lemma page_step_wrap:
  fixes a :: u64
  assumes "unat (ucast (a div 4096) :: u32) < unat (t :: u32)"
  shows "unat (ucast ((a + 4096) div 4096) :: u32) = Suc (unat (ucast (a div 4096) :: u32))"
proof -
  have bnd: "unat a < 2 ^ 64" using u64_bound[of a] by simp
  have p: "unat (ucast (a div 4096) :: u32) = (unat a div 4096) mod 2 ^ 32"
    by (simp add: unsigned_ucast_eq take_bit_eq_mod unat_div_distrib)
  have ap: "unat (a + 4096) = (unat a + 4096) mod 2 ^ 64"
    by (simp add: unat_word_ariths)
  have lt: "(unat a div 4096) mod 2 ^ 32 < 2 ^ 32 - 1"
  proof -
    have "unat t \<le> 4294967295" using u32_bound[of t] by linarith
    with assms p show ?thesis by simp
  qed
  have nowrap: "unat a + 4096 < 2 ^ 64"
  proof (rule ccontr)
    assume "\<not> ?thesis"
    with bnd have "unat a div 4096 = 2 ^ 52 - 1" by simp
    with lt show False by simp
  qed
  have "unat (ucast ((a + 4096) div 4096) :: u32) = ((unat a + 4096) div 4096) mod 2 ^ 32"
    using nowrap ap
    by (simp add: unsigned_ucast_eq take_bit_eq_mod unat_div_distrib)
  also have "\<dots> = Suc (unat a div 4096) mod 2 ^ 32" by (simp add: div_add_self2)
  also have "\<dots> = Suc ((unat a div 4096) mod 2 ^ 32)"
    using lt by (simp add: mod_Suc)
  finally show ?thesis using p by simp
qed

function free_region :: "u64 \<Rightarrow> u64 \<Rightarrow> pmm \<Rightarrow> pmm" where
  "free_region a e s =
     (if a < e then
        (let p = (ucast (a div 4096) :: u32) in
         if p \<ge> total_pages s then s
         else free_region (a + 4096) e (free_one (unat p) s))
      else s)"
  by pat_completeness auto
termination
proof (relation "measure (\<lambda>(a, e, s). unat (total_pages s) - unat (ucast (a div 4096) :: u32))")
  fix a e :: u64 and s :: pmm and x :: u32
  assume "x = ucast (a div 4096)" and "\<not> total_pages s \<le> x"
  then have lt: "unat (ucast (a div 4096) :: u32) < unat (total_pages s)"
    by (simp add: word_less_nat_alt not_le)
  from page_step_wrap[OF lt] lt
  show "((a + 4096, e, free_one (unat x) s), a, e, s)
        \<in> measure (\<lambda>(a, e, s). unat (total_pages s) - unat (ucast (a div 4096) :: u32))"
    by simp
qed simp

declare free_region.simps [simp del]

definition mmap_top :: "mb_mmap_entry list \<Rightarrow> u64" where
  "mmap_top mm = fold (\<lambda>r top. if mb_type r = 1 \<and> mb_base r + mb_len r > top
                                then mb_base r + mb_len r else top) mm 0"

definition cap_pages :: "u32 \<Rightarrow> u32" where
  "cap_pages n = (if unat n > MAX_PAGES then of_nat MAX_PAGES else n)"

definition free_entry :: "mb_mmap_entry \<Rightarrow> pmm \<Rightarrow> pmm" where
  "free_entry r s =
     (if mb_type r \<noteq> 1 then s
      else free_region ((mb_base r + 4095) AND NOT 4095) ((mb_base r + mb_len r) AND NOT 4095) s)"

text \<open>
  \<open>kernel_end\<close> is the address of the linker symbol \<open>_kernel_end\<close>. A missing map
  (\<open>mmap == NULL\<close> or \<open>mmap_count <= 0\<close>) is the empty list.
\<close>

definition init_memory :: "u64 \<Rightarrow> u64 \<Rightarrow> mb_mmap_entry list \<Rightarrow> pmm \<Rightarrow> pmm" where
  "init_memory kernel_end mem_size mm s0 =
     (let s = s0\<lparr>memory_total := mem_size, memory_used := 0\<rparr>;
          kernel_end_page = (ucast ((kernel_end + 4095) div 4096) :: u32)
      in if mm \<noteq> [] then
           (let s = s\<lparr>page_bitmap := (\<lambda>_. 0), free_pages := 0\<rparr>;
                s = s\<lparr>total_pages := cap_pages (ucast (mmap_top mm div 4096))\<rparr>;
                s = fold free_entry mm s;
                low_1mb = 256
            in reserve_low_pages (if kernel_end_page > low_1mb then kernel_end_page else low_1mb) s)
         else
           (let s = s\<lparr>page_bitmap := (\<lambda>_. 0xFFFFFFFF),
                       total_pages := cap_pages (ucast (mem_size div 4096))\<rparr>;
                s = s\<lparr>free_pages := total_pages s\<rparr>
            in reserve_low_pages kernel_end_page s))"

function alloc_scan :: "pmm \<Rightarrow> nat \<Rightarrow> nat option" where
  "alloc_scan s i =
     (if i < BITMAP_WORDS \<and> i * 32 < unat (total_pages s) then
        (if page_bitmap s i \<noteq> 0 then Some i else alloc_scan s (Suc i))
      else None)"
  by pat_completeness auto
termination
  by (relation "measure (\<lambda>(s, i). BITMAP_WORDS - i)") auto

declare alloc_scan.simps [simp del]

text \<open>The returned pointer is a word; 0 is \<open>NULL\<close>.\<close>

definition alloc_page :: "pmm \<Rightarrow> u64 \<times> pmm" where
  "alloc_page s =
     (case alloc_scan s 0 of
        None \<Rightarrow> (0, s)
      | Some i \<Rightarrow>
          (let b = ctz32 (page_bitmap s i); p = i * 32 + b in
           if p \<ge> unat (total_pages s) then (0, s)
           else (ucast ((of_nat p :: u32) * 4096),
                 s\<lparr>page_bitmap := (page_bitmap s)(i := page_bitmap s i AND NOT (mask_bit b)),
                   free_pages := free_pages s - 1,
                   memory_used := memory_used s + 4096,
                   page_refcount := (page_refcount s)(p := 1)\<rparr>)))"

definition page_incref :: "u64 \<Rightarrow> pmm \<Rightarrow> pmm" where
  "page_incref addr s =
     (if page_idx addr \<ge> total_pages s then s
      else if page_refcount s (pidx addr) < 0xFF
      then s\<lparr>page_refcount := (page_refcount s)(pidx addr := page_refcount s (pidx addr) + 1)\<rparr>
      else s)"

definition get_free_pages :: "pmm \<Rightarrow> u32" where
  "get_free_pages s = free_pages s"

definition page_get_refcount :: "u64 \<Rightarrow> pmm \<Rightarrow> u32" where
  "page_get_refcount addr s =
     (if page_idx addr \<ge> total_pages s then 0 else ucast (page_refcount s (pidx addr)))"

definition free_page :: "u64 \<Rightarrow> pmm \<Rightarrow> pmm" where
  "free_page addr s =
     (let p = pidx addr in
      if page_idx addr \<ge> total_pages s then s
      else if page_refcount s p > 1
      then s\<lparr>page_refcount := (page_refcount s)(p := page_refcount s p - 1)\<rparr>
      else if page_pinned s p \<noteq> 0
      then s\<lparr>page_refcount := (page_refcount s)(p := 1)\<rparr>
      else (set_page_bit p s)\<lparr>page_refcount := (page_refcount s)(p := 0),
             free_pages := free_pages s + 1, memory_used := memory_used s - 4096\<rparr>)"

section \<open>The free set and the effect of each operation on it\<close>

text \<open>The allocator's abstract state: which frames of the pool are free.\<close>

definition free_set :: "pmm \<Rightarrow> nat set" where
  "free_set s = {i. i < unat (total_pages s) \<and> page_bit s i}"

lemma page_bit_iff: "page_bit s i \<longleftrightarrow> bit (page_bitmap s (i div 32)) (i mod 32)"
  by (simp add: page_bit_def and_mask_bit_eq_0)

lemma div_mod_32_eq: "i div 32 = j div 32 \<Longrightarrow> (i mod 32 = j mod 32) = (i = (j::nat))"
  by (metis div_mult_mod_eq)

lemma page_bit_set [simp]: "page_bit (set_page_bit i s) j \<longleftrightarrow> j = i \<or> page_bit s j"
  by (auto simp: page_bit_iff set_page_bit_def bit_set_mask div_mod_32_eq)

lemma page_bit_clear [simp]: "page_bit (clear_page_bit i s) j \<longleftrightarrow> j \<noteq> i \<and> page_bit s j"
  by (auto simp: page_bit_iff clear_page_bit_def bit_clear_mask div_mod_32_eq)

lemma set_page_bit_frame [simp]:
  "total_pages (set_page_bit i s) = total_pages s" "free_pages (set_page_bit i s) = free_pages s"
  "page_refcount (set_page_bit i s) = page_refcount s"
  "page_pinned (set_page_bit i s) = page_pinned s"
  by (simp_all add: set_page_bit_def)

lemma clear_page_bit_frame [simp]:
  "total_pages (clear_page_bit i s) = total_pages s"
  "free_pages (clear_page_bit i s) = free_pages s"
  "page_refcount (clear_page_bit i s) = page_refcount s"
  "page_pinned (clear_page_bit i s) = page_pinned s"
  by (simp_all add: clear_page_bit_def)

lemma page_bit_upd [simp]:
  "page_bit (s\<lparr>free_pages := x\<rparr>) i = page_bit s i"
  "page_bit (s\<lparr>page_refcount := r\<rparr>) i = page_bit s i"
  "page_bit (s\<lparr>page_pinned := p\<rparr>) i = page_bit s i"
  "page_bit (s\<lparr>memory_used := m\<rparr>) i = page_bit s i"
  "page_bit (s\<lparr>total_pages := t\<rparr>) i = page_bit s i"
  by (simp_all add: page_bit_def)

text \<open>
  The scan of \<open>alloc_page\<close> finds the lowest free frame of the pool: the first non-zero
  bitmap word and its lowest set bit.
\<close>

lemma alloc_scan_SomeD:
  "alloc_scan s i = Some k \<Longrightarrow>
     i \<le> k \<and> k < BITMAP_WORDS \<and> k * 32 < unat (total_pages s) \<and> page_bitmap s k \<noteq> 0 \<and>
     (\<forall>j. i \<le> j \<and> j < k \<longrightarrow> page_bitmap s j = 0)"
proof (induction s i rule: alloc_scan.induct)
  case (1 s i)
  show ?case
  proof (cases "page_bitmap s i \<noteq> 0")
    case True
    with "1.prems" show ?thesis by (auto simp: alloc_scan.simps[of s i] split: if_splits)
  next
    case False
    with "1.prems" have g: "i < BITMAP_WORDS \<and> i * 32 < unat (total_pages s)"
      and r: "alloc_scan s (Suc i) = Some k"
      by (auto simp: alloc_scan.simps[of s i] split: if_splits)
    from "1.IH"[OF g _ r] False have
      "Suc i \<le> k \<and> k < BITMAP_WORDS \<and> k * 32 < unat (total_pages s) \<and> page_bitmap s k \<noteq> 0 \<and>
       (\<forall>j. Suc i \<le> j \<and> j < k \<longrightarrow> page_bitmap s j = 0)" by simp
    with False show ?thesis by (metis Suc_leI le_eq_less_or_eq Suc_leD)
  qed
qed

lemma alloc_scan_NoneD:
  "alloc_scan s i = None \<Longrightarrow> i \<le> j \<Longrightarrow> j < BITMAP_WORDS \<Longrightarrow> j * 32 < unat (total_pages s) \<Longrightarrow>
     page_bitmap s j = 0"
proof (induction s i rule: alloc_scan.induct)
  case (1 s i)
  then have g: "i < BITMAP_WORDS \<and> i * 32 < unat (total_pages s)" by auto
  with "1.prems" have z: "page_bitmap s i = 0" and r: "alloc_scan s (Suc i) = None"
    by (auto simp: alloc_scan.simps[of s i] split: if_splits)
  show ?case
  proof (cases "j = i")
    case False
    with "1.prems" have "Suc i \<le> j" by simp
    with "1.IH"[OF g _ r] z "1.prems" show ?thesis by simp
  qed (simp add: z)
qed

lemma page_word_zero: "page_bitmap s (i div 32) = 0 \<Longrightarrow> \<not> page_bit s i"
  by (simp add: page_bit_iff)

lemma total_words:
  assumes "unat (total_pages s) \<le> MAX_PAGES" and "i < unat (total_pages s)"
  shows "i div 32 < BITMAP_WORDS" and "i div 32 * 32 < unat (total_pages s)"
proof -
  from assms have "i < 131072" by (simp add: MAX_PAGES_def)
  then have "i div 32 < 131072 div 32" by (simp add: less_mult_imp_div_less)
  then show "i div 32 < BITMAP_WORDS" by (simp add: BITMAP_WORDS_def)
  have "i div 32 * 32 \<le> i" by simp
  with assms(2) show "i div 32 * 32 < unat (total_pages s)" by linarith
qed

text \<open>What \<open>alloc_page\<close> does, over the free set: the two outcomes.\<close>

definition alloc_at :: "nat \<Rightarrow> pmm \<Rightarrow> pmm" where
  "alloc_at p s = (clear_page_bit p s)\<lparr>free_pages := free_pages s - 1,
     memory_used := memory_used s + 4096, page_refcount := (page_refcount s)(p := 1)\<rparr>"

definition frame_addr :: "nat \<Rightarrow> u64" where
  "frame_addr p = ucast ((of_nat p :: u32) * 4096)"

lemma alloc_page_spec:
  assumes "unat (total_pages s) \<le> MAX_PAGES"
  shows "alloc_page s =
    (if free_set s = {} then (0, s)
     else (frame_addr (Min (free_set s)), alloc_at (Min (free_set s)) s))"
proof (cases "alloc_scan s 0")
  case None
  have "free_set s = {}"
  proof -
    { fix i assume "i < unat (total_pages s)"
      with total_words[OF assms this] alloc_scan_NoneD[OF None, of "i div 32"]
      have "\<not> page_bit s i" by (simp add: page_word_zero) }
    then show ?thesis by (auto simp: free_set_def)
  qed
  with None show ?thesis by (simp add: alloc_page_def)
next
  case (Some k)
  let ?w = "page_bitmap s k" and ?b = "ctz32 (page_bitmap s k)"
  let ?p = "k * 32 + ?b"
  note k = alloc_scan_SomeD[OF Some]
  then have w: "?w \<noteq> 0" by simp
  note c = ctz32_props[OF w]
  have dm: "?p div 32 = k" "?p mod 32 = ?b" using c(1) by simp_all
  have pb: "page_bit s ?p" using c(1,2) by (simp add: page_bit_iff)
  have low: "\<not> page_bit s j" if "j < ?p" for j
  proof (cases "j div 32 = k")
    case True
    then have "j mod 32 < ?b" using that
      by (metis add_less_cancel_left div_mult_mod_eq)
    then show ?thesis using c(3) True by (simp add: page_bit_iff)
  next
    case False
    have "j div 32 \<le> ?p div 32" using that by (intro div_le_mono) simp
    then have "j div 32 < k" using False dm by simp
    then show ?thesis using k by (simp add: page_word_zero)
  qed
  show ?thesis
  proof (cases "?p < unat (total_pages s)")
    case True
    then have "?p \<in> free_set s" using pb by (simp add: free_set_def)
    moreover have "finite (free_set s)" by (simp add: free_set_def)
    moreover have "?p \<le> i" if "i \<in> free_set s" for i
      using that low[of i] by (force simp: free_set_def)
    ultimately have m: "Min (free_set s) = ?p" and ne: "free_set s \<noteq> {}"
      by (auto intro: Min_eqI)
    with Some True c(1) show ?thesis
      by (simp add: alloc_page_def alloc_at_def clear_page_bit_def frame_addr_def dm Let_def)
  next
    case False
    then have "free_set s = {}" using low by (fastforce simp: free_set_def)
    with Some False show ?thesis by (simp add: alloc_page_def Let_def)
  qed
qed

lemma frame_addr_idx:
  assumes "p < MAX_PAGES"
  shows "pidx (frame_addr p) = p" and "frame_addr p = 0 \<longleftrightarrow> p = 0"
    and "unat (frame_addr p) = p * 4096"
proof -
  have u: "unat ((of_nat p :: u32) * 4096) = p * 4096"
    using assms by (simp add: MAX_PAGES_def unat_word_ariths unsigned_of_nat take_bit_eq_mod)
  then show f: "unat (frame_addr p) = p * 4096"
    using assms by (simp add: MAX_PAGES_def frame_addr_def unsigned_ucast_eq take_bit_eq_mod)
  then show "pidx (frame_addr p) = p" using assms
    by (simp add: MAX_PAGES_def page_idx_def unat_div_distrib unsigned_ucast_eq take_bit_eq_mod)
  from f show "frame_addr p = 0 \<longleftrightarrow> p = 0"
    by (metis mult_is_0 unsigned_0 unsigned_eq_0_iff zero_neq_numeral)
qed

lemma frame_addr_inj:
  assumes "p < MAX_PAGES" and "q < MAX_PAGES" and "frame_addr p = frame_addr q"
  shows "p = q"
  using frame_addr_idx(1)[OF assms(1)] frame_addr_idx(1)[OF assms(2)] unfolding assms(3) by (rule subst)

lemma free_set_alloc_at [simp]: "free_set (alloc_at p s) = free_set s - {p}"
  by (auto simp: free_set_def alloc_at_def)

lemma finite_free_set [simp]: "finite (free_set s)"
  by (simp add: free_set_def)

section \<open>The allocator invariant\<close>

text \<open>
  The pool fits the static tables, \<open>free_pages\<close> is exactly the number of free frames, and a
  free frame has no references.
\<close>

definition pmm_inv :: "pmm \<Rightarrow> bool" where
  "pmm_inv s \<longleftrightarrow> unat (total_pages s) \<le> MAX_PAGES \<and> unat (free_pages s) = card (free_set s) \<and>
     (\<forall>i \<in> free_set s. page_refcount s i = 0)"

lemma pmm_invD:
  assumes "pmm_inv s"
  shows "unat (total_pages s) \<le> MAX_PAGES" "unat (free_pages s) = card (free_set s)"
    "i \<in> free_set s \<Longrightarrow> page_refcount s i = 0"
  using assms by (auto simp: pmm_inv_def)

lemma pmm_inv_alloc_at:
  assumes "pmm_inv s" and "p \<in> free_set s"
  shows "pmm_inv (alloc_at p s)"
proof -
  have "card (free_set s) > 0" using assms(2) by (auto simp: card_gt_0_iff)
  then have nz: "free_pages s \<noteq> 0" using assms(1) by (auto simp: pmm_inv_def)
  have "unat (free_pages s - 1) = card (free_set s - {p})"
    using assms nz by (simp add: unat_dec pmm_inv_def)
  then show ?thesis using assms(1)
    unfolding pmm_inv_def free_set_alloc_at by (auto simp: alloc_at_def)
qed

lemma pmm_inv_alloc [nyx_inv]: "pmm_inv s \<Longrightarrow> pmm_inv (snd (alloc_page s))"
  using pmm_inv_alloc_at by (simp add: alloc_page_spec[OF pmm_invD(1)])

lemma free_set_frame [simp]:
  "free_set (s\<lparr>page_refcount := r\<rparr>) = free_set s"
  "free_set (s\<lparr>page_pinned := q\<rparr>) = free_set s"
  "free_set (s\<lparr>memory_used := m\<rparr>) = free_set s"
  "free_set (s\<lparr>free_pages := f\<rparr>) = free_set s"
  by (simp_all add: free_set_def)

lemma free_set_set_bit [simp]:
  "i < unat (total_pages s) \<Longrightarrow> free_set (set_page_bit i s) = insert i (free_set s)"
  by (auto simp: free_set_def)

lemma free_set_card_le: "card (free_set s) \<le> unat (total_pages s)"
proof -
  have "free_set s \<subseteq> {..<unat (total_pages s)}" by (auto simp: free_set_def)
  then show ?thesis by (metis card_lessThan card_mono finite_lessThan)
qed

lemma pmm_inv_incref [nyx_inv]:
  "pmm_inv s \<Longrightarrow> pidx a \<notin> free_set s \<Longrightarrow> pmm_inv (page_incref a s)"
  by (auto simp: pmm_inv_def page_incref_def)

lemma pmm_inv_pin [nyx_inv]: "pmm_inv s \<Longrightarrow> pmm_inv (page_pin a s)"
  by (auto simp: pmm_inv_def page_pin_def)

lemma pmm_inv_free [nyx_inv]:
  assumes inv: "pmm_inv s" and alloc: "pidx a \<notin> free_set s"
  shows "pmm_inv (free_page a s)"
proof (cases "page_idx a \<ge> total_pages s \<or> page_refcount s (pidx a) > 1 \<or> page_pinned s (pidx a) \<noteq> 0")
  case True
  then show ?thesis using assms
    by (auto simp: free_page_def Let_def pmm_inv_def)
next
  case False
  then have lt: "pidx a < unat (total_pages s)" by (simp add: word_less_nat_alt not_le)
  have "Suc (card (free_set s)) = card (insert (pidx a) (free_set s))" using alloc by simp
  also have "\<dots> \<le> unat (total_pages s)"
    using free_set_card_le[of "set_page_bit (pidx a) s"] lt by simp
  finally have "unat (free_pages s) + 1 < 2 ^ 32"
    using inv by (simp add: pmm_inv_def MAX_PAGES_def)
  then have "unat (free_pages s + 1) = unat (free_pages s) + 1" by (simp add: unat_inc)
  with False lt assms show ?thesis
    by (auto simp: free_page_def Let_def pmm_inv_def)
qed

section \<open>Initialisation from the firmware map\<close>

definition counted :: "pmm \<Rightarrow> bool" where
  "counted s \<longleftrightarrow> unat (free_pages s) = card (free_set s)"

lemma free_one_spec:
  assumes "p < unat (total_pages s)"
  shows "free_set (free_one p s) = insert p (free_set s)"
    and "counted s \<Longrightarrow> counted (free_one p s)"
proof -
  show fs: "free_set (free_one p s) = insert p (free_set s)"
    using assms by (auto simp: free_one_def free_set_def)
  assume c: "counted s"
  show "counted (free_one p s)"
  proof (cases "page_bit s p")
    case False
    then have "p \<notin> free_set s" by (simp add: free_set_def)
    then have "Suc (card (free_set s)) = card (free_set (free_one p s))" by (simp add: fs)
    moreover have "card (free_set (free_one p s)) \<le> unat (total_pages s)"
      using free_set_card_le[of "free_one p s"] by simp
    ultimately have "unat (free_pages s) + 1 < 2 ^ 32"
      using c u32_bound[of "total_pages s"] by (simp add: counted_def)
    then have "unat (free_pages s + 1) = unat (free_pages s) + 1" by (simp add: unat_inc)
    then show ?thesis using fs False c \<open>p \<notin> free_set s\<close>
      by (simp add: free_one_def counted_def)
  qed (use c in \<open>simp add: free_one_def\<close>)
qed

lemma free_region_frame [simp]:
  "total_pages (free_region a e s) = total_pages s"
  "page_refcount (free_region a e s) = page_refcount s"
  "page_pinned (free_region a e s) = page_pinned s"
  by (induction a e s rule: free_region.induct, subst free_region.simps,
      simp add: Let_def free_one_def set_page_bit_def)+

lemma free_region_step:
  assumes "a < e" and "(ucast (a div 4096) :: u32) < total_pages s"
  shows "free_region a e s =
    free_region (a + 4096) e (free_one (unat (ucast (a div 4096) :: u32)) s)"
  using assms leD free_region.simps[of a e s] by (auto simp: Let_def)

lemma free_region_stop:
  "\<not> (a < e \<and> (ucast (a div 4096) :: u32) < total_pages s) \<Longrightarrow> free_region a e s = s"
  using free_region.simps[of a e s] by (auto simp: Let_def)

lemma free_region_counted: "counted s \<Longrightarrow> counted (free_region a e s)"
proof (induction a e s rule: free_region.induct)
  case (1 a e s)
  show ?case
  proof (cases "a < e \<and> (ucast (a div 4096) :: u32) < total_pages s")
    case True
    then have lt: "unat (ucast (a div 4096) :: u32) < unat (total_pages s)"
      by (simp add: word_less_nat_alt)
    have "\<not> total_pages s \<le> ucast (a div 4096)" using True by (simp add: not_le)
    then have "counted (free_region (a + 4096) e (free_one (unat (ucast (a div 4096) :: u32)) s))"
      using "1.IH"[OF _ refl] free_one_spec(2)[OF lt "1.prems"] True by blast
    then show ?thesis using True by (simp only: free_region_step)
  qed (simp add: free_region_stop "1.prems")
qed

text \<open>Below 2\<open>^\<close>44 bytes the 32-bit frame number of an address is exact.\<close>

lemma frame_no: "unat (a :: u64) < 2 ^ 44 \<Longrightarrow> unat (ucast (a div 4096) :: u32) = unat a div 4096"
  by (simp add: unsigned_ucast_eq take_bit_eq_mod unat_div_distrib)

lemma free_region_set:
  assumes "unat e < 2 ^ 44" and "4096 dvd unat a" and "4096 dvd unat e"
  shows "free_set (free_region a e s) =
    free_set s \<union> {i. unat a div 4096 \<le> i \<and> i < unat e div 4096 \<and> i < unat (total_pages s)}"
  using assms
proof (induction a e s rule: free_region.induct)
  case (1 a e s)
  let ?p = "unat a div 4096"
  let ?S = "\<lambda>p. {i. p \<le> i \<and> i < unat e div 4096 \<and> i < unat (total_pages s)}"
  show ?case
  proof (cases "a < e")
    case False
    then have "unat e div 4096 \<le> ?p" by (simp add: word_less_nat_alt div_le_mono)
    with False show ?thesis by (auto simp: free_region_stop)
  next
    case True
    then have lt: "unat a < unat e" by (simp add: word_less_nat_alt)
    with "1.prems" have fn: "unat (ucast (a div 4096) :: u32) = ?p" by (intro frame_no) simp
    have pe: "?p < unat e div 4096"
    proof -
      from "1.prems"(2,3) obtain k m where "unat a = 4096 * k" "unat e = 4096 * m"
        by (auto elim!: dvdE)
      with lt show ?thesis by simp
    qed
    show ?thesis
    proof (cases "(ucast (a div 4096) :: u32) < total_pages s")
      case False
      then have "unat (total_pages s) \<le> ?p" by (simp add: word_less_nat_alt fn)
      with False show ?thesis by (auto simp: free_region_stop)
    next
      case pt: True
      then have p: "?p < unat (total_pages s)" by (simp add: word_less_nat_alt fn)
      have a': "unat (a + 4096) = unat a + 4096"
        using lt "1.prems"(1) by (simp add: unat_word_ariths)
      have d: "(unat a + 4096) div 4096 = Suc ?p" by (simp add: div_add_self2)
      have "\<not> total_pages s \<le> ucast (a div 4096)" using pt by (simp add: not_le)
      from "1.IH"[OF True refl this] "1.prems"(1,3) a' d fn "1.prems"(2)
      have "free_set (free_region (a + 4096) e (free_one ?p s)) =
            free_set (free_one ?p s) \<union> ?S (Suc ?p)"
        by simp
      also have "\<dots> = free_set s \<union> insert ?p (?S (Suc ?p))"
        using free_one_spec(1)[OF p] by simp
      also have "insert ?p (?S (Suc ?p)) = ?S ?p"
        using p pe by auto
      finally show ?thesis
        by (simp only: free_region_step[OF True pt] fn)
    qed
  qed
qed

lemma free_entry_frame [simp]:
  "total_pages (free_entry r s) = total_pages s"
  "page_refcount (free_entry r s) = page_refcount s"
  by (simp_all add: free_entry_def)

lemma free_entry_counted: "counted s \<Longrightarrow> counted (free_entry r s)"
  by (simp add: free_entry_def free_region_counted)

text \<open>A region the frame arithmetic of \<open>init_memory\<close> handles without truncation.\<close>

definition region_ok :: "mb_mmap_entry \<Rightarrow> bool" where
  "region_ok r \<longleftrightarrow> unat (mb_base r) + unat (mb_len r) + 4095 < 2 ^ 44"

text \<open>Frame \<open>i\<close> lies wholly inside an available (type 1) region.\<close>

definition frame_in :: "mb_mmap_entry \<Rightarrow> nat \<Rightarrow> bool" where
  "frame_in r i \<longleftrightarrow> mb_type r = 1 \<and> unat (mb_base r) \<le> i * 4096 \<and>
     (i + 1) * 4096 \<le> unat (mb_base r) + unat (mb_len r)"

lemma free_entry_set:
  assumes "region_ok r"
  shows "free_set (free_entry r s) =
    free_set s \<union> {i. frame_in r i \<and> i < unat (total_pages s)}"
proof (cases "mb_type r = 1")
  case True
  let ?b = "unat (mb_base r)" and ?l = "unat (mb_len r)"
  let ?a = "(mb_base r + 4095) AND NOT 4095" and ?e = "(mb_base r + mb_len r) AND NOT 4095"
  have b: "unat (mb_base r + 4095) = ?b + 4095" "unat (mb_base r + mb_len r) = ?b + ?l"
    using assms by (simp_all add: region_ok_def unat_word_ariths)
  have a: "unat ?a = (?b + 4095) div 4096 * 4096" and e: "unat ?e = (?b + ?l) div 4096 * 4096"
    by (simp_all only: unat_align_down b)
  have "(?b + ?l) div 4096 * 4096 \<le> ?b + ?l" by simp
  then have "unat ?e < 2 ^ 44" using assms unfolding e region_ok_def by linarith
  then have "free_set (free_entry r s) = free_set s \<union>
      {i. (?b + 4095) div 4096 \<le> i \<and> i < (?b + ?l) div 4096 \<and> i < unat (total_pages s)}"
    using True free_region_set[of ?e ?a s] unfolding a e by (simp add: free_entry_def)
  moreover have "((?b + 4095) div 4096 \<le> i) = (?b \<le> i * 4096)" for i by arith
  moreover have "(i < (?b + ?l) div 4096) = ((i + 1) * 4096 \<le> ?b + ?l)" for i
    using less_eq_div_iff_mult_less_eq[of 4096 "Suc i" "?b + ?l"] by (simp add: Suc_le_eq)
  ultimately show ?thesis using True by (auto simp: frame_in_def)
qed (simp add: free_entry_def frame_in_def)

lemma fold_free_entry:
  assumes "\<forall>r \<in> set mm. region_ok r"
  shows "free_set (fold free_entry mm s) =
      free_set s \<union> {i. (\<exists>r \<in> set mm. frame_in r i) \<and> i < unat (total_pages s)}"
    and "total_pages (fold free_entry mm s) = total_pages s"
    and "page_refcount (fold free_entry mm s) = page_refcount s"
    and "counted s \<Longrightarrow> counted (fold free_entry mm s)"
proof -
  show "free_set (fold free_entry mm s) =
      free_set s \<union> {i. (\<exists>r \<in> set mm. frame_in r i) \<and> i < unat (total_pages s)}"
    using assms
  proof (induction mm arbitrary: s)
    case (Cons r mm)
    then have "free_set (fold free_entry mm (free_entry r s)) = free_set (free_entry r s) \<union>
        {i. (\<exists>r \<in> set mm. frame_in r i) \<and> i < unat (total_pages s)}" by simp
    with free_entry_set[of r s] Cons.prems show ?case by auto
  qed simp
  show "total_pages (fold free_entry mm s) = total_pages s"
    "page_refcount (fold free_entry mm s) = page_refcount s"
    by (induction mm arbitrary: s) auto
  show "counted s \<Longrightarrow> counted (fold free_entry mm s)"
    by (induction mm arbitrary: s) (simp_all add: free_entry_counted)
qed

lemma reserve_one_spec:
  "i < unat (total_pages s) \<Longrightarrow> free_set (reserve_one i s) = free_set s - {i}"
  "total_pages (reserve_one i s) = total_pages s"
  "page_refcount (reserve_one i s) = page_refcount s"
  by (auto simp: reserve_one_def free_set_def)

lemma reserve_one_counted:
  assumes "i < unat (total_pages s)" and "counted s"
  shows "counted (reserve_one i s)"
proof (cases "page_bit s i")
  case True
  then have i: "i \<in> free_set s" using assms(1) by (simp add: free_set_def)
  then have "card (free_set s) > 0" by (auto simp: card_gt_0_iff)
  then have "free_pages s \<noteq> 0" using assms(2) by (auto simp: counted_def)
  then show ?thesis using True i assms(2) reserve_one_spec(1)[OF assms(1)]
    by (simp add: reserve_one_def unat_dec counted_def)
qed (use assms in \<open>simp add: reserve_one_def\<close>)

lemma fold_reserve:
  "n \<le> unat (total_pages s) \<Longrightarrow>
     free_set (fold reserve_one [0..<n] s) = {i \<in> free_set s. n \<le> i} \<and>
     total_pages (fold reserve_one [0..<n] s) = total_pages s \<and>
     page_refcount (fold reserve_one [0..<n] s) = page_refcount s \<and>
     (counted s \<longrightarrow> counted (fold reserve_one [0..<n] s))"
proof (induction n)
  case (Suc n)
  then have IH: "free_set (fold reserve_one [0..<n] s) = {i \<in> free_set s. n \<le> i}"
    "total_pages (fold reserve_one [0..<n] s) = total_pages s"
    "page_refcount (fold reserve_one [0..<n] s) = page_refcount s"
    "counted s \<longrightarrow> counted (fold reserve_one [0..<n] s)" by simp_all
  let ?t = "fold reserve_one [0..<n] s"
  have n: "n < unat (total_pages ?t)" using IH(2) Suc.prems by simp
  have "{i \<in> free_set s. n \<le> i} - {n} = {i \<in> free_set s. Suc n \<le> i}" by auto
  then show ?case
    using reserve_one_spec(1)[OF n] reserve_one_spec(2,3)[of n ?t] reserve_one_counted[OF n] IH
    by simp
qed simp

lemma reserve_low_spec:
  "free_set (reserve_low_pages e s) = {i \<in> free_set s. unat e \<le> i}"
  "total_pages (reserve_low_pages e s) = total_pages s"
  "page_refcount (reserve_low_pages e s) = page_refcount s"
  "counted s \<Longrightarrow> counted (reserve_low_pages e s)"
proof -
  let ?n = "min (unat e) (unat (total_pages s))"
  note f = fold_reserve[of ?n s, simplified]
  have "{i \<in> free_set s. ?n \<le> i} = {i \<in> free_set s. unat e \<le> i}"
    by (auto simp: free_set_def)
  with f show "free_set (reserve_low_pages e s) = {i \<in> free_set s. unat e \<le> i}"
    by (simp add: reserve_low_pages_def)
  from f show "total_pages (reserve_low_pages e s) = total_pages s"
    "page_refcount (reserve_low_pages e s) = page_refcount s"
    "counted s \<Longrightarrow> counted (reserve_low_pages e s)"
    by (simp_all add: reserve_low_pages_def)
qed

lemma unat_cap_pages: "unat (cap_pages n) = min (unat n) MAX_PAGES"
  by (simp add: cap_pages_def MAX_PAGES_def unsigned_of_nat take_bit_eq_mod)

lemma init_memory_inv [nyx_inv]:
  assumes "\<forall>r \<in> set mm. region_ok r" and "\<forall>i. page_refcount s0 i = 0"
  shows "pmm_inv (init_memory ke ms mm s0)"
proof -
  have empty: "free_set (s\<lparr>page_bitmap := (\<lambda>_. 0), free_pages := 0, total_pages := t\<rparr>) = {}" for s t
    by (simp add: free_set_def page_bit_def)
  have full: "free_set (s\<lparr>page_bitmap := (\<lambda>_. 0xFFFFFFFF), total_pages := t\<rparr>)
      = {..<unat t}" for s t
  proof -
    have m: "(0xFFFFFFFF :: u32) = mask 32" by (simp add: mask_eq_exp_minus_1)
    have "bit (0xFFFFFFFF :: u32) (i mod 32)" for i
      unfolding m by (simp add: bit_mask_iff)
    then show ?thesis by (auto simp: free_set_def page_bit_iff)
  qed
  show ?thesis
    using fold_free_entry[OF assms(1)] assms(2)
    by (auto simp: init_memory_def Let_def pmm_inv_def reserve_low_spec empty full unat_cap_pages
        counted_def[symmetric] intro!: reserve_low_spec(4)) (simp_all add: counted_def empty full)
qed

section \<open>Runs of the allocator\<close>

text \<open>
  The steps a kernel that keeps the frame discipline can take: a frame is freed or shared only
  while it is allocated.
\<close>

inductive pmm_step :: "pmm \<Rightarrow> pmm \<Rightarrow> bool" where
  alloc: "pmm_step s (snd (alloc_page s))"
| incref: "pidx a \<notin> free_set s \<Longrightarrow> pmm_step s (page_incref a s)"
| free: "pidx a \<notin> free_set s \<Longrightarrow> pmm_step s (free_page a s)"
| pin: "pmm_step s (page_pin a s)"

inductive pmm_reach :: "pmm \<Rightarrow> bool" where
  boot: "\<forall>r \<in> set mm. region_ok r \<Longrightarrow> \<forall>i. page_refcount s0 i = 0 \<Longrightarrow>
    pmm_reach (init_memory ke ms mm s0)"
| step: "pmm_reach s \<Longrightarrow> pmm_step s t \<Longrightarrow> pmm_reach t"

lemma pmm_step_inv: "pmm_step s t \<Longrightarrow> pmm_inv s \<Longrightarrow> pmm_inv t"
  by (cases rule: pmm_step.cases) (auto intro: nyx_inv)

lemma pmm_reach_pmm_inv: "pmm_reach s \<Longrightarrow> pmm_inv s"
  by (induction rule: pmm_reach.induct) (auto intro: init_memory_inv pmm_step_inv)

section \<open>The interface its clients rely on\<close>

text \<open>
  What page tables, slab pages, process images and kernel stacks rely on: a non-null result is
  the address of a frame that was available and is so no longer, and nothing else changes hands.
\<close>

locale frame_source =
  fixes alloc :: "'s \<Rightarrow> u64 \<times> 's"
    and avail :: "'s \<Rightarrow> nat set"
    and inv :: "'s \<Rightarrow> bool"
  assumes alloc_keeps_inv: "inv s \<Longrightarrow> inv (snd (alloc s))"
    and alloc_null: "inv s \<Longrightarrow> avail s = {} \<Longrightarrow> alloc s = (0, s)"
    and alloc_frame: "inv s \<Longrightarrow> avail s \<noteq> {} \<Longrightarrow>
      \<exists>p \<in> avail s. fst (alloc s) = frame_addr p \<and> avail (snd (alloc s)) = avail s - {p}"
    and avail_bound: "inv s \<Longrightarrow> avail s \<subseteq> {..<MAX_PAGES}"
begin

lemma alloc_result:
  assumes "inv s"
  shows "fst (alloc s) = 0 \<or> (\<exists>p \<in> avail s. p \<noteq> 0 \<and> fst (alloc s) = frame_addr p \<and>
    avail (snd (alloc s)) = avail s - {p})"
proof (cases "avail s = {}")
  case True
  with alloc_null[OF assms] show ?thesis by simp
next
  case False
  from alloc_frame[OF assms this] obtain p where p: "p \<in> avail s"
    "fst (alloc s) = frame_addr p" "avail (snd (alloc s)) = avail s - {p}" by blast
  moreover have "p < MAX_PAGES" using avail_bound[OF assms] p(1) by auto
  ultimately show ?thesis using frame_addr_idx(2)[of p] by (cases "p = 0") auto
qed

end

text \<open>A client that asks for \<open>n\<close> frames one after the other (the loops of the ELF loader).\<close>

fun alloc_many :: "('s \<Rightarrow> u64 \<times> 's) \<Rightarrow> nat \<Rightarrow> 's \<Rightarrow> u64 list \<times> 's" where
  "alloc_many f 0 s = ([], s)"
| "alloc_many f (Suc n) s =
     (let (a, s1) = f s; (as, s2) = alloc_many f n s1 in (a # as, s2))"

context frame_source
begin

lemma alloc_many_inv: "inv s \<Longrightarrow> inv (snd (alloc_many alloc n s))"
  by (induction n arbitrary: s) (auto simp: split_def Let_def intro: alloc_keeps_inv)

lemma avail_mono: "inv s \<Longrightarrow> avail (snd (alloc s)) \<subseteq> avail s"
  using alloc_null alloc_frame by (cases "avail s = {}") (simp, blast)

lemma alloc_many_from_avail:
  "inv s \<Longrightarrow> a \<in> set (fst (alloc_many alloc n s)) \<Longrightarrow> a \<noteq> 0 \<Longrightarrow> \<exists>p \<in> avail s. a = frame_addr p"
proof (induction n arbitrary: s)
  case (Suc n)
  show ?case
  proof (cases "a = fst (alloc s)")
    case True
    with alloc_result[OF Suc.prems(1)] Suc.prems(3) show ?thesis by auto
  next
    case False
    with Suc.prems have "a \<in> set (fst (alloc_many alloc n (snd (alloc s))))"
      by (simp add: split_def Let_def)
    with Suc alloc_keeps_inv avail_mono show ?thesis by blast
  qed
qed simp

theorem alloc_many_distinct:
  "inv s \<Longrightarrow> 0 \<notin> set (fst (alloc_many alloc n s)) \<Longrightarrow> distinct (fst (alloc_many alloc n s))"
proof (induction n arbitrary: s)
  case (Suc n)
  let ?s = "snd (alloc s)" and ?r = "fst (alloc_many alloc n (snd (alloc s)))"
  have r: "fst (alloc_many alloc (Suc n) s) = fst (alloc s) # ?r"
    by (simp add: split_def Let_def)
  with Suc.prems(2) have nz: "fst (alloc s) \<noteq> 0" "0 \<notin> set ?r" by auto
  from alloc_result[OF Suc.prems(1)] nz(1) obtain p where p: "p \<in> avail s"
    "fst (alloc s) = frame_addr p" "avail ?s = avail s - {p}" by blast
  have inv: "inv ?s" using Suc.prems(1) by (rule alloc_keeps_inv)
  have "fst (alloc s) \<notin> set ?r"
  proof
    assume "fst (alloc s) \<in> set ?r"
    from alloc_many_from_avail[OF inv this nz(1)] p obtain q where
      q: "q \<in> avail s" "q \<noteq> p" "frame_addr p = frame_addr q" by auto
    with p(1) avail_bound[OF Suc.prems(1)] have "p < MAX_PAGES" "q < MAX_PAGES" by auto
    from frame_addr_inj[OF this q(3)] q(2) show False by blast
  qed
  with Suc.IH[OF inv nz(2)] r show ?case by simp
qed simp

end

lemma alloc_page_frame:
  assumes "pmm_inv s" and "free_set s \<noteq> {}"
  shows "\<exists>p \<in> free_set s. fst (alloc_page s) = frame_addr p \<and>
    free_set (snd (alloc_page s)) = free_set s - {p}"
proof
  show "Min (free_set s) \<in> free_set s" using assms(2) by simp
  show "fst (alloc_page s) = frame_addr (Min (free_set s)) \<and>
    free_set (snd (alloc_page s)) = free_set s - {Min (free_set s)}"
    using assms(2) by (simp only: alloc_page_spec[OF pmm_invD(1)[OF assms(1)]]) simp
qed

interpretation pmm_frames: frame_source alloc_page free_set pmm_inv
proof unfold_locales
  fix s
  assume inv: "pmm_inv s"
  then show "pmm_inv (snd (alloc_page s))" by (rule pmm_inv_alloc)
  show "free_set s = {} \<Longrightarrow> alloc_page s = (0, s)"
    using inv by (simp add: alloc_page_spec[OF pmm_invD(1)])
  show "free_set s \<noteq> {} \<Longrightarrow> \<exists>p \<in> free_set s. fst (alloc_page s) = frame_addr p \<and>
      free_set (snd (alloc_page s)) = free_set s - {p}"
    using inv by (rule alloc_page_frame)
  show "free_set s \<subseteq> {..<MAX_PAGES}"
    using pmm_invD(1)[OF inv] by (auto simp: free_set_def)
qed

section \<open>Reference counts over a frame's life\<close>

lemma incref_many:
  assumes "pidx a < unat (total_pages s)" and "unat (page_refcount s (pidx a)) + k \<le> 255"
  shows "(page_incref a ^^ k) s = s\<lparr>page_refcount :=
    (page_refcount s)(pidx a := page_refcount s (pidx a) + of_nat k)\<rparr>"
  using assms(2)
proof (induction k)
  case (Suc k)
  let ?r = "page_refcount s (pidx a)"
  have "unat (?r + of_nat k) = unat ?r + k"
    using Suc.prems by (simp add: unat_word_ariths unsigned_of_nat take_bit_eq_mod)
  then have "?r + of_nat k < 0xFF" using Suc.prems by (simp add: word_less_nat_alt)
  moreover have "\<not> total_pages s \<le> page_idx a"
    using assms(1) by (simp add: word_le_nat_alt)
  ultimately show ?case using Suc
    by (simp add: page_incref_def algebra_simps fun_upd_def cong: if_cong)
qed (simp add: fun_upd_idem)

lemma free_many:
  assumes "pidx a < unat (total_pages s)" and "j < unat (page_refcount s (pidx a))"
  shows "(free_page a ^^ j) s = s\<lparr>page_refcount :=
    (page_refcount s)(pidx a := page_refcount s (pidx a) - of_nat j)\<rparr>"
  using assms(2)
proof (induction j)
  case (Suc j)
  let ?r = "page_refcount s (pidx a)"
  have "unat (of_nat j :: u8) = j"
    using Suc.prems u8_bound[of ?r] by (simp add: unsigned_of_nat take_bit_eq_mod)
  then have "unat (?r - of_nat j) = unat ?r - j" and "?r - of_nat j \<noteq> 0"
    using Suc.prems by (auto simp: unat_sub word_le_nat_alt)
  then have "1 < ?r - of_nat j" using Suc.prems by (simp add: word_less_nat_alt)
  moreover have "\<not> total_pages s \<le> page_idx a"
    using assms(1) by (simp add: word_le_nat_alt)
  ultimately show ?case using Suc
    by (simp add: free_page_def Let_def algebra_simps fun_upd_def cong: if_cong)
qed (simp add: fun_upd_idem)

lemma alloc_page_props:
  assumes "pmm_inv s" and "free_set s \<noteq> {}"
  defines "p \<equiv> Min (free_set s)"
  shows "fst (alloc_page s) = frame_addr p" "snd (alloc_page s) = alloc_at p s"
    "p \<in> free_set s" "pidx (frame_addr p) = p" "p < unat (total_pages s)"
proof -
  show p: "p \<in> free_set s" using assms(2) by (simp add: p_def)
  then show "p < unat (total_pages s)" by (simp add: free_set_def)
  then have "p < MAX_PAGES" using pmm_invD(1)[OF assms(1)] by simp
  then show "pidx (frame_addr p) = p" by (rule frame_addr_idx)
  show "fst (alloc_page s) = frame_addr p" "snd (alloc_page s) = alloc_at p s"
    using assms(2) by (simp_all only: alloc_page_spec[OF pmm_invD(1)[OF assms(1)]] p_def) simp_all
qed

lemma alloc_at_frame [simp]:
  "total_pages (alloc_at p s) = total_pages s"
  "page_refcount (alloc_at p s) = (page_refcount s)(p := 1)"
  "page_pinned (alloc_at p s) = page_pinned s"
  by (simp_all add: alloc_at_def)

text \<open>
  A frame that was allocated and shared \<open>k\<close> more times is back in the pool after exactly
  \<open>k + 1\<close> releases, and not before.
\<close>

lemma refcount_release:
  assumes inv: "pmm_inv s" and ne: "free_set s \<noteq> {}" and k: "k < 255"
    and unpinned: "page_pinned s (Min (free_set s)) = 0"
  defines "a \<equiv> fst (alloc_page s)"
  defines "t \<equiv> (page_incref a ^^ k) (snd (alloc_page s))"
  shows "j \<le> k \<Longrightarrow> free_set ((free_page a ^^ j) t) = free_set s - {pidx a}"
    and "free_set ((free_page a ^^ Suc k) t) = free_set s"
proof -
  define p where "p = Min (free_set s)"
  note P = alloc_page_props[OF inv ne, folded p_def]
  have a: "a = frame_addr p" "pidx a = p" by (simp_all add: a_def P)
  let ?s = "alloc_at p s"
  have t: "t = ?s\<lparr>page_refcount := (page_refcount ?s)(p := 1 + of_nat k)\<rparr>"
    unfolding t_def P(2) using incref_many[of a ?s k] a(2) P(5) k by simp
  have rc: "unat (page_refcount t p) = Suc k"
    using k by (simp add: t unat_word_ariths unsigned_of_nat take_bit_eq_mod)
  have tt: "pidx a < unat (total_pages t)" using a(2) P(5) by (simp add: t)
  have fs: "free_set t = free_set s - {p}" by (simp add: t)
  show "free_set ((free_page a ^^ j) t) = free_set s - {pidx a}" if "j \<le> k"
    using free_many[OF tt, of j] rc a(2) that fs by simp
  let ?u = "(free_page a ^^ k) t"
  have u: "?u = t\<lparr>page_refcount := (page_refcount t)(p := page_refcount t p - of_nat k)\<rparr>"
    using free_many[OF tt, of k] rc a(2) by simp
  have "\<not> total_pages t \<le> page_idx a" using tt by (simp add: word_le_nat_alt)
  moreover have "page_refcount t p - of_nat k = 1" by (simp add: t)
  moreover have "page_pinned t p = 0" using unpinned by (simp add: t p_def)
  ultimately have "free_page a ?u = (set_page_bit p ?u)\<lparr>page_refcount := (page_refcount ?u)(p := 0),
             free_pages := free_pages ?u + 1, memory_used := memory_used ?u - 4096\<rparr>"
    by (simp add: free_page_def Let_def a(2) u)
  then have "free_set (free_page a ?u) = insert p (free_set s - {p})"
    using P(5) fs by (simp add: u) (simp add: t)
  also have "\<dots> = free_set s" using P(3) by blast
  finally show "free_set ((free_page a ^^ Suc k) t) = free_set s" by simp
qed

section \<open>Pinned frames\<close>

lemma pinned_step:
  assumes "pmm_step s t" and "pmm_inv s" and "page_pinned s p \<noteq> 0" and "p \<notin> free_set s"
  shows "page_pinned t p \<noteq> 0 \<and> p \<notin> free_set t"
  using assms(1)
proof cases
  case alloc
  then show ?thesis using assms(2-4) by (simp add: alloc_page_spec[OF pmm_invD(1)])
next
  case (incref a)
  then show ?thesis using assms(3,4) by (simp add: page_incref_def)
next
  case (free a)
  show ?thesis
  proof (cases "pidx a = p")
    case True
    then show ?thesis using free assms(3,4) by (auto simp: free_page_def Let_def)
  next
    case False
    then show ?thesis using free assms(3,4)
      by (auto simp: free_page_def Let_def free_set_def)
  qed
next
  case (pin a)
  then show ?thesis using assms(3,4) by (simp add: page_pin_def)
qed

section \<open>The frames the firmware map makes available\<close>

lemma mmap_top_bound:
  assumes "\<forall>r \<in> set mm. region_ok r"
  shows "r \<in> set mm \<Longrightarrow> mb_type r = 1 \<Longrightarrow>
      unat (mb_base r) + unat (mb_len r) \<le> unat (mmap_top mm)"
    and "unat (mmap_top mm) < 2 ^ 44"
proof -
  let ?f = "\<lambda>r top. if mb_type r = 1 \<and> mb_base r + mb_len r > top
                      then mb_base r + mb_len r else top"
  have e: "unat (mb_base r + mb_len r) = unat (mb_base r) + unat (mb_len r)" if "region_ok r" for r
    using that by (simp add: region_ok_def unat_word_ariths)
  have mono: "t \<le> fold ?f mm t" for t mm
  proof (induction mm arbitrary: t)
    case (Cons r mm)
    have "t \<le> ?f r t" by (auto intro: less_imp_le)
    also have "\<dots> \<le> fold ?f mm (?f r t)" by (rule Cons.IH)
    finally show ?case by (simp only: fold.simps o_apply)
  qed simp
  have lower: "r \<in> set mm \<Longrightarrow> mb_type r = 1 \<Longrightarrow> mb_base r + mb_len r \<le> fold ?f mm t" for r t
  proof (induction mm arbitrary: t)
    case (Cons x mm)
    show ?case
    proof (cases "r = x")
      case True
      have "mb_base r + mb_len r \<le> ?f x t" using True Cons.prems(2) by (auto simp: not_less)
      also have "\<dots> \<le> fold ?f mm (?f x t)" by (rule mono)
      finally show ?thesis by (simp only: fold.simps o_apply)
    next
      case False
      with Cons show ?thesis by (simp only: fold.simps o_apply set_simps) blast
    qed
  qed simp
  have upper: "\<forall>r \<in> set mm. region_ok r \<Longrightarrow> unat t < 2 ^ 44 \<Longrightarrow> unat (fold ?f mm t) < 2 ^ 44" for t mm
  proof (induction mm arbitrary: t)
    case (Cons x mm)
    have "unat (?f x t) < 2 ^ 44"
      using Cons.prems e[of x] by (auto simp: region_ok_def)
    with Cons show ?case by (simp only: fold.simps o_apply) simp
  qed simp
  show "unat (mmap_top mm) < 2 ^ 44" using upper[OF assms, of 0] by (simp add: mmap_top_def)
  show "unat (mb_base r) + unat (mb_len r) \<le> unat (mmap_top mm)"
    if "r \<in> set mm" "mb_type r = 1"
    using lower[OF that, of 0] e[of r] assms that by (simp add: mmap_top_def word_le_nat_alt)
qed

definition kernel_end_page :: "u64 \<Rightarrow> nat" where
  "kernel_end_page ke = unat (ucast ((ke + 4095) div 4096) :: u32)"

lemma frame_in_pool:
  assumes "\<forall>r \<in> set mm. region_ok r" and "r \<in> set mm" and "frame_in r i"
  shows "i < unat (cap_pages (ucast (mmap_top mm div 4096))) \<longleftrightarrow> i < MAX_PAGES"
proof -
  from assms mmap_top_bound(1)[OF assms(1,2)] have "(i + 1) * 4096 \<le> unat (mmap_top mm)"
    unfolding frame_in_def by linarith
  then have "Suc i \<le> unat (mmap_top mm) div 4096"
    by (simp add: less_eq_div_iff_mult_less_eq)
  with frame_no[OF mmap_top_bound(2)[OF assms(1)]] show ?thesis
    by (auto simp: unat_cap_pages)
qed

lemma init_memory_free_set:
  assumes "mm \<noteq> []" and "\<forall>r \<in> set mm. region_ok r"
  shows "free_set (init_memory ke ms mm s0) =
    {i. i < MAX_PAGES \<and> 256 \<le> i \<and> kernel_end_page ke \<le> i \<and> (\<exists>r \<in> set mm. frame_in r i)}"
proof -
  let ?k = "ucast ((ke + 4095) div 4096) :: u32"
  let ?s = "s0\<lparr>memory_total := ms, memory_used := 0, page_bitmap := (\<lambda>_. 0), free_pages := 0,
              total_pages := cap_pages (ucast (mmap_top mm div 4096))\<rparr>"
  have "free_set ?s = {}" by (simp add: free_set_def page_bit_def)
  then have "free_set (fold free_entry mm ?s) =
      {i. (\<exists>r \<in> set mm. frame_in r i) \<and> i < unat (total_pages ?s)}"
    using fold_free_entry(1)[OF assms(2), of ?s] by blast
  also have "\<dots> = {i. (\<exists>r \<in> set mm. frame_in r i) \<and> i < MAX_PAGES}"
    using frame_in_pool[OF assms(2)] by auto
  finally have fs: "free_set (fold free_entry mm ?s) =
    {i. (\<exists>r \<in> set mm. frame_in r i) \<and> i < MAX_PAGES}" .
  have "unat (if ?k > 256 then ?k else 256) \<le> i \<longleftrightarrow> 256 \<le> i \<and> kernel_end_page ke \<le> i" for i
    by (auto simp: kernel_end_page_def word_less_nat_alt)
  with fs assms(1) show ?thesis
    by (auto simp: init_memory_def Let_def reserve_low_spec(1))
qed

section \<open>Properties\<close>

text \<open>The zeroed static state, and a machine with 261 pages of RAM whose kernel ends at page 257.\<close>

definition pmm_bss :: pmm where
  "pmm_bss = \<lparr>page_bitmap = (\<lambda>_. 0), total_pages = 0, free_pages = 0, page_refcount = (\<lambda>_. 0),
     page_pinned = (\<lambda>_. 0), memory_total = 0, memory_used = 0\<rparr>"

definition pmm_example :: pmm where
  "pmm_example = init_memory 0x101000 0x105000 [\<lparr>mb_base = 0, mb_len = 0x105000, mb_type = 1\<rparr>] pmm_bss"

lemma pmm_example_reach: "pmm_reach pmm_example"
  unfolding pmm_example_def by (rule pmm_reach.boot) (simp_all add: region_ok_def pmm_bss_def)

lemma pmm_example_free: "free_set pmm_example = {257, 258, 259, 260}"
proof -
  let ?r = "\<lparr>mb_base = 0, mb_len = 0x105000, mb_type = 1\<rparr>"
  have f: "frame_in ?r i \<longleftrightarrow> i < 261" for i
    by (simp add: frame_in_def) arith
  have k: "kernel_end_page 0x101000 = 257" by (simp add: kernel_end_page_def)
  have "free_set pmm_example = {i. i < MAX_PAGES \<and> 256 \<le> i \<and> 257 \<le> i \<and> i < 261}"
    using init_memory_free_set[where mm = "[?r]" and ke = "0x101000" and ms = "0x105000" and ?s0.0 = pmm_bss]
    by (simp add: pmm_example_def f k region_ok_def)
  also have "\<dots> = {i. 257 \<le> i \<and> i < 261}" by (auto simp: MAX_PAGES_def)
  also have "\<dots> = {257, 258, 259, 260}" by auto
  finally show ?thesis .
qed

lemma reserve_low_pinned [simp]: "page_pinned (reserve_low_pages e s) = page_pinned s"
proof -
  have "page_pinned (fold reserve_one xs s) = page_pinned s" for xs
    by (induction xs arbitrary: s) (simp_all add: reserve_one_def)
  then show ?thesis unfolding reserve_low_pages_def .
qed

lemma fold_free_entry_pinned [simp]: "page_pinned (fold free_entry mm s) = page_pinned s"
  by (induction mm arbitrary: s) (simp_all add: free_entry_def)

lemma init_memory_pinned [simp]: "page_pinned (init_memory ke ms mm s) = page_pinned s"
  unfolding init_memory_def Let_def by simp

text \<open>C1: In every state the allocator reaches from boot while frames are only freed or shared
  when allocated, \<open>free_pages\<close> equals the number of free frames in the bitmap, the pool fits the
  static tables and no free frame carries a reference.\<close>

theorem pmm_reach_inv: "pmm_reach s \<Longrightarrow> pmm_inv s"
  by (rule pmm_reach_pmm_inv)

theorem pmm_reach_inv_witness:
  "pmm_inv (snd (alloc_page pmm_example)) \<and> free_set pmm_example \<noteq> {}"
  using pmm_reach_inv[OF pmm_reach.step[OF pmm_example_reach pmm_step.alloc]]
  by (simp add: pmm_example_free)

text \<open>C2: After boot with a firmware map the free frames are exactly the frames that lie wholly
  inside an available region, above both the first megabyte and the kernel image, and below the
  512 MB the tables cover; so no firmware hole, no kernel page and no partial frame is ever in
  the pool.\<close>

theorem init_memory_frees_exactly_ram:
  assumes "mm \<noteq> []" and "\<forall>r \<in> set mm. region_ok r"
  shows "free_set (init_memory ke ms mm s0) =
    {i. i < MAX_PAGES \<and> 256 \<le> i \<and> kernel_end_page ke \<le> i \<and> (\<exists>r \<in> set mm. frame_in r i)}"
  using assms by (rule init_memory_free_set)

theorem init_memory_frees_exactly_ram_witness:
  "259 \<in> free_set (init_memory 0x101000 0 [\<lparr>mb_base = 0x100800, mb_len = 0x5000, mb_type = 1\<rparr>] pmm_bss) \<and>
   261 \<notin> free_set (init_memory 0x101000 0 [\<lparr>mb_base = 0x100800, mb_len = 0x5000, mb_type = 1\<rparr>] pmm_bss)"
  by (subst (1 2) init_memory_frees_exactly_ram)
    (simp_all add: region_ok_def frame_in_def kernel_end_page_def MAX_PAGES_def)

text \<open>Taking a page: \<open>alloc_page\<close> hands out the lowest free frame, with one reference, and takes exactly that
  frame out of the pool; it returns \<open>NULL\<close> and changes nothing exactly when the pool is empty.\<close>

theorem alloc_page_lowest:
  assumes "pmm_reach s"
  shows "if free_set s = {} then alloc_page s = (0, s)
    else unat (fst (alloc_page s)) = Min (free_set s) * 4096 \<and>
         free_set (snd (alloc_page s)) = free_set s - {Min (free_set s)} \<and>
         page_refcount (snd (alloc_page s)) = (page_refcount s)(Min (free_set s) := 1)"
proof (cases "free_set s = {}")
  case True
  then show ?thesis using pmm_frames.alloc_null[OF pmm_reach_pmm_inv[OF assms]] by simp
next
  case False
  note P = alloc_page_props[OF pmm_reach_pmm_inv[OF assms] False]
  have "Min (free_set s) < MAX_PAGES"
    using P(5) pmm_invD(1)[OF pmm_reach_pmm_inv[OF assms]] by linarith
  with False P frame_addr_idx(3) show ?thesis by simp
qed

theorem alloc_page_lowest_witness:
  "unat (fst (alloc_page pmm_example)) = 257 * 4096 \<and>
   free_set (snd (alloc_page pmm_example)) = {258, 259, 260}"
  using alloc_page_lowest[OF pmm_example_reach] by (simp add: pmm_example_free)

text \<open>Any number of consecutive successful allocations returns pairwise different frames: the
  allocator never hands the same frame out twice.\<close>

theorem alloc_page_no_double_allocation:
  assumes "pmm_reach s" and "0 \<notin> set (fst (alloc_many alloc_page n s))"
  shows "distinct (fst (alloc_many alloc_page n s))"
  using pmm_frames.alloc_many_distinct[OF pmm_reach_pmm_inv[OF assms(1)] assms(2)] .

lemma pmm_example_alloc:
  "fst (alloc_page pmm_example) = frame_addr 257"
  "snd (alloc_page pmm_example) = alloc_at 257 pmm_example"
  "fst (alloc_page (alloc_at 257 pmm_example)) = frame_addr 258"
proof -
  note inv = pmm_reach_pmm_inv[OF pmm_example_reach]
  show 1: "fst (alloc_page pmm_example) = frame_addr 257"
    "snd (alloc_page pmm_example) = alloc_at 257 pmm_example"
    using alloc_page_props(1,2)[OF inv] by (simp_all add: pmm_example_free)
  have inv': "pmm_inv (alloc_at 257 pmm_example)" using pmm_inv_alloc[OF inv] 1(2) by simp
  have "free_set (alloc_at 257 pmm_example) = {258, 259, 260}" by (simp add: pmm_example_free)
  then show "fst (alloc_page (alloc_at 257 pmm_example)) = frame_addr 258"
    using alloc_page_props(1)[OF inv'] by simp
qed

theorem alloc_page_no_double_allocation_witness:
  "distinct (fst (alloc_many alloc_page 2 pmm_example)) \<and>
   length (fst (alloc_many alloc_page 2 pmm_example)) = 2"
proof -
  have "0 \<notin> set (fst (alloc_many alloc_page 2 pmm_example))"
    using frame_addr_idx(2)[of 257] frame_addr_idx(2)[of 258]
    by (simp add: numeral_2_eq_2 split_def Let_def pmm_example_alloc MAX_PAGES_def)
  with alloc_page_no_double_allocation[OF pmm_example_reach, of 2] show ?thesis
    by (simp add: numeral_2_eq_2 split_def Let_def)
qed

text \<open>C3: Copy-on-write sharing: a frame that is allocated and then shared \<open>k < 255\<close> more times
  stays out of the pool for the first \<open>k\<close> releases and is returned to it by release \<open>k + 1\<close>.\<close>

theorem cow_release_exact:
  assumes "pmm_reach s" and "free_set s \<noteq> {}" and "k < 255"
    and "page_pinned s (Min (free_set s)) = 0"
  shows "let a = fst (alloc_page s); t = (page_incref a ^^ k) (snd (alloc_page s)) in
    (\<forall>j \<le> k. free_set ((free_page a ^^ j) t) = free_set s - {Min (free_set s)}) \<and>
    free_set ((free_page a ^^ Suc k) t) = free_set s"
proof -
  note inv = pmm_reach_pmm_inv[OF assms(1)]
  note P = alloc_page_props[OF inv assms(2)]
  show ?thesis unfolding Let_def
    using refcount_release[OF inv assms(2-4)] P(1,4) by (simp only: P(1,4)) blast
qed

theorem cow_release_exact_witness:
  "free_set ((free_page 0x101000 ^^ 3) ((page_incref 0x101000 ^^ 2) (alloc_at 257 pmm_example))) =
   {257, 258, 259, 260}"
proof -
  have fa: "frame_addr 257 = 0x101000" by (simp add: frame_addr_def)
  have "page_pinned pmm_example 257 = 0" by (simp add: pmm_example_def pmm_bss_def)
  with cow_release_exact[OF pmm_example_reach, of 2] show ?thesis
    by (simp add: pmm_example_free pmm_example_alloc fa Let_def numeral_3_eq_3)
qed

text \<open>C4: A pinned frame (a shared-libc master page) that is out of the pool stays out of it
  whatever the following steps are, over-releases included.\<close>

theorem pinned_never_freed:
  assumes "pmm_step\<^sup>*\<^sup>* s t" and "pmm_reach s" and "page_pinned s p \<noteq> 0" and "p \<notin> free_set s"
  shows "p \<notin> free_set t"
proof -
  from assms have "pmm_reach t \<and> page_pinned t p \<noteq> 0 \<and> p \<notin> free_set t"
  proof (induction rule: rtranclp_induct)
    case (step t u)
    then show ?case
      using pinned_step[OF step(2) pmm_reach_pmm_inv] pmm_reach.step by blast
  qed simp
  then show ?thesis by blast
qed

theorem pinned_never_freed_witness:
  "257 \<notin> free_set (free_page 0x101000 (free_page 0x101000 (page_pin 0x101000 (alloc_at 257 pmm_example))))"
proof -
  let ?p = "page_pin 0x101000 (alloc_at 257 pmm_example)"
  have i: "pidx 0x101000 = 257" by (simp add: page_idx_def)
  have r: "pmm_reach ?p"
    using pmm_reach.step[OF pmm_reach.step[OF pmm_example_reach pmm_step.alloc] pmm_step.pin]
    by (simp add: pmm_example_alloc)
  have o: "257 \<notin> free_set ?p" by (simp add: page_pin_def pmm_example_free)
  have p: "page_pinned ?p 257 \<noteq> 0" by (simp add: page_pin_def i MAX_PAGES_def)
  have 1: "pmm_step ?p (free_page 0x101000 ?p)" by (rule pmm_step.free) (simp only: i o not_False_eq_True)
  have "257 \<notin> free_set (free_page 0x101000 ?p)"
    using pinned_step[OF 1 pmm_reach_pmm_inv[OF r] p o] by blast
  then have "pmm_step (free_page 0x101000 ?p) (free_page 0x101000 (free_page 0x101000 ?p))"
    by (intro pmm_step.free) (simp only: i not_False_eq_True)
  with 1 have "pmm_step\<^sup>*\<^sup>* ?p (free_page 0x101000 (free_page 0x101000 ?p))" by simp
  from pinned_never_freed[OF this r p o] show ?thesis .
qed

end
