(* ===== verification/Slab.thy ===== *)
theory Slab
  imports Pmm
begin

text \<open>
  The slab allocator of \<open>src/kernel/slab.c\<close> and \<open>slab.h\<close>: six caches of fixed object sizes,
  each a doubly linked list of 4 KB pages taken from the page allocator, each page with a header
  and a linked list of free slots threaded through the slots themselves. Page headers and slot
  links are stores indexed by address. Walking the pages of a cache is a partial function; the
  corruption check of \<open>slab_alloc\<close> ends in \<open>Panic\<close>.
\<close>

section \<open>State and operations\<close>

definition SLAB_MAX_OBJ :: nat where
  "SLAB_MAX_OBJ = 1024"

definition slab_sizes :: "nat list" where
  "slab_sizes = [32, 64, 128, 256, 512, 1024]"

record slab_page =
  sp_next :: u64
  sp_prev :: u64
  sp_free_list :: u64
  sp_obj_size :: u32
  sp_total_objs :: u32
  sp_free_objs :: u32

record slab_cache =
  sc_obj_size :: u32
  sc_pages :: u64

record slab_st =
  slab_caches :: "slab_cache arr"
  slab_cache_count :: nat
  spage :: "u64 \<Rightarrow> slab_page"
  slot_next :: "u64 \<Rightarrow> u64"
  slab_pmm :: pmm

text \<open>\<open>sizeof(slab_page_t)\<close> with its tail padding.\<close>

abbreviation SPH :: nat where
  "SPH \<equiv> 40"

definition slab_init :: "slab_st \<Rightarrow> slab_st" where
  "slab_init s = fold (\<lambda>i s. s\<lparr>slab_caches := (slab_caches s)
       (i := \<lparr>sc_obj_size = of_nat (slab_sizes ! i), sc_pages = 0\<rparr>),
     slab_cache_count := slab_cache_count s + 1\<rparr>) [0..<length slab_sizes] s"

definition slab_find_cache :: "u32 \<Rightarrow> slab_st \<Rightarrow> nat option" where
  "slab_find_cache sz s = find_idx (slab_cache_count s) (\<lambda>i. sc_obj_size (slab_caches s i) \<ge> sz)"

text \<open>Threading slot \<open>i\<close> of a new page onto its free list.\<close>

definition push_slot :: "u64 \<Rightarrow> u32 \<Rightarrow> nat \<Rightarrow> (u64 \<Rightarrow> u64) \<times> u64 \<Rightarrow> (u64 \<Rightarrow> u64) \<times> u64" where
  "push_slot obj_start obj_size i nf =
     (let slot = obj_start + ucast (of_nat i * obj_size) in ((fst nf)(slot := snd nf), slot))"

definition slab_new_page :: "nat \<Rightarrow> slab_st \<Rightarrow> u64 \<times> slab_st" where
  "slab_new_page c s =
     (let (mem, m') = alloc_page (slab_pmm s); s = s\<lparr>slab_pmm := m'\<rparr> in
      if mem = 0 then (0, s)
      else
        (let osz = sc_obj_size (slab_caches s c);
             avail = 4096 - of_nat SPH;
             n = avail div osz;
             (nx, fl) = fold (push_slot (mem + of_nat SPH) osz) [0..<unat n] (slot_next s, 0);
             old = sc_pages (slab_caches s c);
             pg = \<lparr>sp_next = old, sp_prev = 0, sp_free_list = fl, sp_obj_size = osz,
                    sp_total_objs = n, sp_free_objs = n\<rparr>;
             sp = (spage s)(mem := pg);
             sp = (if old \<noteq> 0 then sp(old := (sp old)\<lparr>sp_prev := mem\<rparr>) else sp)
         in (mem, s\<lparr>spage := sp, slot_next := nx,
                    slab_caches := (slab_caches s)(c := (slab_caches s c)\<lparr>sc_pages := mem\<rparr>)\<rparr>)))"

partial_function (option) slab_find_page :: "slab_st \<Rightarrow> u64 \<Rightarrow> u64 option" where
  "slab_find_page s page =
     (if page = 0 then Some 0
      else if sp_free_list (spage s page) \<noteq> 0 then Some page
      else slab_find_page s (sp_next (spage s page)))"

definition pop_slot :: "u64 \<Rightarrow> slab_st \<Rightarrow> u64 \<times> slab_st" where
  "pop_slot page s =
     (let slot = sp_free_list (spage s page)
      in (slot, s\<lparr>spage := (spage s)(page := (spage s page)
                 \<lparr>sp_free_list := slot_next s slot, sp_free_objs := sp_free_objs (spage s page) - 1\<rparr>)\<rparr>))"

text \<open>\<open>None\<close>: the page list never ends. A result of 0 is \<open>NULL\<close>.\<close>

definition slab_alloc :: "u32 \<Rightarrow> slab_st \<Rightarrow> (u64 \<times> slab_st) outcome option" where
  "slab_alloc sz s =
     (if sz = 0 \<or> unat sz > SLAB_MAX_OBJ then Some (Ret (0, s))
      else case slab_find_cache sz s of
        None \<Rightarrow> Some (Ret (0, s))
      | Some c \<Rightarrow>
          (case slab_find_page s (sc_pages (slab_caches s c)) of
             None \<Rightarrow> None
           | Some page \<Rightarrow>
               if page \<noteq> 0 then
                 (let nx = slot_next s (sp_free_list (spage s page)) in
                  if nx \<noteq> 0 \<and> (nx < page + of_nat SPH \<or> nx \<ge> page + 4096) then Some Panic
                  else Some (Ret (pop_slot page s)))
               else
                 (let (new_page, s') = slab_new_page c s in
                  if new_page = 0 then Some (Ret (0, s')) else Some (Ret (pop_slot new_page s')))))"

definition slab_free :: "u64 \<Rightarrow> u32 \<Rightarrow> slab_st \<Rightarrow> slab_st" where
  "slab_free ptr sz s =
     (if ptr = 0 \<or> sz = 0 \<or> unat sz > SLAB_MAX_OBJ then s
      else case slab_find_cache sz s of
        None \<Rightarrow> s
      | Some c \<Rightarrow>
          (let page = ptr AND NOT 4095; pg = spage s page
           in s\<lparr>slot_next := (slot_next s)(ptr := sp_free_list pg),
                 spage := (spage s)(page := pg\<lparr>sp_free_list := ptr,
                   sp_free_objs := sp_free_objs pg + 1\<rparr>)\<rparr>))"

section \<open>The abstract slab\<close>

text \<open>
  The slots of the page at \<open>b\<close> for object size \<open>z\<close>, and the abstract state: the pages of every
  cache in list order and the free slots of every page in list order.
\<close>

definition slots :: "nat \<Rightarrow> nat \<Rightarrow> nat list" where
  "slots z b = map (\<lambda>k. b + SPH + k * z) [0..<4056 div z]"

record aslab =
  pgs :: "nat \<Rightarrow> nat list"
  fre :: "nat \<Rightarrow> nat list"

fun pchain :: "slab_st \<Rightarrow> u64 \<Rightarrow> nat list \<Rightarrow> bool" where
  "pchain s p [] \<longleftrightarrow> p = 0"
| "pchain s p (b # bs) \<longleftrightarrow> p = of_nat b \<and> pchain s (sp_next (spage s p)) bs"

fun fchain :: "(u64 \<Rightarrow> u64) \<Rightarrow> u64 \<Rightarrow> nat list \<Rightarrow> bool" where
  "fchain nx p [] \<longleftrightarrow> p = 0"
| "fchain nx p (x # xs) \<longleftrightarrow> p = of_nat x \<and> fchain nx (nx p) xs"

definition page_rep :: "slab_st \<Rightarrow> aslab \<Rightarrow> nat \<Rightarrow> nat \<Rightarrow> bool" where
  "page_rep s A i b \<longleftrightarrow> 4096 dvd b \<and> 0 < b \<and> b < 2 ^ 32 \<and> b div 4096 \<notin> free_set (slab_pmm s) \<and>
     fchain (slot_next s) (sp_free_list (spage s (of_nat b))) (fre A b) \<and>
     set (fre A b) \<subseteq> set (slots (slab_sizes ! i) b) \<and> distinct (fre A b) \<and>
     unat (sp_free_objs (spage s (of_nat b))) = length (fre A b)"

definition slab_rep :: "slab_st \<Rightarrow> aslab \<Rightarrow> bool" where
  "slab_rep s A \<longleftrightarrow> pmm_inv (slab_pmm s) \<and> slab_cache_count s = 6 \<and>
     (\<forall>i<6. sc_obj_size (slab_caches s i) = of_nat (slab_sizes ! i)) \<and>
     (\<forall>i<6. pchain s (sc_pages (slab_caches s i)) (pgs A i)) \<and>
     (\<forall>i<6. \<forall>b \<in> set (pgs A i). page_rep s A i b) \<and>
     (\<forall>i<6. distinct (pgs A i)) \<and>
     (\<forall>i<6. \<forall>j<6. i \<noteq> j \<longrightarrow> set (pgs A i) \<inter> set (pgs A j) = {})"

text \<open>Objects in use: every slot of every page that is not on its page's free list.\<close>

definition slab_live :: "aslab \<Rightarrow> (nat \<times> nat) set" where
  "slab_live A = {(x, slab_sizes ! i) | x i. i < 6 \<and>
     (\<exists>b \<in> set (pgs A i). x \<in> set (slots (slab_sizes ! i) b) \<and> x \<notin> set (fre A b))}"

text \<open>All pages of the slab, present and future, lie at or above an address.\<close>

definition slab_above :: "nat \<Rightarrow> slab_st \<Rightarrow> aslab \<Rightarrow> bool" where
  "slab_above lo s A \<longleftrightarrow> (\<forall>f \<in> free_set (slab_pmm s). lo \<le> f * 4096) \<and>
     (\<forall>i<6. \<forall>b \<in> set (pgs A i). lo \<le> b)"

section \<open>Size classes and slots\<close>

lemma slab_sizes_cases: "i < 6 \<Longrightarrow> slab_sizes ! i \<in> {32, 64, 128, 256, 512, 1024}"
  by (auto simp: slab_sizes_def less_Suc_eq numeral_eq_Suc nth_Cons')

lemma slab_size_bounds: "i < 6 \<Longrightarrow> 32 \<le> slab_sizes ! i \<and> slab_sizes ! i \<le> 1024"
  using slab_sizes_cases by fastforce

lemma unat_slab_size: "i < 6 \<Longrightarrow> unat (of_nat (slab_sizes ! i) :: u32) = slab_sizes ! i"
  using slab_size_bounds[of i] by (simp add: unsigned_of_nat take_bit_eq_mod)

lemma slots_fit: "z \<noteq> 0 \<Longrightarrow> x \<in> set (slots z b) \<Longrightarrow> b + SPH \<le> x \<and> x + z \<le> b + 4096"
proof -
  assume z: "z \<noteq> 0" and "x \<in> set (slots z b)"
  then obtain k where x: "x = b + SPH + k * z" and k: "k < 4056 div z" by (auto simp: slots_def)
  have "Suc k * z \<le> 4056 div z * z" using k by (intro mult_le_mono1) simp
  also have "\<dots> \<le> 4056" by simp
  finally show ?thesis using x by simp
qed

lemma slots_page:
  assumes "z \<noteq> 0" and "x \<in> set (slots z b)" and "4096 dvd b"
  shows "x div 4096 * 4096 = b"
proof -
  from assms(3) obtain k where b: "b = 4096 * k" by (auto elim: dvdE)
  from slots_fit[OF assms(1,2)] assms(1) have "4096 * k \<le> x" "x < 4096 * Suc k"
    by (simp_all add: b)
  then have "x div 4096 = k" by (rule div_nat_eqI)
  then show ?thesis by (simp add: b)
qed

lemma slots_apart:
  assumes "z \<noteq> 0" and "x \<in> set (slots z b)" and "y \<in> set (slots z b)" and "x \<noteq> y"
  shows "apart (x, z) (y, z)"
proof -
  from assms obtain k l where k: "x = b + SPH + k * z" "y = b + SPH + l * z" and ne: "k \<noteq> l"
    by (auto simp: slots_def)
  then consider "Suc k \<le> l" | "Suc l \<le> k" by linarith
  then show ?thesis
  proof cases
    case 1
    then have "Suc k * z \<le> l * z" by (rule mult_le_mono1)
    then show ?thesis by (simp add: apart_def k)
  next
    case 2
    then have "Suc l * z \<le> k * z" by (rule mult_le_mono1)
    then show ?thesis by (simp add: apart_def k)
  qed
qed

lemma find_cache_spec:
  assumes "slab_rep s A" and "0 < sz" and "unat sz \<le> SLAB_MAX_OBJ"
  shows "\<exists>c<6. slab_find_cache sz s = Some c \<and> unat sz \<le> slab_sizes ! c \<and>
    (\<forall>j<c. slab_sizes ! j < unat sz)"
proof -
  have r: "slab_cache_count s = 6" "\<And>i. i < 6 \<Longrightarrow> sc_obj_size (slab_caches s i) = of_nat (slab_sizes ! i)"
    using assms(1) by (auto simp: slab_rep_def)
  have le: "(sc_obj_size (slab_caches s i) \<ge> sz) = (unat sz \<le> slab_sizes ! i)" if "i < 6" for i
    using that by (simp add: r(2) word_le_nat_alt unat_slab_size)
  have "unat sz \<le> slab_sizes ! 5" using assms(3) by (simp add: SLAB_MAX_OBJ_def slab_sizes_def)
  then have "slab_find_cache sz s \<noteq> None"
    using le[of 5] unfolding slab_find_cache_def r(1) find_idx_None by force
  then obtain c where c: "slab_find_cache sz s = Some c" by blast
  then have f: "c < 6" "sc_obj_size (slab_caches s c) \<ge> sz"
    "\<And>j. j < c \<Longrightarrow> \<not> sc_obj_size (slab_caches s j) \<ge> sz"
    unfolding slab_find_cache_def r(1) find_idx_Some by blast+
  then have "slab_sizes ! j < unat sz" if "j < c" for j
    using le[of j] f(1) f(3)[OF that] that by (auto simp: not_le)
  with c f(1,2) le show ?thesis by blast
qed

section \<open>Page and slot lists\<close>

lemma find_page_spec:
  assumes "pchain s p bs" and "\<forall>b \<in> set bs. 0 < b \<and> b < 2 ^ 32"
  shows "slab_find_page s p = Some (case find (\<lambda>b. sp_free_list (spage s (of_nat b)) \<noteq> 0) bs of
    None \<Rightarrow> 0 | Some b \<Rightarrow> of_nat b)"
  using assms
proof (induction bs arbitrary: p)
  case (Cons b bs)
  then have "(of_nat b :: u64) \<noteq> 0" by (simp add: addr_eq_0)
  with Cons show ?case by (subst slab_find_page.simps) auto
qed (simp add: slab_find_page.simps)

lemma pchain_cong:
  "(\<And>b. b \<in> set bs \<Longrightarrow> sp_next (spage s' (of_nat b)) = sp_next (spage s (of_nat b))) \<Longrightarrow>
     pchain s' p bs = pchain s p bs"
  by (induction bs arbitrary: p) auto

lemma fchain_cong:
  "(\<And>x. x \<in> set xs \<Longrightarrow> nx' (of_nat x) = nx (of_nat x)) \<Longrightarrow> fchain nx' p xs = fchain nx p xs"
  by (induction xs arbitrary: p) auto

lemma page_repD:
  assumes "page_rep s A i b" and "i < 6"
  shows "4096 dvd b" "0 < b" "b < 2 ^ 32" "b div 4096 \<notin> free_set (slab_pmm s)"
    "fchain (slot_next s) (sp_free_list (spage s (of_nat b))) (fre A b)"
    "distinct (fre A b)" "unat (sp_free_objs (spage s (of_nat b))) = length (fre A b)"
    "x \<in> set (fre A b) \<Longrightarrow> x \<in> set (slots (slab_sizes ! i) b)"
    "x \<in> set (slots (slab_sizes ! i) b) \<Longrightarrow> b + SPH \<le> x \<and> x < b + 4096"
    "sp_free_list (spage s (of_nat b)) \<noteq> 0 \<longleftrightarrow> fre A b \<noteq> []"
proof -
  have z: "slab_sizes ! i \<noteq> 0" using slab_size_bounds[OF assms(2)] by auto
  show b: "4096 dvd b" "0 < b" "b < 2 ^ 32" "b div 4096 \<notin> free_set (slab_pmm s)"
    "distinct (fre A b)" "unat (sp_free_objs (spage s (of_nat b))) = length (fre A b)"
    and f: "fchain (slot_next s) (sp_free_list (spage s (of_nat b))) (fre A b)"
    using assms(1) by (simp_all add: page_rep_def)
  show sub: "x \<in> set (fre A b) \<Longrightarrow> x \<in> set (slots (slab_sizes ! i) b)" for x
    using assms(1) by (auto simp: page_rep_def)
  show rng: "x \<in> set (slots (slab_sizes ! i) b) \<Longrightarrow> b + SPH \<le> x \<and> x < b + 4096" for x
    using slots_fit[OF z, of x b] z by auto
  show "sp_free_list (spage s (of_nat b)) \<noteq> 0 \<longleftrightarrow> fre A b \<noteq> []"
  proof (cases "fre A b")
    case (Cons x xs)
    have "x < 2 ^ 64" "0 < x" using rng[OF sub, of x] b(3) by (auto simp: Cons)
    then show ?thesis using f by (simp add: Cons addr_eq_0)
  qed (use f in simp)
qed

lemma slab_repD:
  assumes "slab_rep s A"
  shows "pmm_inv (slab_pmm s)" "slab_cache_count s = 6"
    "i < 6 \<Longrightarrow> sc_obj_size (slab_caches s i) = of_nat (slab_sizes ! i)"
    "i < 6 \<Longrightarrow> pchain s (sc_pages (slab_caches s i)) (pgs A i)"
    "i < 6 \<Longrightarrow> b \<in> set (pgs A i) \<Longrightarrow> page_rep s A i b"
    "i < 6 \<Longrightarrow> distinct (pgs A i)"
    "i < 6 \<Longrightarrow> j < 6 \<Longrightarrow> b \<in> set (pgs A i) \<Longrightarrow> b \<in> set (pgs A j) \<Longrightarrow> i = j"
  using assms unfolding slab_rep_def by (simp_all, blast)

text \<open>
  A change of one page's free list: the other pages are untouched because page addresses and
  slot addresses of different pages differ.
\<close>

lemma slab_rep_update_page:
  assumes rep: "slab_rep s A" and i: "i < 6" and b: "b \<in> set (pgs A i)"
    and next_same: "\<And>p. sp_next (spage s' p) = sp_next (spage s p)"
    and other: "\<And>c. c < 2 ^ 32 \<Longrightarrow> c \<noteq> b \<Longrightarrow> spage s' (of_nat c) = spage s (of_nat c)"
    and slots_same: "\<And>x. x < 2 ^ 64 \<Longrightarrow> x div 4096 * 4096 \<noteq> b \<Longrightarrow> slot_next s' (of_nat x) = slot_next s (of_nat x)"
    and frame: "slab_caches s' = slab_caches s" "slab_cache_count s' = slab_cache_count s"
      "slab_pmm s' = slab_pmm s"
    and page: "page_rep s' (A\<lparr>fre := (fre A)(b := xs)\<rparr>) i b"
  shows "slab_rep s' (A\<lparr>fre := (fre A)(b := xs)\<rparr>)"
proof -
  let ?A = "A\<lparr>fre := (fre A)(b := xs)\<rparr>"
  have "page_rep s' ?A j c" if j: "j < 6" and c: "c \<in> set (pgs A j)" for j c
  proof (cases "c = b")
    case True
    then have "j = i" using slab_repD(7)[OF rep j i] b c by simp
    with True page show ?thesis by simp
  next
    case False
    note P = page_repD[OF slab_repD(5)[OF rep j c] j]
    have "fchain (slot_next s') (sp_free_list (spage s (of_nat c))) (fre A c)"
    proof -
      have "slot_next s' (of_nat x) = slot_next s (of_nat x)" if x: "x \<in> set (fre A c)" for x
      proof -
        have xs: "x \<in> set (slots (slab_sizes ! j) c)" using P(8)[OF x] .
        have "x div 4096 * 4096 = c"
          using slots_page[OF _ xs P(1)] slab_size_bounds[OF j] by auto
        then show ?thesis using False slots_same[of x] P(9)[OF xs] P(3) by simp
      qed
      with P(5) show ?thesis using fchain_cong[of "fre A c"] by metis
    qed
    then show ?thesis
      using slab_repD(5)[OF rep j c] False other[OF P(3) False] frame by (simp add: page_rep_def)
  qed
  moreover have "pchain s' p bs = pchain s p bs" for p bs using next_same by (intro pchain_cong)
  ultimately show ?thesis using rep frame by (simp add: slab_rep_def)
qed

lemma slot_addr_facts:
  assumes "page_rep s A i b" and "i < 6" and "x \<in> set (slots (slab_sizes ! i) b)"
  shows "x < 2 ^ 64" "0 < x" "x div 4096 * 4096 = b" "b + SPH \<le> x" "x < b + 4096"
    "x + slab_sizes ! i \<le> b + 4096"
proof -
  note P = page_repD[OF assms(1,2)]
  have z: "slab_sizes ! i \<noteq> 0" using slab_size_bounds[OF assms(2)] by auto
  show "b + SPH \<le> x" "x < b + 4096" "x + slab_sizes ! i \<le> b + 4096"
    using P(9)[OF assms(3)] slots_fit[OF z assms(3)] by auto
  with P(2,3) show "x < 2 ^ 64" "0 < x" by simp_all
  show "x div 4096 * 4096 = b" by (rule slots_page[OF z assms(3) P(1)])
qed

lemma page_addr_neq: "c < 2 ^ 32 \<Longrightarrow> b < 2 ^ 32 \<Longrightarrow> c \<noteq> b \<Longrightarrow> (of_nat c :: u64) \<noteq> of_nat b"
  by (simp add: addr_eq)

lemma pop_slot_rep:
  assumes rep: "slab_rep s A" and i: "i < 6" and b: "b \<in> set (pgs A i)" and f: "fre A b = x # xs"
  shows "fst (pop_slot (of_nat b) s) = of_nat x"
    and "slab_rep (snd (pop_slot (of_nat b) s)) (A\<lparr>fre := (fre A)(b := xs)\<rparr>)"
proof -
  note pr = slab_repD(5)[OF rep i b]
  note P = page_repD[OF pr i]
  have fl: "sp_free_list (spage s (of_nat b)) = of_nat x" "fchain (slot_next s) (slot_next s (of_nat x)) xs"
    using P(5) by (auto simp: f)
  then show "fst (pop_slot (of_nat b) s) = of_nat x" by (simp add: pop_slot_def Let_def)
  have "sp_free_objs (spage s (of_nat b)) \<noteq> 0" using P(7) by (auto simp: f)
  then have "page_rep (snd (pop_slot (of_nat b) s)) (A\<lparr>fre := (fre A)(b := xs)\<rparr>) i b"
    using pr fl P(7) by (simp add: page_rep_def pop_slot_def Let_def f unat_dec)
  then show "slab_rep (snd (pop_slot (of_nat b) s)) (A\<lparr>fre := (fre A)(b := xs)\<rparr>)"
    using page_addr_neq[OF _ P(3)]
    by (intro slab_rep_update_page[OF rep i b]) (simp_all add: pop_slot_def Let_def)
qed

lemma slab_live_iff: "(y, z) \<in> slab_live A \<longleftrightarrow> (\<exists>i<6. z = slab_sizes ! i \<and>
    (\<exists>b \<in> set (pgs A i). y \<in> set (slots (slab_sizes ! i) b) \<and> y \<notin> set (fre A b)))"
  by (auto simp: slab_live_def)

lemma pop_slot_live:
  assumes rep: "slab_rep s A" and i: "i < 6" and b: "b \<in> set (pgs A i)" and f: "fre A b = x # xs"
  shows "slab_live (A\<lparr>fre := (fre A)(b := xs)\<rparr>) = insert (x, slab_sizes ! i) (slab_live A)"
    and "(x, slab_sizes ! i) \<notin> slab_live A"
proof -
  note P = page_repD[OF slab_repD(5)[OF rep i b] i]
  have x: "x \<in> set (slots (slab_sizes ! i) b)" "x \<notin> set xs" using P(6,8) by (simp_all add: f)
  have uniq: "c = b \<and> j = i" if "j < 6" "c \<in> set (pgs A j)" "x \<in> set (slots (slab_sizes ! j) c)" for j c
  proof -
    have "c = b"
      using slot_addr_facts(3)[OF slab_repD(5)[OF rep that(1,2)] that(1,3)]
        slot_addr_facts(3)[OF slab_repD(5)[OF rep i b] i x(1)] by simp
    with slab_repD(7)[OF rep that(1) i] that(2) b show ?thesis by simp
  qed
  show nl: "(x, slab_sizes ! i) \<notin> slab_live A"
    using uniq by (force simp: slab_live_iff f)
  show "slab_live (A\<lparr>fre := (fre A)(b := xs)\<rparr>) = insert (x, slab_sizes ! i) (slab_live A)"
    (is "?L = ?R")
  proof (rule set_eqI)
    fix r :: "nat \<times> nat"
    obtain y z where r: "r = (y, z)" by (cases r)
    show "r \<in> ?L \<longleftrightarrow> r \<in> ?R"
    proof (cases "y = x")
      case True
      have "(x, z) \<in> ?L \<Longrightarrow> z = slab_sizes ! i"
        using uniq unfolding slab_live_iff by auto
      moreover have "(x, slab_sizes ! i) \<in> ?L"
        unfolding slab_live_iff using x i b by (auto intro!: exI[of _ i] bexI[of _ b])
      moreover have "(x, z) \<notin> slab_live A" if "z \<noteq> slab_sizes ! i"
        using uniq that unfolding slab_live_iff by auto
      ultimately show ?thesis using True nl by (auto simp: r)
    next
      case False
      have "y \<in> set (((fre A)(b := xs)) c) \<longleftrightarrow> y \<in> set (fre A c)" for c using False by (auto simp: f)
      then show ?thesis using False by (simp add: slab_live_iff r)
    qed
  qed
qed

section \<open>New pages\<close>

lemma push_slots:
  assumes "b < 2 ^ 32" and "0 < z" and "n * z \<le> 4096" and st: "st = of_nat (b + SPH)"
  defines "f \<equiv> \<lambda>k. b + SPH + k * z"
  shows "let (nx', fl) = fold (push_slot st (of_nat z)) [0..<n] (nx, 0) in
    fchain nx' fl (rev (map f [0..<n])) \<and> (\<forall>y. (\<forall>k<n. y \<noteq> of_nat (f k)) \<longrightarrow> nx' y = nx y)"
  using assms(3)
proof (induction n)
  case (Suc n)
  obtain nx' fl where nf: "fold (push_slot st (of_nat z)) [0..<n] (nx, 0) = (nx', fl)"
    by fastforce
  have n: "n * z \<le> 4096" using Suc.prems by simp
  have IH: "fchain nx' fl (rev (map f [0..<n]))" "\<And>y. (\<forall>k<n. y \<noteq> of_nat (f k)) \<Longrightarrow> nx' y = nx y"
    using Suc.IH[OF n] by (auto simp: nf)
  have "unat (of_nat n * of_nat z :: u32) = n * z"
    using n by (simp flip: of_nat_mult add: unsigned_of_nat take_bit_eq_mod)
  then have "(ucast (of_nat n * of_nat z :: u32) :: u64) = of_nat (n * z)"
    by (rule ucast_u32_nat)
  then have slot: "st + ucast (of_nat n * of_nat z :: u32) = (of_nat (f n) :: u64)"
    by (simp add: f_def st)
  have neq: "(of_nat (f k) :: u64) \<noteq> of_nat (f n)" if "k < n" for k
  proof -
    have "f k < f n" using that assms(2) by (simp add: f_def)
    moreover have "f n < 2 ^ 64" using assms(1) n by (simp add: f_def)
    ultimately show ?thesis by (subst addr_eq) auto
  qed
  have "fchain (nx'(of_nat (f n) := fl)) fl (rev (map f [0..<n])) = fchain nx' fl (rev (map f [0..<n]))"
    using neq by (intro fchain_cong) auto
  moreover have "push_slot st (of_nat z) n (nx', fl) = (nx'(of_nat (f n) := fl), of_nat (f n))"
    by (simp add: push_slot_def Let_def slot)
  ultimately show ?case using IH by (simp add: nf)
qed simp

lemma new_page_slots:
  assumes "b < 2 ^ 32" and "i < 6" and "mem = of_nat b"
  shows "let (nx', fl) = fold (push_slot (mem + of_nat SPH) (of_nat (slab_sizes ! i)))
            [0..<unat ((4096 - of_nat SPH) div of_nat (slab_sizes ! i) :: u32)] (nx, 0) in
    fchain nx' fl (rev (slots (slab_sizes ! i) b)) \<and>
    (\<forall>x < 2 ^ 64. x \<notin> set (slots (slab_sizes ! i) b) \<longrightarrow> nx' (of_nat x) = nx (of_nat x))"
    and "unat ((4096 - of_nat SPH) div of_nat (slab_sizes ! i) :: u32) = length (slots (slab_sizes ! i) b)"
proof -
  let ?z = "slab_sizes ! i"
  have z: "0 < ?z" using slab_size_bounds[OF assms(2)] by simp
  have n: "unat ((4096 - of_nat SPH) div of_nat ?z :: u32) = 4056 div ?z"
    using unat_slab_size[OF assms(2)] by (simp add: unat_div_distrib)
  then show "unat ((4096 - of_nat SPH) div of_nat ?z :: u32) = length (slots ?z b)"
    by (simp add: slots_def)
  have "4056 div ?z * ?z \<le> 4096" using div_times_less_eq_dividend[of 4056 ?z] by linarith
  note ps = push_slots[OF assms(1) z this, of "mem + of_nat SPH" nx]
  have "(\<forall>k < 4056 div ?z. (of_nat x :: u64) \<noteq> of_nat (b + SPH + k * ?z))"
    if "x < 2 ^ 64" "x \<notin> set (slots ?z b)" for x
  proof (intro allI impI)
    fix k assume "k < 4056 div ?z"
    then have m: "b + SPH + k * ?z \<in> set (slots ?z b)" by (auto simp: slots_def)
    have "b + SPH + k * ?z < 2 ^ 64" using slots_fit[OF _ m] z assms(1) by auto
    then show "(of_nat x :: u64) \<noteq> of_nat (b + SPH + k * ?z)"
      using that m by (subst addr_eq) auto
  qed
  with ps show "let (nx', fl) = fold (push_slot (mem + of_nat SPH) (of_nat ?z))
            [0..<unat ((4096 - of_nat SPH) div of_nat ?z :: u32)] (nx, 0) in
    fchain nx' fl (rev (slots ?z b)) \<and>
    (\<forall>x < 2 ^ 64. x \<notin> set (slots ?z b) \<longrightarrow> nx' (of_nat x) = nx (of_nat x))"
    unfolding n by (simp add: assms(3) slots_def split_def Let_def)
qed

text \<open>
  A new page: either no frame came back and only the frame pool may have changed, or the page
  heads its cache's list with all its slots free.
\<close>

lemma alloc_frame_facts:
  assumes "pmm_inv m" and "alloc_page m = (mem, m')" and "mem \<noteq> 0"
  shows "\<exists>b. mem = of_nat b \<and> 4096 dvd b \<and> 0 < b \<and> b < 2 ^ 32 \<and> b div 4096 \<in> free_set m \<and>
    free_set m' = free_set m - {b div 4096} \<and> pmm_inv m'"
proof -
  have m': "snd (alloc_page m) = m'" "fst (alloc_page m) = mem" using assms(2) by simp_all
  from pmm_frames.alloc_result[OF assms(1)] assms(3) m' obtain p where p: "p \<in> free_set m" "p \<noteq> 0"
    "mem = frame_addr p" "free_set m' = free_set m - {p}" by auto
  have "p < MAX_PAGES" using pmm_frames.avail_bound[OF assms(1)] p(1) by auto
  then have u: "unat mem = p * 4096" "p * 4096 < 2 ^ 32"
    by (simp_all add: p(3) frame_addr_idx(3)) (simp add: MAX_PAGES_def)
  have mem: "mem = of_nat (unat mem)" by simp
  have "mem = of_nat (p * 4096)" by (subst mem) (simp only: u)
  with p u pmm_inv_alloc[OF assms(1)] m' show ?thesis by (intro exI[of _ "p * 4096"]) auto
qed

lemma new_page_null:
  assumes "slab_rep s A" and "slab_new_page c s = (0, s')"
  shows "slab_rep s' A" and "slab_above lo s A \<Longrightarrow> slab_above lo s' A"
proof -
  obtain mem m' where am: "alloc_page (slab_pmm s) = (mem, m')" by fastforce
  have "mem = 0" using assms(2) by (auto simp: slab_new_page_def am Let_def split: if_splits prod.splits)
  with assms(2) have s': "s' = s\<lparr>slab_pmm := m'\<rparr>"
    by (auto simp: slab_new_page_def am)
  have inv: "pmm_inv m'" using pmm_inv_alloc[OF slab_repD(1)[OF assms(1)]] am by simp
  have sub: "free_set m' \<subseteq> free_set (slab_pmm s)"
    using pmm_frames.avail_mono[OF slab_repD(1)[OF assms(1)]] am by simp
  then have "page_rep s A i b \<Longrightarrow> page_rep s' A i b" for i b by (auto simp: page_rep_def s')
  moreover have "pchain s' p bs = pchain s p bs" for p bs by (rule pchain_cong) (simp add: s')
  ultimately show "slab_rep s' A" using assms(1) inv by (auto simp: slab_rep_def s')
  show "slab_above lo s A \<Longrightarrow> slab_above lo s' A" using sub by (auto simp: slab_above_def s')
qed

definition add_page :: "nat \<Rightarrow> nat \<Rightarrow> aslab \<Rightarrow> aslab" where
  "add_page i b A = A\<lparr>pgs := (pgs A)(i := b # pgs A i),
     fre := (fre A)(b := rev (slots (slab_sizes ! i) b))\<rparr>"

lemma new_page_shape:
  assumes rep: "slab_rep s A" and i: "i < 6" and np: "slab_new_page i s = (mem, s')" and nz: "mem \<noteq> 0"
  shows "\<exists>b m' nx' fl. mem = of_nat b \<and> 4096 dvd b \<and> 0 < b \<and> b < 2 ^ 32 \<and>
    b div 4096 \<in> free_set (slab_pmm s) \<and> free_set m' = free_set (slab_pmm s) - {b div 4096} \<and>
    pmm_inv m' \<and> slab_pmm s' = m' \<and> slab_cache_count s' = slab_cache_count s \<and>
    slab_caches s' = (slab_caches s)(i := (slab_caches s i)\<lparr>sc_pages := mem\<rparr>) \<and>
    slot_next s' = nx' \<and> fchain nx' fl (rev (slots (slab_sizes ! i) b)) \<and>
    (\<forall>x < 2 ^ 64. x \<notin> set (slots (slab_sizes ! i) b) \<longrightarrow> nx' (of_nat x) = slot_next s (of_nat x)) \<and>
    sp_next (spage s' mem) = sc_pages (slab_caches s i) \<and> sp_free_list (spage s' mem) = fl \<and>
    unat (sp_free_objs (spage s' mem)) = length (slots (slab_sizes ! i) b) \<and>
    (\<forall>p. p \<noteq> mem \<longrightarrow> sp_next (spage s' p) = sp_next (spage s p) \<and>
       sp_free_list (spage s' p) = sp_free_list (spage s p) \<and>
       sp_free_objs (spage s' p) = sp_free_objs (spage s p))"
proof -
  obtain a m' where am: "alloc_page (slab_pmm s) = (a, m')" by fastforce
  have a: "a = mem" using np nz
    by (auto simp: slab_new_page_def am Let_def split: if_splits prod.splits)
  from alloc_frame_facts[OF slab_repD(1)[OF rep] am] nz a obtain b where b: "mem = of_nat b"
    "4096 dvd b" "0 < b" "b < 2 ^ 32" "b div 4096 \<in> free_set (slab_pmm s)"
    "free_set m' = free_set (slab_pmm s) - {b div 4096}" "pmm_inv m'" by auto
  obtain nx' fl where nf: "fold (push_slot (mem + of_nat SPH) (of_nat (slab_sizes ! i)))
            [0..<unat ((4096 - of_nat SPH) div of_nat (slab_sizes ! i) :: u32)] (slot_next s, 0) = (nx', fl)"
    by fastforce
  note sl = new_page_slots[OF b(4) i b(1)]
  have osz: "sc_obj_size (slab_caches s i) = of_nat (slab_sizes ! i)" using slab_repD(3)[OF rep i] .
  have fc: "fchain nx' fl (rev (slots (slab_sizes ! i) b))"
    "\<forall>x < 2 ^ 64. x \<notin> set (slots (slab_sizes ! i) b) \<longrightarrow> nx' (of_nat x) = slot_next s (of_nat x)"
    using sl(1)[of "slot_next s"] unfolding nf by auto
  show ?thesis using b fc sl(2) np nz nf osz
    by (intro exI[of _ b] exI[of _ m'] exI[of _ nx'] exI[of _ fl])
      (auto simp: slab_new_page_def am a Let_def)
qed

lemma new_page_rep:
  assumes rep: "slab_rep s A" and i: "i < 6" and np: "slab_new_page i s = (mem, s')" and nz: "mem \<noteq> 0"
  shows "\<exists>b. mem = of_nat b \<and> slab_rep s' (add_page i b A) \<and> (\<forall>j<6. b \<notin> set (pgs A j)) \<and>
    slots (slab_sizes ! i) b \<noteq> [] \<and> (\<forall>lo. slab_above lo s A \<longrightarrow> slab_above lo s' (add_page i b A))"
proof -
  from new_page_shape[OF assms] obtain b m' nx' fl where S: "mem = of_nat b" "4096 dvd b" "0 < b"
    "b < 2 ^ 32" "b div 4096 \<in> free_set (slab_pmm s)"
    "free_set m' = free_set (slab_pmm s) - {b div 4096}"
    "pmm_inv m'" "slab_pmm s' = m'" "slab_cache_count s' = slab_cache_count s"
    "slab_caches s' = (slab_caches s)(i := (slab_caches s i)\<lparr>sc_pages := mem\<rparr>)"
    "slot_next s' = nx'" "fchain nx' fl (rev (slots (slab_sizes ! i) b))"
    "\<forall>x < 2 ^ 64. x \<notin> set (slots (slab_sizes ! i) b) \<longrightarrow> nx' (of_nat x) = slot_next s (of_nat x)"
    "sp_next (spage s' mem) = sc_pages (slab_caches s i)" "sp_free_list (spage s' mem) = fl"
    "unat (sp_free_objs (spage s' mem)) = length (slots (slab_sizes ! i) b)"
    and oth: "\<And>p. p \<noteq> mem \<Longrightarrow> sp_next (spage s' p) = sp_next (spage s p) \<and>
       sp_free_list (spage s' p) = sp_free_list (spage s p) \<and>
       sp_free_objs (spage s' p) = sp_free_objs (spage s p)"
    by blast
  let ?A = "add_page i b A" and ?z = "slab_sizes ! i"
  have z: "?z \<noteq> 0" using slab_size_bounds[OF i] by auto
  have fresh: "b \<notin> set (pgs A j)" if "j < 6" for j
    using page_repD(4)[OF slab_repD(5)[OF rep that] that, of b] S(5) by blast
  have old: "page_rep s' ?A j c" if j: "j < 6" and c: "c \<in> set (pgs A j)" for j c
  proof -
    note pr = slab_repD(5)[OF rep j c]
    note P = page_repD[OF pr j]
    have cb: "c \<noteq> b" using fresh[OF j] c by blast
    then have "(of_nat c :: u64) \<noteq> mem" using page_addr_neq[OF P(3) S(4)] S(1) by simp
    note o = oth[OF this]
    have "nx' (of_nat x) = slot_next s (of_nat x)" if x: "x \<in> set (fre A c)" for x
    proof -
      note X = slot_addr_facts[OF pr j P(8)[OF x]]
      have "x \<notin> set (slots ?z b)" using slots_page[OF z _ S(2), of x] X(3) cb by auto
      with S(13) X(1) show ?thesis by blast
    qed
    then have "fchain nx' p (fre A c) = fchain (slot_next s) p (fre A c)" for p by (rule fchain_cong)
    then show ?thesis using pr cb o S(6,8,11)
      by (simp add: page_rep_def add_page_def)
  qed
  have new: "page_rep s' ?A i b"
    using S by (auto simp: page_rep_def add_page_def slots_def distinct_map inj_on_def z)
  have pc: "pchain s' p (pgs A j) = pchain s p (pgs A j)" if j: "j < 6" for j p
    using fresh[OF j] page_addr_neq[OF page_repD(3)[OF slab_repD(5)[OF rep j] j] S(4)] S(1) oth
    by (intro pchain_cong) metis
  have "slab_rep s' ?A"
    unfolding slab_rep_def
  proof (intro conjI allI impI ballI)
    show "pmm_inv (slab_pmm s')" "slab_cache_count s' = 6" using S slab_repD(2)[OF rep] by simp_all
    fix j :: nat assume j: "j < 6"
    show "sc_obj_size (slab_caches s' j) = of_nat (slab_sizes ! j)"
      using slab_repD(3)[OF rep j] by (auto simp: S(10))
    show "pchain s' (sc_pages (slab_caches s' j)) (pgs ?A j)"
      using slab_repD(4)[OF rep j] pc[OF j] S(1,10,14) by (auto simp: add_page_def)
    show "distinct (pgs ?A j)" using slab_repD(6)[OF rep j] fresh[OF j] by (auto simp: add_page_def)
    show "page_rep s' ?A j c" if "c \<in> set (pgs ?A j)" for c
      using that old[OF j] new by (cases "c = b \<and> j = i") (auto simp: add_page_def split: if_splits)
    fix k :: nat assume "k < 6" and "j \<noteq> k"
    with slab_repD(7)[OF rep j] fresh[OF j] fresh[of k]
    show "set (pgs ?A j) \<inter> set (pgs ?A k) = {}" by (auto simp: add_page_def)
  qed
  moreover have "slots ?z b \<noteq> []" using slab_size_bounds[OF i] by (auto simp: slots_def div_eq_0_iff)
  moreover have "slab_above lo s A \<longrightarrow> slab_above lo s' (add_page i b A)" for lo
    using S(2,5,6,8) by (auto simp: slab_above_def add_page_def dvd_div_mult_self split: if_splits)
  ultimately show ?thesis using S(1) fresh by blast
qed

lemma add_page_live:
  assumes "\<forall>j<6. b \<notin> set (pgs A j)" and "i < 6"
  shows "slab_live (add_page i b A) = slab_live A"
proof -
  have "r \<in> slab_live (add_page i b A) \<longleftrightarrow> r \<in> slab_live A" for r
  proof -
    obtain y z where r: "r = (y, z)" by (cases r)
    have e: "fre (add_page i b A) c = fre A c" if "j < 6" "c \<in> set (pgs A j)" for j c
      using that assms(1) by (auto simp: add_page_def)
    have "(\<exists>c \<in> set (pgs (add_page i b A) j). y \<in> set (slots (slab_sizes ! j) c) \<and> y \<notin> set (fre (add_page i b A) c))
      = (\<exists>c \<in> set (pgs A j). y \<in> set (slots (slab_sizes ! j) c) \<and> y \<notin> set (fre A c))" if j: "j < 6" for j
      using e[OF j] by (auto simp: add_page_def)
    then show ?thesis unfolding r slab_live_iff by blast
  qed
  then show ?thesis by blast
qed

section \<open>Allocation and release\<close>

lemma pop_result:
  assumes rep: "slab_rep s A" and i: "i < 6" and b: "b \<in> set (pgs A i)" and ne: "fre A b \<noteq> []"
    and pop: "pop_slot (of_nat b) s = (p, s')"
  shows "p \<noteq> 0 \<and> (\<exists>A'. slab_rep s' A' \<and> slab_live A' = insert (unat p, slab_sizes ! i) (slab_live A) \<and>
    (unat p, slab_sizes ! i) \<notin> slab_live A \<and> (\<forall>lo. slab_above lo s A \<longrightarrow> slab_above lo s' A' \<and> lo \<le> unat p))"
proof -
  from ne obtain x xs where f: "fre A b = x # xs" by (cases "fre A b") auto
  note pr = slab_repD(5)[OF rep i b]
  have x: "x \<in> set (slots (slab_sizes ! i) b)" using page_repD(8)[OF pr i] by (simp add: f)
  note X = slot_addr_facts[OF pr i x]
  have p: "p = of_nat x" "slab_rep s' (A\<lparr>fre := (fre A)(b := xs)\<rparr>)"
    using pop_slot_rep[OF rep i b f] pop by simp_all
  then have "unat p = x" "p \<noteq> 0" using X(1,2) by (simp_all add: unat_addr addr_eq_0)
  moreover have "slab_above lo s A \<longrightarrow> slab_above lo s' (A\<lparr>fre := (fre A)(b := xs)\<rparr>) \<and> lo \<le> x" for lo
  proof
    assume a: "slab_above lo s A"
    then have "lo \<le> b" using i b by (auto simp: slab_above_def)
    with a X(4) pop show "slab_above lo s' (A\<lparr>fre := (fre A)(b := xs)\<rparr>) \<and> lo \<le> x"
      by (auto simp: slab_above_def pop_slot_def Let_def)
  qed
  ultimately show ?thesis using p(2) pop_slot_live[OF rep i b f] by blast
qed

lemma no_corruption:
  assumes rep: "slab_rep s A" and i: "i < 6" and b: "b \<in> set (pgs A i)" and ne: "fre A b \<noteq> []"
  shows "let nx = slot_next s (sp_free_list (spage s (of_nat b))) in
    \<not> (nx \<noteq> 0 \<and> (nx < of_nat b + of_nat SPH \<or> nx \<ge> of_nat b + 4096))"
proof -
  note pr = slab_repD(5)[OF rep i b]
  note P = page_repD[OF pr i]
  from ne obtain x xs where f: "fre A b = x # xs" by (cases "fre A b") auto
  show ?thesis
  proof (cases xs)
    case Nil
    then show ?thesis using P(5) by (auto simp: f)
  next
    case (Cons y ys)
    have y: "y \<in> set (slots (slab_sizes ! i) b)" using P(8)[of y] by (simp add: f Cons)
    note Y = slot_addr_facts[OF pr i y]
    have "slot_next s (sp_free_list (spage s (of_nat b))) = of_nat y"
      using P(5) by (auto simp: f Cons)
    moreover have "unat (of_nat b + of_nat SPH :: u64) = b + SPH" "unat (of_nat b + 4096 :: u64) = b + 4096"
      using P(3) by (simp_all add: unat_word_ariths unsigned_of_nat take_bit_eq_mod)
    ultimately show ?thesis using Y(1,4,5)
      by (simp add: word_less_nat_alt word_le_nat_alt unat_addr not_less not_le)
  qed
qed

text \<open>
  The result of \<open>slab_alloc\<close> on a well-formed slab: it returns, never panics, and either gives
  \<open>NULL\<close> without touching any object or a slot of the smallest class that fits.
\<close>

definition class_for :: "nat \<Rightarrow> nat \<Rightarrow> bool" where
  "class_for n z \<longleftrightarrow> z \<in> set slab_sizes \<and> n \<le> z \<and> (\<forall>y \<in> set slab_sizes. n \<le> y \<longrightarrow> z \<le> y)"

lemma class_forI:
  assumes "c < 6" and "n \<le> slab_sizes ! c" and "\<forall>j<c. slab_sizes ! j < n"
  shows "class_for n (slab_sizes ! c)"
proof -
  have len: "length slab_sizes = 6" by (simp add: slab_sizes_def)
  have mono: "slab_sizes ! i \<le> slab_sizes ! j" if "i \<le> j" "j < 6" for i j
    using sorted_nth_mono[of slab_sizes i j] that by (simp add: slab_sizes_def)
  have "slab_sizes ! c \<le> slab_sizes ! j" if "j < 6" "n \<le> slab_sizes ! j" for j
    using mono[of c j] that assms(3) by (cases "j < c") (auto simp: not_less)
  with assms len show ?thesis by (auto simp: class_for_def in_set_conv_nth)
qed

lemma slab_alloc_cases:
  assumes rep: "slab_rep s A" and sz: "0 < sz" "unat sz \<le> SLAB_MAX_OBJ"
  shows "\<exists>p s' A'. slab_alloc sz s = Some (Ret (p, s')) \<and> slab_rep s' A' \<and>
    (\<forall>lo. slab_above lo s A \<longrightarrow> slab_above lo s' A' \<and> (p = 0 \<or> lo \<le> unat p)) \<and>
    (if p = 0 then slab_live A' = slab_live A \<and> fst (alloc_page (slab_pmm s)) = 0
     else \<exists>z. class_for (unat sz) z \<and> slab_live A' = insert (unat p, z) (slab_live A) \<and>
       (unat p, z) \<notin> slab_live A)"
proof -
  from find_cache_spec[OF rep sz] obtain c where c: "c < 6" "slab_find_cache sz s = Some c"
    and cl: "class_for (unat sz) (slab_sizes ! c)" using class_forI by blast
  let ?P = "\<lambda>b. sp_free_list (spage s (of_nat b)) \<noteq> 0"
  have bnd: "\<forall>b \<in> set (pgs A c). 0 < b \<and> b < 2 ^ 32"
    using page_repD(2,3)[OF slab_repD(5)[OF rep c(1)] c(1)] by blast
  have fp: "slab_find_page s (sc_pages (slab_caches s c)) =
      Some (case find ?P (pgs A c) of None \<Rightarrow> 0 | Some b \<Rightarrow> of_nat b)"
    by (rule find_page_spec[OF slab_repD(4)[OF rep c(1)] bnd])
  have nt: "\<not> (sz = 0 \<or> unat sz > SLAB_MAX_OBJ)" using sz by auto
  show ?thesis
  proof (cases "find ?P (pgs A c)")
    case (Some b)
    then have b: "b \<in> set (pgs A c)" "?P b" by (auto simp: find_Some_iff)
    then have ne: "fre A b \<noteq> []" using page_repD(10)[OF slab_repD(5)[OF rep c(1) b(1)] c(1)] by simp
    have b0: "(of_nat b :: u64) \<noteq> 0" using bnd b(1) by (auto simp: addr_eq_0)
    obtain p s' where pop: "pop_slot (of_nat b) s = (p, s')" by fastforce
    have "slab_alloc sz s = Some (Ret (p, s'))"
      using nt c(2) fp Some b0 no_corruption[OF rep c(1) b(1) ne] pop
      by (simp add: slab_alloc_def Let_def)
    with pop_result[OF rep c(1) b(1) ne pop] cl show ?thesis by auto
  next
    case None
    obtain mem s1 where np: "slab_new_page c s = (mem, s1)" by fastforce
    show ?thesis
    proof (cases "mem = 0")
      case True
      then have "slab_alloc sz s = Some (Ret (0, s1))"
        using nt c(2) fp None np by (simp add: slab_alloc_def)
      moreover have "fst (alloc_page (slab_pmm s)) = 0"
        using np True by (auto simp: slab_new_page_def Let_def split: if_splits prod.splits)
      ultimately show ?thesis using new_page_null[OF rep, of c s1] np True by auto
    next
      case False
      from new_page_rep[OF rep c(1) np False] obtain b where b: "mem = of_nat b"
        "slab_rep s1 (add_page c b A)" "\<forall>j<6. b \<notin> set (pgs A j)" "slots (slab_sizes ! c) b \<noteq> []"
        "\<forall>lo. slab_above lo s A \<longrightarrow> slab_above lo s1 (add_page c b A)" by blast
      obtain p s' where pop: "pop_slot (of_nat b) s1 = (p, s')" by fastforce
      have "slab_alloc sz s = Some (Ret (p, s'))"
        using nt c(2) fp None np False pop b(1) by (simp add: slab_alloc_def)
      moreover have "b \<in> set (pgs (add_page c b A) c)" "fre (add_page c b A) b \<noteq> []"
        using b(4) by (simp_all add: add_page_def)
      ultimately show ?thesis
        using pop_result[OF b(2) c(1) _ _ pop] add_page_live[OF b(3) c(1)] cl b(5) by auto
    qed
  qed
qed

lemma slab_free_rep:
  assumes rep: "slab_rep s A" and i: "i < 6" and b: "b \<in> set (pgs A i)"
    and x: "x \<in> set (slots (slab_sizes ! i) b)" "x \<notin> set (fre A b)"
    and sz: "0 < sz" "unat sz \<le> SLAB_MAX_OBJ"
  shows "slab_rep (slab_free (of_nat x) sz s) (A\<lparr>fre := (fre A)(b := x # fre A b)\<rparr>)"
proof -
  note pr = slab_repD(5)[OF rep i b]
  note P = page_repD[OF pr i]
  note X = slot_addr_facts[OF pr i x(1)]
  obtain c where c: "slab_find_cache sz s = Some c" using find_cache_spec[OF rep sz] by blast
  have "unat ((of_nat x :: u64) AND NOT 4095) = b" using X(1,3) by (simp only: unat_align_down unat_addr)
  moreover have "unat (of_nat b :: u64) = b" using P(3) by (intro unat_addr) simp
  ultimately have page: "(of_nat x :: u64) AND NOT 4095 = of_nat b" by (metis word_unat_eq_iff)
  let ?pg = "spage s (of_nat b)"
  let ?s = "s\<lparr>slot_next := (slot_next s)(of_nat x := sp_free_list ?pg),
    spage := (spage s)(of_nat b := ?pg\<lparr>sp_free_list := of_nat x, sp_free_objs := sp_free_objs ?pg + 1\<rparr>)\<rparr>"
  have "(of_nat x :: u64) \<noteq> 0" using X(1,2) by (simp add: addr_eq_0)
  then have sf: "slab_free (of_nat x) sz s = ?s"
    using sz c page by (simp add: slab_free_def Let_def not_less)
  have fc: "fchain ((slot_next s)(of_nat x := sp_free_list ?pg)) (sp_free_list ?pg) (fre A b)"
  proof -
    have "(of_nat y :: u64) \<noteq> of_nat x" if "y \<in> set (fre A b)" for y
      using slot_addr_facts(1)[OF pr i P(8)[OF that]] X(1) x(2) that by (subst addr_eq) auto
    then have "fchain ((slot_next s)(of_nat x := sp_free_list ?pg)) (sp_free_list ?pg) (fre A b) =
       fchain (slot_next s) (sp_free_list ?pg) (fre A b)"
      by (intro fchain_cong) simp
    with P(5) show ?thesis by simp
  qed
  have "length (fre A b) \<le> length (slots (slab_sizes ! i) b)"
    using card_mono[of "set (slots (slab_sizes ! i) b)" "set (fre A b)"] P(6,8)
      card_length[of "slots (slab_sizes ! i) b"] by (force simp: distinct_card)
  also have "\<dots> \<le> 4056" by (simp add: slots_def)
  finally have "unat (sp_free_objs ?pg + 1) = Suc (length (fre A b))"
    using P(7) by (subst unat_inc) simp_all
  then have new: "page_rep ?s (A\<lparr>fre := (fre A)(b := x # fre A b)\<rparr>) i b"
    using pr fc x by (auto simp: page_rep_def)
  show ?thesis unfolding sf
    using page_addr_neq[OF _ P(3)] X(1,3)
    by (intro slab_rep_update_page[OF rep i b _ _ _ _ _ _ new]) (auto simp: addr_eq)
qed

lemma slab_free_live:
  assumes rep: "slab_rep s A" and live: "(x, z) \<in> slab_live A"
    and sz: "0 < sz" "unat sz \<le> SLAB_MAX_OBJ"
  shows "\<exists>A'. slab_rep (slab_free (of_nat x) sz s) A' \<and> slab_live A' = slab_live A - {(x, z)} \<and>
    (\<forall>lo. slab_above lo s A \<longrightarrow> slab_above lo (slab_free (of_nat x) sz s) A')"
proof -
  from live obtain i b where i: "i < 6" "z = slab_sizes ! i" and b: "b \<in> set (pgs A i)"
    and x: "x \<in> set (slots (slab_sizes ! i) b)" "x \<notin> set (fre A b)" by (auto simp: slab_live_iff)
  let ?A = "A\<lparr>fre := (fre A)(b := x # fre A b)\<rparr>"
  have rep': "slab_rep (slab_free (of_nat x) sz s) ?A" by (rule slab_free_rep[OF rep i(1) b x sz])
  have "?A\<lparr>fre := (fre ?A)(b := fre A b)\<rparr> = A" by simp
  with pop_slot_live[of "slab_free (of_nat x) sz s" ?A i b x "fre A b"] rep' i b
  have "slab_live A = insert (x, z) (slab_live ?A)" "(x, z) \<notin> slab_live ?A" by simp_all
  then have "slab_live ?A = slab_live A - {(x, z)}" by blast
  moreover have "slab_pmm (slab_free p sz s) = slab_pmm s" for p
    by (simp add: slab_free_def Let_def split: option.split)
  then have "slab_above lo s A \<longrightarrow> slab_above lo (slab_free (of_nat x) sz s) ?A" for lo
    by (simp add: slab_above_def)
  ultimately show ?thesis using rep' by blast
qed

text \<open>Live objects of a well-formed slab never overlap.\<close>

lemma slab_live_apart:
  assumes rep: "slab_rep s A" and "r \<in> slab_live A" and "q \<in> slab_live A" and "r \<noteq> q"
  shows "apart r q"
proof -
  obtain x z y w where rq: "r = (x, z)" "q = (y, w)" by (cases r, cases q)
  from assms(2,3) rq obtain i b j c where
    i: "i < 6" "z = slab_sizes ! i" "b \<in> set (pgs A i)" "x \<in> set (slots (slab_sizes ! i) b)" and
    j: "j < 6" "w = slab_sizes ! j" "c \<in> set (pgs A j)" "y \<in> set (slots (slab_sizes ! j) c)"
    by (auto simp: slab_live_iff)
  note X = slot_addr_facts[OF slab_repD(5)[OF rep i(1,3)] i(1,4)]
  note Y = slot_addr_facts[OF slab_repD(5)[OF rep j(1,3)] j(1,4)]
  show ?thesis
  proof (cases "b = c")
    case True
    then have ij: "i = j" using slab_repD(7)[OF rep i(1) j(1)] i(3) j(3) by blast
    then have "x \<noteq> y" using assms(4) rq i(2) j(2) by auto
    with slots_apart[of z x b y] i j ij True slab_size_bounds[OF i(1)] show ?thesis
      by (auto simp: rq)
  next
    case False
    have "4096 dvd b" "4096 dvd c"
      using page_repD(1)[OF slab_repD(5)[OF rep i(1,3)] i(1)] page_repD(1)[OF slab_repD(5)[OF rep j(1,3)] j(1)] .
    with False consider "b + 4096 \<le> c" | "c + 4096 \<le> b"
      by (auto elim!: dvdE) (metis less_imp_Suc_add mult_le_mono2 linorder_neqE_nat Suc_leI mult_Suc_right add.commute)
    then show ?thesis using X(4,6) Y(4,6) i(2) j(2) by cases (auto simp: rq apart_def)
  qed
qed

section \<open>Properties\<close>

lemma slab_init_rep:
  assumes "pmm_inv (slab_pmm s)" and "slab_cache_count s = 0"
  shows "slab_rep (slab_init s) \<lparr>pgs = (\<lambda>_. []), fre = (\<lambda>_. [])\<rparr>"
proof -
  have "slab_pmm (slab_init s) = slab_pmm s" "slab_cache_count (slab_init s) = 6"
    using assms(2) by (simp_all add: slab_init_def slab_sizes_def)
  moreover have "slab_caches (slab_init s) i = \<lparr>sc_obj_size = of_nat (slab_sizes ! i), sc_pages = 0\<rparr>"
    if "i < 6" for i
  proof -
    from that consider "i = 0" | "i = 1" | "i = 2" | "i = 3" | "i = 4" | "i = 5" by linarith
    then show ?thesis by cases (simp_all add: slab_init_def slab_sizes_def)
  qed
  ultimately show ?thesis using assms(1) by (simp add: slab_rep_def)
qed

definition slab_example :: slab_st where
  "slab_example = slab_init \<lparr>slab_caches = (\<lambda>_. \<lparr>sc_obj_size = 0, sc_pages = 0\<rparr>), slab_cache_count = 0,
     spage = (\<lambda>_. \<lparr>sp_next = 0, sp_prev = 0, sp_free_list = 0, sp_obj_size = 0, sp_total_objs = 0,
       sp_free_objs = 0\<rparr>), slot_next = (\<lambda>_. 0), slab_pmm = pmm_example\<rparr>"

lemma slab_example_rep: "slab_rep slab_example \<lparr>pgs = (\<lambda>_. []), fre = (\<lambda>_. [])\<rparr>"
  unfolding slab_example_def
  by (rule slab_init_rep) (simp_all add: pmm_reach_pmm_inv[OF pmm_example_reach])

lemma slab_example_pmm: "slab_pmm slab_example = pmm_example"
  by (simp add: slab_example_def slab_init_def slab_sizes_def)

text \<open>C7: On a well-formed slab \<open>slab_alloc\<close> of 1 to 1024 bytes returns without a panic. The result
  is \<open>NULL\<close> only when the page allocator gave no frame, and then no object changed; otherwise it
  is a slot of the smallest size class that fits, was not in use, and is the only new object.\<close>

theorem slab_alloc_correct:
  assumes "slab_rep s A" and "0 < sz" and "unat sz \<le> SLAB_MAX_OBJ"
  shows "\<exists>p s' A'. slab_alloc sz s = Some (Ret (p, s')) \<and> slab_rep s' A' \<and>
    (if p = 0 then slab_live A' = slab_live A \<and> fst (alloc_page (slab_pmm s)) = 0
     else \<exists>z. class_for (unat sz) z \<and> slab_live A' = insert (unat p, z) (slab_live A) \<and>
       (unat p, z) \<notin> slab_live A)"
  using slab_alloc_cases[OF assms] by blast

theorem slab_alloc_correct_witness:
  "\<exists>p s' A'. slab_alloc 100 slab_example = Some (Ret (p, s')) \<and> slab_rep s' A' \<and> p \<noteq> 0 \<and>
     slab_live A' = {(unat p, 128)}"
proof -
  have nz: "fst (alloc_page (slab_pmm slab_example)) \<noteq> 0"
    by (simp add: slab_example_pmm pmm_example_alloc frame_addr_idx(2) MAX_PAGES_def)
  have cl: "z = 128" if "class_for 100 z" for z
    using that by (auto simp: class_for_def slab_sizes_def)
  have e: "slab_live \<lparr>pgs = (\<lambda>_. []), fre = (\<lambda>_. [])\<rparr> = {}" by (auto simp: slab_live_def)
  from slab_alloc_correct[OF slab_example_rep, of 100] nz cl e show ?thesis
    by (fastforce simp: SLAB_MAX_OBJ_def split: if_splits)
qed

text \<open>C8: The objects in use of a well-formed slab occupy pairwise disjoint address ranges, and
  \<open>slab_free\<close> of one of them keeps the slab well-formed and removes exactly that object.\<close>

theorem slab_free_correct:
  assumes "slab_rep s A" and "(x, z) \<in> slab_live A" and "0 < sz" and "unat sz \<le> SLAB_MAX_OBJ"
  shows "(\<forall>r \<in> slab_live A. \<forall>q \<in> slab_live A. r \<noteq> q \<longrightarrow> apart r q) \<and>
    (\<exists>A'. slab_rep (slab_free (of_nat x) sz s) A' \<and> slab_live A' = slab_live A - {(x, z)})"
  using slab_live_apart[OF assms(1)] slab_free_live[OF assms] by blast

theorem slab_free_correct_witness:
  "\<exists>p s' A'. slab_alloc 100 slab_example = Some (Ret (p, s')) \<and> p \<noteq> 0 \<and>
     slab_rep (slab_free (of_nat (unat p)) 100 s') A' \<and> slab_live A' = {}"
proof -
  have nz: "fst (alloc_page (slab_pmm slab_example)) \<noteq> 0"
    by (simp add: slab_example_pmm pmm_example_alloc frame_addr_idx(2) MAX_PAGES_def)
  have e: "slab_live \<lparr>pgs = (\<lambda>_. []), fre = (\<lambda>_. [])\<rparr> = {}" by (auto simp: slab_live_def)
  from slab_alloc_cases[OF slab_example_rep, of 100] nz e obtain p s' A' z where
    a: "slab_alloc 100 slab_example = Some (Ret (p, s'))" "slab_rep s' A'" "p \<noteq> 0"
      "slab_live A' = {(unat p, z)}"
    by (fastforce simp: SLAB_MAX_OBJ_def split: if_splits)
  with slab_free_correct[OF a(2), of "unat p" z 100] show ?thesis
    by (auto simp: SLAB_MAX_OBJ_def)
qed

end
