(* ===== verification/Kmalloc.thy ===== *)
theory Kmalloc
  imports Heap Slab
begin

text \<open>
  \<open>kmalloc\<close>, \<open>kfree\<close> and \<open>krealloc\<close> of \<open>src/kernel/memory.c\<close>: a router in front of the slab
  and the heap. Every object carries an 8-byte header with the origin of the block and the
  requested size. The state joins the two allocators with the store of these headers and the
  bytes of the objects; the spinlock makes each call one step.
\<close>

section \<open>State and operations\<close>

record alloc_hdr =
  ah_magic :: u32
  ah_size :: u32

definition ALLOC_MAGIC_SLAB :: u32 where
  "ALLOC_MAGIC_SLAB = 0x4E79584F"

definition ALLOC_MAGIC_HEAP :: u32 where
  "ALLOC_MAGIC_HEAP = 0x4E795848"

record kmem =
  km_slab :: slab_st
  km_heap :: heap_st
  km_hdr :: "u64 \<Rightarrow> alloc_hdr"
  km_bytes :: "u64 \<Rightarrow> u8"

definition put_hdr :: "u64 \<Rightarrow> u32 \<Rightarrow> u64 \<Rightarrow> kmem \<Rightarrow> kmem" where
  "put_hdr p magic n s = s\<lparr>km_hdr := (km_hdr s)(p := \<lparr>ah_magic = magic, ah_size = ucast n\<rparr>)\<rparr>"

text \<open>The fall-back to the heap when the slab gave nothing.\<close>

definition kmalloc_heap :: "u64 \<Rightarrow> kmem \<Rightarrow> (u64 \<times> kmem) outcome option" where
  "kmalloc_heap n s =
     (case heap_alloc (n + 8) (km_heap s) of
        None \<Rightarrow> None
      | Some (p, h) \<Rightarrow>
          (let s = s\<lparr>km_heap := h\<rparr> in
           Some (Ret (if p \<noteq> 0 then (p + 8, put_hdr p ALLOC_MAGIC_HEAP n s) else (0, s)))))"

definition kmalloc :: "u64 \<Rightarrow> kmem \<Rightarrow> (u64 \<times> kmem) outcome option" where
  "kmalloc n s =
     (if unat (n + 8) \<le> SLAB_MAX_OBJ then
        (case slab_alloc (ucast (ucast (ucast n :: u32) + 8 :: u64)) (km_slab s) of
           None \<Rightarrow> None
         | Some Panic \<Rightarrow> Some Panic
         | Some (Ret (p, sl)) \<Rightarrow>
             (let s = s\<lparr>km_slab := sl\<rparr> in
              if p \<noteq> 0 then Some (Ret (p + 8, put_hdr p ALLOC_MAGIC_SLAB n s))
              else kmalloc_heap n s))
      else kmalloc_heap n s)"

definition kmalloc_aligned :: "u64 \<Rightarrow> u32 \<Rightarrow> kmem \<Rightarrow> (u64 \<times> kmem) outcome option" where
  "kmalloc_aligned n align s = kmalloc n s"

definition kfree :: "u64 \<Rightarrow> kmem \<Rightarrow> kmem" where
  "kfree ptr s =
     (if ptr = 0 then s
      else
        (let hp = ptr - 8; hdr = km_hdr s hp in
         if ah_magic hdr = ALLOC_MAGIC_SLAB
         then s\<lparr>km_slab := slab_free hp (ucast (ucast (ah_size hdr) + 8 :: u64)) (km_slab s)\<rparr>
         else s\<lparr>km_heap := heap_free hp (km_heap s)\<rparr>))"

definition memcpy_asm :: "u64 \<Rightarrow> u64 \<Rightarrow> nat \<Rightarrow> (u64 \<Rightarrow> u8) \<Rightarrow> (u64 \<Rightarrow> u8)" where
  "memcpy_asm dst src n m = fold (\<lambda>i m. m(dst + of_nat i := m (src + of_nat i))) [0..<n] m"

definition krealloc :: "u64 \<Rightarrow> u64 \<Rightarrow> kmem \<Rightarrow> (u64 \<times> kmem) outcome option" where
  "krealloc ptr n s =
     (if ptr = 0 then kmalloc n s
      else if n = 0 then Some (Ret (0, kfree ptr s))
      else case kmalloc n s of
        None \<Rightarrow> None
      | Some Panic \<Rightarrow> Some Panic
      | Some (Ret (newp, s)) \<Rightarrow>
          (let s = (if newp \<noteq> 0 then
                      (let old_size = ucast (ah_size (km_hdr s (ptr - 8))) :: u64 in
                       s\<lparr>km_bytes := memcpy_asm newp ptr
                         (unat (if old_size < n then old_size else n)) (km_bytes s)\<rparr>)
                    else s)
           in Some (Ret (newp, kfree ptr s))))"

section \<open>The objects in use\<close>

text \<open>
  The blocks in use of both allocators, and the objects they carry: the payload after the header,
  with the size the caller asked for.
\<close>

definition km_blocks :: "nat \<Rightarrow> aslab \<Rightarrow> blocks \<Rightarrow> (nat \<times> nat) set" where
  "km_blocks base A bs = slab_live A \<union> live base bs"

definition obj_of :: "kmem \<Rightarrow> nat \<times> nat \<Rightarrow> nat \<times> nat" where
  "obj_of s r = (fst r + 8, unat (ah_size (km_hdr s (of_nat (fst r)))))"

definition km_rep :: "nat \<Rightarrow> kmem \<Rightarrow> aslab \<Rightarrow> blocks \<Rightarrow> bool" where
  "km_rep base s A bs \<longleftrightarrow> slab_rep (km_slab s) A \<and> heap_rep base (km_heap s) bs \<and>
     slab_above (base + HEAP_SIZE) (km_slab s) A \<and>
     (\<forall>r \<in> slab_live A. ah_magic (km_hdr s (of_nat (fst r))) = ALLOC_MAGIC_SLAB) \<and>
     (\<forall>r \<in> live base bs. ah_magic (km_hdr s (of_nat (fst r))) = ALLOC_MAGIC_HEAP) \<and>
     (\<forall>r \<in> km_blocks base A bs. snd (obj_of s r) + 8 \<le> snd r)"

definition km_live :: "nat \<Rightarrow> kmem \<Rightarrow> (nat \<times> nat) set \<Rightarrow> bool" where
  "km_live base s R \<longleftrightarrow> (\<exists>A bs. km_rep base s A bs \<and> obj_of s ` km_blocks base A bs = R)"

text \<open>Blocks of the heap never overlap, and never overlap a slot of the slab.\<close>

lemma live_apart: "r \<in> live a bs \<Longrightarrow> q \<in> live a bs \<Longrightarrow> r \<noteq> q \<Longrightarrow> apart r q"
proof (induction bs arbitrary: a)
  case (Cons mu bs)
  obtain m u where mu: "mu = (m, u)" by (cases mu)
  have lo: "a + 24 + m + 24 \<le> fst t" if "t \<in> live (a + 24 + m) bs" for t
    using live_bounds[of "fst t" "snd t" "a + 24 + m" bs] that by simp
  from Cons.prems consider "r = (a + 24, m)" "q \<in> live (a + 24 + m) bs"
    | "q = (a + 24, m)" "r \<in> live (a + 24 + m) bs"
    | "r \<in> live (a + 24 + m) bs" "q \<in> live (a + 24 + m) bs"
    by (auto simp: mu split: if_splits)
  then show ?case
  proof cases
    case 3
    then show ?thesis using Cons.IH Cons.prems(3) by blast
  qed (use lo in \<open>fastforce simp: apart_def\<close>)+
qed simp

lemma slab_live_bounds:
  assumes "slab_rep s A" and "r \<in> slab_live A"
  shows "32 \<le> snd r" "fst r + snd r < 2 ^ 33" "slab_above lo s A \<Longrightarrow> lo + SPH \<le> fst r"
proof -
  from assms(2) obtain i b where i: "i < 6" "snd r = slab_sizes ! i" "b \<in> set (pgs A i)"
    "fst r \<in> set (slots (slab_sizes ! i) b)" by (cases r) (auto simp: slab_live_iff)
  note pr = slab_repD(5)[OF assms(1) i(1,3)]
  note X = slot_addr_facts[OF pr i(1,4)]
  show "32 \<le> snd r" using slab_size_bounds[OF i(1)] i(2) by simp
  show "fst r + snd r < 2 ^ 33" using X(6) page_repD(3)[OF pr i(1)] i(2) by simp
  assume "slab_above lo s A"
  then have "lo \<le> b" using i(1,3) by (auto simp: slab_above_def)
  with X(4) show "lo + SPH \<le> fst r" by simp
qed

lemma heap_live_bounds:
  assumes "heap_rep base s bs" and "r \<in> live base bs"
  shows "base + 24 \<le> fst r" "fst r + snd r \<le> base + HEAP_SIZE" "fst r + snd r < 2 ^ 64"
  using assms(1) live_bounds[of "fst r" "snd r" base bs] assms(2) by (simp_all add: heap_rep_def)

lemma km_blocks_apart:
  assumes "slab_rep s A" and "heap_rep base h bs" and "slab_above (base + HEAP_SIZE) s A"
    and "r \<in> km_blocks base A bs" and "q \<in> km_blocks base A bs" and "r \<noteq> q"
  shows "apart r q"
proof -
  have cross: "apart t u" if "t \<in> live base bs" "u \<in> slab_live A" for t u
    using heap_live_bounds(2)[OF assms(2) that(1)] slab_live_bounds(3)[OF assms(1) that(2) assms(3)]
    by (simp add: apart_def)
  show ?thesis using assms(4-6) slab_live_apart[OF assms(1)] live_apart cross apart_sym
    unfolding km_blocks_def by blast
qed

lemma km_blocks_bounds:
  assumes "slab_rep s A" and "heap_rep base h bs" and "r \<in> km_blocks base A bs"
  shows "fst r + snd r < 2 ^ 64" "0 < fst r"
proof -
  have "fst r + snd r < 2 ^ 64 \<and> 0 < fst r"
  proof (cases "r \<in> live base bs")
    case True
    from heap_live_bounds[OF assms(2) True] show ?thesis by simp
  next
    case False
    then have r: "r \<in> slab_live A" using assms(3) by (simp add: km_blocks_def)
    have "slab_above 0 s A" by (simp add: slab_above_def)
    from slab_live_bounds(2,3)[OF assms(1) r] slab_live_bounds(3)[OF assms(1) r this] show ?thesis by simp
  qed
  then show "fst r + snd r < 2 ^ 64" "0 < fst r" by simp_all
qed

lemma km_repD:
  assumes "km_rep base s A bs"
  shows "slab_rep (km_slab s) A" "heap_rep base (km_heap s) bs"
    "slab_above (base + HEAP_SIZE) (km_slab s) A"
    "r \<in> slab_live A \<Longrightarrow> ah_magic (km_hdr s (of_nat (fst r))) = ALLOC_MAGIC_SLAB"
    "r \<in> live base bs \<Longrightarrow> ah_magic (km_hdr s (of_nat (fst r))) = ALLOC_MAGIC_HEAP"
    "r \<in> km_blocks base A bs \<Longrightarrow> snd (obj_of s r) + 8 \<le> snd r"
    "r \<in> km_blocks base A bs \<Longrightarrow> fst r + snd r < 2 ^ 64"
    "r \<in> km_blocks base A bs \<Longrightarrow> 0 < fst r"
    "r \<in> km_blocks base A bs \<Longrightarrow> q \<in> km_blocks base A bs \<Longrightarrow> r \<noteq> q \<Longrightarrow> apart r q"
proof -
  show r: "slab_rep (km_slab s) A" "heap_rep base (km_heap s) bs"
    "slab_above (base + HEAP_SIZE) (km_slab s) A" using assms by (simp_all add: km_rep_def)
  show "r \<in> km_blocks base A bs \<Longrightarrow> fst r + snd r < 2 ^ 64" "r \<in> km_blocks base A bs \<Longrightarrow> 0 < fst r"
    using km_blocks_bounds[OF r(1,2)] by blast+
  show "r \<in> km_blocks base A bs \<Longrightarrow> q \<in> km_blocks base A bs \<Longrightarrow> r \<noteq> q \<Longrightarrow> apart r q"
    using km_blocks_apart[OF r] by blast
qed (use assms in \<open>simp_all add: km_rep_def\<close>)

lemma km_obj_apart:
  assumes "km_rep base s A bs" and "r \<in> km_blocks base A bs" and "q \<in> km_blocks base A bs" and "r \<noteq> q"
  shows "apart (obj_of s r) (obj_of s q)"
  using km_repD(9)[OF assms] km_repD(6)[OF assms(1,2)] km_repD(6)[OF assms(1,3)]
  by (auto simp: apart_def obj_of_def)

lemma km_obj_inj:
  assumes "km_rep base s A bs"
  shows "inj_on (obj_of s) (km_blocks base A bs)"
proof (rule inj_onI, rule ccontr)
  fix r q assume rq: "r \<in> km_blocks base A bs" "q \<in> km_blocks base A bs" "obj_of s r = obj_of s q" "r \<noteq> q"
  from km_repD(9)[OF assms rq(1,2,4)] km_repD(6)[OF assms rq(1)] km_repD(6)[OF assms rq(2)] rq(3)
  show False by (auto simp: apart_def obj_of_def)
qed

section \<open>Allocation\<close>

text \<open>Writing the header of a block just added leaves the other objects alone.\<close>

lemma put_hdr_obj:
  assumes "slab_rep sl A" "heap_rep base h bs" "slab_above (base + HEAP_SIZE) sl A"
    and new: "(unat p, k) \<in> km_blocks base A bs" and "0 < k" and old: "r \<in> km_blocks base A bs"
    and "r \<noteq> (unat p, k)" and "0 < snd r"
  shows "obj_of (put_hdr p mg n s) r = obj_of s r" "(of_nat (fst r) :: u64) \<noteq> p"
proof -
  have "apart r (unat p, k)" by (rule km_blocks_apart[OF assms(1-3) old new assms(7)])
  then have "fst r \<noteq> unat p" using assms(5,8) by (auto simp: apart_def)
  moreover have "fst r < 2 ^ 64" using km_blocks_bounds(1)[OF assms(1,2) old] by simp
  ultimately show n: "(of_nat (fst r) :: u64) \<noteq> p" by (auto simp: unat_addr)
  show "obj_of (put_hdr p mg n s) r = obj_of s r" by (simp add: obj_of_def put_hdr_def n)
qed

lemma put_hdr_fields [simp]:
  "km_slab (put_hdr p mg n s) = km_slab s" "km_heap (put_hdr p mg n s) = km_heap s"
  "km_bytes (put_hdr p mg n s) = km_bytes s"
  "km_hdr (put_hdr p mg n s) = (km_hdr s)(p := \<lparr>ah_magic = mg, ah_size = ucast n\<rparr>)"
  by (simp_all add: put_hdr_def)

text \<open>A block just taken from one of the two allocators becomes an object.\<close>

lemma km_add_block:
  assumes rep: "km_rep base s A bs"
    and new: "slab_rep sl A'" "heap_rep base h bs'" "slab_above (base + HEAP_SIZE) sl A'"
    and mg: "if slb then slab_live A' = insert (unat p, k) (slab_live A) \<and> live base bs' = live base bs
      else slab_live A' = slab_live A \<and> live base bs' = insert (unat p, k) (live base bs)"
    and k: "unat n + 8 \<le> k" "unat n < 2 ^ 32" and fresh: "(unat p, k) \<notin> km_blocks base A bs"
    and s': "s' = put_hdr p (if slb then ALLOC_MAGIC_SLAB else ALLOC_MAGIC_HEAP) n
      (s\<lparr>km_slab := sl, km_heap := h\<rparr>)"
  shows "km_rep base s' A' bs' \<and>
    obj_of s' ` km_blocks base A' bs' = insert (unat p + 8, unat n) (obj_of s ` km_blocks base A bs) \<and>
    (\<forall>r \<in> obj_of s ` km_blocks base A bs. apart (unat p + 8, unat n) r)"
proof -
  have bl: "km_blocks base A' bs' = insert (unat p, k) (km_blocks base A bs)"
    using mg by (auto simp: km_blocks_def split: if_splits)
  have old: "obj_of s' r = obj_of s r" "(of_nat (fst r) :: u64) \<noteq> p" if r: "r \<in> km_blocks base A bs" for r
  proof -
    have "0 < snd r" using km_repD(6)[OF rep r] by simp
    moreover have "r \<noteq> (unat p, k)" using r fresh by blast
    moreover have "obj_of (s\<lparr>km_slab := sl, km_heap := h\<rparr>) r = obj_of s r" by (simp add: obj_of_def)
    ultimately show "obj_of s' r = obj_of s r" "(of_nat (fst r) :: u64) \<noteq> p"
      using put_hdr_obj[OF new, of p k r] r k(1) unfolding bl s' by simp_all
  qed
  have np: "obj_of s' (unat p, k) = (unat p + 8, unat n)"
    using k(2) by (simp add: obj_of_def s' unsigned_ucast_eq take_bit_eq_mod)
  moreover from np old(1) have "obj_of s' ` km_blocks base A' bs' =
      insert (unat p + 8, unat n) (obj_of s ` km_blocks base A bs)"
    unfolding bl by (simp cong: image_cong)
  moreover have rep': "km_rep base s' A' bs'"
    unfolding km_rep_def
  proof (intro conjI ballI)
    show "slab_rep (km_slab s') A'" "heap_rep base (km_heap s') bs'"
      "slab_above (base + HEAP_SIZE) (km_slab s') A'" using new by (simp_all add: s')
    show "snd (obj_of s' r) + 8 \<le> snd r" if "r \<in> km_blocks base A' bs'" for r
      using that old(1)[of r] km_repD(6)[OF rep, of r] calculation(1) k(1) unfolding bl by auto
    have u: "r \<in> slab_live A \<union> live base bs \<Longrightarrow> km_hdr s' (of_nat (fst r)) = km_hdr s (of_nat (fst r))" for r
      using old(2)[of r] by (simp add: s' km_blocks_def)
    have p: "ah_magic (km_hdr s' (of_nat (unat p))) = (if slb then ALLOC_MAGIC_SLAB else ALLOC_MAGIC_HEAP)"
      by (simp add: s')
    show "ah_magic (km_hdr s' (of_nat (fst r))) = ALLOC_MAGIC_SLAB" if "r \<in> slab_live A'" for r
      using that mg u[of r] p km_repD(4)[OF rep, of r] by (auto split: if_splits)
    show "ah_magic (km_hdr s' (of_nat (fst r))) = ALLOC_MAGIC_HEAP" if "r \<in> live base bs'" for r
      using that mg u[of r] p km_repD(5)[OF rep, of r] by (auto split: if_splits)
  qed
  moreover have "apart (unat p + 8, unat n) (obj_of s r)" if "r \<in> km_blocks base A bs" for r
    using km_obj_apart[OF rep', of "(unat p, k)" r] old(1)[OF that] np that fresh unfolding bl by auto
  ultimately show ?thesis by blast
qed

lemma plus8:
  assumes "unat (n :: u64) < 2 ^ 64 - 8"
  shows "unat (n + 8) = unat n + 8"
  using assms by (simp add: unat_word_ariths)

lemma kmalloc_heap_spec:
  assumes rep: "km_rep base s A bs" and n: "unat n < 2 ^ 64 - 8"
  shows "\<exists>p s' bs'. kmalloc_heap n s = Some (Ret (p, s')) \<and> km_rep base s' A bs' \<and>
    km_bytes s' = km_bytes s \<and> obj_of s' ` km_blocks base A bs' = (if p = 0 then {} else {(unat p, unat n)}) \<union>
      obj_of s ` km_blocks base A bs \<and>
    (p \<noteq> 0 \<longrightarrow> (\<forall>r \<in> obj_of s ` km_blocks base A bs. apart (unat p, unat n) r))"
proof -
  note R = km_repD[OF rep]
  obtain q h where a: "heap_alloc (n + 8) (km_heap s) = Some (q, h)"
    using kheap.alloc_total[of base "km_heap s" "live base bs" "n + 8"] R(2) u64_bound[of "n + 8"]
    by (auto simp: heap_live_def)
  show ?thesis
  proof (cases "q = 0")
    case True
    then obtain bs' where "heap_rep base h bs'" "live base bs' = live base bs"
      using kheap.alloc_null[of base "km_heap s" "live base bs" "n + 8" h] R(2) a u64_bound[of "n + 8"]
      by (auto simp: heap_live_def)
    with rep a True show ?thesis
      by (intro exI[of _ 0] exI[of _ "s\<lparr>km_heap := h\<rparr>"] exI[of _ bs'])
         (simp add: kmalloc_heap_def km_rep_def km_blocks_def obj_of_def)
  next
    case False
    from heap_alloc_fresh[OF R(2) a False] obtain k bs' where k: "unat (n + 8) \<le> k" "heap_rep base h bs'"
      "live base bs' = insert (unat q, k) (live base bs)" "base + 24 \<le> unat q"
      "unat q + k \<le> base + HEAP_SIZE" "\<forall>r \<in> live base bs. apart (unat q, k) r" by blast
    have nk: "unat n + 8 \<le> k" "unat n < 2 ^ 32" using k(1,4,5) plus8[OF n] by (simp_all add: HEAP_SIZE_def)
    have fresh: "(unat q, k) \<notin> km_blocks base A bs"
      using k(5,6) nk(1) slab_live_bounds(3)[OF R(1) _ R(3), of "(unat q, k)"]
      by (auto simp: km_blocks_def apart_def)
    have q8: "unat (q + 8) = unat q + 8" using k(4,5) nk(1) R(2)
      by (intro plus8) (simp add: heap_rep_def)
    then have "q + 8 \<noteq> 0" by (metis unat_0 add_is_0 zero_neq_numeral)
    let ?s = "put_hdr q ALLOC_MAGIC_HEAP n (s\<lparr>km_heap := h\<rparr>)"
    have "km_rep base ?s A bs' \<and> obj_of ?s ` km_blocks base A bs' =
        insert (unat q + 8, unat n) (obj_of s ` km_blocks base A bs) \<and>
        (\<forall>r \<in> obj_of s ` km_blocks base A bs. apart (unat q + 8, unat n) r)"
      by (rule km_add_block[where slb = False, OF rep R(1) k(2) R(3) _ nk fresh]) (simp_all add: k(3) put_hdr_def)
    with a False q8 \<open>q + 8 \<noteq> 0\<close> show ?thesis
      by (intro exI[of _ "q + 8"] exI[of _ ?s] exI[of _ bs']) (simp add: kmalloc_heap_def Let_def)
  qed
qed

lemma kmalloc_spec:
  assumes rep: "km_rep base s A bs" and n: "unat n < 2 ^ 64 - 8"
  shows "\<exists>p s' A' bs'. kmalloc n s = Some (Ret (p, s')) \<and> km_rep base s' A' bs' \<and>
    km_bytes s' = km_bytes s \<and> obj_of s' ` km_blocks base A' bs' = (if p = 0 then {} else {(unat p, unat n)}) \<union>
      obj_of s ` km_blocks base A bs \<and>
    (p \<noteq> 0 \<longrightarrow> (\<forall>r \<in> obj_of s ` km_blocks base A bs. apart (unat p, unat n) r))"
proof (cases "unat (n + 8) \<le> SLAB_MAX_OBJ")
  case False
  then have e: "kmalloc n s = kmalloc_heap n s" by (simp add: kmalloc_def)
  show ?thesis unfolding e using kmalloc_heap_spec[OF assms] by - (elim exE, intro exI, assumption)
next
  case True
  note R = km_repD[OF rep]
  have sm: "unat n + 8 \<le> 1024" using True plus8[OF n] by (simp add: SLAB_MAX_OBJ_def)
  let ?z = "ucast (ucast (ucast n :: u32) + 8 :: u64) :: u32"
  have "unat ?z = unat n + 8" using sm
    by (simp add: unsigned_ucast_eq take_bit_eq_mod unat_word_ariths)
  then have z: "unat ?z = unat n + 8" "0 < ?z" "unat ?z \<le> SLAB_MAX_OBJ"
    using sm by (simp_all add: word_less_nat_alt SLAB_MAX_OBJ_def)
  from slab_alloc_cases[OF R(1) z(2,3)] obtain q sl A' where a: "slab_alloc ?z (km_slab s) = Some (Ret (q, sl))"
    "slab_rep sl A'" "\<forall>lo. slab_above lo (km_slab s) A \<longrightarrow> slab_above lo sl A' \<and> (q = 0 \<or> lo \<le> unat q)"
    "if q = 0 then slab_live A' = slab_live A \<and> fst (alloc_page (slab_pmm (km_slab s))) = 0
     else \<exists>k. class_for (unat ?z) k \<and> slab_live A' = insert (unat q, k) (slab_live A) \<and>
       (unat q, k) \<notin> slab_live A" by blast
  have ab: "slab_above (base + HEAP_SIZE) sl A'" using a(3) R(3) by blast
  show ?thesis
  proof (cases "q = 0")
    case q: True
    have s1: "km_rep base (s\<lparr>km_slab := sl\<rparr>) A' bs"
      "obj_of (s\<lparr>km_slab := sl\<rparr>) ` km_blocks base A' bs = obj_of s ` km_blocks base A bs"
      using rep a(2,4) ab q by (simp_all add: km_rep_def km_blocks_def obj_of_def)
    have e: "kmalloc n s = kmalloc_heap n (s\<lparr>km_slab := sl\<rparr>)" using a(1) True q by (simp add: kmalloc_def)
    have b: "km_bytes (s\<lparr>km_slab := sl\<rparr>) = km_bytes s" by simp
    show ?thesis unfolding e using kmalloc_heap_spec[OF s1(1) n] unfolding s1(2) b
      by - (elim exE, intro exI, assumption)
  next
    case False
    with a(4) obtain k where k: "class_for (unat ?z) k" "slab_live A' = insert (unat q, k) (slab_live A)"
      "(unat q, k) \<notin> slab_live A" by auto
    have nk: "unat n + 8 \<le> k" "unat n < 2 ^ 32" using k(1) z(1) sm by (simp_all add: class_for_def)
    have in': "(unat q, k) \<in> slab_live A'" using k(2) by simp
    have fresh: "(unat q, k) \<notin> km_blocks base A bs"
      using k(3) heap_live_bounds(2)[OF R(2), of "(unat q, k)"] nk(1)
        slab_live_bounds(3)[OF a(2) in' ab] by (auto simp: km_blocks_def)
    have q8: "unat (q + 8) = unat q + 8" using slab_live_bounds(2)[OF a(2) in'] by (intro plus8) simp
    then have q0: "q + 8 \<noteq> 0" by (metis unat_0 add_is_0 zero_neq_numeral)
    let ?s = "put_hdr q ALLOC_MAGIC_SLAB n (s\<lparr>km_slab := sl\<rparr>)"
    have "km_rep base ?s A' bs \<and> obj_of ?s ` km_blocks base A' bs =
        insert (unat q + 8, unat n) (obj_of s ` km_blocks base A bs) \<and>
        (\<forall>r \<in> obj_of s ` km_blocks base A bs. apart (unat q + 8, unat n) r)"
      by (rule km_add_block[where slb = True, OF rep a(2) R(2) ab _ nk fresh]) (simp_all add: k(2) put_hdr_def)
    with a(1) True False q8 q0 show ?thesis
      by (intro exI[of _ "q + 8"] exI[of _ ?s] exI[of _ A'] exI[of _ bs]) (simp add: kmalloc_def Let_def)
  qed
qed

section \<open>Release\<close>

lemma kfree_spec:
  assumes rep: "km_rep base s A bs" and "(unat p, n) \<in> obj_of s ` km_blocks base A bs"
  shows "\<exists>A' bs'. km_rep base (kfree p s) A' bs' \<and> km_bytes (kfree p s) = km_bytes s \<and>
    obj_of (kfree p s) ` km_blocks base A' bs' = obj_of s ` km_blocks base A bs - {(unat p, n)}"
proof -
  note R = km_repD[OF rep]
  from assms(2) obtain r where r: "r \<in> km_blocks base A bs" "obj_of s r = (unat p, n)" by auto
  obtain x k where xk: "r = (x, k)" by (cases r)
  have px: "unat p = x + 8" and sn: "unat (ah_size (km_hdr s (of_nat x))) = n"
    using r(2) by (simp_all add: obj_of_def xk)
  have k: "n + 8 \<le> k" "x + k < 2 ^ 64" using R(6,7)[OF r(1)] r(2) by (simp_all add: xk)
  have "p = of_nat (unat p)" by simp
  then have p8: "p - 8 = of_nat x" unfolding px by simp
  have p0: "p \<noteq> 0" using px by (auto simp: unat_eq_0)
  have keep: "obj_of (kfree p s) = obj_of s" "km_hdr (kfree p s) = km_hdr s"
      "km_bytes (kfree p s) = km_bytes s"
    by (simp_all add: kfree_def obj_of_def Let_def fun_eq_iff)
  have img: "obj_of s ` (km_blocks base A bs - {r}) = obj_of s ` km_blocks base A bs - {(unat p, n)}"
    using inj_on_image_set_diff[OF km_obj_inj[OF rep], of "km_blocks base A bs" "{r}"] r by auto
  have fin: ?thesis if "slab_rep (km_slab (kfree p s)) A'" "heap_rep base (km_heap (kfree p s)) bs'"
    "slab_above (base + HEAP_SIZE) (km_slab (kfree p s)) A'" "slab_live A' \<subseteq> slab_live A"
    "live base bs' \<subseteq> live base bs" "km_blocks base A' bs' = km_blocks base A bs - {r}" for A' bs'
  proof -
    have "km_rep base (kfree p s) A' bs'"
      unfolding km_rep_def keep that(6) using that(1-5) R(4-6) by blast
    then show ?thesis using that(6) keep img by (intro exI[of _ A'] exI[of _ bs']) simp
  qed
  show ?thesis
  proof (cases "r \<in> slab_live A")
    case True
    have mg: "ah_magic (km_hdr s (p - 8)) = ALLOC_MAGIC_SLAB" using R(4)[OF True] by (simp add: xk p8)
    let ?z = "ucast (ucast (ah_size (km_hdr s (of_nat x))) + 8 :: u64) :: u32"
    have kz: "k \<le> 1024" using True by (auto simp: xk slab_live_iff dest: slab_size_bounds)
    then have "unat ?z = n + 8" using k(1) sn
      by (simp add: unsigned_ucast_eq take_bit_eq_mod unat_word_ariths)
    then have z: "0 < ?z" "unat ?z \<le> SLAB_MAX_OBJ" using k(1) kz
      by (simp_all add: word_less_nat_alt SLAB_MAX_OBJ_def)
    have kf: "kfree p s = s\<lparr>km_slab := slab_free (of_nat x) ?z (km_slab s)\<rparr>"
      using mg p0 by (simp add: kfree_def Let_def p8)
    have r': "(x, k) \<in> slab_live A" using True xk by simp
    from slab_free_live[OF R(1) r' z] R(3) obtain A' where
      A': "slab_rep (slab_free (of_nat x) ?z (km_slab s)) A'" "slab_live A' = slab_live A - {r}"
        "slab_above (base + HEAP_SIZE) (slab_free (of_nat x) ?z (km_slab s)) A'" unfolding xk by blast
    have "r \<notin> live base bs"
      using heap_live_bounds(2)[OF R(2), of r] slab_live_bounds(3)[OF R(1) True R(3)] by auto
    with A' R(2) show ?thesis by (intro fin[of A' bs]) (auto simp: kf km_blocks_def)
  next
    case False
    then have r': "r \<in> live base bs" using r(1) by (simp add: km_blocks_def)
    have kf: "kfree p s = s\<lparr>km_heap := heap_free (of_nat x) (km_heap s)\<rparr>"
      using R(5)[OF r'] p0 by (simp add: kfree_def Let_def p8 xk ALLOC_MAGIC_SLAB_def ALLOC_MAGIC_HEAP_def)
    have "unat (of_nat x :: u64) = x" using k(2) by (intro unat_addr) simp
    with heap_free_live[OF R(2), of "of_nat x" k] r' obtain bs' where
      "heap_rep base (heap_free (of_nat x) (km_heap s)) bs'" "live base bs' = live base bs - {r}"
      unfolding xk by auto
    with R(1,3) False show ?thesis by (intro fin[of A bs']) (auto simp: kf km_blocks_def)
  qed
qed

section \<open>The contract\<close>

text \<open>\<open>kmalloc\<close> as a total allocator: a call that loops or panics has no result.\<close>

definition km_alloc :: "u64 \<Rightarrow> kmem \<Rightarrow> (u64 \<times> kmem) option" where
  "km_alloc n s = (case kmalloc n s of Some (Ret r) \<Rightarrow> Some r | _ \<Rightarrow> None)"

lemma km_alloc_cases:
  assumes "km_live base s R" and "unat n < 2 ^ 64 - 8"
  obtains p s' where "kmalloc n s = Some (Ret (p, s'))" "km_bytes s' = km_bytes s"
    "km_live base s' ((if p = 0 then {} else {(unat p, unat n)}) \<union> R)"
    "p \<noteq> 0 \<longrightarrow> (\<forall>r \<in> R. apart (unat p, unat n) r)"
proof -
  from assms(1) obtain A bs where "km_rep base s A bs" and R: "obj_of s ` km_blocks base A bs = R"
    by (auto simp: km_live_def)
  from kmalloc_spec[OF this(1) assms(2)] obtain p s' A' bs' where
    k: "kmalloc n s = Some (Ret (p, s'))" "km_rep base s' A' bs'" "km_bytes s' = km_bytes s"
      "obj_of s' ` km_blocks base A' bs' = (if p = 0 then {} else {(unat p, unat n)}) \<union> R"
      "p \<noteq> 0 \<longrightarrow> (\<forall>r \<in> R. apart (unat p, unat n) r)" unfolding R by blast
  from k(2,4) have "km_live base s' ((if p = 0 then {} else {(unat p, unat n)}) \<union> R)"
    unfolding km_live_def by blast
  with k that show ?thesis by blast
qed

lemma kfree_live:
  assumes "km_live base s R" and "(unat p, n) \<in> R"
  shows "km_live base (kfree p s) (R - {(unat p, n)}) \<and> km_bytes (kfree p s) = km_bytes s"
  using assms kfree_spec unfolding km_live_def by blast

interpretation kobj: object_allocator km_alloc kfree "km_live base" "2 ^ 64 - 8" for base
proof unfold_locales
  fix s R s' k and n p :: u64
  assume L: "km_live base s R"
  show "(unat p, k) \<in> R \<Longrightarrow> km_live base (kfree p s) (R - {(unat p, k)})"
    using kfree_live[OF L] by blast
  assume n: "unat n < 2 ^ 64 - 8"
  from km_alloc_cases[OF L n] obtain q t where a: "kmalloc n s = Some (Ret (q, t))"
    and t: "km_live base t ((if q = 0 then {} else {(unat q, unat n)}) \<union> R)"
      "q \<noteq> 0 \<longrightarrow> (\<forall>r \<in> R. apart (unat q, unat n) r)" by blast
  have e: "km_alloc n s = Some (q, t)" by (simp add: km_alloc_def a)
  show "\<exists>p s'. km_alloc n s = Some (p, s')" using e by blast
  show "km_alloc n s = Some (0, s') \<Longrightarrow> km_live base s' R" using e t by simp
  show "km_alloc n s = Some (p, s') \<Longrightarrow> p \<noteq> 0 \<Longrightarrow>
      \<exists>k \<ge> unat n. km_live base s' (insert (unat p, k) R) \<and> (\<forall>r \<in> R. apart (unat p, k) r)"
    using e t by auto
qed

lemma memcpy_frame: "(\<And>i. i < n \<Longrightarrow> a \<noteq> dst + of_nat i) \<Longrightarrow> memcpy_asm dst src n m a = m a"
  by (induction n) (simp_all add: memcpy_asm_def)

lemma memcpy_copies:
  assumes "\<And>i j. i < n \<Longrightarrow> j < n \<Longrightarrow> src + of_nat i \<noteq> dst + of_nat j"
    and "\<And>i j. i < n \<Longrightarrow> j < n \<Longrightarrow> dst + of_nat i = dst + (of_nat j :: u64) \<Longrightarrow> i = j" and "i < n"
  shows "memcpy_asm dst src n m (dst + of_nat i) = m (src + of_nat i)"
  using assms
proof (induction n)
  case (Suc n)
  have s: "memcpy_asm dst src (Suc n) m =
      (memcpy_asm dst src n m)(dst + of_nat n := memcpy_asm dst src n m (src + of_nat n))"
    by (simp add: memcpy_asm_def)
  show ?case
  proof (cases "i = n")
    case True
    have "memcpy_asm dst src n m (src + of_nat n) = m (src + of_nat n)"
      by (rule memcpy_frame) (use Suc.prems(1) in auto)
    then show ?thesis by (simp add: s True)
  next
    case False
    then have "dst + of_nat i \<noteq> dst + (of_nat n :: u64)" using Suc.prems(2)[of i n] Suc.prems(3) by auto
    then have "memcpy_asm dst src (Suc n) m (dst + of_nat i) = memcpy_asm dst src n m (dst + of_nat i)"
      by (simp add: s)
    also have "\<dots> = m (src + of_nat i)" using Suc False by auto
    finally show ?thesis .
  qed
qed simp

lemma km_live_bytes [simp]: "km_live base (s\<lparr>km_bytes := m\<rparr>) R = km_live base s R"
  by (simp add: km_live_def km_rep_def obj_of_def)

text \<open>The header of a live object records its size, and its bytes do not wrap.\<close>

lemma km_live_obj:
  assumes "km_live base s R" and "(unat p, m) \<in> R"
  shows "unat (ah_size (km_hdr s (p - 8))) = m" "unat p + m < 2 ^ 64" "p \<noteq> 0"
proof -
  from assms obtain A bs r where rep: "km_rep base s A bs" and r: "r \<in> km_blocks base A bs"
    "obj_of s r = (unat p, m)" by (auto simp: km_live_def)
  have px: "unat p = fst r + 8" using r(2) by (simp add: obj_of_def)
  have "p = of_nat (unat p)" by simp
  then have "p - 8 = of_nat (fst r)" unfolding px by simp
  then show "unat (ah_size (km_hdr s (p - 8))) = m" using r(2) by (simp add: obj_of_def)
  show "unat p + m < 2 ^ 64" using km_repD(6,7)[OF rep r(1)] r(2) px by simp
  show "p \<noteq> 0" using px by (auto simp: unat_eq_0)
qed

lemma addr_off: "unat (p :: u64) + i < 2 ^ 64 \<Longrightarrow> unat (p + of_nat i) = unat p + i"
  by (simp add: unat_word_ariths unsigned_of_nat take_bit_eq_mod)

lemma apart_bytes:
  assumes "apart (unat p, m) (unat q, k)" and "unat p + m < 2 ^ 64" and "unat q + k < 2 ^ 64"
    and "i < m" and "j < k"
  shows "(p :: u64) + of_nat i \<noteq> q + of_nat j"
proof
  assume "p + of_nat i = q + of_nat j"
  then have "unat p + i = unat q + j" using addr_off[of p i] addr_off[of q j] assms(2-5) by simp
  with assms show False by (auto simp: apart_def)
qed

lemma krealloc_spec:
  assumes L: "km_live base s R" and p: "(unat p, m) \<in> R" and n: "0 < n" "unat n < 2 ^ 64 - 8"
  shows "\<exists>q s'. krealloc p n s = Some (Ret (q, s')) \<and>
    km_live base s' ((if q = 0 then {} else {(unat q, unat n)}) \<union> (R - {(unat p, m)})) \<and>
    (q \<noteq> 0 \<longrightarrow> (\<forall>i < min m (unat n). km_bytes s' (q + of_nat i) = km_bytes s (p + of_nat i))) \<and>
    (\<forall>(x, k) \<in> R. \<forall>i<k. km_bytes s' (of_nat (x + i)) = km_bytes s (of_nat (x + i)))"
proof -
  note P = km_live_obj[OF L p]
  from km_alloc_cases[OF L n(2)] obtain q t where a: "kmalloc n s = Some (Ret (q, t))"
    and b: "km_bytes t = km_bytes s"
    and t: "km_live base t ((if q = 0 then {} else {(unat q, unat n)}) \<union> R)"
      "q \<noteq> 0 \<longrightarrow> (\<forall>r \<in> R. apart (unat q, unat n) r)" by blast
  have n0: "n \<noteq> 0" "0 < unat n" using n(1) by (auto simp: word_less_nat_alt)
  let ?old = "ucast (ah_size (km_hdr t (p - 8))) :: u64"
  have pt: "(unat p, m) \<in> (if q = 0 then {} else {(unat q, unat n)}) \<union> R" using p by simp
  have os: "unat ?old = m" using km_live_obj(1)[OF t(1) pt] u32_bound[of "ah_size (km_hdr t (p - 8))"]
    by (simp add: unsigned_ucast_eq take_bit_eq_mod)
  have len: "unat (if ?old < n then ?old else n) = min m (unat n)"
    using os by (simp add: word_less_nat_alt min_def)
  define u where "u = (if q \<noteq> 0 then t\<lparr>km_bytes := memcpy_asm q p (min m (unat n)) (km_bytes t)\<rparr> else t)"
  have k: "krealloc p n s = Some (Ret (q, kfree p u))"
    unfolding krealloc_def using P(3) n0(1) a len by (simp add: u_def)
  have lu: "km_live base u ((if q = 0 then {} else {(unat q, unat n)}) \<union> R)"
    using t(1) by (cases "q = 0") (simp_all add: u_def)
  have pq: "(unat p, m) \<noteq> (unat q, unat n)" if "q \<noteq> 0"
    using t(2) that p n0(2) by (force simp: apart_def)
  have e: "((if q = 0 then {} else {(unat q, unat n)}) \<union> R) - {(unat p, m)} =
      (if q = 0 then {} else {(unat q, unat n)}) \<union> (R - {(unat p, m)})" using pq by auto
  have F: "km_live base (kfree p u) ((if q = 0 then {} else {(unat q, unat n)}) \<union> (R - {(unat p, m)}))"
    "km_bytes (kfree p u) = km_bytes u" using kfree_live[OF lu pt] unfolding e by auto
  have Q: "unat q + unat n < 2 ^ 64" if "q \<noteq> 0" using km_live_obj(2)[OF t(1), of q "unat n"] that by simp
  have copy: "km_bytes u (q + of_nat i) = km_bytes s (p + of_nat i)" if q: "q \<noteq> 0" and i: "i < min m (unat n)" for i
  proof -
    have "apart (unat p, m) (unat q, unat n)" using t(2) q p apart_sym by blast
    note ap = apart_bytes[OF this P(2) Q[OF q]]
    have inj: "x = y" if "q + of_nat x = q + of_nat y" "x < unat n" "y < unat n" for x y
    proof -
      have "unat q + x < 2 ^ 64" "unat q + y < 2 ^ 64" using Q[OF q] that(2,3) by linarith+
      with addr_off[of q x] addr_off[of q y] arg_cong[OF that(1), of unat] show ?thesis by linarith
    qed
    have "memcpy_asm q p (min m (unat n)) (km_bytes t) (q + of_nat i) = km_bytes t (p + of_nat i)"
      by (rule memcpy_copies[OF _ _ i]) (use ap inj in \<open>blast intro: min.strict_boundedE\<close>)+
    then show ?thesis using q b by (simp add: u_def)
  qed
  have frame: "km_bytes u (of_nat (x + i)) = km_bytes s (of_nat (x + i))" if x: "(x, k) \<in> R" and i: "i < k" for x k i
  proof (cases "q = 0")
    case False
    have ux: "unat (of_nat x :: u64) = x \<and> x + k < 2 ^ 64"
    proof -
      from L x obtain A bs r where rep: "km_rep base s A bs" "r \<in> km_blocks base A bs" "obj_of s r = (x, k)"
        by (auto simp: km_live_def)
      then have "x + k < 2 ^ 64" using km_repD(6,7)[OF rep(1,2)] by (simp add: obj_of_def)
      then show ?thesis by (simp add: unat_addr)
    qed
    have "apart (unat (of_nat x :: u64), k) (unat q, unat n)" using t(2) False x ux apart_sym by fastforce
    from apart_bytes[OF this _ Q[OF False] i] ux
    have "(of_nat (x + i) :: u64) \<noteq> q + of_nat j" if "j < min m (unat n)" for j using that by simp
    then have "memcpy_asm q p (min m (unat n)) (km_bytes t) (of_nat (x + i)) = km_bytes t (of_nat (x + i))"
      by (rule memcpy_frame)
    then show ?thesis using False b by (simp add: u_def)
  qed (simp add: u_def b)
  show ?thesis using k F copy frame by (intro exI[of _ q] exI[of _ "kfree p u"]) auto
qed

section \<open>Boot\<close>

text \<open>
  The allocators as \<open>kernel_main\<close> brings them up: the page allocator from the firmware map, the
  heap over its array and the empty slab. The heap array is part of the kernel image, which
  \<open>init_memory\<close> keeps out of the page pool, so slab pages never meet heap blocks.
\<close>

lemma km_boot_rep:
  assumes mm: "mm \<noteq> []" "\<forall>r \<in> set mm. region_ok r" "\<forall>i. page_refcount s0 i = 0"
    and pm: "slab_pmm sl = init_memory ke ms mm s0" "slab_cache_count sl = 0"
    and heap: "0 < base" "heap_free_list h = of_nat base" "base + HEAP_SIZE \<le> unat ke" "unat ke < 2 ^ 40"
  shows "km_live base \<lparr>km_slab = slab_init sl, km_heap = init_heap h, km_hdr = hs, km_bytes = bys\<rparr> {}"
proof -
  let ?A = "\<lparr>pgs = (\<lambda>_. []), fre = (\<lambda>_. [])\<rparr>" and ?b = "[(HEAP_SIZE - 24, False)]"
  have inv: "pmm_inv (slab_pmm sl)"
    unfolding pm(1) by (intro pmm_reach_pmm_inv pmm_reach.boot mm)
  have keep: "slab_pmm (slab_init sl) = slab_pmm sl" by (simp add: slab_init_def slab_sizes_def)
  have above: "base + HEAP_SIZE \<le> f * 4096" if f: "f \<in> free_set (init_memory ke ms mm s0)" for f
  proof -
    have "kernel_end_page ke \<le> f" using f init_memory_free_set[OF mm(1,2)] by blast
    moreover have "kernel_end_page ke = (unat ke + 4095) div 4096"
      using heap(4) by (simp add: kernel_end_page_def unsigned_ucast_eq take_bit_eq_mod unat_div unat_word_ariths)
    ultimately show ?thesis using heap(3) by linarith
  qed
  have e: "slab_live ?A = {}" "live base ?b = {}" by (auto simp: slab_live_def)
  have "km_rep base \<lparr>km_slab = slab_init sl, km_heap = init_heap h, km_hdr = hs, km_bytes = bys\<rparr> ?A ?b"
    using slab_init_rep[OF inv pm(2)] init_heap_rep[OF heap(1) _ heap(2)] heap(3,4) above
    unfolding km_rep_def slab_above_def km_blocks_def e by (simp add: keep pm(1))
  then show ?thesis unfolding km_live_def by (force simp: km_blocks_def e)
qed

definition km_example :: kmem where
  "km_example = \<lparr>km_slab = slab_init (slab_example\<lparr>slab_cache_count := 0,
       slab_pmm := init_memory 0x1400000 0x1404000 [\<lparr>mb_base = 0, mb_len = 0x1404000, mb_type = 1\<rparr>] pmm_bss\<rparr>),
     km_heap = heap_example, km_hdr = (\<lambda>_. \<lparr>ah_magic = 0, ah_size = 0\<rparr>), km_bytes = ucast\<rparr>"

lemma km_example_live: "km_live 0x400000 km_example {}"
  unfolding km_example_def heap_example_def
  by (rule km_boot_rep[where mm = "[\<lparr>mb_base = 0, mb_len = 0x1404000, mb_type = 1\<rparr>]" and ?s0.0 = pmm_bss
      and ke = "0x1400000" and ms = "0x1404000"])
     (simp_all add: region_ok_def pmm_bss_def HEAP_SIZE_def)

lemma km_example_alloc:
  "\<exists>s'. kmalloc 5000 km_example = Some (Ret (0x400020, s')) \<and> km_live 0x400000 s' {(0x400020, 5000)}"
proof -
  have "first_fit (unat (5008 :: u64)) 0x400000 [(16777192, False)] = Some 0x400000" by simp
  then have "heap_alloc 5008 heap_example = Some (0x400018, take_block 5008 0x400000 heap_example)"
    using heap_alloc_refines(1)[OF heap_example_rep, of 5008] by simp
  then obtain s' where a: "kmalloc 5000 km_example = Some (Ret (0x400020, s'))"
    by (simp add: kmalloc_def kmalloc_heap_def SLAB_MAX_OBJ_def km_example_def)
  have "unat (5000 :: u64) < 2 ^ 64 - 8" by simp
  from km_alloc_cases[OF km_example_live this] obtain p t where
    b: "kmalloc 5000 km_example = Some (Ret (p, t))"
      "km_live 0x400000 t ((if p = 0 then {} else {(unat p, unat (5000 :: u64))}) \<union> {})" by blast
  then show ?thesis using a by simp
qed

section \<open>Properties\<close>

text \<open>C9: On a well-formed kernel memory, \<open>kmalloc\<close> of any size below \<open>SIZE_MAX - 7\<close> returns. A
  non-null result is an object of exactly the requested size that overlaps no object in use, the
  other objects keep their place and size, and no byte of theirs changes; \<open>NULL\<close> leaves the
  objects in use as they were.\<close>

theorem kmalloc_correct:
  assumes "km_live base s R" and "unat n < 2 ^ 64 - 8"
  shows "\<exists>p s'. kmalloc n s = Some (Ret (p, s')) \<and> km_bytes s' = km_bytes s \<and>
    (if p = 0 then km_live base s' R
     else km_live base s' (insert (unat p, unat n) R) \<and> (\<forall>r \<in> R. apart (unat p, unat n) r))"
proof -
  from km_alloc_cases[OF assms] obtain p s' where "kmalloc n s = Some (Ret (p, s'))" "km_bytes s' = km_bytes s"
    "km_live base s' ((if p = 0 then {} else {(unat p, unat n)}) \<union> R)"
    "p \<noteq> 0 \<longrightarrow> (\<forall>r \<in> R. apart (unat p, unat n) r)" by blast
  then show ?thesis by (intro exI[of _ p] exI[of _ s']) (cases "p = 0"; simp)
qed

theorem kmalloc_correct_witness:
  "\<exists>s'. kmalloc 5000 km_example = Some (Ret (0x400020, s')) \<and> km_live 0x400000 s' {(0x400020, 5000)}"
  using kmalloc_correct[OF km_example_live, of 5000] km_example_alloc by auto

text \<open>C10: \<open>kfree\<close> hands every object back to the allocator it came from: freeing the result of
  \<open>kmalloc\<close>, whichever allocator served it, restores exactly the objects in use before the call.\<close>

theorem kmalloc_kfree:
  assumes "km_live base s R" and "0 < n" and "unat n < 2 ^ 64 - 8"
    and "kmalloc n s = Some (Ret (p, s'))" and "p \<noteq> 0"
  shows "km_live base (kfree p s') R"
proof -
  have "km_alloc n s = Some (p, s')" by (simp add: km_alloc_def assms(4))
  from kobj.alloc_release[OF assms(1,3) this assms(5,2)] show ?thesis .
qed

theorem kmalloc_kfree_witness:
  "\<exists>s'. kmalloc 5000 km_example = Some (Ret (0x400020, s')) \<and> km_live 0x400000 (kfree 0x400020 s') {}"
  using kmalloc_kfree[OF km_example_live, of 5000 "0x400020"] km_example_alloc by auto

text \<open>C11: \<open>krealloc\<close> of an object in use to a non-zero size returns; the old object is released, a
  non-null result is a new object of the requested size whose first bytes, up to the smaller of
  the two sizes, are those of the old object, and no byte of any object changes.\<close>

theorem krealloc_correct:
  assumes "km_live base s R" and "(unat p, m) \<in> R" and "0 < n" and "unat n < 2 ^ 64 - 8"
  shows "\<exists>q s'. krealloc p n s = Some (Ret (q, s')) \<and>
    km_live base s' ((if q = 0 then {} else {(unat q, unat n)}) \<union> (R - {(unat p, m)})) \<and>
    (q \<noteq> 0 \<longrightarrow> (\<forall>i < min m (unat n). km_bytes s' (q + of_nat i) = km_bytes s (p + of_nat i))) \<and>
    (\<forall>(x, k) \<in> R. \<forall>i<k. km_bytes s' (of_nat (x + i)) = km_bytes s (of_nat (x + i)))"
  using assms by (rule krealloc_spec)

theorem krealloc_correct_witness:
  "\<exists>s q s'. kmalloc 5000 km_example = Some (Ret (0x400020, s)) \<and>
     krealloc 0x400020 6000 s = Some (Ret (q, s')) \<and>
     km_live 0x400000 s' (if q = 0 then {} else {(unat q, 6000)}) \<and>
     (q \<noteq> 0 \<longrightarrow> (\<forall>i<5000. km_bytes s' (q + of_nat i) = km_bytes s (0x400020 + of_nat i)))"
proof -
  obtain s where s: "kmalloc 5000 km_example = Some (Ret (0x400020, s))" "km_live 0x400000 s {(0x400020, 5000)}"
    using km_example_alloc by auto
  from krealloc_correct[OF s(2), of "0x400020" 5000 6000] obtain q s' where
    r: "krealloc 0x400020 6000 s = Some (Ret (q, s'))" and
      "km_live 0x400000 s' ((if q = 0 then {} else {(unat q, unat (6000 :: u64))}) \<union>
         ({(0x400020, 5000)} - {(unat (0x400020 :: u64), 5000)}))" and
      "q \<noteq> 0 \<longrightarrow> (\<forall>i < min 5000 (unat (6000 :: u64)). km_bytes s' (q + of_nat i) = km_bytes s (0x400020 + of_nat i))"
    by auto
  then show ?thesis using s(1) by (intro exI[of _ s] exI[of _ q] exI[of _ s']) (cases "q = 0"; simp)
qed

text \<open>The size guard of \<open>kmalloc\<close> wraps: for the seven largest sizes the request passed to the
  slab is between 1 and 7 bytes, so a caller asking for almost the whole address space gets the
  payload of a 32-byte slot whenever the slab can serve one.\<close>

theorem kmalloc_size_wraps:
  assumes "slab_rep (km_slab s) A" and "unat n > 2 ^ 64 - 8"
    and "fst (alloc_page (slab_pmm (km_slab s))) \<noteq> 0"
  shows "\<exists>q s' A'. kmalloc n s = Some (Ret (q + 8, s')) \<and> q \<noteq> 0 \<and> slab_rep (km_slab s') A' \<and>
    slab_live A' = insert (unat q, 32) (slab_live A)"
proof -
  define k where "k = unat n - (2 ^ 64 - 8)"
  have k: "unat n = 2 ^ 64 - 8 + k" "0 < k" "k < 8" using assms(2) u64_bound[of n] by (simp_all add: k_def)
  have w: "unat (n + 8) = k" using k by (simp add: unat_word_ariths)
  let ?z = "ucast (ucast (ucast n :: u32) + 8 :: u64) :: u32"
  from k have "k \<in> {1, 2, 3, 4, 5, 6, 7}" by auto
  then have z: "unat ?z = k" using k(1)
    by (auto simp: unsigned_ucast_eq take_bit_eq_mod unat_word_ariths)
  have "0 < ?z" "unat ?z \<le> SLAB_MAX_OBJ" using z k by (simp_all add: word_less_nat_alt SLAB_MAX_OBJ_def)
  from slab_alloc_cases[OF assms(1) this] assms(3) obtain q sl A' y where
    a: "slab_alloc ?z (km_slab s) = Some (Ret (q, sl))" "slab_rep sl A'" "q \<noteq> 0" "class_for k y"
      "slab_live A' = insert (unat q, y) (slab_live A)"
    unfolding z by (metis (no_types, lifting))
  have "y = 32" using a(4) k by (auto simp: class_for_def slab_sizes_def)
  with a w k show ?thesis
    by (intro exI[of _ q] exI[of _ "put_hdr q ALLOC_MAGIC_SLAB n (s\<lparr>km_slab := sl\<rparr>)"] exI[of _ A'])
       (simp add: kmalloc_def SLAB_MAX_OBJ_def Let_def)
qed

theorem kmalloc_size_wraps_witness:
  "\<exists>q s' A'. kmalloc 0xFFFFFFFFFFFFFFFF (km_example\<lparr>km_slab := slab_example\<rparr>) = Some (Ret (q + 8, s')) \<and> q \<noteq> 0 \<and>
     slab_rep (km_slab s') A' \<and> slab_live A' = {(unat q, 32)}"
proof -
  have nz: "fst (alloc_page (slab_pmm slab_example)) \<noteq> 0"
    by (simp add: slab_example_pmm pmm_example_alloc frame_addr_idx(2) MAX_PAGES_def)
  have e: "slab_live \<lparr>pgs = (\<lambda>_. []), fre = (\<lambda>_. [])\<rparr> = {}" by (auto simp: slab_live_def)
  have "unat (0xFFFFFFFFFFFFFFFF :: u64) > 2 ^ 64 - 8" by simp
  from kmalloc_size_wraps[OF _ this, of "km_example\<lparr>km_slab := slab_example\<rparr>"
      "\<lparr>pgs = (\<lambda>_. []), fre = (\<lambda>_. [])\<rparr>"] nz slab_example_rep
  show ?thesis unfolding e by simp
qed

end
