(* ===== verification/Paging.thy ===== *)
theory Paging
  imports Pmm
begin

text \<open>
  The page tables of \<open>src/kernel/paging.c\<close> and the user-memory access of \<open>src/kernel/syscall.c\<close>.
  Page-table words are a store indexed by physical address, the bytes of data frames another one
  (a frame is a table or data, and \<open>memset\<close> clears it in both); the page allocator is the one of
  the theory of frames. Every broadcast or local TLB invalidation is logged, so that the rule of
  the source, a live translation that is replaced or removed must be broadcast, can be stated.
\<close>

section \<open>State\<close>

datatype tlb_op = Shootdown u64 | Invlpg u64

record vm =
  v_pmm :: pmm
  ptw :: "u64 \<Rightarrow> u64"
  pbytes :: "u64 \<Rightarrow> u8"
  kernel_pml4 :: u64
  current_pml4 :: u64
  kernel_pml4_phys :: u64
  vm_demand_faults :: u64
  vm_cow_faults :: u64
  tlb_log :: "tlb_op list"

definition PAGE_PRESENT :: u64 where "PAGE_PRESENT = 1"
definition PAGE_WRITABLE :: u64 where "PAGE_WRITABLE = 2"
definition PAGE_USER :: u64 where "PAGE_USER = 4"
definition PAGE_HUGE :: u64 where "PAGE_HUGE = 0x80"
definition PAGE_NX :: u64 where "PAGE_NX = 0x8000000000000000"
definition PTE_DEMAND :: u64 where "PTE_DEMAND = 0x200"
definition PTE_COW :: u64 where "PTE_COW = 0x400"
definition PTE_ADDR_MASK :: u64 where "PTE_ADDR_MASK = 0x000FFFFFFFFFF000"
definition PML4_HIGHER :: nat where "PML4_HIGHER = 511"
definition USER_SPACE_MIN :: u64 where "USER_SPACE_MIN = 0x1000"
definition USER_SPACE_END :: u64 where "USER_SPACE_END = 0x0000800000000000"

lemmas page_flags [nyx_defs] = PAGE_PRESENT_def PAGE_WRITABLE_def PAGE_USER_def PAGE_HUGE_def
  PAGE_NX_def PTE_DEMAND_def PTE_COW_def PTE_ADDR_MASK_def

abbreviation has :: "u64 \<Rightarrow> u64 \<Rightarrow> bool" where
  "has e f \<equiv> e AND f \<noteq> 0"

text \<open>The table index of an address at a level (0 is the PML4) and the address of an entry.\<close>

definition pt_idx :: "nat \<Rightarrow> u64 \<Rightarrow> nat" where
  "pt_idx lvl va = unat (drop_bit (39 - 9 * lvl) va AND 0x1FF)"

definition ent :: "u64 \<Rightarrow> nat \<Rightarrow> u64" where
  "ent tbl i = tbl + 8 * of_nat i"

definition zero_page :: "u64 \<Rightarrow> vm \<Rightarrow> vm" where
  "zero_page a s = s\<lparr>ptw := (\<lambda>x. if a \<le> x \<and> x < a + 4096 then 0 else ptw s x),
     pbytes := (\<lambda>x. if a \<le> x \<and> x < a + 4096 then 0 else pbytes s x)\<rparr>"

definition set_ptw :: "u64 \<Rightarrow> u64 \<Rightarrow> vm \<Rightarrow> vm" where
  "set_ptw a e s = s\<lparr>ptw := (ptw s)(a := e)\<rparr>"

definition tlb :: "tlb_op \<Rightarrow> vm \<Rightarrow> vm" where
  "tlb op s = s\<lparr>tlb_log := tlb_log s @ [op]\<rparr>"

text \<open>A new zeroed frame, or 0 when the pool is empty.\<close>

definition alloc_zeroed :: "vm \<Rightarrow> u64 \<times> vm" where
  "alloc_zeroed s =
     (let (p, m) = alloc_page (v_pmm s); s = s\<lparr>v_pmm := m\<rparr>
      in if p = 0 then (0, s) else (p, zero_page p s))"

section \<open>Translation on the kernel tables\<close>

definition get_phys_addr :: "u64 \<Rightarrow> vm \<Rightarrow> u64" where
  "get_phys_addr addr s =
     (if kernel_pml4 s = 0 then 0
      else let pml4e = ptw s (ent (kernel_pml4 s) (pt_idx 0 addr)) in
      if \<not> has pml4e PAGE_PRESENT then 0
      else let pdpte = ptw s (ent (pml4e AND NOT 0xFFF) (pt_idx 1 addr)) in
      if \<not> has pdpte PAGE_PRESENT then 0
      else if has pdpte PAGE_HUGE then (pdpte AND NOT (2 ^ 30 - 1)) + (addr AND (2 ^ 30 - 1))
      else let pde = ptw s (ent (pdpte AND NOT 0xFFF) (pt_idx 2 addr)) in
      if \<not> has pde PAGE_PRESENT then 0
      else if has pde PAGE_HUGE then (pde AND NOT (2 ^ 21 - 1)) + (addr AND (2 ^ 21 - 1))
      else let pte = ptw s (ent (pde AND NOT 0xFFF) (pt_idx 3 addr)) in
      if \<not> has pte PAGE_PRESENT then 0
      else (pte AND NOT 0xFFF) + (addr AND 0xFFF))"

section \<open>Mapping\<close>

definition pt_next :: "u64 \<Rightarrow> u64 outcome" where
  "pt_next e = (if has e 0xFFF0000000000000 then Panic else Ret (e AND 0x000FFFFFFFFFF000))"

text \<open>One level of \<open>map_pml4\<close>: \<open>None\<close> is the early return when no frame is left.\<close>

definition map_level :: "u64 \<Rightarrow> u64 \<Rightarrow> nat \<Rightarrow> vm \<Rightarrow> (u64 option \<times> vm) outcome" where
  "map_level flags tbl i s =
     (let e = ptw s (ent tbl i) in
      if \<not> has e PAGE_PRESENT then
        (let (nt, s) = alloc_zeroed s in
         if nt = 0 then Ret (None, s)
         else Ret (Some nt, set_ptw (ent tbl i)
           (nt OR PAGE_PRESENT OR PAGE_WRITABLE OR (if has flags PAGE_USER then PAGE_USER else 0)) s))
      else case pt_next e of Panic \<Rightarrow> Panic | Ret t \<Rightarrow> Ret (Some t, s))"

fun map_levels :: "u64 \<Rightarrow> nat list \<Rightarrow> u64 \<Rightarrow> vm \<Rightarrow> (u64 option \<times> vm) outcome" where
  "map_levels flags [] tbl s = Ret (Some tbl, s)"
| "map_levels flags (i # is) tbl s =
     (case map_level flags tbl i s of
        Panic \<Rightarrow> Panic
      | Ret (None, s) \<Rightarrow> Ret (None, s)
      | Ret (Some t, s) \<Rightarrow> map_levels flags is t s)"

definition map_pml4 :: "u64 \<Rightarrow> u64 \<Rightarrow> u64 \<Rightarrow> u64 \<Rightarrow> vm \<Rightarrow> vm outcome" where
  "map_pml4 pml4 phys virt flags s =
     (case map_levels flags [pt_idx 0 virt, pt_idx 1 virt, pt_idx 2 virt] pml4 s of
        Panic \<Rightarrow> Panic
      | Ret (None, s) \<Rightarrow> Ret s
      | Ret (Some pt, s) \<Rightarrow>
          (let a = ent pt (pt_idx 3 virt); old = ptw s a;
               s = set_ptw a (phys OR PAGE_PRESENT OR PAGE_WRITABLE OR
                     (if has flags PAGE_USER then PAGE_USER else 0) OR (flags AND PAGE_NX)) s
           in Ret (if has old PAGE_PRESENT then tlb (Shootdown virt) s else tlb (Invlpg virt) s)))"

definition map_page :: "u64 \<Rightarrow> u64 \<Rightarrow> u64 \<Rightarrow> vm \<Rightarrow> vm outcome" where
  "map_page phys virt flags s = map_pml4 (kernel_pml4 s) phys virt flags s"

definition map_page_dir :: "u64 \<Rightarrow> u64 \<Rightarrow> u64 \<Rightarrow> u64 \<Rightarrow> vm \<Rightarrow> vm outcome" where
  "map_page_dir pml4 phys virt flags s = map_pml4 pml4 phys virt flags s"

definition unmap_page :: "u64 \<Rightarrow> vm \<Rightarrow> vm" where
  "unmap_page virt s =
     (if kernel_pml4 s = 0 then s
      else let pml4e = ptw s (ent (kernel_pml4 s) (pt_idx 0 virt)) in
      if \<not> has pml4e PAGE_PRESENT then s
      else let pdpte = ptw s (ent (pml4e AND NOT 0xFFF) (pt_idx 1 virt)) in
      if \<not> has pdpte PAGE_PRESENT then s
      else let pde = ptw s (ent (pdpte AND NOT 0xFFF) (pt_idx 2 virt)) in
      if \<not> has pde PAGE_PRESENT then s
      else tlb (Shootdown virt) (set_ptw (ent (pde AND NOT 0xFFF) (pt_idx 3 virt)) 0 s))"

definition switch_page_directory :: "u64 \<Rightarrow> vm \<Rightarrow> vm" where
  "switch_page_directory pml4 s = s\<lparr>current_pml4 := (if pml4 = 0 then kernel_pml4 s else pml4)\<rparr>"

definition alloc_page_directory :: "vm \<Rightarrow> u64 \<times> vm" where
  "alloc_page_directory s =
     (let (pml4, s) = alloc_zeroed s in
      if pml4 = 0 then (0, s)
      else (pml4, fold (\<lambda>i s. let e = ptw s (ent (kernel_pml4 s) i) in
              if has e PAGE_PRESENT then set_ptw (ent pml4 i) e s else s) [PML4_HIGHER..<512] s))"

section \<open>Releasing an address space\<close>

definition vfree :: "u64 \<Rightarrow> vm \<Rightarrow> vm" where
  "vfree a s = s\<lparr>v_pmm := free_page a (v_pmm s)\<rparr>"

definition free_pt :: "u64 \<Rightarrow> vm \<Rightarrow> vm" where
  "free_pt pt s = vfree pt (fold (\<lambda>l s. let e = ptw s (ent pt l) in
     if has e PAGE_PRESENT then vfree (e AND PTE_ADDR_MASK) s else s) [0..<512] s)"

definition free_dir :: "(u64 \<Rightarrow> vm \<Rightarrow> vm) \<Rightarrow> u64 \<Rightarrow> vm \<Rightarrow> vm" where
  "free_dir sub d s = vfree d (fold (\<lambda>k s. let e = ptw s (ent d k) in
     if \<not> has e PAGE_PRESENT \<or> has e PAGE_HUGE then s else sub (e AND PTE_ADDR_MASK) s) [0..<512] s)"

definition free_page_directory :: "u64 \<Rightarrow> vm \<Rightarrow> vm" where
  "free_page_directory pml4 s =
     (if pml4 = 0 then s
      else vfree pml4 (fold (\<lambda>i s. let e = ptw s (ent pml4 i) in
        if \<not> has e PAGE_PRESENT then s
        else free_dir (free_dir free_pt) (e AND PTE_ADDR_MASK) s) [0..<PML4_HIGHER] s))"

section \<open>The leaf walk\<close>

fun pte_walk :: "bool \<Rightarrow> nat list \<Rightarrow> u64 \<Rightarrow> vm \<Rightarrow> u64 option \<times> vm" where
  "pte_walk create [] tbl s = (Some tbl, s)"
| "pte_walk create (i # is) tbl s =
     (let e = ptw s (ent tbl i) in
      if has e PAGE_HUGE then (None, s)
      else if \<not> has e PAGE_PRESENT then
        (if \<not> create then (None, s)
         else
           (let (nt, s) = alloc_zeroed s in
            if nt = 0 then (None, s)
            else pte_walk create is nt
              (set_ptw (ent tbl i) (nt OR PAGE_PRESENT OR PAGE_WRITABLE OR PAGE_USER) s)))
      else pte_walk create is (e AND NOT 0xFFF) s)"

definition pte_ptr :: "u64 \<Rightarrow> u64 \<Rightarrow> bool \<Rightarrow> vm \<Rightarrow> u64 option \<times> vm" where
  "pte_ptr pml4 virt create s =
     (case pte_walk create [pt_idx 0 virt, pt_idx 1 virt, pt_idx 2 virt] pml4 s of
        (None, s) \<Rightarrow> (None, s)
      | (Some tbl, s) \<Rightarrow> (Some (ent tbl (pt_idx 3 virt)), s))"

definition map_page_ro :: "u64 \<Rightarrow> u64 \<Rightarrow> u64 \<Rightarrow> bool \<Rightarrow> vm \<Rightarrow> vm" where
  "map_page_ro pml4 phys virt exec s =
     (case pte_ptr pml4 virt True s of
        (None, s) \<Rightarrow> s
      | (Some pte, s) \<Rightarrow> set_ptw pte ((phys AND PTE_ADDR_MASK) OR
          (PAGE_PRESENT OR PAGE_USER OR (if exec then 0 else PAGE_NX))) s)"

text \<open>\<open>vm_free_range\<close> and \<open>vm_protect_range\<close>: \<open>None\<close> is a loop whose counter wraps for ever.\<close>

definition free_one_page :: "u64 \<Rightarrow> u64 \<Rightarrow> vm \<Rightarrow> vm" where
  "free_one_page pml4 va s =
     (case fst (pte_ptr pml4 va False s) of
        Some pte \<Rightarrow>
          (if has (ptw s pte) PAGE_PRESENT
           then tlb (Shootdown va) (set_ptw pte 0 (vfree (ptw s pte AND PTE_ADDR_MASK) s))
           else s)
      | None \<Rightarrow> s)"

definition protect_one :: "u64 \<Rightarrow> u32 \<Rightarrow> u64 \<Rightarrow> vm \<Rightarrow> vm" where
  "protect_one pml4 prot va s =
     (case fst (pte_ptr pml4 va False s) of
        Some pte \<Rightarrow>
          (if has (ptw s pte) PAGE_PRESENT
           then (let e = ptw s pte;
                     f = PAGE_PRESENT OR PAGE_USER;
                     f = (if prot AND 2 \<noteq> 0 then f OR PAGE_WRITABLE else f);
                     f = (if prot AND 4 = 0 then f OR PAGE_NX else f);
                     f = (if has e PTE_COW then (f AND NOT PAGE_WRITABLE) OR PTE_COW else f);
                     f = (if has e PTE_DEMAND then f OR PTE_DEMAND else f)
                 in tlb (Shootdown va) (set_ptw pte ((e AND PTE_ADDR_MASK) OR f) s))
           else s)
      | None \<Rightarrow> s)"

partial_function (option) vm_range :: "(u64 \<Rightarrow> vm \<Rightarrow> vm) \<Rightarrow> u64 \<Rightarrow> u64 \<Rightarrow> vm \<Rightarrow> vm option" where
  "vm_range f va end s = (if va < end then vm_range f (va + 4096) end (f va s) else Some s)"

definition vm_free_range :: "u64 \<Rightarrow> u64 \<Rightarrow> u64 \<Rightarrow> vm \<Rightarrow> vm option" where
  "vm_free_range pml4 start end s =
     (if pml4 = 0 then Some s else vm_range (free_one_page pml4) start end s)"

definition vm_protect_range :: "u64 \<Rightarrow> u64 \<Rightarrow> u64 \<Rightarrow> u32 \<Rightarrow> vm \<Rightarrow> vm option" where
  "vm_protect_range pml4 start end prot s =
     (if pml4 = 0 then Some s else vm_range (protect_one pml4 prot) start end s)"

section \<open>Walks over a whole address space\<close>

text \<open>A loop that an early return can leave: \<open>False\<close> once it has.\<close>

fun until_exit :: "('i \<Rightarrow> 's \<Rightarrow> bool \<times> 's) \<Rightarrow> 'i list \<Rightarrow> 's \<Rightarrow> bool \<times> 's" where
  "until_exit f [] s = (True, s)"
| "until_exit f (i # is) s = (case f i s of (True, s) \<Rightarrow> until_exit f is s | (False, s) \<Rightarrow> (False, s))"

definition va_of :: "nat \<Rightarrow> nat \<Rightarrow> nat \<Rightarrow> nat \<Rightarrow> u64" where
  "va_of i j k l = push_bit 39 (of_nat i) OR push_bit 30 (of_nat j) OR push_bit 21 (of_nat k) OR push_bit 12 (of_nat l)"

text \<open>
  The four nested loops over the user half, with the state of the caller beside the tables: they
  skip absent entries and huge ones below the top level, and read each entry when its turn comes.
\<close>

definition each_entry :: "('s \<Rightarrow> vm) \<Rightarrow> bool \<Rightarrow> nat \<Rightarrow> (nat \<Rightarrow> u64 \<Rightarrow> 's \<Rightarrow> bool \<times> 's) \<Rightarrow> u64 \<Rightarrow> 's \<Rightarrow> bool \<times> 's" where
  "each_entry g root n f tbl s = until_exit (\<lambda>i s. let e = ptw (g s) (ent tbl i) in
     if \<not> has e PAGE_PRESENT \<or> (\<not> root \<and> has e PAGE_HUGE) then (True, s)
     else f i (e AND PTE_ADDR_MASK) s) [0..<n] s"

definition each_page :: "('s \<Rightarrow> vm) \<Rightarrow> (u64 \<Rightarrow> u64 \<Rightarrow> nat \<Rightarrow> 's \<Rightarrow> bool \<times> 's) \<Rightarrow> u64 \<Rightarrow> 's \<Rightarrow> bool \<times> 's" where
  "each_page g f pml4 s =
     each_entry g True PML4_HIGHER (\<lambda>i. each_entry g False 512 (\<lambda>j. each_entry g False 512 (\<lambda>k pt.
       until_exit (\<lambda>l s. if \<not> has (ptw (g s) (ent pt l)) PAGE_PRESENT then (True, s)
                         else f (va_of i j k l) pt l s) [0..<512]))) pml4 s"

record vm_region =
  r_start :: u64
  r_end :: u64
  r_writable :: bool
  r_exec :: bool

definition collect_page :: "nat \<Rightarrow> u64 \<Rightarrow> u64 \<Rightarrow> nat \<Rightarrow> vm \<times> vm_region list \<Rightarrow> bool \<times> vm \<times> vm_region list" where
  "collect_page mx va pt l so =
     (let (s, out) = so; e = ptw s (ent pt l); w = has e PAGE_WRITABLE \<or> has e PTE_COW; x = \<not> has e PAGE_NX in
      if out \<noteq> [] \<and> r_end (last out) = va \<and> r_writable (last out) = w \<and> r_exec (last out) = x
      then (True, s, butlast out @ [(last out)\<lparr>r_end := va + 4096\<rparr>])
      else if length out \<ge> mx then (False, s, out)
      else (True, s, out @ [\<lparr>r_start = va, r_end = va + 4096, r_writable = w, r_exec = x\<rparr>]))"

definition vm_collect_regions :: "u64 \<Rightarrow> nat \<Rightarrow> vm \<Rightarrow> vm_region list" where
  "vm_collect_regions pml4 mx s =
     (if pml4 = 0 \<or> mx = 0 then [] else snd (snd (each_page fst (collect_page mx) pml4 (s, []))))"

definition cow_page :: "u64 \<Rightarrow> u64 \<Rightarrow> u64 \<Rightarrow> nat \<Rightarrow> vm \<Rightarrow> bool \<times> vm" where
  "cow_page child va pt l s =
     (let e = ptw s (ent pt l) in
      case pte_ptr child va True s of
        (None, s) \<Rightarrow> (False, free_page_directory child s)
      | (Some cpte, s) \<Rightarrow>
          (let s = (if has e PAGE_WRITABLE
                    then (let cow = (e AND NOT PAGE_WRITABLE) OR PTE_COW
                          in set_ptw cpte cow (set_ptw (ent pt l) cow s))
                    else set_ptw cpte e s)
           in (True, s\<lparr>v_pmm := page_incref (e AND PTE_ADDR_MASK) (v_pmm s)\<rparr>)))"

definition clone_page_directory_cow :: "u64 \<Rightarrow> vm \<Rightarrow> u64 \<times> vm" where
  "clone_page_directory_cow parent s =
     (if parent = 0 then (0, s)
      else
        (let (child, s) = alloc_page_directory s in
         if child = 0 then (0, s)
         else case each_page id (cow_page child) parent s of (True, s) \<Rightarrow> (child, s) | (False, s) \<Rightarrow> (0, s)))"

section \<open>Demand and copy-on-write faults\<close>

text \<open>The last part of \<open>vm_handle_fault\<close>, after the heap, mapping and stack windows.\<close>

definition copy_page :: "u64 \<Rightarrow> u64 \<Rightarrow> vm \<Rightarrow> vm" where
  "copy_page dst src s = s\<lparr>pbytes := (\<lambda>x. if dst \<le> x \<and> x < dst + 4096 then pbytes s (src + (x - dst)) else pbytes s x)\<rparr>"

definition demand_fault :: "u64 \<Rightarrow> u64 \<Rightarrow> vm \<Rightarrow> bool \<times> vm" where
  "demand_fault pte cr2 s =
     (let e = ptw s pte; (page, s) = alloc_zeroed s in
      if page = 0 then (False, s)
      else
        (let s = set_ptw pte ((page AND PTE_ADDR_MASK) OR PAGE_PRESENT OR PAGE_WRITABLE OR
                   (e AND PAGE_USER) OR (e AND PAGE_NX)) s
         in (True, (tlb (Invlpg cr2) s)\<lparr>vm_demand_faults := vm_demand_faults s + 1\<rparr>)))"

definition cow_fault :: "u64 \<Rightarrow> u64 \<Rightarrow> vm \<Rightarrow> bool \<times> vm" where
  "cow_fault pte cr2 s =
     (let e = ptw s pte; old = e AND PTE_ADDR_MASK;
          keep = PAGE_PRESENT OR PAGE_WRITABLE OR (e AND PAGE_USER) OR (e AND PAGE_NX) in
      if page_get_refcount old (v_pmm s) \<le> 1
      then (let s = tlb (Shootdown cr2) (set_ptw pte (old OR keep) s)
            in (True, s\<lparr>vm_cow_faults := vm_cow_faults s + 1\<rparr>))
      else
        (let (newp, m) = alloc_page (v_pmm s); s = s\<lparr>v_pmm := m\<rparr> in
         if newp = 0 then (False, s)
         else
           (let s = tlb (Shootdown cr2) (set_ptw pte ((newp AND PTE_ADDR_MASK) OR keep)
                      (vfree old (copy_page newp old s)))
            in (True, s\<lparr>vm_cow_faults := vm_cow_faults s + 1\<rparr>))))"

definition fault_pte :: "u64 \<Rightarrow> u64 \<Rightarrow> u64 \<Rightarrow> vm \<Rightarrow> bool \<times> vm" where
  "fault_pte pml4 cr2 err s =
     (case fst (pte_ptr pml4 cr2 False s) of
        None \<Rightarrow> (False, s)
      | Some pte \<Rightarrow>
          (let e = ptw s pte in
           if \<not> has err 1 \<and> has e PTE_DEMAND then demand_fault pte cr2 s
           else if has err 1 \<and> has err 2 \<and> has e PAGE_PRESENT \<and> has e PTE_COW then cow_fault pte cr2 s
           else (False, s)))"

definition vm_map_demand :: "u64 \<Rightarrow> vm \<Rightarrow> int \<times> vm" where
  "vm_map_demand virt s =
     (case pte_ptr (current_pml4 s) virt True s of
        (None, s) \<Rightarrow> (- 1, s)
      | (Some pte, s) \<Rightarrow> (0, tlb (Invlpg virt) (set_ptw pte PTE_DEMAND s)))"

definition vm_map_cow :: "u64 \<Rightarrow> u64 \<Rightarrow> vm \<Rightarrow> int \<times> vm" where
  "vm_map_cow virt phys s =
     (case pte_ptr (current_pml4 s) virt True s of
        (None, s) \<Rightarrow> (- 1, s)
      | (Some pte, s) \<Rightarrow>
          (let s = set_ptw pte ((phys AND PTE_ADDR_MASK) OR PAGE_PRESENT OR PTE_COW) s;
               s = s\<lparr>v_pmm := page_incref (phys AND PTE_ADDR_MASK) (v_pmm s)\<rparr>
           in (0, tlb (Invlpg virt) s)))"

definition vm_unmap :: "u64 \<Rightarrow> vm \<Rightarrow> vm" where
  "vm_unmap virt s =
     (case fst (pte_ptr (current_pml4 s) virt False s) of
        None \<Rightarrow> s
      | Some pte \<Rightarrow> tlb (Shootdown virt) (set_ptw pte 0 s))"

section \<open>Boot\<close>

definition identity_pages :: "u64 \<Rightarrow> nat" where
  "identity_pages ram =
     (let ram_mb = drop_bit 20 (if ram \<noteq> 0 then ram else push_bit 20 64);
          n = sint (ucast ((ram_mb + 1) div 2) :: 32 word);
          n = (if n < 32 then 32 else n);
          n = (if n > 512 then 512 else n)
      in nat n)"

definition init_paging :: "vm \<Rightarrow> vm outcome" where
  "init_paging s =
     (let (pml4, s) = alloc_zeroed s; s = s\<lparr>kernel_pml4 := pml4\<rparr> in
      if pml4 = 0 then Panic
      else let (pdpt, s) = alloc_zeroed s in
      if pdpt = 0 then Panic
      else let (pd, s) = alloc_zeroed s in
      if pd = 0 then Panic
      else
        (let s = fold (\<lambda>i s. set_ptw (ent pd i)
                   ((of_nat i * 0x200000) OR PAGE_PRESENT OR PAGE_WRITABLE OR PAGE_HUGE) s)
                   [0..<identity_pages (memory_total (v_pmm s))] s;
             s = set_ptw (ent pdpt 0) (pd OR PAGE_PRESENT OR PAGE_WRITABLE) s;
             s = set_ptw (ent pml4 0) (pdpt OR PAGE_PRESENT OR PAGE_WRITABLE) s;
             s = set_ptw (ent pml4 PML4_HIGHER) (ptw s (ent pml4 0)) s
         in Ret (s\<lparr>kernel_pml4_phys := pml4, current_pml4 := pml4\<rparr>)))"

section \<open>User memory\<close>

text \<open>
  \<open>user_v2p\<close> and the copies, over the page directory saved at system call entry. A copy stops
  at the first byte without a translation, with what it has copied so far in place.
\<close>

definition user_v2p :: "u64 \<Rightarrow> u64 \<Rightarrow> vm \<Rightarrow> u64" where
  "user_v2p user_cr3 va s =
     (if user_cr3 = 0 then 0
      else if va < USER_SPACE_MIN \<or> va \<ge> USER_SPACE_END then 0
      else let e = ptw s (ent (user_cr3 AND PTE_ADDR_MASK) (pt_idx 0 va)) in
      if e AND 5 \<noteq> 5 then 0
      else let e = ptw s (ent (e AND PTE_ADDR_MASK) (pt_idx 1 va)) in
      if e AND 5 \<noteq> 5 then 0
      else if has e 0x80 then (e AND 0x000FFFFFC0000000) + (va AND 0x3FFFFFFF)
      else let e = ptw s (ent (e AND PTE_ADDR_MASK) (pt_idx 2 va)) in
      if e AND 5 \<noteq> 5 then 0
      else if has e 0x80 then (e AND 0x000FFFFFFFE00000) + (va AND 0x1FFFFF)
      else let e = ptw s (ent (e AND PTE_ADDR_MASK) (pt_idx 3 va)) in
      if e AND 5 \<noteq> 5 then 0
      else (e AND PTE_ADDR_MASK) + (va AND 0xFFF))"

fun copy_from_user :: "u64 \<Rightarrow> u64 \<Rightarrow> nat \<Rightarrow> vm \<Rightarrow> int \<times> u8 list" where
  "copy_from_user cr3 usrc 0 s = (0, [])"
| "copy_from_user cr3 usrc (Suc n) s =
     (let p = user_v2p cr3 usrc s in
      if p = 0 then (- 1, [])
      else let (r, bs) = copy_from_user cr3 (usrc + 1) n s in (r, pbytes s p # bs))"

fun copy_to_user :: "u64 \<Rightarrow> u64 \<Rightarrow> u8 list \<Rightarrow> vm \<Rightarrow> int \<times> vm" where
  "copy_to_user cr3 udst [] s = (0, s)"
| "copy_to_user cr3 udst (b # bs) s =
     (let p = user_v2p cr3 udst s in
      if p = 0 then (- 1, s)
      else copy_to_user cr3 (udst + 1) bs (s\<lparr>pbytes := (pbytes s)(p := b)\<rparr>))"

text \<open>\<open>user_ptr_ok\<close> and \<open>user_str_ok\<close>: the checks at the system call boundary.\<close>

definition user_ptr_ok :: "u64 \<Rightarrow> u64 \<Rightarrow> bool" where
  "user_ptr_ok ptr len \<longleftrightarrow> \<not> ptr < USER_SPACE_MIN \<and> \<not> len > USER_SPACE_END \<and> \<not> ptr + len < ptr \<and>
     \<not> ptr + len > USER_SPACE_END"

definition user_str_ok :: "u64 \<Rightarrow> bool" where
  "user_str_ok ptr \<longleftrightarrow> ptr \<ge> USER_SPACE_MIN \<and> ptr < USER_SPACE_END"

end
