(* ===== verification/Page_Tables.thy ===== *)
theory Page_Tables
  imports Paging "HOL-Library.Sublist"
begin

text \<open>
  Well-formed address spaces and what the operations of the paging component do to them. An
  address space is well formed when the tables reachable from its PML4 through the user half form
  a tree of allocated frames, without huge entries and with the user bit at every level. The
  abstract view is the leaf entry of every user address, 0 where there is no table.
\<close>

section \<open>Bits of page-table words\<close>

lemma bit_u64_numerals:
  "bit (1 :: u64) n \<longleftrightarrow> n = 0" "bit (2 :: u64) n \<longleftrightarrow> n = 1" "bit (4 :: u64) n \<longleftrightarrow> n = 2"
  "bit (0x80 :: u64) n \<longleftrightarrow> n = 7" "bit (0x8000000000000000 :: u64) n \<longleftrightarrow> n = 63"
  "bit (0x200 :: u64) n \<longleftrightarrow> n = 9" "bit (0x400 :: u64) n \<longleftrightarrow> n = 10"
  using bit_mask_bit[of 0 n, where 'a = 64] bit_mask_bit[of 1 n, where 'a = 64]
    bit_mask_bit[of 2 n, where 'a = 64] bit_mask_bit[of 7 n, where 'a = 64]
    bit_mask_bit[of 63 n, where 'a = 64] bit_mask_bit[of 9 n, where 'a = 64]
    bit_mask_bit[of 10 n, where 'a = 64]
  by (simp_all add: mask_bit_def)

lemma has_iff [simp]:
  "has e PAGE_PRESENT \<longleftrightarrow> bit e 0" "has e PAGE_WRITABLE \<longleftrightarrow> bit e 1" "has e PAGE_USER \<longleftrightarrow> bit e 2"
  "has e PAGE_HUGE \<longleftrightarrow> bit e 7" "has e PAGE_NX \<longleftrightarrow> bit e 63" "has e PTE_DEMAND \<longleftrightarrow> bit e 9"
  "has e PTE_COW \<longleftrightarrow> bit e 10"
  using and_mask_bit_eq_0[of e 0] and_mask_bit_eq_0[of e 1] and_mask_bit_eq_0[of e 2]
    and_mask_bit_eq_0[of e 7] and_mask_bit_eq_0[of e 63] and_mask_bit_eq_0[of e 9]
    and_mask_bit_eq_0[of e 10]
  by (simp_all add: page_flags mask_bit_def)

lemma mask_words:
  "(0xFFF :: u64) = mask 12" "(0x000FFFFFFFFFF000 :: u64) = mask 52 AND NOT (mask 12)"
  "(0xFFF0000000000000 :: u64) = NOT (mask 52)" "(5 :: u64) = 1 OR 4"
  by (simp_all add: mask_eq_exp_minus_1)

lemma bit_page_words [simp]:
  "bit PAGE_PRESENT n \<longleftrightarrow> n = 0" "bit PAGE_WRITABLE n \<longleftrightarrow> n = 1" "bit PAGE_USER n \<longleftrightarrow> n = 2"
  "bit PAGE_HUGE n \<longleftrightarrow> n = 7" "bit PAGE_NX n \<longleftrightarrow> n = 63" "bit PTE_DEMAND n \<longleftrightarrow> n = 9"
  "bit PTE_COW n \<longleftrightarrow> n = 10" "bit PTE_ADDR_MASK n \<longleftrightarrow> 12 \<le> n \<and> n < 52"
  by (simp_all only: page_flags bit_u64_numerals) (auto simp: mask_words bit_simps)

lemma bit_0xFFF: "bit (0xFFF :: u64) n \<longleftrightarrow> n < 12"
  by (auto simp: mask_words bit_simps)

text \<open>Physical addresses of whole frames: bits 12 to 51.\<close>

definition frame_word :: "u64 \<Rightarrow> bool" where
  "frame_word w \<longleftrightarrow> (\<forall>n. bit w n \<longrightarrow> 12 \<le> n \<and> n < 52)"

lemma frame_word_addr:
  assumes "f < MAX_PAGES"
  shows "frame_word (frame_addr f)"
  unfolding frame_word_def
proof (intro allI impI)
  fix n assume b: "bit (frame_addr f) n"
  have u: "unat (frame_addr f) = f * 4096" by (rule frame_addr_idx(3)[OF assms])
  have e: "bit (frame_addr f) n \<longleftrightarrow> bit (unat (frame_addr f)) n"
    using bit_imp_le_length by (auto simp: bit_unsigned_iff)
  have "bit (push_bit 12 f) n" using b unfolding e u by (simp add: push_bit_eq_mult mult.commute)
  then have n: "12 \<le> n" "bit f (n - 12)" by (simp_all add: bit_push_bit_iff)
  have "n - 12 < 17"
  proof (rule ccontr)
    assume "\<not> n - 12 < 17"
    then have "(2 :: nat) ^ 17 \<le> 2 ^ (n - 12)" by (intro power_increasing) simp_all
    then have "f div 2 ^ (n - 12) = 0" using assms by (simp add: MAX_PAGES_def)
    with n(2) show False by (simp add: bit_iff_odd)
  qed
  with n(1) show "12 \<le> n \<and> n < 52" by simp
qed

lemma frame_word_masks:
  assumes "frame_word a" and "\<And>n. bit fl n \<Longrightarrow> n < 12 \<or> 52 \<le> n"
  shows "(a OR fl) AND PTE_ADDR_MASK = a"
    "(\<And>n. bit fl n \<Longrightarrow> n < 12) \<Longrightarrow> (a OR fl) AND NOT 0xFFF = a"
    "(\<And>n. bit fl n \<Longrightarrow> n < 12) \<Longrightarrow> pt_next (a OR fl) = Ret a"
proof -
  show 1: "(a OR fl) AND PTE_ADDR_MASK = a"
    using assms by (intro bit_word_eqI) (fastforce simp: bit_simps frame_word_def)
  show "(a OR fl) AND NOT 0xFFF = a" if "\<And>n. bit fl n \<Longrightarrow> n < 12"
    using assms(1) that
    by (intro bit_word_eqI) (unfold bit_and_iff bit_or_iff bit_not_iff bit_0xFFF frame_word_def, fastforce)
  assume fl: "\<And>n. bit fl n \<Longrightarrow> n < 12"
  have "(a OR fl) AND 0xFFF0000000000000 = 0"
    using assms(1) fl by (intro bit_word_eqI) (fastforce simp: bit_simps frame_word_def mask_words)
  moreover have "(a OR fl) AND 0x000FFFFFFFFFF000 = a" using 1 by (simp add: PTE_ADDR_MASK_def)
  ultimately show "pt_next (a OR fl) = Ret a" by (simp add: pt_next_def)
qed

lemma leaf_frame:
  assumes "frame_word a"
  shows "(a OR PAGE_PRESENT OR PAGE_WRITABLE OR PAGE_USER OR (fl AND PAGE_NX)) AND PTE_ADDR_MASK = a"
proof -
  have "bit (PAGE_PRESENT OR PAGE_WRITABLE OR PAGE_USER OR (fl AND PAGE_NX)) n \<Longrightarrow> n < 12 \<or> 52 \<le> n" for n
    by (auto simp: bit_or_iff bit_and_iff)
  from frame_word_masks(1)[OF assms this] show ?thesis by (simp add: or.assoc)
qed

lemma pt_idx_less: "pt_idx l va < 512"
proof -
  have "drop_bit (39 - 9 * l) va AND 0x1FF = take_bit 9 (drop_bit (39 - 9 * l) va)"
    by (simp add: take_bit_eq_mask mask_eq_exp_minus_1)
  then have "pt_idx l va = take_bit 9 (unat (drop_bit (39 - 9 * l) va))"
    by (simp add: pt_idx_def unsigned_take_bit_eq)
  then show ?thesis by (simp add: take_bit_eq_mod)
qed

section \<open>Address spaces as trees\<close>

definition step_at :: "vm \<Rightarrow> u64 \<Rightarrow> nat \<Rightarrow> u64 option" where
  "step_at s tbl i = (let e = ptw s (ent tbl i) in if bit e 7 \<or> \<not> bit e 0 then None else Some (e AND NOT 0xFFF))"

text \<open>The table a path of indices leads to.\<close>

fun tab_at :: "vm \<Rightarrow> u64 \<Rightarrow> nat list \<Rightarrow> u64 option" where
  "tab_at s tbl [] = Some tbl"
| "tab_at s tbl (i # is) = Option.bind (step_at s tbl i) (\<lambda>t. tab_at s t is)"

definition upath :: "nat list \<Rightarrow> bool" where
  "upath p \<longleftrightarrow> length p \<le> 3 \<and> set p \<subseteq> {..<512} \<and> (p \<noteq> [] \<longrightarrow> hd p < PML4_HIGHER)"

definition tframe :: "vm \<Rightarrow> u64 \<Rightarrow> bool" where
  "tframe s a \<longleftrightarrow> (\<exists>f. 0 < f \<and> f < MAX_PAGES \<and> f \<notin> free_set (v_pmm s) \<and> a = frame_addr f)"

definition wf_pt :: "vm \<Rightarrow> u64 \<Rightarrow> bool" where
  "wf_pt s r \<longleftrightarrow> pmm_inv (v_pmm s) \<and> 0 \<notin> free_set (v_pmm s) \<and>
     (\<forall>p a. upath p \<longrightarrow> tab_at s r p = Some a \<longrightarrow> tframe s a) \<and>
     (\<forall>p q a. upath p \<longrightarrow> upath q \<longrightarrow> tab_at s r p = Some a \<longrightarrow> tab_at s r q = Some a \<longrightarrow> p = q) \<and>
     (\<forall>p i a. upath (p @ [i]) \<longrightarrow> tab_at s r p = Some a \<longrightarrow>
        \<not> bit (ptw s (ent a i)) 7 \<and> (bit (ptw s (ent a i)) 0 \<longrightarrow> bit (ptw s (ent a i)) 2))"

text \<open>The path of an address, and its leaf entry.\<close>

definition vpath :: "u64 \<Rightarrow> nat list" where
  "vpath va = [pt_idx 0 va, pt_idx 1 va, pt_idx 2 va]"

definition pte_val :: "vm \<Rightarrow> u64 \<Rightarrow> u64 \<Rightarrow> u64" where
  "pte_val s r va = (case tab_at s r (vpath va) of None \<Rightarrow> 0 | Some t \<Rightarrow> ptw s (ent t (pt_idx 3 va)))"

definition user_va :: "u64 \<Rightarrow> bool" where
  "user_va va \<longleftrightarrow> pt_idx 0 va < PML4_HIGHER"

lemma upath_vpath: "user_va va \<Longrightarrow> upath (vpath va)"
  using pt_idx_less by (simp add: upath_def vpath_def user_va_def)

lemma upath_prefix: "upath (p @ q) \<Longrightarrow> upath p"
  by (auto simp: upath_def split: if_splits)

lemma tab_at_append: "tab_at s r (p @ q) = Option.bind (tab_at s r p) (\<lambda>t. tab_at s t q)"
  by (induction p arbitrary: r) (auto simp: Option.bind_assoc cong: bind_option_cong)

lemma tab_at_snoc: "tab_at s r (p @ [i]) = Option.bind (tab_at s r p) (\<lambda>t. step_at s t i)"
  by (simp add: tab_at_append)

lemma wf_ptD:
  assumes "wf_pt s r"
  shows "pmm_inv (v_pmm s)" "0 \<notin> free_set (v_pmm s)"
    "upath p \<Longrightarrow> tab_at s r p = Some a \<Longrightarrow> tframe s a"
    "upath p \<Longrightarrow> upath q \<Longrightarrow> tab_at s r p = Some a \<Longrightarrow> tab_at s r q = Some a \<Longrightarrow> p = q"
    "upath (p @ [i]) \<Longrightarrow> tab_at s r p = Some a \<Longrightarrow> \<not> bit (ptw s (ent a i)) 7"
    "upath (p @ [i]) \<Longrightarrow> tab_at s r p = Some a \<Longrightarrow> bit (ptw s (ent a i)) 0 \<Longrightarrow> bit (ptw s (ent a i)) 2"
  using assms unfolding wf_pt_def by blast+

lemma unat_ent:
  assumes "f < MAX_PAGES" and "i < 512"
  shows "unat (ent (frame_addr f) i) = f * 4096 + 8 * i"
proof -
  have u: "unat (frame_addr f) = f * 4096" by (rule frame_addr_idx(3)[OF assms(1)])
  have "unat (8 * of_nat i :: u64) = 8 * i" using assms(2)
    by (simp add: unat_word_ariths unsigned_of_nat take_bit_eq_mod)
  with u assms show ?thesis by (simp add: ent_def unat_word_ariths MAX_PAGES_def)
qed

lemma ent_eq:
  assumes "f < MAX_PAGES" and "g < MAX_PAGES" and "i < 512" and "j < 512"
    and "ent (frame_addr f) i = ent (frame_addr g) j"
  shows "f = g \<and> i = j"
proof -
  have e: "f * 4096 + 8 * i = g * 4096 + 8 * j"
    using unat_ent[OF assms(1,3)] unat_ent[OF assms(2,4)] assms(5) by simp
  have "(f * 4096 + 8 * i) div 4096 = f" "(g * 4096 + 8 * j) div 4096 = g" using assms(3,4) by simp_all
  with e show ?thesis by (metis add_left_cancel mult_left_cancel zero_neq_numeral)
qed

lemma in_frame:
  assumes "f < MAX_PAGES" and "g < MAX_PAGES" and "i < 512"
  shows "frame_addr f \<le> ent (frame_addr g) i \<and> ent (frame_addr g) i < frame_addr f + 4096 \<longleftrightarrow> f = g"
proof -
  have "unat (frame_addr f + 4096) = f * 4096 + 4096"
    using frame_addr_idx(3)[OF assms(1)] assms(1) by (simp add: unat_word_ariths MAX_PAGES_def)
  moreover have "f * 4096 \<le> g * 4096 + 8 * i \<and> g * 4096 + 8 * i < f * 4096 + 4096 \<longleftrightarrow> f = g"
    using assms(3) by (cases f g rule: linorder_cases) linarith+
  ultimately show ?thesis using frame_addr_idx(3)[OF assms(1)] unat_ent[OF assms(2,3)]
    by (simp only: word_le_nat_alt word_less_nat_alt)
qed

lemma tframe_ent_neq:
  assumes "tframe s a" and "tframe s b" and "i < 512" and "j < 512" and "a \<noteq> b \<or> i \<noteq> j"
  shows "ent a i \<noteq> ent b j"
  using assms ent_eq unfolding tframe_def by blast

section \<open>Writing a leaf\<close>

lemma ptw_set [simp]: "ptw (set_ptw a e s) = (ptw s)(a := e)" "v_pmm (set_ptw a e s) = v_pmm s"
  "pbytes (set_ptw a e s) = pbytes s" "tlb_log (set_ptw a e s) = tlb_log s"
  by (simp_all add: set_ptw_def)

lemma tlb_fields [simp]: "ptw (tlb op s) = ptw s" "v_pmm (tlb op s) = v_pmm s" "pbytes (tlb op s) = pbytes s"
  "tlb_log (tlb op s) = tlb_log s @ [op]"
  by (simp_all add: tlb_def)

lemma tab_at_ptw: "ptw s' = ptw s \<Longrightarrow> tab_at s' r p = tab_at s r p"
proof -
  assume e: "ptw s' = ptw s"
  have st: "step_at s' = step_at s" by (intro ext) (simp only: step_at_def e)
  show "tab_at s' r p = tab_at s r p"
  proof (induction p arbitrary: r)
    case (Cons i p)
    then have "tab_at s' t p = tab_at s t p" for t .
    then show ?case by (simp only: tab_at.simps st)
  qed simp
qed

lemma pte_val_ptw:
  assumes "ptw s' = ptw s"
  shows "pte_val s' r va = pte_val s r va"
  by (simp only: pte_val_def tab_at_ptw[OF assms] assms)

lemma tab_at_cong:
  assumes "upath p" and "\<And>q i a. upath (q @ [i]) \<Longrightarrow> tab_at s r q = Some a \<Longrightarrow> ptw s' (ent a i) = ptw s (ent a i)"
  shows "tab_at s' r p = tab_at s r p"
  using assms(1)
proof (induction p rule: rev_induct)
  case (snoc i p)
  have "tab_at s' r p = tab_at s r p" using snoc upath_prefix by blast
  then show ?case using assms(2)[OF snoc.prems] by (cases "tab_at s r p") (simp_all add: tab_at_snoc step_at_def)
qed simp

lemma wf_pt_cong:
  assumes wf: "wf_pt s r" and "v_pmm s' = v_pmm s"
    and eq: "\<And>q i a. upath (q @ [i]) \<Longrightarrow> tab_at s r q = Some a \<Longrightarrow> ptw s' (ent a i) = ptw s (ent a i)"
  shows "wf_pt s' r"
proof -
  have t: "tab_at s' r p = tab_at s r p" if "upath p" for p by (rule tab_at_cong[OF that eq])
  have e: "ptw s' (ent a i) = ptw s (ent a i)" if "upath (p @ [i])" "tab_at s' r p = Some a" for p i a
    using eq[OF that(1)] t[OF upath_prefix[OF that(1)]] that(2) by simp
  show ?thesis
    unfolding wf_pt_def assms(2)
  proof (intro conjI allI impI)
    show "pmm_inv (v_pmm s)" "0 \<notin> free_set (v_pmm s)" using wf_ptD(1,2)[OF wf] .
    show "tframe s' a" if "upath p" "tab_at s' r p = Some a" for p a
      using wf_ptD(3)[OF wf that(1)] that t assms(2) by (simp add: tframe_def)
    show "p = q" if "upath p" "upath q" "tab_at s' r p = Some a" "tab_at s' r q = Some a" for p q a
      using wf_ptD(4)[OF wf that(1,2)] that t by simp
    fix p i a assume p: "upath (p @ [i])" "tab_at s' r p = Some a"
    then have a: "tab_at s r p = Some a" using t[OF upath_prefix[OF p(1)]] by simp
    show "\<not> bit (ptw s' (ent a i)) 7" unfolding e[OF p] by (rule wf_ptD(5)[OF wf p(1) a])
    show "bit (ptw s' (ent a i)) 0 \<Longrightarrow> bit (ptw s' (ent a i)) 2"
      unfolding e[OF p] by (rule wf_ptD(6)[OF wf p(1) a])
  qed
qed

lemma leaf_write_path:
  assumes wf: "wf_pt s r" and p: "upath p" "length p = 3" "tab_at s r p = Some t" and j: "j < 512"
    and q: "upath (q @ [i])" "tab_at s r q = Some a"
  shows "ent a i \<noteq> ent t j"
proof (rule tframe_ent_neq)
  show "tframe s a" "tframe s t" using wf_ptD(3)[OF wf] upath_prefix[OF q(1)] p q(2) by blast+
  show "i < 512" using q(1) by (auto simp: upath_def)
  have "q \<noteq> p" using q(1) p(2) by (auto simp: upath_def)
  then have "a \<noteq> t" using wf_ptD(4)[OF wf upath_prefix[OF q(1)] p(1)] p(3) q(2) by blast
  then show "a \<noteq> t \<or> i \<noteq> j" by simp
qed (rule j)

lemma leaf_write:
  assumes wf: "wf_pt s r" and v: "user_va va" "tab_at s r (vpath va) = Some t"
    and s'_def: "s' = set_ptw (ent t (pt_idx 3 va)) e s"
  shows "wf_pt s' r" "upath p \<Longrightarrow> tab_at s' r p = tab_at s r p" "pte_val s' r va = e"
    "user_va vb \<Longrightarrow> vpath vb \<noteq> vpath va \<or> pt_idx 3 vb \<noteq> pt_idx 3 va \<Longrightarrow> pte_val s' r vb = pte_val s r vb"
proof -
  have l3: "length (vpath va) = 3" by (simp add: vpath_def)
  have eq: "ptw s' (ent a i) = ptw s (ent a i)" if "upath (q @ [i])" "tab_at s r q = Some a" for q i a
    using leaf_write_path[OF wf upath_vpath[OF v(1)] l3 v(2) pt_idx_less that] by (simp add: s'_def)
  show "wf_pt s' r" by (rule wf_pt_cong[OF wf _ eq]) (simp_all add: s'_def)
  have t: "tab_at s' r p = tab_at s r p" if "upath p" for p by (rule tab_at_cong[OF that eq])
  then show "upath p \<Longrightarrow> tab_at s' r p = tab_at s r p" .
  show "pte_val s' r va = e" using t[OF upath_vpath[OF v(1)]] v(2) by (simp add: pte_val_def s'_def)
  assume b: "user_va vb" "vpath vb \<noteq> vpath va \<or> pt_idx 3 vb \<noteq> pt_idx 3 va"
  show "pte_val s' r vb = pte_val s r vb"
  proof (cases "tab_at s r (vpath vb)")
    case (Some u)
    have "u \<noteq> t \<or> pt_idx 3 vb \<noteq> pt_idx 3 va"
      using b(2) wf_ptD(4)[OF wf upath_vpath[OF b(1)] upath_vpath[OF v(1)] Some] v(2) by blast
    then have "ent u (pt_idx 3 vb) \<noteq> ent t (pt_idx 3 va)"
      using wf_ptD(3)[OF wf upath_vpath[OF b(1)] Some] wf_ptD(3)[OF wf upath_vpath[OF v(1)] v(2)]
      by (intro tframe_ent_neq[OF _ _ pt_idx_less pt_idx_less])
    then show ?thesis using t[OF upath_vpath[OF b(1)]] Some by (simp add: pte_val_def s'_def)
  qed (use t[OF upath_vpath[OF b(1)]] in \<open>simp add: pte_val_def\<close>)
qed

section \<open>Adding a table\<close>

lemma alloc_zeroed_cases:
  assumes "pmm_inv (v_pmm s)" and "0 \<notin> free_set (v_pmm s)"
  obtains (none) "free_set (v_pmm s) = {}" "alloc_zeroed s = (0, s)"
  | (some) f where "f \<in> free_set (v_pmm s)" "0 < f" "f < MAX_PAGES" "frame_addr f \<noteq> 0"
      "alloc_zeroed s = (frame_addr f, zero_page (frame_addr f) (s\<lparr>v_pmm := alloc_at f (v_pmm s)\<rparr>))"
proof (cases "free_set (v_pmm s) = {}")
  case True
  then have "alloc_page (v_pmm s) = (0, v_pmm s)" using alloc_page_spec[OF pmm_invD(1)[OF assms(1)]] by simp
  then show ?thesis using True none by (simp add: alloc_zeroed_def)
next
  case False
  define f where "f = Min (free_set (v_pmm s))"
  note A = alloc_page_props[OF assms(1) False, folded f_def]
  have f: "0 < f" "f < MAX_PAGES" using A(3,5) assms(2) pmm_invD(1)[OF assms(1)]
    by (cases f; auto)+
  then have "frame_addr f \<noteq> 0" using frame_addr_idx(2) by simp
  moreover have "alloc_page (v_pmm s) = (frame_addr f, alloc_at f (v_pmm s))" using A(1,2) by (simp add: prod_eq_iff)
  ultimately show ?thesis using some[of f] A(3) f by (simp add: alloc_zeroed_def)
qed

lemma zero_page_fields [simp]:
  "v_pmm (zero_page a s) = v_pmm s" "tlb_log (zero_page a s) = tlb_log s"
  by (simp_all add: zero_page_def)

definition tentry :: "nat \<Rightarrow> u64" where
  "tentry f = frame_addr f OR PAGE_PRESENT OR PAGE_WRITABLE OR PAGE_USER"

lemma tentry_bits:
  assumes "f < MAX_PAGES"
  shows "bit (tentry f) 0" "bit (tentry f) 2" "\<not> bit (tentry f) 7" "tentry f AND NOT 0xFFF = frame_addr f"
    "tentry f AND PTE_ADDR_MASK = frame_addr f" "pt_next (tentry f) = Ret (frame_addr f)"
proof -
  have fw: "frame_word (frame_addr f)" by (rule frame_word_addr[OF assms])
  let ?fl = "PAGE_PRESENT OR PAGE_WRITABLE OR PAGE_USER"
  have e: "tentry f = frame_addr f OR ?fl" by (simp add: tentry_def or.assoc)
  have fl: "bit ?fl n \<Longrightarrow> n < 12" for n by (auto simp: bit_or_iff)
  show "bit (tentry f) 0" "bit (tentry f) 2" by (simp_all add: tentry_def bit_or_iff)
  show "\<not> bit (tentry f) 7" using fw by (auto simp: tentry_def bit_or_iff frame_word_def)
  show "tentry f AND NOT 0xFFF = frame_addr f" "tentry f AND PTE_ADDR_MASK = frame_addr f"
    "pt_next (tentry f) = Ret (frame_addr f)"
    unfolding e using fl by (intro frame_word_masks[OF fw]; blast)+
qed

text \<open>The state after a table frame \<open>f\<close> was hung below entry \<open>i\<close> of table \<open>t\<close>.\<close>

definition new_table :: "nat \<Rightarrow> u64 \<Rightarrow> nat \<Rightarrow> vm \<Rightarrow> vm" where
  "new_table f t i s = set_ptw (ent t i) (tentry f)
     (zero_page (frame_addr f) (s\<lparr>v_pmm := alloc_at f (v_pmm s)\<rparr>))"

lemma new_table_ptw:
  assumes f: "f \<in> free_set (v_pmm s)" "f < MAX_PAGES" and t: "tframe s t" and i: "i < 512"
  shows "tframe s a \<Longrightarrow> j < 512 \<Longrightarrow> ptw (new_table f t i s) (ent a j) = (if a = t \<and> j = i then tentry f else ptw s (ent a j))"
    and "j < 512 \<Longrightarrow> ptw (new_table f t i s) (ent (frame_addr f) j) = 0"
proof -
  have fr: "a \<noteq> frame_addr f" if "tframe s a" for a
    using that f frame_addr_inj unfolding tframe_def by blast
  assume j: "j < 512"
  { assume a: "tframe s a"
    then obtain g where g: "g < MAX_PAGES" "a = frame_addr g" "g \<noteq> f" using f(1) unfolding tframe_def by blast
    have "\<not> (frame_addr f \<le> ent a j \<and> ent a j < frame_addr f + 4096)"
      using in_frame[OF f(2) g(1) j] g by simp
    then show "ptw (new_table f t i s) (ent a j) = (if a = t \<and> j = i then tentry f else ptw s (ent a j))"
      using tframe_ent_neq[OF a t j i] by (auto simp: new_table_def zero_page_def) }
  have "ent (frame_addr f) j \<noteq> ent t i"
    using t f ent_eq[OF f(2) _ j i] unfolding tframe_def by blast
  then show "ptw (new_table f t i s) (ent (frame_addr f) j) = 0"
    using in_frame[OF f(2) f(2) j] by (simp add: new_table_def zero_page_def)
qed

lemma new_table_tab:
  assumes wf: "wf_pt s r" and p: "upath (p @ [i])" "tab_at s r p = Some t" "\<not> bit (ptw s (ent t i)) 0"
    and f: "f \<in> free_set (v_pmm s)" "0 < f" "f < MAX_PAGES" and q: "upath q"
  shows "tab_at (new_table f t i s) r q =
    (if q = p @ [i] then Some (frame_addr f) else if prefix (p @ [i]) q then None else tab_at s r q)"
  using q
proof (induction q rule: rev_induct)
  case (snoc j q)
  let ?s = "new_table f t i s"
  have i: "i < 512" "j < 512" using p(1) snoc.prems by (auto simp: upath_def)
  have uq: "upath q" and up: "upath p" using upath_prefix[OF snoc.prems] upath_prefix[OF p(1)] .
  have tt: "tframe s t" by (rule wf_ptD(3)[OF wf up p(2)])
  note P = new_table_ptw[OF f(1,3) tt i(1)]
  have pre: "prefix (p @ [i]) (q @ [j]) \<longleftrightarrow> q @ [j] = p @ [i] \<or> prefix (p @ [i]) q" by (auto simp: prefix_snoc)
  show ?case
  proof (cases "prefix (p @ [i]) q")
    case True
    then have "q @ [j] \<noteq> p @ [i]" by (auto simp: prefix_def)
    moreover have "tab_at ?s r (q @ [j]) = None"
      using snoc.IH[OF uq] True P(2)[OF i(2)] by (simp add: tab_at_snoc step_at_def split: if_splits)
    ultimately show ?thesis using True pre by simp
  next
    case False
    then have IH: "tab_at ?s r q = tab_at s r q" using snoc.IH[OF uq] by auto
    show ?thesis
    proof (cases "q @ [j] = p @ [i]")
      case True
      then have "tab_at ?s r (q @ [j]) = Some (frame_addr f)"
        using IH p(2) P(1)[OF tt i(1)] tentry_bits[OF f(3)] by (simp add: tab_at_snoc step_at_def)
      then show ?thesis using True by simp
    next
      case ne: False
      have "tab_at ?s r (q @ [j]) = tab_at s r (q @ [j])"
      proof (cases "tab_at s r q")
        case (Some a)
        have "\<not> (a = t \<and> j = i)" using wf_ptD(4)[OF wf uq up Some] p(2) ne by auto
        then show ?thesis using P(1)[OF wf_ptD(3)[OF wf uq Some] i(2)] IH Some
          by (auto simp: tab_at_snoc step_at_def)
      qed (simp add: tab_at_snoc IH)
      then show ?thesis using ne False pre by auto
    qed
  qed
qed simp

lemma no_tab_below:
  assumes "tab_at s r p = Some t" and "\<not> bit (ptw s (ent t i)) 0" and "prefix (p @ [i]) q"
  shows "tab_at s r q = None"
  using assms by (auto simp: prefix_def tab_at_append step_at_def)

lemma new_table_wf:
  assumes wf: "wf_pt s r" and p: "upath (p @ [i])" "tab_at s r p = Some t" "\<not> bit (ptw s (ent t i)) 0"
    and f: "f \<in> free_set (v_pmm s)" "0 < f" "f < MAX_PAGES"
  shows "wf_pt (new_table f t i s) r"
proof -
  let ?s = "new_table f t i s"
  note T = new_table_tab[OF wf p f]
  have i: "i < 512" using p(1) by (auto simp: upath_def)
  have up: "upath p" by (rule upath_prefix[OF p(1)])
  have tt: "tframe s t" by (rule wf_ptD(3)[OF wf up p(2)])
  note P = new_table_ptw[OF f(1,3) tt i]
  have pm: "v_pmm ?s = alloc_at f (v_pmm s)" by (simp add: new_table_def)
  have fresh: "a \<noteq> frame_addr f" if "tframe s a" for a
    using that f frame_addr_inj unfolding tframe_def by blast
  have cases: "(q = p @ [i] \<and> a = frame_addr f) \<or> (\<not> prefix (p @ [i]) q \<and> tab_at s r q = Some a \<and> tframe s a)"
    if "upath q" "tab_at ?s r q = Some a" for q a
    using T[OF that(1)] that wf_ptD(3)[OF wf that(1)] by (auto split: if_splits)
  show ?thesis
    unfolding wf_pt_def
  proof (intro conjI allI impI)
    have "pmm_inv (alloc_at f (v_pmm s))"
      using wf_ptD(1)[OF wf] f(1) by (rule pmm_inv_alloc_at)
    then show "pmm_inv (v_pmm ?s)" by (simp add: pm)
    show "0 \<notin> free_set (v_pmm ?s)" using wf_ptD(2)[OF wf] by (simp add: pm)
    show "tframe ?s a" if "upath q" "tab_at ?s r q = Some a" for q a
      using cases[OF that] f(2,3) unfolding tframe_def pm by auto
    show "q = q'" if "upath q" "upath q'" "tab_at ?s r q = Some a" "tab_at ?s r q' = Some a" for q q' a
      using cases[OF that(1,3)] cases[OF that(2,4)] wf_ptD(4)[OF wf that(1,2)] fresh by blast
    fix q j a assume q: "upath (q @ [j])" "tab_at ?s r q = Some a"
    have j: "j < 512" using q(1) by (auto simp: upath_def)
    have "ptw ?s (ent a j) = 0 \<or> ptw ?s (ent a j) = tentry f \<or> (tab_at s r q = Some a \<and> ptw ?s (ent a j) = ptw s (ent a j))"
      using cases[OF upath_prefix[OF q(1)] q(2)] P(1)[of a j] P(2)[OF j] j by auto
    then show "\<not> bit (ptw ?s (ent a j)) 7" "bit (ptw ?s (ent a j)) 0 \<Longrightarrow> bit (ptw ?s (ent a j)) 2"
      using tentry_bits[OF f(3)] wf_ptD(5,6)[OF wf q(1)] by auto
  qed
qed

lemma new_table_pte:
  assumes wf: "wf_pt s r" and p: "upath (p @ [i])" "tab_at s r p = Some t" "\<not> bit (ptw s (ent t i)) 0"
    and f: "f \<in> free_set (v_pmm s)" "0 < f" "f < MAX_PAGES" and v: "user_va va"
  shows "pte_val (new_table f t i s) r va = pte_val s r va"
proof -
  let ?s = "new_table f t i s" and ?q = "vpath va"
  have uq: "upath ?q" by (rule upath_vpath[OF v])
  note T = new_table_tab[OF wf p f uq]
  have i: "i < 512" using p(1) by (auto simp: upath_def)
  have up: "upath p" by (rule upath_prefix[OF p(1)])
  note P = new_table_ptw[OF f(1,3) wf_ptD(3)[OF wf up p(2)] i]
  show ?thesis
  proof (cases "prefix (p @ [i]) ?q")
    case True
    then show ?thesis using T no_tab_below[OF p(2,3) True] P(2)[OF pt_idx_less]
      by (simp add: pte_val_def split: if_splits)
  next
    case False
    then have T': "tab_at ?s r ?q = tab_at s r ?q" using T by auto
    show ?thesis
    proof (cases "tab_at s r ?q")
      case (Some a)
      have "?q \<noteq> p" using p(1) by (auto simp: upath_def vpath_def)
      then have "a \<noteq> t" using wf_ptD(4)[OF wf uq up Some] p(2) by blast
      then show ?thesis using T' Some P(1)[OF wf_ptD(3)[OF wf uq Some] pt_idx_less] by (simp add: pte_val_def)
    qed (simp add: pte_val_def T')
  qed
qed

section \<open>The walks\<close>

lemma walk_no_create: "pte_walk False is tbl s = (tab_at s tbl is, s)"
  by (induction "is" arbitrary: tbl) (simp_all add: step_at_def Let_def)

lemma pte_ptr_no_create:
  "pte_ptr r va False s = (map_option (\<lambda>t. ent t (pt_idx 3 va)) (tab_at s r (vpath va)), s)"
  by (simp add: pte_ptr_def walk_no_create vpath_def del: pte_walk.simps tab_at.simps split: option.split)

text \<open>What a creating walk may change: tables are added, no leaf entry changes.\<close>

definition grows :: "u64 \<Rightarrow> vm \<Rightarrow> vm \<Rightarrow> bool" where
  "grows r s s' \<longleftrightarrow> wf_pt s' r \<and> (\<forall>va. user_va va \<longrightarrow> pte_val s' r va = pte_val s r va) \<and>
     free_set (v_pmm s') \<subseteq> free_set (v_pmm s) \<and> tlb_log s' = tlb_log s \<and>
     (\<forall>f. f \<notin> free_set (v_pmm s) \<longrightarrow> page_refcount (v_pmm s') f = page_refcount (v_pmm s) f) \<and>
     total_pages (v_pmm s') = total_pages (v_pmm s) \<and> page_pinned (v_pmm s') = page_pinned (v_pmm s) \<and>
     (\<forall>p a. upath p \<longrightarrow> tab_at s' r p = Some a \<longrightarrow> tab_at s r p = Some a \<or> (\<exists>f \<in> free_set (v_pmm s). a = frame_addr f)) \<and>
     (\<forall>x. (\<forall>f \<in> free_set (v_pmm s). \<not> (frame_addr f \<le> x \<and> x < frame_addr f + 4096)) \<longrightarrow>
        pbytes s' x = pbytes s x)"

lemma grows_refl: "wf_pt s r \<Longrightarrow> grows r s s"
  by (simp add: grows_def)

lemma grows_trans: "grows r s t \<Longrightarrow> grows r t u \<Longrightarrow> grows r s u"
  unfolding grows_def by (auto simp: subset_iff) blast

lemma grows_new_table:
  assumes "wf_pt s r" and "upath (p @ [i])" and "tab_at s r p = Some t" and "\<not> bit (ptw s (ent t i)) 0"
    and f: "f \<in> free_set (v_pmm s)" "0 < f" "f < MAX_PAGES"
  shows "grows r s (new_table f t i s)"
proof -
  let ?s = "new_table f t i s"
  have "tab_at s r q = Some a \<or> (\<exists>f \<in> free_set (v_pmm s). a = frame_addr f)"
    if "upath q" "tab_at ?s r q = Some a" for q a
    using new_table_tab[OF assms that(1)] that(2) f(1) by (auto split: if_splits)
  then show ?thesis using new_table_wf[OF assms] new_table_pte[OF assms] f(1)
    unfolding grows_def by (auto simp: new_table_def zero_page_def)
qed

lemma pte_walk_creates:
  assumes "wf_pt s r" and "upath (p @ is)" and "tab_at s r p = Some tbl"
    and "pte_walk True is tbl s = (res, s')"
  shows "grows r s s' \<and> (case res of Some t \<Rightarrow> tab_at s' r (p @ is) = Some t | None \<Rightarrow> free_set (v_pmm s') = {}) \<and>
    card (free_set (v_pmm s)) \<le> card (free_set (v_pmm s')) + length is"
  using assms
proof (induction "is" arbitrary: p tbl s)
  case (Cons i js)
  let ?e = "ptw s (ent tbl i)"
  have u: "upath (p @ [i])" "upath ((p @ [i]) @ js)" using Cons.prems(2) upath_prefix[of "p @ [i]" js] by simp_all
  have h: "\<not> bit ?e 7" by (rule wf_ptD(5)[OF Cons.prems(1) u(1) Cons.prems(3)])
  show ?case
  proof (cases "bit ?e 0")
    case True
    have "tab_at s r (p @ [i]) = Some (?e AND NOT 0xFFF)"
      using Cons.prems(3) True h by (simp add: tab_at_snoc step_at_def)
    from Cons.IH[OF Cons.prems(1) u(2) this] Cons.prems(4) True h show ?thesis
      by (auto split: option.splits)
  next
    case False
    show ?thesis
    proof (rule alloc_zeroed_cases[OF wf_ptD(1,2)[OF Cons.prems(1)]])
      assume "free_set (v_pmm s) = {}" "alloc_zeroed s = (0, s)"
      then show ?thesis using Cons.prems(1,4) h False by (auto simp: grows_refl)
    next
      fix f assume f: "f \<in> free_set (v_pmm s)" "0 < f" "f < MAX_PAGES" "frame_addr f \<noteq> 0"
        and az: "alloc_zeroed s = (frame_addr f, zero_page (frame_addr f) (s\<lparr>v_pmm := alloc_at f (v_pmm s)\<rparr>))"
      let ?t = "new_table f tbl i s"
      note pre = Cons.prems(1) u(1) Cons.prems(3) False f(1-3)
      have w: "pte_walk True js (frame_addr f) ?t = (res, s')"
        using Cons.prems(4) h False f(4) az by (simp add: new_table_def tentry_def or.assoc)
      have "tab_at ?t r (p @ [i]) = Some (frame_addr f)" using new_table_tab[OF pre u(1)] by simp
      have "card (free_set (v_pmm s)) \<le> card (free_set (v_pmm ?t)) + 1"
        using f(1) by (simp add: new_table_def card_Diff_singleton)
      with Cons.IH[OF new_table_wf[OF pre] u(2) \<open>tab_at ?t r (p @ [i]) = Some (frame_addr f)\<close> w]
        grows_trans[OF grows_new_table[OF pre]]
      show ?thesis by (auto split: option.splits)
    qed
  qed
qed (auto simp: grows_refl split: option.split)

text \<open>With the user flag, the levels of \<open>map_pml4\<close> do what the creating walk does.\<close>

lemma present_entry:
  assumes wf: "wf_pt s r" and p: "upath (p @ [i])" "tab_at s r p = Some t" and b: "bit (ptw s (ent t i)) 0"
  shows "pt_next (ptw s (ent t i)) = Ret (ptw s (ent t i) AND NOT 0xFFF)"
proof -
  let ?e = "ptw s (ent t i)"
  have "tab_at s r (p @ [i]) = Some (?e AND NOT 0xFFF)"
    using p(2) b wf_ptD(5)[OF wf p] by (simp add: tab_at_snoc step_at_def)
  from wf_ptD(3)[OF wf p(1) this] obtain f where "f < MAX_PAGES" "?e AND NOT 0xFFF = frame_addr f"
    unfolding tframe_def by blast
  with frame_word_addr have fw: "frame_word (?e AND NOT 0xFFF)" by simp
  have "?e = (?e AND NOT 0xFFF) OR (?e AND 0xFFF)" 
    by (rule bit_word_eqI) (unfold bit_and_iff bit_or_iff bit_not_iff, auto)
  moreover have "bit (?e AND 0xFFF) n \<Longrightarrow> n < 12" for n unfolding bit_and_iff bit_0xFFF by blast
  ultimately show ?thesis using frame_word_masks(3)[OF fw, of "?e AND 0xFFF"] by metis
qed

lemma map_levels_user:
  assumes "wf_pt s r" and "upath (p @ is)" and "tab_at s r p = Some tbl" and fl: "bit flags 2"
  shows "map_levels flags is tbl s = Ret (pte_walk True is tbl s)"
  using assms(1-3)
proof (induction "is" arbitrary: p tbl s)
  case (Cons i js)
  let ?e = "ptw s (ent tbl i)"
  have u: "upath (p @ [i])" "upath ((p @ [i]) @ js)" using Cons.prems(2) upath_prefix[of "p @ [i]" js] by simp_all
  have h: "\<not> bit ?e 7" by (rule wf_ptD(5)[OF Cons.prems(1) u(1) Cons.prems(3)])
  show ?case
  proof (cases "bit ?e 0")
    case True
    have "tab_at s r (p @ [i]) = Some (?e AND NOT 0xFFF)"
      using Cons.prems(3) True h by (simp add: tab_at_snoc step_at_def)
    from Cons.IH[OF Cons.prems(1) u(2) this] present_entry[OF Cons.prems(1) u(1) Cons.prems(3) True] True h
    show ?thesis by (simp add: map_level_def)
  next
    case False
    show ?thesis
    proof (rule alloc_zeroed_cases[OF wf_ptD(1,2)[OF Cons.prems(1)]])
      assume "free_set (v_pmm s) = {}" "alloc_zeroed s = (0, s)"
      then show ?thesis using h False by (simp add: map_level_def)
    next
      fix f assume f: "f \<in> free_set (v_pmm s)" "0 < f" "f < MAX_PAGES" "frame_addr f \<noteq> 0"
        and az: "alloc_zeroed s = (frame_addr f, zero_page (frame_addr f) (s\<lparr>v_pmm := alloc_at f (v_pmm s)\<rparr>))"
      note pre = Cons.prems(1) u(1) Cons.prems(3) False f(1-3)
      have "tab_at (new_table f tbl i s) r (p @ [i]) = Some (frame_addr f)"
        using new_table_tab[OF pre u(1)] by simp
      from Cons.IH[OF new_table_wf[OF pre] u(2) this] h False f(4) az fl show ?thesis
        by (simp add: map_level_def new_table_def tentry_def or.assoc)
    qed
  qed
qed simp

lemma pte_ptr_creates:
  assumes wf: "wf_pt s r" and v: "user_va va" and w: "pte_ptr r va True s = (res, s')"
  shows "grows r s s'"
    "res = Some a \<Longrightarrow> \<exists>t. tab_at s' r (vpath va) = Some t \<and> a = ent t (pt_idx 3 va)"
    "res = None \<Longrightarrow> free_set (v_pmm s') = {}"
proof -
  obtain q where q: "pte_walk True (vpath va) r s = (q, s')"
    using w by (auto simp: pte_ptr_def vpath_def split: prod.splits option.splits)
  have u: "upath ([] @ vpath va)" using upath_vpath[OF v] by simp
  note W = pte_walk_creates[OF wf u _ q]
  show "grows r s s'" using W by simp
  have "res = map_option (\<lambda>t. ent t (pt_idx 3 va)) q"
    using w q by (auto simp: pte_ptr_def vpath_def split: option.splits)
  then show "res = Some a \<Longrightarrow> \<exists>t. tab_at s' r (vpath va) = Some t \<and> a = ent t (pt_idx 3 va)"
    "res = None \<Longrightarrow> free_set (v_pmm s') = {}" using W by auto
qed

definition same_page :: "u64 \<Rightarrow> u64 \<Rightarrow> bool" where
  "same_page va vb \<longleftrightarrow> vpath va = vpath vb \<and> pt_idx 3 va = pt_idx 3 vb"

lemma map_pml4_user:
  assumes wf: "wf_pt s r" and v: "user_va va" and fl: "bit flags 2"
  shows "\<exists>s' t. map_pml4 r phys va flags s = Ret s' \<and> wf_pt s' r \<and>
    grows r s t \<and> v_pmm s' = v_pmm t \<and> pbytes s' = pbytes t \<and> card (free_set (v_pmm s)) \<le> card (free_set (v_pmm t)) + 3 \<and>
    (\<forall>p. upath p \<longrightarrow> tab_at s' r p = tab_at t r p) \<and>
    (\<forall>vb. user_va vb \<longrightarrow> \<not> same_page vb va \<longrightarrow> pte_val s' r vb = pte_val s r vb) \<and>
    (card (free_set (v_pmm s)) \<le> 3 \<and> free_set (v_pmm s') = {} \<and> pte_val s' r va = pte_val s r va \<and>
       tlb_log s' = tlb_log s \<or>
     pte_val s' r va = phys OR PAGE_PRESENT OR PAGE_WRITABLE OR PAGE_USER OR (flags AND PAGE_NX) \<and>
       tlb_log s' = tlb_log s @ [if bit (pte_val s r va) 0 then Shootdown va else Invlpg va])"
proof -
  obtain q t where q: "pte_walk True (vpath va) r s = (q, t)" by fastforce
  have u: "upath ([] @ vpath va)" using upath_vpath[OF v] by simp
  have W: "grows r s t" "case q of Some x \<Rightarrow> tab_at t r (vpath va) = Some x | None \<Rightarrow> free_set (v_pmm t) = {}"
    "card (free_set (v_pmm s)) \<le> card (free_set (v_pmm t)) + 3"
    using pte_walk_creates[OF wf u _ q] unfolding append_Nil by (simp_all add: vpath_def)
  have ml: "map_levels flags [pt_idx 0 va, pt_idx 1 va, pt_idx 2 va] r s = Ret (q, t)"
    using map_levels_user[OF wf u _ fl] q by (simp add: vpath_def)
  show ?thesis
  proof (cases q)
    case None
    then show ?thesis using ml W v by (intro exI[of _ t]) (auto simp: map_pml4_def grows_def simp del: map_levels.simps tab_at.simps)
  next
    case (Some x)
    let ?a = "ent x (pt_idx 3 va)"
    let ?e = "phys OR PAGE_PRESENT OR PAGE_WRITABLE OR PAGE_USER OR (flags AND PAGE_NX)"
    define op where "op = (if bit (pte_val s r va) 0 then Shootdown va else Invlpg va)"
    have x: "tab_at t r (vpath va) = Some x" using W(2) Some by simp
    have wt: "wf_pt t r" using W(1) by (simp add: grows_def)
    note L = leaf_write[OF wt v x refl[of "set_ptw ?a ?e t"]]
    have "ptw t ?a = pte_val t r va" using x by (simp add: pte_val_def)
    then have old: "ptw t ?a = pte_val s r va" using W(1) v by (simp add: grows_def)
    have m: "map_pml4 r phys va flags s = Ret (tlb op (set_ptw ?a ?e t))"
      using ml Some fl old by (simp add: map_pml4_def or.assoc op_def Let_def del: map_levels.simps)
    have pv: "pte_val (tlb op s') r vb = pte_val s' r vb" for s' vb by (rule pte_val_ptw) simp
    have wfl: "wf_pt (tlb op (set_ptw ?a ?e t)) r" by (rule wf_pt_cong[OF L(1)]) simp_all
    have "tlb_log (tlb op (set_ptw ?a ?e t)) = tlb_log s @ [op]" using W(1) by (simp add: grows_def)
    moreover have "tab_at (tlb op (set_ptw ?a ?e t)) r p = tab_at t r p" if "upath p" for p
      using L(2)[OF that] tab_at_ptw[of "tlb op (set_ptw ?a ?e t)" "set_ptw ?a ?e t" r p] by simp
    moreover have "pte_val t r vb = pte_val s r vb" if "user_va vb" for vb using W(1) that by (simp add: grows_def)
    ultimately show ?thesis using m wfl L(3,4) pv W(1,3)
      by (intro exI[of _ "tlb op (set_ptw ?a ?e t)"] exI[of _ t]) (simp add: same_page_def op_def)
  qed
qed

section \<open>User memory\<close>

lemma bit_5: "bit (5 :: u64) n \<longleftrightarrow> n = 0 \<or> n = 2"
proof -
  have "bit (5 :: u64) n \<longleftrightarrow> bit (1 OR 4 :: u64) n" by simp
  then show ?thesis unfolding bit_or_iff bit_u64_numerals .
qed

lemma and_5: "e AND 5 = (5 :: u64) \<longleftrightarrow> bit e 0 \<and> bit e 2"
proof
  assume "e AND 5 = 5"
  then have "bit (e AND 5) n = bit (5 :: u64) n" for n by simp
  from this[of 0] this[of 2] show "bit e 0 \<and> bit e 2" unfolding bit_and_iff bit_5 by simp
next
  assume "bit e 0 \<and> bit e 2"
  then show "e AND 5 = 5" by (intro bit_word_eqI) (unfold bit_and_iff bit_5, auto)
qed

lemma user_level:
  assumes wf: "wf_pt s r" and p: "upath (p @ [i])" "tab_at s r p = Some t"
  shows "ptw s (ent t i) AND 5 \<noteq> 5 \<longleftrightarrow> step_at s t i = None"
    "\<not> has (ptw s (ent t i)) 0x80"
    "step_at s t i = Some u \<Longrightarrow> ptw s (ent t i) AND PTE_ADDR_MASK = u"
proof -
  note h = wf_ptD(5)[OF wf p] and us = wf_ptD(6)[OF wf p]
  show "ptw s (ent t i) AND 5 \<noteq> 5 \<longleftrightarrow> step_at s t i = None"
    using h us by (auto simp: step_at_def and_5)
  show "\<not> has (ptw s (ent t i)) 0x80" using h has_iff(4) by (simp add: PAGE_HUGE_def)
  assume s: "step_at s t i = Some u"
  then have "bit (ptw s (ent t i)) 0" and u: "u = ptw s (ent t i) AND NOT 0xFFF"
    by (auto simp: step_at_def Let_def split: if_splits)
  from present_entry[OF wf p this(1)] show "ptw s (ent t i) AND PTE_ADDR_MASK = u"
    unfolding u by (simp add: pt_next_def PTE_ADDR_MASK_def split: if_splits)
qed

lemma user_range_va:
  assumes "va < USER_SPACE_END"
  shows "user_va va"
proof -
  have "unat va < 2 ^ 47" using assms by (simp add: USER_SPACE_END_def word_less_nat_alt)
  then have "unat va div 2 ^ 39 < 256" by (simp add: less_mult_imp_div_less)
  then have d: "unat (drop_bit 39 va) < 256" by (simp add: drop_bit_eq_div unat_div)
  have "unat (drop_bit 39 va AND 0x1FF) \<le> unat (drop_bit 39 va)"
    using word_and_le2 by (simp add: word_le_nat_alt[symmetric])
  with d show ?thesis by (simp add: user_va_def pt_idx_def PML4_HIGHER_def)
qed

lemma user_v2p_pte:
  assumes wf: "wf_pt s r" and va: "USER_SPACE_MIN \<le> va" "va < USER_SPACE_END"
  shows "user_v2p r va s = (let e = pte_val s r va in
    if \<not> (bit e 0 \<and> bit e 2) then 0 else (e AND PTE_ADDR_MASK) + (va AND 0xFFF))"
proof -
  have uv: "user_va va" by (rule user_range_va[OF va(2)])
  have u: "upath [pt_idx 0 va]" "upath [pt_idx 0 va, pt_idx 1 va]" "upath [pt_idx 0 va, pt_idx 1 va, pt_idx 2 va]"
    using uv pt_idx_less by (simp_all add: upath_def user_va_def)
  have "upath []" by (simp add: upath_def)
  then obtain f where f: "0 < f" "f < MAX_PAGES" "r = frame_addr f"
    using wf_ptD(3)[OF wf, of "[]" r] by (auto simp: tframe_def)
  have r: "r AND PTE_ADDR_MASK = r" using frame_word_masks(1)[OF frame_word_addr[OF f(2)], of 0] f(3) by simp
  have r0: "r \<noteq> 0" using f frame_addr_idx(2) by simp
  note L0 = user_level[OF wf, of "[]" "pt_idx 0 va" r, simplified, OF u(1)]
  have L1: "ptw s (ent t (pt_idx 1 va)) AND 5 \<noteq> 5 \<longleftrightarrow> step_at s t (pt_idx 1 va) = None"
    "\<not> has (ptw s (ent t (pt_idx 1 va))) 0x80"
    "step_at s t (pt_idx 1 va) = Some w \<Longrightarrow> ptw s (ent t (pt_idx 1 va)) AND PTE_ADDR_MASK = w"
    if "step_at s r (pt_idx 0 va) = Some t" for t w
    using user_level[OF wf, of "[pt_idx 0 va]" "pt_idx 1 va" t] u(2) that by simp_all
  have L2: "ptw s (ent t' (pt_idx 2 va)) AND 5 \<noteq> 5 \<longleftrightarrow> step_at s t' (pt_idx 2 va) = None"
    "\<not> has (ptw s (ent t' (pt_idx 2 va))) 0x80"
    "step_at s t' (pt_idx 2 va) = Some w \<Longrightarrow> ptw s (ent t' (pt_idx 2 va)) AND PTE_ADDR_MASK = w"
    if "step_at s r (pt_idx 0 va) = Some t" "step_at s t (pt_idx 1 va) = Some t'" for t t' w
    using user_level[OF wf, of "[pt_idx 0 va, pt_idx 1 va]" "pt_idx 2 va" t'] u(3) that by simp_all
  have nb: "\<not> (va < USER_SPACE_MIN \<or> USER_SPACE_END \<le> va)" using va by auto
  show ?thesis
  proof (cases "step_at s r (pt_idx 0 va)")
    case None
    then show ?thesis using nb r0 r L0(1) by (simp add: user_v2p_def pte_val_def vpath_def Let_def)
  next
    case 1: (Some t)
    show ?thesis
    proof (cases "step_at s t (pt_idx 1 va)")
      case None
      then show ?thesis using nb r0 r 1 L0 L1[OF 1] by (simp add: user_v2p_def pte_val_def vpath_def Let_def)
    next
      case 2: (Some t')
      show ?thesis
      proof (cases "step_at s t' (pt_idx 2 va)")
        case None
        then show ?thesis using nb r0 r 1 2 L0 L1[OF 1] L2[OF 1 2]
          by (simp add: user_v2p_def pte_val_def vpath_def Let_def)
      next
        case (Some t'')
        then show ?thesis using nb r0 r 1 2 L0 L1[OF 1] L2[OF 1 2]
          by (simp add: user_v2p_def pte_val_def vpath_def Let_def and_5)
      qed
    qed
  qed
qed

section \<open>Releasing and copying data frames\<close>

text \<open>A data frame of an address space: allocated, and none of its tables.\<close>

definition data_frame :: "vm \<Rightarrow> u64 \<Rightarrow> nat \<Rightarrow> bool" where
  "data_frame s r g \<longleftrightarrow> 0 < g \<and> g < unat (total_pages (v_pmm s)) \<and> g \<notin> free_set (v_pmm s) \<and>
     (\<forall>p. upath p \<longrightarrow> tab_at s r p \<noteq> Some (frame_addr g))"

lemma free_set_free_page: "free_set (free_page a s) \<subseteq> insert (pidx a) (free_set s)"
  by (auto simp: free_page_def Let_def free_set_def)

lemma wf_pt_pmm:
  assumes wf: "wf_pt s r" and pt: "ptw s' = ptw s" and inv: "pmm_inv (v_pmm s')"
    and fs: "free_set (v_pmm s') \<subseteq> free_set (v_pmm s) \<union> F" and F: "0 \<notin> F"
    and nt: "\<And>p g. upath p \<Longrightarrow> g \<in> F \<Longrightarrow> tab_at s r p \<noteq> Some (frame_addr g)"
  shows "wf_pt s' r"
proof -
  have T: "tab_at s' r p = tab_at s r p" for p by (rule tab_at_ptw[OF pt])
  have tf: "tframe s' a" if p: "upath p" "tab_at s r p = Some a" for p a
  proof -
    from wf_ptD(3)[OF wf p] obtain f where f: "0 < f" "f < MAX_PAGES" "f \<notin> free_set (v_pmm s)" "a = frame_addr f"
      by (auto simp: tframe_def)
    then have "f \<notin> F" using nt[OF p(1)] p(2) by auto
    with f fs show ?thesis unfolding tframe_def by blast
  qed
  show ?thesis
    unfolding wf_pt_def T
    using inv tf wf_ptD(2,4,5,6)[OF wf] fs F by (auto simp: pt)
qed

lemma data_frame_max: "wf_pt s r \<Longrightarrow> data_frame s r g \<Longrightarrow> g < MAX_PAGES"
  using pmm_invD(1)[OF wf_ptD(1)] by (fastforce simp: data_frame_def)

lemma wf_pt_vfree:
  assumes wf: "wf_pt s r" and g: "data_frame s r g"
  shows "wf_pt (vfree (frame_addr g) s) r"
proof -
  note idx = frame_addr_idx(1)[OF data_frame_max[OF assms]]
  show ?thesis
  proof (rule wf_pt_pmm[OF wf, of _ "{g}"])
    show "pmm_inv (v_pmm (vfree (frame_addr g) s))"
      using wf_ptD(1)[OF wf] g idx by (simp add: vfree_def data_frame_def pmm_inv_free)
    show "free_set (v_pmm (vfree (frame_addr g) s)) \<subseteq> free_set (v_pmm s) \<union> {g}"
      using free_set_free_page[of "frame_addr g" "v_pmm s"] idx by (auto simp: vfree_def)
  qed (use g in \<open>auto simp: vfree_def data_frame_def\<close>)
qed

lemma pte_lookup: "fst (pte_ptr r va False s) = map_option (\<lambda>t. ent t (pt_idx 3 va)) (tab_at s r (vpath va))"
  by (simp add: pte_ptr_no_create)

lemma pte_present_tab:
  assumes "bit (pte_val s r va) n"
  obtains t where "tab_at s r (vpath va) = Some t" "ptw s (ent t (pt_idx 3 va)) = pte_val s r va"
  using assms by (cases "tab_at s r (vpath va)") (auto simp: pte_val_def)

lemma in_page:
  assumes "f < MAX_PAGES" and "g < MAX_PAGES" and "i < 4096"
  shows "frame_addr f \<le> frame_addr g + of_nat i \<and> frame_addr g + of_nat i < frame_addr f + 4096 \<longleftrightarrow> f = g"
proof -
  have "unat (frame_addr f + 4096) = f * 4096 + 4096"
    using frame_addr_idx(3)[OF assms(1)] assms(1) by (simp add: unat_word_ariths MAX_PAGES_def)
  moreover have "unat (frame_addr g + of_nat i) = g * 4096 + i"
    using frame_addr_idx(3)[OF assms(2)] assms(2,3)
    by (simp add: unat_word_ariths MAX_PAGES_def unsigned_of_nat take_bit_eq_mod)
  moreover have "f * 4096 \<le> g * 4096 + i \<and> g * 4096 + i < f * 4096 + 4096 \<longleftrightarrow> f = g"
    using assms(3) by (cases f g rule: linorder_cases) linarith+
  ultimately show ?thesis using frame_addr_idx(3)[OF assms(1)]
    by (simp only: word_le_nat_alt word_less_nat_alt)
qed

lemma cow_fault_copy:
  assumes wf: "wf_pt s r" and v: "user_va va" and e: "bit (pte_val s r va) 0"
    and old: "pte_val s r va AND PTE_ADDR_MASK = frame_addr g" "data_frame s r g"
    and shared: "1 < page_refcount (v_pmm s) g" and free: "free_set (v_pmm s) \<noteq> {}"
    and t: "tab_at s r (vpath va) = Some t"
  shows "\<exists>n s'. cow_fault (ent t (pt_idx 3 va)) va s = (True, s') \<and> n \<in> free_set (v_pmm s) \<and> wf_pt s' r \<and>
    pte_val s' r va = frame_addr n OR (PAGE_PRESENT OR PAGE_WRITABLE OR (pte_val s r va AND PAGE_USER) OR
      (pte_val s r va AND PAGE_NX)) \<and>
    (\<forall>vb. user_va vb \<longrightarrow> \<not> same_page vb va \<longrightarrow> pte_val s' r vb = pte_val s r vb) \<and>
    (\<forall>i<4096. pbytes s' (frame_addr n + of_nat i) = pbytes s (frame_addr g + of_nat i)) \<and>
    (\<forall>x. \<not> (frame_addr n \<le> x \<and> x < frame_addr n + 4096) \<longrightarrow> pbytes s' x = pbytes s x) \<and>
    page_refcount (v_pmm s') g = page_refcount (v_pmm s) g - 1 \<and>
    tlb_log s' = tlb_log s @ [Shootdown va]"
proof -
  let ?a = "ent t (pt_idx 3 va)" and ?e = "pte_val s r va"
  define n where "n = Min (free_set (v_pmm s))"
  note A = alloc_page_props[OF wf_ptD(1)[OF wf] free, folded n_def]
  have n: "n < MAX_PAGES" "0 < n" using A(3,5) pmm_invD(1)[OF wf_ptD(1)[OF wf]] wf_ptD(2)[OF wf]
    by (cases n; auto)+
  have gm: "g < MAX_PAGES" by (rule data_frame_max[OF wf old(2)])
  have gn: "g \<noteq> n" using A(3) old(2) by (auto simp: data_frame_def)
  have al: "alloc_page (v_pmm s) = (frame_addr n, alloc_at n (v_pmm s))" using A(1,2) by (simp add: prod_eq_iff)
  have n0: "frame_addr n \<noteq> 0" using n frame_addr_idx(2) by simp
  have nm: "frame_addr n AND PTE_ADDR_MASK = frame_addr n"
    using frame_word_masks(1)[OF frame_word_addr[OF n(1)], of 0] by simp
  have ea: "ptw s ?a = ?e" using t by (simp add: pte_val_def)
  note gi = frame_addr_idx(1)[OF gm]
  have tot: "page_idx (frame_addr g) < total_pages (v_pmm s)"
    using old(2) gi by (simp add: data_frame_def word_less_nat_alt)
  have rc: "\<not> page_get_refcount (frame_addr g) (v_pmm s) \<le> 1"
  proof -
    have "unat (ucast (page_refcount (v_pmm s) g) :: u32) = unat (page_refcount (v_pmm s) g)"
      using u8_bound[of "page_refcount (v_pmm s) g"] by (simp add: unsigned_ucast_eq take_bit_eq_mod)
    moreover have "1 < unat (page_refcount (v_pmm s) g)" using shared by (simp add: word_less_nat_alt)
    moreover have "page_get_refcount (frame_addr g) (v_pmm s) = ucast (page_refcount (v_pmm s) g)"
      using tot unfolding page_get_refcount_def gi by auto
    ultimately show ?thesis by (simp add: word_le_nat_alt)
  qed
  let ?keep = "PAGE_PRESENT OR PAGE_WRITABLE OR (?e AND PAGE_USER) OR (?e AND PAGE_NX)"
  let ?s1 = "copy_page (frame_addr n) (frame_addr g) (s\<lparr>v_pmm := alloc_at n (v_pmm s)\<rparr>)"
  let ?s2 = "vfree (frame_addr g) ?s1"
  let ?s' = "(tlb (Shootdown va) (set_ptw ?a (frame_addr n OR ?keep) ?s2))
     \<lparr>vm_cow_faults := vm_cow_faults (tlb (Shootdown va) (set_ptw ?a (frame_addr n OR ?keep) ?s2)) + 1\<rparr>"
  have c: "cow_fault ?a va s = (True, ?s')"
    unfolding cow_fault_def Let_def ea old(1) using rc by (simp only: al nm n0 if_False prod.case)
  have w1: "wf_pt ?s1 r"
  proof (rule wf_pt_pmm[OF wf, of _ "{}"])
    show "pmm_inv (v_pmm ?s1)" using pmm_inv_alloc_at[OF wf_ptD(1)[OF wf] A(3)] by (simp add: copy_page_def)
  qed (auto simp: copy_page_def)
  have T1: "tab_at ?s1 r p = tab_at s r p" for p by (rule tab_at_ptw) (simp add: copy_page_def)
  have "data_frame ?s1 r g" using old(2) gn by (simp add: data_frame_def T1) (simp add: copy_page_def)
  from wf_pt_vfree[OF w1 this] have w2: "wf_pt ?s2 r" .
  have t2: "tab_at ?s2 r (vpath va) = Some t" using t tab_at_ptw[of ?s2 s r] by (simp add: vfree_def copy_page_def)
  note L = leaf_write[OF w2 v t2 refl[of "set_ptw ?a (frame_addr n OR ?keep) ?s2"]]
  have P2: "pte_val ?s2 r vb = pte_val s r vb" for vb by (rule pte_val_ptw) (simp add: vfree_def copy_page_def)
  have P': "pte_val ?s' r vb = pte_val (set_ptw ?a (frame_addr n OR ?keep) ?s2) r vb" for vb
    by (rule pte_val_ptw) simp
  have W': "wf_pt ?s' r" by (rule wf_pt_cong[OF L(1)]) simp_all
  have ne: "page_refcount (v_pmm s) g \<noteq> 0" using shared by auto
  have rc': "page_refcount (v_pmm ?s') g = page_refcount (v_pmm s) g - 1"
    using shared gn gi tot by (simp add: vfree_def copy_page_def free_page_def Let_def not_le)
  have by1: "pbytes ?s' x = pbytes ?s1 x" for x by (simp add: vfree_def)
  have by2: "pbytes ?s' (frame_addr n + of_nat i) = pbytes s (frame_addr g + of_nat i)" if "i < 4096" for i
    using in_page[OF n(1) n(1) that] unfolding by1 by (simp add: copy_page_def)
  have by3: "pbytes ?s' x = pbytes s x" if "\<not> (frame_addr n \<le> x \<and> x < frame_addr n + 4096)" for x
    using that unfolding by1 by (auto simp: copy_page_def)
  have lg: "tlb_log ?s' = tlb_log s @ [Shootdown va]" by (simp add: vfree_def copy_page_def)
  show ?thesis
    using c A(3) W' P' L(3,4) P2 by2 by3 rc' lg
    by (intro exI[of _ n] exI[of _ ?s']) (simp add: same_page_def)
qed

section \<open>Ranges of pages\<close>

lemma pt_idx_nat: "l \<le> 3 \<Longrightarrow> pt_idx l va = unat va div 4096 div 512 ^ (3 - l) mod 512"
proof -
  assume l: "l \<le> 3"
  have "drop_bit (39 - 9 * l) va AND 0x1FF = take_bit 9 (drop_bit (39 - 9 * l) va)"
    by (simp add: take_bit_eq_mask mask_eq_exp_minus_1)
  then have "pt_idx l va = take_bit 9 (unat (drop_bit (39 - 9 * l) va))"
    by (simp add: pt_idx_def unsigned_take_bit_eq)
  also have "\<dots> = unat va div 2 ^ (39 - 9 * l) mod 512"
    by (simp only: unat_drop_bit_eq) (simp add: take_bit_eq_mod drop_bit_eq_div)
  also have "(2 :: nat) ^ (39 - 9 * l) = 4096 * 512 ^ (3 - l)"
  proof -
    have "39 - 9 * l = 12 + 9 * (3 - l)" using l by simp
    then show ?thesis by (simp only: power_add power_mult) simp
  qed
  finally show ?thesis by (simp add: div_mult2_eq)
qed

lemma digits_512:
  fixes n :: nat
  assumes "n < 512 ^ 4"
  shows "n = ((n div 512 ^ 3 mod 512 * 512 + n div 512 ^ 2 mod 512) * 512 + n div 512 mod 512) * 512 + n mod 512"
proof -
  have d: "n div 512 ^ 3 = n div 512 div 512 div 512" "n div 512 ^ 2 = n div 512 div 512"
    by (simp_all add: div_mult2_eq[symmetric])
  have "n div 512 div 512 div 512 < 512" using assms by (simp add: div_less_iff_less_mult div_mult2_eq[symmetric])
  then have "n div 512 div 512 div 512 mod 512 = n div 512 div 512 div 512" by simp
  then show ?thesis unfolding d by (simp only: div_mult_mod_eq)
qed

lemma same_page_iff:
  assumes "va < USER_SPACE_END" and "vb < USER_SPACE_END"
  shows "same_page va vb \<longleftrightarrow> unat va div 4096 = unat vb div 4096"
proof
  assume "same_page va vb"
  then have e: "pt_idx l va = pt_idx l vb" if "l \<le> 3" for l
    using that by (auto simp: same_page_def vpath_def le_Suc_eq numeral_eq_Suc)
  have lt: "unat va div 4096 < 512 ^ 4" "unat vb div 4096 < 512 ^ 4"
    using assms by (simp_all add: USER_SPACE_END_def word_less_nat_alt less_mult_imp_div_less)
  show "unat va div 4096 = unat vb div 4096"
    using digits_512[OF lt(1)] digits_512[OF lt(2)] e[of 0] e[of 1] e[of 2] e[of 3]
    by (simp add: pt_idx_nat)
qed (simp add: same_page_def vpath_def pt_idx_nat)

text \<open>The pages a range loop visits.\<close>

definition range_pages :: "u64 \<Rightarrow> u64 \<Rightarrow> u64 list" where
  "range_pages va end = map (\<lambda>k. va + 4096 * of_nat k) [0..<(unat end + 4095 - unat va) div 4096]"

lemma range_pages_step:
  assumes "va < end" and "end \<le> USER_SPACE_END"
  shows "range_pages va end = va # range_pages (va + 4096) end"
proof -
  have u: "unat va < unat end" "unat end \<le> 2 ^ 47" using assms
    by (simp_all add: word_less_nat_alt word_le_nat_alt USER_SPACE_END_def)
  have n: "unat (va + 4096) = unat va + 4096" using u by (simp add: unat_word_ariths)
  have c: "(unat end + 4095 - unat va) div 4096 = Suc ((unat end + 4095 - unat (va + 4096)) div 4096)"
  proof -
    have "unat end + 4095 - unat va \<ge> 4096" using u by simp
    then have "(unat end + 4095 - unat va) div 4096 = Suc ((unat end + 4095 - unat va - 4096) div 4096)"
      by (rule le_div_geq[rotated]) simp
    then show ?thesis by (simp add: n)
  qed
  have "map (\<lambda>k. va + 4096 * of_nat k) [0..<Suc m] = va # map (\<lambda>k. va + 4096 + 4096 * of_nat k) [0..<m]" for m
    by (subst upt_conv_Cons) (simp_all add: map_Suc_upt[symmetric] algebra_simps del: upt_Suc)
  then show ?thesis unfolding range_pages_def c by simp
qed

lemma vm_range_fold:
  assumes "end \<le> USER_SPACE_END"
  shows "vm_range f va end s = Some (fold f (range_pages va end) s)"
proof (induction "unat end + 4095 - unat va" arbitrary: va s rule: less_induct)
  case less
  show ?case
  proof (cases "va < end")
    case True
    have u: "unat va < unat end" "unat end \<le> 2 ^ 47" using True assms
      by (simp_all add: word_less_nat_alt word_le_nat_alt USER_SPACE_END_def)
    have "unat (va + 4096) = unat va + 4096" using u by (simp add: unat_word_ariths)
    then have "vm_range f (va + 4096) end (f va s) = Some (fold f (range_pages (va + 4096) end) (f va s))"
      using u by (intro less.hyps) simp
    then show ?thesis using True range_pages_step[OF True assms] by (simp add: vm_range.simps)
  next
    case False
    then have "range_pages va end = []" by (auto simp: range_pages_def word_less_nat_alt)
    then show ?thesis using False by (simp add: vm_range.simps)
  qed
qed

lemma range_pages_mem:
  assumes "end \<le> USER_SPACE_END" and "4096 dvd unat start"
  shows "(\<exists>x \<in> set (range_pages start end). unat x div 4096 = unat va div 4096) \<longleftrightarrow>
    unat start div 4096 \<le> unat va div 4096 \<and> unat va div 4096 < (unat end + 4095) div 4096"
proof -
  let ?n = "(unat end + 4095 - unat start) div 4096"
  from assms(2) obtain c where c: "unat start = 4096 * c" by (auto elim: dvdE)
  have e: "unat end \<le> 2 ^ 47" using assms(1) by (simp add: word_le_nat_alt USER_SPACE_END_def)
  have un: "unat (start + 4096 * of_nat k) div 4096 = c + k" if "k < ?n" for k
  proof -
    have "k * 4096 + 4096 \<le> unat end + 4095 - unat start"
      using that by (simp add: less_eq_div_iff_mult_less_eq Suc_le_eq[symmetric])
    then have "unat (start + 4096 * of_nat k) = 4096 * (c + k)"
      using e c by (simp add: unat_word_ariths unsigned_of_nat take_bit_eq_mod)
    then show ?thesis by simp
  qed
  have n: "?n = (unat end + 4095) div 4096 - c"
  proof (cases "4096 * c \<le> unat end + 4095")
    case True
    then obtain d where "unat end + 4095 = 4096 * c + d" by (auto simp: le_iff_add)
    then show ?thesis unfolding c by simp
  next
    case False
    then have "(unat end + 4095) div 4096 \<le> c" by (simp add: div_le_mono less_imp_le div_less_iff_less_mult mult.commute)
    with False show ?thesis unfolding c by simp
  qed
  have "(\<exists>x \<in> set (range_pages start end). unat x div 4096 = unat va div 4096) \<longleftrightarrow>
      (\<exists>k<?n. c + k = unat va div 4096)"
    unfolding range_pages_def using un by auto
  also have "\<dots> \<longleftrightarrow> c \<le> unat va div 4096 \<and> unat va div 4096 < c + ?n"
  proof -
    have "(\<exists>k<m. c + k = y) \<longleftrightarrow> c \<le> y \<and> y < c + m" for m y
      by (auto intro!: exI[of _ "y - c"])
    then show ?thesis .
  qed
  finally show ?thesis unfolding n c by auto
qed

text \<open>
  The effect of a loop whose body rewrites the leaf entry of its page by an idempotent function
  and keeps an invariant.
\<close>

lemma fold_pages:
  assumes inv: "I s" and xs: "\<forall>x \<in> set xs. user_va x"
    and f: "\<And>x s. user_va x \<Longrightarrow> I s \<Longrightarrow> I (f x s) \<and>
      (\<forall>vb. user_va vb \<longrightarrow> pte_val (f x s) r vb = (if same_page vb x then g (pte_val s r vb) else pte_val s r vb))"
    and idem: "\<And>e. g (g e) = g e" and v: "user_va vb"
  shows "I (fold f xs s) \<and>
    pte_val (fold f xs s) r vb = (if \<exists>x \<in> set xs. same_page vb x then g (pte_val s r vb) else pte_val s r vb)"
  using inv xs
proof (induction xs arbitrary: s)
  case (Cons x xs)
  from f[of x s] Cons.prems have 1: "I (f x s)"
    "pte_val (f x s) r vb = (if same_page vb x then g (pte_val s r vb) else pte_val s r vb)" using v by auto
  with Cons.IH[OF 1(1)] Cons.prems idem show ?case by auto
qed simp

definition prot_pte :: "u32 \<Rightarrow> u64 \<Rightarrow> u64" where
  "prot_pte prot e = (if \<not> bit e 0 then e else
     (e AND PTE_ADDR_MASK) OR PAGE_PRESENT OR PAGE_USER OR
     (if prot AND 2 \<noteq> 0 \<and> \<not> bit e 10 then PAGE_WRITABLE else 0) OR
     (if prot AND 4 = 0 then PAGE_NX else 0) OR (if bit e 10 then PTE_COW else 0) OR
     (if bit e 9 then PTE_DEMAND else 0))"

lemma bit_prot_pte:
  "bit e 0 \<Longrightarrow> bit (prot_pte prot e) n \<longleftrightarrow> (12 \<le> n \<and> n < 52 \<and> bit e n) \<or> n = 0 \<or> n = 2 \<or>
     (n = 1 \<and> prot AND 2 \<noteq> 0 \<and> \<not> bit e 10) \<or> (n = 63 \<and> prot AND 4 = 0) \<or> (n = 10 \<and> bit e 10) \<or> (n = 9 \<and> bit e 9)"
  by (auto simp: prot_pte_def bit_simps)

lemma prot_pte_idem: "prot_pte prot (prot_pte prot e) = prot_pte prot e"
proof (cases "bit e 0")
  case True
  then have "bit (prot_pte prot e) 0" by (simp add: bit_prot_pte)
  with True show ?thesis by (intro bit_word_eqI) (auto simp: bit_prot_pte)
qed (simp add: prot_pte_def)

lemma protect_one_effect:
  assumes wf: "wf_pt s r" and v: "user_va va"
  shows "wf_pt (protect_one r prot va s) r" "v_pmm (protect_one r prot va s) = v_pmm s"
    "pbytes (protect_one r prot va s) = pbytes s"
    "user_va vb \<Longrightarrow> pte_val (protect_one r prot va s) r vb =
       (if same_page vb va then prot_pte prot (pte_val s r vb) else pte_val s r vb)"
proof -
  have sp: "same_page vb va \<Longrightarrow> pte_val s r vb = pte_val s r va" for vb s
    by (simp add: same_page_def pte_val_def split: option.split)
  have "wf_pt (protect_one r prot va s) r \<and> v_pmm (protect_one r prot va s) = v_pmm s \<and>
    pbytes (protect_one r prot va s) = pbytes s \<and>
    (user_va vb \<longrightarrow> pte_val (protect_one r prot va s) r vb =
       (if same_page vb va then prot_pte prot (pte_val s r vb) else pte_val s r vb))"
  proof (cases "bit (pte_val s r va) 0")
    case False
    have "protect_one r prot va s = s"
      using False by (auto simp: protect_one_def pte_lookup pte_val_def split: option.splits)
    then show ?thesis using wf False sp by (auto simp: prot_pte_def)
  next
    case True
    from pte_present_tab[OF True] obtain t where t: "tab_at s r (vpath va) = Some t"
      "ptw s (ent t (pt_idx 3 va)) = pte_val s r va" .
    let ?e = "prot_pte prot (pte_val s r va)" and ?a = "ent t (pt_idx 3 va)"
    have flags: "((pte_val s r va AND PTE_ADDR_MASK) OR
       (let f = PAGE_PRESENT OR PAGE_USER;
            f = (if prot AND 2 \<noteq> 0 then f OR PAGE_WRITABLE else f);
            f = (if prot AND 4 = 0 then f OR PAGE_NX else f);
            f = (if has (pte_val s r va) PTE_COW then (f AND NOT PAGE_WRITABLE) OR PTE_COW else f)
        in if has (pte_val s r va) PTE_DEMAND then f OR PTE_DEMAND else f)) = ?e"
      using True by (intro bit_word_eqI) (auto simp: bit_prot_pte bit_simps Let_def)
    have p: "protect_one r prot va s = tlb (Shootdown va) (set_ptw ?a ?e s)"
      using True t flags[symmetric] by (simp add: protect_one_def pte_lookup Let_def)
    note L = leaf_write[OF wf v t(1) refl[of "set_ptw ?a ?e s"]]
    have "wf_pt (protect_one r prot va s) r" unfolding p by (rule wf_pt_cong[OF L(1)]) simp_all
    moreover have "pte_val (protect_one r prot va s) r vb = pte_val (set_ptw ?a ?e s) r vb"
      unfolding p by (rule pte_val_ptw) simp
    ultimately show ?thesis using L(3,4) sp[of vb] sp[of vb "set_ptw ?a ?e s"]
      by (auto simp: p same_page_def)
  qed
  then show "wf_pt (protect_one r prot va s) r" "v_pmm (protect_one r prot va s) = v_pmm s"
    "pbytes (protect_one r prot va s) = pbytes s"
    "user_va vb \<Longrightarrow> pte_val (protect_one r prot va s) r vb =
       (if same_page vb va then prot_pte prot (pte_val s r vb) else pte_val s r vb)" by blast+
qed

text \<open>Whether an address lies in the pages of a range.\<close>

definition in_range :: "u64 \<Rightarrow> u64 \<Rightarrow> u64 \<Rightarrow> bool" where
  "in_range start end va \<longleftrightarrow> unat start div 4096 \<le> unat va div 4096 \<and> unat va div 4096 < (unat end + 4095) div 4096"

lemma range_pages_user:
  assumes "end \<le> USER_SPACE_END" and "x \<in> set (range_pages start end)"
  shows "x < end" "user_va x"
proof -
  from assms(2) obtain k where k: "k < (unat end + 4095 - unat start) div 4096" "x = start + 4096 * of_nat k"
    by (auto simp: range_pages_def)
  then have "k * 4096 + 4096 \<le> unat end + 4095 - unat start"
    by (simp add: less_eq_div_iff_mult_less_eq Suc_le_eq[symmetric])
  then have "unat x < unat end" using assms(1) k(2)
    by (simp add: word_le_nat_alt USER_SPACE_END_def unat_word_ariths unsigned_of_nat take_bit_eq_mod)
  then show "x < end" by (simp add: word_less_nat_alt)
  with assms(1) show "user_va x" by (intro user_range_va) simp
qed

lemma range_same_page:
  assumes "end \<le> USER_SPACE_END" and "4096 dvd unat start" and "vb < USER_SPACE_END"
  shows "(\<exists>x \<in> set (range_pages start end). same_page vb x) \<longleftrightarrow> in_range start end vb"
proof -
  have "same_page vb x \<longleftrightarrow> unat x div 4096 = unat vb div 4096" if "x \<in> set (range_pages start end)" for x
    using same_page_iff[OF assms(3), of x] range_pages_user(1)[OF assms(1) that] assms(1) by auto
  then show ?thesis using range_pages_mem[OF assms(1,2), of vb] unfolding in_range_def by blast
qed

lemma wf_pt_root: "wf_pt s r \<Longrightarrow> r \<noteq> 0"
proof -
  assume wf: "wf_pt s r"
  have "upath []" by (simp add: upath_def)
  from wf_ptD(3)[OF wf this, of r] show "r \<noteq> 0" using frame_addr_idx(2) by (auto simp: tframe_def)
qed

lemma vm_protect_range_spec:
  assumes wf: "wf_pt s r" and r: "end \<le> USER_SPACE_END" "4096 dvd unat start"
  shows "\<exists>s'. vm_protect_range r start end prot s = Some s' \<and> wf_pt s' r \<and> v_pmm s' = v_pmm s \<and> pbytes s' = pbytes s \<and>
    (\<forall>va < USER_SPACE_END. pte_val s' r va =
      (if in_range start end va then prot_pte prot (pte_val s r va) else pte_val s r va))"
proof -
  let ?s = "fold (protect_one r prot) (range_pages start end) s"
  let ?I = "\<lambda>t. wf_pt t r \<and> v_pmm t = v_pmm s \<and> pbytes t = pbytes s"
  have F: "?I ?s \<and> pte_val ?s r vb = (if \<exists>x \<in> set (range_pages start end). same_page vb x
      then prot_pte prot (pte_val s r vb) else pte_val s r vb)" if "user_va vb" for vb
    by (rule fold_pages[where I = ?I and g = "prot_pte prot"])
      (use wf range_pages_user(2)[OF r(1)] protect_one_effect prot_pte_idem that in auto)
  have "vm_protect_range r start end prot s = Some ?s"
    using wf_pt_root[OF wf] vm_range_fold[OF r(1)] by (simp add: vm_protect_range_def)
  then show ?thesis using F[of 0] F user_range_va range_same_page[OF r]
    by (intro exI[of _ ?s]) (auto simp: user_va_def pt_idx_def PML4_HIGHER_def)
qed

text \<open>
  An address space whose present leaves point at data frames, each mapped once.
\<close>

definition wf_as :: "vm \<Rightarrow> u64 \<Rightarrow> bool" where
  "wf_as s r \<longleftrightarrow> wf_pt s r \<and>
     (\<forall>va. user_va va \<longrightarrow> bit (pte_val s r va) 0 \<longrightarrow>
        (\<exists>g. data_frame s r g \<and> pte_val s r va AND PTE_ADDR_MASK = frame_addr g)) \<and>
     (\<forall>va vb. user_va va \<longrightarrow> user_va vb \<longrightarrow> bit (pte_val s r va) 0 \<longrightarrow> bit (pte_val s r vb) 0 \<longrightarrow>
        pte_val s r va AND PTE_ADDR_MASK = pte_val s r vb AND PTE_ADDR_MASK \<longrightarrow> same_page va vb)"

definition drop_pte :: "u64 \<Rightarrow> u64" where
  "drop_pte e = (if bit e 0 then 0 else e)"

lemma pte_same_page: "same_page vb va \<Longrightarrow> pte_val s r vb = pte_val s r va"
  by (simp add: same_page_def pte_val_def split: option.split)

lemma free_page_other:
  assumes "pidx a \<noteq> f"
  shows "page_refcount (free_page a m) f = page_refcount m f" "f \<in> free_set (free_page a m) \<longleftrightarrow> f \<in> free_set m"
  using assms by (auto simp: free_page_def Let_def free_set_def)

lemma free_page_total [simp]:
  "total_pages (free_page a m) = total_pages m" "page_pinned (free_page a m) = page_pinned m"
  by (simp_all add: free_page_def Let_def)

lemma free_set_free_page_mono: "free_set m \<subseteq> free_set (free_page a m)"
  by (auto simp: free_page_def Let_def free_set_def)

lemma free_page_last:
  assumes "pidx a < unat (total_pages m)" and "page_refcount m (pidx a) \<le> 1" and "page_pinned m (pidx a) = 0"
  shows "pidx a \<in> free_set (free_page a m)"
  using assms by (simp add: free_page_def Let_def free_set_def word_le_nat_alt word_less_nat_alt)

lemma free_one_effect:
  assumes as: "wf_as s r" and v: "user_va va"
  defines "s' \<equiv> free_one_page r va s"
  shows "wf_as s' r" "user_va vb \<Longrightarrow> pte_val s' r vb = (if same_page vb va then drop_pte (pte_val s r vb) else pte_val s r vb)"
    "bit (pte_val s r va) 0 \<Longrightarrow> v_pmm s' = free_page (pte_val s r va AND PTE_ADDR_MASK) (v_pmm s)"
    "\<not> bit (pte_val s r va) 0 \<Longrightarrow> v_pmm s' = v_pmm s"
proof -
  have wf: "wf_pt s r" using as by (simp add: wf_as_def)
  have "wf_as s' r \<and> (\<forall>vb. user_va vb \<longrightarrow> pte_val s' r vb = (if same_page vb va then drop_pte (pte_val s r vb) else pte_val s r vb)) \<and>
    (if bit (pte_val s r va) 0 then v_pmm s' = free_page (pte_val s r va AND PTE_ADDR_MASK) (v_pmm s) else v_pmm s' = v_pmm s)"
  proof (cases "bit (pte_val s r va) 0")
    case False
    have "s' = s" unfolding s'_def
      using False by (auto simp: free_one_page_def pte_lookup pte_val_def split: option.splits)
    then show ?thesis using as False pte_same_page by (auto simp: drop_pte_def)
  next
    case True
    from pte_present_tab[OF True] obtain t where t: "tab_at s r (vpath va) = Some t"
      "ptw s (ent t (pt_idx 3 va)) = pte_val s r va" .
    from as v True obtain g where g: "data_frame s r g" "pte_val s r va AND PTE_ADDR_MASK = frame_addr g"
      by (auto simp: wf_as_def)
    let ?a = "ent t (pt_idx 3 va)" and ?u = "vfree (frame_addr g) s"
    have gi: "pidx (frame_addr g) = g" by (rule frame_addr_idx(1)[OF data_frame_max[OF wf g(1)]])
    have s': "s' = tlb (Shootdown va) (set_ptw ?a 0 ?u)"
      unfolding s'_def using True t g(2) by (simp add: free_one_page_def pte_lookup)
    have pu: "ptw ?u = ptw s" by (simp add: vfree_def)
    have wu: "wf_pt ?u r" by (rule wf_pt_vfree[OF wf g(1)])
    have tu: "tab_at ?u r p = tab_at s r p" for p by (rule tab_at_ptw[OF pu])
    have tv: "tab_at ?u r (vpath va) = Some t" using t(1) by (simp add: tu)
    note L = leaf_write[OF wu v tv refl[of "set_ptw ?a 0 ?u"]]
    have w': "wf_pt s' r" unfolding s' by (rule wf_pt_cong[OF L(1)]) simp_all
    have pv: "pte_val s' r vb = (if same_page vb va then 0 else pte_val s r vb)" if b: "user_va vb" for vb
    proof -
      have "pte_val s' r vb = pte_val (set_ptw ?a 0 ?u) r vb" unfolding s' by (rule pte_val_ptw) simp
      moreover have "pte_val ?u r vb = pte_val s r vb" by (rule pte_val_ptw[OF pu])
      ultimately show ?thesis using L(3) L(4)[OF b] pte_same_page[of vb va "set_ptw ?a 0 ?u" r]
        by (auto simp: same_page_def)
    qed
    have pm: "v_pmm s' = free_page (frame_addr g) (v_pmm s)" by (simp add: s' vfree_def)
    have tab': "tab_at s' r p = tab_at s r p" if "upath p" for p
      using L(2)[OF that] tu[of p] tab_at_ptw[of s' "set_ptw ?a 0 ?u" r p] by (simp add: s')
    have df: "data_frame s' r h" if h: "data_frame s r h" "h \<noteq> g" for h
      using h free_page_other(2)[of "frame_addr g" h "v_pmm s"] gi tab'
      unfolding data_frame_def pm by simp
    have "\<exists>h. data_frame s' r h \<and> pte_val s' r vb AND PTE_ADDR_MASK = frame_addr h"
      if b: "user_va vb" "bit (pte_val s' r vb) 0" for vb
    proof -
      have np: "\<not> same_page vb va" "pte_val s' r vb = pte_val s r vb" using b pv by (auto split: if_splits)
      with as b obtain h where h: "data_frame s r h" "pte_val s r vb AND PTE_ADDR_MASK = frame_addr h"
        by (auto simp: wf_as_def)
      have "h \<noteq> g" using as b(1) v True b(2) np g(2) h(2) unfolding wf_as_def by auto
      with df[OF h(1)] h(2) np(2) show ?thesis by auto
    qed
    moreover have "same_page vb vc" if "user_va vb" "user_va vc" "bit (pte_val s' r vb) 0" "bit (pte_val s' r vc) 0"
      "pte_val s' r vb AND PTE_ADDR_MASK = pte_val s' r vc AND PTE_ADDR_MASK" for vb vc
      using as that pv[OF that(1)] pv[OF that(2)] unfolding wf_as_def by (auto split: if_splits)
    ultimately have "wf_as s' r" using w' unfolding wf_as_def by blast
    moreover have "if bit (pte_val s r va) 0 then v_pmm s' = free_page (pte_val s r va AND PTE_ADDR_MASK) (v_pmm s) else v_pmm s' = v_pmm s"
      using True pm g(2) by simp
    ultimately show ?thesis using pv True pte_same_page[of _ va s r] by (auto simp: drop_pte_def)
  qed
  then show "wf_as s' r" "user_va vb \<Longrightarrow> pte_val s' r vb = (if same_page vb va then drop_pte (pte_val s r vb) else pte_val s r vb)"
    "bit (pte_val s r va) 0 \<Longrightarrow> v_pmm s' = free_page (pte_val s r va AND PTE_ADDR_MASK) (v_pmm s)"
    "\<not> bit (pte_val s r va) 0 \<Longrightarrow> v_pmm s' = v_pmm s" by auto
qed

text \<open>A frame only this address space holds, mapped at \<open>va\<close> in the initial state, is back in the
  pool as soon as its page has been dropped.\<close>

definition released :: "u64 \<Rightarrow> vm \<Rightarrow> vm \<Rightarrow> bool" where
  "released r s t \<longleftrightarrow> (\<forall>va g. user_va va \<longrightarrow> bit (pte_val s r va) 0 \<longrightarrow> pte_val s r va AND PTE_ADDR_MASK = frame_addr g \<longrightarrow>
     g < unat (total_pages (v_pmm s)) \<longrightarrow> page_refcount (v_pmm s) g \<le> 1 \<longrightarrow> page_pinned (v_pmm s) g = 0 \<longrightarrow>
     g \<in> free_set (v_pmm t) \<or> (pte_val t r va = pte_val s r va \<and> page_refcount (v_pmm t) g \<le> 1))"

lemma released_step:
  assumes as: "wf_as t r" and x: "user_va x" and rel: "released r s t" and tp: "unat (total_pages (v_pmm s)) \<le> MAX_PAGES"
    and tot: "total_pages (v_pmm t) = total_pages (v_pmm s)" "page_pinned (v_pmm t) = page_pinned (v_pmm s)"
  shows "released r s (free_one_page r x t)"
proof (cases "bit (pte_val t r x) 0")
  case False
  have same: "pte_val (free_one_page r x t) r va = pte_val t r va" if "user_va va" for va
    using free_one_effect(2)[OF as x that] False pte_same_page[of va x t r] by (auto simp: drop_pte_def)
  show ?thesis using rel unfolding released_def free_one_effect(4)[OF as x False] by (simp add: same)
next
  case True
  from as x True obtain h where h: "data_frame t r h" "pte_val t r x AND PTE_ADDR_MASK = frame_addr h"
    by (auto simp: wf_as_def)
  have wf: "wf_pt t r" using as by (simp add: wf_as_def)
  note hi = frame_addr_idx(1)[OF data_frame_max[OF wf h(1)]]
  note E = free_one_effect[OF as x]
  have pm: "v_pmm (free_one_page r x t) = free_page (frame_addr h) (v_pmm t)" using E(3)[OF True] h(2) by simp
  show ?thesis
    unfolding released_def
  proof (intro allI impI)
    fix va g assume v: "user_va va" "bit (pte_val s r va) 0" "pte_val s r va AND PTE_ADDR_MASK = frame_addr g"
      "g < unat (total_pages (v_pmm s))" "page_refcount (v_pmm s) g \<le> 1" "page_pinned (v_pmm s) g = 0"
    from rel v consider "g \<in> free_set (v_pmm t)" | "pte_val t r va = pte_val s r va" "page_refcount (v_pmm t) g \<le> 1"
      unfolding released_def by blast
    then show "g \<in> free_set (v_pmm (free_one_page r x t)) \<or>
        (pte_val (free_one_page r x t) r va = pte_val s r va \<and> page_refcount (v_pmm (free_one_page r x t)) g \<le> 1)"
    proof cases
      case 1
      then show ?thesis using free_set_free_page_mono pm by auto
    next
      case 2
      show ?thesis
      proof (cases "same_page va x")
        case same: True
        have gm: "g < MAX_PAGES" using v(4) tp by simp
        have "pte_val t r x = pte_val s r va" using 2(1) pte_same_page[OF same, of t r] by simp
        then have "frame_addr h = frame_addr g" using h(2) v(3) by simp
        then have "h = g" using frame_addr_inj[OF data_frame_max[OF wf h(1)] gm] by simp
        then have "g \<in> free_set (free_page (frame_addr h) (v_pmm t))"
          using free_page_last[of "frame_addr h" "v_pmm t"] hi 2(2) v(4,6) tot by simp
        then show ?thesis by (simp add: pm)
      next
        case False
        have "g \<noteq> h"
        proof
          assume "g = h"
          then have "pte_val t r va AND PTE_ADDR_MASK = pte_val t r x AND PTE_ADDR_MASK" using 2(1) v(3) h(2) by simp
          then show False using as v(1,2) x True 2(1) False unfolding wf_as_def by auto
        qed
        then have "pidx (frame_addr h) \<noteq> g" using hi by simp
        then show ?thesis using 2 E(2)[OF v(1)] False free_page_other(1) by (simp add: pm)
      qed
    qed
  qed
qed

lemma vm_free_range_spec:
  assumes as: "wf_as s r" and r: "end \<le> USER_SPACE_END" "4096 dvd unat start"
  shows "\<exists>s'. vm_free_range r start end s = Some s' \<and> wf_as s' r \<and> released r s s' \<and>
    (\<forall>va < USER_SPACE_END. pte_val s' r va =
      (if in_range start end va then drop_pte (pte_val s r va) else pte_val s r va))"
proof -
  let ?s = "fold (free_one_page r) (range_pages start end) s"
  let ?I = "\<lambda>t. wf_as t r \<and> released r s t \<and> total_pages (v_pmm t) = total_pages (v_pmm s) \<and>
    page_pinned (v_pmm t) = page_pinned (v_pmm s)"
  have tp: "unat (total_pages (v_pmm s)) \<le> MAX_PAGES"
    using as pmm_invD(1) wf_ptD(1) unfolding wf_as_def by blast
  have body: "?I (free_one_page r x t) \<and> (\<forall>vb. user_va vb \<longrightarrow> pte_val (free_one_page r x t) r vb =
      (if same_page vb x then drop_pte (pte_val t r vb) else pte_val t r vb))" if "user_va x" "?I t" for x t
  proof -
    have t: "wf_as t r" "released r s t" "total_pages (v_pmm t) = total_pages (v_pmm s)"
      "page_pinned (v_pmm t) = page_pinned (v_pmm s)" using that(2) by auto
    note E = free_one_effect[OF t(1) that(1)]
    have "total_pages (v_pmm (free_one_page r x t)) = total_pages (v_pmm t)"
      "page_pinned (v_pmm (free_one_page r x t)) = page_pinned (v_pmm t)"
      using E(3,4) by (cases "bit (pte_val t r x) 0"; simp)+
    then show ?thesis using E(1,2) released_step[OF t(1) that(1) t(2) tp t(3,4)] t by auto
  qed
  have F: "?I ?s \<and> pte_val ?s r vb = (if \<exists>x \<in> set (range_pages start end). same_page vb x
      then drop_pte (pte_val s r vb) else pte_val s r vb)" if "user_va vb" for vb
  proof (rule fold_pages[where I = ?I and g = drop_pte, OF _ _ body _ that])
    show "?I s" using as by (simp add: released_def)
    show "\<forall>x \<in> set (range_pages start end). user_va x" using range_pages_user(2)[OF r(1)] by blast
    show "drop_pte (drop_pte e) = drop_pte e" for e by (simp add: drop_pte_def)
  qed
  have root: "r \<noteq> 0" using as wf_pt_root unfolding wf_as_def by blast
  have "vm_free_range r start end s = Some ?s"
    using root vm_range_fold[OF r(1)] by (simp add: vm_free_range_def)
  then show ?thesis using F[of 0] F user_range_va range_same_page[OF r]
    by (intro exI[of _ ?s]) (auto simp: user_va_def pt_idx_def PML4_HIGHER_def)
qed

section \<open>Copies to and from user memory\<close>

lemma v2p_cong: "ptw s' = ptw s \<Longrightarrow> user_v2p r va s' = user_v2p r va s"
  by (simp only: user_v2p_def)

lemma v2p_user_range: "user_v2p r va s \<noteq> 0 \<Longrightarrow> USER_SPACE_MIN \<le> va \<and> va < USER_SPACE_END"
  by (auto simp: user_v2p_def split: if_splits)

lemma copy_to_user_effect:
  assumes "copy_to_user r a bs s = (res, s')"
  shows "ptw s' = ptw s \<and> v_pmm s' = v_pmm s \<and> tlb_log s' = tlb_log s \<and>
    (pbytes s' x \<noteq> pbytes s x \<longrightarrow> (\<exists>i < length bs. user_v2p r (a + of_nat i) s = x \<and> x \<noteq> 0))"
  using assms
proof (induction bs arbitrary: a s)
  case (Cons b bs)
  let ?p = "user_v2p r a s" and ?t = "s\<lparr>pbytes := (pbytes s)(user_v2p r a s := b)\<rparr>"
  have v: "user_v2p r va ?t = user_v2p r va s" for va by (rule v2p_cong) simp
  show ?case
  proof (cases "?p = 0")
    case True
    then show ?thesis using Cons.prems by simp
  next
    case False
    then have "copy_to_user r (a + 1) bs ?t = (res, s')" using Cons.prems by (simp add: Let_def)
    note IH = Cons.IH[OF this]
    have "\<exists>i < length (b # bs). user_v2p r (a + of_nat i) s = x \<and> x \<noteq> 0" if "pbytes s' x \<noteq> pbytes s x"
    proof (cases "x = ?p")
      case True
      then show ?thesis using False by (intro exI[of _ 0]) simp
    next
      case False
      with that IH v obtain i where "i < length bs" "user_v2p r (a + 1 + of_nat i) s = x" "x \<noteq> 0" by auto
      then show ?thesis by (intro exI[of _ "Suc i"]) (simp add: algebra_simps)
    qed
    with IH show ?thesis by simp
  qed
qed simp

lemmas copy_to_user_frame = copy_to_user_effect[THEN conjunct1]
  copy_to_user_effect[THEN conjunct2, THEN conjunct1]
  copy_to_user_effect[THEN conjunct2, THEN conjunct2, THEN conjunct1]
  copy_to_user_effect[THEN conjunct2, THEN conjunct2, THEN conjunct2, rule_format]

lemma v2p_inj:
  assumes as: "wf_as s r" and "user_v2p r va s = user_v2p r vb s" and "user_v2p r va s \<noteq> 0"
  shows "va = vb"
proof -
  have wf: "wf_pt s r" using as by (simp add: wf_as_def)
  have rg: "USER_SPACE_MIN \<le> va \<and> va < USER_SPACE_END" "USER_SPACE_MIN \<le> vb \<and> vb < USER_SPACE_END"
    using v2p_user_range assms(2,3) by metis+
  have tr: "\<exists>g. g < MAX_PAGES \<and> bit (pte_val s r v) 0 \<and> pte_val s r v AND PTE_ADDR_MASK = frame_addr g \<and>
      unat (user_v2p r v s) = g * 4096 + unat v mod 4096"
    if v: "USER_SPACE_MIN \<le> v \<and> v < USER_SPACE_END" "user_v2p r v s \<noteq> 0" for v
  proof -
    note V = user_v2p_pte[OF wf, of v]
    have b: "bit (pte_val s r v) 0" "user_v2p r v s = (pte_val s r v AND PTE_ADDR_MASK) + (v AND 0xFFF)"
      using V v by (auto simp: Let_def split: if_splits)
    from as user_range_va[of v] v(1) b(1) obtain g where g: "data_frame s r g"
      "pte_val s r v AND PTE_ADDR_MASK = frame_addr g" by (auto simp: wf_as_def)
    have gm: "g < MAX_PAGES" by (rule data_frame_max[OF wf g(1)])
    have "v AND 0xFFF = take_bit 12 v" by (simp add: take_bit_eq_mask mask_eq_exp_minus_1)
    then have "unat (v AND 0xFFF) = unat v mod 4096" by (simp add: take_bit_eq_mod unat_mod)
    then have "unat (user_v2p r v s) = g * 4096 + unat v mod 4096"
      using b(2) g(2) frame_addr_idx(3)[OF gm] gm by (simp add: unat_word_ariths MAX_PAGES_def)
    with gm b(1) g(2) show ?thesis by blast
  qed
  from tr[OF rg(1) assms(3)] obtain g where g: "g < MAX_PAGES" "bit (pte_val s r va) 0"
    "pte_val s r va AND PTE_ADDR_MASK = frame_addr g" "unat (user_v2p r va s) = g * 4096 + unat va mod 4096" by blast
  from tr[OF rg(2)] assms(2,3) obtain h where h: "h < MAX_PAGES" "bit (pte_val s r vb) 0"
    "pte_val s r vb AND PTE_ADDR_MASK = frame_addr h" "unat (user_v2p r vb s) = h * 4096 + unat vb mod 4096" by auto
  have e: "g * 4096 + unat va mod 4096 = h * 4096 + unat vb mod 4096" using g(4) h(4) assms(2) by simp
  have "(g * 4096 + unat va mod 4096) div 4096 = g" "(h * 4096 + unat vb mod 4096) div 4096 = h" by simp_all
  then have gh: "g = h" using e by simp
  then have m: "unat va mod 4096 = unat vb mod 4096" using e by simp
  have "same_page va vb"
    using as user_range_va rg g(2,3) h(2,3) gh unfolding wf_as_def by auto
  then have "unat va div 4096 = unat vb div 4096" using same_page_iff rg by auto
  with m have "unat va = unat vb" by (metis div_mult_mod_eq)
  then show ?thesis by (simp add: word_unat_eq_iff)
qed

lemma copy_roundtrip:
  assumes as: "wf_as s r" and "copy_to_user r a bs s = (0, s')" and "length bs < 2 ^ 64"
  shows "copy_from_user r a (length bs) s' = (0, bs)"
  using assms
proof (induction bs arbitrary: a s)
  case (Cons b bs)
  let ?p = "user_v2p r a s" and ?t = "s\<lparr>pbytes := (pbytes s)(user_v2p r a s := b)\<rparr>"
  have p0: "?p \<noteq> 0" using Cons.prems(2) by (auto simp: Let_def split: if_splits)
  then have c: "copy_to_user r (a + 1) bs ?t = (0, s')" using Cons.prems(2) by (simp add: Let_def)
  have pt: "ptw ?t = ptw s" "v_pmm ?t = v_pmm s" by simp_all
  have "wf_pt ?t r" by (rule wf_pt_cong[of s]) (use Cons.prems(1) in \<open>simp_all add: wf_as_def\<close>)
  then have as': "wf_as ?t r"
    using Cons.prems(1) pte_val_ptw[OF pt(1)] tab_at_ptw[OF pt(1)] unfolding wf_as_def data_frame_def by simp
  have IH: "copy_from_user r (a + 1) (length bs) s' = (0, bs)"
    using Cons.IH[OF as' c] Cons.prems(3) by simp
  have v': "user_v2p r a s' = ?p" by (rule v2p_cong) (use copy_to_user_frame(1)[OF c] in simp)
  have "pbytes s' ?p = pbytes ?t ?p"
  proof (rule ccontr)
    assume "pbytes s' ?p \<noteq> pbytes ?t ?p"
    from copy_to_user_frame(4)[OF c this] obtain i where i: "i < length bs" "user_v2p r (a + 1 + of_nat i) ?t = ?p" by blast
    then have "user_v2p r (a + 1 + of_nat i) s = ?p" using v2p_cong[OF pt(1)] by simp
    from v2p_inj[OF Cons.prems(1) this[symmetric] p0] have "1 + of_nat i = (0 :: u64)"
      by (simp add: add.assoc)
    then have "unat (1 + of_nat i :: u64) = 0" by simp
    then show False using i(1) Cons.prems(3) by (simp add: unat_word_ariths unsigned_of_nat take_bit_eq_mod)
  qed
  then show ?case using IH v' p0 by (simp add: Let_def)
qed simp

section \<open>A new address space\<close>

lemma alloc_page_directory_wf:
  assumes "pmm_inv (v_pmm s)" and "0 \<notin> free_set (v_pmm s)" and f: "free_set (v_pmm s) \<noteq> {}"
  shows "\<exists>f s'. f \<in> free_set (v_pmm s) \<and> alloc_page_directory s = (frame_addr f, s') \<and> wf_as s' (frame_addr f) \<and>
    v_pmm s' = alloc_at f (v_pmm s) \<and> (\<forall>va. user_va va \<longrightarrow> pte_val s' (frame_addr f) va = 0) \<and>
    (\<forall>p. upath p \<longrightarrow> p \<noteq> [] \<longrightarrow> tab_at s' (frame_addr f) p = None)"
proof (rule alloc_zeroed_cases[OF assms(1,2)])
  fix f assume f: "f \<in> free_set (v_pmm s)" "0 < f" "f < MAX_PAGES" "frame_addr f \<noteq> 0"
    and az: "alloc_zeroed s = (frame_addr f, zero_page (frame_addr f) (s\<lparr>v_pmm := alloc_at f (v_pmm s)\<rparr>))"
  let ?r = "frame_addr f" and ?z = "zero_page (frame_addr f) (s\<lparr>v_pmm := alloc_at f (v_pmm s)\<rparr>)"
  define s' where "s' = (let e = ptw ?z (ent (kernel_pml4 ?z) 511) in
     if bit e 0 then set_ptw (ent ?r 511) e ?z else ?z)"
  have d: "alloc_page_directory s = (?r, s')"
    using az f(4) by (simp add: alloc_page_directory_def s'_def PML4_HIGHER_def Let_def)
  have pm: "v_pmm s' = alloc_at f (v_pmm s)" by (simp add: s'_def Let_def)
  have z: "ptw s' (ent ?r i) = 0" if "i < PML4_HIGHER" for i
  proof -
    have i: "i < 512" "i \<noteq> 511" using that by (simp_all add: PML4_HIGHER_def)
    then have "ent ?r i \<noteq> ent ?r 511" using ent_eq[OF f(3) f(3), of i 511] by auto
    then show ?thesis using in_frame[OF f(3) f(3) i(1)] by (simp add: s'_def Let_def zero_page_def)
  qed
  have T: "tab_at s' ?r p = None" if "upath p" "p \<noteq> []" for p
    using that z[of "hd p"] by (cases p) (simp_all add: upath_def step_at_def)
  have tab: "upath p \<Longrightarrow> tab_at s' ?r p = Some a \<Longrightarrow> p = [] \<and> a = ?r" for p a
    using T[of p] by (cases "p = []") auto
  have "wf_pt s' ?r"
    unfolding wf_pt_def
  proof (intro conjI allI impI)
    show "pmm_inv (v_pmm s')" "0 \<notin> free_set (v_pmm s')"
      using pmm_inv_alloc_at[OF assms(1) f(1)] assms(2) by (simp_all add: pm)
    show "tframe s' a" if "upath p" "tab_at s' ?r p = Some a" for p a
      using tab[OF that] f(2,3) unfolding tframe_def pm by auto
    show "p = q" if "upath p" "upath q" "tab_at s' ?r p = Some a" "tab_at s' ?r q = Some a" for p q a
      using tab that by blast
    fix p i a assume p: "upath (p @ [i])" "tab_at s' ?r p = Some a"
    then have "p = [] \<and> a = ?r" using tab upath_prefix by blast
    then show "\<not> bit (ptw s' (ent a i)) 7" "bit (ptw s' (ent a i)) 0 \<Longrightarrow> bit (ptw s' (ent a i)) 2"
      using z[of i] p(1) by (auto simp: upath_def)
  qed
  moreover have zero: "pte_val s' ?r va = 0" if "user_va va" for va
    using T[OF upath_vpath[OF that]] by (simp add: pte_val_def vpath_def)
  ultimately have "wf_as s' ?r" by (simp add: wf_as_def)
  with d pm zero f(1) T show ?thesis by blast
qed (use f in simp)

text \<open>A pool of sixteen frames above 16 MB, and an address space with one page mapped.\<close>

definition vm_boot :: vm where
  "vm_boot = \<lparr>v_pmm = init_memory 0x1000000 0 [\<lparr>mb_base = 0x1000000, mb_len = 0x10000, mb_type = 1\<rparr>] pmm_bss,
     ptw = (\<lambda>_. 0), pbytes = ucast, kernel_pml4 = 0, current_pml4 = 0, kernel_pml4_phys = 0,
     vm_demand_faults = 0, vm_cow_faults = 0, tlb_log = []\<rparr>"

lemma vm_boot_pmm:
  "pmm_inv (v_pmm vm_boot)" "free_set (v_pmm vm_boot) = {4096..<4112}"
proof -
  let ?r = "\<lparr>mb_base = 0x1000000, mb_len = 0x10000, mb_type = 1\<rparr>"
  show "pmm_inv (v_pmm vm_boot)" unfolding vm_boot_def
    by simp (intro pmm_reach_pmm_inv pmm_reach.boot, simp_all add: region_ok_def pmm_bss_def)
  have f: "frame_in ?r i \<longleftrightarrow> 4096 \<le> i \<and> i < 4112" for i
    by (simp add: frame_in_def) arith
  have "free_set (v_pmm vm_boot) = {i. i < MAX_PAGES \<and> 256 \<le> i \<and> 4096 \<le> i \<and> i < 4112}"
    using init_memory_free_set[where mm = "[?r]" and ke = "0x1000000" and ms = 0 and ?s0.0 = pmm_bss]
    by (auto simp: vm_boot_def f region_ok_def kernel_end_page_def)
  then show "free_set (v_pmm vm_boot) = {4096..<4112}"
    unfolding MAX_PAGES_def by (simp only: set_eq_iff mem_Collect_eq atLeastLessThan_iff) linarith
qed

lemma grows_data_frame:
  assumes "grows r s t" and "wf_pt s r" and "data_frame s r g"
  shows "data_frame t r g"
proof -
  have gm: "g < MAX_PAGES" by (rule data_frame_max[OF assms(2,3)])
  have "tab_at t r p \<noteq> Some (frame_addr g)" if "upath p" for p
  proof
    assume "tab_at t r p = Some (frame_addr g)"
    with assms(1) that consider "tab_at s r p = Some (frame_addr g)"
      | f where "f \<in> free_set (v_pmm s)" "frame_addr g = frame_addr f" unfolding grows_def by blast
    then show False
    proof cases
      case 1
      then show ?thesis using assms(3) that by (simp add: data_frame_def)
    next
      case 2
      have "f < MAX_PAGES" using 2(1) pmm_invD(1)[OF wf_ptD(1)[OF assms(2)]] by (simp add: free_set_def)
      with 2 frame_addr_inj[OF gm] assms(3) show ?thesis by (auto simp: data_frame_def)
    qed
  qed
  then show ?thesis using assms(1,3) by (auto simp: data_frame_def grows_def)
qed

text \<open>Mapping a data frame that is not mapped yet at an address without a page.\<close>

lemma map_wf_as:
  assumes as: "wf_as s r" and v: "user_va va" and fl: "bit flags 2" and g: "data_frame s r g"
    and fresh: "\<And>vb. user_va vb \<Longrightarrow> bit (pte_val s r vb) 0 \<Longrightarrow> pte_val s r vb AND PTE_ADDR_MASK \<noteq> frame_addr g"
    and m: "map_pml4 r (frame_addr g) va flags s = Ret s'"
  shows "wf_as s' r"
proof -
  have wf: "wf_pt s r" using as by (simp add: wf_as_def)
  let ?e = "frame_addr g OR PAGE_PRESENT OR PAGE_WRITABLE OR PAGE_USER OR (flags AND PAGE_NX)"
  from map_pml4_user[OF wf v fl, of "frame_addr g"] m obtain t where T: "wf_pt s' r" "grows r s t" "v_pmm s' = v_pmm t"
    "\<And>p. upath p \<Longrightarrow> tab_at s' r p = tab_at t r p"
    "\<And>vb. user_va vb \<Longrightarrow> \<not> same_page vb va \<Longrightarrow> pte_val s' r vb = pte_val s r vb"
    "pte_val s' r va = pte_val s r va \<or> pte_val s' r va = ?e" by auto
  have df: "data_frame s' r h" if "data_frame s r h" for h
    using grows_data_frame[OF T(2) wf that] T(3,4) by (simp add: data_frame_def)
  have fw: "frame_word (frame_addr g)" by (rule frame_word_addr[OF data_frame_max[OF wf g]])
  have "?e AND PTE_ADDR_MASK = frame_addr g" by (rule leaf_frame[OF fw])
  then have new: "pte_val s' r vb = pte_val s r vb \<or> (same_page vb va \<and> pte_val s' r vb AND PTE_ADDR_MASK = frame_addr g)"
    if "user_va vb" for vb
    using T(5)[OF that] T(6) pte_same_page[of vb va s' r] pte_same_page[of vb va s r] by (cases "same_page vb va") auto
  have sp: "same_page a va \<Longrightarrow> same_page b va \<Longrightarrow> same_page a b" for a b by (simp add: same_page_def)
  show ?thesis
    unfolding wf_as_def
  proof (intro conjI allI impI)
    show "wf_pt s' r" by (rule T(1))
    show "\<exists>h. data_frame s' r h \<and> pte_val s' r vb AND PTE_ADDR_MASK = frame_addr h"
      if "user_va vb" "bit (pte_val s' r vb) 0" for vb
      using new[OF that(1)] that as df g unfolding wf_as_def by metis
    fix a b assume ab: "user_va a" "user_va b" "bit (pte_val s' r a) 0" "bit (pte_val s' r b) 0"
      "pte_val s' r a AND PTE_ADDR_MASK = pte_val s' r b AND PTE_ADDR_MASK"
    consider "pte_val s' r a = pte_val s r a" "pte_val s' r b = pte_val s r b"
      | "same_page a va" "same_page b va"
      | "pte_val s' r a = pte_val s r a" "pte_val s' r b AND PTE_ADDR_MASK = frame_addr g"
      | "pte_val s' r b = pte_val s r b" "pte_val s' r a AND PTE_ADDR_MASK = frame_addr g"
      using new[OF ab(1)] new[OF ab(2)] by blast
    then show "same_page a b"
    proof cases
      case 1
      then show ?thesis using as ab unfolding wf_as_def by simp
    next
      case 2
      then show ?thesis by (rule sp)
    next
      case 3
      then show ?thesis using fresh[of a] ab by simp
    next
      case 4
      then show ?thesis using fresh[of b] ab by simp
    qed
  qed
qed

text \<open>An address space with the data frame 4096 mapped at 4 MB.\<close>

lemma vm_example:
  "\<exists>s r. wf_as s r \<and> 4 \<le> card (free_set (v_pmm s)) \<and> data_frame s r 4096 \<and> page_refcount (v_pmm s) 4096 = 1 \<and>
     page_pinned (v_pmm s) 4096 = 0 \<and>
     pte_val s r 0x400000 = frame_addr 4096 OR PAGE_PRESENT OR PAGE_WRITABLE OR PAGE_USER OR (7 AND PAGE_NX)"
proof -
  let ?m = "v_pmm vm_boot" and ?s = "vm_boot\<lparr>v_pmm := alloc_at 4096 (v_pmm vm_boot)\<rparr>"
  have in4: "4096 \<in> free_set ?m" by (simp add: vm_boot_pmm)
  have inv: "pmm_inv (v_pmm ?s)" using pmm_inv_alloc_at[OF vm_boot_pmm(1) in4] by simp
  have fs: "free_set (v_pmm ?s) = {4097..<4112}" by (simp add: vm_boot_pmm(2)) (auto simp: set_eq_iff)
  have ne: "free_set (v_pmm ?s) \<noteq> {}" "0 \<notin> free_set (v_pmm ?s)" unfolding fs by simp_all
  from alloc_page_directory_wf[OF inv ne(2,1)] obtain f u where u: "f \<in> free_set (v_pmm ?s)" "wf_as u (frame_addr f)"
    "v_pmm u = alloc_at f (v_pmm ?s)" "\<forall>va. user_va va \<longrightarrow> pte_val u (frame_addr f) va = 0"
    "\<forall>p. upath p \<longrightarrow> p \<noteq> [] \<longrightarrow> tab_at u (frame_addr f) p = None" by blast
  let ?r = "frame_addr f"
  have wf: "wf_pt u ?r" using u(2) by (simp add: wf_as_def)
  have f: "f \<noteq> 4096" "f < MAX_PAGES" "0 < f" using u(1) unfolding fs by (auto simp: MAX_PAGES_def)
  have df: "data_frame u ?r 4096"
  proof -
    have "4096 < unat (total_pages ?m)" using in4 by (simp add: free_set_def)
    moreover have "tab_at u ?r p \<noteq> Some (frame_addr 4096)" if p: "upath p" for p
      using u(5) p frame_addr_inj[OF f(2), of 4096] f(1) by (cases "p = []") (auto simp: MAX_PAGES_def)
    ultimately show ?thesis using f(1) by (simp add: data_frame_def u(3) fs)
  qed
  have va: "user_va 0x400000" by (rule user_range_va) (simp add: USER_SPACE_END_def)
  have fl: "bit (7 :: u64) 2" by (simp add: bit_iff_odd)
  have card: "card (free_set (v_pmm u)) = 14" using u(1) unfolding u(3) free_set_alloc_at[of f] fs by simp
  from map_pml4_user[OF wf va fl, of "frame_addr 4096"] card obtain s' t where
    m: "map_pml4 ?r (frame_addr 4096) 0x400000 7 u = Ret s'" and G: "grows ?r u t" and s': "v_pmm s' = v_pmm t"
      "card (free_set (v_pmm u)) \<le> card (free_set (v_pmm t)) + 3" "\<forall>p. upath p \<longrightarrow> tab_at s' ?r p = tab_at t ?r p"
      "pte_val s' ?r 0x400000 = frame_addr 4096 OR PAGE_PRESENT OR PAGE_WRITABLE OR PAGE_USER OR (7 AND PAGE_NX)"
    by auto
  have "wf_as s' ?r" by (rule map_wf_as[OF u(2) va fl df _ m]) (simp add: u(4))
  moreover have "data_frame s' ?r 4096"
    using grows_data_frame[OF G wf df] s'(1,3) by (simp add: data_frame_def)
  moreover have "page_refcount (v_pmm s') 4096 = 1" "page_pinned (v_pmm s') 4096 = 0"
    using G df f(1) unfolding s'(1) by (auto simp: grows_def data_frame_def u(3) vm_boot_def pmm_bss_def)
  ultimately show ?thesis using s' card by (intro exI[of _ s'] exI[of _ ?r]) auto
qed

text \<open>The same page shared copy-on-write with a second holder of its frame.\<close>

lemma vm_example_cow:
  "\<exists>s r. wf_pt s r \<and> free_set (v_pmm s) \<noteq> {} \<and> data_frame s r 4096 \<and> page_refcount (v_pmm s) 4096 = 2 \<and>
     pte_val s r 0x400000 = frame_addr 4096 OR (PAGE_PRESENT OR PAGE_USER OR PTE_COW)"
proof -
  obtain s r where s: "wf_as s r" "4 \<le> card (free_set (v_pmm s))" "data_frame s r 4096" "page_refcount (v_pmm s) 4096 = 1"
    and e: "pte_val s r 0x400000 = frame_addr 4096 OR PAGE_PRESENT OR PAGE_WRITABLE OR PAGE_USER OR (7 AND PAGE_NX)"
    using vm_example by blast
  have wf: "wf_pt s r" using s(1) by (simp add: wf_as_def)
  have va: "user_va 0x400000" by (rule user_range_va) (simp add: USER_SPACE_END_def)
  have "bit (pte_val s r 0x400000) 0" unfolding e by (simp add: bit_or_iff)
  from pte_present_tab[OF this] obtain t where t: "tab_at s r (vpath 0x400000) = Some t" .
  let ?e = "frame_addr 4096 OR (PAGE_PRESENT OR PAGE_USER OR PTE_COW)"
  let ?u = "set_ptw (ent t (pt_idx 3 0x400000)) ?e s"
  let ?w = "?u\<lparr>v_pmm := page_incref (frame_addr 4096) (v_pmm s)\<rparr>"
  note L = leaf_write[OF wf va t refl[of ?u]]
  have idx: "pidx (frame_addr 4096) = 4096" by (rule frame_addr_idx(1)) (simp add: MAX_PAGES_def)
  have pt: "ptw ?w = ptw ?u" by simp
  have fs: "free_set (v_pmm ?w) = free_set (v_pmm s)" by (simp add: page_incref_def)
  have "pmm_inv (page_incref (frame_addr 4096) (v_pmm s))"
    using pmm_inv_incref[OF wf_ptD(1)[OF wf]] idx s(3) by (simp add: data_frame_def)
  then have "wf_pt ?w r" using fs by (intro wf_pt_pmm[OF L(1) pt, of "{}"]) simp_all
  moreover have "data_frame ?w r 4096"
    using s(3) L(2) fs unfolding data_frame_def tab_at_ptw[OF pt] by (simp add: page_incref_def)
  moreover have "page_idx (frame_addr 4096) < total_pages (v_pmm s)"
    using s(3) idx by (simp add: data_frame_def word_less_nat_alt)
  then have "page_refcount (v_pmm ?w) 4096 = 2" using idx s(4) by (simp add: page_incref_def not_le)
  moreover have "pte_val ?w r 0x400000 = ?e" using L(3) pte_val_ptw[OF pt] by simp
  ultimately show ?thesis using fs s(2) by (intro exI[of _ ?w] exI[of _ r]) auto
qed

section \<open>Properties\<close>

text \<open>C12: Mapping a page into a well-formed address space never panics and keeps it well formed.
  The page gets exactly the requested frame with the user and no-execute bits asked for, and no
  other user page changes; when it replaces a live translation the invalidation is broadcast to
  every core. Nothing is mapped only when the pool had at most three frames left and ran empty.\<close>

theorem map_page_dir_correct:
  assumes "wf_pt s r" and "va < USER_SPACE_END" and "has flags PAGE_USER"
  shows "\<exists>s'. map_page_dir r phys va flags s = Ret s' \<and> wf_pt s' r \<and>
    (\<forall>vb < USER_SPACE_END. unat vb div 4096 \<noteq> unat va div 4096 \<longrightarrow> pte_val s' r vb = pte_val s r vb) \<and>
    (card (free_set (v_pmm s)) \<le> 3 \<and> free_set (v_pmm s') = {} \<and> pte_val s' r va = pte_val s r va \<or>
     pte_val s' r va = phys OR PAGE_PRESENT OR PAGE_WRITABLE OR PAGE_USER OR (flags AND PAGE_NX) \<and>
       tlb_log s' = tlb_log s @ [if has (pte_val s r va) PAGE_PRESENT then Shootdown va else Invlpg va])"
proof -
  have "bit flags 2" using assms(3) by simp
  from map_pml4_user[OF assms(1) user_range_va[OF assms(2)] this, of phys] show ?thesis
    using user_range_va same_page_iff[OF _ assms(2)] unfolding map_page_dir_def by (simp only: has_iff) blast
qed

theorem map_page_dir_correct_witness:
  "\<exists>s r s'. wf_pt s r \<and> map_page_dir r 0x5000 0x401000 7 s = Ret s' \<and> wf_pt s' r \<and>
     pte_val s' r 0x401000 = 0x5007 \<and> pte_val s' r 0x400000 = pte_val s r 0x400000"
proof -
  obtain s r where s: "wf_as s r" "4 \<le> card (free_set (v_pmm s))" using vm_example by blast
  then have wf: "wf_pt s r" by (simp add: wf_as_def)
  have "bit (7 :: u64) 2" by (simp add: bit_iff_odd)
  then have "has (7 :: u64) PAGE_USER" by (simp only: has_iff)
  from map_page_dir_correct[OF wf _ this, of "0x401000" "0x5000"] s(2) obtain s' where
    m: "map_page_dir r 0x5000 0x401000 7 s = Ret s'" "wf_pt s' r"
      "\<forall>vb < USER_SPACE_END. unat vb div 4096 \<noteq> unat (0x401000 :: u64) div 4096 \<longrightarrow> pte_val s' r vb = pte_val s r vb"
      "pte_val s' r 0x401000 = 0x5000 OR PAGE_PRESENT OR PAGE_WRITABLE OR PAGE_USER OR (7 AND PAGE_NX)"
    by (auto simp: USER_SPACE_END_def)
  have "pte_val s' r 0x400000 = pte_val s r 0x400000" using m(3) by (simp add: USER_SPACE_END_def)
  with m wf show ?thesis by (intro exI[of _ s] exI[of _ r] exI[of _ s']) (simp add: page_flags)
qed

text \<open>C13: A write fault on a copy-on-write page of a shared frame gives the writer a private,
  writable copy: the new frame came from the pool and holds the same 4096 bytes, the shared frame
  keeps its bytes and loses one reference, no other page of the address space changes, and the
  replaced translation is broadcast.\<close>

theorem cow_fault_private_copy:
  assumes "wf_pt s r" and "va < USER_SPACE_END" and "has err 1" and "has err 2"
    and "has (pte_val s r va) PAGE_PRESENT" and "has (pte_val s r va) PTE_COW"
    and "pte_val s r va AND PTE_ADDR_MASK = frame_addr g" and "data_frame s r g"
    and "1 < page_refcount (v_pmm s) g" and "free_set (v_pmm s) \<noteq> {}"
  shows "\<exists>n s'. fault_pte r va err s = (True, s') \<and> n \<in> free_set (v_pmm s) \<and> wf_pt s' r \<and>
    pte_val s' r va = frame_addr n OR (PAGE_PRESENT OR PAGE_WRITABLE OR (pte_val s r va AND PAGE_USER) OR
      (pte_val s r va AND PAGE_NX)) \<and>
    (\<forall>vb < USER_SPACE_END. unat vb div 4096 \<noteq> unat va div 4096 \<longrightarrow> pte_val s' r vb = pte_val s r vb) \<and>
    (\<forall>i<4096. pbytes s' (frame_addr n + of_nat i) = pbytes s (frame_addr g + of_nat i)) \<and>
    (\<forall>x. \<not> (frame_addr n \<le> x \<and> x < frame_addr n + 4096) \<longrightarrow> pbytes s' x = pbytes s x) \<and>
    page_refcount (v_pmm s') g = page_refcount (v_pmm s) g - 1 \<and>
    tlb_log s' = tlb_log s @ [Shootdown va]"
proof -
  have b: "bit (pte_val s r va) 0" using assms(5) by simp
  from pte_present_tab[OF b] obtain t where t: "tab_at s r (vpath va) = Some t"
    "ptw s (ent t (pt_idx 3 va)) = pte_val s r va" .
  have f: "fault_pte r va err s = cow_fault (ent t (pt_idx 3 va)) va s"
    using t assms(3-6) by (simp add: fault_pte_def pte_lookup Let_def)
  from cow_fault_copy[OF assms(1) user_range_va[OF assms(2)] b assms(7-10) t(1)] show ?thesis
    using user_range_va same_page_iff[OF _ assms(2)] unfolding f by blast
qed

theorem cow_fault_private_copy_witness:
  "\<exists>s r s'. fault_pte r 0x400000 7 s = (True, s') \<and> pte_val s r 0x400000 AND PTE_ADDR_MASK = frame_addr 4096 \<and>
     pte_val s' r 0x400000 AND PTE_ADDR_MASK \<noteq> frame_addr 4096 \<and> page_refcount (v_pmm s') 4096 = 1"
proof -
  obtain s r where s: "wf_pt s r" "free_set (v_pmm s) \<noteq> {}" "data_frame s r 4096" "page_refcount (v_pmm s) 4096 = 2"
    and e: "pte_val s r 0x400000 = frame_addr 4096 OR (PAGE_PRESENT OR PAGE_USER OR PTE_COW)"
    using vm_example_cow by blast
  have b: "has (pte_val s r 0x400000) PAGE_PRESENT" "has (pte_val s r 0x400000) PTE_COW"
    unfolding e has_iff by (simp_all add: bit_or_iff)
  have fw: "frame_word (frame_addr 4096)" by (rule frame_word_addr) (simp add: MAX_PAGES_def)
  have fl: "bit (PAGE_PRESENT OR PAGE_USER OR PTE_COW) n \<Longrightarrow> n < 12 \<or> 52 \<le> n" for n by (auto simp: bit_or_iff)
  have m: "pte_val s r 0x400000 AND PTE_ADDR_MASK = frame_addr 4096"
    unfolding e by (rule frame_word_masks(1)[OF fw fl])
  have va: "(0x400000 :: u64) < USER_SPACE_END" by (simp add: USER_SPACE_END_def)
  from cow_fault_private_copy[OF s(1) va _ _ b m s(3) _ s(2), of 7] s(4) obtain n s' where
    f: "fault_pte r 0x400000 7 s = (True, s')" "n \<in> free_set (v_pmm s)"
      "pte_val s' r 0x400000 = frame_addr n OR (PAGE_PRESENT OR PAGE_WRITABLE OR
        (pte_val s r 0x400000 AND PAGE_USER) OR (pte_val s r 0x400000 AND PAGE_NX))"
      "page_refcount (v_pmm s') 4096 = 1" by auto
  have n: "n \<noteq> 4096" "n < MAX_PAGES"
    using f(2) s(3) pmm_invD(1)[OF wf_ptD(1)[OF s(1)]] by (auto simp: data_frame_def free_set_def)
  have "bit (PAGE_PRESENT OR PAGE_WRITABLE OR (pte_val s r 0x400000 AND PAGE_USER) OR (pte_val s r 0x400000 AND PAGE_NX)) k
      \<Longrightarrow> k < 12 \<or> 52 \<le> k" for k by (auto simp: bit_or_iff bit_and_iff)
  from frame_word_masks(1)[OF frame_word_addr[OF n(2)] this]
  have "pte_val s' r 0x400000 AND PTE_ADDR_MASK = frame_addr n" unfolding f(3) .
  then have "pte_val s' r 0x400000 AND PTE_ADDR_MASK \<noteq> frame_addr 4096"
    using n frame_addr_inj[OF n(2), of 4096] by (auto simp: MAX_PAGES_def)
  with f m n(1) show ?thesis by blast
qed

text \<open>C14: \<open>vm_protect_range\<close> over user pages returns, changes no frame and no page outside the
  range, and rewrites the present pages inside it: no-execute unless \<open>PROT_EXEC\<close> is asked for, and
  writable only if \<open>PROT_WRITE\<close> is asked for and the page is not copy-on-write, whose mark it
  keeps. So it never hands out write access to a frame that a fork still shares.\<close>

theorem vm_protect_range_keeps_cow:
  assumes "wf_pt s r" and "end \<le> USER_SPACE_END" and "4096 dvd unat start"
  shows "\<exists>s'. vm_protect_range r start end prot s = Some s' \<and> wf_pt s' r \<and> v_pmm s' = v_pmm s \<and> pbytes s' = pbytes s \<and>
    (\<forall>va < USER_SPACE_END. let e = pte_val s r va; e' = pte_val s' r va in
      if \<not> in_range start end va \<or> \<not> has e PAGE_PRESENT then e' = e
      else e' AND PTE_ADDR_MASK = e AND PTE_ADDR_MASK \<and> has e' PAGE_PRESENT \<and>
        (has e' PAGE_WRITABLE \<longleftrightarrow> prot AND 2 \<noteq> 0 \<and> \<not> has e PTE_COW) \<and>
        (has e' PTE_COW \<longleftrightarrow> has e PTE_COW) \<and> (has e' PAGE_NX \<longleftrightarrow> prot AND 4 = 0))"
proof -
  have addr: "prot_pte prot e AND PTE_ADDR_MASK = e AND PTE_ADDR_MASK" if "bit e 0" for e
    using that by (intro bit_word_eqI) (auto simp: bit_prot_pte bit_and_iff)
  from vm_protect_range_spec[OF assms] obtain s' where s': "vm_protect_range r start end prot s = Some s'"
    "wf_pt s' r" "v_pmm s' = v_pmm s" "pbytes s' = pbytes s"
    "\<forall>va < USER_SPACE_END. pte_val s' r va =
      (if in_range start end va then prot_pte prot (pte_val s r va) else pte_val s r va)" by blast
  have "let e = pte_val s r va; e' = pte_val s' r va in
      if \<not> in_range start end va \<or> \<not> has e PAGE_PRESENT then e' = e
      else e' AND PTE_ADDR_MASK = e AND PTE_ADDR_MASK \<and> has e' PAGE_PRESENT \<and>
        (has e' PAGE_WRITABLE \<longleftrightarrow> prot AND 2 \<noteq> 0 \<and> \<not> has e PTE_COW) \<and>
        (has e' PTE_COW \<longleftrightarrow> has e PTE_COW) \<and> (has e' PAGE_NX \<longleftrightarrow> prot AND 4 = 0)" if "va < USER_SPACE_END" for va
  proof (cases "in_range start end va \<and> bit (pte_val s r va) 0")
    case True
    then show ?thesis using s'(5) that addr unfolding Let_def has_iff by (simp add: bit_prot_pte)
  next
    case False
    then have "pte_val s' r va = pte_val s r va" using s'(5) that by (auto simp: prot_pte_def)
    with False show ?thesis unfolding Let_def has_iff by auto
  qed
  with s'(1-4) show ?thesis by blast
qed

theorem vm_protect_range_keeps_cow_witness:
  "\<exists>s r s'. vm_protect_range r 0x400000 0x401000 1 s = Some s' \<and> has (pte_val s r 0x400000) PAGE_WRITABLE \<and>
     \<not> has (pte_val s' r 0x400000) PAGE_WRITABLE"
proof -
  obtain s r where s: "wf_as s r" and e: "pte_val s r 0x400000 = frame_addr 4096 OR PAGE_PRESENT OR PAGE_WRITABLE OR PAGE_USER OR (7 AND PAGE_NX)"
    using vm_example by blast
  have wf: "wf_pt s r" using s by (simp add: wf_as_def)
  have b: "bit (pte_val s r 0x400000) 0" "bit (pte_val s r 0x400000) 1" unfolding e by (simp_all add: bit_or_iff)
  have r: "in_range 0x400000 0x401000 0x400000" by (simp add: in_range_def)
  have u: "(0x401000 :: u64) \<le> USER_SPACE_END" "4096 dvd unat (0x400000 :: u64)" "(0x400000 :: u64) < USER_SPACE_END"
    by (simp_all add: USER_SPACE_END_def)
  from vm_protect_range_keeps_cow[OF wf u(1,2), of 1] obtain s' where
    p: "vm_protect_range r 0x400000 0x401000 1 s = Some s'" and
    q: "\<forall>va < USER_SPACE_END. let e = pte_val s r va; e' = pte_val s' r va in
      if \<not> in_range 0x400000 0x401000 va \<or> \<not> has e PAGE_PRESENT then e' = e
      else e' AND PTE_ADDR_MASK = e AND PTE_ADDR_MASK \<and> has e' PAGE_PRESENT \<and>
        (has e' PAGE_WRITABLE \<longleftrightarrow> (1 :: u32) AND 2 \<noteq> 0 \<and> \<not> has e PTE_COW) \<and>
        (has e' PTE_COW \<longleftrightarrow> has e PTE_COW) \<and> (has e' PAGE_NX \<longleftrightarrow> (1 :: u32) AND 4 = 0)" by blast
  from q[rule_format, OF u(3)] b r have "\<not> bit (pte_val s' r 0x400000) 1" by (simp add: Let_def)
  with p b show ?thesis unfolding has_iff by blast
qed

text \<open>Freeing a range: \<open>vm_free_range\<close> over user pages returns, leaves the address space well formed, drops every
  present page of the range and no other, and gives every frame that only this address space held
  (one reference, not pinned) back to the pool.\<close>

theorem vm_free_range_releases:
  assumes "wf_as s r" and "end \<le> USER_SPACE_END" and "4096 dvd unat start"
  shows "\<exists>s'. vm_free_range r start end s = Some s' \<and> wf_as s' r \<and>
    (\<forall>va < USER_SPACE_END. if in_range start end va then \<not> has (pte_val s' r va) PAGE_PRESENT
       else pte_val s' r va = pte_val s r va) \<and>
    (\<forall>va < USER_SPACE_END. \<forall>g. in_range start end va \<longrightarrow> has (pte_val s r va) PAGE_PRESENT \<longrightarrow>
       pte_val s r va AND PTE_ADDR_MASK = frame_addr g \<longrightarrow> data_frame s r g \<longrightarrow>
       page_refcount (v_pmm s) g \<le> 1 \<longrightarrow> page_pinned (v_pmm s) g = 0 \<longrightarrow> g \<in> free_set (v_pmm s'))"
proof -
  from vm_free_range_spec[OF assms] obtain s' where s': "vm_free_range r start end s = Some s'" "wf_as s' r"
    "released r s s'" "\<forall>va < USER_SPACE_END. pte_val s' r va =
      (if in_range start end va then drop_pte (pte_val s r va) else pte_val s r va)" by blast
  have "g \<in> free_set (v_pmm s')" if "va < USER_SPACE_END" "in_range start end va" "bit (pte_val s r va) 0"
    "pte_val s r va AND PTE_ADDR_MASK = frame_addr g" "data_frame s r g" "page_refcount (v_pmm s) g \<le> 1"
    "page_pinned (v_pmm s) g = 0" for va g
  proof -
    have "pte_val s' r va \<noteq> pte_val s r va" using s'(4) that(1-3) by (auto simp: drop_pte_def)
    with s'(3) that user_range_va[OF that(1)] show ?thesis unfolding released_def data_frame_def by blast
  qed
  moreover have "\<not> bit (drop_pte e) 0" for e by (simp add: drop_pte_def)
  ultimately show ?thesis using s' unfolding has_iff by (intro exI[of _ s']) auto
qed

theorem vm_free_range_releases_witness:
  "\<exists>s r s'. has (pte_val s r 0x400000) PAGE_PRESENT \<and> vm_free_range r 0x400000 0x401000 s = Some s' \<and>
     \<not> has (pte_val s' r 0x400000) PAGE_PRESENT \<and> 4096 \<notin> free_set (v_pmm s) \<and> 4096 \<in> free_set (v_pmm s')"
proof -
  obtain s r where s: "wf_as s r" "data_frame s r 4096" "page_refcount (v_pmm s) 4096 = 1" "page_pinned (v_pmm s) 4096 = 0"
    and e: "pte_val s r 0x400000 = frame_addr 4096 OR PAGE_PRESENT OR PAGE_WRITABLE OR PAGE_USER OR (7 AND PAGE_NX)"
    using vm_example by blast
  have b: "has (pte_val s r 0x400000) PAGE_PRESENT" unfolding e has_iff by (simp add: bit_or_iff)
  have fw: "frame_word (frame_addr 4096)" by (rule frame_word_addr) (simp add: MAX_PAGES_def)
  have m: "pte_val s r 0x400000 AND PTE_ADDR_MASK = frame_addr 4096" unfolding e by (rule leaf_frame[OF fw])
  have u: "(0x401000 :: u64) \<le> USER_SPACE_END" "4096 dvd unat (0x400000 :: u64)" "(0x400000 :: u64) < USER_SPACE_END"
    "in_range 0x400000 0x401000 0x400000" by (simp_all add: USER_SPACE_END_def in_range_def)
  from vm_free_range_releases[OF s(1) u(1,2)] obtain s' where
    f: "vm_free_range r 0x400000 0x401000 s = Some s'" "\<not> has (pte_val s' r 0x400000) PAGE_PRESENT"
      "4096 \<in> free_set (v_pmm s')" using u(3,4) b m s(2-4) by (metis order_refl)
  with b s(2) show ?thesis unfolding data_frame_def by blast
qed

lemma vm_example_page: "\<exists>s r. wf_as s r \<and> (\<forall>va. unat va div 4096 = 1024 \<longrightarrow> user_v2p r va s \<noteq> 0)"
proof -
  obtain s r where s: "wf_as s r"
    and e: "pte_val s r 0x400000 = frame_addr 4096 OR PAGE_PRESENT OR PAGE_WRITABLE OR PAGE_USER OR (7 AND PAGE_NX)"
    using vm_example by blast
  have wf: "wf_pt s r" using s by (simp add: wf_as_def)
  have "user_v2p r va s \<noteq> 0" if va: "unat va div 4096 = 1024" for va
  proof -
    have "0x400000 \<le> unat va" "unat va < 0x401000" using va by arith+
    then have rg: "USER_SPACE_MIN \<le> va" "va < USER_SPACE_END"
      by (simp_all add: USER_SPACE_MIN_def USER_SPACE_END_def word_le_nat_alt word_less_nat_alt)
    have "same_page va 0x400000" using va rg same_page_iff[of va "0x400000"] by (simp add: USER_SPACE_END_def)
    then have pv: "pte_val s r va = frame_addr 4096 OR PAGE_PRESENT OR PAGE_WRITABLE OR PAGE_USER OR (7 AND PAGE_NX)"
      using pte_same_page e by metis
    have fw: "frame_word (frame_addr 4096)" by (rule frame_word_addr) (simp add: MAX_PAGES_def)
    have "pte_val s r va AND PTE_ADDR_MASK = frame_addr 4096" unfolding pv by (rule leaf_frame[OF fw])
    moreover have "frame_addr 4096 = 0x1000000" by (simp add: frame_addr_def)
    moreover have "bit (pte_val s r va) 0" "bit (pte_val s r va) 2" unfolding pv by (simp_all add: bit_or_iff)
    ultimately have p: "user_v2p r va s = 0x1000000 + (va AND 0xFFF)" using user_v2p_pte[OF wf rg] by simp
    have "unat (va AND 0xFFF) \<le> 0xFFF" using word_and_le1[of va "0xFFF"] by (simp add: word_le_nat_alt)
    then have "unat (0x1000000 + (va AND 0xFFF)) = 0x1000000 + unat (va AND 0xFFF)" by (simp add: unat_word_ariths)
    then have "unat (user_v2p r va s) \<noteq> 0" unfolding p by linarith
    then show ?thesis by auto
  qed
  with s show ?thesis by blast
qed

lemma copy_to_user_total:
  "(\<And>i. i < length bs \<Longrightarrow> user_v2p r (a + of_nat i) s \<noteq> 0) \<Longrightarrow> \<exists>s'. copy_to_user r a bs s = (0, s')"
proof (induction bs arbitrary: a s)
  case (Cons b bs)
  let ?t = "s\<lparr>pbytes := (pbytes s)(user_v2p r a s := b)\<rparr>"
  have "user_v2p r (a + 1 + of_nat i) ?t \<noteq> 0" if "i < length bs" for i
    using Cons.prems[of "Suc i"] that v2p_cong[of ?t s] by (simp add: algebra_simps)
  then obtain s' where "copy_to_user r (a + 1) bs ?t = (0, s')" using Cons.IH by blast
  then show ?case using Cons.prems[of 0] by (simp add: Let_def)
qed simp

text \<open>C15: What \<open>copy_to_user\<close> wrote, \<open>copy_from_user\<close> reads back; and it changes only bytes that the
  page tables of the calling process map for user mode at addresses of the destination, in the
  lower half: no kernel memory and no frame of another process that it does not share.\<close>

theorem copy_to_user_confined:
  assumes "wf_as s r" and "copy_to_user r a bs s = (res, s')" and "length bs < 2 ^ 64"
  shows "(res = 0 \<longrightarrow> copy_from_user r a (length bs) s' = (0, bs)) \<and> ptw s' = ptw s \<and> v_pmm s' = v_pmm s \<and>
    (\<forall>x. pbytes s' x \<noteq> pbytes s x \<longrightarrow>
      (\<exists>i < length bs. let va = a + of_nat i in USER_SPACE_MIN \<le> va \<and> va < USER_SPACE_END \<and>
         has (pte_val s r va) PAGE_PRESENT \<and> has (pte_val s r va) PAGE_USER \<and>
         x = (pte_val s r va AND PTE_ADDR_MASK) + (va AND 0xFFF)))"
proof -
  have wf: "wf_pt s r" using assms(1) by (simp add: wf_as_def)
  have "\<exists>i < length bs. let va = a + of_nat i in USER_SPACE_MIN \<le> va \<and> va < USER_SPACE_END \<and>
         has (pte_val s r va) PAGE_PRESENT \<and> has (pte_val s r va) PAGE_USER \<and>
         x = (pte_val s r va AND PTE_ADDR_MASK) + (va AND 0xFFF)" if ch: "pbytes s' x \<noteq> pbytes s x" for x
  proof -
    from copy_to_user_frame(4)[OF assms(2) ch] obtain i where i: "i < length bs"
      "user_v2p r (a + of_nat i) s = x" "x \<noteq> 0" by blast
    then have rg: "USER_SPACE_MIN \<le> a + of_nat i" "a + of_nat i < USER_SPACE_END"
      using v2p_user_range by blast+
    from user_v2p_pte[OF wf rg] i rg show ?thesis
      by (intro exI[of _ i]) (auto simp: Let_def split: if_splits)
  qed
  then show ?thesis using copy_roundtrip[OF assms(1) _ assms(3)] assms(2) copy_to_user_frame(1,2)[OF assms(2)] by auto
qed

theorem copy_to_user_confined_witness:
  "\<exists>s r s'. copy_to_user r 0x400010 [1, 2, 3] s = (0, s') \<and> copy_from_user r 0x400010 3 s' = (0, [1, 2, 3])"
proof -
  obtain s r where s: "wf_as s r" "\<And>va. unat va div 4096 = 1024 \<Longrightarrow> user_v2p r va s \<noteq> 0" using vm_example_page by blast
  have "user_v2p r (0x400010 + of_nat i) s \<noteq> 0" if "i < 3" for i
    using that unat_addr[of i] by (intro s(2)) (simp add: unat_word_ariths)
  then obtain s' where c: "copy_to_user r 0x400010 [1, 2, 3] s = (0, s')"
    using copy_to_user_total[of "[1, 2, 3]" r "0x400010" s] by auto
  with copy_to_user_confined[OF s(1) c] show ?thesis by (auto simp: numeral_3_eq_3)
qed

text \<open>C16: \<open>copy_to_user\<close> does not honour write protection. On a page that is read-only and
  copy-on-write, with its frame still shared by other address spaces, a one-byte copy succeeds,
  takes no private copy and stores the byte in the shared frame.\<close>

theorem copy_to_user_writes_shared_frame:
  assumes "wf_pt s r" and "USER_SPACE_MIN \<le> va" and "va < USER_SPACE_END"
    and "has (pte_val s r va) PAGE_PRESENT" and "has (pte_val s r va) PAGE_USER"
    and "\<not> has (pte_val s r va) PAGE_WRITABLE" and "has (pte_val s r va) PTE_COW"
    and "pte_val s r va AND PTE_ADDR_MASK = frame_addr g" and "data_frame s r g"
    and "1 < page_refcount (v_pmm s) g"
  shows "\<exists>s'. copy_to_user r va [b] s = (0, s') \<and> pbytes s' (frame_addr g + (va AND 0xFFF)) = b \<and>
    pte_val s' r va = pte_val s r va \<and> page_refcount (v_pmm s') g = page_refcount (v_pmm s) g"
proof -
  have b: "bit (pte_val s r va) 0 \<and> bit (pte_val s r va) 2" using assms(4,5) unfolding has_iff by simp
  then have p: "user_v2p r va s = frame_addr g + (va AND 0xFFF)"
    using user_v2p_pte[OF assms(1-3)] assms(8) by simp
  have "frame_addr g + (va AND 0xFFF) \<noteq> 0"
  proof -
    have gm: "g < MAX_PAGES" by (rule data_frame_max[OF assms(1,9)])
    have "v AND 0xFFF = take_bit 12 v" for v :: u64 by (simp add: take_bit_eq_mask mask_eq_exp_minus_1)
    then have "unat (va AND 0xFFF) < 4096" by (simp add: take_bit_eq_mod unat_mod)
    then have "unat (frame_addr g + (va AND 0xFFF)) = g * 4096 + unat (va AND 0xFFF)"
      using frame_addr_idx(3)[OF gm] gm by (simp add: unat_word_ariths MAX_PAGES_def)
    then show ?thesis using assms(9) by (auto simp: data_frame_def)
  qed
  then have c: "copy_to_user r va [b] s = (0, s\<lparr>pbytes := (pbytes s)(frame_addr g + (va AND 0xFFF) := b)\<rparr>)"
    using p by (simp add: Let_def)
  have "pte_val (s\<lparr>pbytes := (pbytes s)(frame_addr g + (va AND 0xFFF) := b)\<rparr>) r va = pte_val s r va"
    by (rule pte_val_ptw) simp
  with c show ?thesis by simp
qed

theorem copy_to_user_writes_shared_frame_witness:
  "\<exists>s r s'. page_refcount (v_pmm s) 4096 = 2 \<and> copy_to_user r 0x400000 [42] s = (0, s') \<and>
     pbytes s' (frame_addr 4096) = 42"
proof -
  obtain s r where s: "wf_pt s r" "data_frame s r 4096" "page_refcount (v_pmm s) 4096 = 2"
    and e: "pte_val s r 0x400000 = frame_addr 4096 OR (PAGE_PRESENT OR PAGE_USER OR PTE_COW)"
    using vm_example_cow by blast
  have fw: "frame_word (frame_addr 4096)" by (rule frame_word_addr) (simp add: MAX_PAGES_def)
  have "bit (PAGE_PRESENT OR PAGE_USER OR PTE_COW) n \<Longrightarrow> n < 12 \<or> 52 \<le> n" for n by (auto simp: bit_or_iff)
  from frame_word_masks(1)[OF fw this]
  have m: "pte_val s r 0x400000 AND PTE_ADDR_MASK = frame_addr 4096" unfolding e .
  have fl: "has (pte_val s r 0x400000) PAGE_PRESENT" "has (pte_val s r 0x400000) PAGE_USER"
    "\<not> has (pte_val s r 0x400000) PAGE_WRITABLE" "has (pte_val s r 0x400000) PTE_COW"
    using fw unfolding e has_iff by (auto simp: bit_or_iff frame_word_def)
  have rg: "USER_SPACE_MIN \<le> (0x400000 :: u64)" "(0x400000 :: u64) < USER_SPACE_END"
    by (simp_all add: USER_SPACE_MIN_def USER_SPACE_END_def)
  have "1 < page_refcount (v_pmm s) 4096" by (simp add: s(3))
  from copy_to_user_writes_shared_frame[OF s(1) rg fl m s(2) this, of 42] obtain s' where
    "copy_to_user r 0x400000 [42] s = (0, s')" "pbytes s' (frame_addr 4096 + (0x400000 AND 0xFFF)) = 42" by blast
  then show ?thesis using s(3) by (intro exI[of _ s] exI[of _ r] exI[of _ s']) (simp del: copy_to_user.simps)
qed

end
