(* ===== verification/Kernel_State.thy ===== *)
theory Kernel_State
  imports Kmalloc Paging
begin

text \<open>
  The state the process components share: \<open>process_t\<close> and its constants from
  \<open>src/kernel/kernel.h\<close>, the process table and the scheduler globals of \<open>src/kernel/process.c\<close>,
  the pipes of \<open>src/kernel/pipe.c\<close>, and the lookups every system call starts with. Processes are
  objects in a store indexed by their address, as the code links them by pointer; 0 is \<open>NULL\<close>.
  Threads of one group share their leader's tables, so this aliasing matters. The fields \<open>files\<close>,
  \<open>next\<close>, \<open>parent\<close> and \<open>children\<close> of \<open>process_t\<close> are not used by any operation and left out.
\<close>

section \<open>Constants\<close>

definition PROC_PARKED :: u32 where "PROC_PARKED = 0"
definition PROC_RUN :: u32 where "PROC_RUN = 1"
definition PROC_ZOMBIE :: u32 where "PROC_ZOMBIE = 2"
definition PROC_BLOCKED :: u32 where "PROC_BLOCKED = 3"
definition PROC_STOPPED :: u32 where "PROC_STOPPED = 4"

lemmas proc_states = PROC_PARKED_def PROC_RUN_def PROC_ZOMBIE_def PROC_BLOCKED_def PROC_STOPPED_def

definition MAX_PROCESSES :: nat where "MAX_PROCESSES = 512"
definition PROC_MAX_FDS :: nat where "PROC_MAX_FDS = 32"
definition PROC_MAX_VMAS :: nat where "PROC_MAX_VMAS = 16"
definition MAX_CPUS :: nat where "MAX_CPUS = 8"
definition NSIG :: nat where "NSIG = 32"
definition MAX_PIPES :: nat where "MAX_PIPES = 16"
definition PIPE_BUF_SIZE :: nat where "PIPE_BUF_SIZE = 4096"

definition UFD_PIPE_FLAG :: u32 where "UFD_PIPE_FLAG = 0x40000000"
definition UFD_SOCK_FLAG :: u32 where "UFD_SOCK_FLAG = 0x20000000"

definition UFD_PIPE_MAKE :: "nat \<Rightarrow> bool \<Rightarrow> u32" where
  "UFD_PIPE_MAKE i w = UFD_PIPE_FLAG OR push_bit 1 (of_nat i) OR (if w then 1 else 0)"

definition UFD_PIPE_ID :: "u32 \<Rightarrow> nat" where
  "UFD_PIPE_ID h = unat (drop_bit 1 (h AND 0x3FFFFFFF))"

definition UFD_PIPE_IS_WRITE :: "u32 \<Rightarrow> bool" where
  "UFD_PIPE_IS_WRITE h \<longleftrightarrow> h AND 1 \<noteq> 0"

definition UFD_SOCK_ID :: "u32 \<Rightarrow> nat" where
  "UFD_SOCK_ID h = unat (h AND 0xFFFF)"

section \<open>Objects\<close>

record vma =
  vma_start :: u64
  vma_end :: u64
  vma_prot :: u32
  vma_used :: bool
  vma_file_buf :: u64
  vma_file_size :: u32

record process =
  pid :: u32
  ppid :: u32
  uid :: u32
  euid :: u32
  gid :: u32
  egid :: u32
  comm :: string
  cmdline :: string
  page_directory :: u64
  stack :: u64
  kernel_stack :: u64
  state :: u32
  priority :: u32
  cpu_time :: u32
  start_time :: u32
  program_break :: u64
  heap_start :: u64
  sched_managed :: bool
  waiting_for :: u32
  blocked_in_kernel :: bool
  wake_tick :: u32
  futex_key :: u64
  tgid :: u32
  stop_sig :: u32
  stopped_reported :: bool
  sched_weight :: u32
  sched_quantum :: u32
  sched_cpu :: int
  exit_code :: int
  ufd_handle :: "u32 arr"
  ufd_offset :: "u32 arr"
  ufd_inuse :: "bool arr"
  sig_pending :: u32
  sig_mask :: u32
  sig_active :: u32
  sig_handlers :: "u64 arr"
  sig_trampoline :: u64
  sig_saved :: "u64 arr"
  alarm_tick :: u32
  mmap_vmas :: "vma arr"
  mmap_next :: u64
  cwd :: string
  tty_raw :: bool

definition zero_vma :: vma where
  "zero_vma = \<lparr>vma_start = 0, vma_end = 0, vma_prot = 0, vma_used = False, vma_file_buf = 0, vma_file_size = 0\<rparr>"

text \<open>A \<open>process_t\<close> cleared by \<open>memset\<close>.\<close>

definition zero_process :: process where
  "zero_process = \<lparr>pid = 0, ppid = 0, uid = 0, euid = 0, gid = 0, egid = 0, comm = [], cmdline = [], page_directory = 0, stack = 0, kernel_stack = 0,
     state = 0, priority = 0, cpu_time = 0, start_time = 0, program_break = 0, heap_start = 0, sched_managed = False, waiting_for = 0,
     blocked_in_kernel = False, wake_tick = 0, futex_key = 0, tgid = 0, stop_sig = 0,
     stopped_reported = False, sched_weight = 0, sched_quantum = 0, sched_cpu = 0, exit_code = 0,
     ufd_handle = (\<lambda>_. 0), ufd_offset = (\<lambda>_. 0), ufd_inuse = (\<lambda>_. False), sig_pending = 0,
     sig_mask = 0, sig_active = 0, sig_handlers = (\<lambda>_. 0), sig_trampoline = 0, sig_saved = (\<lambda>_. 0),
     alarm_tick = 0, mmap_vmas = (\<lambda>_. zero_vma), mmap_next = 0, cwd = [], tty_raw = False\<rparr>"

record pipe =
  pipe_used :: bool
  pipe_buf :: "u8 arr"
  pipe_head :: u32
  pipe_count :: u32
  read_refs :: int
  write_refs :: int
  reader_waiter :: u64

text \<open>Calls into the file system and the socket layer that closing a descriptor makes.\<close>

datatype io_call = Vfs_close u32 | Nsock_close nat

record kern =
  procs :: "u64 \<Rightarrow> process"
  ptable :: "u64 list"
  next_pid :: u64
  current_idx :: nat
  sched_enabled :: bool
  idle_proc :: u64
  tick_count :: u32
  cpu_number :: nat
  sched_cur :: "nat \<Rightarrow> u64"
  preempt_count :: "nat \<Rightarrow> int"
  idle_rsp :: "nat \<Rightarrow> u64"
  sched_scan :: "nat \<Rightarrow> nat"
  smp_user_balance :: bool
  cpu_count :: u32
  user_rr :: u32
  user_cr3 :: u64
  user_rsp :: u64
  saved_rsp :: u64
  next_rsp :: u64
  next_cr3 :: u64
  kernel_rsp :: u64
  tss_rsp0 :: u64
  sframe :: "(u64 arr) option"
  kstack_word :: "u64 \<Rightarrow> u64"
  g_foreground_pid :: u32
  pipes :: "pipe arr"
  kmm :: kmem
  kvm :: vm
  io_log :: "io_call list"

text \<open>Updating one process, and running a paging operation: the page allocator is one object.\<close>

definition upd :: "u64 \<Rightarrow> (process \<Rightarrow> process) \<Rightarrow> kern \<Rightarrow> kern" where
  "upd p f k = k\<lparr>procs := (procs k)(p := f (procs k p))\<rparr>"

definition vm_of :: "kern \<Rightarrow> vm" where
  "vm_of k = (kvm k)\<lparr>v_pmm := slab_pmm (km_slab (kmm k))\<rparr>"

definition put_vm :: "vm \<Rightarrow> kern \<Rightarrow> kern" where
  "put_vm v k = k\<lparr>kvm := v, kmm := (kmm k)\<lparr>km_slab := (km_slab (kmm k))\<lparr>slab_pmm := v_pmm v\<rparr>\<rparr>\<rparr>"

section \<open>Lookups\<close>

definition find_process :: "u64 \<Rightarrow> kern \<Rightarrow> u64" where
  "find_process i k =
     (case List.find (\<lambda>p. p \<noteq> 0 \<and> (ucast (pid (procs k p)) :: u64) = i) (ptable k) of None \<Rightarrow> 0 | Some p \<Rightarrow> p)"

definition get_current_process :: "kern \<Rightarrow> u64" where
  "get_current_process k =
     (if cpu_number k \<noteq> 0 then sched_cur k (cpu_number k)
      else if length (ptable k) > 0 \<and> current_idx k < length (ptable k) then ptable k ! current_idx k
      else 0)"

definition addr_space_shared :: "u64 \<Rightarrow> u64 \<Rightarrow> kern \<Rightarrow> bool" where
  "addr_space_shared pml4 except k \<longleftrightarrow> pml4 \<noteq> 0 \<and>
     (\<exists>p \<in> set (ptable k). p \<noteq> 0 \<and> p \<noteq> except \<and> page_directory (procs k p) = pml4)"

definition tg_leader :: "u64 \<Rightarrow> kern \<Rightarrow> u64" where
  "tg_leader p k =
     (if p = 0 \<or> tgid (procs k p) = 0 \<or> tgid (procs k p) = pid (procs k p) then p
      else let l = find_process (ucast (tgid (procs k p))) k in if l \<noteq> 0 then l else p)"

definition wake_waiters :: "u64 \<Rightarrow> kern \<Rightarrow> kern" where
  "wake_waiters child k =
     (if child = 0 \<or> ppid (procs k child) = 0 then k
      else
        (let parent = find_process (ucast (ppid (procs k child))) k in
         if parent \<noteq> 0 \<and> state (procs k parent) = PROC_BLOCKED \<and>
            (waiting_for (procs k parent) = pid (procs k child) \<or> waiting_for (procs k parent) = 0)
         then upd parent (\<lambda>q. q\<lparr>waiting_for := 0, state := PROC_RUN\<rparr>) k
         else k))"

section \<open>Facts\<close>

lemma upd_same [simp]: "procs (upd p f k) p = f (procs k p)"
  by (simp add: upd_def)

lemma upd_other [simp]: "q \<noteq> p \<Longrightarrow> procs (upd p f k) q = procs k q"
  by (simp add: upd_def)

lemma upd_fields [simp]:
  "ptable (upd p f k) = ptable k" "current_idx (upd p f k) = current_idx k" "pipes (upd p f k) = pipes k"
  "kmm (upd p f k) = kmm k" "kvm (upd p f k) = kvm k" "user_cr3 (upd p f k) = user_cr3 k"
  "user_rsp (upd p f k) = user_rsp k" "tick_count (upd p f k) = tick_count k" "cpu_number (upd p f k) = cpu_number k"
  "sched_cur (upd p f k) = sched_cur k" "sframe (upd p f k) = sframe k" "next_pid (upd p f k) = next_pid k"
  "sched_enabled (upd p f k) = sched_enabled k" "idle_proc (upd p f k) = idle_proc k" "io_log (upd p f k) = io_log k"
  "preempt_count (upd p f k) = preempt_count k" "idle_rsp (upd p f k) = idle_rsp k" "sched_scan (upd p f k) = sched_scan k"
  "next_rsp (upd p f k) = next_rsp k" "next_cr3 (upd p f k) = next_cr3 k" "saved_rsp (upd p f k) = saved_rsp k"
  "g_foreground_pid (upd p f k) = g_foreground_pid k" "kstack_word (upd p f k) = kstack_word k"
  by (simp_all add: upd_def)

lemma find_processD:
  assumes "find_process i k = p" and "p \<noteq> 0"
  shows "p \<in> set (ptable k)" "ucast (pid (procs k p)) = i"
  using assms by (auto simp: find_process_def find_Some_iff split: option.splits)

lemma find_process_0: "find_process i k = 0 \<Longrightarrow> p \<in> set (ptable k) \<Longrightarrow> p \<noteq> 0 \<Longrightarrow> ucast (pid (procs k p)) \<noteq> i"
  by (auto simp: find_process_def find_None_iff find_Some_iff split: option.splits)

lemma find_process_upd [simp]:
  "(\<And>q. pid (f q) = pid q) \<Longrightarrow> find_process i (upd p f k) = find_process i k"
proof -
  assume "\<And>q. pid (f q) = pid q"
  then have "pid (procs (upd p f k) q) = pid (procs k q)" for q by (simp add: upd_def)
  then show ?thesis by (simp add: find_process_def)
qed

section \<open>A concrete kernel\<close>

text \<open>The static state before the first process, with an allocator that has memory to give.\<close>

definition kern_example :: kern where
  "kern_example = \<lparr>procs = (\<lambda>_. zero_process), ptable = [], next_pid = 1, current_idx = 0, sched_enabled = False,
     idle_proc = 0, tick_count = 0, cpu_number = 0, sched_cur = (\<lambda>_. 0), preempt_count = (\<lambda>_. 0), idle_rsp = (\<lambda>_. 0), sched_scan = (\<lambda>_. 0), smp_user_balance = False, cpu_count = 1, user_rr = 0,
     user_cr3 = 0, user_rsp = 0, saved_rsp = 0, next_rsp = 0, next_cr3 = 0, kernel_rsp = 0, tss_rsp0 = 0,
     sframe = None, kstack_word = (\<lambda>_. 0), g_foreground_pid = 0,
     pipes = (\<lambda>_. \<lparr>pipe_used = False, pipe_buf = (\<lambda>_. 0), pipe_head = 0, pipe_count = 0,
       read_refs = 0, write_refs = 0, reader_waiter = 0\<rparr>),
     kmm = km_example,
     kvm = \<lparr>v_pmm = slab_pmm (km_slab km_example), ptw = (\<lambda>_. 0), pbytes = ucast, kernel_pml4 = 0, current_pml4 = 0,
       kernel_pml4_phys = 0, vm_demand_faults = 0, vm_cow_faults = 0, tlb_log = []\<rparr>,
     io_log = []\<rparr>"

end
