(* ===== verification/Signal.thy ===== *)
theory Signal
  imports Kernel_State Page_Tables
begin

text \<open>
  Signals for ring-3 processes, \<open>src/kernel/signal.c\<close>: posting, delivery on the system call return
  path and from CPU exceptions, the return from a handler, masks, alarms and job-control stops.
  A register frame is an array in the order \<open>isr_stubs.asm\<close> saves it. A handler entry rewrites
  the frame; a stop parks the process in the middle of the function, so what runs after the
  resumption is a definition of its own.
\<close>

section \<open>Constants\<close>

definition SIGKILL :: int where "SIGKILL = 9"
definition SIGALRM :: int where "SIGALRM = 14"
definition SIGCHLD :: int where "SIGCHLD = 17"
definition SIGCONT :: int where "SIGCONT = 18"
definition SIGSTOP :: int where "SIGSTOP = 19"
definition SIGTSTP :: int where "SIGTSTP = 20"
definition SIG_DFL :: u64 where "SIG_DFL = 0"
definition SIG_IGN :: u64 where "SIG_IGN = 1"

lemmas signums = SIGKILL_def SIGALRM_def SIGCHLD_def SIGCONT_def SIGSTOP_def SIGTSTP_def

definition sigbit :: "int \<Rightarrow> u32" where
  "sigbit sig = mask_bit (nat sig)"

definition uncatchable :: "int \<Rightarrow> bool" where
  "uncatchable sig \<longleftrightarrow> sig = SIGKILL \<or> sig = SIGSTOP"

definition default_is_ignore :: "int \<Rightarrow> bool" where
  "default_is_ignore sig \<longleftrightarrow> sig = SIGCHLD \<or> sig = SIGCONT"

section \<open>Posting\<close>

definition raise_on :: "int \<Rightarrow> process \<Rightarrow> process" where
  "raise_on sig q =
     (let q = (if sig = SIGCONT \<and> state q = PROC_STOPPED then q\<lparr>stop_sig := 0, state := PROC_RUN\<rparr> else q);
          q = q\<lparr>sig_pending := sig_pending q OR sigbit sig\<rparr>
      in if state q = PROC_BLOCKED then q\<lparr>waiting_for := 0, wake_tick := 0, state := PROC_RUN\<rparr> else q)"

definition signal_raise :: "u64 \<Rightarrow> int \<Rightarrow> kern \<Rightarrow> kern" where
  "signal_raise p sig k = (if p = 0 \<or> sig \<le> 0 \<or> sig \<ge> int NSIG then k else upd p (raise_on sig) k)"

definition signal_pending :: "u64 \<Rightarrow> kern \<Rightarrow> bool" where
  "signal_pending p k \<longleftrightarrow> p \<noteq> 0 \<and> sig_pending (procs k p) AND NOT (sig_mask (procs k p)) \<noteq> 0"

definition do_kill :: "int \<Rightarrow> int \<Rightarrow> kern \<Rightarrow> int \<times> kern" where
  "do_kill i sig k =
     (if sig < 0 \<or> sig \<ge> int NSIG then (- 1, k)
      else
        (let target = find_process (ucast (word_of_int i :: u32)) k in
         if target = 0 then (- 1, k)
         else if sig = 0 then (0, k)
         else (0, signal_raise target sig k)))"

definition signal_send_foreground :: "int \<Rightarrow> kern \<Rightarrow> kern" where
  "signal_send_foreground sig k =
     (if g_foreground_pid k = 0 then k
      else
        (let p = find_process (ucast (g_foreground_pid k)) k in
         if p \<noteq> 0 then signal_raise p sig k else k))"

section \<open>Job-control stops\<close>

text \<open>What a process does when it stops itself, and when it finds itself resumed.\<close>

definition park_stopped :: "u64 \<Rightarrow> int \<Rightarrow> kern \<Rightarrow> kern" where
  "park_stopped p sig k =
     upd p (\<lambda>q. q\<lparr>blocked_in_kernel := True\<rparr>)
       (wake_waiters p
         (upd p (\<lambda>q. q\<lparr>stop_sig := word_of_int sig, stopped_reported := False, state := PROC_STOPPED\<rparr>) k))"

definition unpark_stopped :: "u64 \<Rightarrow> kern \<Rightarrow> kern" where
  "unpark_stopped p k =
     upd p (\<lambda>q. q\<lparr>blocked_in_kernel := False, sig_pending := sig_pending q AND NOT (sigbit SIGCONT)\<rparr>) k"

definition clear_pending :: "u64 \<Rightarrow> int \<Rightarrow> kern \<Rightarrow> kern" where
  "clear_pending p sig k = upd p (\<lambda>q. q\<lparr>sig_pending := sig_pending q AND NOT (sigbit sig)\<rparr>) k"

text \<open>
  \<open>signal_check_stop\<close> up to the park: \<open>True\<close> when the process parked. The rest, run once its state is
  no longer \<open>PROC_STOPPED\<close>, is \<open>unpark_stopped\<close>, after which the call returns 1.
\<close>

definition signal_check_stop :: "u64 \<Rightarrow> kern \<Rightarrow> bool \<times> kern" where
  "signal_check_stop p k =
     (if p = 0 then (False, k)
      else
        (let stops = sig_pending (procs k p) AND (sigbit SIGTSTP OR sigbit SIGSTOP) in
         if stops = 0 then (False, k)
         else
           (let sig = (if stops AND sigbit SIGTSTP \<noteq> 0 then SIGTSTP else SIGSTOP)
            in (True, park_stopped p sig (clear_pending p sig k)))))"

section \<open>Dispositions\<close>

definition do_signal :: "int \<Rightarrow> u64 \<Rightarrow> u64 \<Rightarrow> kern \<Rightarrow> u64 \<times> kern" where
  "do_signal sig handler trampoline k =
     (if sig \<le> 0 \<or> sig \<ge> int NSIG \<or> uncatchable sig then (- 1, k)
      else
        (let p = get_current_process k in
         if p = 0 then (- 1, k)
         else
           (let prev = sig_handlers (procs k p) (nat sig);
                k = upd p (\<lambda>q. q\<lparr>sig_handlers := (sig_handlers q)(nat sig := handler)\<rparr>) k;
                k = (if trampoline \<noteq> 0 then upd p (\<lambda>q. q\<lparr>sig_trampoline := trampoline\<rparr>) k else k);
                k = (if handler = SIG_IGN then clear_pending p sig k else k)
            in (prev, k))))"

section \<open>Delivery\<close>

text \<open>The process carries on to ring 3, is parked in a stop, or is a zombie that never returns.\<close>

datatype delivery = Returns | Stops | Dies

definition signal_terminate :: "u64 \<Rightarrow> int \<Rightarrow> kern \<Rightarrow> kern" where
  "signal_terminate p sig k =
     wake_waiters p (upd p (\<lambda>q. q\<lparr>exit_code := 128 + sig, state := PROC_ZOMBIE\<rparr>) k)"

definition user_copy :: "u64 \<Rightarrow> u8 list \<Rightarrow> kern \<Rightarrow> int \<times> kern" where
  "user_copy dst bs k = (let (r, v) = copy_to_user (user_cr3 k) dst bs (vm_of k) in (r, put_vm v k))"

text \<open>The stack pointer a handler starts with: 128 bytes below, 16-aligned, one slot pushed.\<close>

definition handler_sp :: "u64 \<Rightarrow> u64" where
  "handler_sp rsp = ((rsp - 128) AND NOT 15) - 8"

definition lowest_signal :: "u32 \<Rightarrow> int" where
  "lowest_signal deliverable =
     (case List.find (\<lambda>s. deliverable AND mask_bit s \<noteq> 0) [1..<NSIG] of None \<Rightarrow> 0 | Some s \<Rightarrow> int s)"

definition enter_handler :: "u64 \<Rightarrow> int \<Rightarrow> kern \<Rightarrow> kern" where
  "enter_handler p sig k =
     upd p (\<lambda>q. q\<lparr>sig_active := sig_active q OR sigbit sig, sig_mask := sig_mask q OR sigbit sig\<rparr>) k"

definition save_context :: "u64 arr \<Rightarrow> u64 \<Rightarrow> u64 \<Rightarrow> u64 \<Rightarrow> u64 arr \<Rightarrow> u64 arr" where
  "save_context frame rflags rip rsp saved =
     (\<lambda>i. if i < 15 then frame i else if i = 15 then rflags else if i = 16 then rip else if i = 17 then rsp else saved i)"

text \<open>The last part of \<open>signal_dispatch\<close>: commit, save the context, push the trampoline, divert.\<close>

definition divert :: "u64 arr \<Rightarrow> u64 \<Rightarrow> int \<Rightarrow> u64 \<Rightarrow> kern \<Rightarrow> delivery \<times> u64 arr \<times> kern" where
  "divert frame p sig disp k =
     (let k = clear_pending p sig k;
          k = upd p (\<lambda>q. q\<lparr>sig_saved := save_context frame (frame 15) (frame 16) (user_rsp k) (sig_saved q)\<rparr>) k;
          sp = handler_sp (user_rsp k);
          (r, k) = user_copy sp (le_bytes 8 (sig_trampoline (procs k p))) k in
      if r \<noteq> 0 then (Dies, frame, signal_terminate p sig k)
      else (Returns, frame(9 := word_of_int sig, 16 := disp), enter_handler p sig (k\<lparr>user_rsp := sp\<rparr>)))"

definition signal_dispatch :: "u64 arr \<Rightarrow> kern \<Rightarrow> delivery \<times> u64 arr \<times> kern" where
  "signal_dispatch frame k =
     (let p = get_current_process k in
      if p = 0 \<or> page_directory (procs k p) = 0 then (Returns, frame, k)
      else let deliverable = sig_pending (procs k p) AND NOT (sig_mask (procs k p)) in
      if deliverable = 0 then (Returns, frame, k)
      else let sig = lowest_signal deliverable in
      if sig = 0 then (Returns, frame, k)
      else let disp = (if uncatchable sig then SIG_DFL else sig_handlers (procs k p) (nat sig)) in
      if disp = SIG_IGN then (Returns, frame, clear_pending p sig k)
      else if disp = SIG_DFL then
        (let k = clear_pending p sig k in
         if default_is_ignore sig then (Returns, frame, k)
         else if sig = SIGTSTP \<or> sig = SIGSTOP then (Stops, frame, park_stopped p sig k)
         else (Dies, frame, signal_terminate p sig k))
      else if sig_active (procs k p) \<noteq> 0 then (Returns, frame, k)
      else divert frame p sig disp k)"

text \<open>What \<open>signal_dispatch\<close> does after a stop, with the page directory and stack pointer saved before it.\<close>

definition signal_dispatch_resume :: "u64 \<Rightarrow> u64 \<Rightarrow> u64 \<Rightarrow> kern \<Rightarrow> kern" where
  "signal_dispatch_resume p s_cr3 s_rsp k = (unpark_stopped p k)\<lparr>user_cr3 := s_cr3, user_rsp := s_rsp\<rparr>"

text \<open>The exception frame has the instruction pointer at 17, the flags at 19, the stack pointer at 20.\<close>

definition signal_deliver_fault :: "u64 arr \<Rightarrow> int \<Rightarrow> kern \<Rightarrow> bool \<times> u64 arr \<times> kern" where
  "signal_deliver_fault f sig k =
     (let p = get_current_process k in
      if p = 0 \<or> page_directory (procs k p) = 0 then (False, f, k)
      else if sig \<le> 0 \<or> sig \<ge> int NSIG \<or> uncatchable sig then (False, f, k)
      else let disp = sig_handlers (procs k p) (nat sig) in
      if disp = SIG_DFL \<or> disp = SIG_IGN then (False, f, k)
      else if sig_active (procs k p) \<noteq> 0 then (False, f, k)
      else
        (let k = upd p (\<lambda>q. q\<lparr>sig_saved := save_context f (f 19) (f 17) (f 20) (sig_saved q)\<rparr>) k;
             sp = handler_sp (f 20);
             tramp = sig_trampoline (procs k p);
             k = k\<lparr>user_cr3 := page_directory (procs k p)\<rparr> in
         if tramp = 0 then (False, f, k)
         else
           (let (r, k) = user_copy sp (le_bytes 8 tramp) k in
            if r \<noteq> 0 then (False, f, k)
            else (True, f(9 := word_of_int sig, 17 := disp, 20 := sp), enter_handler p sig k))))"

definition do_sigreturn :: "kern \<Rightarrow> kern" where
  "do_sigreturn k =
     (let p = get_current_process k in
      if p = 0 \<or> sig_active (procs k p) = 0 then k
      else
        (case sframe k of
           None \<Rightarrow> k
         | Some frame \<Rightarrow>
             (let q = procs k p
              in upd p (\<lambda>q. q\<lparr>sig_mask := sig_mask q AND NOT (sig_active q), sig_active := 0\<rparr>)
                   (k\<lparr>sframe := Some (\<lambda>i. if i < 17 then sig_saved q i else frame i),
                      user_rsp := sig_saved q 17\<rparr>))))"

definition do_sigprocmask :: "int \<Rightarrow> u64 \<Rightarrow> u64 \<Rightarrow> kern \<Rightarrow> int \<times> kern" where
  "do_sigprocmask how sset oldset_ptr k =
     (let p = get_current_process k in
      if p = 0 then (- 1, k)
      else
        (let old = sig_mask (procs k p);
             (r, k) = (if oldset_ptr \<noteq> 0 then user_copy oldset_ptr (le_bytes 8 (ucast old :: u64)) k else (0, k)) in
         if r \<noteq> 0 then (- 1, k)
         else
           (let nm = (if how = 0 then old OR ucast sset
                      else if how = 1 then old AND NOT (ucast sset)
                      else if how = 2 then ucast sset else old);
                nm = nm AND NOT (sigbit SIGKILL OR sigbit SIGSTOP)
            in (0, upd p (\<lambda>q. q\<lparr>sig_mask := nm, sig_active := sig_active q AND nm\<rparr>) k))))"

definition do_alarm :: "u32 \<Rightarrow> kern \<Rightarrow> u32 \<times> kern" where
  "do_alarm seconds k =
     (let p = get_current_process k in
      if p = 0 then (0, k)
      else
        (let now = tick_count k; left = alarm_tick (procs k p) - now;
             remaining = (if alarm_tick (procs k p) \<noteq> 0 \<and> 0 <s left then (left + 999) div 1000 else 0);
             d = now + seconds * 1000
         in (remaining, upd p (\<lambda>q. q\<lparr>alarm_tick := (if seconds = 0 then 0 else if d \<noteq> 0 then d else 1)\<rparr>) k)))"

section \<open>Which signals can be blocked or caught\<close>

definition sig_ok :: "process \<Rightarrow> bool" where
  "sig_ok q \<longleftrightarrow> \<not> bit (sig_mask q) 9 \<and> \<not> bit (sig_mask q) 19 \<and> (\<forall>i < 32. bit (sig_active q) i \<longrightarrow> bit (sig_mask q) i) \<and>
     sig_handlers q 9 = SIG_DFL \<and> sig_handlers q 19 = SIG_DFL"

definition sig_part :: "process \<Rightarrow> u32 \<times> u32 \<times> u64 arr" where
  "sig_part q = (sig_mask q, sig_active q, sig_handlers q)"

lemma sig_ok_cong: "sig_part a = sig_part b \<Longrightarrow> sig_ok a = sig_ok b"
  by (simp add: sig_part_def sig_ok_def)

inductive sig_step :: "kern \<Rightarrow> kern \<Rightarrow> bool" where
  st_raise: "sig_step k (signal_raise p sig k)"
| st_kill: "do_kill i sig k = (r, k') \<Longrightarrow> sig_step k k'"
| st_fg: "sig_step k (signal_send_foreground sig k)"
| st_stop: "signal_check_stop p k = (b, k') \<Longrightarrow> sig_step k k'"
| st_unpark: "sig_step k (unpark_stopped p k)"
| st_signal: "do_signal sig h t k = (u, k') \<Longrightarrow> sig_step k k'"
| st_dispatch: "signal_dispatch fr k = (d, fr', k') \<Longrightarrow> sig_step k k'"
| st_resume: "sig_step k (signal_dispatch_resume p a b k)"
| st_fault: "signal_deliver_fault fr sig k = (x, fr', k') \<Longrightarrow> sig_step k k'"
| st_sigreturn: "sig_step k (do_sigreturn k)"
| st_procmask: "do_sigprocmask how sset oldset_ptr k = (r, k') \<Longrightarrow> sig_step k k'"
| st_alarm: "do_alarm seconds k = (left, k') \<Longrightarrow> sig_step k k'"
| st_other: "(\<And>p. sig_part (procs k' p) = sig_part (procs k p)) \<Longrightarrow> sig_step k k'"

definition sig_inv :: "kern \<Rightarrow> bool" where
  "sig_inv k \<longleftrightarrow> (\<forall>p. sig_ok (procs k p))"

lemma sig_inv_upd: "sig_inv k \<Longrightarrow> sig_ok (f (procs k p)) \<Longrightarrow> sig_inv (upd p f k)"
  by (simp add: sig_inv_def upd_def)

lemma sig_part_upd: "(\<And>q. sig_part (f q) = sig_part q) \<Longrightarrow> sig_part (procs (upd p f k) x) = sig_part (procs k x)"
  by (simp add: upd_def)

lemma sig_part_fields [simp]:
  "sig_part (q\<lparr>state := a\<rparr>) = sig_part q" "sig_part (q\<lparr>waiting_for := b\<rparr>) = sig_part q"
  "sig_part (q\<lparr>blocked_in_kernel := c\<rparr>) = sig_part q" "sig_part (q\<lparr>stop_sig := d\<rparr>) = sig_part q"
  "sig_part (q\<lparr>stopped_reported := c\<rparr>) = sig_part q" "sig_part (q\<lparr>sig_pending := d\<rparr>) = sig_part q"
  "sig_part (q\<lparr>wake_tick := d\<rparr>) = sig_part q" "sig_part (q\<lparr>exit_code := e\<rparr>) = sig_part q"
  "sig_part (q\<lparr>sig_saved := f\<rparr>) = sig_part q" "sig_part (q\<lparr>alarm_tick := d\<rparr>) = sig_part q"
  "sig_part (q\<lparr>sig_trampoline := g\<rparr>) = sig_part q"
  by (simp_all add: sig_part_def)

lemma sig_part_raise_on [simp]: "sig_part (raise_on sig q) = sig_part q"
  by (simp add: raise_on_def Let_def)

lemma sig_part_wake [simp]: "sig_part (procs (wake_waiters c k) x) = sig_part (procs k x)"
  by (simp add: wake_waiters_def Let_def sig_part_upd)

lemma sig_part_simps [simp]:
  "sig_part (procs (clear_pending p sig k) x) = sig_part (procs k x)"
  "sig_part (procs (unpark_stopped p k) x) = sig_part (procs k x)"
  "sig_part (procs (park_stopped p sig k) x) = sig_part (procs k x)"
  "sig_part (procs (signal_terminate p sig k) x) = sig_part (procs k x)"
  "sig_part (procs (signal_raise p sig k) x) = sig_part (procs k x)"
  "sig_part (procs (signal_dispatch_resume p a b k) x) = sig_part (procs k x)"
  by (simp_all add: clear_pending_def unpark_stopped_def park_stopped_def signal_terminate_def signal_raise_def
      signal_dispatch_resume_def sig_part_upd)

lemma procs_put_vm [simp]: "procs (put_vm v k) = procs k" "ptable (put_vm v k) = ptable k"
  "user_rsp (put_vm v k) = user_rsp k" "user_cr3 (put_vm v k) = user_cr3 k" "cpu_number (put_vm v k) = cpu_number k"
  "sched_cur (put_vm v k) = sched_cur k" "current_idx (put_vm v k) = current_idx k" "sframe (put_vm v k) = sframe k"
  by (simp_all add: put_vm_def)

lemma user_copy_procs: "user_copy a bs k = (r, k') \<Longrightarrow> procs k' = procs k"
  by (auto simp: user_copy_def split: prod.splits)

lemma sig_inv_cong: "sig_inv k \<Longrightarrow> (\<And>p. sig_part (procs k' p) = sig_part (procs k p)) \<Longrightarrow> sig_inv k'"
  unfolding sig_inv_def using sig_ok_cong by blast

lemma enter_handler_inv:
  assumes "sig_inv k" and "\<not> uncatchable sig" and "0 < sig"
  shows "sig_inv (enter_handler p sig k)"
proof -
  have "nat sig \<noteq> 9" "nat sig \<noteq> 19" using assms(2,3) by (auto simp: uncatchable_def signums)
  then show ?thesis unfolding enter_handler_def using assms(1)
    by (intro sig_inv_upd) (auto simp: sig_inv_def sig_ok_def bit_or_iff sigbit_def bit_mask_bit)
qed

lemma lowest_signal_range:
  assumes "lowest_signal d \<noteq> 0"
  shows "0 < lowest_signal d" "lowest_signal d < 32" "bit d (nat (lowest_signal d))"
    "0 < j \<Longrightarrow> j < nat (lowest_signal d) \<Longrightarrow> \<not> bit d j"
proof -
  obtain i where i: "List.find (\<lambda>s. d AND mask_bit s \<noteq> 0) [1..<NSIG] = Some i" "lowest_signal d = int i"
    using assms by (auto simp: lowest_signal_def split: option.splits)
  from i(1) obtain n where n: "n < length [1..<NSIG]" "d AND mask_bit i \<noteq> 0" "i = [1..<NSIG] ! n"
      "\<forall>j<n. \<not> d AND mask_bit ([1..<NSIG] ! j) \<noteq> 0" by (auto simp: find_Some_iff)
  have in1: "i = Suc n" "i < 32" using n by (simp_all add: NSIG_def)
  show "0 < lowest_signal d" "lowest_signal d < 32" "bit d (nat (lowest_signal d))"
    using in1(2) n(2) unfolding i(2) and_mask_bit_eq_0 by (simp_all add: in1(1)) (simp add: nat_add_distrib)
  assume j: "0 < j" "j < nat (lowest_signal d)"
  then have "j - 1 < n" "[1..<NSIG] ! (j - 1) = j" using in1 i(2) by (simp_all add: NSIG_def)
  with n(4) show "\<not> bit d j" by (metis and_mask_bit_eq_0)
qed

lemma vm_of_put_vm [simp]: "vm_of (put_vm v k) = v"
  by (simp add: vm_of_def put_vm_def)

lemma vm_of_simps [simp]:
  "vm_of (upd p f k) = vm_of k" "vm_of (k\<lparr>user_rsp := a\<rparr>) = vm_of k" "vm_of (clear_pending p sig k) = vm_of k"
  "vm_of (enter_handler p sig k) = vm_of k"
  by (simp_all add: vm_of_def upd_def clear_pending_def enter_handler_def)

lemma clear_pending_simps [simp]:
  "user_rsp (clear_pending p sig k) = user_rsp k" "user_cr3 (clear_pending p sig k) = user_cr3 k"
  "sig_active (procs (clear_pending p sig k) x) = sig_active (procs k x)"
  "sig_trampoline (procs (clear_pending p sig k) x) = sig_trampoline (procs k x)"
  "sig_mask (procs (clear_pending p sig k) x) = sig_mask (procs k x)"
  by (simp_all add: clear_pending_def upd_def)

definition saved_for :: "u64 arr \<Rightarrow> u64 \<Rightarrow> int \<Rightarrow> kern \<Rightarrow> kern" where
  "saved_for fr p sig k =
     upd p (\<lambda>q. q\<lparr>sig_saved := save_context fr (fr 15) (fr 16) (user_rsp k) (sig_saved q)\<rparr>) (clear_pending p sig k)"

lemma divert_eq:
  assumes "copy_to_user (user_cr3 k) (handler_sp (user_rsp k)) (le_bytes 8 (sig_trampoline (procs k p))) (vm_of k) = (r, v)"
  shows "divert fr p sig disp k =
    (if r \<noteq> 0 then (Dies, fr, signal_terminate p sig (put_vm v (saved_for fr p sig k)))
     else (Returns, fr(9 := word_of_int sig, 16 := disp),
       enter_handler p sig ((put_vm v (saved_for fr p sig k))\<lparr>user_rsp := handler_sp (user_rsp k)\<rparr>)))"
  using assms by (simp add: divert_def saved_for_def user_copy_def Let_def)

lemma sig_part_saved [simp]: "sig_part (procs (saved_for fr p sig k) x) = sig_part (procs k x)"
  by (simp add: saved_for_def sig_part_upd)

lemma sig_inv_dispatch:
  assumes "sig_inv k" and d: "signal_dispatch fr k = (d, fr', k')"
  shows "sig_inv k'"
proof -
  let ?p = "get_current_process k"
  let ?sig = "lowest_signal (sig_pending (procs k ?p) AND NOT (sig_mask (procs k ?p)))"
  have dv: "sig_inv (snd (snd (divert fr ?p ?sig disp k)))" if "\<not> uncatchable ?sig" "?sig \<noteq> 0" for disp
  proof -
    obtain r v where c: "copy_to_user (user_cr3 k) (handler_sp (user_rsp k)) (le_bytes 8 (sig_trampoline (procs k ?p))) (vm_of k) = (r, v)"
      by fastforce
    have i: "sig_inv ((put_vm v (saved_for fr ?p ?sig k))\<lparr>user_rsp := a\<rparr>)"
      "sig_inv (signal_terminate ?p ?sig (put_vm v (saved_for fr ?p ?sig k)))" for a
      by (rule sig_inv_cong[OF assms(1)], simp)+
    show ?thesis unfolding divert_eq[OF c]
      using i(2) enter_handler_inv[OF i(1) that(1) lowest_signal_range(1)[OF that(2)]] by simp
  qed
  show ?thesis
  proof (cases "uncatchable ?sig \<or> ?sig = 0")
    case True
    then show ?thesis using d assms(1) unfolding signal_dispatch_def
      by (auto simp: Let_def SIG_DFL_def SIG_IGN_def split: if_splits elim!: sig_inv_cong)
  next
    case False
    then show ?thesis using d assms(1) dv[of "sig_handlers (procs k ?p) (nat ?sig)"] unfolding signal_dispatch_def
      by (auto simp: Let_def split: if_splits elim!: sig_inv_cong)
  qed
qed

lemma sig_inv_fault:
  assumes "sig_inv k" and "signal_deliver_fault fr sig k = (d, fr', k')"
  shows "sig_inv k'"
proof -
  let ?p = "get_current_process k"
  let ?k = "(upd ?p (\<lambda>q. q\<lparr>sig_saved := save_context fr (fr 19) (fr 17) (fr 20) (sig_saved q)\<rparr>) k)
    \<lparr>user_cr3 := page_directory (procs k ?p)\<rparr>"
  obtain r k2 where c: "user_copy (handler_sp (fr 20)) (le_bytes 8 (sig_trampoline (procs k ?p))) ?k = (r, k2)"
    by fastforce
  have k1: "sig_part (procs ?k x) = sig_part (procs k x)" for x by (simp add: sig_part_upd)
  have k2: "sig_part (procs k2 x) = sig_part (procs k x)" for x
    using user_copy_procs[OF c] k1 by simp
  have i2: "sig_inv k2" by (rule sig_inv_cong[OF assms(1) k2])
  have i1: "sig_inv ?k" by (rule sig_inv_cong[OF assms(1) k1])
  have eh: "sig_inv (enter_handler ?p sig k2)" if "\<not> uncatchable sig" "\<not> sig \<le> 0"
    using that i2 by (intro enter_handler_inv) simp_all
  show ?thesis
    using assms(2) assms(1) c eh i2 i1 unfolding signal_deliver_fault_def
    by (auto simp: Let_def split: if_splits)
qed

lemma sig_inv_signal:
  assumes "sig_inv k" and "do_signal sig h t k = (u, k')"
  shows "sig_inv k'"
proof -
  let ?p = "get_current_process k"
  have "sig_inv (upd ?p (\<lambda>q. q\<lparr>sig_handlers := (sig_handlers q)(nat sig := h)\<rparr>) k)"
    if "\<not> uncatchable sig" "0 < sig"
    using assms(1) that by (intro sig_inv_upd) (auto simp: sig_inv_def sig_ok_def uncatchable_def signums)
  then show ?thesis using assms(1,2) unfolding do_signal_def
    by (auto simp: Let_def sig_part_upd split: if_splits elim!: sig_inv_cong)
qed

lemma sig_inv_sigreturn:
  assumes "sig_inv k"
  shows "sig_inv (do_sigreturn k)"
  using assms unfolding do_sigreturn_def Let_def
  by (auto split: option.split simp: sig_inv_def sig_ok_def bit_and_iff upd_def)

lemma sig_inv_procmask:
  assumes "sig_inv k" and "do_sigprocmask how sset oldset_ptr k = (r, k')"
  shows "sig_inv k'"
proof -
  let ?p = "get_current_process k"
  obtain r2 k2 where c: "(if oldset_ptr \<noteq> 0 then user_copy oldset_ptr (le_bytes 8 (ucast (sig_mask (procs k ?p)) :: u64)) k
      else (0, k)) = (r2, k2)" by fastforce
  then have "procs k2 = procs k" by (auto split: if_splits dest: user_copy_procs)
  then have i2: "sig_inv k2" using assms(1) by (simp add: sig_inv_def)
  have "sig_inv (upd ?p (\<lambda>q. q\<lparr>sig_mask := nm AND NOT (sigbit SIGKILL OR sigbit SIGSTOP),
      sig_active := sig_active q AND (nm AND NOT (sigbit SIGKILL OR sigbit SIGSTOP))\<rparr>) k2)" for nm
    using i2 by (intro sig_inv_upd)
      (auto simp: sig_inv_def sig_ok_def bit_and_iff bit_not_iff bit_or_iff sigbit_def bit_mask_bit signums)
  then show ?thesis using assms i2 c unfolding do_sigprocmask_def by (auto simp: Let_def split: if_splits)
qed

lemma sig_inv_step:
  assumes "sig_step k k'" and "sig_inv k"
  shows "sig_inv k'"
  using assms
proof cases
  case (st_kill i sig r)
  then show ?thesis using assms(2)
    by (auto simp: do_kill_def Let_def split: if_splits elim!: sig_inv_cong)
next
  case (st_fg sig)
  then show ?thesis using assms(2) by (auto simp: signal_send_foreground_def Let_def elim!: sig_inv_cong)
next
  case (st_stop p b)
  then show ?thesis using assms(2)
    by (auto simp: signal_check_stop_def Let_def split: if_splits elim!: sig_inv_cong)
next
  case (st_alarm secs left)
  then show ?thesis using assms(2)
    by (auto simp: do_alarm_def Let_def sig_part_upd split: if_splits elim!: sig_inv_cong)
next
  case (st_signal sig h t u)
  then show ?thesis using sig_inv_signal[OF assms(2)] by simp
next
  case (st_dispatch fr d fr')
  then show ?thesis using sig_inv_dispatch[OF assms(2)] by simp
next
  case (st_fault fr sig x fr')
  then show ?thesis using sig_inv_fault[OF assms(2)] by simp
next
  case (st_procmask how sset oldset_ptr r)
  then show ?thesis using sig_inv_procmask[OF assms(2)] by simp
next
  case st_sigreturn
  then show ?thesis using sig_inv_sigreturn[OF assms(2)] by simp
qed (use assms(2) in \<open>auto elim!: sig_inv_cong\<close>)

lemma sig_inv_steps: "sig_step\<^sup>*\<^sup>* k k' \<Longrightarrow> sig_inv k \<Longrightarrow> sig_inv k'"
  by (induction rule: rtranclp_induct) (auto intro: sig_inv_step)

section \<open>Entering and leaving a handler\<close>

lemma get_current_process_cong:
  "ptable k' = ptable k \<Longrightarrow> cpu_number k' = cpu_number k \<Longrightarrow> sched_cur k' = sched_cur k \<Longrightarrow>
   current_idx k' = current_idx k \<Longrightarrow> get_current_process k' = get_current_process k"
  by (simp add: get_current_process_def)

lemma handler_sp_aligned: "handler_sp rsp mod 16 = 8"
proof -
  have m: "(15 :: u64) = mask 4" by (simp add: mask_eq_exp_minus_1)
  have e: "w AND NOT 15 = push_bit 4 (drop_bit 4 w)" for w :: u64
    unfolding m by (intro bit_word_eqI) (auto simp: bit_simps)
  have "uint (push_bit 4 v - 8) mod 16 = 8" for v :: u64
  proof -
    have "(16 :: int) dvd 2 ^ 64" by (simp add: dvd_def)
    then have "uint (v * 16 - 8) mod 16 = (uint v * 16 - 8) mod 16"
      by (simp add: uint_word_ariths mod_mod_cancel mod_simps)
    also have "\<dots> = 8" by presburger
    finally show ?thesis by (simp add: push_bit_eq_mult)
  qed
  then have "uint (handler_sp rsp mod 16) = uint (8 :: u64)"
    unfolding handler_sp_def e by (simp add: uint_mod)
  then show ?thesis by (simp add: word_uint_eq_iff)
qed

lemma dispatch_enters:
  assumes d: "signal_dispatch fr k = (Returns, fr', k')" and p: "p = get_current_process k"
    and "sig_active (procs k p) = 0" and "sig_active (procs k' p) \<noteq> 0"
  obtains sig v where "sig = lowest_signal (sig_pending (procs k p) AND NOT (sig_mask (procs k p)))" "sig \<noteq> 0"
    "\<not> uncatchable sig" "p \<noteq> 0" "fr' = fr(9 := word_of_int sig, 16 := sig_handlers (procs k p) (nat sig))"
    "copy_to_user (user_cr3 k) (handler_sp (user_rsp k)) (le_bytes 8 (sig_trampoline (procs k p))) (vm_of k) = (0, v)"
    "k' = enter_handler p sig ((put_vm v (saved_for fr p sig k))\<lparr>user_rsp := handler_sp (user_rsp k)\<rparr>)"
proof -
  let ?sig = "lowest_signal (sig_pending (procs k p) AND NOT (sig_mask (procs k p)))"
  obtain r v where c: "copy_to_user (user_cr3 k) (handler_sp (user_rsp k)) (le_bytes 8 (sig_trampoline (procs k p))) (vm_of k) = (r, v)"
    by fastforce
  have "p \<noteq> 0 \<and> ?sig \<noteq> 0 \<and> \<not> uncatchable ?sig \<and> divert fr p ?sig (sig_handlers (procs k p) (nat ?sig)) k = (Returns, fr', k')"
    using d assms(3,4) unfolding signal_dispatch_def p[symmetric]
    by (auto simp: Let_def SIG_DFL_def SIG_IGN_def split: if_splits)
  then show ?thesis using that[of ?sig v] c unfolding divert_eq[OF c] by (auto split: if_splits)
qed

lemma save_context_17: "i < 17 \<Longrightarrow> save_context fr (fr 15) (fr 16) rsp saved i = fr i"
  by (cases "i = 15 \<or> i = 16") (auto simp: save_context_def)

lemma lowest_signalI:
  assumes "0 < s" "s < 32" "bit d s" "\<And>j. 0 < j \<Longrightarrow> j < s \<Longrightarrow> \<not> bit d j"
  shows "lowest_signal d = int s"
proof -
  have "lowest_signal d \<noteq> 0"
    using assms(1-3) by (auto simp: lowest_signal_def find_None_iff NSIG_def and_mask_bit_eq_0 split: option.splits dest!: find_Some_iff[THEN iffD1])
  note l = lowest_signal_range[OF this]
  have "\<not> nat (lowest_signal d) < s" using assms(4)[of "nat (lowest_signal d)"] l(1,3) by auto
  moreover have "\<not> s < nat (lowest_signal d)" using l(4)[OF assms(1)] assms(3) by auto
  ultimately show ?thesis using l(1) by simp
qed

lemma terminate_kills:
  "exit_code (procs (signal_terminate p sig k) p) = 128 + sig \<and> state (procs (signal_terminate p sig k) p) = PROC_ZOMBIE"
proof -
  let ?k = "upd p (\<lambda>q. q\<lparr>exit_code := 128 + sig, state := PROC_ZOMBIE\<rparr>) k"
  have "state (procs ?k p) \<noteq> PROC_BLOCKED" by (simp add: proc_states)
  then have "procs (wake_waiters p ?k) p = procs ?k p"
    unfolding wake_waiters_def Let_def by (auto simp: upd_def)
  then show ?thesis by (simp add: signal_terminate_def)
qed

section \<open>Properties\<close>

text \<open>C19: Running a handler is invisible to the interrupted code. When delivery diverts a process, it
  enters the handler installed for the lowest-numbered deliverable signal with that number as its
  argument, on a stack that is 8 modulo 16 and holds the trampoline's address where a \<open>ret\<close> finds
  it; and when the handler comes back through \<open>do_sigreturn\<close>, all seventeen saved registers, the
  user stack pointer and the signal mask are what they were before the signal.\<close>

theorem signal_handler_roundtrip:
  assumes d: "signal_dispatch fr k = (Returns, fr', k')" and p: "p = get_current_process k"
    and a: "sig_active (procs k p) = 0" "sig_active (procs k' p) \<noteq> 0"
    and wf: "wf_as (vm_of k) (user_cr3 k)"
    and r: "get_current_process k2 = p" "sframe k2 = Some f2" "sig_saved (procs k2 p) = sig_saved (procs k' p)"
      "sig_active (procs k2 p) = sig_active (procs k' p)" "sig_mask (procs k2 p) = sig_mask (procs k' p)"
  shows "(\<exists>sig. 0 < sig \<and> sig < 32 \<and> bit (sig_pending (procs k p)) (nat sig) \<and> \<not> bit (sig_mask (procs k p)) (nat sig) \<and>
      (\<forall>j. 0 < j \<and> j < nat sig \<longrightarrow> \<not> bit (sig_pending (procs k p) AND NOT (sig_mask (procs k p))) j) \<and>
      fr' 9 = word_of_int sig \<and> fr' 16 = sig_handlers (procs k p) (nat sig) \<and>
      \<not> bit (sig_pending (procs k' p)) (nat sig) \<and> bit (sig_mask (procs k' p)) (nat sig)) \<and>
    user_rsp k' mod 16 = 8 \<and>
    copy_from_user (user_cr3 k) (user_rsp k') 8 (vm_of k') = (0, le_bytes 8 (sig_trampoline (procs k p))) \<and>
    (\<exists>f3. sframe (do_sigreturn k2) = Some f3 \<and> (\<forall>i < 17. f3 i = fr i)) \<and>
    user_rsp (do_sigreturn k2) = user_rsp k \<and>
    sig_mask (procs (do_sigreturn k2) p) = sig_mask (procs k p) \<and> sig_active (procs (do_sigreturn k2) p) = 0"
proof -
  obtain sig v where s: "sig = lowest_signal (sig_pending (procs k p) AND NOT (sig_mask (procs k p)))" "sig \<noteq> 0"
    "\<not> uncatchable sig" "p \<noteq> 0" "fr' = fr(9 := word_of_int sig, 16 := sig_handlers (procs k p) (nat sig))"
    "copy_to_user (user_cr3 k) (handler_sp (user_rsp k)) (le_bytes 8 (sig_trampoline (procs k p))) (vm_of k) = (0, v)"
    "k' = enter_handler p sig ((put_vm v (saved_for fr p sig k))\<lparr>user_rsp := handler_sp (user_rsp k)\<rparr>)"
    using dispatch_enters[OF d p a] by metis
  note low = lowest_signal_range[OF s(2)[unfolded s(1)], folded s(1)]
  have m: "\<not> bit (sig_mask (procs k p)) (nat sig)" "bit (sig_pending (procs k p)) (nat sig)"
    using low(3) by (simp_all add: bit_and_iff bit_not_iff)
  have f: "sig_mask (procs k' p) = sig_mask (procs k p) OR sigbit sig" "sig_active (procs k' p) = sigbit sig"
      "sig_saved (procs k' p) = save_context fr (fr 15) (fr 16) (user_rsp k) (sig_saved (procs k p))"
      "sig_pending (procs k' p) = sig_pending (procs k p) AND NOT (sigbit sig)"
    using a(1) unfolding s(7) enter_handler_def saved_for_def by (simp_all add: clear_pending_def)
  have sb: "nat sig < 32" using low(2) by simp
  have g: "fr' 9 = word_of_int sig" "fr' 16 = sig_handlers (procs k p) (nat sig)"
      "\<not> bit (sig_pending (procs k' p)) (nat sig)" "bit (sig_mask (procs k' p)) (nat sig)"
    using s(5) sb unfolding f(1,4) by (simp_all add: sigbit_def bit_clear_mask bit_set_mask)
  have rsp: "user_rsp k' = handler_sp (user_rsp k)" "vm_of k' = v"
    unfolding s(7) by (simp_all add: enter_handler_def)
  have u: "copy_from_user (user_cr3 k) (user_rsp k') 8 (vm_of k') = (0, le_bytes 8 (sig_trampoline (procs k p)))"
    using copy_roundtrip[OF wf s(6)] unfolding rsp by simp
  have nz: "sigbit sig \<noteq> 0" using a(2) f(2) by simp
  have mk: "(sig_mask (procs k p) OR sigbit sig) AND NOT (sigbit sig) = sig_mask (procs k p)"
    using m(1) by (intro bit_word_eqI) (auto simp: bit_and_iff bit_or_iff bit_not_iff sigbit_def bit_mask_bit)
  have "\<exists>f3. sframe (do_sigreturn k2) = Some f3 \<and> (\<forall>i < 17. f3 i = fr i)"
    using r s(4) nz f by (simp add: do_sigreturn_def save_context_17)
  moreover have "user_rsp (do_sigreturn k2) = user_rsp k" "sig_active (procs (do_sigreturn k2) p) = 0"
      "sig_mask (procs (do_sigreturn k2) p) = sig_mask (procs k p)"
    using r s(4) nz f mk by (simp_all add: do_sigreturn_def save_context_def)
  ultimately show ?thesis using low m g u handler_sp_aligned[of "user_rsp k"] unfolding rsp(1)
    by (intro conjI exI[of _ sig]) auto
qed

text \<open>C20: Whatever a process does with \<open>do_signal\<close>, \<open>do_sigprocmask\<close>, handlers and the return from
  them, SIGKILL and SIGSTOP stay unblocked and at their default action, so when SIGKILL is the
  lowest-numbered deliverable signal the next return to ring 3 turns the process into a zombie with
  exit code 137.\<close>

theorem sigkill_cannot_be_blocked:
  assumes "sig_step\<^sup>*\<^sup>* k0 k" and "sig_inv k0"
    and p: "p = get_current_process k" "p \<noteq> 0" "page_directory (procs k p) \<noteq> 0"
    and kill: "bit (sig_pending (procs k p)) 9"
    and low: "\<And>j. 0 < j \<Longrightarrow> j < 9 \<Longrightarrow> \<not> bit (sig_pending (procs k p) AND NOT (sig_mask (procs k p))) j"
  shows "sig_inv k \<and> (\<exists>k'. signal_dispatch fr k = (Dies, fr, k') \<and>
    exit_code (procs k' p) = 137 \<and> state (procs k' p) = PROC_ZOMBIE)"
proof -
  have inv: "sig_inv k" by (rule sig_inv_steps[OF assms(1,2)])
  let ?d = "sig_pending (procs k p) AND NOT (sig_mask (procs k p))"
  have b: "bit ?d 9" using kill inv by (simp add: sig_inv_def sig_ok_def bit_and_iff bit_not_iff)
  then have "?d \<noteq> 0" by auto
  have l: "lowest_signal ?d = 9" using lowest_signalI[of 9 ?d] b low by simp
  have "signal_dispatch fr k = (Dies, fr, signal_terminate p 9 (clear_pending p 9 k))"
    using p \<open>?d \<noteq> 0\<close> l unfolding signal_dispatch_def
    by (simp add: Let_def uncatchable_def default_is_ignore_def signums SIG_DFL_def SIG_IGN_def)
  then show ?thesis using inv terminate_kills[of p 9 "clear_pending p 9 k"] by simp
qed

text \<open>Delivery looks at one signal only. While a handler is running, a pending signal with a smaller
  number than SIGKILL and a handler of its own stands in front of it: every return to ring 3 leaves
  the process and its frame unchanged, with SIGKILL still pending.\<close>

theorem sigkill_waits_behind_handled_signal:
  assumes p: "p = get_current_process k" "p \<noteq> 0" "page_directory (procs k p) \<noteq> 0"
    and s: "0 < s" "s < 9" "bit (sig_pending (procs k p)) s" "\<not> bit (sig_mask (procs k p)) s"
    and low: "\<And>j. 0 < j \<Longrightarrow> j < s \<Longrightarrow> \<not> bit (sig_pending (procs k p)) j"
    and h: "sig_handlers (procs k p) s \<notin> {SIG_DFL, SIG_IGN}" and act: "sig_active (procs k p) \<noteq> 0"
  shows "signal_dispatch fr (signal_raise p SIGKILL k) = (Returns, fr, signal_raise p SIGKILL k)"
proof -
  let ?k = "signal_raise p SIGKILL k"
  have k: "?k = upd p (raise_on 9) k" using p(2) by (simp add: signal_raise_def SIGKILL_def NSIG_def)
  have f: "sig_mask (procs ?k p) = sig_mask (procs k p)" "sig_handlers (procs ?k p) = sig_handlers (procs k p)"
      "sig_active (procs ?k p) = sig_active (procs k p)" "page_directory (procs ?k p) = page_directory (procs k p)"
      "sig_pending (procs ?k p) = sig_pending (procs k p) OR mask_bit 9" "get_current_process ?k = p"
    unfolding k by (simp_all add: raise_on_def Let_def sigbit_def p(1) get_current_process_def)
  let ?d = "sig_pending (procs ?k p) AND NOT (sig_mask (procs ?k p))"
  have b: "bit ?d s" "\<And>j. 0 < j \<Longrightarrow> j < s \<Longrightarrow> \<not> bit ?d j"
    using s low unfolding f(1,5) by (auto simp: bit_and_iff bit_not_iff bit_or_iff bit_mask_bit)
  have l: "lowest_signal ?d = int s" by (rule lowest_signalI[OF s(1) _ b]) (use s(2) in auto)
  have "?d \<noteq> 0" using b(1) by auto
  moreover have "\<not> uncatchable (int s)" using s(2) by (simp add: uncatchable_def signums)
  ultimately show ?thesis using p(2,3) s(1) l h act f(2,3,4,6) unfolding signal_dispatch_def Let_def by simp
qed

section \<open>A process with a handler\<close>

text \<open>The process at \<open>0x5000\<close> has a handler for SIGINT (2), which is pending.\<close>

definition sig_proc :: process where
  "sig_proc = zero_process\<lparr>pid := 3, tgid := 3, page_directory := 0x9000, state := PROC_RUN,
     sig_handlers := (\<lambda>_. 0)(2 := 0x401000), sig_trampoline := 0x402000, sig_pending := 4\<rparr>"

definition sig_kern :: "process \<Rightarrow> kern" where
  "sig_kern q = kern_example\<lparr>ptable := [0x5000], procs := (\<lambda>_. zero_process)(0x5000 := q)\<rparr>"

lemma sig_kern_simps [simp]:
  "procs (sig_kern q) 0x5000 = q" "get_current_process (sig_kern q) = 0x5000" "sig_ok q \<Longrightarrow> sig_inv (sig_kern q)"
  by (simp_all add: sig_kern_def get_current_process_def kern_example_def sig_inv_def)
    (simp_all add: sig_ok_def zero_process_def SIG_DFL_def)

lemma sig_proc_simps [simp]:
  "sig_pending sig_proc = 4" "sig_mask sig_proc = 0" "sig_active sig_proc = 0" "page_directory sig_proc = 0x9000"
  "sig_handlers sig_proc = (\<lambda>_. 0)(2 := 0x401000)" "sig_trampoline sig_proc = 0x402000" "state sig_proc = PROC_RUN"
  by (simp_all add: sig_proc_def zero_process_def)

theorem sigkill_cannot_be_blocked_witness:
  "\<exists>k'. signal_dispatch (\<lambda>_. 0) (sig_kern (sig_proc\<lparr>sig_pending := 512\<rparr>)) = (Dies, \<lambda>_. 0, k') \<and>
     exit_code (procs k' 0x5000) = 137"
proof -
  let ?q = "sig_proc\<lparr>sig_pending := 512\<rparr>"
  have b: "\<not> bit (512 :: u32) j" if "j < 9" for j
  proof -
    have "(512 :: u32) = mask_bit 9" by (simp add: mask_bit_def)
    then show ?thesis using that by (simp only: bit_mask_bit) simp
  qed
  have "sig_inv (sig_kern ?q)" by (rule sig_kern_simps) (simp add: sig_ok_def SIG_DFL_def)
  then show ?thesis
    using sigkill_cannot_be_blocked[OF rtranclp.rtrancl_refl, of "sig_kern ?q" "0x5000" "\<lambda>_. 0"] b
    by (auto simp: bit_and_iff)
qed

theorem sigkill_waits_behind_handled_signal_witness:
  "signal_dispatch (\<lambda>_. 0) (signal_raise 0x5000 SIGKILL (sig_kern (sig_proc\<lparr>sig_active := 1024, sig_mask := 1024\<rparr>))) =
     (Returns, \<lambda>_. 0, signal_raise 0x5000 SIGKILL (sig_kern (sig_proc\<lparr>sig_active := 1024, sig_mask := 1024\<rparr>)))"
proof -
  have b: "\<not> bit (4 :: u32) j" "bit (4 :: u32) 2" "\<not> bit (1024 :: u32) 2" if "j < 2" for j
  proof -
    have "(4 :: u32) = mask_bit 2" "(1024 :: u32) = mask_bit 10" by (simp_all add: mask_bit_def)
    then show "\<not> bit (4 :: u32) j" "bit (4 :: u32) 2" "\<not> bit (1024 :: u32) 2"
      using that by (simp_all only: bit_mask_bit) simp_all
  qed
  show ?thesis
    by (rule sigkill_waits_behind_handled_signal[where s = 2]) (use b in \<open>auto simp: SIG_DFL_def SIG_IGN_def\<close>)
qed

theorem signal_handler_roundtrip_witness:
  "\<exists>k fr' k' k2. signal_dispatch (\<lambda>i. of_nat i) k = (Returns, fr', k') \<and> fr' 16 = 0x401000 \<and>
     (\<exists>f3. sframe (do_sigreturn k2) = Some f3 \<and> f3 16 = 16) \<and> user_rsp (do_sigreturn k2) = user_rsp k"
proof -
  obtain s r where s: "wf_as s r" "\<And>va. unat va div 4096 = 1024 \<Longrightarrow> user_v2p r va s \<noteq> 0" using vm_example_page by blast
  let ?k = "(put_vm s (sig_kern sig_proc))\<lparr>user_cr3 := r, user_rsp := 0x400100\<rparr>"
  let ?fr = "\<lambda>i. of_nat i :: u64"
  have k: "get_current_process ?k = 0x5000" "procs ?k 0x5000 = sig_proc" "vm_of ?k = s" "user_cr3 ?k = r" "user_rsp ?k = 0x400100"
    by (simp_all add: get_current_process_def sig_kern_def kern_example_def vm_of_def put_vm_def)
  have sp: "handler_sp 0x400100 = 0x400078" by (simp add: handler_sp_def)
  have "user_v2p r (0x400078 + of_nat i) s \<noteq> 0" if "i < 8" for i
    using that unat_addr[of i] by (intro s(2)) (simp add: unat_word_ariths)
  then obtain v where c: "copy_to_user r 0x400078 (le_bytes 8 (0x402000 :: u64)) s = (0, v)"
    using copy_to_user_total[of "le_bytes 8 (0x402000 :: u64)" r "0x400078" s] by auto
  have b: "bit (4 :: u32) 2" "\<not> bit (4 :: u32) 1"
  proof -
    have "(4 :: u32) = mask_bit 2" by (simp add: mask_bit_def)
    then show "bit (4 :: u32) 2" "\<not> bit (4 :: u32) 1" by (simp_all only: bit_mask_bit) simp_all
  qed
  have l: "lowest_signal 4 = 2" using lowest_signalI[of 2 4] b by (auto simp: less_Suc_eq numeral_2_eq_2)
  let ?k' = "enter_handler 0x5000 2 ((put_vm v (saved_for ?fr 0x5000 2 ?k))\<lparr>user_rsp := 0x400078\<rparr>)"
  have dv: "divert ?fr 0x5000 2 0x401000 ?k = (Returns, ?fr(9 := 2, 16 := 0x401000), ?k')"
    using divert_eq[of ?k "0x5000" 0 v ?fr 2 "0x401000"] c unfolding k sp by simp
  have d: "signal_dispatch ?fr ?k = (Returns, ?fr(9 := 2, 16 := 0x401000), ?k')"
    unfolding signal_dispatch_def k(1) Let_def k(2)
    using dv l by (simp add: uncatchable_def signums SIG_DFL_def SIG_IGN_def)
  let ?k2 = "?k'\<lparr>sframe := Some (\<lambda>_. 0)\<rparr>"
  have c2: "get_current_process ?k2 = 0x5000"
    by (simp add: get_current_process_def enter_handler_def saved_for_def clear_pending_def sig_kern_def kern_example_def upd_def put_vm_def)
  have ac: "sig_active (procs ?k' 0x5000) \<noteq> 0"
    by (simp add: enter_handler_def saved_for_def sigbit_def mask_bit_def)
  have wf: "wf_as (vm_of ?k) (user_cr3 ?k)" unfolding k by (rule s(1))
  have "(\<exists>f3. sframe (do_sigreturn ?k2) = Some f3 \<and> (\<forall>i < 17. f3 i = ?fr i)) \<and> user_rsp (do_sigreturn ?k2) = user_rsp ?k"
    using signal_handler_roundtrip[OF d k(1)[symmetric] _ ac wf c2, of "\<lambda>_. 0"] by (simp add: k(2))
  then have "(\<exists>f3. sframe (do_sigreturn ?k2) = Some f3 \<and> f3 16 = 16) \<and> user_rsp (do_sigreturn ?k2) = user_rsp ?k" by auto
  with d show ?thesis by (intro exI[of _ ?k] exI[of _ "?fr(9 := 2, 16 := 0x401000)"] exI[of _ ?k'] exI[of _ ?k2]) simp
qed

end
