(* ===== verification/Pipe.thy ===== *)
theory Pipe
  imports Kernel_State
begin

text \<open>
  Anonymous pipes, \<open>src/kernel/pipe.c\<close>: a ring of 4096 bytes with reference-counted ends, a
  write that never blocks and a read that parks its process while the pipe is empty and a writer
  is left. A blocking read is one attempt between two interruptions: it either returns or parks,
  and the process runs the attempt again when it is resumed. The abstract pipe is a byte queue.
\<close>

section \<open>Operations\<close>

datatype 'a attempt = Done 'a | Parked

definition set_pipe :: "nat \<Rightarrow> pipe \<Rightarrow> kern \<Rightarrow> kern" where
  "set_pipe i p k = k\<lparr>pipes := (pipes k)(i := p)\<rparr>"

definition bad_pipe :: "int \<Rightarrow> kern \<Rightarrow> bool" where
  "bad_pipe i k \<longleftrightarrow> i < 0 \<or> i \<ge> int MAX_PIPES \<or> \<not> pipe_used (pipes k (nat i))"

definition pipe_new :: "kern \<Rightarrow> int \<times> kern" where
  "pipe_new k =
     (case find_idx MAX_PIPES (\<lambda>i. \<not> pipe_used (pipes k i)) of
        None \<Rightarrow> (- 1, k)
      | Some i \<Rightarrow> (int i, set_pipe i \<lparr>pipe_used = True, pipe_buf = (\<lambda>_. 0), pipe_head = 0, pipe_count = 0,
          read_refs = 1, write_refs = 1, reader_waiter = 0\<rparr> k))"

definition pipe_incref :: "int \<Rightarrow> bool \<Rightarrow> kern \<Rightarrow> kern" where
  "pipe_incref i is_write k =
     (if bad_pipe i k then k
      else
        (let p = pipes k (nat i) in
         set_pipe (nat i) (if is_write then p\<lparr>write_refs := write_refs p + 1\<rparr>
                           else p\<lparr>read_refs := read_refs p + 1\<rparr>) k))"

definition pipe_wake_reader :: "nat \<Rightarrow> kern \<Rightarrow> kern" where
  "pipe_wake_reader i k =
     (let p = pipes k i in
      if reader_waiter p \<noteq> 0
      then set_pipe i (p\<lparr>reader_waiter := 0\<rparr>) (upd (reader_waiter p) (\<lambda>q. q\<lparr>state := PROC_RUN\<rparr>) k)
      else k)"

definition pipe_close_end :: "int \<Rightarrow> bool \<Rightarrow> kern \<Rightarrow> kern" where
  "pipe_close_end i is_write k =
     (if bad_pipe i k then k
      else
        (let j = nat i; p = pipes k j;
             k = (if is_write then
                    (let w = (if write_refs p > 0 then write_refs p - 1 else write_refs p);
                         k = set_pipe j (p\<lparr>write_refs := w\<rparr>) k
                     in if w = 0 then pipe_wake_reader j k else k)
                  else set_pipe j (p\<lparr>read_refs := (if read_refs p > 0 then read_refs p - 1 else read_refs p)\<rparr>) k);
             p = pipes k j
         in if read_refs p = 0 \<and> write_refs p = 0 then set_pipe j (p\<lparr>pipe_used := False\<rparr>) k else k))"

text \<open>The copy loop of \<open>pipe_write\<close>: how many bytes went in, and the pipe after it.\<close>

fun pipe_fill :: "u8 list \<Rightarrow> pipe \<Rightarrow> nat \<times> pipe" where
  "pipe_fill [] p = (0, p)"
| "pipe_fill (c # cs) p =
     (if unat (pipe_count p) < PIPE_BUF_SIZE then
        (let tail = (pipe_head p + pipe_count p) mod of_nat PIPE_BUF_SIZE;
             (w, p) = pipe_fill cs (p\<lparr>pipe_buf := (pipe_buf p)(unat tail := c), pipe_count := pipe_count p + 1\<rparr>)
         in (Suc w, p))
      else (0, p))"

definition pipe_write :: "int \<Rightarrow> u8 list \<Rightarrow> int \<Rightarrow> kern \<Rightarrow> int \<times> kern" where
  "pipe_write i src n k =
     (if bad_pipe i k \<or> n < 0 then (- 1, k)
      else
        (let j = nat i; p = pipes k j in
         if read_refs p = 0 then (- 1, k)
         else
           (let (written, p) = pipe_fill (take (nat n) src) p; k = set_pipe j p k
            in (int written, if written > 0 then pipe_wake_reader j k else k))))"

definition pipe_readable :: "int \<Rightarrow> kern \<Rightarrow> bool" where
  "pipe_readable i k \<longleftrightarrow> bad_pipe i k \<or> pipe_count (pipes k (nat i)) > 0 \<or> write_refs (pipes k (nat i)) = 0"

text \<open>The drain loop of \<open>pipe_read\<close>.\<close>

fun pipe_drain :: "nat \<Rightarrow> pipe \<Rightarrow> u8 list \<times> pipe" where
  "pipe_drain 0 p = ([], p)"
| "pipe_drain (Suc n) p =
     (if pipe_count p > 0 then
        (let c = pipe_buf p (unat (pipe_head p));
             (cs, p) = pipe_drain n (p\<lparr>pipe_head := (pipe_head p + 1) mod of_nat PIPE_BUF_SIZE, pipe_count := pipe_count p - 1\<rparr>)
         in (c # cs, p))
      else ([], p))"

text \<open>
  One pass of the loop in \<open>pipe_read\<close> by the process \<open>self\<close> (0: no process context); \<open>cr3\<close> and
  \<open>ursp\<close> are the values saved on entry, which the return path restores because other system calls
  overwrite the globals while the process sleeps. \<open>pipe_read\<close> is the entry and the first pass; a
  resumed process runs \<open>pipe_read_pass\<close> again.
\<close>

definition restore_user :: "u64 \<Rightarrow> u64 \<Rightarrow> kern \<Rightarrow> kern" where
  "restore_user cr3 ursp k = k\<lparr>user_cr3 := cr3, user_rsp := ursp\<rparr>"

definition pipe_read_pass :: "nat \<Rightarrow> int \<Rightarrow> u64 \<Rightarrow> u64 \<Rightarrow> u64 \<Rightarrow> kern \<Rightarrow> (int \<times> u8 list) attempt \<times> kern" where
  "pipe_read_pass j n self cr3 ursp k =
     (let k = (if self \<noteq> 0 then upd self (\<lambda>q. q\<lparr>blocked_in_kernel := False\<rparr>) k else k);
          p = pipes k j in
      if pipe_count p > 0 then
        (let (bs, p) = pipe_drain (nat n) p
         in (Done (int (length bs), bs), restore_user cr3 ursp (set_pipe j p k)))
      else if write_refs p = 0 then (Done (0, []), restore_user cr3 ursp k)
      else if self = 0 then (Done (0, []), restore_user cr3 ursp k)
      else (Parked, set_pipe j (p\<lparr>reader_waiter := self\<rparr>)
             (upd self (\<lambda>q. q\<lparr>blocked_in_kernel := True, state := PROC_BLOCKED\<rparr>) k)))"

definition pipe_read :: "int \<Rightarrow> int \<Rightarrow> kern \<Rightarrow> (int \<times> u8 list) attempt \<times> kern" where
  "pipe_read i n k =
     (if bad_pipe i k \<or> n \<le> 0 then (Done (- 1, []), k)
      else pipe_read_pass (nat i) n (get_current_process k) (user_cr3 k) (user_rsp k) k)"

section \<open>The byte queue\<close>

definition pipe_ok :: "pipe \<Rightarrow> bool" where
  "pipe_ok p \<longleftrightarrow> unat (pipe_head p) < PIPE_BUF_SIZE \<and> unat (pipe_count p) \<le> PIPE_BUF_SIZE \<and>
     0 \<le> read_refs p \<and> 0 \<le> write_refs p"

definition queue :: "pipe \<Rightarrow> u8 list" where
  "queue p = map (\<lambda>i. pipe_buf p ((unat (pipe_head p) + i) mod PIPE_BUF_SIZE)) [0..<unat (pipe_count p)]"

lemma length_queue [simp]: "length (queue p) = unat (pipe_count p)"
  by (simp add: queue_def)

lemma unat_tail:
  assumes "pipe_ok p"
  shows "unat ((pipe_head p + pipe_count p) mod of_nat PIPE_BUF_SIZE) = (unat (pipe_head p) + unat (pipe_count p)) mod PIPE_BUF_SIZE"
  using assms by (simp add: pipe_ok_def PIPE_BUF_SIZE_def unat_mod unat_word_ariths)

lemma pipe_fill_refines:
  "pipe_ok p \<Longrightarrow> pipe_fill src p = (m, p') \<Longrightarrow>
   m = min (length src) (PIPE_BUF_SIZE - unat (pipe_count p)) \<and> queue p' = queue p @ take m src \<and> pipe_ok p' \<and>
   pipe_used p' = pipe_used p \<and> read_refs p' = read_refs p \<and> write_refs p' = write_refs p \<and>
   reader_waiter p' = reader_waiter p"
proof (induction src arbitrary: p m)
  case (Cons c cs)
  show ?case
  proof (cases "unat (pipe_count p) < PIPE_BUF_SIZE")
    case True
    let ?t = "(pipe_head p + pipe_count p) mod of_nat PIPE_BUF_SIZE"
    let ?q = "p\<lparr>pipe_buf := (pipe_buf p)(unat ?t := c), pipe_count := pipe_count p + 1\<rparr>"
    obtain w where w: "pipe_fill cs ?q = (w, p')" "m = Suc w"
      using Cons.prems(2) True by (auto simp: Let_def split: prod.splits)
    have c1: "unat (pipe_count p + 1) = unat (pipe_count p) + 1"
      using True by (intro unat_inc) (simp add: PIPE_BUF_SIZE_def)
    have ok: "pipe_ok ?q" using Cons.prems(1) True c1 by (simp add: pipe_ok_def)
    have ne: "(unat (pipe_head p) + i) mod PIPE_BUF_SIZE \<noteq> unat ?t" if "i < unat (pipe_count p)" for i
    proof
      let ?h = "unat (pipe_head p)" and ?n = "unat (pipe_count p)"
      assume "(?h + i) mod PIPE_BUF_SIZE = unat ?t"
      then have "(?h + i) mod PIPE_BUF_SIZE = (?h + ?n) mod PIPE_BUF_SIZE" using unat_tail[OF Cons.prems(1)] by simp
      then have "PIPE_BUF_SIZE dvd (?h + ?n) - (?h + i)" using that by (metis add_le_cancel_left less_imp_le mod_eq_dvd_iff_nat)
      then have "PIPE_BUF_SIZE dvd ?n - i" by simp
      then show False using that True by (auto dest: dvd_imp_le)
    qed
    have q: "queue ?q = queue p @ [c]"
      using ne c1 unat_tail[OF Cons.prems(1)] by (simp add: queue_def)
    have "w = min (length cs) (PIPE_BUF_SIZE - Suc (unat (pipe_count p)))"
      using Cons.IH[OF ok w(1)] c1 by simp
    then have m: "m = min (length (c # cs)) (PIPE_BUF_SIZE - unat (pipe_count p))" using w(2) True by simp
    show ?thesis using Cons.IH[OF ok w(1)] w(2) q by (intro conjI m) simp_all
  next
    case False
    then show ?thesis using Cons.prems by (auto simp: pipe_ok_def)
  qed
qed simp

lemma pipe_drain_refines:
  "pipe_ok p \<Longrightarrow> pipe_drain n p = (bs, p') \<Longrightarrow>
   bs = take n (queue p) \<and> queue p' = drop n (queue p) \<and> pipe_ok p' \<and>
   pipe_used p' = pipe_used p \<and> read_refs p' = read_refs p \<and> write_refs p' = write_refs p \<and>
   reader_waiter p' = reader_waiter p"
proof (induction n arbitrary: p bs)
  case (Suc n)
  show ?case
  proof (cases "pipe_count p > 0")
    case True
    let ?q = "p\<lparr>pipe_head := (pipe_head p + 1) mod of_nat PIPE_BUF_SIZE, pipe_count := pipe_count p - 1\<rparr>"
    obtain cs where cs: "pipe_drain n ?q = (cs, p')" "bs = pipe_buf p (unat (pipe_head p)) # cs"
      using Suc.prems(2) True by (auto simp: Let_def split: prod.splits)
    have c0: "pipe_count p \<noteq> 0" using True by auto
    have c1: "unat (pipe_count p - 1) = unat (pipe_count p) - 1" by (rule unat_dec[OF c0])
    have h1: "unat ((pipe_head p + 1) mod of_nat PIPE_BUF_SIZE) = (unat (pipe_head p) + 1) mod PIPE_BUF_SIZE"
      using Suc.prems(1) by (simp add: pipe_ok_def PIPE_BUF_SIZE_def unat_mod unat_word_ariths)
    have ok: "pipe_ok ?q" using Suc.prems(1) c1 h1 by (auto simp: pipe_ok_def PIPE_BUF_SIZE_def)
    have pos: "0 < unat (pipe_count p)" using c0 by (simp add: unat_gt_0)
    have "queue p = pipe_buf p (unat (pipe_head p)) # queue ?q"
    proof -
      have "[0..<unat (pipe_count p)] = 0 # map Suc [0..<unat (pipe_count p) - 1]"
        using pos by (metis Suc_pred' map_Suc_upt upt_conv_Cons)
      then show ?thesis using Suc.prems(1) c1 h1
        by (simp add: queue_def pipe_ok_def comp_def mod_simps)
    qed
    with Suc.IH[OF ok cs(1)] cs(2) show ?thesis by simp
  next
    case False
    then have "pipe_count p = 0" by (simp add: word_gt_0)
    then have "queue p = []" by (simp add: queue_def)
    then show ?thesis using Suc.prems False by simp
  qed
qed simp

section \<open>Streams\<close>

text \<open>
  What happens to pipe \<open>i\<close> over time: writes, read passes of any process, reference changes, and
  steps of the kernel that leave this pipe alone. The two lists are the bytes the writes accepted
  and the bytes the reads returned, in order.
\<close>

inductive pipe_run :: "nat \<Rightarrow> kern \<Rightarrow> u8 list \<Rightarrow> u8 list \<Rightarrow> kern \<Rightarrow> bool" for i k0 where
  run_start: "pipe_run i k0 [] [] k0"
| run_write: "pipe_run i k0 w r k \<Longrightarrow> pipe_write (int i) src n k = (m, k') \<Longrightarrow> n \<le> int (length src) \<Longrightarrow>
    pipe_run i k0 (w @ take (nat m) src) r k'"
| run_read: "pipe_run i k0 w r k \<Longrightarrow> pipe_read_pass i n self cr3 ursp k = (Done (m, bs), k') \<Longrightarrow>
    pipe_run i k0 w (r @ bs) k'"
| run_park: "pipe_run i k0 w r k \<Longrightarrow> pipe_read_pass i n self cr3 ursp k = (Parked, k') \<Longrightarrow>
    pipe_run i k0 w r k'"
| run_close: "pipe_run i k0 w r k \<Longrightarrow> pipe_run i k0 w r (pipe_close_end (int i) e k)"
| run_incref: "pipe_run i k0 w r k \<Longrightarrow> pipe_run i k0 w r (pipe_incref (int i) e k)"
| run_other: "pipe_run i k0 w r k \<Longrightarrow> pipes k' i = pipes k i \<Longrightarrow> pipe_run i k0 w r k'"

lemma set_pipe_simps [simp]:
  "pipes (set_pipe i p k) i = p" "j \<noteq> i \<Longrightarrow> pipes (set_pipe i p k) j = pipes k j"
  "procs (set_pipe i p k) = procs k" "ptable (set_pipe i p k) = ptable k"
  "pipes (restore_user a b k) = pipes k" "procs (restore_user a b k) = procs k"
  by (simp_all add: set_pipe_def restore_user_def)

lemma queue_simps [simp]:
  "queue (p\<lparr>read_refs := a\<rparr>) = queue p" "queue (p\<lparr>write_refs := a\<rparr>) = queue p"
  "queue (p\<lparr>reader_waiter := u\<rparr>) = queue p" "queue (p\<lparr>pipe_used := b\<rparr>) = queue p"
  by (simp_all add: queue_def)

lemma pipe_ok_simps [simp]:
  "pipe_ok (p\<lparr>reader_waiter := u\<rparr>) = pipe_ok p" "pipe_ok (p\<lparr>pipe_used := b\<rparr>) = pipe_ok p"
  by (simp_all add: pipe_ok_def)

lemma wake_reader_pipe:
  "pipes (pipe_wake_reader i k) i = (pipes k i)\<lparr>reader_waiter := 0\<rparr>"
  by (simp add: pipe_wake_reader_def Let_def)

lemma close_end_pipe:
  "queue (pipes (pipe_close_end (int i) e k) i) = queue (pipes k i)"
  "pipe_ok (pipes k i) \<Longrightarrow> pipe_ok (pipes (pipe_close_end (int i) e k) i)"
  by (auto simp: pipe_close_end_def Let_def wake_reader_pipe pipe_ok_def)

lemma incref_pipe:
  "queue (pipes (pipe_incref (int i) e k) i) = queue (pipes k i)"
  "pipe_ok (pipes k i) \<Longrightarrow> pipe_ok (pipes (pipe_incref (int i) e k) i)"
  by (auto simp: pipe_incref_def Let_def pipe_ok_def)

lemma write_pipe:
  assumes "pipe_ok (pipes k i)" and "pipe_write (int i) src n k = (m, k')"
  shows "queue (pipes k' i) = queue (pipes k i) @ take (nat m) src \<and> pipe_ok (pipes k' i)"
proof (cases "bad_pipe (int i) k \<or> n < 0 \<or> read_refs (pipes k i) = 0")
  case True
  then have "m = - 1 \<and> k' = k" using assms(2) by (auto simp: pipe_write_def Let_def split: if_splits)
  then show ?thesis using assms(1) by simp
next
  case False
  obtain v p where f: "pipe_fill (take (nat n) src) (pipes k i) = (v, p)" by fastforce
  have r: "v = min (length (take (nat n) src)) (PIPE_BUF_SIZE - unat (pipe_count (pipes k i)))"
    "queue p = queue (pipes k i) @ take v (take (nat n) src)" "pipe_ok p"
    using pipe_fill_refines[OF assms(1) f] by auto
  have "m = int v \<and> k' = (if v > 0 then pipe_wake_reader i (set_pipe i p k) else set_pipe i p k)"
    using assms(2) False by (simp add: pipe_write_def f Let_def)
  moreover have "v \<le> nat n" using r(1) by simp
  ultimately show ?thesis using r(2,3) by (simp add: wake_reader_pipe min_absorb1)
qed

lemma read_pipe:
  assumes "pipe_ok (pipes k i)" and "pipe_read_pass i n self cr3 ursp k = (Done (m, bs), k')"
  shows "queue (pipes k i) = bs @ queue (pipes k' i) \<and> pipe_ok (pipes k' i)"
proof (cases "pipe_count (pipes k i) > 0")
  case True
  obtain cs p where f: "pipe_drain (nat n) (pipes k i) = (cs, p)" by fastforce
  have r: "cs = take (nat n) (queue (pipes k i))" "queue p = drop (nat n) (queue (pipes k i))" "pipe_ok p"
    using pipe_drain_refines[OF assms(1) f] by auto
  have "bs = cs \<and> pipes k' i = p"
    using assms(2) True unfolding pipe_read_pass_def by (cases "self = 0") (auto simp: f Let_def)
  then show ?thesis using r by simp
next
  case False
  then have "bs = [] \<and> pipes k' i = pipes k i"
    using assms(2) unfolding pipe_read_pass_def by (cases "self = 0") (auto simp: Let_def split: if_splits)
  then show ?thesis using assms(1) by simp
qed

lemma parks:
  assumes "pipe_read_pass i n self cr3 ursp k = (Parked, k')"
  shows "self \<noteq> 0" "pipe_count (pipes k i) = 0" "write_refs (pipes k i) \<noteq> 0" "state (procs k' self) = PROC_BLOCKED"
    "pipes k' i = (pipes k i)\<lparr>reader_waiter := self\<rparr>" "q \<noteq> self \<Longrightarrow> procs k' q = procs k q"
  using assms unfolding pipe_read_pass_def
  by (auto simp: Let_def word_gt_0 split: if_splits prod.splits)

lemma pipe_run_stream:
  assumes "pipe_run i k0 w r k" and "pipe_ok (pipes k0 i)"
  shows "queue (pipes k0 i) @ w = r @ queue (pipes k i) \<and> pipe_ok (pipes k i)"
  using assms
proof induction
  case (run_write w r k src n m k')
  then show ?case using write_pipe[of k i src n m k'] by simp
next
  case (run_read w r k n self cr3 ursp m bs k')
  then show ?case using read_pipe[of k i n self cr3 ursp m bs k'] by simp
next
  case (run_park w r k n self cr3 ursp k')
  then show ?case using parks(5)[of i n self cr3 ursp k k'] by simp
next
  case (run_close w r k e)
  then show ?case by (simp add: close_end_pipe)
next
  case (run_incref w r k e)
  then show ?case by (simp add: incref_pipe)
qed simp_all

section \<open>Waiting readers\<close>

text \<open>
  From the moment process \<open>self\<close> parks in \<open>pipe_read\<close> on pipe \<open>i\<close>: writers and closers act, \<open>self\<close> looks again
  once it has been woken, other processes read or park on the same pipe, and the rest of the kernel leaves
  the pipe and the state of \<open>self\<close> alone. The flag says that another process has parked while
  \<open>self\<close> slept, and so has taken its place in \<open>reader_waiter\<close>.
\<close>

inductive pipe_wait :: "nat \<Rightarrow> u64 \<Rightarrow> kern \<Rightarrow> bool \<Rightarrow> kern \<Rightarrow> bool" for i self k0 where
  wait_park: "pipe_read (int i) n k0 = (Parked, k) \<Longrightarrow> self = get_current_process k0 \<Longrightarrow> pipe_wait i self k0 False k"
| wait_again: "pipe_wait i self k0 d k \<Longrightarrow> state (procs k self) = PROC_RUN \<Longrightarrow>
    pipe_read_pass i n self cr3 ursp k = (Parked, k') \<Longrightarrow> pipe_wait i self k0 False k'"
| wait_reader: "pipe_wait i self k0 d k \<Longrightarrow> q \<noteq> self \<Longrightarrow> pipe_read_pass i n q cr3 ursp k = (r, k') \<Longrightarrow>
    pipe_wait i self k0 (d \<or> r = Parked \<and> state (procs k self) = PROC_BLOCKED) k'"
| wait_write: "pipe_wait i self k0 d k \<Longrightarrow> pipe_write (int i) src n k = (m, k') \<Longrightarrow> pipe_wait i self k0 d k'"
| wait_close: "pipe_wait i self k0 d k \<Longrightarrow> pipe_wait i self k0 d (pipe_close_end (int i) e k)"
| wait_incref: "pipe_wait i self k0 d k \<Longrightarrow> pipe_wait i self k0 d (pipe_incref (int i) e k)"
| wait_other: "pipe_wait i self k0 d k \<Longrightarrow> pipes k' i = pipes k i \<Longrightarrow>
    state (procs k' self) = state (procs k self) \<Longrightarrow> pipe_wait i self k0 d k'"

definition wait_ok :: "nat \<Rightarrow> u64 \<Rightarrow> kern \<Rightarrow> bool" where
  "wait_ok i self k \<longleftrightarrow> state (procs k self) = PROC_RUN \<or>
     state (procs k self) = PROC_BLOCKED \<and> pipe_count (pipes k i) = 0 \<and> write_refs (pipes k i) \<noteq> 0 \<and> self \<noteq> 0 \<and>
     reader_waiter (pipes k i) = self"

text \<open>A reader whose place another one took.\<close>

definition stranded :: "nat \<Rightarrow> u64 \<Rightarrow> kern \<Rightarrow> bool" where
  "stranded i self k \<longleftrightarrow> state (procs k self) = PROC_BLOCKED \<and> self \<noteq> 0 \<and> reader_waiter (pipes k i) \<noteq> self"

lemma wake_reader_runs:
  "reader_waiter (pipes k i) = self \<Longrightarrow> self \<noteq> 0 \<Longrightarrow> state (procs (pipe_wake_reader i k) self) = PROC_RUN"
  by (simp add: pipe_wake_reader_def Let_def)

lemma wake_reader_keeps_run:
  "state (procs k self) = PROC_RUN \<Longrightarrow> state (procs (pipe_wake_reader i k) self) = PROC_RUN"
  by (cases "self = reader_waiter (pipes k i)") (auto simp: pipe_wake_reader_def Let_def)

lemma wait_ok_write:
  assumes "wait_ok i self k" and "pipe_ok (pipes k i)" and w: "pipe_write (int i) src n k = (m, k')"
  shows "wait_ok i self k'"
proof (cases "k' = k")
  case False
  obtain v p where f: "pipe_fill (take (nat n) src) (pipes k i) = (v, p)" by fastforce
  have k': "k' = (if v > 0 then pipe_wake_reader i (set_pipe i p k) else set_pipe i p k)"
    and g: "\<not> bad_pipe (int i) k"
    using w False by (auto simp: pipe_write_def f Let_def split: if_splits)
  have p: "reader_waiter p = reader_waiter (pipes k i)" "queue p = queue (pipes k i) @ take v (take (nat n) src)"
      "pipe_used p = pipe_used (pipes k i)" "write_refs p = write_refs (pipes k i)"
    using pipe_fill_refines[OF assms(2) f] by auto
  show ?thesis
  proof (cases "v > 0")
    case True
    then show ?thesis using k' assms(1) p(1)
      by (auto simp: wait_ok_def wake_reader_runs wake_reader_keeps_run)
  next
    case False
    then have "unat (pipe_count p) = unat (pipe_count (pipes k i))" using p(2) by (metis append_Nil2 length_queue not_gr_zero take0)
    then have "pipe_count p = pipe_count (pipes k i)" by (simp add: word_unat_eq_iff)
    then show ?thesis using k' False assms(1) p by (auto simp: wait_ok_def pipe_readable_def bad_pipe_def)
  qed
qed (use assms(1) in simp)

lemma wait_ok_close:
  assumes "wait_ok i self k"
  shows "wait_ok i self (pipe_close_end (int i) e k)"
  using assms by (auto simp: wait_ok_def pipe_close_end_def pipe_readable_def bad_pipe_def Let_def
      wake_reader_runs wake_reader_keeps_run)

lemma wait_ok_incref:
  assumes "wait_ok i self k" and "pipe_ok (pipes k i)"
  shows "wait_ok i self (pipe_incref (int i) e k)"
  using assms by (auto simp: wait_ok_def pipe_incref_def pipe_readable_def bad_pipe_def pipe_ok_def Let_def)

lemma wait_ok_again: "pipe_read_pass i n self cr3 ursp k = (Parked, k') \<Longrightarrow> wait_ok i self k'"
  by (frule parks(5)) (auto simp: wait_ok_def dest: parks(1-4))

lemma wait_ok_park: "pipe_read (int i) n k0 = (Parked, k) \<Longrightarrow> wait_ok i (get_current_process k0) k"
  unfolding pipe_read_def by (auto intro: wait_ok_again split: if_splits)

text \<open>A pass of another reader: it drains the pipe, or parks in its turn.\<close>

lemma pass_done:
  assumes "pipe_ok (pipes k i)" "pipe_read_pass i n q cr3 ursp k = (Done mb, k')"
  shows "pipe_ok (pipes k' i)" "state (procs k' self) = state (procs k self)" "reader_waiter (pipes k' i) = reader_waiter (pipes k i)"
    "pipe_count (pipes k i) = 0 \<Longrightarrow> pipes k' i = pipes k i"
proof -
  obtain cs p where f: "pipe_drain (nat n) (pipes k i) = (cs, p)" by fastforce
  note r = pipe_drain_refines[OF assms(1) f]
  have s: "state (procs k' self) = state (procs k self) \<and> pipes k' i = (if pipe_count (pipes k i) > 0 then p else pipes k i)"
    using assms(2) unfolding pipe_read_pass_def
    by (cases "q = 0"; cases "q = self") (auto simp: f Let_def restore_user_def split: if_splits)
  then show "state (procs k' self) = state (procs k self)" "pipe_ok (pipes k' i)" "reader_waiter (pipes k' i) = reader_waiter (pipes k i)"
    "pipe_count (pipes k i) = 0 \<Longrightarrow> pipes k' i = pipes k i"
    using r assms(1) by auto
qed

lemma wake_keeps_stranded: "stranded i self k \<Longrightarrow> stranded i self (pipe_wake_reader i k)"
  by (auto simp: stranded_def pipe_wake_reader_def Let_def)

lemma stranded_pipe: "stranded i self k \<Longrightarrow> reader_waiter p = reader_waiter (pipes k i) \<Longrightarrow> stranded i self (set_pipe i p k)"
  by (simp add: stranded_def)

lemma stranded_write:
  assumes "stranded i self k" "pipe_ok (pipes k i)" "pipe_write (int i) src n k = (m, k')"
  shows "stranded i self k'"
proof -
  obtain v p where f: "pipe_fill (take (nat n) src) (pipes k i) = (v, p)" by fastforce
  have s: "stranded i self (set_pipe i p k)" using pipe_fill_refines[OF assms(2) f] assms(1) by (intro stranded_pipe) auto
  have "k' \<in> {k, set_pipe i p k, pipe_wake_reader i (set_pipe i p k)}"
    using assms(3) by (auto simp: pipe_write_def f Let_def split: if_splits)
  with assms(1) s wake_keeps_stranded[OF s] show ?thesis by auto
qed

lemma stranded_refs:
  assumes "stranded i self k"
  shows "stranded i self (pipe_close_end (int i) e k)" "stranded i self (pipe_incref (int i) e k)"
  using assms by (auto simp: pipe_close_end_def pipe_incref_def Let_def stranded_def pipe_wake_reader_def)

lemma pipe_wait_ok:
  assumes "pipe_wait i self k0 d k" and "pipe_ok (pipes k0 i)"
  shows "(if d then stranded i self k else wait_ok i self k) \<and> pipe_ok (pipes k i)"
  using assms
proof induction
  case (wait_park n k)
  then have "pipes k i = (pipes k0 i)\<lparr>reader_waiter := self\<rparr>"
    unfolding pipe_read_def by (auto split: if_splits dest: parks)
  then show ?case using wait_park wait_ok_park[of i n k0 k] by simp
next
  case (wait_again d k n cr3 ursp k')
  then show ?case using parks(5)[OF wait_again.hyps(3)] wait_ok_again[OF wait_again.hyps(3)] by simp
next
  case (wait_reader d k q n cr3 ursp r k')
  show ?case
  proof (cases r)
    case Parked
    note p = parks[OF wait_reader.hyps(3)[unfolded Parked]]
    show ?thesis using wait_reader p(5) p(6)[of self] Parked by (cases d) (auto simp: wait_ok_def stranded_def proc_states)
  next
    case (Done mb)
    note p = pass_done[OF _ wait_reader.hyps(3)[unfolded Done]]
    show ?thesis using wait_reader p Done by (auto simp: wait_ok_def stranded_def)
  qed
next
  case (wait_write d k src n m k')
  then show ?case using write_pipe[of k i src n m k'] wait_ok_write[of i self k src n m k'] stranded_write[of i self k src n m k'] by simp
next
  case (wait_close d k e)
  then show ?case by (simp add: close_end_pipe wait_ok_close stranded_refs)
next
  case (wait_incref d k e)
  then show ?case by (simp add: incref_pipe wait_ok_incref stranded_refs)
next
  case (wait_other d k k')
  then show ?case by (auto simp: wait_ok_def stranded_def pipe_readable_def bad_pipe_def)
qed

section \<open>Properties\<close>

text \<open>C17: A pipe is a byte stream: after any sequence of writes, reads, parked reads, reference
  changes and other kernel steps, what the pipe held at the start followed by everything the writes
  accepted is everything the reads returned followed by what the ring holds now, the ring never
  holds more than 4096 bytes, and a write accepts as many bytes as were free.\<close>

theorem pipe_byte_stream:
  assumes "pipe_run i k0 w r k" and "pipe_ok (pipes k0 i)"
  shows "queue (pipes k0 i) @ w = r @ queue (pipes k i) \<and> length (queue (pipes k i)) \<le> 4096 \<and>
    (\<not> bad_pipe (int i) k \<and> 0 \<le> n \<and> n \<le> int (length src) \<and> read_refs (pipes k i) \<noteq> 0 \<longrightarrow>
      fst (pipe_write (int i) src n k) = min n (4096 - int (length (queue (pipes k i)))))"
proof (intro conjI impI)
  show "queue (pipes k0 i) @ w = r @ queue (pipes k i)" using pipe_run_stream[OF assms] ..
  have ok: "pipe_ok (pipes k i)" using pipe_run_stream[OF assms] ..
  then show "length (queue (pipes k i)) \<le> 4096" by (simp add: pipe_ok_def PIPE_BUF_SIZE_def)
  assume "\<not> bad_pipe (int i) k \<and> 0 \<le> n \<and> n \<le> int (length src) \<and> read_refs (pipes k i) \<noteq> 0"
  then have a: "\<not> bad_pipe (int i) k" "0 \<le> n" "n \<le> int (length src)" "read_refs (pipes k i) \<noteq> 0" by auto
  obtain v p where f: "pipe_fill (take (nat n) src) (pipes k i) = (v, p)" by fastforce
  have "v = min (length (take (nat n) src)) (PIPE_BUF_SIZE - unat (pipe_count (pipes k i)))"
    using pipe_fill_refines[OF ok f] ..
  moreover have "fst (pipe_write (int i) src n k) = int v" using a by (simp add: pipe_write_def f Let_def)
  moreover have "length (take (nat n) src) = nat n" using a by simp
  moreover have "unat (pipe_count (pipes k i)) \<le> PIPE_BUF_SIZE" using ok by (simp add: pipe_ok_def)
  ultimately show "fst (pipe_write (int i) src n k) = min n (4096 - int (length (queue (pipes k i))))"
    using a(2) unfolding length_queue PIPE_BUF_SIZE_def by linarith
qed

text \<open>C18: A parked reader is woken, unless a second one takes its place. From the moment it parks, whatever writers, closers and
  other readers do: as long as no other process has parked on the pipe while it slept (the flag is false), it is runnable, or it is
  blocked, recorded as the waiter, and the pipe is empty and has a writer, so that the first byte written or the last
  writer leaving makes it runnable. Once another process has parked while it slept (the flag is true), it stays blocked and is not the recorded
  waiter, whatever is written.\<close>

theorem pipe_reader_woken:
  assumes "pipe_wait i self k0 displaced k" and "pipe_ok (pipes k0 i)"
  shows "if displaced then state (procs k self) = PROC_BLOCKED \<and> reader_waiter (pipes k i) \<noteq> self
    else state (procs k self) = PROC_RUN \<or>
      state (procs k self) = PROC_BLOCKED \<and> reader_waiter (pipes k i) = self \<and> pipe_count (pipes k i) = 0 \<and> write_refs (pipes k i) \<noteq> 0"
  using pipe_wait_ok[OF assms] by (auto simp: wait_ok_def stranded_def split: if_splits)

definition pipe_demo :: kern where
  "pipe_demo = snd (pipe_new (kern_example\<lparr>ptable := [0x5000]\<rparr>))"

lemma pipe_demo_simps:
  "pipes pipe_demo 0 = \<lparr>pipe_used = True, pipe_buf = (\<lambda>_. 0), pipe_head = 0, pipe_count = 0,
     read_refs = 1, write_refs = 1, reader_waiter = 0\<rparr>"
  "get_current_process pipe_demo = 0x5000" "procs pipe_demo = (\<lambda>_. zero_process)"
proof -
  have "find_idx MAX_PIPES (\<lambda>i. \<not> pipe_used (pipes (kern_example\<lparr>ptable := [0x5000]\<rparr>) i)) = Some 0"
    by (simp add: find_idx_Some MAX_PIPES_def kern_example_def)
  then show "pipes pipe_demo 0 = \<lparr>pipe_used = True, pipe_buf = (\<lambda>_. 0), pipe_head = 0, pipe_count = 0,
     read_refs = 1, write_refs = 1, reader_waiter = 0\<rparr>"
    "get_current_process pipe_demo = 0x5000" "procs pipe_demo = (\<lambda>_. zero_process)"
    by (simp_all add: pipe_demo_def pipe_new_def get_current_process_def set_pipe_def kern_example_def)
qed

lemma pipe_demo_ok: "pipe_ok (pipes pipe_demo 0)" "\<not> bad_pipe 0 pipe_demo" "queue (pipes pipe_demo 0) = []"
  by (simp_all add: pipe_ok_def bad_pipe_def pipe_demo_simps PIPE_BUF_SIZE_def MAX_PIPES_def queue_def)

theorem pipe_byte_stream_witness:
  "queue (pipes pipe_demo 0) @ [] = [] @ queue (pipes pipe_demo 0) \<and>
   fst (pipe_write (int 0) [7, 8] 2 pipe_demo) = 2"
  using pipe_byte_stream[OF run_start[of 0 pipe_demo] pipe_demo_ok(1), where src = "[7, 8]" and n = 2] pipe_demo_ok
  by (simp add: pipe_demo_simps)

lemma pipe_demo_parks: "\<exists>k. pipe_read (int 0) 4 pipe_demo = (Parked, k) \<and> state (procs k 0x5000) = PROC_BLOCKED"
  using pipe_demo_ok(2) unfolding pipe_read_def pipe_read_pass_def by (simp add: pipe_demo_simps Let_def)

theorem pipe_reader_woken_witness:
  "\<exists>k. pipe_wait 0 0x5000 pipe_demo False k \<and> state (procs k 0x5000) = PROC_BLOCKED \<and> reader_waiter (pipes k 0) = 0x5000"
proof -
  obtain k where k: "pipe_read (int 0) 4 pipe_demo = (Parked, k)" "state (procs k 0x5000) = PROC_BLOCKED"
    using pipe_demo_parks by blast
  have w: "pipe_wait 0 0x5000 pipe_demo False k"
    by (rule wait_park[OF k(1)]) (simp add: pipe_demo_simps)
  from pipe_reader_woken[OF this pipe_demo_ok(1)] k(2) have "reader_waiter (pipes k 0) = 0x5000"
    by (simp add: proc_states)
  with w k(2) show ?thesis by blast
qed

text \<open>The pipe remembers one waiting reader only: when a second process parks on the same empty
  pipe, the next write wakes the second and leaves the first blocked, with the bytes still in the
  ring and nobody recorded to wake it.\<close>

theorem pipe_second_reader_strands_first:
  assumes p: "\<not> bad_pipe (int i) k" "pipe_ok (pipes k i)" "read_refs (pipes k i) \<noteq> 0"
    and ab: "a \<noteq> b"
    and ra: "pipe_read_pass i n a ca ua k = (Parked, k1)" and rb: "pipe_read_pass i n b cb ub k1 = (Parked, k2)"
    and w: "pipe_write (int i) [c] 1 k2 = (m, k3)"
  shows "m = 1 \<and> state (procs k3 b) = PROC_RUN \<and> state (procs k3 a) = PROC_BLOCKED \<and>
    queue (pipes k3 i) = [c] \<and> reader_waiter (pipes k3 i) = 0"
proof -
  note A = parks[OF ra] and B = parks[OF rb]
  have p2: "pipes k2 i = (pipes k i)\<lparr>reader_waiter := b\<rparr>" using A B by simp
  have q0: "queue (pipes k i) = []" using A by (simp add: queue_def)
  obtain v q where f: "pipe_fill [c] (pipes k2 i) = (v, q)" by fastforce
  have r: "v = 1" "queue q = [c]" "reader_waiter q = b"
    using pipe_fill_refines[OF _ f] p(2) A q0 by (auto simp: p2 PIPE_BUF_SIZE_def)
  have "m = 1 \<and> k3 = pipe_wake_reader i (set_pipe i q k2)"
    using w p(1,3) r(1) f by (auto simp: pipe_write_def bad_pipe_def p2 Let_def simp del: pipe_fill.simps split: if_splits)
  moreover have "state (procs k2 a) = PROC_BLOCKED" using A B ab by simp
  ultimately show ?thesis using r B ab
    by (simp add: wake_reader_pipe wake_reader_runs) (simp add: pipe_wake_reader_def)
qed

lemma pass_parks:
  assumes "self \<noteq> 0" "pipe_count (pipes k i) = 0" "write_refs (pipes k i) \<noteq> 0"
  obtains k' where "pipe_read_pass i n self cr3 ursp k = (Parked, k')"
  using assms unfolding pipe_read_pass_def by (simp add: Let_def)

theorem pipe_second_reader_strands_first_witness:
  "\<exists>k1 k2 k3. pipe_read_pass 0 4 0x5000 0 0 pipe_demo = (Parked, k1) \<and> pipe_read_pass 0 4 0x6000 0 0 k1 = (Parked, k2) \<and>
     pipe_write 0 [65] 1 k2 = (1, k3) \<and> state (procs k3 0x5000) = PROC_BLOCKED \<and> queue (pipes k3 0) = [65]"
proof -
  obtain k1 where 1: "pipe_read_pass 0 4 0x5000 0 0 pipe_demo = (Parked, k1)"
    by (rule pass_parks[of "0x5000" pipe_demo 0 4 0 0]) (simp_all add: pipe_demo_simps)
  obtain k2 where 2: "pipe_read_pass 0 4 0x6000 0 0 k1 = (Parked, k2)"
    by (rule pass_parks[of "0x6000" k1 0 4 0 0]) (simp_all add: pipe_demo_simps parks(5)[OF 1])
  obtain m k3 where 3: "pipe_write (int 0) [65] 1 k2 = (m, k3)" by fastforce
  have "m = 1 \<and> state (procs k3 0x6000) = PROC_RUN \<and> state (procs k3 0x5000) = PROC_BLOCKED \<and>
    queue (pipes k3 0) = [65] \<and> reader_waiter (pipes k3 0) = 0"
    by (rule pipe_second_reader_strands_first[OF _ pipe_demo_ok(1) _ _ 1 2 3])
      (simp_all add: pipe_demo_ok pipe_demo_simps)
  with 1 2 3 show ?thesis by simp
qed

end
