(* ===== verification/Sched.thy ===== *)
theory Sched
  imports Signal
begin

text \<open>
  The preemptive scheduler, \<open>src/kernel/process.c\<close> from \<open>sched_enable\<close> to \<open>irq_scheduler_tick\<close>:
  a weighted round robin over the process table, run from the timer interrupt of the boot processor.
  Kernel stacks are 64-bit words by address; a user process is resumed through the higher-half
  alias of its stack, so a read goes to the address below the alias.
\<close>

section \<open>Operations\<close>

definition KERNEL_BASE :: u64 where
  "KERNEL_BASE = 0xFFFFFF8000000000"

definition kword :: "u64 \<Rightarrow> kern \<Rightarrow> u64" where
  "kword a k = kstack_word k (if a \<ge> KERNEL_BASE then a - KERNEL_BASE else a)"

definition sched_enable :: "kern \<Rightarrow> kern" where
  "sched_enable k = k\<lparr>sched_enabled := True\<rparr>"

definition sched_disable :: "kern \<Rightarrow> kern" where
  "sched_disable k = k\<lparr>sched_enabled := False\<rparr>"

definition preempt_disable :: "kern \<Rightarrow> kern" where
  "preempt_disable k = k\<lparr>preempt_count := (preempt_count k)(cpu_number k := preempt_count k (cpu_number k) + 1)\<rparr>"

definition preempt_enable :: "kern \<Rightarrow> kern" where
  "preempt_enable k =
     (if preempt_count k (cpu_number k) > 0
      then k\<lparr>preempt_count := (preempt_count k)(cpu_number k := preempt_count k (cpu_number k) - 1)\<rparr>
      else k)"

definition sched_forget :: "u64 \<Rightarrow> kern \<Rightarrow> kern" where
  "sched_forget p k =
     (if p = 0 then k
      else k\<lparr>sched_cur := (\<lambda>i. if i < MAX_CPUS \<and> sched_cur k i = p then 0 else sched_cur k i)\<rparr>)"

text \<open>The code segment of a saved interrupt frame is its word 18.\<close>

definition frame_cs :: "u64 \<Rightarrow> kern \<Rightarrow> u64" where
  "frame_cs sp k = (if sp \<noteq> 0 then kword (sp + 18 * 8) k else 0x08)"

definition sched_target :: "u64 \<Rightarrow> kern \<Rightarrow> kern" where
  "sched_target p k =
     (let q = procs k p; k = k\<lparr>next_rsp := stack q\<rparr> in
      if page_directory q \<noteq> 0 then
        (let p_cs = frame_cs (stack q) k;
             k = k\<lparr>next_cr3 := (if p_cs AND 3 = 3 then page_directory q else kernel_pml4_phys (kvm k))\<rparr>;
             kstk = kernel_stack q + KERNEL_BASE
         in k\<lparr>tss_rsp0 := kstk, kernel_rsp := kstk\<rparr>)
      else k\<lparr>next_cr3 := kernel_pml4_phys (kvm k)\<rparr>)"

text \<open>The two timer loops at the start of a tick, over the table in order.\<close>

definition tick_due :: "u32 \<Rightarrow> u32 \<Rightarrow> bool" where
  "tick_due now t \<longleftrightarrow> t \<noteq> 0 \<and> 0 \<le>s (now - t)"

definition wake_sleeper :: "u64 \<Rightarrow> kern \<Rightarrow> kern" where
  "wake_sleeper p k =
     (if p \<noteq> 0 \<and> state (procs k p) = PROC_BLOCKED \<and> tick_due (tick_count k) (wake_tick (procs k p))
      then upd p (\<lambda>q. q\<lparr>wake_tick := 0, state := PROC_RUN\<rparr>) k else k)"

definition fire_alarm :: "u64 \<Rightarrow> kern \<Rightarrow> kern" where
  "fire_alarm p k =
     (if p \<noteq> 0 \<and> tick_due (tick_count k) (alarm_tick (procs k p))
      then signal_raise p SIGALRM (upd p (\<lambda>q. q\<lparr>alarm_tick := 0\<rparr>) k) else k)"

definition run_timers :: "kern \<Rightarrow> kern" where
  "run_timers k = fold fire_alarm (ptable k) (fold wake_sleeper (ptable k) k)"

definition eligible :: "u64 \<Rightarrow> kern \<Rightarrow> bool" where
  "eligible p k \<longleftrightarrow> p \<noteq> 0 \<and> state (procs k p) = PROC_RUN \<and> p \<noteq> idle_proc k \<and> stack (procs k p) \<noteq> 0 \<and>
     sched_cpu (procs k p) = 0 \<and> \<not> (page_directory (procs k p) \<noteq> 0 \<and> \<not> sched_managed (procs k p))"

definition turn :: "process \<Rightarrow> u32" where
  "turn q = (if sched_weight q \<noteq> 0 then sched_weight q else 1)"

text \<open>The scan for the next thread: indices after the current one, cyclically, ending with the current one.\<close>

definition scan :: "kern \<Rightarrow> nat option" where
  "scan k =
     (let n = length (ptable k) in
      map_option (\<lambda>i. (current_idx k + i) mod n)
        (List.find (\<lambda>i. eligible (ptable k ! ((current_idx k + i) mod n)) k) [1..<Suc n]))"

definition pick_next :: "u64 \<Rightarrow> kern \<Rightarrow> kern" where
  "pick_next cur k =
     (case scan k of
        Some idx \<Rightarrow>
          (let p = ptable k ! idx;
               k = k\<lparr>current_idx := idx, sched_cur := (sched_cur k)(cpu_number k := p)\<rparr>
           in sched_target p (upd p (\<lambda>q. q\<lparr>sched_quantum := turn q\<rparr>) k))
      | None \<Rightarrow>
          (if state (procs k cur) = PROC_RUN then upd cur (\<lambda>q. q\<lparr>sched_quantum := turn q\<rparr>) k else k))"

definition resume_default :: "u64 \<Rightarrow> kern \<Rightarrow> kern" where
  "resume_default cur k =
     (let k = k\<lparr>next_rsp := saved_rsp k\<rparr>;
          cur_cs = frame_cs (saved_rsp k) k;
          run = (if sched_cur k (cpu_number k) \<noteq> 0 then sched_cur k (cpu_number k) else cur)
      in k\<lparr>next_cr3 := (if run \<noteq> 0 \<and> page_directory (procs k run) \<noteq> 0 \<and> cur_cs AND 3 = 3
                       then page_directory (procs k run) else kernel_pml4_phys (kvm k))\<rparr>)"

definition irq_scheduler_tick :: "kern \<Rightarrow> kern" where
  "irq_scheduler_tick k =
     (let k = run_timers k;
          cur = (if current_idx k < length (ptable k) then ptable k ! current_idx k else 0);
          k = resume_default cur k in
      if \<not> sched_enabled k \<or> preempt_count k (cpu_number k) > 0 \<or> length (ptable k) = 0 then k
      else if cur = 0 then k
      else if state (procs k cur) = PROC_RUN \<and> sched_quantum (procs k cur) > 1
      then upd cur (\<lambda>q. q\<lparr>sched_quantum := sched_quantum q - 1\<rparr>) k
      else
        (let k = (if sched_cpu (procs k cur) = 0 then upd cur (\<lambda>q. q\<lparr>stack := saved_rsp k\<rparr>) k else k)
         in pick_next cur k))"

text \<open>The scheduler of an application processor, \<open>src/kernel/smp.c\<close>: the tasks pinned to this core.\<close>

definition ap_eligible :: "u64 \<Rightarrow> kern \<Rightarrow> bool" where
  "ap_eligible p k \<longleftrightarrow> p \<noteq> 0 \<and> state (procs k p) = PROC_RUN \<and> sched_cpu (procs k p) = int (cpu_number k) \<and>
     stack (procs k p) \<noteq> 0 \<and> \<not> (page_directory (procs k p) \<noteq> 0 \<and> \<not> sched_managed (procs k p))"

definition ap_scheduler_tick :: "kern \<Rightarrow> kern" where
  "ap_scheduler_tick k =
     (let c = cpu_number k; cur = sched_cur k c;
          k = (if cur \<noteq> 0 then upd cur (\<lambda>q. q\<lparr>stack := saved_rsp k\<rparr>) k
               else k\<lparr>idle_rsp := (idle_rsp k)(c := saved_rsp k)\<rparr>) in
      if preempt_count k c > 0
      then k\<lparr>next_rsp := saved_rsp k, next_cr3 := kernel_pml4_phys (kvm k)\<rparr>
      else
        (let n = length (ptable k) in
         case List.find (\<lambda>i. ap_eligible (ptable k ! ((sched_scan k c + i) mod n)) k) [1..<Suc n] of
           Some i \<Rightarrow>
             (let idx = (sched_scan k c + i) mod n; p = ptable k ! idx
              in sched_target p (k\<lparr>sched_scan := (sched_scan k)(c := idx), sched_cur := (sched_cur k)(c := p)\<rparr>))
         | None \<Rightarrow> k\<lparr>sched_cur := (sched_cur k)(c := 0), next_rsp := idle_rsp k c,
                     next_cr3 := kernel_pml4_phys (kvm k)\<rparr>))"

section \<open>What the timers leave alone\<close>

text \<open>Running a timer may set a process running; everything else the scheduler reads stays.\<close>

definition woken :: "process \<Rightarrow> process \<Rightarrow> bool" where
  "woken q q' \<longleftrightarrow> (state q' = state q \<or> state q' = PROC_RUN) \<and> stack q' = stack q \<and> sched_cpu q' = sched_cpu q \<and>
     page_directory q' = page_directory q \<and> sched_managed q' = sched_managed q \<and> kernel_stack q' = kernel_stack q \<and>
     sched_quantum q' = sched_quantum q \<and> sched_weight q' = sched_weight q"

definition timer_rel :: "kern \<Rightarrow> kern \<Rightarrow> bool" where
  "timer_rel k k' \<longleftrightarrow> (\<forall>p. woken (procs k p) (procs k' p)) \<and> (\<exists>f. k' = k\<lparr>procs := f\<rparr>)"

lemma woken_refl [simp]: "woken q q"
  by (simp add: woken_def)

lemma woken_trans: "woken a b \<Longrightarrow> woken b c \<Longrightarrow> woken a c"
  by (auto simp: woken_def)

lemma timer_rel_refl: "timer_rel k k"
  by (auto simp: timer_rel_def intro!: exI[of _ "procs k"])

lemma timer_rel_trans: "timer_rel a b \<Longrightarrow> timer_rel b c \<Longrightarrow> timer_rel a c"
  unfolding timer_rel_def by (auto intro: woken_trans)

lemma timer_rel_upd: "woken (procs k p) (f (procs k p)) \<Longrightarrow> timer_rel k (upd p f k)"
  by (auto simp: timer_rel_def upd_def)

lemma timer_rel_wake: "timer_rel k (wake_sleeper p k)"
  unfolding wake_sleeper_def by (auto intro!: timer_rel_refl timer_rel_upd simp: woken_def)

lemma timer_rel_alarm: "timer_rel k (fire_alarm p k)"
proof -
  have "timer_rel k (upd p (\<lambda>q. q\<lparr>alarm_tick := 0\<rparr>) k)" by (rule timer_rel_upd) (simp add: woken_def)
  moreover have "timer_rel k' (signal_raise p SIGALRM k')" for k'
    unfolding signal_raise_def by (auto intro!: timer_rel_refl timer_rel_upd simp: woken_def raise_on_def Let_def)
  ultimately show ?thesis unfolding fire_alarm_def using timer_rel_refl timer_rel_trans by presburger
qed

lemma timer_rel_fold: "(\<And>p k. timer_rel k (g p k)) \<Longrightarrow> timer_rel k (fold g ps k)"
proof (induction ps arbitrary: k)
  case (Cons p ps)
  show ?case using timer_rel_trans[OF Cons.prems(1)[of k p] Cons.IH[of "g p k"]] Cons.prems by simp
qed (simp add: timer_rel_refl)

lemma timer_rel_run: "timer_rel k (run_timers k)"
  unfolding run_timers_def
  by (rule timer_rel_trans[OF timer_rel_fold[of wake_sleeper] timer_rel_fold[of fire_alarm]])
    (simp_all add: timer_rel_wake timer_rel_alarm)

lemma woken_run_timers: "woken (procs k p) (procs (run_timers k) p)"
  using timer_rel_run[of k] by (simp add: timer_rel_def)

lemma run_timers_fields [simp]:
  "ptable (run_timers k) = ptable k" "current_idx (run_timers k) = current_idx k" "cpu_number (run_timers k) = cpu_number k"
  "saved_rsp (run_timers k) = saved_rsp k" "sched_enabled (run_timers k) = sched_enabled k"
  "preempt_count (run_timers k) = preempt_count k" "kvm (run_timers k) = kvm k" "kstack_word (run_timers k) = kstack_word k"
  "idle_proc (run_timers k) = idle_proc k" "sched_cur (run_timers k) = sched_cur k"
  using timer_rel_run[of k] by (auto simp: timer_rel_def)

lemma eligible_run_timers: "eligible p k \<Longrightarrow> eligible p (run_timers k)"
  using woken_run_timers[of k p] by (auto simp: woken_def eligible_def)

lemma quantum_run_timers [simp]:
  "sched_quantum (procs (run_timers k) p) = sched_quantum (procs k p)" "sched_weight (procs (run_timers k) p) = sched_weight (procs k p)"
  using woken_run_timers[of k p] by (auto simp: woken_def)

section \<open>The scan\<close>

text \<open>How many steps of the scan lie before index \<open>t\<close>.\<close>

definition dist :: "nat \<Rightarrow> nat \<Rightarrow> nat \<Rightarrow> nat" where
  "dist n c t = (t + n - c - 1) mod n"

lemma dist_step:
  assumes "c < n" "t < n"
  shows "(c + Suc (dist n c t)) mod n = t" "dist n c t < n"
proof -
  have "(c + Suc ((t + n - c - 1) mod n)) mod n = (Suc c + (t + n - c - 1)) mod n"
    using mod_add_right_eq[of "Suc c" "t + n - c - 1" n] by (simp only: add_Suc_right add_Suc)
  also have "Suc c + (t + n - c - 1) = t + n" using assms by simp
  finally show "(c + Suc (dist n c t)) mod n = t" using assms by (simp add: dist_def)
  show "dist n c t < n" using assms by (simp add: dist_def)
qed

lemma mod_add_cancel: "((a :: nat) + x) mod n = (a + y) mod n \<Longrightarrow> x mod n = y mod n"
  unfolding nat_mod_eq_iff by (metis add.assoc add_left_cancel)

lemma dist_unique:
  assumes "c < n" "t < n" "x < n" "(c + Suc x) mod n = t"
  shows "dist n c t = x"
proof -
  have "(Suc c + x) mod n = (Suc c + dist n c t) mod n"
    using assms(4) dist_step(1)[OF assms(1,2)] by simp
  then have "x mod n = dist n c t mod n" by (rule mod_add_cancel)
  then show ?thesis using dist_step(2)[OF assms(1,2)] assms(3) by simp
qed

lemma dist_after:
  assumes "c < n" "t < n" "i \<le> dist n c t"
  shows "dist n ((c + i) mod n) t = dist n c t - i"
proof (rule dist_unique)
  let ?d = "dist n c t"
  have "((c + i) mod n + Suc (?d - i)) mod n = (c + i + Suc (?d - i)) mod n" by (rule mod_add_left_eq)
  also have "c + i + Suc (?d - i) = c + Suc ?d" using assms(3) by simp
  finally show "((c + i) mod n + Suc (?d - i)) mod n = t" using dist_step(1)[OF assms(1,2)] by simp
  show "(c + i) mod n < n" "?d - i < n" using assms(1) dist_step(2)[OF assms(1,2)] by auto
qed (fact assms(2))

lemma scan_hit:
  assumes "t < length (ptable k)" "current_idx k < length (ptable k)" "eligible (ptable k ! t) k"
  obtains idx where "scan k = Some idx" "idx < length (ptable k)" "eligible (ptable k ! idx) k"
    "idx = t \<or> dist (length (ptable k)) idx t < dist (length (ptable k)) (current_idx k) t"
proof -
  let ?n = "length (ptable k)" and ?c = "current_idx k"
  let ?P = "\<lambda>i. eligible (ptable k ! ((?c + i) mod ?n)) k"
  let ?d = "dist ?n ?c t"
  have hit: "?P (Suc ?d)" "Suc ?d \<in> set [1..<Suc ?n]" using assms dist_step[OF assms(2,1)] by auto
  then obtain i where i: "List.find ?P [1..<Suc ?n] = Some i" by (metis find_None_iff not_None_eq)
  then obtain m where m: "m < length [1..<Suc ?n]" "?P i" "i = [1..<Suc ?n] ! m" "\<forall>j<m. \<not> ?P ([1..<Suc ?n] ! j)"
    unfolding find_Some_iff by blast
  have im: "i = Suc m" "m < ?n" using m(1,3) by (simp_all del: upt_Suc)
  have le: "i \<le> Suc ?d"
  proof (rule ccontr)
    assume "\<not> i \<le> Suc ?d"
    then have "?d < m" using im by simp
    then have "[1..<Suc ?n] ! ?d = Suc ?d" using im(2) by (simp del: upt_Suc)
    with m(4) \<open>?d < m\<close> hit(1) show False by metis
  qed
  let ?idx = "(?c + i) mod ?n"
  have "?idx = t \<or> dist ?n ?idx t < ?d"
  proof (cases "i = Suc ?d")
    case True
    then show ?thesis using dist_step(1)[OF assms(2,1)] by simp
  next
    case False
    then have "i \<le> ?d" "0 < i" using le im by auto
    then show ?thesis using dist_after[OF assms(2,1)] by simp
  qed
  moreover have "?idx < ?n" using assms(2) by (cases ?n) auto
  ultimately show ?thesis using that[of ?idx] i m(2) by (simp add: scan_def Let_def)
qed

section \<open>One tick\<close>

lemma resume_default_fields [simp]:
  "ptable (resume_default c k) = ptable k" "current_idx (resume_default c k) = current_idx k"
  "procs (resume_default c k) = procs k" "cpu_number (resume_default c k) = cpu_number k"
  "saved_rsp (resume_default c k) = saved_rsp k" "sched_enabled (resume_default c k) = sched_enabled k"
  "preempt_count (resume_default c k) = preempt_count k" "kvm (resume_default c k) = kvm k"
  "kstack_word (resume_default c k) = kstack_word k" "idle_proc (resume_default c k) = idle_proc k"
  "next_rsp (resume_default c k) = saved_rsp k"
  by (simp_all add: resume_default_def Let_def)

lemma sched_target_fields [simp]:
  "ptable (sched_target p k) = ptable k" "current_idx (sched_target p k) = current_idx k"
  "procs (sched_target p k) = procs k" "cpu_number (sched_target p k) = cpu_number k" "kvm (sched_target p k) = kvm k"
  "kstack_word (sched_target p k) = kstack_word k" "sched_cur (sched_target p k) = sched_cur k"
  "next_rsp (sched_target p k) = stack (procs k p)"
  by (simp_all add: sched_target_def Let_def)

abbreviation table_cur :: "kern \<Rightarrow> u64" where
  "table_cur k \<equiv> ptable k ! current_idx k"

text \<open>The state in which the scan runs, once the current thread's turn is over.\<close>

definition at_scan :: "kern \<Rightarrow> kern" where
  "at_scan k =
     (let k1 = resume_default (table_cur k) (run_timers k) in
      if sched_cpu (procs k1 (table_cur k)) = 0 then upd (table_cur k) (\<lambda>q. q\<lparr>stack := saved_rsp k1\<rparr>) k1 else k1)"

lemma at_scan_fields [simp]:
  "ptable (at_scan k) = ptable k" "current_idx (at_scan k) = current_idx k"
  "sched_quantum (procs (at_scan k) p) = sched_quantum (procs k p)" "sched_weight (procs (at_scan k) p) = sched_weight (procs k p)"
  "kvm (at_scan k) = kvm k" "kstack_word (at_scan k) = kstack_word k" "cpu_number (at_scan k) = cpu_number k"
  by (simp_all add: at_scan_def Let_def upd_def)

lemma eligible_at_scan: "eligible p k \<Longrightarrow> saved_rsp k \<noteq> 0 \<Longrightarrow> eligible p (at_scan k)"
  using eligible_run_timers[of p k] by (auto simp: at_scan_def Let_def eligible_def upd_def)

lemma tick_cases:
  assumes "current_idx k < length (ptable k)" "ptable k ! current_idx k \<noteq> 0" "sched_enabled k"
    "preempt_count k (cpu_number k) \<le> 0"
  obtains (keep) "1 < sched_quantum (procs k (table_cur k))"
      "irq_scheduler_tick k = upd (table_cur k) (\<lambda>q. q\<lparr>sched_quantum := sched_quantum q - 1\<rparr>)
         (resume_default (table_cur k) (run_timers k))"
    | (switch) "irq_scheduler_tick k = pick_next (table_cur k) (at_scan k)"
proof -
  have "length (ptable k) \<noteq> 0" using assms(1) by auto
  then show ?thesis using assms that unfolding irq_scheduler_tick_def
    by (cases "state (procs (run_timers k) (table_cur k)) = PROC_RUN \<and> 1 < sched_quantum (procs k (table_cur k))")
      (auto simp: Let_def at_scan_def)
qed

definition progress :: "nat \<Rightarrow> nat \<Rightarrow> kern \<Rightarrow> nat" where
  "progress W t k = dist (length (ptable k)) (current_idx k) t * (W + 1) + unat (sched_quantum (procs k (table_cur k)))"

definition weights_ok :: "nat \<Rightarrow> kern \<Rightarrow> bool" where
  "weights_ok W k \<longleftrightarrow> 1 \<le> W \<and> (\<forall>p \<in> set (ptable k). unat (sched_weight (procs k p)) \<le> W)"

definition quanta_ok :: "nat \<Rightarrow> kern \<Rightarrow> bool" where
  "quanta_ok W k \<longleftrightarrow> (\<forall>p \<in> set (ptable k). unat (sched_quantum (procs k p)) \<le> W)"

text \<open>The scheduler is on, in no critical section, and the process in slot \<open>t\<close> wants to run.\<close>

definition sched_ready :: "nat \<Rightarrow> kern \<Rightarrow> bool" where
  "sched_ready t k \<longleftrightarrow> sched_enabled k \<and> preempt_count k (cpu_number k) \<le> 0 \<and> saved_rsp k \<noteq> 0 \<and>
     current_idx k < length (ptable k) \<and> t < length (ptable k) \<and> 0 \<notin> set (ptable k) \<and> eligible (ptable k ! t) k"

lemma turn_le: "weights_ok W k \<Longrightarrow> p \<in> set (ptable k) \<Longrightarrow> unat (turn (procs k p)) \<le> W"
  by (auto simp: weights_ok_def turn_def)

lemma tick_progress:
  assumes r: "sched_ready t k" and w: "weights_ok W k" and q: "quanta_ok W k"
  shows "ptable (irq_scheduler_tick k) = ptable k \<and> quanta_ok W (irq_scheduler_tick k) \<and>
    (current_idx (irq_scheduler_tick k) = t \<or> progress W t (irq_scheduler_tick k) < progress W t k)"
proof -
  let ?c = "current_idx k" and ?n = "length (ptable k)"
  have c: "?c < ?n" "t < ?n" "table_cur k \<in> set (ptable k)" "table_cur k \<noteq> 0" "eligible (ptable k ! t) k" "saved_rsp k \<noteq> 0"
    using r by (auto simp: sched_ready_def) (metis nth_mem)
  have en: "sched_enabled k" "preempt_count k (cpu_number k) \<le> 0" using r by (auto simp: sched_ready_def)
  from c(1,4) en show ?thesis
  proof (cases rule: tick_cases)
    case keep
    have "unat (sched_quantum (procs k (table_cur k)) - 1) = unat (sched_quantum (procs k (table_cur k))) - 1"
      "0 < unat (sched_quantum (procs k (table_cur k)))"
      using unat_dec[of "sched_quantum (procs k (table_cur k))"] keep(1)
      by (cases "sched_quantum (procs k (table_cur k)) = 0"; auto simp: word_less_nat_alt)+
    then show ?thesis using q c(3) unfolding keep(2) by (auto simp: progress_def quanta_ok_def upd_def intro: le_trans[OF diff_le_self])
  next
    case switch
    let ?k = "at_scan k"
    obtain idx where i: "scan ?k = Some idx" "idx < ?n" "eligible (ptable k ! idx) ?k"
      "idx = t \<or> dist ?n idx t < dist ?n ?c t"
      using scan_hit[of t ?k] c eligible_at_scan[of "ptable k ! t" k] by auto
    let ?p = "ptable k ! idx"
    have k': "irq_scheduler_tick k = sched_target ?p (upd ?p (\<lambda>q. q\<lparr>sched_quantum := turn q\<rparr>)
        (?k\<lparr>current_idx := idx, sched_cur := (sched_cur ?k)(cpu_number k := ?p)\<rparr>))"
      unfolding switch pick_next_def using i(1) by (simp add: Let_def)
    have "unat (turn (procs ?k ?p)) \<le> W" using turn_le[OF w nth_mem[OF i(2)]] by (simp add: turn_def split: if_splits)
    moreover have "dist ?n idx t * (W + 1) + W < dist ?n ?c t * (W + 1)" if "dist ?n idx t < dist ?n ?c t"
    proof -
      have "(dist ?n idx t + 1) * (W + 1) \<le> dist ?n ?c t * (W + 1)" using that by (intro mult_right_mono) auto
      then show ?thesis by (simp add: algebra_simps)
    qed
    ultimately show ?thesis using i(4) q unfolding k' by (auto simp: progress_def quanta_ok_def upd_def)
  qed
qed

section \<open>What a tick resumes\<close>

lemma frame_cs_cong: "kstack_word k' = kstack_word k \<Longrightarrow> frame_cs sp k' = frame_cs sp k"
  by (simp add: frame_cs_def kword_def)

lemma frame_cs_simps [simp]:
  "frame_cs sp (k\<lparr>next_rsp := a\<rparr>) = frame_cs sp k" "frame_cs sp (resume_default c k) = frame_cs sp k"
  "frame_cs sp (sched_target p k) = frame_cs sp k" "frame_cs sp (upd p f k) = frame_cs sp k"
  by (rule frame_cs_cong, simp)+

lemma resume_default_ring:
  "frame_cs (next_rsp (resume_default c k)) (resume_default c k) AND 3 \<noteq> 3 \<Longrightarrow>
   next_cr3 (resume_default c k) = kernel_pml4_phys (kvm k)"
  unfolding frame_cs_simps resume_default_fields by (simp add: resume_default_def Let_def)

lemma sched_target_cr3:
  "next_cr3 (sched_target p k) =
     (if page_directory (procs k p) \<noteq> 0 \<and> frame_cs (stack (procs k p)) k AND 3 = 3
      then page_directory (procs k p) else kernel_pml4_phys (kvm k))"
  "page_directory (procs k p) \<noteq> 0 \<Longrightarrow> tss_rsp0 (sched_target p k) = kernel_stack (procs k p) + KERNEL_BASE"
  by (simp_all add: sched_target_def Let_def)

lemma sched_target_ring:
  "frame_cs (next_rsp (sched_target p k)) (sched_target p k) AND 3 \<noteq> 3 \<Longrightarrow>
     next_cr3 (sched_target p k) = kernel_pml4_phys (kvm k)"
  by (simp add: sched_target_cr3)

lemma upd_ring:
  assumes "frame_cs (next_rsp k) k AND 3 \<noteq> 3 \<Longrightarrow> next_cr3 k = c"
  shows "frame_cs (next_rsp (upd p f k)) (upd p f k) AND 3 \<noteq> 3 \<Longrightarrow> next_cr3 (upd p f k) = c"
  using assms by simp

lemma at_scan_ring:
  "frame_cs (next_rsp (at_scan k)) (at_scan k) AND 3 \<noteq> 3 \<Longrightarrow> next_cr3 (at_scan k) = kernel_pml4_phys (kvm k)"
  unfolding at_scan_def Let_def
  using upd_ring[OF resume_default_ring] resume_default_ring[of "table_cur k" "run_timers k"] by (auto split: if_splits)

lemma scan_some:
  assumes "scan k = Some idx"
  shows "idx < length (ptable k)" "eligible (ptable k ! idx) k"
proof -
  from assms obtain i where i: "List.find (\<lambda>i. eligible (ptable k ! ((current_idx k + i) mod length (ptable k))) k)
      [1..<Suc (length (ptable k))] = Some i" "idx = (current_idx k + i) mod length (ptable k)"
    by (auto simp: scan_def Let_def)
  then show "eligible (ptable k ! idx) k" by (auto simp: find_Some_iff)
  from i(1) have "length (ptable k) \<noteq> 0" by (auto simp: find_Some_iff)
  then show "idx < length (ptable k)" using i(2) by simp
qed

section \<open>Properties\<close>

text \<open>C22: A tick never resumes a ring-0 context on a user address space, whichever branch it takes;
  and when it switches threads, the new current process is runnable, managed, on this CPU's list and
  recorded as running, it resumes from its saved stack, and a user process interrupted in ring 3
  gets its own page directory and its own kernel stack for the next entry.\<close>

theorem sched_tick_resumes_safely:
  fixes k defines "k' \<equiv> irq_scheduler_tick k"
  shows "(frame_cs (next_rsp k') k' AND 3 \<noteq> 3 \<longrightarrow> next_cr3 k' = kernel_pml4_phys (kvm k)) \<and>
    (current_idx k' \<noteq> current_idx k \<longrightarrow>
      (let p = ptable k' ! current_idx k' in
        current_idx k' < length (ptable k) \<and> eligible p k' \<and> sched_cur k' (cpu_number k) = p \<and>
        next_rsp k' = stack (procs k' p) \<and>
        (page_directory (procs k' p) \<noteq> 0 \<longrightarrow> tss_rsp0 k' = kernel_stack (procs k' p) + KERNEL_BASE \<and>
          (frame_cs (stack (procs k' p)) k' AND 3 = 3 \<longrightarrow> next_cr3 k' = page_directory (procs k' p)))))"
proof -
  let ?cur = "if current_idx (run_timers k) < length (ptable (run_timers k)) then table_cur (run_timers k) else 0"
  let ?d = "resume_default ?cur (run_timers k)"
  show ?thesis
  proof (cases "k' = pick_next (table_cur k) (at_scan k)")
    case sw: True
    show ?thesis
    proof (cases "scan (at_scan k)")
      case None
      then show ?thesis using at_scan_ring[of k] upd_ring[OF at_scan_ring, of k] unfolding sw pick_next_def by simp
    next
      case (Some idx)
      let ?p = "ptable k ! idx"
      let ?u = "upd ?p (\<lambda>q. q\<lparr>sched_quantum := turn q\<rparr>)
        ((at_scan k)\<lparr>current_idx := idx, sched_cur := (sched_cur (at_scan k))(cpu_number k := ?p)\<rparr>)"
      have k': "k' = sched_target ?p ?u" unfolding sw pick_next_def using Some by (simp add: Let_def)
      have "eligible ?p (at_scan k)" "idx < length (ptable k)" using scan_some[OF Some] by simp_all
      then have "eligible ?p k'" unfolding k' by (simp add: eligible_def) (simp add: sched_target_def Let_def upd_def)
      moreover have "frame_cs sp k' = frame_cs sp ?u" for sp unfolding k' by (rule frame_cs_cong) simp
      moreover have "kvm ?u = kvm k" by simp
      ultimately show ?thesis using \<open>idx < length (ptable k)\<close> unfolding k' by (simp add: Let_def sched_target_cr3)
    qed
  next
    case False
    then have "k' = ?d \<or> k' = upd (table_cur k) (\<lambda>q. q\<lparr>sched_quantum := sched_quantum q - 1\<rparr>) ?d"
      unfolding k'_def irq_scheduler_tick_def by (auto simp: Let_def at_scan_def)
    then show ?thesis using resume_default_ring[of ?cur "run_timers k"] upd_ring[OF resume_default_ring, of ?cur "run_timers k"] by auto
  qed
qed

text \<open>C21: Round robin starves nobody. Let the table have \<open>n\<close> entries and every weight be at most
  \<open>W\<close>, and let the kernel run any code between ticks that leaves the table, the cursor and the
  quanta alone. A process that stays runnable is current within \<open>n * (W + 1)\<close> ticks.\<close>

theorem sched_starvation_free:
  assumes ready: "\<And>m. sched_ready t (ks m)" and w: "\<And>m. weights_ok W (ks m)" and q0: "quanta_ok W (ks 0)"
    and run: "\<And>m. ptable (ks (Suc m)) = ptable (irq_scheduler_tick (ks m)) \<and>
      current_idx (ks (Suc m)) = current_idx (irq_scheduler_tick (ks m)) \<and>
      (\<forall>p. sched_quantum (procs (ks (Suc m)) p) = sched_quantum (procs (irq_scheduler_tick (ks m)) p))"
  shows "\<exists>m < length (ptable (ks 0)) * (W + 1). current_idx (irq_scheduler_tick (ks m)) = t"
proof (rule ccontr)
  let ?B = "length (ptable (ks 0)) * (W + 1)"
  assume "\<not> ?thesis"
  then have no: "current_idx (irq_scheduler_tick (ks m)) \<noteq> t" if "m < ?B" for m using that by blast
  have q: "quanta_ok W (ks m)" for m
  proof (induction m)
    case (Suc m)
    then show ?case using tick_progress[OF ready w Suc] run[of m] by (simp add: quanta_ok_def)
  qed (fact q0)
  have dec: "progress W t (ks (Suc m)) < progress W t (ks m)" if "m < ?B" for m
  proof -
    have "progress W t (ks (Suc m)) = progress W t (irq_scheduler_tick (ks m))" using run[of m] by (simp add: progress_def)
    then show ?thesis using tick_progress[OF ready w q, of m] no[OF that] by simp
  qed
  have le: "m \<le> ?B \<Longrightarrow> progress W t (ks m) + m \<le> progress W t (ks 0)" for m
  proof (induction m)
    case (Suc m)
    then show ?case using dec[of m] by simp
  qed simp
  have c: "current_idx (ks 0) < length (ptable (ks 0))" "t < length (ptable (ks 0))"
    using ready[of 0] by (simp_all add: sched_ready_def)
  then have "unat (sched_quantum (procs (ks 0) (table_cur (ks 0)))) \<le> W" using q0 by (simp add: quanta_ok_def)
  moreover have "(dist (length (ptable (ks 0))) (current_idx (ks 0)) t + 1) * (W + 1) \<le> ?B"
    using dist_step(2)[OF c] by (intro mult_right_mono) auto
  ultimately have "progress W t (ks 0) < ?B" by (simp add: progress_def algebra_simps)
  then show False using le[of ?B] by simp
qed

text \<open>Two kernel threads, the first at the end of its turn.\<close>

definition two_threads :: kern where
  "two_threads = kern_example\<lparr>ptable := [0x5000, 0x6000], sched_enabled := True, saved_rsp := 0x9000,
     procs := (\<lambda>_. zero_process)(0x5000 := zero_process\<lparr>state := PROC_RUN, stack := 0x7000\<rparr>,
       0x6000 := zero_process\<lparr>state := PROC_RUN, stack := 0x8000, sched_quantum := 1\<rparr>)\<rparr>"

lemma two_threads_ready: "sched_ready 1 two_threads" "weights_ok 1 two_threads" "quanta_ok 1 two_threads"
  by (simp_all add: sched_ready_def weights_ok_def quanta_ok_def two_threads_def kern_example_def zero_process_def eligible_def)

text \<open>A trace of it: each state is the tick of the previous one, with the stacks and states restored.\<close>

fun thread_trace :: "nat \<Rightarrow> kern" where
  "thread_trace 0 = two_threads"
| "thread_trace (Suc m) =
     (let k' = irq_scheduler_tick (thread_trace m)
      in two_threads\<lparr>current_idx := current_idx k',
           procs := (\<lambda>p. (procs two_threads p)\<lparr>sched_quantum := sched_quantum (procs k' p)\<rparr>)\<rparr>)"

lemma thread_trace_ready:
  "sched_ready 1 (thread_trace m) \<and> weights_ok 1 (thread_trace m) \<and> quanta_ok 1 (thread_trace m) \<and>
   ptable (thread_trace m) = ptable two_threads"
proof (induction m)
  case (Suc m)
  let ?k = "thread_trace m" and ?t = "irq_scheduler_tick (thread_trace m)"
  have p: "ptable ?t = ptable ?k" "quanta_ok 1 ?t" using tick_progress[of 1 ?k 1] Suc by auto
  have "current_idx ?t < length (ptable ?t)"
  proof -
    have c: "current_idx ?k < length (ptable ?k)" "table_cur ?k \<noteq> 0" "sched_enabled ?k" "preempt_count ?k (cpu_number ?k) \<le> 0"
      using Suc by (auto simp: sched_ready_def) (metis nth_mem)
    then show ?thesis
    proof (cases rule: tick_cases)
      case keep
      then show ?thesis using c(1) by simp
    next
      case switch
      then show ?thesis using c(1) scan_some(1)[of "at_scan ?k"]
        by (auto simp: pick_next_def Let_def split: option.split)
    qed
  qed
  with Suc p two_threads_ready show ?case
    by (auto simp: sched_ready_def weights_ok_def quanta_ok_def eligible_def Let_def)
qed (use two_threads_ready in simp)

theorem sched_starvation_free_witness:
  "\<exists>m < 4. current_idx (irq_scheduler_tick (thread_trace m)) = 1"
proof -
  have "\<exists>m < length (ptable (thread_trace 0)) * (1 + 1). current_idx (irq_scheduler_tick (thread_trace m)) = 1"
  proof (rule sched_starvation_free)
    fix m
    show "sched_ready 1 (thread_trace m)" "weights_ok 1 (thread_trace m)" using thread_trace_ready[of m] by auto
    show "ptable (thread_trace (Suc m)) = ptable (irq_scheduler_tick (thread_trace m)) \<and>
      current_idx (thread_trace (Suc m)) = current_idx (irq_scheduler_tick (thread_trace m)) \<and>
      (\<forall>p. sched_quantum (procs (thread_trace (Suc m)) p) = sched_quantum (procs (irq_scheduler_tick (thread_trace m)) p))"
      using thread_trace_ready[of m] tick_progress[of 1 "thread_trace m" 1] by (simp add: Let_def)
  qed (use two_threads_ready in simp)
  moreover have "length (ptable (thread_trace 0)) = 2" by (simp add: two_threads_def)
  ultimately show ?thesis by simp
qed

lemma two_threads_switch: "current_idx (irq_scheduler_tick two_threads) = 1" "ptable (irq_scheduler_tick two_threads) = [0x5000, 0x6000]"
proof -
  have t: "current_idx two_threads = 0" "ptable two_threads = [0x5000, 0x6000]" "sched_enabled two_threads"
    "preempt_count two_threads (cpu_number two_threads) \<le> 0" "sched_quantum (procs two_threads 0x5000) = 0"
    by (simp_all add: two_threads_def kern_example_def zero_process_def)
  have e: "eligible 0x6000 (at_scan two_threads)"
    using two_threads_ready(1) by (intro eligible_at_scan) (simp_all add: sched_ready_def t)
  have "scan (at_scan two_threads) = Some 1"
    unfolding scan_def using e by (simp add: t Let_def upt_rec)
  then have "pick_next (table_cur two_threads) (at_scan two_threads) = sched_target 0x6000
      (upd 0x6000 (\<lambda>q. q\<lparr>sched_quantum := turn q\<rparr>) ((at_scan two_threads)\<lparr>current_idx := 1,
        sched_cur := (sched_cur (at_scan two_threads))(cpu_number two_threads := 0x6000)\<rparr>))"
    by (simp add: pick_next_def t Let_def)
  moreover have "irq_scheduler_tick two_threads = pick_next (table_cur two_threads) (at_scan two_threads)"
    by (rule tick_cases[of two_threads]) (use t in simp_all)
  ultimately show "current_idx (irq_scheduler_tick two_threads) = 1" "ptable (irq_scheduler_tick two_threads) = [0x5000, 0x6000]"
    by (simp_all add: t)
qed

theorem sched_tick_resumes_safely_witness:
  "eligible 0x6000 (irq_scheduler_tick two_threads) \<and>
   next_rsp (irq_scheduler_tick two_threads) = stack (procs (irq_scheduler_tick two_threads) 0x6000)"
proof -
  have "current_idx two_threads = 0" by (simp add: two_threads_def kern_example_def)
  then show ?thesis using sched_tick_resumes_safely[of two_threads] by (simp add: two_threads_switch Let_def)
qed

end
