(* ===== verification/Mmap.thy ===== *)
theory Mmap
  imports Signal
begin

text \<open>
  Anonymous and file-backed mappings, \<open>src/kernel/mmap.c\<close>, and the page-fault handler of
  \<open>src/kernel/paging.c\<close> that materialises heap, mapping and stack pages. Every operation works on the
  table of the thread group's leader. The contents of a mapped file come from \<open>vfs_pread\<close>, an
  argument here: the return value and the bytes it stored. \<open>None\<close> is a kernel panic.
\<close>

section \<open>Constants\<close>

definition PROT_WRITE :: u32 where "PROT_WRITE = 2"
definition PROT_EXEC :: u32 where "PROT_EXEC = 4"
definition MMAP_BASE :: u64 where "MMAP_BASE = 0x100000000"
definition MMAP_MAX :: u64 where "MMAP_MAX = 0x0000700000000000"
definition USER_STACK_TOP :: u64 where "USER_STACK_TOP = 0x00007FFFFFFFE000"
definition USER_STACK_LOW :: u64 where "USER_STACK_LOW = USER_STACK_TOP - (128 - 1) * 4096"

section \<open>Calls into the allocators\<close>

definition k_alloc :: "u64 \<Rightarrow> kern \<Rightarrow> (u64 \<times> kern) option" where
  "k_alloc n k = map_option (\<lambda>(p, m). (p, k\<lparr>kmm := m\<rparr>)) (km_alloc n (kmm k))"

definition k_free :: "u64 \<Rightarrow> kern \<Rightarrow> kern" where
  "k_free p k = k\<lparr>kmm := kfree p (kmm k)\<rparr>"

definition k_store :: "u64 \<Rightarrow> u8 list \<Rightarrow> kern \<Rightarrow> kern" where
  "k_store a bs k = k\<lparr>kmm := (kmm k)\<lparr>km_bytes := (\<lambda>x. if unat (x - a) < length bs then bs ! unat (x - a)
     else km_bytes (kmm k) x)\<rparr>\<rparr>"

definition set_vma :: "u64 \<Rightarrow> nat \<Rightarrow> (vma \<Rightarrow> vma) \<Rightarrow> kern \<Rightarrow> kern" where
  "set_vma p i f k = upd p (\<lambda>q. q\<lparr>mmap_vmas := (mmap_vmas q)(i := f (mmap_vmas q i))\<rparr>) k"

section \<open>Mappings\<close>

definition free_buf :: "u64 \<Rightarrow> nat \<Rightarrow> kern \<Rightarrow> kern" where
  "free_buf p i k =
     (if vma_file_buf (mmap_vmas (procs k p) i) \<noteq> 0
      then set_vma p i (\<lambda>v. v\<lparr>vma_file_buf := 0, vma_file_size := 0\<rparr>) (k_free (vma_file_buf (mmap_vmas (procs k p) i)) k)
      else k)"

definition mmap_free_bufs :: "u64 \<Rightarrow> kern \<Rightarrow> kern" where
  "mmap_free_bufs p k = (if p = 0 then k else fold (free_buf p) [0..<PROC_MAX_VMAS] k)"

definition in_vma :: "u64 \<Rightarrow> vma \<Rightarrow> bool" where
  "in_vma addr v \<longleftrightarrow> vma_used v \<and> addr \<ge> vma_start v \<and> addr < vma_end v"

definition vma_find :: "u64 \<Rightarrow> u64 \<Rightarrow> kern \<Rightarrow> vma option" where
  "vma_find p addr k =
     (let p = tg_leader p k in
      if p = 0 then None
      else map_option (mmap_vmas (procs k p)) (find_idx PROC_MAX_VMAS (\<lambda>i. in_vma addr (mmap_vmas (procs k p) i))))"

definition round_up :: "u64 \<Rightarrow> u64" where
  "round_up n = (n + 0xFFF) AND NOT 0xFFF"

definition commit_vma :: "u64 \<Rightarrow> nat \<Rightarrow> u64 \<Rightarrow> u64 \<Rightarrow> u32 \<Rightarrow> u64 \<Rightarrow> u32 \<Rightarrow> kern \<Rightarrow> kern" where
  "commit_vma p slot base len prot fb snap k =
     set_vma p slot (\<lambda>_. \<lparr>vma_start = base, vma_end = base + len, vma_prot = prot, vma_used = True,
       vma_file_buf = fb, vma_file_size = snap\<rparr>) (upd p (\<lambda>q. q\<lparr>mmap_next := base + len\<rparr>) k)"

definition do_mmap ::
  "(u32 \<Rightarrow> u32 \<Rightarrow> u32 \<Rightarrow> int \<times> u8 list) \<Rightarrow> u64 \<Rightarrow> u32 \<Rightarrow> u32 \<Rightarrow> u32 \<Rightarrow> u32 \<Rightarrow> kern \<Rightarrow> (u64 \<times> kern) option" where
  "do_mmap vfs_pread len prot file_handle file_size file_off k =
     (let p = tg_leader (get_current_process k) k in
      if p = 0 \<or> len = 0 then Some (- 1, k)
      else
        (let len = round_up len;
             k = (if mmap_next (procs k p) < MMAP_BASE then upd p (\<lambda>q. q\<lparr>mmap_next := MMAP_BASE\<rparr>) k else k) in
         case find_idx PROC_MAX_VMAS (\<lambda>i. \<not> vma_used (mmap_vmas (procs k p) i)) of
           None \<Rightarrow> Some (- 1, k)
         | Some slot \<Rightarrow>
             (let base = mmap_next (procs k p) in
              if base + len > MMAP_MAX \<or> base + len < base then Some (- 1, k)
              else if file_handle \<noteq> 0 \<and> file_off < file_size then
                (let snap = file_size - file_off in
                 case k_alloc (ucast snap) k of
                   None \<Rightarrow> None
                 | Some (fb, k) \<Rightarrow>
                     if fb = 0 then Some (- 1, k)
                     else
                       (let (r, bs) = vfs_pread file_handle snap file_off in
                        if r < 0 then Some (- 1, k_free fb k)
                        else Some (base, commit_vma p slot base len prot fb snap (k_store fb (take (unat snap) bs) k))))
              else Some (base, commit_vma p slot base len prot 0 0 k))))"

definition user_range :: "u64 \<Rightarrow> u64 \<Rightarrow> bool" where
  "user_range addr e \<longleftrightarrow> \<not> (e \<le> addr \<or> addr < USER_SPACE_MIN \<or> e > USER_SPACE_END)"

definition protect_vma :: "u64 \<Rightarrow> u64 \<Rightarrow> u64 \<Rightarrow> u32 \<Rightarrow> nat \<Rightarrow> kern \<Rightarrow> kern" where
  "protect_vma p addr e prot i k =
     (let v = mmap_vmas (procs k p) i in
      if vma_used v \<and> vma_start v < e \<and> vma_end v > addr then set_vma p i (\<lambda>v. v\<lparr>vma_prot := prot\<rparr>) k else k)"

definition do_mprotect :: "u64 \<Rightarrow> u64 \<Rightarrow> u32 \<Rightarrow> kern \<Rightarrow> (int \<times> kern) option" where
  "do_mprotect addr len prot k =
     (let p = tg_leader (get_current_process k) k in
      if p = 0 \<or> page_directory (procs k p) = 0 \<or> len = 0 then Some (- 1, k)
      else
        (let addr = addr AND NOT 0xFFF; e = addr + round_up len in
         if \<not> user_range addr e then Some (- 1, k)
         else
           (let k = fold (protect_vma p addr e prot) [0..<PROC_MAX_VMAS] k in
            case vm_protect_range (page_directory (procs k p)) addr e prot (vm_of k) of
              None \<Rightarrow> None
            | Some v \<Rightarrow> Some (0, put_vm v k))))"

definition drop_vma :: "u64 \<Rightarrow> u64 \<Rightarrow> u64 \<Rightarrow> nat \<Rightarrow> kern \<Rightarrow> kern" where
  "drop_vma p addr e i k =
     (let v = mmap_vmas (procs k p) i in
      if vma_used v \<and> vma_start v \<ge> addr \<and> vma_end v \<le> e
      then set_vma p i (\<lambda>v. v\<lparr>vma_used := False\<rparr>) (free_buf p i k) else k)"

definition do_munmap :: "u64 \<Rightarrow> u64 \<Rightarrow> kern \<Rightarrow> (int \<times> kern) option" where
  "do_munmap addr len k =
     (let p = tg_leader (get_current_process k) k in
      if p = 0 \<or> page_directory (procs k p) = 0 \<or> len = 0 then Some (- 1, k)
      else
        (let addr = addr AND NOT 0xFFF; e = addr + round_up len in
         if \<not> user_range addr e then Some (- 1, k)
         else
           (case vm_free_range (page_directory (procs k p)) addr e (vm_of k) of
              None \<Rightarrow> None
            | Some v \<Rightarrow> Some (0, fold (drop_vma p addr e) [0..<PROC_MAX_VMAS] (put_vm v k)))))"

section \<open>Page faults\<close>

text \<open>A fresh zeroed page, mapped present, writable, user and non-executable: heap and stack growth.\<close>

definition grow_page :: "u64 \<Rightarrow> u64 \<Rightarrow> vm \<Rightarrow> (bool \<times> vm) option" where
  "grow_page pml4 cr2 s =
     (let (page, s) = alloc_zeroed s in
      if page = 0 then Some (False, s)
      else
        (case map_page_dir pml4 page (cr2 AND NOT 0xFFF) (0x7 OR PAGE_NX) s of
           Panic \<Rightarrow> None
         | Ret s \<Rightarrow> Some (True, (tlb (Invlpg cr2) s)\<lparr>vm_demand_faults := vm_demand_faults s + 1\<rparr>)))"

text \<open>The slice of a file snapshot that belongs to the page at \<open>off\<close>.\<close>

definition fill_slice :: "kmem \<Rightarrow> vma \<Rightarrow> u64 \<Rightarrow> u64 \<Rightarrow> vm \<Rightarrow> vm" where
  "fill_slice m v off page s =
     (if vma_file_buf v \<noteq> 0 \<and> off < ucast (vma_file_size v) then
        (let n = (if off + 4096 > ucast (vma_file_size v) then unat (vma_file_size v - ucast off) else 4096)
         in s\<lparr>pbytes := (\<lambda>x. if unat (x - page) < n then km_bytes m (vma_file_buf v + off + (x - page)) else pbytes s x)\<rparr>)
      else s)"

definition vma_flags :: "vma \<Rightarrow> u64" where
  "vma_flags v = PAGE_PRESENT OR PAGE_USER OR (if vma_prot v AND PROT_WRITE \<noteq> 0 then PAGE_WRITABLE else 0) OR
     (if vma_prot v AND PROT_EXEC = 0 then PAGE_NX else 0)"

definition vma_page :: "kmem \<Rightarrow> vma \<Rightarrow> u64 \<Rightarrow> u64 \<Rightarrow> vm \<Rightarrow> bool \<times> vm" where
  "vma_page m v pml4 cr2 s =
     (case pte_ptr pml4 cr2 True s of
        (None, s) \<Rightarrow> (False, s)
      | (Some mpte, s) \<Rightarrow>
          (let (page, s) = alloc_zeroed s in
           if page = 0 then (False, s)
           else
             (let s = fill_slice m v ((cr2 AND NOT 0xFFF) - vma_start v) page s;
                  s = set_ptw mpte ((page AND PTE_ADDR_MASK) OR vma_flags v) s
              in (True, (tlb (Invlpg cr2) s)\<lparr>vm_demand_faults := vm_demand_faults s + 1\<rparr>))))"

definition in_heap :: "u64 \<Rightarrow> process \<Rightarrow> bool" where
  "in_heap cr2 q \<longleftrightarrow> heap_start q \<ge> USER_SPACE_MIN \<and> program_break q > heap_start q \<and> cr2 \<ge> heap_start q \<and> cr2 < program_break q"

definition vm_handle_fault :: "u64 \<Rightarrow> u64 \<Rightarrow> kern \<Rightarrow> (bool \<times> kern) option" where
  "vm_handle_fault cr2 err k =
     (let p = get_current_process k; user = has err 0x4;
          proc = (p \<noteq> 0 \<and> page_directory (procs k p) \<noteq> 0);
          pml4 = (if user \<and> proc then page_directory (procs k p) else current_pml4 (kvm k));
          absent = (user \<and> \<not> has err 0x1 \<and> proc); mm = tg_leader p k;
          put = (\<lambda>(b, v). (b, put_vm v k)) in
      if pml4 = 0 then Some (False, k)
      else if absent \<and> mm \<noteq> 0 \<and> in_heap cr2 (procs k mm) then map_option put (grow_page pml4 cr2 (vm_of k))
      else
        (case (if absent then vma_find p cr2 k else None) of
           Some v \<Rightarrow> Some (put (vma_page (kmm k) v pml4 cr2 (vm_of k)))
         | None \<Rightarrow>
             if absent \<and> cr2 \<ge> USER_STACK_LOW \<and> cr2 < USER_STACK_TOP + 4096
             then map_option put (grow_page pml4 cr2 (vm_of k))
             else if user \<and> p \<noteq> 0 \<and> cr2 \<ge> USER_STACK_LOW - 4096 \<and> cr2 < USER_STACK_LOW then Some (False, k)
             else Some (put (fault_pte pml4 cr2 err (vm_of k)))))"

section \<open>A private data page\<close>

lemma zero_free_frame:
  assumes wf: "wf_pt s r" and f: "f \<in> free_set (v_pmm s)" "f < MAX_PAGES"
    and s'_def: "s' = zero_page (frame_addr f) (s\<lparr>v_pmm := alloc_at f (v_pmm s)\<rparr>)"
  shows "wf_pt s' r" "upath p \<Longrightarrow> tab_at s' r p = tab_at s r p" "user_va va \<Longrightarrow> pte_val s' r va = pte_val s r va"
proof -
  let ?t = "s\<lparr>v_pmm := alloc_at f (v_pmm s)\<rparr>"
  have eq: "ptw s' (ent a i) = ptw s (ent a i)" if q: "upath q" "i < 512" "tab_at s r q = Some a" for q i a
  proof -
    obtain g where g: "g < MAX_PAGES" "a = frame_addr g" "g \<noteq> f"
      using wf_ptD(3)[OF wf q(1,3)] f(1) unfolding tframe_def by blast
    then show ?thesis using in_frame[OF f(2) g(1) q(2)] by (auto simp: s'_def zero_page_def)
  qed
  have eq': "ptw s' (ent a i) = ptw s (ent a i)" if "upath (q @ [i])" "tab_at s r q = Some a" for q i a
    using eq[OF upath_prefix[OF that(1)] _ that(2)] that(1) by (auto simp: upath_def)
  have wt: "wf_pt ?t r"
  proof (rule wf_pt_pmm[OF wf, where F = "{}"])
    show "pmm_inv (v_pmm ?t)" using pmm_inv_alloc_at[OF wf_ptD(1)[OF wf] f(1)] by simp
  qed auto
  have tt: "tab_at ?t r q = tab_at s r q" for q by (rule tab_at_ptw) simp
  show "wf_pt s' r" by (rule wf_pt_cong[OF wt]) (use eq' tt in \<open>simp_all add: s'_def\<close>)
  show t: "upath p \<Longrightarrow> tab_at s' r p = tab_at s r p" for p by (rule tab_at_cong[OF _ eq'])
  show "user_va va \<Longrightarrow> pte_val s' r va = pte_val s r va"
    using t[OF upath_vpath] eq[OF upath_vpath _ _] pt_idx_less by (auto simp: pte_val_def split: option.split)
qed

text \<open>What a page of a mapping holds when it is first touched: its slice of the file, then zeros.\<close>

definition slice_byte :: "kmem \<Rightarrow> vma \<Rightarrow> u64 \<Rightarrow> nat \<Rightarrow> u8" where
  "slice_byte m v off i =
     (if vma_file_buf v \<noteq> 0 \<and> unat off + i < unat (vma_file_size v) then km_bytes m (vma_file_buf v + off + of_nat i) else 0)"

lemma unat_page_off:
  assumes "i < 4096"
  shows "unat (a + of_nat i - a :: u64) = i"
  using assms unat_addr[of i] by simp

lemma slice_len:
  assumes "off < (ucast (sz :: u32) :: u64)"
  shows "(if off + 4096 > ucast sz then unat (sz - ucast off) else 4096) = min 4096 (unat sz - unat off)"
proof -
  have s: "unat (ucast sz :: u64) = unat sz" using u32_bound[of sz] by (simp add: unsigned_ucast_eq take_bit_eq_mod)
  have o: "unat off < unat sz" using assms by (simp add: word_less_nat_alt s)
  then have c: "unat (ucast off :: u32) = unat off" using u32_bound[of sz] by (simp add: unsigned_ucast_eq take_bit_eq_mod)
  have "unat (sz - ucast off) = unat sz - unat off" using o c by (subst unat_sub) (simp_all add: word_le_nat_alt)
  moreover have "unat (off + 4096) = unat off + 4096" using o u32_bound[of sz] by (simp add: unat_word_ariths)
  ultimately show ?thesis by (simp add: word_less_nat_alt s)
qed

lemma fill_slice_fields [simp]:
  "ptw (fill_slice m v off pg s) = ptw s" "v_pmm (fill_slice m v off pg s) = v_pmm s"
  by (simp_all add: fill_slice_def Let_def)

lemma fill_slice_bytes:
  assumes "i < 4096" and "pbytes s (pg + of_nat i) = 0"
  shows "pbytes (fill_slice m v off pg s) (pg + of_nat i) = slice_byte m v off i"
proof (cases "vma_file_buf v \<noteq> 0 \<and> off < ucast (vma_file_size v)")
  case True
  have s: "unat (ucast (vma_file_size v) :: u64) = unat (vma_file_size v)"
    using u32_bound[of "vma_file_size v"] by (simp add: unsigned_ucast_eq take_bit_eq_mod)
  have "unat off < unat (vma_file_size v)" using True by (simp add: word_less_nat_alt s)
  then show ?thesis using True assms slice_len[of off "vma_file_size v"] unat_page_off[OF assms(1), of pg]
    by (auto simp: fill_slice_def slice_byte_def Let_def)
next
  case False
  have "unat (ucast (vma_file_size v) :: u64) = unat (vma_file_size v)"
    using u32_bound[of "vma_file_size v"] by (simp add: unsigned_ucast_eq take_bit_eq_mod)
  then show ?thesis using False assms(2) by (auto simp: fill_slice_def slice_byte_def word_less_nat_alt)
qed

text \<open>The copy stays inside the page.\<close>

lemma fill_slice_outside:
  assumes "pg \<le> x \<Longrightarrow> pg + 4096 \<le> x" "unat pg + 4096 < 2 ^ 64"
  shows "pbytes (fill_slice m v off pg s) x = pbytes s x"
proof (cases "vma_file_buf v \<noteq> 0 \<and> off < ucast (vma_file_size v)")
  case True
  have "4096 \<le> unat (x - pg)"
  proof (cases "pg \<le> x")
    case pg: True
    have "unat (pg + 4096) = unat pg + 4096" using assms(2) by (simp add: unat_word_ariths)
    then show ?thesis using assms(1)[OF pg] pg by (simp add: word_le_nat_alt unat_sub)
  next
    case False
    then have "unat (x - pg) = unat x + 2 ^ 64 - unat pg" by (simp add: word_le_nat_alt unat_sub_if')
    with assms(2) show ?thesis by linarith
  qed
  then show ?thesis using True slice_len[of off "vma_file_size v"] by (simp add: fill_slice_def Let_def)
qed (auto simp: fill_slice_def)

text \<open>A page fault changes neither a byte nor the count of a frame that was in use.\<close>

lemma vma_page_frame:
  assumes wf: "wf_pt s r" and u: "user_va cr2" and p: "vma_page m v r cr2 s = (ok, s')"
  shows "(\<forall>f \<in> free_set (v_pmm s). \<not> (frame_addr f \<le> x \<and> x < frame_addr f + 4096)) \<Longrightarrow> pbytes s' x = pbytes s x"
    "g \<notin> free_set (v_pmm s) \<Longrightarrow> page_refcount (v_pmm s') g = page_refcount (v_pmm s) g"
proof -
  obtain q t where q: "pte_ptr r cr2 True s = (q, t)" by fastforce
  note C = pte_ptr_creates[OF wf u q]
  have g: "wf_pt t r" "free_set (v_pmm t) \<subseteq> free_set (v_pmm s)"
      "g \<notin> free_set (v_pmm s) \<Longrightarrow> page_refcount (v_pmm t) g = page_refcount (v_pmm s) g"
      "(\<forall>f \<in> free_set (v_pmm s). \<not> (frame_addr f \<le> x \<and> x < frame_addr f + 4096)) \<Longrightarrow> pbytes t x = pbytes s x" for x g
    using C(1) by (auto simp: grows_def)
  have "((\<forall>f \<in> free_set (v_pmm s). \<not> (frame_addr f \<le> x \<and> x < frame_addr f + 4096)) \<longrightarrow> pbytes s' x = pbytes s x) \<and>
    (g \<notin> free_set (v_pmm s) \<longrightarrow> page_refcount (v_pmm s') g = page_refcount (v_pmm s) g)" for x g
  proof (cases q)
    case None
    then show ?thesis using p q g by (simp add: vma_page_def)
  next
    case (Some a)
    show ?thesis
      using wf_ptD(1,2)[OF g(1)]
    proof (cases rule: alloc_zeroed_cases)
      case none
      then show ?thesis using p q Some g by (simp add: vma_page_def)
    next
      case (some f)
      let ?z = "zero_page (frame_addr f) (t\<lparr>v_pmm := alloc_at f (v_pmm t)\<rparr>)"
      have s': "pbytes s' = pbytes (fill_slice m v ((cr2 AND NOT 0xFFF) - vma_start v) (frame_addr f) ?z)" "v_pmm s' = alloc_at f (v_pmm t)"
        using p q Some some(4,5) by (auto simp: vma_page_def Let_def zero_page_def)
      have fs: "f \<in> free_set (v_pmm s)" using some(1) g(2) by blast
      have "unat (frame_addr f) + 4096 < 2 ^ 64" using frame_addr_idx(3)[OF some(3)] some(3) by (simp add: MAX_PAGES_def)
      then have "pbytes s' x = pbytes t x" if "\<not> (frame_addr f \<le> x \<and> x < frame_addr f + 4096)"
        unfolding s'(1) using that by (subst fill_slice_outside) (auto simp: zero_page_def)
      then show ?thesis using fs g(3)[of g] g(4)[of x] s'(2) by (auto simp: alloc_at_def)
    qed
  qed
  then show "(\<forall>f \<in> free_set (v_pmm s). \<not> (frame_addr f \<le> x \<and> x < frame_addr f + 4096)) \<Longrightarrow> pbytes s' x = pbytes s x"
    "g \<notin> free_set (v_pmm s) \<Longrightarrow> page_refcount (v_pmm s') g = page_refcount (v_pmm s) g" by blast+
qed

lemma vma_page_maps:
  assumes wf: "wf_pt s r" and u: "user_va cr2" and p: "vma_page m v r cr2 s = (ok, s')"
  shows "wf_pt s' r" "user_va va \<Longrightarrow> \<not> same_page va cr2 \<Longrightarrow> pte_val s' r va = pte_val s r va"
    "ok \<Longrightarrow> \<exists>f \<in> free_set (v_pmm s). pte_val s' r cr2 = frame_addr f OR vma_flags v \<and>
       (\<forall>i < 4096. pbytes s' (frame_addr f + of_nat i) = slice_byte m v ((cr2 AND NOT 0xFFF) - vma_start v) i)"
    "\<not> ok \<Longrightarrow> free_set (v_pmm s') = {}"
proof -
  obtain q t where q: "pte_ptr r cr2 True s = (q, t)" by fastforce
  note C = pte_ptr_creates[OF wf u q]
  have g: "wf_pt t r" "\<And>va. user_va va \<Longrightarrow> pte_val t r va = pte_val s r va" "free_set (v_pmm t) \<subseteq> free_set (v_pmm s)"
    using C(1) by (auto simp: grows_def)
  have *: "wf_pt s' r \<and> (\<forall>va. user_va va \<longrightarrow> \<not> same_page va cr2 \<longrightarrow> pte_val s' r va = pte_val s r va) \<and>
    (ok \<longrightarrow> (\<exists>f \<in> free_set (v_pmm s). pte_val s' r cr2 = frame_addr f OR vma_flags v \<and>
       (\<forall>i < 4096. pbytes s' (frame_addr f + of_nat i) = slice_byte m v ((cr2 AND NOT 0xFFF) - vma_start v) i))) \<and>
    (\<not> ok \<longrightarrow> free_set (v_pmm s') = {})"
  proof (cases q)
    case None
    then show ?thesis using p q C(3) g by (simp add: vma_page_def)
  next
    case (Some a)
    then obtain tb where tb: "tab_at t r (vpath cr2) = Some tb" "a = ent tb (pt_idx 3 cr2)" using C(2) by blast
    show ?thesis
      using wf_ptD(1,2)[OF g(1)]
    proof (cases rule: alloc_zeroed_cases)
      case none
      then show ?thesis using p q Some g by (simp add: vma_page_def)
    next
      case (some f)
      let ?off = "(cr2 AND NOT 0xFFF) - vma_start v"
      let ?z = "zero_page (frame_addr f) (t\<lparr>v_pmm := alloc_at f (v_pmm t)\<rparr>)"
      let ?w = "fill_slice m v ?off (frame_addr f) ?z"
      let ?s = "set_ptw a (frame_addr f OR vma_flags v) ?w"
      note Z = zero_free_frame[OF g(1) some(1,3) refl]
      have ww: "wf_pt ?w r" by (rule wf_pt_pmm[OF Z(1), where F = "{}"]) (use wf_ptD(1)[OF Z(1)] in auto)
      have tw: "tab_at ?w r (vpath cr2) = Some tb"
        using tab_at_ptw[of ?w ?z] Z(2)[OF upath_vpath[OF u]] tb(1) by simp
      note L = leaf_write[OF ww u tw refl[of "set_ptw (ent tb (pt_idx 3 cr2)) (frame_addr f OR vma_flags v) ?w"], folded tb(2)]
      have fm: "frame_addr f AND PTE_ADDR_MASK = frame_addr f"
        using frame_word_masks(1)[OF frame_word_addr[OF some(3)], of 0] by simp
      have s': "ok" "ptw s' = ptw ?s" "v_pmm s' = v_pmm ?s" "pbytes s' = pbytes ?w"
        using p q Some some(4,5) fm by (auto simp: vma_page_def Let_def)
      have pz: "pbytes ?z (frame_addr f + of_nat i) = 0" if "i < 4096" for i
        using in_page[OF some(3) some(3) that] by (simp add: zero_page_def)
      have "\<forall>i < 4096. pbytes s' (frame_addr f + of_nat i) = slice_byte m v ?off i"
        unfolding s'(4) using fill_slice_bytes[OF _ pz] by blast
      moreover have "wf_pt s' r" by (rule wf_pt_pmm[OF L(1), where F = "{}"]) (use s' wf_ptD(1)[OF L(1)] in auto)
      moreover have "pte_val s' r va = pte_val s r va" if "user_va va" "\<not> same_page va cr2" for va
      proof -
        have "pte_val s' r va = pte_val ?s r va" by (rule pte_val_ptw[OF s'(2)])
        also have "\<dots> = pte_val ?w r va" using L(4)[OF that(1)] that(2) by (auto simp: same_page_def)
        also have "\<dots> = pte_val ?z r va" by (rule pte_val_ptw) simp
        finally show ?thesis using Z(3)[OF that(1)] g(2)[OF that(1)] by simp
      qed
      moreover have "pte_val s' r cr2 = frame_addr f OR vma_flags v" using pte_val_ptw[OF s'(2)] L(3) by simp
      ultimately show ?thesis using s'(1) some(1) g(3) by blast
    qed
  qed
  from * show "wf_pt s' r" "user_va va \<Longrightarrow> \<not> same_page va cr2 \<Longrightarrow> pte_val s' r va = pte_val s r va"
    "ok \<Longrightarrow> \<exists>f \<in> free_set (v_pmm s). pte_val s' r cr2 = frame_addr f OR vma_flags v \<and>
       (\<forall>i < 4096. pbytes s' (frame_addr f + of_nat i) = slice_byte m v ((cr2 AND NOT 0xFFF) - vma_start v) i)"
    "\<not> ok \<Longrightarrow> free_set (v_pmm s') = {}" by blast+
qed

section \<open>The table of regions\<close>

definition vmas_ok :: "process \<Rightarrow> bool" where
  "vmas_ok q \<longleftrightarrow>
     (\<forall>i < PROC_MAX_VMAS. let v = mmap_vmas q i in vma_used v \<longrightarrow>
        MMAP_BASE \<le> vma_start v \<and> vma_start v \<le> vma_end v \<and> vma_end v \<le> mmap_next q) \<and>
     (\<forall>i < PROC_MAX_VMAS. \<forall>j < PROC_MAX_VMAS. let v = mmap_vmas q i; w = mmap_vmas q j in
        i \<noteq> j \<longrightarrow> vma_used v \<longrightarrow> vma_used w \<longrightarrow> vma_end v \<le> vma_start w \<or> vma_end w \<le> vma_start v) \<and>
     mmap_next q \<le> MMAP_MAX"

definition vmas_inv :: "kern \<Rightarrow> bool" where
  "vmas_inv k \<longleftrightarrow> (\<forall>p. vmas_ok (procs k p))"

lemma vmas_ok_next: "vmas_ok q \<Longrightarrow> mmap_next q \<le> n \<Longrightarrow> n \<le> MMAP_MAX \<Longrightarrow> vmas_ok (q\<lparr>mmap_next := n\<rparr>)"
  unfolding vmas_ok_def Let_def by (auto intro: order_trans)

text \<open>Shrinking or re-labelling entries keeps the table in order.\<close>

lemma vmas_ok_sub:
  assumes ok: "vmas_ok q" and n: "mmap_next q' = mmap_next q"
    and sub: "\<And>i. vma_used (mmap_vmas q' i) \<Longrightarrow> vma_used (mmap_vmas q i) \<and>
      vma_start (mmap_vmas q' i) = vma_start (mmap_vmas q i) \<and> vma_end (mmap_vmas q' i) = vma_end (mmap_vmas q i)"
  shows "vmas_ok q'"
  using ok sub unfolding vmas_ok_def Let_def n by metis

lemma vmas_ok_new:
  assumes ok: "vmas_ok q" and i: "i < PROC_MAX_VMAS" "\<not> vma_used (mmap_vmas q i)"
    and b: "MMAP_BASE \<le> mmap_next q" "mmap_next q \<le> mmap_next q + n" "mmap_next q + n \<le> MMAP_MAX"
    and v: "vma_start v = mmap_next q" "vma_end v = mmap_next q + n"
  shows "vmas_ok (q\<lparr>mmap_next := mmap_next q + n, mmap_vmas := (mmap_vmas q)(i := v)\<rparr>)"
proof -
  have 1: "MMAP_BASE \<le> vma_start (mmap_vmas q j) \<and> vma_start (mmap_vmas q j) \<le> vma_end (mmap_vmas q j) \<and>
      vma_end (mmap_vmas q j) \<le> mmap_next q" if "j < PROC_MAX_VMAS" "vma_used (mmap_vmas q j)" for j
    using ok that by (auto simp: vmas_ok_def Let_def)
  have 2: "vma_end (mmap_vmas q j) \<le> vma_start (mmap_vmas q l) \<or> vma_end (mmap_vmas q l) \<le> vma_start (mmap_vmas q j)"
    if "j < PROC_MAX_VMAS" "l < PROC_MAX_VMAS" "j \<noteq> l" "vma_used (mmap_vmas q j)" "vma_used (mmap_vmas q l)" for j l
    using ok that unfolding vmas_ok_def Let_def by blast
  show ?thesis
    unfolding vmas_ok_def Let_def
  proof (intro conjI allI impI)
    fix j assume j: "j < PROC_MAX_VMAS" and u: "vma_used (mmap_vmas (q\<lparr>mmap_next := mmap_next q + n, mmap_vmas := (mmap_vmas q)(i := v)\<rparr>) j)"
    let ?w = "mmap_vmas (q\<lparr>mmap_next := mmap_next q + n, mmap_vmas := (mmap_vmas q)(i := v)\<rparr>) j"
    show "MMAP_BASE \<le> vma_start ?w" using 1[OF j] u b v by (cases "j = i") auto
    show "vma_start ?w \<le> vma_end ?w" using 1[OF j] u b v by (cases "j = i") auto
    show "vma_end ?w \<le> mmap_next (q\<lparr>mmap_next := mmap_next q + n, mmap_vmas := (mmap_vmas q)(i := v)\<rparr>)"
      using 1[OF j] u b v by (cases "j = i") (auto intro: order_trans)
    fix l assume l: "l < PROC_MAX_VMAS" and ne: "j \<noteq> l"
      and ul: "vma_used (mmap_vmas (q\<lparr>mmap_next := mmap_next q + n, mmap_vmas := (mmap_vmas q)(i := v)\<rparr>) l)"
    let ?x = "mmap_vmas (q\<lparr>mmap_next := mmap_next q + n, mmap_vmas := (mmap_vmas q)(i := v)\<rparr>) l"
    show "vma_end ?w \<le> vma_start ?x \<or> vma_end ?x \<le> vma_start ?w"
      using 1[OF j] 1[OF l] 2[OF j l ne] u ul ne v by (cases "j = i"; cases "l = i") auto
  qed (use b(3) in simp)
qed

text \<open>Everything but the process objects is out of reach of the allocators' calls here.\<close>

lemma k_procs [simp]:
  "k_alloc n k = Some (a, k') \<Longrightarrow> procs k' = procs k" "procs (k_free a k) = procs k" "procs (k_store a bs k) = procs k"
  "k_alloc n k = Some (a, k') \<Longrightarrow> ptable k' = ptable k" "ptable (k_free a k) = ptable k" "ptable (k_store a bs k) = ptable k"
  by (auto simp: k_alloc_def k_free_def k_store_def)

lemma tg_leader_cong:
  assumes "ptable k' = ptable k" and "\<And>x. pid (procs k' x) = pid (procs k x) \<and> tgid (procs k' x) = tgid (procs k x)"
  shows "tg_leader p k' = tg_leader p k"
  using assms by (simp add: tg_leader_def find_process_def)

lemma mmap_result:
  assumes d: "do_mmap pread len prot h sz off k = Some (a, k')" and p: "p = tg_leader (get_current_process k) k"
    and n: "n = round_up len" "b = (if mmap_next (procs k p) < MMAP_BASE then MMAP_BASE else mmap_next (procs k p))"
  shows "(a = - 1 \<and> (procs k' = procs k \<or> procs k' = (procs k)(p := (procs k p)\<lparr>mmap_next := b\<rparr>))) \<or>
    (\<exists>slot < PROC_MAX_VMAS. \<exists>v. a = b \<and> \<not> vma_used (mmap_vmas (procs k p) slot) \<and> b \<le> b + n \<and> b + n \<le> MMAP_MAX \<and>
      vma_start v = b \<and> vma_end v = b + n \<and> vma_prot v = prot \<and> vma_used v \<and>
      procs k' = (procs k)(p := (procs k p)\<lparr>mmap_next := b + n, mmap_vmas := (mmap_vmas (procs k p))(slot := v)\<rparr>)) \<and>
    ptable k' = ptable k \<and> len \<noteq> 0"
proof (cases "p = 0 \<or> len = 0")
  case True
  then show ?thesis using d p by (auto simp: do_mmap_def Let_def)
next
  case False
  define k1 where "k1 = (if mmap_next (procs k p) < MMAP_BASE then upd p (\<lambda>q. q\<lparr>mmap_next := MMAP_BASE\<rparr>) k else k)"
  have k1: "procs k1 = (procs k)(p := (procs k p)\<lparr>mmap_next := b\<rparr>)" "ptable k1 = ptable k" "mmap_next (procs k1 p) = b"
    "mmap_vmas (procs k1 p) = mmap_vmas (procs k p)"
    by (auto simp: k1_def n(2) upd_def)
  have c: "procs (commit_vma p slot b n prot fb snap k2) = (procs k)(p := (procs k p)\<lparr>mmap_next := b + n,
      mmap_vmas := (mmap_vmas (procs k p))(slot := \<lparr>vma_start = b, vma_end = b + n, vma_prot = prot, vma_used = True,
       vma_file_buf = fb, vma_file_size = snap\<rparr>)\<rparr>)" "ptable (commit_vma p slot b n prot fb snap k2) = ptable k2"
    if "procs k2 = procs k1" for slot fb snap k2
    using that k1 by (auto simp: commit_vma_def set_vma_def upd_def)
  show ?thesis
  proof (cases "find_idx PROC_MAX_VMAS (\<lambda>i. \<not> vma_used (mmap_vmas (procs k1 p) i))")
    case None
    then have "Some (a, k') = Some (- 1, k1)"
      using d False unfolding do_mmap_def p[symmetric] Let_def k1_def[symmetric] by (simp del: find_idx_None)
    then show ?thesis using k1 by simp
  next
    case (Some slot)
    note sl = find_idx_SomeD(1,2)[OF Some]
    show ?thesis
    proof (cases "b + n > MMAP_MAX \<or> b + n < b")
      case True
      then have "Some (a, k') = Some (- 1, k1)"
        using d False Some k1(3) unfolding do_mmap_def p[symmetric] Let_def k1_def[symmetric] n(1)[symmetric] by simp
      then show ?thesis using k1 by simp
    next
      case b: False
      let ?snap = "sz - off"
      have "Some (a, k') = (if h \<noteq> 0 \<and> off < sz then
          (case k_alloc (ucast ?snap) k1 of None \<Rightarrow> None
           | Some (fb, k) \<Rightarrow> if fb = 0 then Some (- 1, k)
               else (let (r, bs) = pread h ?snap off in if r < 0 then Some (- 1, k_free fb k)
                     else Some (b, commit_vma p slot b n prot fb ?snap (k_store fb (take (unat ?snap) bs) k))))
        else Some (b, commit_vma p slot b n prot 0 0 k1))"
        using d False Some b unfolding do_mmap_def p[symmetric] Let_def k1_def[symmetric] n(1)[symmetric] k1(3)
        by (simp split del: if_split)
      then have "(a = - 1 \<and> procs k' = procs k1) \<or> (\<exists>fb snap k2. procs k2 = procs k1 \<and> ptable k2 = ptable k1 \<and>
          a = b \<and> k' = commit_vma p slot b n prot fb snap k2)"
        by (auto simp: Let_def split: if_splits option.splits prod.splits)
          (metis k_procs)+
      then show ?thesis
      proof (elim disjE exE conjE)
        fix fb snap k2 assume k2: "procs k2 = procs k1" "ptable k2 = ptable k1" "a = b" "k' = commit_vma p slot b n prot fb snap k2"
        show ?thesis using sl b False k1(2,4) c[OF k2(1)] k2
          by (intro disjI2 conjI exI[of _ slot] exI) auto
      qed (use k1 in simp)
    qed
  qed
qed

lemma vmas_inv_upd: "vmas_inv k \<Longrightarrow> procs k' = (procs k)(p := q) \<Longrightarrow> vmas_ok q \<Longrightarrow> vmas_inv k'"
  by (simp add: vmas_inv_def)

lemma MMAP_BASE_MAX: "MMAP_BASE \<le> MMAP_MAX"
  by (simp add: MMAP_BASE_def MMAP_MAX_def)

lemma vmas_inv_mmap:
  assumes i: "vmas_inv k" and d: "do_mmap pread len prot h sz off k = Some (a, k')"
  shows "vmas_inv k'"
proof -
  define p where "p = tg_leader (get_current_process k) k"
  define n where "n = round_up len"
  define b where "b = (if mmap_next (procs k p) < MMAP_BASE then MMAP_BASE else mmap_next (procs k p))"
  have ok: "vmas_ok (procs k p)" using i by (simp add: vmas_inv_def)
  then have nx: "mmap_next (procs k p) \<le> MMAP_MAX" by (simp add: vmas_ok_def)
  have okb: "vmas_ok ((procs k p)\<lparr>mmap_next := b\<rparr>)"
    by (rule vmas_ok_next[OF ok]) (use MMAP_BASE_MAX nx in \<open>auto simp: b_def\<close>)
  have bb: "MMAP_BASE \<le> b" by (auto simp: b_def)
  from mmap_result[OF d p_def n_def b_def] show ?thesis
  proof (elim disjE conjE exE)
    assume "procs k' = procs k"
    then show ?thesis using i by (simp add: vmas_inv_def)
  next
    assume "procs k' = (procs k)(p := (procs k p)\<lparr>mmap_next := b\<rparr>)"
    then show ?thesis by (rule vmas_inv_upd[OF i _ okb])
  next
    fix slot v assume s: "slot < PROC_MAX_VMAS" "\<not> vma_used (mmap_vmas (procs k p) slot)" "b \<le> b + n" "b + n \<le> MMAP_MAX"
      "vma_start v = b" "vma_end v = b + n"
      and k': "procs k' = (procs k)(p := (procs k p)\<lparr>mmap_next := b + n, mmap_vmas := (mmap_vmas (procs k p))(slot := v)\<rparr>)"
    have "vmas_ok (((procs k p)\<lparr>mmap_next := b\<rparr>)\<lparr>mmap_next := b + n, mmap_vmas := (mmap_vmas (procs k p))(slot := v)\<rparr>)"
      using vmas_ok_new[OF okb s(1), of n v] s bb by simp
    then show ?thesis using vmas_inv_upd[OF i k'] by simp
  qed
qed

text \<open>The loops of \<open>mprotect\<close> and \<open>munmap\<close> over the table only relabel or drop entries.\<close>

definition vmas_sub :: "kern \<Rightarrow> kern \<Rightarrow> bool" where
  "vmas_sub k k' \<longleftrightarrow> (\<forall>p. mmap_next (procs k' p) = mmap_next (procs k p) \<and>
     (\<forall>i. vma_used (mmap_vmas (procs k' p) i) \<longrightarrow> vma_used (mmap_vmas (procs k p) i) \<and>
        vma_start (mmap_vmas (procs k' p) i) = vma_start (mmap_vmas (procs k p) i) \<and>
        vma_end (mmap_vmas (procs k' p) i) = vma_end (mmap_vmas (procs k p) i)))"

lemma vmas_sub_refl [simp]: "vmas_sub k k"
  by (simp add: vmas_sub_def)

lemma vmas_sub_trans: "vmas_sub a b \<Longrightarrow> vmas_sub b c \<Longrightarrow> vmas_sub a c"
  unfolding vmas_sub_def by metis

lemma vmas_sub_inv: "vmas_sub k k' \<Longrightarrow> vmas_inv k \<Longrightarrow> vmas_inv k'"
  unfolding vmas_inv_def vmas_sub_def by (blast intro: vmas_ok_sub)

lemma vmas_sub_set:
  "(\<And>v. vma_used (f v) \<Longrightarrow> vma_used v \<and> vma_start (f v) = vma_start v \<and> vma_end (f v) = vma_end v) \<Longrightarrow>
   vmas_sub k (set_vma p i f k)"
  by (auto simp: vmas_sub_def set_vma_def upd_def)

lemma vmas_sub_free_buf: "vmas_sub k (free_buf p i k)"
proof -
  have "vmas_sub k (k_free a k)" for a by (simp add: vmas_sub_def)
  then show ?thesis unfolding free_buf_def by (auto intro!: vmas_sub_trans[OF _ vmas_sub_set])
qed

lemma vmas_sub_fold: "(\<And>i k. vmas_sub k (g i k)) \<Longrightarrow> vmas_sub k (fold g is k)"
proof (induction "is" arbitrary: k)
  case (Cons i "is")
  show ?case using vmas_sub_trans[OF Cons.prems(1)[of k i] Cons.IH[of "g i k"]] Cons.prems by simp
qed simp

lemma vmas_sub_put_vm: "vmas_sub k (put_vm v k)"
  by (simp add: vmas_sub_def)

lemma vmas_sub_mprotect: "do_mprotect addr len prot k = Some (r, k') \<Longrightarrow> vmas_sub k k'"
proof -
  have "vmas_sub k (protect_vma p a e prot i k)" for p a e i k
    by (auto simp: protect_vma_def Let_def intro!: vmas_sub_set)
  then show "do_mprotect addr len prot k = Some (r, k') \<Longrightarrow> vmas_sub k k'"
    unfolding do_mprotect_def Let_def
    by (auto split: if_splits option.splits intro: vmas_sub_trans[OF vmas_sub_fold vmas_sub_put_vm])
qed

lemma vmas_sub_munmap: "do_munmap addr len k = Some (r, k') \<Longrightarrow> vmas_sub k k'"
proof -
  have "vmas_sub k (drop_vma p a e i k)" for p a e i k
    unfolding drop_vma_def Let_def by (auto intro!: vmas_sub_trans[OF vmas_sub_free_buf vmas_sub_set])
  then show "do_munmap addr len k = Some (r, k') \<Longrightarrow> vmas_sub k k'"
    unfolding do_munmap_def Let_def
    by (auto split: if_splits option.splits intro: vmas_sub_trans[OF vmas_sub_put_vm vmas_sub_fold])
qed

inductive mmap_step :: "kern \<Rightarrow> kern \<Rightarrow> bool" where
  "do_mmap pread len prot h sz off k = Some (a, k') \<Longrightarrow> mmap_step k k'"
| "do_munmap addr len k = Some (r, k') \<Longrightarrow> mmap_step k k'"
| "do_mprotect addr len prot k = Some (r, k') \<Longrightarrow> mmap_step k k'"
| "(\<And>p. mmap_vmas (procs k' p) = mmap_vmas (procs k p) \<and> mmap_next (procs k' p) = mmap_next (procs k p)) \<Longrightarrow> mmap_step k k'"

lemma vmas_inv_step: "mmap_step k k' \<Longrightarrow> vmas_inv k \<Longrightarrow> vmas_inv k'"
proof (induction rule: mmap_step.induct)
  case (4 k' k)
  then have "vmas_sub k k'" by (simp add: vmas_sub_def)
  then show ?case using 4 vmas_sub_inv by blast
qed (blast intro: vmas_inv_mmap vmas_sub_inv vmas_sub_munmap vmas_sub_mprotect)+

lemma vmas_inv_steps: "mmap_step\<^sup>*\<^sup>* k k' \<Longrightarrow> vmas_inv k \<Longrightarrow> vmas_inv k'"
  by (induction rule: rtranclp_induct) (auto intro: vmas_inv_step)

lemma vma_find_None:
  "vma_find c x k = None \<longleftrightarrow> tg_leader c k = 0 \<or>
     (\<forall>i < PROC_MAX_VMAS. \<not> in_vma x (mmap_vmas (procs k (tg_leader c k)) i))"
  by (simp add: vma_find_def Let_def)

lemma vma_find_only:
  assumes "tg_leader c k \<noteq> 0" "i < PROC_MAX_VMAS" "in_vma x (mmap_vmas (procs k (tg_leader c k)) i)"
    "\<And>j. j < PROC_MAX_VMAS \<Longrightarrow> in_vma x (mmap_vmas (procs k (tg_leader c k)) j) \<Longrightarrow> j = i"
  shows "vma_find c x k = Some (mmap_vmas (procs k (tg_leader c k)) i)"
proof -
  have "find_idx PROC_MAX_VMAS (\<lambda>i. in_vma x (mmap_vmas (procs k (tg_leader c k)) i)) = Some i"
    unfolding find_idx_Some using assms(2-) by (metis order.strict_trans nat_neq_iff)
  then show ?thesis using assms(1) by (simp add: vma_find_def Let_def)
qed

lemma fault_in_vma:
  assumes "p = get_current_process k" "p \<noteq> 0" "pd = page_directory (procs k p)" "pd \<noteq> 0" "has err 4" "\<not> has err 1"
    "vma_find p cr2 k = Some v" "\<not> in_heap cr2 (procs k (tg_leader p k))" "vma_page (kmm k) v pd cr2 (vm_of k) = (b, w)"
  shows "vm_handle_fault cr2 err k = Some (b, put_vm w k)"
  using assms unfolding vm_handle_fault_def by (simp add: Let_def del: has_iff)

section \<open>Properties\<close>

text \<open>C23: After any sequence of mappings, unmappings and protection changes, the regions of every
  process are disjoint and lie between \<open>MMAP_BASE\<close> and \<open>MMAP_MAX\<close>; and a successful \<open>do_mmap\<close> returns
  a range of the rounded length in which no address was mapped before, and every address now
  belongs to a region with the requested protection.\<close>

theorem mmap_regions_disjoint:
  assumes st: "mmap_step\<^sup>*\<^sup>* k0 k" and i0: "vmas_inv k0" and d: "do_mmap pread len prot h sz off k = Some (a, k')"
    and a: "a \<noteq> - 1"
  shows "vmas_inv k' \<and> MMAP_BASE \<le> a \<and> a + round_up len \<le> MMAP_MAX \<and>
    (\<forall>x. a \<le> x \<and> x < a + round_up len \<longrightarrow> vma_find (get_current_process k) x k = None \<and>
      (\<exists>v. vma_find (get_current_process k) x k' = Some v \<and> vma_prot v = prot))"
proof -
  define c where "c = get_current_process k"
  define p where "p = tg_leader c k"
  define n where "n = round_up len"
  define b where "b = (if mmap_next (procs k p) < MMAP_BASE then MMAP_BASE else mmap_next (procs k p))"
  have inv: "vmas_inv k" by (rule vmas_inv_steps[OF st i0])
  then have ok: "vmas_ok (procs k p)" by (simp add: vmas_inv_def)
  have pd: "p = tg_leader (get_current_process k) k" by (simp add: p_def c_def)
  from mmap_result[OF d pd n_def b_def] a obtain slot v where s: "slot < PROC_MAX_VMAS" "a = b"
      "\<not> vma_used (mmap_vmas (procs k p) slot)" "b + n \<le> MMAP_MAX" "vma_start v = b" "vma_end v = b + n" "vma_prot v = prot" "vma_used v"
    and k': "procs k' = (procs k)(p := (procs k p)\<lparr>mmap_next := b + n, mmap_vmas := (mmap_vmas (procs k p))(slot := v)\<rparr>)"
      "ptable k' = ptable k" by auto
  have p0: "p \<noteq> 0" using d a by (auto simp: do_mmap_def Let_def pd)
  have le: "\<not> in_vma x (mmap_vmas (procs k p) i)" if "b \<le> x" "i < PROC_MAX_VMAS" for x i
  proof
    assume iv: "in_vma x (mmap_vmas (procs k p) i)"
    then have "x < vma_end (mmap_vmas (procs k p) i)" by (simp add: in_vma_def)
    moreover have "vma_end (mmap_vmas (procs k p) i) \<le> mmap_next (procs k p)"
      using ok that(2) iv by (simp add: vmas_ok_def in_vma_def Let_def)
    moreover have "mmap_next (procs k p) \<le> b" by (auto simp: b_def)
    ultimately show False using that(1) by simp
  qed
  have tl: "tg_leader c k' = p" unfolding p_def by (rule tg_leader_cong) (auto simp: k')
  have "vma_find c x k = None \<and> (\<exists>v. vma_find c x k' = Some v \<and> vma_prot v = prot)" if x: "b \<le> x" "x < b + n" for x
  proof -
    have vm: "mmap_vmas (procs k' p) = (mmap_vmas (procs k p))(slot := v)" by (simp add: k')
    have "vma_find c x k' = Some (mmap_vmas (procs k' (tg_leader c k')) slot)"
      by (rule vma_find_only) (use p0 tl s x le[OF x(1)] vm in \<open>auto simp: in_vma_def split: if_splits\<close>)
    then show ?thesis using le[OF x(1)] tl vm s(7) by (auto simp: vma_find_None p_def)
  qed
  moreover have "MMAP_BASE \<le> b" by (auto simp: b_def)
  ultimately show ?thesis using vmas_inv_mmap[OF inv d] s(2,4) by (auto simp: n_def c_def)
qed

text \<open>The length is rounded up in 64 bits without a check: for the 4095 largest lengths the sum
  wraps to zero, and \<open>do_mmap\<close> reports success with a range that contains no address at all.\<close>

theorem mmap_huge_length_wraps:
  assumes len: "0xFFFFFFFFFFFFF001 \<le> len" and p: "p = tg_leader (get_current_process k) k" "p \<noteq> 0"
    and slot: "i < PROC_MAX_VMAS" "\<not> vma_used (mmap_vmas (procs k p) i)" and ok: "vmas_inv k"
  shows "\<exists>a k'. do_mmap pread len prot 0 sz off k = Some (a, k') \<and> a \<noteq> - 1 \<and>
    (\<forall>x. vma_find (get_current_process k) x k' = None \<longleftrightarrow> vma_find (get_current_process k) x k = None)"
proof -
  let ?c = "get_current_process k"
  define b where "b = (if mmap_next (procs k p) < MMAP_BASE then MMAP_BASE else mmap_next (procs k p))"
  have n0: "round_up len = 0"
  proof -
    have b: "unat len < 2 ^ 64" "0xFFFFFFFFFFFFF001 \<le> unat len" using u64_bound[of len] len by (simp_all add: word_le_nat_alt)
    then have "unat (len + 0xFFF) = unat len + 0xFFF - 2 ^ 64"
      using unat_plus_if'[of len "0xFFF"] by simp
    then have "unat (len + 0xFFF) < 4096" using b by linarith
    then show ?thesis using unat_align_down[of "len + 0xFFF"] by (simp add: round_up_def word_unat_eq_iff)
  qed
  have "mmap_next (procs k p) \<le> MMAP_MAX" using ok by (simp add: vmas_inv_def vmas_ok_def)
  then have bm: "b \<le> MMAP_MAX" using MMAP_BASE_MAX by (simp add: b_def)
  have l0: "len \<noteq> 0" using len by auto
  define k1 where "k1 = (if mmap_next (procs k p) < MMAP_BASE then upd p (\<lambda>q. q\<lparr>mmap_next := MMAP_BASE\<rparr>) k else k)"
  have k1: "procs k1 = (procs k)(p := (procs k p)\<lparr>mmap_next := b\<rparr>)" "mmap_next (procs k1 p) = b"
    by (auto simp: k1_def b_def upd_def)
  have "find_idx PROC_MAX_VMAS (\<lambda>i. \<not> vma_used (mmap_vmas (procs k1 p) i)) \<noteq> None" using slot k1(1) by auto
  then obtain s where s: "find_idx PROC_MAX_VMAS (\<lambda>i. \<not> vma_used (mmap_vmas (procs k1 p) i)) = Some s" by blast
  have d: "do_mmap pread len prot 0 sz off k = Some (b, commit_vma p s b 0 prot 0 0 k1)"
  proof -
    have "\<not> (b + 0 > MMAP_MAX \<or> b + 0 < b)" using bm by simp
    then show ?thesis using s p(2) l0 unfolding do_mmap_def p(1)[symmetric] Let_def k1_def[symmetric] n0 k1(2)
      by (simp only: option.case if_False if_True simp_thms)
  qed
  let ?k' = "commit_vma p s b 0 prot 0 0 k1"
  have vm: "procs ?k' = (procs k)(p := (procs k p)\<lparr>mmap_next := b, mmap_vmas := (mmap_vmas (procs k p))(s := \<lparr>vma_start = b,
      vma_end = b, vma_prot = prot, vma_used = True, vma_file_buf = 0, vma_file_size = 0\<rparr>)\<rparr>)" "ptable ?k' = ptable k"
    using k1 by (auto simp: commit_vma_def set_vma_def upd_def k1_def)
  have "tg_leader ?c ?k' = tg_leader ?c k" by (rule tg_leader_cong) (auto simp: vm)
  then have tl: "tg_leader ?c ?k' = p" using p(1) by simp
  have "\<not> vma_used (mmap_vmas (procs k p) s)" using find_idx_SomeD(2)[OF s] by (simp add: k1(1))
  moreover have "mmap_vmas (procs ?k' p) = (mmap_vmas (procs k p))(s := \<lparr>vma_start = b,
      vma_end = b, vma_prot = prot, vma_used = True, vma_file_buf = 0, vma_file_size = 0\<rparr>)" unfolding vm(1) by simp
  ultimately have "in_vma x (mmap_vmas (procs ?k' p) j) \<longleftrightarrow> in_vma x (mmap_vmas (procs k p) j)" for x j
    by (cases "j = s") (simp_all add: in_vma_def not_less)
  then have "\<forall>x. vma_find ?c x ?k' = None \<longleftrightarrow> vma_find ?c x k = None" by (simp add: vma_find_None tl p(1)[symmetric])
  moreover have "b \<noteq> - 1" using bm by (auto simp: MMAP_MAX_def word_le_nat_alt unsigned_minus_1_eq_mask mask_eq_exp_minus_1)
  ultimately show ?thesis using d by blast
qed

text \<open>C24: The first touch of a mapped page brings in exactly that page: a user fault on an absent page
  inside a region maps a frame from the pool whose bytes are the region's slice of the file
  snapshot followed by zeros, writable only if the region allows writing and non-executable unless
  it allows execution; no other entry of the process's page tables changes, neither does a byte or the reference count of
  a frame that was in use, nor anything of the kernel's state outside the memory system. It fails only when memory is exhausted.\<close>

theorem mmap_fault_maps_page:
  assumes wf: "wf_pt (vm_of k) pd" and p: "p = get_current_process k" "p \<noteq> 0" "pd = page_directory (procs k p)" "pd \<noteq> 0"
    and err: "has err 4" "\<not> has err 1" and v: "vma_find p cr2 k = Some v" and u: "cr2 < USER_SPACE_END"
    and nh: "\<not> in_heap cr2 (procs k (tg_leader p k))" and h: "vm_handle_fault cr2 err k = Some (ok, k')"
  shows "wf_pt (vm_of k') pd \<and>
    (\<forall>va. user_va va \<and> \<not> same_page va cr2 \<longrightarrow> pte_val (vm_of k') pd va = pte_val (vm_of k) pd va) \<and>
    (\<forall>x. (\<forall>f \<in> free_set (v_pmm (vm_of k)). \<not> (frame_addr f \<le> x \<and> x < frame_addr f + 4096)) \<longrightarrow>
       pbytes (vm_of k') x = pbytes (vm_of k) x) \<and>
    (\<forall>f. f \<notin> free_set (v_pmm (vm_of k)) \<longrightarrow> page_refcount (v_pmm (vm_of k')) f = page_refcount (v_pmm (vm_of k)) f) \<and>
    (\<exists>w. k' = put_vm w k) \<and>
    (if ok then \<exists>f \<in> free_set (v_pmm (vm_of k)).
       (let e = pte_val (vm_of k') pd cr2 in e AND PTE_ADDR_MASK = frame_addr f \<and> bit e 0 \<and> bit e 2 \<and>
          (bit e 1 \<longleftrightarrow> vma_prot v AND PROT_WRITE \<noteq> 0) \<and> (bit e 63 \<longleftrightarrow> vma_prot v AND PROT_EXEC = 0)) \<and>
       (\<forall>i < 4096. pbytes (vm_of k') (frame_addr f + of_nat i) = slice_byte (kmm k) v ((cr2 AND NOT 0xFFF) - vma_start v) i)
     else free_set (v_pmm (vm_of k')) = {})"
proof -
  obtain b w where bw: "vma_page (kmm k) v pd cr2 (vm_of k) = (b, w)" by fastforce
  have "vm_handle_fault cr2 err k = Some (b, put_vm w k)" by (rule fault_in_vma[OF p err v nh bw])
  then have k': "ok = b" "vm_of k' = w" and ex: "\<exists>w. k' = put_vm w k" using h by auto
  note P = vma_page_maps[OF wf user_range_va[OF u] bw]
  have fr: "(\<forall>x. (\<forall>f \<in> free_set (v_pmm (vm_of k)). \<not> (frame_addr f \<le> x \<and> x < frame_addr f + 4096)) \<longrightarrow>
       pbytes w x = pbytes (vm_of k) x) \<and>
    (\<forall>f. f \<notin> free_set (v_pmm (vm_of k)) \<longrightarrow> page_refcount (v_pmm w) f = page_refcount (v_pmm (vm_of k)) f)"
    using vma_page_frame[OF wf user_range_va[OF u] bw] by blast
  have fl: "bit (vma_flags v) n \<Longrightarrow> n < 12 \<or> 52 \<le> n" for n by (auto simp: vma_flags_def bit_or_iff split: if_splits)
  have e: "(frame_addr f OR vma_flags v) AND PTE_ADDR_MASK = frame_addr f" "bit (frame_addr f OR vma_flags v) 0"
    "bit (frame_addr f OR vma_flags v) 2" "bit (frame_addr f OR vma_flags v) 1 \<longleftrightarrow> vma_prot v AND PROT_WRITE \<noteq> 0"
    "bit (frame_addr f OR vma_flags v) 63 \<longleftrightarrow> vma_prot v AND PROT_EXEC = 0" if "f < MAX_PAGES" for f
  proof -
    note fw = frame_word_addr[OF that]
    show "(frame_addr f OR vma_flags v) AND PTE_ADDR_MASK = frame_addr f" by (rule frame_word_masks(1)[OF fw fl])
    have "\<not> bit (frame_addr f) 0" "\<not> bit (frame_addr f) 1" "\<not> bit (frame_addr f) 2" "\<not> bit (frame_addr f) 63"
      using fw unfolding frame_word_def by fastforce+
    then show "bit (frame_addr f OR vma_flags v) 0"
      "bit (frame_addr f OR vma_flags v) 2" "bit (frame_addr f OR vma_flags v) 1 \<longleftrightarrow> vma_prot v AND PROT_WRITE \<noteq> 0"
      "bit (frame_addr f OR vma_flags v) 63 \<longleftrightarrow> vma_prot v AND PROT_EXEC = 0"
      by (auto simp: vma_flags_def bit_or_iff)
  qed
  have mx: "f < MAX_PAGES" if "f \<in> free_set (v_pmm (vm_of k))" for f
    using that pmm_invD(1)[OF wf_ptD(1)[OF wf]] by (auto simp: free_set_def)
  show ?thesis
  proof (cases b)
    case True
    then obtain f where f: "f \<in> free_set (v_pmm (vm_of k))" "pte_val w pd cr2 = frame_addr f OR vma_flags v"
      "\<forall>i < 4096. pbytes w (frame_addr f + of_nat i) = slice_byte (kmm k) v ((cr2 AND NOT 0xFFF) - vma_start v) i"
      using P(3) by blast
    have "\<exists>f \<in> free_set (v_pmm (vm_of k)).
       (let e = pte_val w pd cr2 in e AND PTE_ADDR_MASK = frame_addr f \<and> bit e 0 \<and> bit e 2 \<and>
          (bit e 1 \<longleftrightarrow> vma_prot v AND PROT_WRITE \<noteq> 0) \<and> (bit e 63 \<longleftrightarrow> vma_prot v AND PROT_EXEC = 0)) \<and>
       (\<forall>i < 4096. pbytes w (frame_addr f + of_nat i) = slice_byte (kmm k) v ((cr2 AND NOT 0xFFF) - vma_start v) i)"
      unfolding f(2) Let_def using f(1,3) e[OF mx[OF f(1)]] by blast
    then show ?thesis using P(1,2) True fr ex unfolding k' by simp
  next
    case False
    then show ?thesis using P(1,2,4) fr ex unfolding k' by simp
  qed
qed

section \<open>Concrete instances\<close>

lemma sig_kern_mmap:
  "tg_leader 0x5000 (sig_kern sig_proc) = 0x5000" "mmap_vmas sig_proc = (\<lambda>_. zero_vma)" "mmap_next sig_proc = 0"
  "vmas_inv (sig_kern sig_proc)"
proof -
  have z: "vmas_ok q" if "mmap_vmas q = (\<lambda>_. zero_vma)" "mmap_next q = 0" for q
    using that by (simp add: vmas_ok_def zero_vma_def)
  show m: "mmap_vmas sig_proc = (\<lambda>_. zero_vma)" "mmap_next sig_proc = 0"
    by (simp_all add: sig_proc_def zero_process_def)
  show "tg_leader 0x5000 (sig_kern sig_proc) = 0x5000" by (simp add: tg_leader_def) (simp add: sig_proc_def)
  have "vmas_ok sig_proc" "vmas_ok zero_process" by (rule z; simp add: m zero_process_def)+
  then show "vmas_inv (sig_kern sig_proc)" by (simp add: vmas_inv_def sig_kern_def)
qed

theorem mmap_regions_disjoint_witness:
  "\<exists>k'. do_mmap (\<lambda>_ _ _. (0, [])) 0x2000 3 0 0 0 (sig_kern sig_proc) = Some (MMAP_BASE, k') \<and>
     (\<exists>v. vma_find 0x5000 0x100001000 k' = Some v \<and> vma_prot v = 3)"
proof -
  let ?k = "sig_kern sig_proc"
  have f: "find_idx PROC_MAX_VMAS (\<lambda>i. \<not> vma_used (mmap_vmas sig_proc i)) = Some 0"
    unfolding sig_kern_mmap(2) by (simp add: find_idx_Some zero_vma_def PROC_MAX_VMAS_def)
  have r: "round_up 0x2000 = 0x2000" by (simp add: round_up_def)
  have b: "0 < MMAP_BASE" "\<not> (MMAP_MAX < MMAP_BASE + 0x2000 \<or> MMAP_BASE + 0x2000 < MMAP_BASE)"
    by (simp_all add: MMAP_BASE_def MMAP_MAX_def)
  obtain k' where d: "do_mmap (\<lambda>_ _ _. (0, [])) 0x2000 3 0 0 0 ?k = Some (MMAP_BASE, k')"
    using b by (simp add: do_mmap_def sig_kern_mmap(1,3) r Let_def f)
  have "MMAP_BASE \<noteq> - 1" by (simp add: MMAP_BASE_def)
  from mmap_regions_disjoint[OF rtranclp.rtrancl_refl sig_kern_mmap(4) d this]
  have "\<exists>v. vma_find 0x5000 0x100001000 k' = Some v \<and> vma_prot v = 3" by (simp add: r) (simp add: MMAP_BASE_def)
  with d show ?thesis by blast
qed

theorem mmap_huge_length_wraps_witness:
  "\<exists>a k'. do_mmap (\<lambda>_ _ _. (0, [])) (- 1) 3 0 0 0 (sig_kern sig_proc) = Some (a, k') \<and> a \<noteq> - 1"
proof -
  have "\<exists>a k'. do_mmap (\<lambda>_ _ _. (0, [])) (- 1) 3 0 0 0 (sig_kern sig_proc) = Some (a, k') \<and> a \<noteq> - 1 \<and>
    (\<forall>x. vma_find (get_current_process (sig_kern sig_proc)) x k' = None \<longleftrightarrow>
      vma_find (get_current_process (sig_kern sig_proc)) x (sig_kern sig_proc) = None)"
    by (rule mmap_huge_length_wraps[where p = "0x5000" and i = 0])
      (simp_all add: sig_kern_mmap zero_vma_def PROC_MAX_VMAS_def)
  then show ?thesis by blast
qed

theorem mmap_fault_maps_page_witness:
  "\<exists>k k' ok pd. vm_handle_fault 0x100000010 6 k = Some (ok, k') \<and> wf_pt (vm_of k') pd"
proof -
  obtain s r where s: "wf_as s r" using vm_example_page by blast
  then have wf: "wf_pt s r" by (simp add: wf_as_def)
  then have r0: "r \<noteq> 0" by (rule wf_pt_root)
  define v where "v = \<lparr>vma_start = 0x100000000, vma_end = 0x100002000, vma_prot = 3, vma_used = True, vma_file_buf = 0, vma_file_size = 0\<rparr>"
  define q where "q = sig_proc\<lparr>page_directory := r, mmap_vmas := (\<lambda>_. zero_vma)(0 := v)\<rparr>"
  define k where "k = put_vm s (sig_kern q)"
  have k: "get_current_process k = 0x5000" "procs k 0x5000 = q" "vm_of k = s" "tg_leader 0x5000 k = 0x5000"
    by (simp_all add: k_def get_current_process_def sig_kern_def kern_example_def tg_leader_def)
      (simp_all add: put_vm_def q_def sig_proc_def)
  have h: "\<not> in_heap 0x100000010 q" by (simp add: in_heap_def q_def sig_proc_def zero_process_def)
  have "find_idx PROC_MAX_VMAS (\<lambda>i. in_vma 0x100000010 (mmap_vmas q i)) = Some 0"
    by (simp add: find_idx_Some PROC_MAX_VMAS_def q_def v_def in_vma_def)
  then have v: "vma_find 0x5000 0x100000010 k = Some v" by (simp add: vma_find_def k Let_def) (simp add: q_def)
  have e: "(6 :: u64) AND 4 \<noteq> 0" "\<not> (6 :: u64) AND 1 \<noteq> 0" by simp_all
  have pd: "page_directory q = r" by (simp add: q_def)
  obtain ok w where bw: "vma_page (kmm k) v r 0x100000010 s = (ok, w)" by fastforce
  define k' where "k' = put_vm w k"
  have f: "vm_handle_fault 0x100000010 6 k = Some (ok, k')"
    unfolding k'_def by (rule fault_in_vma[OF k(1)[symmetric] _ _ r0 e v]) (use k pd h bw in simp_all)
  have "wf_pt (vm_of k) r" "(0x5000 :: u64) \<noteq> 0" "r = page_directory (procs k 0x5000)" "(0x100000010 :: u64) < USER_SPACE_END"
    "\<not> in_heap 0x100000010 (procs k (tg_leader 0x5000 k))"
    using wf h by (simp_all add: k pd USER_SPACE_END_def)
  from mmap_fault_maps_page[OF this(1) k(1)[symmetric] this(2,3) r0 e v this(4,5) f]
  have "wf_pt (vm_of k') r" by (rule conjunct1)
  with f show ?thesis by blast
qed

end
