(* ===== verification/Lifecycle.thy ===== *)
theory Lifecycle
  imports Pipe Sched Mmap
begin

text \<open>
  The life of a process, \<open>src/kernel/process.c\<close>: creation, \<open>fork\<close>, threads, \<open>execve\<close>, futexes, waiting
  and reaping. Kernel stacks are words by address. A blocking call is one pass of its loop, which
  returns or parks. \<open>None\<close> is a kernel panic in an allocator or in \<open>map_page_dir\<close>.
\<close>

section \<open>Constants\<close>

definition KERNEL_CS :: u64 where "KERNEL_CS = 0x08"
definition KERNEL_DS :: u64 where "KERNEL_DS = 0x10"
definition USER_CS :: u64 where "USER_CS = 0x1B"
definition USER_DS :: u64 where "USER_DS = 0x23"
definition USER_STACK_INIT_PAGES :: nat where "USER_STACK_INIT_PAGES = 4"
definition CLONE_VM :: u64 where "CLONE_VM = 0x100"
definition FUTEX_WAIT :: int where "FUTEX_WAIT = 0"
definition FUTEX_WAKE :: int where "FUTEX_WAKE = 1"
definition WNOHANG :: u32 where "WNOHANG = 1"
definition WUNTRACED :: u32 where "WUNTRACED = 2"
definition WSTOPPED :: int where "WSTOPPED = 0x10000"

text \<open>\<open>sizeof(process_t)\<close> under the x86-64 ABI.\<close>

definition PROCESS_SIZE :: u64 where "PROCESS_SIZE = 4120"

section \<open>Kernel stacks\<close>

text \<open>\<open>*--sp = w\<close> for each word in turn.\<close>

fun push_words :: "u64 list \<Rightarrow> u64 \<Rightarrow> kern \<Rightarrow> u64 \<times> kern" where
  "push_words [] sp k = (sp, k)"
| "push_words (w # ws) sp k = push_words ws (sp - 8) (k\<lparr>kstack_word := (kstack_word k)(sp - 8 := w)\<rparr>)"

definition make_stack :: "u64 \<Rightarrow> (u64 \<Rightarrow> u64 list) \<Rightarrow> u64 \<Rightarrow> kern \<Rightarrow> (int \<times> kern) option" where
  "make_stack proc ws alias k =
     (case k_alloc 4096 k of
        None \<Rightarrow> None
      | Some (mem, k) \<Rightarrow>
          if mem = 0 then Some (- 1, k)
          else
            (let (sp, k) = push_words (ws mem) (mem + 4096) k
             in Some (0, upd proc (\<lambda>q. q\<lparr>stack := sp + alias, kernel_stack := mem + 4096\<rparr>) k)))"

definition init_task_stack :: "u64 \<Rightarrow> u64 \<Rightarrow> kern \<Rightarrow> (int \<times> kern) option" where
  "init_task_stack proc entry k =
     make_stack proc (\<lambda>mem. [KERNEL_DS, mem + 4096, 0x202, KERNEL_CS, entry, 0, 32] @ replicate 15 0) 0 k"

definition init_user_task_stack :: "u64 \<Rightarrow> u64 \<Rightarrow> u64 \<Rightarrow> kern \<Rightarrow> (int \<times> kern) option" where
  "init_user_task_stack proc entry user_stack_top k =
     make_stack proc (\<lambda>_. [USER_DS, user_stack_top, 0x202, USER_CS, entry, 0, 32] @ replicate 15 0) KERNEL_BASE k"

definition init_forked_task_stack :: "u64 \<Rightarrow> u64 arr \<Rightarrow> u64 \<Rightarrow> kern \<Rightarrow> (int \<times> kern) option" where
  "init_forked_task_stack proc frame u_rsp k =
     make_stack proc (\<lambda>_. [USER_DS, u_rsp, frame 15 OR 0x202, USER_CS, frame 16, 0, 32,
       0, frame 13, frame 12, frame 11, frame 10, frame 9, frame 8, frame 7, frame 6, frame 5, frame 4,
       frame 3, frame 2, frame 1, frame 0]) KERNEL_BASE k"

definition init_thread_task_stack :: "u64 \<Rightarrow> u64 \<Rightarrow> u64 \<Rightarrow> u64 \<Rightarrow> kern \<Rightarrow> (int \<times> kern) option" where
  "init_thread_task_stack proc entry user_stack_top arg k =
     make_stack proc (\<lambda>_. [USER_DS, user_stack_top, 0x202, USER_CS, entry, 0, 32,
       0, 0, 0, 0, 0, arg, 0, 0, 0, 0, 0, 0, 0, 0, 0]) KERNEL_BASE k"

section \<open>Creation\<close>

definition alloc_process :: "kern \<Rightarrow> (u64 \<times> kern) option" where
  "alloc_process k =
     (case k_alloc PROCESS_SIZE k of
        None \<Rightarrow> None
      | Some (p, k) \<Rightarrow>
          if p = 0 then Some (0, k)
          else Some (p, (upd p (\<lambda>_. zero_process\<lparr>pid := ucast (next_pid k)\<rparr>) k)\<lparr>next_pid := next_pid k + 1\<rparr>))"

definition add_process :: "u64 \<Rightarrow> kern \<Rightarrow> kern" where
  "add_process p k = k\<lparr>ptable := ptable k @ [p]\<rparr>"

definition init_process :: "kern \<Rightarrow> kern option" where
  "init_process k =
     (case alloc_process (k\<lparr>ptable := []\<rparr>) of
        None \<Rightarrow> None
      | Some (p, k) \<Rightarrow>
          Some (if p = 0 then k
                else add_process p (upd p (\<lambda>q. q\<lparr>ppid := 0, state := 1, comm := ''init''\<rparr>) k)))"

definition create_process :: "string \<Rightarrow> u64 \<Rightarrow> kern \<Rightarrow> (u64 \<times> kern) option" where
  "create_process name entry k =
     (if length (ptable k) \<ge> MAX_PROCESSES then Some (0, k)
      else
        (case alloc_process k of
           None \<Rightarrow> None
         | Some (p, k) \<Rightarrow>
             if p = 0 then Some (0, k)
             else
               (let k = upd p (\<lambda>q. q\<lparr>ppid := 0, state := 1, comm := take 31 name\<rparr>) k in
                if entry = 0 then Some (p, add_process p k)
                else
                  (case init_task_stack p entry k of
                     None \<Rightarrow> None
                   | Some (r, k) \<Rightarrow> if r < 0 then Some (0, k_free p k) else Some (p, add_process p k)))))"

definition create_kernel_thread_on_cpu :: "string \<Rightarrow> u64 \<Rightarrow> int \<Rightarrow> kern \<Rightarrow> (u64 \<times> kern) option" where
  "create_kernel_thread_on_cpu name entry cpu k =
     map_option (\<lambda>(p, k). (p, if p \<noteq> 0 then upd p (\<lambda>q. q\<lparr>sched_cpu := cpu\<rparr>) k else k)) (create_process name entry k)"

text \<open>The committed stack pages below the top one: \<open>Some (False, _)\<close> when a page could not be had.\<close>

fun stack_pages :: "u64 \<Rightarrow> nat list \<Rightarrow> vm \<Rightarrow> (bool \<times> vm) option" where
  "stack_pages pd [] s = Some (True, s)"
| "stack_pages pd (i # is) s =
     (let (pg, m) = alloc_page (v_pmm s); s = s\<lparr>v_pmm := m\<rparr> in
      if pg = 0 then Some (False, s)
      else
        (case map_page_dir pd pg (USER_STACK_TOP - of_nat i * 4096) (0x7 OR PAGE_NX) s of
           Panic \<Rightarrow> None
         | Ret s \<Rightarrow> stack_pages pd is s))"

definition default_user_stack :: "u64 \<Rightarrow> vm \<Rightarrow> (u64 \<times> vm) option" where
  "default_user_stack pd s =
     (let (pg, m) = alloc_page (v_pmm s); s = s\<lparr>v_pmm := m\<rparr> in
      if pg = 0 then Some (0, s)
      else
        (case map_page_dir pd pg USER_STACK_TOP (0x7 OR PAGE_NX) s of
           Panic \<Rightarrow> None
         | Ret s \<Rightarrow>
             (case stack_pages pd [1..<USER_STACK_INIT_PAGES] s of
                None \<Rightarrow> None
              | Some (ok, s) \<Rightarrow>
                  if \<not> ok then Some (0, s)
                  else Some (USER_STACK_TOP + 4096 - 32,
                         s\<lparr>pbytes := (\<lambda>x. if unat (x - (pg + 4096 - 32)) < 32 then 0 else pbytes s x)\<rparr>))))"

definition create_user_process :: "string \<Rightarrow> u64 \<Rightarrow> u64 \<Rightarrow> u64 \<Rightarrow> string \<Rightarrow> kern \<Rightarrow> (u64 \<times> kern) option" where
  "create_user_process name entry user_stack page_dir cwd0 k =
     (if length (ptable k) \<ge> MAX_PROCESSES then Some (0, k)
      else
        (case alloc_process k of
           None \<Rightarrow> None
         | Some (p, k) \<Rightarrow>
             if p = 0 then Some (0, k)
             else
               (let k = upd p (\<lambda>q. q\<lparr>state := 1, page_directory := page_dir, comm := take 31 name\<rparr>) k;
                    k = (if smp_user_balance k \<and> cpu_count k > 1
                         then (upd p (\<lambda>q. q\<lparr>sched_cpu := uint (user_rr k mod cpu_count k)\<rparr>) k)\<lparr>user_rr := user_rr k + 1\<rparr>
                         else k);
                    k = (if cwd0 \<noteq> [] then upd p (\<lambda>q. q\<lparr>cwd := take 255 cwd0\<rparr>) k else k) in
                case (if user_stack = 0
                      then map_option (\<lambda>(us, v). (us, put_vm v k)) (default_user_stack page_dir (vm_of k))
                      else Some (user_stack, k)) of
                  None \<Rightarrow> None
                | Some (us, k) \<Rightarrow>
                    if us = 0 then Some (0, k_free p k)
                    else
                      (case init_user_task_stack p entry us k of
                         None \<Rightarrow> None
                       | Some (r, k) \<Rightarrow> if r < 0 then Some (0, k_free p k) else Some (p, add_process p k)))))"

section \<open>Fork\<close>

text \<open>A file-backed region gets its own copy of the snapshot, or degrades to zero-fill.\<close>

definition fork_buf :: "u64 \<Rightarrow> nat \<Rightarrow> kern \<Rightarrow> kern option" where
  "fork_buf child i k =
     (let v = mmap_vmas (procs k child) i in
      if vma_used v \<and> vma_file_buf v \<noteq> 0 then
        (case k_alloc (ucast (vma_file_size v)) k of
           None \<Rightarrow> None
         | Some (nb, k) \<Rightarrow>
             Some (if nb \<noteq> 0
                   then set_vma child i (\<lambda>v. v\<lparr>vma_file_buf := nb\<rparr>)
                          (k\<lparr>kmm := (kmm k)\<lparr>km_bytes := memcpy_asm nb (vma_file_buf v) (unat (vma_file_size v)) (km_bytes (kmm k))\<rparr>\<rparr>)
                   else set_vma child i (\<lambda>v. v\<lparr>vma_file_buf := 0, vma_file_size := 0\<rparr>) k))
      else Some k)"

definition fork_fd :: "u64 \<Rightarrow> u64 \<Rightarrow> nat \<Rightarrow> kern \<Rightarrow> kern" where
  "fork_fd parent child i k =
     (let h = ufd_handle (procs k parent) i in
      if ufd_inuse (procs k parent) i \<and> h AND UFD_PIPE_FLAG \<noteq> 0
      then pipe_incref (int (UFD_PIPE_ID h)) (UFD_PIPE_IS_WRITE h)
             (upd child (\<lambda>q. q\<lparr>ufd_inuse := (ufd_inuse q)(i := True), ufd_handle := (ufd_handle q)(i := h),
                ufd_offset := (ufd_offset q)(i := 0)\<rparr>) k)
      else k)"

definition fork_image :: "process \<Rightarrow> u64 \<Rightarrow> process \<Rightarrow> process" where
  "fork_image par pml4 q = q\<lparr>ppid := pid par, state := PROC_RUN, page_directory := pml4,
     heap_start := heap_start par, program_break := program_break par, comm := take 31 (comm par),
     sig_handlers := (\<lambda>i. if i < NSIG then sig_handlers par i else sig_handlers q i), sig_mask := sig_mask par,
     sig_trampoline := sig_trampoline par,
     mmap_vmas := (\<lambda>i. if i < PROC_MAX_VMAS then mmap_vmas par i else mmap_vmas q i), mmap_next := mmap_next par\<rparr>"

definition do_fork :: "kern \<Rightarrow> (int \<times> kern) option" where
  "do_fork k =
     (let parent = get_current_process k in
      if parent = 0 \<or> page_directory (procs k parent) = 0 then Some (- 1, k)
      else if length (ptable k) \<ge> MAX_PROCESSES then Some (- 1, k)
      else
        (case sframe k of
           None \<Rightarrow> Some (- 1, k)
         | Some frame \<Rightarrow>
             (let (child_pml4, v) = clone_page_directory_cow (page_directory (procs k parent)) (vm_of k);
                  k = put_vm v k in
              if child_pml4 = 0 then Some (- 1, k)
              else
                (case alloc_process k of
                   None \<Rightarrow> None
                 | Some (child, k) \<Rightarrow>
                     if child = 0 then Some (- 1, put_vm (free_page_directory child_pml4 (vm_of k)) k)
                     else
                       (let k = upd child (fork_image (procs k parent) child_pml4) k in
                        case ofold (fork_buf child) [0..<PROC_MAX_VMAS] k of
                          None \<Rightarrow> None
                        | Some k \<Rightarrow>
                            (let k = upd child (\<lambda>q. q\<lparr>cwd := take 255 (cwd (procs k parent))\<rparr>) k;
                                 k = fold (fork_fd parent child) [0..<PROC_MAX_FDS] k in
                             case init_forked_task_stack child frame (user_rsp k) k of
                               None \<Rightarrow> None
                             | Some (r, k) \<Rightarrow>
                                 if r < 0 then Some (- 1, k_free child (put_vm (free_page_directory child_pml4 (vm_of k)) k))
                                 else
                                   (let k = upd parent (\<lambda>q. q\<lparr>sched_managed := True\<rparr>) k;
                                        k = upd child (\<lambda>q. q\<lparr>sched_managed := True, sched_weight := sched_weight (procs k parent)\<rparr>) k
                                    in Some (sint (pid (procs k child)), sched_enable (add_process child k)))))))))"

section \<open>Threads\<close>

definition clone_image :: "process \<Rightarrow> u32 \<Rightarrow> int \<Rightarrow> process \<Rightarrow> process" where
  "clone_image par leader cpu q = q\<lparr>ppid := pid par, state := PROC_RUN, page_directory := page_directory par,
     tgid := leader, sched_cpu := cpu, program_break := program_break par, heap_start := heap_start par,
     comm := take 31 (comm par),
     sig_handlers := (\<lambda>i. if i < NSIG then sig_handlers par i else sig_handlers q i), sig_mask := sig_mask par,
     sig_trampoline := sig_trampoline par,
     mmap_vmas := (\<lambda>i. if i < PROC_MAX_VMAS then (mmap_vmas par i)\<lparr>vma_file_buf := 0, vma_file_size := 0\<rparr> else mmap_vmas q i),
     mmap_next := mmap_next par, cwd := take 255 (cwd par)\<rparr>"

definition do_clone :: "u64 \<Rightarrow> u64 \<Rightarrow> u64 \<Rightarrow> u64 \<Rightarrow> kern \<Rightarrow> (int \<times> kern) option" where
  "do_clone fn stk arg flags k =
     (let self = get_current_process k in
      if self = 0 \<or> page_directory (procs k self) = 0 then Some (- 1, k)
      else if flags AND CLONE_VM = 0 then Some (- 1, k)
      else if fn = 0 \<or> stk = 0 then Some (- 1, k)
      else if length (ptable k) \<ge> MAX_PROCESSES then Some (- 1, k)
      else
        (case alloc_process k of
           None \<Rightarrow> None
         | Some (t, k) \<Rightarrow>
             if t = 0 then Some (- 1, k)
             else
               (let l = tg_leader self k;
                    k = upd t (clone_image (procs k self) (pid (procs k l)) (sched_cpu (procs k l))) k in
                case init_thread_task_stack t fn stk arg k of
                  None \<Rightarrow> None
                | Some (r, k) \<Rightarrow>
                    if r < 0 then Some (- 1, k_free t k)
                    else
                      (let k = upd self (\<lambda>q. q\<lparr>sched_managed := True\<rparr>) k;
                           k = upd t (\<lambda>q. q\<lparr>sched_managed := True, sched_weight := sched_weight (procs k self)\<rparr>) k
                       in Some (sint (pid (procs k t)), sched_enable (add_process t k))))))"

text \<open>The heir takes over the shared tables; the other members follow it.\<close>

definition hand_over :: "u64 \<Rightarrow> u64 \<Rightarrow> kern \<Rightarrow> kern" where
  "hand_over dying heir k =
     (let d = procs k dying;
          k = upd heir (\<lambda>q. q\<lparr>heap_start := heap_start d, program_break := program_break d,
                mmap_vmas := (\<lambda>i. if i < PROC_MAX_VMAS then mmap_vmas d i else mmap_vmas q i), mmap_next := mmap_next d,
                ufd_inuse := (\<lambda>i. if i < PROC_MAX_FDS then ufd_inuse d i else ufd_inuse q i),
                ufd_handle := (\<lambda>i. if i < PROC_MAX_FDS then ufd_handle d i else ufd_handle q i),
                ufd_offset := (\<lambda>i. if i < PROC_MAX_FDS then ufd_offset d i else ufd_offset q i)\<rparr>) k
      in upd dying (\<lambda>q. q\<lparr>mmap_vmas := (\<lambda>i. if i < PROC_MAX_VMAS then (mmap_vmas q i)\<lparr>vma_file_buf := 0, vma_file_size := 0\<rparr> else mmap_vmas q i),
             ufd_inuse := (\<lambda>i. if i < PROC_MAX_FDS then False else ufd_inuse q i)\<rparr>) k)"

definition tg_reassign_leader :: "u64 \<Rightarrow> kern \<Rightarrow> kern" where
  "tg_reassign_leader dying k =
     (let member = (\<lambda>k p. p \<noteq> 0 \<and> p \<noteq> dying \<and> tgid (procs k p) = pid (procs k dying)) in
      if dying = 0 then k
      else
        (case List.find (member k) (ptable k) of
           None \<Rightarrow> k
         | Some heir \<Rightarrow>
             (let k = hand_over dying heir k;
                  k = fold (\<lambda>p k. if member k p then upd p (\<lambda>q. q\<lparr>tgid := pid (procs k heir)\<rparr>) k else k) (ptable k) k
              in upd heir (\<lambda>q. q\<lparr>tgid := 0\<rparr>) k)))"

section \<open>Futexes\<close>

definition load32 :: "u64 \<Rightarrow> vm \<Rightarrow> u32" where
  "load32 a s = ucast (pbytes s a) OR push_bit 8 (ucast (pbytes s (a + 1))) OR push_bit 16 (ucast (pbytes s (a + 2))) OR
     push_bit 24 (ucast (pbytes s (a + 3)))"

fun futex_wake :: "u64 \<Rightarrow> int \<Rightarrow> u64 list \<Rightarrow> kern \<Rightarrow> int \<times> kern" where
  "futex_wake key n [] k = (0, k)"
| "futex_wake key n (p # ps) k =
     (if n \<le> 0 then (0, k)
      else if p \<noteq> 0 \<and> state (procs k p) = PROC_BLOCKED \<and> futex_key (procs k p) = key
      then (let (m, k) = futex_wake key (n - 1) ps (upd p (\<lambda>q. q\<lparr>futex_key := 0, state := PROC_RUN\<rparr>) k) in (m + 1, k))
      else futex_wake key n ps k)"

definition futex_leave :: "u64 \<Rightarrow> u64 \<Rightarrow> u64 \<Rightarrow> kern \<Rightarrow> int attempt \<times> kern" where
  "futex_leave self cr3 ursp k =
     (Done 0, restore_user cr3 ursp (upd self (\<lambda>q. q\<lparr>futex_key := 0, state := PROC_RUN\<rparr>) k))"

text \<open>The comparison at the top of the loop, and what a resumed waiter does.\<close>

definition futex_check :: "u64 \<Rightarrow> u64 \<Rightarrow> u32 \<Rightarrow> u64 \<Rightarrow> u64 \<Rightarrow> kern \<Rightarrow> int attempt \<times> kern" where
  "futex_check self key val cr3 ursp k =
     (if load32 key (kvm k) \<noteq> val then futex_leave self cr3 ursp k
      else (Parked, upd self (\<lambda>q. q\<lparr>blocked_in_kernel := True, state := PROC_BLOCKED, futex_key := key\<rparr>) k))"

definition futex_resume :: "u64 \<Rightarrow> u64 \<Rightarrow> u32 \<Rightarrow> u64 \<Rightarrow> u64 \<Rightarrow> kern \<Rightarrow> int attempt \<times> kern" where
  "futex_resume self key val cr3 ursp k =
     (let k = upd self (\<lambda>q. q\<lparr>blocked_in_kernel := False\<rparr>) k in
      if futex_key (procs k self) = 0 then futex_leave self cr3 ursp k
      else futex_check self key val cr3 ursp k)"

definition do_futex :: "u64 \<Rightarrow> int \<Rightarrow> u32 \<Rightarrow> kern \<Rightarrow> int attempt \<times> kern" where
  "do_futex uaddr fop val k =
     (let self = get_current_process k in
      if self = 0 \<or> page_directory (procs k self) = 0 then (Done (- 1), k)
      else if uaddr AND 3 \<noteq> 0 then (Done (- 1), k)
      else
        (let key = user_v2p (user_cr3 k) uaddr (kvm k) in
         if key = 0 then (Done (- 1), k)
         else if fop = FUTEX_WAKE then
           (let (woken, k) = futex_wake key (sint val) (ptable k) k in (Done woken, k))
         else if fop \<noteq> FUTEX_WAIT then (Done (- 1), k)
         else futex_check self key val (user_cr3 k) (user_rsp k) k))"

section \<open>Exec\<close>

definition basename :: "string \<Rightarrow> string" where
  "basename path = rev (takeWhile (\<lambda>c. c \<noteq> CHR ''/'') (rev path))"

definition comm_of :: "string \<Rightarrow> string" where
  "comm_of path =
     (let tmp = take 31 (basename path) in
      if length tmp \<ge> 4 \<and> drop (length tmp - 4) tmp = ''.elf'' then take (length tmp - 4) tmp else tmp)"

definition proc_set_comm :: "u64 \<Rightarrow> string option \<Rightarrow> kern \<Rightarrow> kern" where
  "proc_set_comm p path k =
     (case path of
        None \<Rightarrow> k
      | Some s \<Rightarrow> if p = 0 \<or> comm_of s = [] then k else upd p (\<lambda>q. q\<lparr>comm := comm_of s\<rparr>) k)"

definition char_bytes :: "string \<Rightarrow> u8 list" where
  "char_bytes s = map (\<lambda>c. word_of_nat (of_char c)) s"

text \<open>The string copies of the argument frame, last string first: stack pointer, addresses, state.\<close>

definition push_strings :: "u64 \<Rightarrow> string list \<Rightarrow> u64 \<Rightarrow> vm \<Rightarrow> u64 \<times> u64 list \<times> vm" where
  "push_strings cr3 strs sp s =
     foldr (\<lambda>str (sp, us, s).
        let sp = sp - of_nat (length str + 1);
            s = snd (copy_to_user cr3 sp (char_bytes str @ [0]) s)
        in (sp, sp # us, s)) strs (sp, [], s)"

definition put_words :: "u64 \<Rightarrow> u64 \<Rightarrow> u64 list \<Rightarrow> vm \<Rightarrow> vm" where
  "put_words cr3 a ws s = snd (copy_to_user cr3 a (concat (map (le_bytes 8) ws)) s)"

text \<open>\<open>argc\<close>, the argument pointers, \<open>NULL\<close>, the environment pointers, \<open>NULL\<close>, 16-byte aligned.\<close>

definition sysv_frame :: "u64 \<Rightarrow> u64 \<Rightarrow> string list \<Rightarrow> string list \<Rightarrow> vm \<Rightarrow> u64 \<times> vm" where
  "sysv_frame pd stack_top argv envp s =
     (let sp = (stack_top + 0xFFF) AND NOT 0xFFF;
          (sp, uargv, s) = push_strings pd argv sp s;
          (sp, uenvp, s) = push_strings pd envp sp s;
          sp = sp AND NOT 0xF;
          qwords = 1 + (length argv + 1) + (length envp + 1);
          qwords = (if odd qwords then qwords + 1 else qwords);
          sp = sp - of_nat qwords * 8;
          s = put_words pd sp [of_nat (length argv)] s;
          s = put_words pd (sp + 8) (uargv @ [0]) s;
          s = put_words pd (sp + 8 + of_nat (length argv + 1) * 8) (uenvp @ [0]) s
      in (sp, s))"

definition build_argv_stack :: "u64 \<Rightarrow> u64 \<Rightarrow> string list \<Rightarrow> vm \<Rightarrow> u64 \<times> vm" where
  "build_argv_stack pd stack_top kargv s =
     (if kargv = [] then (stack_top, s) else sysv_frame pd stack_top (take 32 kargv) [] s)"

text \<open>The space-joined command line, bounded by the 255 characters of the field.\<close>

fun join_args :: "string list \<Rightarrow> string" where
  "join_args [] = []"
| "join_args [a] = a"
| "join_args (a # as) = a @ CHR '' '' # join_args as"

definition cmdline_of :: "string list \<Rightarrow> string option \<Rightarrow> string" where
  "cmdline_of argv path =
     (let c = take 255 (join_args argv) in
      if c = [] then (case path of None \<Rightarrow> [] | Some s \<Rightarrow> take 255 s) else c)"

text \<open>
  \<open>do_execve\<close>, with the outcome of \<open>elf_load_image\<close> as an argument: \<open>None\<close> on failure, else the new page
  directory, entry point, stack top and break, with the memory after loading.
\<close>

definition exec_image :: "u64 \<Rightarrow> u64 \<Rightarrow> process \<Rightarrow> process" where
  "exec_image pd brk q = q\<lparr>page_directory := pd, heap_start := brk, program_break := brk,
     sig_handlers := (\<lambda>i. if i < NSIG then SIG_DFL else sig_handlers q i), sig_pending := 0, sig_active := 0,
     sig_mask := 0, sig_trampoline := 0\<rparr>"

definition exec_drop_vma :: "u64 \<Rightarrow> nat \<Rightarrow> kern \<Rightarrow> kern" where
  "exec_drop_vma p i k =
     (let b = vma_file_buf (mmap_vmas (procs k p) i);
          k = (if b \<noteq> 0 then set_vma p i (\<lambda>v. v\<lparr>vma_file_buf := 0\<rparr>) (k_free b k) else k)
      in set_vma p i (\<lambda>v. v\<lparr>vma_used := False\<rparr>) k)"

definition do_execve ::
  "(u64 \<times> u64 \<times> u64 \<times> u64) option \<Rightarrow> vm \<Rightarrow> string list \<Rightarrow> string list \<Rightarrow> string option \<Rightarrow> kern \<Rightarrow> int \<times> kern" where
  "do_execve loaded v kargv kenvp path k =
     (let self = get_current_process k in
      if self = 0 \<or> page_directory (procs k self) = 0 then (- 1, k)
      else
        (let k = put_vm v k in
         case loaded of
           None \<Rightarrow> (- 1, k)
         | Some (pd, entry, stack_top, brk) \<Rightarrow>
             (let k = proc_set_comm self path k;
                  k = upd self (\<lambda>q. q\<lparr>cmdline := cmdline_of kargv path\<rparr>) k;
                  old_pd = page_directory (procs k self);
                  k = upd self (exec_image pd brk) k;
                  k = fold (exec_drop_vma self) [0..<PROC_MAX_VMAS] k;
                  k = upd self (\<lambda>q. q\<lparr>mmap_next := 0, tty_raw := False\<rparr>) k;
                  k = (if old_pd \<noteq> 0 \<and> \<not> addr_space_shared old_pd self k
                       then put_vm (free_page_directory old_pd (vm_of k)) k else k);
                  argv = take 32 kargv;
                  (sp, v) = sysv_frame pd stack_top argv (take 16 kenvp) (vm_of k);
                  k = (put_vm v k)\<lparr>user_cr3 := pd, user_rsp := sp\<rparr>
              in (0, k\<lparr>sframe := map_option (\<lambda>f i. if i = 9 then of_nat (length argv) else if i = 10 then sp + 8
                       else if i < 15 then 0 else if i = 15 then 0x202 else if i = 16 then entry else f i) (sframe k)\<rparr>))))"

section \<open>Reaping\<close>

definition close_fd :: "u64 \<Rightarrow> nat \<Rightarrow> kern \<Rightarrow> kern" where
  "close_fd p i k =
     (if ufd_inuse (procs k p) i then
        (let h = ufd_handle (procs k p) i;
             k = (if h AND UFD_PIPE_FLAG \<noteq> 0 then pipe_close_end (int (UFD_PIPE_ID h)) (UFD_PIPE_IS_WRITE h) k
                  else if h AND UFD_SOCK_FLAG \<noteq> 0 then k\<lparr>io_log := io_log k @ [Nsock_close (UFD_SOCK_ID h)]\<rparr>
                  else k\<lparr>io_log := io_log k @ [Vfs_close h]\<rparr>)
         in upd p (\<lambda>q. q\<lparr>ufd_inuse := (ufd_inuse q)(i := False)\<rparr>) k)
      else k)"

definition close_proc_fds :: "u64 \<Rightarrow> kern \<Rightarrow> kern" where
  "close_proc_fds p k = (if p = 0 then k else fold (close_fd p) [0..<PROC_MAX_FDS] k)"

text \<open>Mapping buffers, address space and kernel stack, in the order all three reap paths use.\<close>

definition free_memory :: "u64 \<Rightarrow> kern \<Rightarrow> kern" where
  "free_memory p k =
     (let k = mmap_free_bufs p (tg_reassign_leader p k); pd = page_directory (procs k p);
          k = (if pd \<noteq> 0 \<and> \<not> addr_space_shared pd p k then put_vm (free_page_directory pd (vm_of k)) k else k);
          ks = kernel_stack (procs k p)
      in if ks \<noteq> 0 then k_free (ks - 4096) k else k)"

definition swap_remove :: "nat \<Rightarrow> kern \<Rightarrow> kern" where
  "swap_remove i k = k\<lparr>ptable := butlast ((ptable k)[i := last (ptable k)])\<rparr>"

text \<open>\<open>if (current_idx == last) current_idx = i\<close>, with \<open>last\<close> the new count.\<close>

definition patch_current :: "nat \<Rightarrow> kern \<Rightarrow> kern" where
  "patch_current i k = (if current_idx k = length (ptable k) then k\<lparr>current_idx := i\<rparr> else k)"

definition reap_user_process :: "u64 \<Rightarrow> kern \<Rightarrow> kern" where
  "reap_user_process p k =
     (if p = 0 then k
      else
        (let k = close_proc_fds p k;
             k = (case find_idx (length (ptable k)) (\<lambda>i. ptable k ! i = p) of None \<Rightarrow> k | Some i \<Rightarrow> swap_remove i k)
         in k_free p (sched_forget p (free_memory p k))))"

definition destroy_process :: "u64 \<Rightarrow> kern \<Rightarrow> kern" where
  "destroy_process i k =
     (let p = find_process i k in
      if p = 0 then k
      else if sched_managed (procs k p) \<and> state (procs k p) \<noteq> PROC_ZOMBIE
      then wake_waiters p (upd p (\<lambda>q. q\<lparr>exit_code := - 1, state := PROC_ZOMBIE\<rparr>) k)
      else reap_user_process p k)"

definition reapable :: "nat \<Rightarrow> kern \<Rightarrow> bool" where
  "reapable i k \<longleftrightarrow>
     (let p = ptable k ! i; par = find_process (ucast (ppid (procs k p))) k
      in p \<noteq> 0 \<and> state (procs k p) = PROC_ZOMBIE \<and> i \<noteq> current_idx k \<and>
         \<not> (par \<noteq> 0 \<and> page_directory (procs k par) \<noteq> 0 \<and> state (procs k par) \<noteq> PROC_ZOMBIE))"

definition reap_at :: "nat \<Rightarrow> kern \<Rightarrow> kern" where
  "reap_at i k =
     (let p = ptable k ! i; k = free_memory p (close_proc_fds p k)
      in k_free p (sched_forget p (patch_current i (swap_remove i k))))"

lemma pipe_ops_ptable [simp]:
  "ptable (pipe_close_end i w k) = ptable k" "ptable (pipe_incref i w k) = ptable k"
  "current_idx (pipe_close_end i w k) = current_idx k" "current_idx (pipe_incref i w k) = current_idx k"
  by (simp_all add: pipe_close_end_def pipe_incref_def pipe_wake_reader_def set_pipe_def Let_def)

lemma ptable_fold: "(\<And>x k. ptable (f x k) = ptable k) \<Longrightarrow> ptable (fold f xs k) = ptable k"
  by (induction xs arbitrary: k) simp_all

lemma ptable_reap_steps [simp]:
  "ptable (close_proc_fds p k) = ptable k" "ptable (mmap_free_bufs p k) = ptable k"
  "ptable (tg_reassign_leader p k) = ptable k" "ptable (free_memory p k) = ptable k"
  "ptable (sched_forget p k) = ptable k" "ptable (patch_current i k) = ptable k"
proof -
  have "ptable (close_fd p i k) = ptable k" for p i k by (simp add: close_fd_def Let_def)
  then show "ptable (close_proc_fds p k) = ptable k" by (simp add: close_proc_fds_def ptable_fold)
  have "ptable (free_buf p i k) = ptable k" for p i k by (simp add: free_buf_def set_vma_def)
  then show m: "ptable (mmap_free_bufs p k) = ptable k" for p k by (simp add: mmap_free_bufs_def ptable_fold)
  have "ptable (hand_over p h k) = ptable k" for p h k by (simp add: hand_over_def Let_def)
  then show t: "ptable (tg_reassign_leader p k) = ptable k" for p k
    by (auto simp: tg_reassign_leader_def Let_def ptable_fold split: option.split)
  show "ptable (free_memory p k) = ptable k" by (simp add: free_memory_def Let_def m t)
  show "ptable (sched_forget p k) = ptable k" "ptable (patch_current i k) = ptable k"
    by (simp_all add: sched_forget_def patch_current_def)
qed

lemma ptable_reap_at: "ptable (reap_at i k) = butlast ((ptable k)[i := last (ptable k)])"
  by (simp add: reap_at_def swap_remove_def Let_def)

text \<open>The loop of \<open>reap_zombies\<close>: after a removal the same slot is examined again.\<close>

function reap_from :: "nat \<Rightarrow> kern \<Rightarrow> kern" where
  "reap_from i k =
     (if i \<ge> length (ptable k) then k
      else if reapable i k then reap_from i (reap_at i k) else reap_from (Suc i) k)"
  by pat_completeness auto
termination
  by (relation "measure (\<lambda>(i, k). length (ptable k) - i)") (auto simp: ptable_reap_at)

declare reap_from.simps [simp del]

definition reap_zombies :: "kern \<Rightarrow> kern" where
  "reap_zombies k = preempt_enable (reap_from 0 (preempt_disable k))"

section \<open>Waiting\<close>

definition wait_child :: "int \<Rightarrow> u64 \<Rightarrow> kern \<Rightarrow> nat \<Rightarrow> bool" where
  "wait_child wpid self k i \<longleftrightarrow>
     (let p = ptable k ! i
      in p \<noteq> 0 \<and> ppid (procs k p) = pid (procs k self) \<and> \<not> (wpid > 0 \<and> sint (pid (procs k p)) \<noteq> wpid))"

text \<open>Collecting the zombie in slot \<open>i\<close>: status, release, removal. No \<open>sched_forget\<close> here.\<close>

definition collect :: "nat \<Rightarrow> kern \<Rightarrow> (int \<times> int) \<times> kern" where
  "collect i k =
     (let p = ptable k ! i; code = exit_code (procs k p); r = sint (pid (procs k p));
          k = free_memory p (close_proc_fds p k)
      in ((r, code), k_free p (patch_current i (swap_remove i k))))"

text \<open>One pass of the loop of \<open>do_waitpid\<close>: the result and the status stored, if any.\<close>

definition do_waitpid_pass :: "int \<Rightarrow> u32 \<Rightarrow> u64 \<Rightarrow> u64 \<Rightarrow> u64 \<Rightarrow> kern \<Rightarrow> (int \<times> int option) attempt \<times> kern" where
  "do_waitpid_pass wpid options self cr3 ursp k =
     (let k = upd self (\<lambda>q. q\<lparr>blocked_in_kernel := False\<rparr>) k;
          n = length (ptable k); child = wait_child wpid self k;
          st = (\<lambda>i. procs k (ptable k ! i)) in
      if find_idx n child = None then (Done (- 1, None), restore_user cr3 ursp k)
      else
        (case find_idx n (\<lambda>i. child i \<and> state (st i) = PROC_ZOMBIE) of
           Some zi \<Rightarrow> (let ((r, code), k) = collect zi k in (Done (r, Some code), restore_user cr3 ursp k))
         | None \<Rightarrow>
             (case List.find (\<lambda>i. child i \<and> options AND WUNTRACED \<noteq> 0 \<and> state (st i) = PROC_STOPPED \<and>
                                \<not> stopped_reported (st i)) (rev [0..<n]) of
                Some si \<Rightarrow>
                  (Done (sint (pid (st si)), Some (uint (word_of_int WSTOPPED OR stop_sig (st si)))),
                   restore_user cr3 ursp (upd (ptable k ! si) (\<lambda>q. q\<lparr>stopped_reported := True\<rparr>) k))
              | None \<Rightarrow>
                  if options AND WNOHANG \<noteq> 0 then (Done (0, None), restore_user cr3 ursp k)
                  else (Parked, upd self (\<lambda>q. q\<lparr>blocked_in_kernel := True, state := PROC_BLOCKED,
                          waiting_for := (if wpid > 0 then word_of_int wpid else 0)\<rparr>) k))))"

definition do_waitpid :: "int \<Rightarrow> u32 \<Rightarrow> kern \<Rightarrow> (int \<times> int option) attempt \<times> kern" where
  "do_waitpid wpid options k =
     (let self = get_current_process k in
      if self = 0 then (Done (- 1, None), k)
      else do_waitpid_pass wpid options self (user_cr3 k) (user_rsp k) k)"

definition kwait_pass :: "u32 \<Rightarrow> u64 \<Rightarrow> kern \<Rightarrow> int attempt \<times> kern" where
  "kwait_pass i self k =
     (let child = find_process (ucast i) k in
      if child = 0 then (Done (- 1), k)
      else if state (procs k child) = PROC_ZOMBIE then (Done (exit_code (procs k child)), k)
      else (Parked, upd self (\<lambda>q. q\<lparr>state := PROC_BLOCKED, waiting_for := i\<rparr>) k))"

definition kwait :: "u32 \<Rightarrow> kern \<Rightarrow> int attempt \<times> kern" where
  "kwait i k = (let self = get_current_process k in if self = 0 then (Done (- 1), k) else kwait_pass i self k)"

definition kwait_all_pass :: "u64 \<Rightarrow> kern \<Rightarrow> unit attempt \<times> kern" where
  "kwait_all_pass self k =
     (if \<exists>p \<in> set (ptable k). p \<noteq> 0 \<and> p \<noteq> self \<and> ppid (procs k p) = pid (procs k self) \<and> state (procs k p) \<noteq> PROC_ZOMBIE
      then (Parked, upd self (\<lambda>q. q\<lparr>state := PROC_BLOCKED, waiting_for := 0\<rparr>) k)
      else (Done (), k))"

definition kwait_all :: "kern \<Rightarrow> unit attempt \<times> kern" where
  "kwait_all k = (let self = get_current_process k in if self = 0 then (Done (), k) else kwait_all_pass self k)"

text \<open>The idle thread, created once; its entry point is an argument.\<close>

definition ensure_idle_process :: "u64 \<Rightarrow> bool \<Rightarrow> kern \<Rightarrow> kern option" where
  "ensure_idle_process entry created k =
     (if created then Some k
      else map_option (\<lambda>(p, k). k\<lparr>idle_proc := p\<rparr>) (create_process ''idle'' entry k))"

section \<open>Removing a slot\<close>

lemma mset_swap_remove:
  assumes "i < length xs"
  shows "mset (butlast (xs[i := last xs])) = mset xs - {#xs ! i#}"
proof -
  have ne: "xs \<noteq> []" using assms by auto
  have "mset (xs[i := last xs]) = add_mset (last xs) (mset xs - {#xs ! i#})" using assms by (simp add: mset_update)
  moreover have "last (xs[i := last xs]) = last xs" using ne by (simp add: last_list_update)
  moreover have "mset ys = add_mset (last ys) (mset (butlast ys))" if "ys \<noteq> []" for ys :: "'a list"
    using that by (metis append_butlast_last_id mset.simps(1) mset.simps(2) union_code add_mset_add_single mset_append)
  ultimately show ?thesis using ne by (metis add_left_cancel add_mset_add_single list_update_nonempty union_commute)
qed

text \<open>The slot the cursor names holds the same process after the removal.\<close>

lemma swap_remove_current:
  assumes "i < length (ptable k)" "current_idx k < length (ptable k)" "ptable k ! current_idx k \<noteq> ptable k ! i"
    and k'_def: "k' = patch_current i (swap_remove i k)"
  shows "current_idx k' < length (ptable k')" "ptable k' ! current_idx k' = ptable k ! current_idx k"
proof -
  let ?xs = "ptable k" and ?c = "current_idx k"
  have ci: "?c \<noteq> i" using assms(3) by auto
  have l: "length (ptable (swap_remove i k)) = length ?xs - 1" by (simp add: swap_remove_def)
  have n: "ptable k' = butlast (?xs[i := last ?xs])" by (simp add: k'_def swap_remove_def)
  have "current_idx k' < length (ptable k') \<and> ptable k' ! current_idx k' = ?xs ! ?c"
  proof (cases "?c = length ?xs - 1")
    case True
    then have c: "current_idx k' = i" using l by (simp add: k'_def patch_current_def swap_remove_def)
    have "i < length ?xs - 1" using assms(1) ci True by simp
    moreover have "?xs \<noteq> []" using assms(1) by auto
    ultimately show ?thesis using assms(1,2) True by (simp add: c n nth_butlast last_conv_nth)
  next
    case False
    then have "current_idx k' = ?c" using l by (simp add: k'_def patch_current_def swap_remove_def)
    then show ?thesis using assms(2) False ci by (simp add: n nth_butlast)
  qed
  then show "current_idx k' < length (ptable k')" "ptable k' ! current_idx k' = ?xs ! ?c" by auto
qed

lemma current_idx_fold: "(\<And>x k. current_idx (f x k) = current_idx k) \<Longrightarrow> current_idx (fold f xs k) = current_idx k"
  by (induction xs arbitrary: k) simp_all

lemma current_idx_reap_steps [simp]:
  "current_idx (close_proc_fds p k) = current_idx k" "current_idx (free_memory p k) = current_idx k"
  "current_idx (sched_forget p k) = current_idx k" "current_idx (k_free p k) = current_idx k"
proof -
  have "current_idx (close_fd p i k) = current_idx k" for p i k by (simp add: close_fd_def Let_def)
  then show "current_idx (close_proc_fds p k) = current_idx k" by (simp add: close_proc_fds_def current_idx_fold)
  have kf: "current_idx (k_free p k) = current_idx k" for p k by (simp add: k_free_def)
  have "current_idx (free_buf p i k) = current_idx k" for p i k by (simp add: free_buf_def set_vma_def kf)
  then have m: "current_idx (mmap_free_bufs p k) = current_idx k" for p k by (simp add: mmap_free_bufs_def current_idx_fold)
  have "current_idx (hand_over p h k) = current_idx k" for p h k by (simp add: hand_over_def Let_def)
  then have t: "current_idx (tg_reassign_leader p k) = current_idx k" for p k
    by (auto simp: tg_reassign_leader_def Let_def current_idx_fold split: option.split)
  show "current_idx (free_memory p k) = current_idx k" by (simp add: free_memory_def Let_def m t kf)
  show "current_idx (sched_forget p k) = current_idx k" "current_idx (k_free p k) = current_idx k"
    by (simp_all add: sched_forget_def kf)
qed

lemma cpu_number_fold: "(\<And>x k. cpu_number (f x k) = cpu_number k) \<Longrightarrow> cpu_number (fold f xs k) = cpu_number k"
  by (induction xs arbitrary: k) simp_all

lemma cpu_number_reap_steps [simp]:
  "cpu_number (close_proc_fds p k) = cpu_number k" "cpu_number (free_memory p k) = cpu_number k"
  "cpu_number (sched_forget p k) = cpu_number k" "cpu_number (k_free p k) = cpu_number k"
proof -
  have "cpu_number (close_fd p i k) = cpu_number k" for p i k
    by (simp add: close_fd_def Let_def pipe_close_end_def pipe_wake_reader_def set_pipe_def)
  then show "cpu_number (close_proc_fds p k) = cpu_number k" by (simp add: close_proc_fds_def cpu_number_fold)
  have kf: "cpu_number (k_free p k) = cpu_number k" for p k by (simp add: k_free_def)
  have "cpu_number (free_buf p i k) = cpu_number k" for p i k by (simp add: free_buf_def set_vma_def kf)
  then have m: "cpu_number (mmap_free_bufs p k) = cpu_number k" for p k by (simp add: mmap_free_bufs_def cpu_number_fold)
  have "cpu_number (hand_over p h k) = cpu_number k" for p h k by (simp add: hand_over_def Let_def)
  then have t: "cpu_number (tg_reassign_leader p k) = cpu_number k" for p k
    by (auto simp: tg_reassign_leader_def Let_def cpu_number_fold split: option.split)
  show "cpu_number (free_memory p k) = cpu_number k" by (simp add: free_memory_def Let_def m t kf)
  show "cpu_number (sched_forget p k) = cpu_number k" "cpu_number (k_free p k) = cpu_number k"
    by (simp_all add: sched_forget_def kf)
qed

section \<open>Properties\<close>

text \<open>C25: When a matching child has exited, one pass of \<open>do_waitpid\<close> returns: the result is the pid and
  the exit code of a zombie child, the process table loses that child and nothing else, the
  current slot still names the caller, and the caller's saved page directory and stack pointer are
  back in place for the return to ring 3.\<close>

theorem waitpid_collects_zombie:
  assumes self: "ptable k ! current_idx k = self" "current_idx k < length (ptable k)" "state (procs k self) \<noteq> PROC_ZOMBIE"
    and z: "i < length (ptable k)" "wait_child wpid self k i" "state (procs k (ptable k ! i)) = PROC_ZOMBIE"
  shows "\<exists>child k'. do_waitpid_pass wpid options self cr3 ursp k =
      (Done (sint (pid (procs k child)), Some (exit_code (procs k child))), k') \<and>
    child \<in> set (ptable k) \<and> state (procs k child) = PROC_ZOMBIE \<and> ppid (procs k child) = pid (procs k self) \<and>
    (wpid > 0 \<longrightarrow> sint (pid (procs k child)) = wpid) \<and> mset (ptable k') = mset (ptable k) - {#child#} \<and>
    current_idx k' < length (ptable k') \<and> ptable k' ! current_idx k' = self \<and> user_cr3 k' = cr3 \<and> user_rsp k' = ursp"
proof -
  let ?k = "upd self (\<lambda>q. q\<lparr>blocked_in_kernel := False\<rparr>) k"
  let ?n = "length (ptable k)"
  have u: "state (procs ?k x) = state (procs k x)" "pid (procs ?k x) = pid (procs k x)" "ppid (procs ?k x) = ppid (procs k x)"
    "exit_code (procs ?k x) = exit_code (procs k x)" for x by (simp_all add: upd_def)
  have wc: "wait_child wpid self ?k = wait_child wpid self k" by (simp add: wait_child_def u fun_eq_iff)
  obtain zi where zi: "find_idx ?n (\<lambda>i. wait_child wpid self k i \<and> state (procs ?k (ptable k ! i)) = PROC_ZOMBIE) = Some zi"
    using z by (metis (mono_tags, lifting) find_idx_None not_None_eq u(1))
  have any: "find_idx ?n (wait_child wpid self k) \<noteq> None" using z by auto
  let ?c = "ptable k ! zi"
  have c: "zi < ?n" "wait_child wpid self k zi" "state (procs k ?c) = PROC_ZOMBIE"
    using find_idx_SomeD[OF zi] by (auto simp: u)
  let ?f = "free_memory ?c (close_proc_fds ?c ?k)"
  let ?k' = "restore_user cr3 ursp (k_free ?c (patch_current zi (swap_remove zi ?f)))"
  have e: "do_waitpid_pass wpid options self cr3 ursp k = (Done (sint (pid (procs k ?c)), Some (exit_code (procs k ?c))), ?k')"
    using zi any unfolding do_waitpid_pass_def by (simp add: Let_def wc collect_def u del: find_idx_None)
  have ne: "ptable ?f ! current_idx ?f \<noteq> ptable ?f ! zi" using self c(3) by auto
  have i: "zi < length (ptable ?f)" "current_idx ?f < length (ptable ?f)" using c(1) self(2) by simp_all
  note S = swap_remove_current[OF i ne refl]
  have k': "current_idx ?k' = current_idx (patch_current zi (swap_remove zi ?f))"
    "ptable ?k' = ptable (patch_current zi (swap_remove zi ?f))"
    by (simp_all add: restore_user_def)
  have "mset (ptable ?k') = mset (ptable k) - {#?c#}"
    unfolding k' using mset_swap_remove[OF c(1)] by (simp add: swap_remove_def)
  moreover have "current_idx ?k' < length (ptable ?k')" unfolding k' by (rule S(1))
  moreover have "ptable ?k' ! current_idx ?k' = self" unfolding k' using S(2) self(1) by simp
  moreover have "user_cr3 ?k' = cr3" "user_rsp ?k' = ursp" by (simp_all add: restore_user_def)
  moreover have "ppid (procs k ?c) = pid (procs k self)" "wpid > 0 \<longrightarrow> sint (pid (procs k ?c)) = wpid"
    using c(2) by (simp_all add: wait_child_def Let_def)
  ultimately show ?thesis using e c(1,3) by (metis nth_mem)
qed

lemma pipe_close_end_proc:
  "pid (procs (pipe_close_end i w k) x) = pid (procs k x)" "tgid (procs (pipe_close_end i w k) x) = tgid (procs k x)"
  "ufd_inuse (procs (pipe_close_end i w k) x) = ufd_inuse (procs k x)"
  "ufd_handle (procs (pipe_close_end i w k) x) = ufd_handle (procs k x)"
  by (simp_all add: pipe_close_end_def pipe_wake_reader_def Let_def upd_def)

lemma close_fd_proc:
  "pid (procs (close_fd p i k) x) = pid (procs k x)" "tgid (procs (close_fd p i k) x) = tgid (procs k x)"
  "ufd_inuse (procs (close_fd p i k) x) = (if x = p then (ufd_inuse (procs k x))(i := False) else ufd_inuse (procs k x))"
  "ufd_handle (procs (close_fd p i k) x) = ufd_handle (procs k x)"
  by (auto simp: close_fd_def Let_def upd_def pipe_close_end_proc fun_eq_iff)

lemma close_fds_proc:
  "pid (procs (fold (close_fd p) is k) x) = pid (procs k x)" "tgid (procs (fold (close_fd p) is k) x) = tgid (procs k x)"
  "ufd_handle (procs (fold (close_fd p) is k) x) = ufd_handle (procs k x)"
  "ufd_inuse (procs (fold (close_fd p) is k) x) = (\<lambda>j. ufd_inuse (procs k x) j \<and> \<not> (x = p \<and> j \<in> set is))"
  by (induction "is" arbitrary: k) (auto simp: close_fd_proc fun_eq_iff)

text \<open>What the group's heir ends up with.\<close>

lemma reassign_heir:
  assumes "p \<noteq> 0" and h: "List.find (\<lambda>x. x \<noteq> 0 \<and> x \<noteq> p \<and> tgid (procs k x) = pid (procs k p)) (ptable k) = Some h"
    and k'_def: "k' = tg_reassign_leader p k"
  shows "tgid (procs k' h) = 0" "i < PROC_MAX_FDS \<Longrightarrow> ufd_inuse (procs k' h) i = ufd_inuse (procs k p) i"
proof -
  have hp: "h \<noteq> p" using h by (auto simp: find_Some_iff)
  let ?m = "\<lambda>k x. x \<noteq> 0 \<and> x \<noteq> p \<and> tgid (procs k x) = pid (procs k p)"
  let ?g = "\<lambda>x k. if ?m k x then upd x (\<lambda>q. q\<lparr>tgid := pid (procs k h)\<rparr>) k else k"
  have k': "k' = upd h (\<lambda>q. q\<lparr>tgid := 0\<rparr>) (fold ?g (ptable (hand_over p h k)) (hand_over p h k))"
    using h assms(1) by (simp add: k'_def tg_reassign_leader_def Let_def)
  show "tgid (procs k' h) = 0" by (simp add: k')
  have "ufd_inuse (procs (fold ?g xs a) x) = ufd_inuse (procs a x)" for xs a x
    by (induction xs arbitrary: a) (auto simp: upd_def)
  then show "i < PROC_MAX_FDS \<Longrightarrow> ufd_inuse (procs k' h) i = ufd_inuse (procs k p) i"
    using hp by (simp add: k') (simp add: hand_over_def Let_def)
qed

lemma free_memory_fds:
  "ufd_inuse (procs (free_memory p k) x) = ufd_inuse (procs (tg_reassign_leader p k) x)"
  "tgid (procs (free_memory p k) x) = tgid (procs (tg_reassign_leader p k) x)"
proof -
  have "ufd_inuse (procs (free_buf p i a) x) = ufd_inuse (procs a x)" "tgid (procs (free_buf p i a) x) = tgid (procs a x)" for i a
    by (simp_all add: free_buf_def set_vma_def upd_def)
  then have "ufd_inuse (procs (fold (free_buf p) is a) x) = ufd_inuse (procs a x)"
      "tgid (procs (fold (free_buf p) is a) x) = tgid (procs a x)" for "is" a
    by (induction "is" arbitrary: a) simp_all
  then have m: "ufd_inuse (procs (mmap_free_bufs p a) x) = ufd_inuse (procs a x)"
      "tgid (procs (mmap_free_bufs p a) x) = tgid (procs a x)" for a
    by (simp_all add: mmap_free_bufs_def)
  have "procs (free_memory p k) = procs (mmap_free_bufs p (tg_reassign_leader p k))"
    unfolding free_memory_def Let_def if_distrib[of procs] k_procs(2) procs_put_vm if_cancel ..
  then show "ufd_inuse (procs (free_memory p k) x) = ufd_inuse (procs (tg_reassign_leader p k) x)"
    "tgid (procs (free_memory p k) x) = tgid (procs (tg_reassign_leader p k) x)"
    by (simp_all add: m)
qed

text \<open>When the leader of a thread group is reaped, its descriptors are closed before the table is
  handed to the surviving thread that becomes the leader, so the heir inherits an empty table: every
  descriptor of the group is gone although the group lives on.\<close>

theorem leader_exit_closes_group_fds:
  assumes p: "p \<noteq> 0" and t: "t \<in> set (ptable k)" "t \<noteq> 0" "t \<noteq> p" "tgid (procs k t) = pid (procs k p)"
    and k': "k' = free_memory p (close_proc_fds p k)"
  shows "\<exists>heir \<in> set (ptable k'). heir \<noteq> p \<and> tgid (procs k heir) = pid (procs k p) \<and> tgid (procs k' heir) = 0 \<and>
    (\<forall>i < PROC_MAX_FDS. \<not> ufd_inuse (procs k' heir) i)"
proof -
  let ?c = "close_proc_fds p k"
  have c: "pid (procs ?c x) = pid (procs k x)" "tgid (procs ?c x) = tgid (procs k x)"
    "i < PROC_MAX_FDS \<Longrightarrow> \<not> ufd_inuse (procs ?c p) i" for x i
    using p by (simp_all add: close_proc_fds_def close_fds_proc)
  obtain h where h: "List.find (\<lambda>x. x \<noteq> 0 \<and> x \<noteq> p \<and> tgid (procs ?c x) = pid (procs ?c p)) (ptable ?c) = Some h"
  proof (cases "List.find (\<lambda>x. x \<noteq> 0 \<and> x \<noteq> p \<and> tgid (procs ?c x) = pid (procs ?c p)) (ptable ?c)")
    case None
    then have "\<not> (t \<noteq> 0 \<and> t \<noteq> p \<and> tgid (procs ?c t) = pid (procs ?c p))"
      unfolding find_None_iff using t(1) by (metis ptable_reap_steps(1))
    then show ?thesis using t by (simp add: c)
  qed blast
  then have hm: "h \<in> set (ptable k)" "h \<noteq> p" "tgid (procs k h) = pid (procs k p)"
    using c by (auto simp: find_Some_iff)
  note R = reassign_heir[OF p h refl]
  have "ptable k' = ptable k" by (simp add: k')
  then have "h \<in> set (ptable k')" using hm(1) by simp
  moreover have "tgid (procs k' h) = 0" unfolding k' free_memory_fds by (rule R(1))
  moreover have "\<forall>i < PROC_MAX_FDS. \<not> ufd_inuse (procs k' h) i" unfolding k' free_memory_fds using R(2) c(3) by simp
  ultimately show ?thesis using hm(2,3) by blast
qed

text \<open>\<open>reap_user_process\<close> moves the last table entry into the freed slot without adjusting the
  cursor: when the running process is the last entry, the boot processor no longer finds any
  current process.\<close>

theorem reap_user_process_loses_current:
  assumes "cpu_number k = 0" and cur: "current_idx k = length (ptable k) - 1"
    and p: "p \<noteq> 0" "p \<in> set (ptable k)"
  shows "get_current_process (reap_user_process p k) = 0"
proof -
  let ?c = "close_proc_fds p k"
  obtain i where i: "find_idx (length (ptable ?c)) (\<lambda>i. ptable ?c ! i = p) = Some i"
    using p(2) find_idx_None[of "length (ptable ?c)" "\<lambda>i. ptable ?c ! i = p"]
    by (cases "find_idx (length (ptable ?c)) (\<lambda>i. ptable ?c ! i = p)") (auto simp: in_set_conv_nth)
  let ?k' = "k_free p (sched_forget p (free_memory p (swap_remove i ?c)))"
  have "reap_user_process p k = ?k'" using p(1) i by (simp add: reap_user_process_def Let_def)
  moreover have "length (ptable ?k') = length (ptable k) - 1" by (simp add: swap_remove_def)
  moreover have "current_idx ?k' = length (ptable k) - 1" using cur by (simp add: swap_remove_def)
  moreover have "cpu_number ?k' = 0" using assms(1) by (simp add: swap_remove_def)
  ultimately show ?thesis by (simp add: get_current_process_def)
qed

section \<open>Concrete runs\<close>

text \<open>A parent, and a child that is either its zombie or a thread of its group.\<close>

definition family :: "process \<Rightarrow> kern" where
  "family q = kern_example\<lparr>ptable := [0x5000, 0x6000], procs := ((\<lambda>_. zero_process)(0x5000 := sig_proc))(0x6000 := q)\<rparr>"

lemma family_simps [simp]:
  "ptable (family q) = [0x5000, 0x6000]" "procs (family q) 0x5000 = sig_proc" "procs (family q) 0x6000 = q"
  "current_idx (family q) = 0" "cpu_number (family q) = 0" "pid sig_proc = 3"
  by (simp_all add: family_def kern_example_def sig_proc_def)

theorem waitpid_collects_zombie_witness:
  "\<exists>child k'. do_waitpid_pass 4 0 0x5000 0x9000 0x400000 (family (zero_process\<lparr>pid := 4, ppid := 3, state := PROC_ZOMBIE\<rparr>)) =
      (Done (sint (pid (procs (family (zero_process\<lparr>pid := 4, ppid := 3, state := PROC_ZOMBIE\<rparr>)) child)),
        Some (exit_code (procs (family (zero_process\<lparr>pid := 4, ppid := 3, state := PROC_ZOMBIE\<rparr>)) child))), k') \<and>
    mset (ptable k') = {#0x5000, 0x6000#} - {#child#} \<and> ptable k' ! current_idx k' = 0x5000"
proof -
  let ?k = "family (zero_process\<lparr>pid := 4, ppid := 3, state := PROC_ZOMBIE\<rparr>)"
  have w: "wait_child 4 0x5000 ?k 1" by (simp add: wait_child_def)
  show ?thesis using waitpid_collects_zombie[of ?k "0x5000" 1 4 0 "0x9000" "0x400000"] w
    by (auto simp: PROC_RUN_def PROC_ZOMBIE_def)
qed

theorem leader_exit_closes_group_fds_witness:
  "\<exists>heir \<in> set (ptable (free_memory 0x5000 (close_proc_fds 0x5000 (family (zero_process\<lparr>pid := 4, tgid := 3\<rparr>))))).
     heir \<noteq> 0x5000 \<and>
     (\<forall>i < PROC_MAX_FDS. \<not> ufd_inuse (procs (free_memory 0x5000 (close_proc_fds 0x5000 (family (zero_process\<lparr>pid := 4, tgid := 3\<rparr>)))) heir) i)"
proof -
  let ?k = "family (zero_process\<lparr>pid := 4, tgid := 3\<rparr>)"
  have "0x6000 \<in> set (ptable ?k)" "tgid (procs ?k 0x6000) = pid (procs ?k 0x5000)" by simp_all
  from leader_exit_closes_group_fds[OF _ this(1) _ _ this(2) refl] show ?thesis by auto
qed

theorem reap_user_process_loses_current_witness:
  "get_current_process (reap_user_process 0x5000 ((family zero_process)\<lparr>current_idx := 1\<rparr>)) = 0"
  using reap_user_process_loses_current[of "(family zero_process)\<lparr>current_idx := 1\<rparr>" "0x5000"] by simp

end
