(* ===== verification/Net_State.thy ===== *)
theory Net_State
  imports Nyx_Prelude "HOL-Library.Monad_Syntax"
begin

text \<open>
  The state of the network stack (\<open>net.c\<close>, \<open>tcp.h\<close>, \<open>arp.c\<close>, \<open>ip.c\<close>, \<open>udp.c\<close>, \<open>icmp.c\<close>), network byte order and the
  Internet checksum. A packet is the list of its bytes. A heap buffer that belongs to one table
  entry is the list of the bytes written to it, \<open>None\<close> being the null pointer; whether the next calls of
  \<open>kmalloc\<close> succeed is told by \<open>kmem\<close> (an empty list: all do). A store through a null or too short buffer
  sets \<open>wild\<close>. The card is \<open>nic_rx\<close>, what each receive call will find (the tick count then, and a frame,
  empty when there is none), and \<open>nic_tx\<close>, the frames sent.

  A call that does not return is \<open>None\<close>.
\<close>

section \<open>State\<close>

record iface =
  if_name :: string
  if_mac :: "u8 list"
  if_ip :: u32
  if_netmask :: u32
  if_gateway :: u32

record arp_entry =
  arp_ip :: u32
  arp_mac :: "u8 list"
  arp_valid :: bool

text \<open>The kernel's UDP listeners: the echo service, or another client whose deliveries are logged.\<close>

datatype udp_handler = Udp_echo | Udp_client nat

record udp_listener =
  ul_port :: u16
  ul_handler :: "udp_handler option"
  ul_active :: bool

record dgram =
  dg_src_ip :: u32
  dg_src_port :: u16
  dg_data :: "u8 list"

record nsock =
  ns_in_use :: bool
  ns_type :: int
  ns_tcp_conn :: int
  ns_local_port :: u16
  ns_listening :: bool
  ns_dq :: "dgram arr option"
  ns_dq_head :: nat
  ns_dq_tail :: nat

record tcp_conn =
  c_active :: bool
  c_state :: nat
  c_accepted :: bool
  c_src_ip :: u32
  c_dst_ip :: u32
  c_src_port :: u16
  c_dst_port :: u16
  c_seq :: u32
  c_ack :: u32
  recv_buf :: "u8 list option"
  recv_len :: u32
  recv_cap :: u32
  sent_unacked :: u32
  rt_seg :: "u8 list option"
  rt_ack_seq :: u32
  rt_sent_tick :: u32
  rt_rto :: u32
  rt_retries :: int

record net =
  net_interfaces :: "iface arr"
  arp_cache :: "arp_entry arr"
  lo_ring :: "u8 list arr"
  lo_head :: nat
  lo_tail :: nat
  g_last_rx_ttl :: u8
  udp_listeners :: "udp_listener arr"
  udp_log :: "(nat \<times> u8 list \<times> u32 \<times> u16) list"
  nsocks :: "nsock arr"
  conns :: "tcp_conn arr"
  next_isn :: u32
  g_tcp_drop_tx :: int
  ephemeral :: u16
  eph :: u16
  echo_listen :: int
  echo_conns :: "int arr"
  ping_ident :: u16
  ping_wait_seq :: int
  ping_got_reply :: bool
  ping_reply_tick :: u32
  ping_reply_ttl :: u8
  ping_reply_len :: nat
  ticks :: u32
  rtl_initialized :: bool
  nic_rx :: "(u32 \<times> u8 list) list"
  nic_tx :: "u8 list list"
  kmem :: "bool list"
  wild :: bool

text \<open>How a transport hands a packet to IP: destination, protocol, payload, interface.\<close>

type_synonym sender = "u32 \<Rightarrow> u8 \<Rightarrow> u8 list \<Rightarrow> int \<Rightarrow> net \<Rightarrow> (int \<times> net) option"

definition kmalloc_ok :: "net \<Rightarrow> bool \<times> net" where
  "kmalloc_ok s = (case kmem s of [] \<Rightarrow> (True, s) | b # bs \<Rightarrow> (b, s\<lparr>kmem := bs\<rparr>))"

section \<open>Byte order\<close>

text \<open>A 16 or 32-bit field stored with \<open>htons\<close>, \<open>htonl\<close>, and its reading; addresses are kept in wire order.\<close>

definition be16_bytes :: "u16 \<Rightarrow> u8 list" where
  "be16_bytes w = [ucast (drop_bit 8 w), ucast w]"

definition be32_bytes :: "u32 \<Rightarrow> u8 list" where
  "be32_bytes w = [ucast (drop_bit 24 w), ucast (drop_bit 16 w), ucast (drop_bit 8 w), ucast w]"

definition be16 :: "u8 list \<Rightarrow> nat \<Rightarrow> u16" where
  "be16 p i = push_bit 8 (ucast (p ! i)) OR ucast (p ! (i + 1))"

definition be32 :: "u8 list \<Rightarrow> nat \<Rightarrow> u32" where
  "be32 p i = push_bit 24 (ucast (p ! i)) OR push_bit 16 (ucast (p ! (i + 1))) OR push_bit 8 (ucast (p ! (i + 2))) OR
     ucast (p ! (i + 3))"

definition ip_bytes :: "u32 \<Rightarrow> u8 list" where
  "ip_bytes w = [ucast w, ucast (drop_bit 8 w), ucast (drop_bit 16 w), ucast (drop_bit 24 w)]"

definition ip_at :: "u8 list \<Rightarrow> nat \<Rightarrow> u32" where
  "ip_at p i = ucast (p ! i) OR push_bit 8 (ucast (p ! (i + 1))) OR push_bit 16 (ucast (p ! (i + 2))) OR
     push_bit 24 (ucast (p ! (i + 3)))"

section \<open>The Internet checksum\<close>

definition csum_add :: "u16 \<Rightarrow> u32 \<Rightarrow> u32" where
  "csum_add w acc =
     (let acc = acc + ucast w in
      if acc AND 0xFFFF0000 \<noteq> 0 then (acc AND 0xFFFF) + drop_bit 16 acc else acc)"

text \<open>The 16-bit words of a packet, an odd last byte padded with zero.\<close>

fun be_words :: "u8 list \<Rightarrow> u16 list" where
  "be_words [] = []"
| "be_words [a] = [push_bit 8 (ucast a)]"
| "be_words (a # b # r) = (push_bit 8 (ucast a) OR ucast b) # be_words r"

definition inet_checksum :: "u8 list \<Rightarrow> u16" where
  "inet_checksum p = NOT (ucast (fold csum_add (be_words p) 0))"

section \<open>Interfaces\<close>

definition NUM_IFACES :: nat where "NUM_IFACES = 8"

definition is_nic :: "net \<Rightarrow> nat \<Rightarrow> bool" where
  "is_nic s i \<longleftrightarrow> if_name (net_interfaces s i) \<noteq> [] \<and> if_name (net_interfaces s i) \<noteq> ''lo''"

definition TX_BUF_SIZE :: nat where "TX_BUF_SIZE = 1536"

definition rtl8139_send_packet :: "u8 list \<Rightarrow> net \<Rightarrow> int \<times> net" where
  "rtl8139_send_packet data s =
     (if \<not> rtl_initialized s \<or> length data > TX_BUF_SIZE then (- 1, s)
      else (int (length data), s\<lparr>nic_tx := nic_tx s @ [data]\<rparr>))"

text \<open>One receive call; the ring of the card itself is the environment's.\<close>

definition rtl8139_receive_packet :: "nat \<Rightarrow> net \<Rightarrow> u8 list \<times> net" where
  "rtl8139_receive_packet max_len s =
     (case nic_rx s of
        [] \<Rightarrow> ([], s)
      | (t, f) # r \<Rightarrow> (if rtl_initialized s then take max_len f else [], s\<lparr>nic_rx := r, ticks := t\<rparr>))"

section \<open>Round trips\<close>

lemma be_bytes_length [simp]:
  "length (be16_bytes w) = 2" "length (be32_bytes v) = 4" "length (ip_bytes v) = 4"
  by (simp_all add: be16_bytes_def be32_bytes_def ip_bytes_def)

text \<open>Reading a field back, and reading past a field.\<close>

lemma be16_field [simp]: "be16 (be16_bytes w @ q) 0 = w" "be16 (be16_bytes w) 0 = w"
  by (intro bit_word_eqI; auto simp: be16_def be16_bytes_def bit_simps not_less)+

lemma be32_byte: "be32 (be32_bytes w @ q) 0 = w" "ip_at (ip_bytes w @ q) 0 = w"
proof -
  have "bit (be32 (be32_bytes w @ q) 0) n = bit w n" "bit (ip_at (ip_bytes w @ q) 0) n = bit w n" if "n < 32" for n
    using that
    by (cases "n < 8"; cases "n < 16"; cases "n < 24"; force simp: be32_def be32_bytes_def ip_at_def ip_bytes_def bit_simps)+
  then show "be32 (be32_bytes w @ q) 0 = w" "ip_at (ip_bytes w @ q) 0 = w" by (auto intro!: bit_word_eqI)
qed

lemmas be32_field [simp] = be32_byte be32_byte[where q = "[]", simplified]

lemma past_prefix:
  assumes "length p \<le> j"
  shows "be16 (p @ q) j = be16 q (j - length p)" "be32 (p @ q) j = be32 q (j - length p)"
    "ip_at (p @ q) j = ip_at q (j - length p)"
proof -
  have "(p @ q) ! (j + i) = q ! (j - length p + i)" for i using assms by (simp add: nth_append)
  from this[of 0] this[of 1] this[of 2] this[of 3]
  show "be16 (p @ q) j = be16 q (j - length p)" "be32 (p @ q) j = be32 q (j - length p)"
    "ip_at (p @ q) j = ip_at q (j - length p)"
    by (simp_all add: be16_def be32_def ip_at_def)
qed

lemma past_byte: "0 < j \<Longrightarrow> be16 (b # q) j = be16 q (j - 1)" "0 < j \<Longrightarrow> be32 (b # q) j = be32 q (j - 1)"
  "0 < j \<Longrightarrow> ip_at (b # q) j = ip_at q (j - 1)"
  by (auto simp: be16_def be32_def ip_at_def nth_Cons')

lemmas past_field [simp] = past_prefix[of "be16_bytes w" for w, simplified] past_prefix[of "be32_bytes w" for w, simplified]
  past_prefix[of "ip_bytes w" for w, simplified] past_byte

section \<open>A concrete state\<close>

definition no_conn :: tcp_conn where
  "no_conn = \<lparr>c_active = False, c_state = 0, c_accepted = False, c_src_ip = 0, c_dst_ip = 0, c_src_port = 0, c_dst_port = 0,
     c_seq = 0, c_ack = 0, recv_buf = None, recv_len = 0, recv_cap = 0, sent_unacked = 0, rt_seg = None, rt_ack_seq = 0,
     rt_sent_tick = 0, rt_rto = 0, rt_retries = 0\<rparr>"

definition net_zero :: net where
  "net_zero = \<lparr>net_interfaces = (\<lambda>_. \<lparr>if_name = [], if_mac = [], if_ip = 0, if_netmask = 0, if_gateway = 0\<rparr>),
     arp_cache = (\<lambda>_. \<lparr>arp_ip = 0, arp_mac = [], arp_valid = False\<rparr>), lo_ring = (\<lambda>_. []), lo_head = 0, lo_tail = 0, g_last_rx_ttl = 64,
     udp_listeners = (\<lambda>_. \<lparr>ul_port = 0, ul_handler = None, ul_active = False\<rparr>), udp_log = [],
     nsocks = (\<lambda>_. \<lparr>ns_in_use = False, ns_type = 0, ns_tcp_conn = 0, ns_local_port = 0, ns_listening = False, ns_dq = None, ns_dq_head = 0, ns_dq_tail = 0\<rparr>),
     conns = (\<lambda>_. no_conn), next_isn = 1000, g_tcp_drop_tx = 0, ephemeral = 40000, eph = 48000, echo_listen = - 1, echo_conns = (\<lambda>_. 0),
     ping_ident = 0, ping_wait_seq = - 1, ping_got_reply = False, ping_reply_tick = 0, ping_reply_ttl = 0, ping_reply_len = 0,
     ticks = 0, rtl_initialized = False, nic_rx = [], nic_tx = [], kmem = [], wild = False\<rparr>"

lemma kmalloc_ok_all [simp]: "kmem s = [] \<Longrightarrow> kmalloc_ok s = (True, s)"
  by (simp add: kmalloc_ok_def)

end
