(* ===== verification/Tcp.thy ===== *)
theory Tcp
  imports Net_State
begin

text \<open>
  TCP, \<open>src/kernel/tcp.c\<close>. A connection is an index into \<open>conns\<close>. The functions that transmit take
  \<open>ip_send\<close> as an argument, because waiting for an address there polls the network again.
\<close>

section \<open>Constants\<close>

definition TCP_FLAG_FIN :: u8 where "TCP_FLAG_FIN = 0x01"
definition TCP_FLAG_SYN :: u8 where "TCP_FLAG_SYN = 0x02"
definition TCP_FLAG_RST :: u8 where "TCP_FLAG_RST = 0x04"
definition TCP_FLAG_PSH :: u8 where "TCP_FLAG_PSH = 0x08"
definition TCP_FLAG_ACK :: u8 where "TCP_FLAG_ACK = 0x10"
definition TCP_STATE_CLOSED :: nat where "TCP_STATE_CLOSED = 0"
definition TCP_STATE_SYN_SENT :: nat where "TCP_STATE_SYN_SENT = 1"
definition TCP_STATE_SYN_RCVD :: nat where "TCP_STATE_SYN_RCVD = 2"
definition TCP_STATE_ESTABLISHED :: nat where "TCP_STATE_ESTABLISHED = 3"
definition TCP_STATE_FIN_WAIT1 :: nat where "TCP_STATE_FIN_WAIT1 = 4"
definition TCP_STATE_CLOSE_WAIT :: nat where "TCP_STATE_CLOSE_WAIT = 6"
definition TCP_STATE_LAST_ACK :: nat where "TCP_STATE_LAST_ACK = 7"
definition TCP_STATE_TIME_WAIT :: nat where "TCP_STATE_TIME_WAIT = 8"
definition TCP_STATE_LISTEN :: nat where "TCP_STATE_LISTEN = 9"
definition TCP_MAX_CONNS :: nat where "TCP_MAX_CONNS = 32"
definition TCP_RTO_INITIAL :: u32 where "TCP_RTO_INITIAL = 300"
definition TCP_RTO_MAX :: u32 where "TCP_RTO_MAX = 2400"
definition TCP_MAX_RETRIES :: int where "TCP_MAX_RETRIES = 5"

lemmas tcp_consts = TCP_FLAG_FIN_def TCP_FLAG_SYN_def TCP_FLAG_RST_def TCP_FLAG_PSH_def TCP_FLAG_ACK_def
  TCP_STATE_CLOSED_def TCP_STATE_SYN_SENT_def TCP_STATE_SYN_RCVD_def TCP_STATE_ESTABLISHED_def TCP_STATE_FIN_WAIT1_def
  TCP_STATE_CLOSE_WAIT_def TCP_STATE_LAST_ACK_def TCP_STATE_TIME_WAIT_def TCP_STATE_LISTEN_def

section \<open>The connection table\<close>

definition upd_conn :: "nat \<Rightarrow> (tcp_conn \<Rightarrow> tcp_conn) \<Rightarrow> net \<Rightarrow> net" where
  "upd_conn i f s = s\<lparr>conns := (conns s)(i := f (conns s i))\<rparr>"

definition find_slot :: "net \<Rightarrow> nat option" where
  "find_slot s = find_idx TCP_MAX_CONNS (\<lambda>i. \<not> c_active (conns s i))"

definition find_conn_by_tuple :: "u32 \<Rightarrow> u16 \<Rightarrow> u16 \<Rightarrow> net \<Rightarrow> nat option" where
  "find_conn_by_tuple dst_ip src_port dst_port s =
     find_idx TCP_MAX_CONNS (\<lambda>i. let c = conns s i in
       c_active c \<and> c_state c \<noteq> TCP_STATE_LISTEN \<and> c_dst_ip c = dst_ip \<and> c_src_port c = src_port \<and> c_dst_port c = dst_port)"

definition find_listener :: "u16 \<Rightarrow> net \<Rightarrow> nat option" where
  "find_listener port s =
     find_idx TCP_MAX_CONNS (\<lambda>i. let c = conns s i in c_active c \<and> c_state c = TCP_STATE_LISTEN \<and> c_src_port c = port)"

section \<open>Segments\<close>

definition pseudo_header :: "u32 \<Rightarrow> u32 \<Rightarrow> nat \<Rightarrow> u8 list" where
  "pseudo_header src dst tcp_len = ip_bytes src @ ip_bytes dst @ [0, 6] @ be16_bytes (of_nat tcp_len)"

definition tcp_checksum :: "u32 \<Rightarrow> u32 \<Rightarrow> u8 list \<Rightarrow> u16" where
  "tcp_checksum src dst seg = inet_checksum (pseudo_header src dst (length seg) @ seg)"

definition tcp_header :: "u16 \<Rightarrow> u16 \<Rightarrow> u32 \<Rightarrow> u32 \<Rightarrow> u8 \<Rightarrow> u16 \<Rightarrow> u16 \<Rightarrow> u8 list" where
  "tcp_header sp dp sq ak flags window ck =
     be16_bytes sp @ be16_bytes dp @ be32_bytes sq @ be32_bytes ak @ be16_bytes (0x5000 OR (ucast flags AND 0x3F)) @
     be16_bytes window @ be16_bytes ck @ be16_bytes 0"

definition tcp_segment :: "tcp_conn \<Rightarrow> u8 \<Rightarrow> u8 list \<Rightarrow> u8 list" where
  "tcp_segment c flags data =
     (let hdr = tcp_header (c_src_port c) (c_dst_port c) (c_seq c) (c_ack c) flags 0x2000
      in hdr (tcp_checksum (c_src_ip c) (c_dst_ip c) (hdr 0 @ data)) @ data)"

definition consumes_seq :: "u8 \<Rightarrow> u8 list \<Rightarrow> bool" where
  "consumes_seq flags data \<longleftrightarrow> flags AND TCP_FLAG_SYN \<noteq> 0 \<or> flags AND TCP_FLAG_FIN \<noteq> 0 \<or> data \<noteq> []"

definition seq_space :: "u8 \<Rightarrow> u8 list \<Rightarrow> u32" where
  "seq_space flags data = (if flags AND TCP_FLAG_SYN \<noteq> 0 then 1 else 0) + (if flags AND TCP_FLAG_FIN \<noteq> 0 then 1 else 0) +
     of_nat (length data)"

text \<open>Keeping a copy until it is acknowledged; an earlier copy is dropped.\<close>

definition arm_retransmit :: "nat \<Rightarrow> u8 \<Rightarrow> u8 list \<Rightarrow> u8 list \<Rightarrow> net \<Rightarrow> net" where
  "arm_retransmit i flags data seg s =
     (let (ok, s) = kmalloc_ok s in
      if ok then upd_conn i (\<lambda>c. c\<lparr>rt_seg := Some seg, rt_ack_seq := c_seq c + seq_space flags data,
               rt_sent_tick := ticks s, rt_rto := TCP_RTO_INITIAL, rt_retries := 0\<rparr>) s
      else upd_conn i (\<lambda>c. c\<lparr>rt_seg := None\<rparr>) s)"

definition advance_seq :: "u8 \<Rightarrow> u8 list \<Rightarrow> tcp_conn \<Rightarrow> tcp_conn" where
  "advance_seq flags data c =
     (let c = (if flags AND TCP_FLAG_SYN \<noteq> 0 then c\<lparr>sent_unacked := c_seq c + 1\<rparr>
               else if data \<noteq> [] then c\<lparr>sent_unacked := c_seq c + of_nat (length data)\<rparr> else c)
      in if flags AND TCP_FLAG_RST = 0 then c\<lparr>c_seq := c_seq c + seq_space flags data\<rparr> else c)"

definition send_segment :: "sender \<Rightarrow> nat \<Rightarrow> u8 \<Rightarrow> u8 list \<Rightarrow> net \<Rightarrow> (int \<times> net) option" where
  "send_segment snd_ip i flags data s =
     (let (ok, s) = kmalloc_ok s in
      if \<not> ok then Some (- 1, s)
      else do {
        let seg = tcp_segment (conns s i) flags data;
        let s = (if consumes_seq flags data then arm_retransmit i flags data seg s else s);
        (r, s) \<leftarrow> (if g_tcp_drop_tx s > 0 \<and> consumes_seq flags data
                   then Some (int (length seg), s\<lparr>g_tcp_drop_tx := g_tcp_drop_tx s - 1\<rparr>)
                   else snd_ip (c_dst_ip (conns s i)) 6 seg (- 1) s);
        Some (r, upd_conn i (advance_seq flags data) s)
      })"

section \<open>Retransmission\<close>

definition retransmit_due :: "u32 \<Rightarrow> tcp_conn \<Rightarrow> bool" where
  "retransmit_due now c \<longleftrightarrow> c_active c \<and> rt_seg c \<noteq> None \<and> \<not> sint (now - (rt_sent_tick c + rt_rto c)) < 0"

definition give_up :: "tcp_conn \<Rightarrow> tcp_conn" where
  "give_up c = c\<lparr>rt_seg := None, recv_buf := None, c_active := False, c_state := TCP_STATE_CLOSED\<rparr>"

definition back_off :: "u32 \<Rightarrow> tcp_conn \<Rightarrow> tcp_conn" where
  "back_off now c =
     (let rto = rt_rto c * 2
      in c\<lparr>rt_retries := rt_retries c + 1, rt_rto := (if rto > TCP_RTO_MAX then TCP_RTO_MAX else rto), rt_sent_tick := now\<rparr>)"

definition tcp_tick_conn :: "sender \<Rightarrow> u32 \<Rightarrow> nat \<Rightarrow> net \<Rightarrow> net option" where
  "tcp_tick_conn snd_ip now i s =
     (let c = conns s i in
      if \<not> retransmit_due now c then Some s
      else if rt_retries c \<ge> TCP_MAX_RETRIES then Some (upd_conn i give_up s)
      else do {
        (r, s) \<leftarrow> snd_ip (c_dst_ip c) 6 (the (rt_seg c)) (- 1) (upd_conn i (back_off now) s);
        Some s
      })"

definition tcp_tick :: "sender \<Rightarrow> net \<Rightarrow> net option" where
  "tcp_tick snd_ip s = ofold (tcp_tick_conn snd_ip (ticks s)) [0..<TCP_MAX_CONNS] s"

section \<open>Opening, using and closing\<close>

definition tcp_init :: "net \<Rightarrow> net" where
  "tcp_init s = fold (\<lambda>i. upd_conn i (\<lambda>c. c\<lparr>c_active := False\<rparr>)) [0..<TCP_MAX_CONNS] s"

text \<open>The fields every opener sets; the rest of a recycled slot keeps its old value.\<close>

definition open_conn :: "nat \<Rightarrow> u32 \<Rightarrow> u32 \<Rightarrow> u16 \<Rightarrow> u16 \<Rightarrow> u32 \<Rightarrow> u32 \<Rightarrow> tcp_conn \<Rightarrow> tcp_conn" where
  "open_conn st src dst sp dp sq ak c = c\<lparr>c_active := True, c_state := st, c_accepted := False, c_src_ip := src, c_dst_ip := dst,
     c_src_port := sp, c_dst_port := dp, c_seq := sq, c_ack := ak, recv_buf := None, recv_len := 0, recv_cap := 0,
     rt_seg := None, rt_retries := 0\<rparr>"

definition local_source :: "u32 \<Rightarrow> net \<Rightarrow> u32 option" where
  "local_source dst_ip s =
     (if dst_ip AND 0xFF = 0x7F then Some 0x0100007F
      else map_option (\<lambda>i. if_ip (net_interfaces s i)) (find_idx NUM_IFACES (is_nic s)))"

definition tcp_connect :: "sender \<Rightarrow> u32 \<Rightarrow> u16 \<Rightarrow> u16 \<Rightarrow> net \<Rightarrow> (int \<times> net) option" where
  "tcp_connect snd_ip dst_ip dst_port src_port s =
     (case find_slot s of
        None \<Rightarrow> Some (- 1, s)
      | Some i \<Rightarrow>
          (case local_source dst_ip s of
             None \<Rightarrow> Some (- 1, s)
           | Some src_ip \<Rightarrow> do {
               let s = upd_conn i (\<lambda>c. (open_conn TCP_STATE_SYN_SENT src_ip dst_ip src_port dst_port (next_isn s) 0 c)\<lparr>sent_unacked := 0\<rparr>) s;
               let s = s\<lparr>next_isn := next_isn s + 1000\<rparr>;
               (r, s) \<leftarrow> send_segment snd_ip i TCP_FLAG_SYN [] s;
               Some (int i, s)
             }))"

definition tcp_listen :: "u16 \<Rightarrow> net \<Rightarrow> int \<times> net" where
  "tcp_listen port s =
     (case find_slot s of
        None \<Rightarrow> (- 1, s)
      | Some i \<Rightarrow> (int i, upd_conn i (open_conn TCP_STATE_LISTEN 0 0 port 0 0 0) s))"

definition conn_id :: "int \<Rightarrow> bool" where
  "conn_id c \<longleftrightarrow> 0 \<le> c \<and> c < int TCP_MAX_CONNS"

definition tcp_accept :: "int \<Rightarrow> net \<Rightarrow> int \<times> net" where
  "tcp_accept l s =
     (if \<not> conn_id l \<or> \<not> c_active (conns s (nat l)) \<or> c_state (conns s (nat l)) \<noteq> TCP_STATE_LISTEN then (- 1, s)
      else
        (case find_idx TCP_MAX_CONNS (\<lambda>i. let c = conns s i in
                i \<noteq> nat l \<and> c_active c \<and> \<not> c_accepted c \<and> c_src_port c = c_src_port (conns s (nat l)) \<and>
                (c_state c = TCP_STATE_ESTABLISHED \<or> c_state c = TCP_STATE_CLOSE_WAIT)) of
           None \<Rightarrow> (- 1, s)
         | Some i \<Rightarrow> (int i, upd_conn i (\<lambda>c. c\<lparr>c_accepted := True\<rparr>) s)))"

definition tcp_send :: "sender \<Rightarrow> int \<Rightarrow> u8 list \<Rightarrow> net \<Rightarrow> (int \<times> net) option" where
  "tcp_send snd_ip c data s =
     (if \<not> conn_id c then Some (- 1, s)
      else
        (let st = c_state (conns s (nat c)) in
         if \<not> c_active (conns s (nat c)) \<or> (st \<noteq> TCP_STATE_ESTABLISHED \<and> st \<noteq> TCP_STATE_CLOSE_WAIT) then Some (- 1, s)
         else send_segment snd_ip (nat c) (TCP_FLAG_ACK OR TCP_FLAG_PSH) data s))"

text \<open>The return value and the bytes stored in the caller's buffer.\<close>

definition tcp_recv :: "int \<Rightarrow> u32 \<Rightarrow> net \<Rightarrow> int \<times> u8 list \<times> net" where
  "tcp_recv i max_len s =
     (if \<not> conn_id i then (- 1, [], s)
      else
        (let c = conns s (nat i) in
         if \<not> c_active c then (- 1, [], s)
         else if recv_len c = 0 then (0, [], s)
         else
           (let to_copy = min (recv_len c) max_len;
                buf = (case recv_buf c of None \<Rightarrow> [] | Some b \<Rightarrow> b);
                s = s\<lparr>wild := wild s \<or> recv_buf c = None\<rparr>;
                left = recv_len c - to_copy;
                s = upd_conn (nat i) (\<lambda>c. if left = 0 then c\<lparr>recv_len := 0, recv_buf := None, recv_cap := 0\<rparr>
                                  else c\<lparr>recv_len := left, recv_buf := map_option (drop (unat to_copy)) (recv_buf c)\<rparr>) s
            in (sint to_copy, take (unat to_copy) buf, s))))"

definition tcp_state :: "int \<Rightarrow> net \<Rightarrow> int" where
  "tcp_state i s =
     (if \<not> conn_id i then - 1
      else if c_active (conns s (nat i)) then int (c_state (conns s (nat i))) else int TCP_STATE_CLOSED)"

definition tcp_recv_ready :: "int \<Rightarrow> net \<Rightarrow> bool" where
  "tcp_recv_ready i s \<longleftrightarrow>
     (let c = conns s (nat i) in
      \<not> conn_id i \<or> \<not> c_active c \<or> recv_len c > 0 \<or> c_state c = TCP_STATE_CLOSED)"

definition tcp_close :: "sender \<Rightarrow> int \<Rightarrow> net \<Rightarrow> (int \<times> net) option" where
  "tcp_close snd_ip i s =
     (if \<not> conn_id i \<or> \<not> c_active (conns s (nat i)) then Some (- 1, s)
      else do {
        let j = nat i;
        let st = c_state (conns s j);
        (r, s) \<leftarrow> (if st = TCP_STATE_ESTABLISHED
                   then send_segment snd_ip j (TCP_FLAG_FIN OR TCP_FLAG_ACK) [] (upd_conn j (\<lambda>c. c\<lparr>c_state := TCP_STATE_FIN_WAIT1\<rparr>) s)
                   else if st = TCP_STATE_CLOSE_WAIT
                   then send_segment snd_ip j (TCP_FLAG_FIN OR TCP_FLAG_ACK) [] (upd_conn j (\<lambda>c. c\<lparr>c_state := TCP_STATE_LAST_ACK\<rparr>) s)
                   else Some (0, s));
        Some (0, upd_conn j give_up s)
      })"

section \<open>Receiving\<close>

text \<open>The reset that answers a segment for no connection.\<close>

definition rst_segment :: "u32 \<Rightarrow> u32 \<Rightarrow> u16 \<Rightarrow> u16 \<Rightarrow> u32 \<Rightarrow> u8 list" where
  "rst_segment local_ip src_ip dst_port src_port sq =
     (let hdr = tcp_header dst_port src_port 0 (sq + 1) (TCP_FLAG_RST OR TCP_FLAG_ACK) 0
      in hdr (tcp_checksum local_ip src_ip (hdr 0)))"

definition tcp_no_conn :: "sender \<Rightarrow> u32 \<Rightarrow> u32 \<Rightarrow> u16 \<Rightarrow> u16 \<Rightarrow> u32 \<Rightarrow> u8 \<Rightarrow> net \<Rightarrow> net option" where
  "tcp_no_conn snd_ip local_ip src_ip dst_port src_port sq flags s =
     (if flags AND TCP_FLAG_RST \<noteq> 0 then Some s
      else
        (case (if flags AND TCP_FLAG_SYN \<noteq> 0 \<and> flags AND TCP_FLAG_ACK = 0 \<and> find_listener dst_port s \<noteq> None
               then find_slot s else None) of
           Some i \<Rightarrow> do {
             let s = upd_conn i (\<lambda>c. (open_conn TCP_STATE_SYN_RCVD local_ip src_ip dst_port src_port (next_isn s) (sq + 1) c)\<lparr>sent_unacked := 0\<rparr>) s;
             let s = s\<lparr>next_isn := next_isn s + 1000\<rparr>;
             (r, s) \<leftarrow> send_segment snd_ip i (TCP_FLAG_SYN OR TCP_FLAG_ACK) [] s;
             Some s
           }
         | None \<Rightarrow> do {
             (r, s) \<leftarrow> snd_ip src_ip 6 (rst_segment local_ip src_ip dst_port src_port sq) (- 1) s;
             Some s
           }))"

text \<open>Room for the payload: a first buffer, then a larger one when needed.\<close>

definition first_buf :: "nat \<Rightarrow> nat \<Rightarrow> net \<Rightarrow> net" where
  "first_buf i n s =
     (if recv_buf (conns s i) = None then
        (let (ok, s) = kmalloc_ok s
         in upd_conn i (\<lambda>c. c\<lparr>recv_cap := (if n > 4096 then of_nat n else 4096), recv_buf := (if ok then Some [] else None), recv_len := 0\<rparr>) s)
      else s)"

definition grow_buf :: "nat \<Rightarrow> nat \<Rightarrow> net \<Rightarrow> net" where
  "grow_buf i n s =
     (let c = conns s i in
      if recv_len c + of_nat n > recv_cap c then
        (let (ok, s) = kmalloc_ok s;
             s = s\<lparr>wild := wild s \<or> (recv_len c > 0 \<and> (\<not> ok \<or> recv_buf c = None))\<rparr>
         in upd_conn i (\<lambda>c. c\<lparr>recv_cap := recv_len c + of_nat n,
              recv_buf := (if ok then Some (take (unat (recv_len c)) (case recv_buf c of None \<Rightarrow> [] | Some b \<Rightarrow> b)) else None)\<rparr>) s)
      else s)"

definition store_payload :: "nat \<Rightarrow> u8 list \<Rightarrow> net \<Rightarrow> net" where
  "store_payload i payload s =
     (let s = grow_buf i (length payload) (first_buf i (length payload) s);
          c = conns s i;
          s = s\<lparr>wild := wild s \<or> recv_buf c = None \<or> unat (recv_len c) + length payload > unat (recv_cap c)\<rparr>
      in upd_conn i (\<lambda>c. c\<lparr>recv_buf := map_option (\<lambda>b. take (unat (recv_len c)) b @ payload) (recv_buf c),
           recv_len := recv_len c + of_nat (length payload)\<rparr>) s)"

definition ack_received :: "u8 \<Rightarrow> u32 \<Rightarrow> tcp_conn \<Rightarrow> tcp_conn" where
  "ack_received flags ackno c =
     (if flags AND TCP_FLAG_ACK \<noteq> 0 then
        (let c = (if rt_seg c \<noteq> None \<and> sint (ackno - rt_ack_seq c) \<ge> 0 then c\<lparr>rt_seg := None\<rparr> else c)
         in if c_state c = TCP_STATE_SYN_RCVD then c\<lparr>c_state := TCP_STATE_ESTABLISHED\<rparr> else c)
      else c)"

definition send_ack :: "sender \<Rightarrow> nat \<Rightarrow> net \<Rightarrow> net option" where
  "send_ack snd_ip i s = map_option snd (send_segment snd_ip i TCP_FLAG_ACK [] s)"

definition tcp_on_conn :: "sender \<Rightarrow> nat \<Rightarrow> u8 \<Rightarrow> u32 \<Rightarrow> u32 \<Rightarrow> u8 list \<Rightarrow> net \<Rightarrow> net option" where
  "tcp_on_conn snd_ip i flags sq ackno payload s =
     (let s = upd_conn i (ack_received flags ackno) s; st = c_state (conns s i) in
      if payload \<noteq> [] \<and> flags AND TCP_FLAG_ACK \<noteq> 0 then
        send_ack snd_ip i (store_payload i payload (upd_conn i (\<lambda>c. c\<lparr>c_ack := sq + of_nat (length payload)\<rparr>) s))
      else if flags AND TCP_FLAG_SYN \<noteq> 0 \<and> flags AND TCP_FLAG_ACK \<noteq> 0 then
        (if st = TCP_STATE_SYN_SENT
         then send_ack snd_ip i (upd_conn i (\<lambda>c. c\<lparr>c_ack := sq + 1, c_state := TCP_STATE_ESTABLISHED\<rparr>) s) else Some s)
      else if flags AND TCP_FLAG_FIN \<noteq> 0 then
        (if st = TCP_STATE_ESTABLISHED
         then send_ack snd_ip i (upd_conn i (\<lambda>c. c\<lparr>c_ack := sq + 1, c_state := TCP_STATE_CLOSE_WAIT\<rparr>) s)
         else if st = TCP_STATE_FIN_WAIT1
         then send_ack snd_ip i (upd_conn i (\<lambda>c. c\<lparr>c_ack := sq + 1, c_state := TCP_STATE_TIME_WAIT\<rparr>) s)
         else Some s)
      else Some s)"

definition tcp_handle_packet :: "sender \<Rightarrow> u8 list \<Rightarrow> u32 \<Rightarrow> u32 \<Rightarrow> net \<Rightarrow> net option" where
  "tcp_handle_packet snd_ip packet src_ip dst_ip s =
     (if length packet < 20 then Some s
      else
        (let dst_port = be16 packet 2; src_port = be16 packet 0; sq = be32 packet 4; ackno = be32 packet 8;
             off_flags = be16 packet 12; flags = (ucast (off_flags AND 0x3F) :: u8);
             header_len = unat (drop_bit 12 off_flags AND 0xF) * 4 in
         if header_len > length packet then Some s
         else
           (case find_conn_by_tuple src_ip dst_port src_port s of
              None \<Rightarrow> tcp_no_conn snd_ip dst_ip src_ip dst_port src_port sq flags s
            | Some i \<Rightarrow> tcp_on_conn snd_ip i flags sq ackno (drop header_len packet) s)))"

section \<open>Facts\<close>

lemma upd_conn_fields [simp]:
  "conns (upd_conn i f s) = (conns s)(i := f (conns s i))" "kmem (upd_conn i f s) = kmem s"
  "net_interfaces (upd_conn i f s) = net_interfaces s" "lo_ring (upd_conn i f s) = lo_ring s"
  "lo_head (upd_conn i f s) = lo_head s" "lo_tail (upd_conn i f s) = lo_tail s" "next_isn (upd_conn i f s) = next_isn s"
  "g_tcp_drop_tx (upd_conn i f s) = g_tcp_drop_tx s" "ticks (upd_conn i f s) = ticks s"
  "echo_listen (upd_conn i f s) = echo_listen s" "nsocks (upd_conn i f s) = nsocks s" "wild (upd_conn i f s) = wild s"
  "udp_listeners (upd_conn i f s) = udp_listeners s" "rtl_initialized (upd_conn i f s) = rtl_initialized s"
  by (simp_all add: upd_conn_def)

lemma flag_facts [simp]:
  "TCP_FLAG_SYN AND 0x3F = TCP_FLAG_SYN" "(TCP_FLAG_SYN OR TCP_FLAG_ACK) AND 0x3F = TCP_FLAG_SYN OR TCP_FLAG_ACK" "TCP_FLAG_ACK AND 0x3F = TCP_FLAG_ACK"
  "seq_space TCP_FLAG_SYN [] = 1" "seq_space (TCP_FLAG_SYN OR TCP_FLAG_ACK) [] = 1"
  "consumes_seq TCP_FLAG_SYN []" "consumes_seq (TCP_FLAG_SYN OR TCP_FLAG_ACK) []"
  by (simp_all add: tcp_consts seq_space_def consumes_seq_def)

lemma tcp_segment_fields:
  assumes "flags AND 0x3F = flags"
  shows "be16 (tcp_segment c flags data) 0 = c_src_port c" "be16 (tcp_segment c flags data) 2 = c_dst_port c"
    "be32 (tcp_segment c flags data) 4 = c_seq c" "be32 (tcp_segment c flags data) 8 = c_ack c"
    "be16 (tcp_segment c flags data) 12 = 0x5000 OR (ucast flags AND 0x3F)" "length (tcp_segment c flags data) = 20 + length data"
    "drop 20 (tcp_segment c flags data) = data"
  by (simp_all add: tcp_segment_def tcp_header_def Let_def)

lemma offset_flags:
  fixes flags :: u8
  assumes "flags AND 0x3F = flags"
  shows "(ucast ((0x5000 OR (ucast flags AND 0x3F) :: u16) AND 0x3F) :: u8) = flags"
    and "drop_bit 12 (0x5000 OR (ucast flags AND 0x3F) :: u16) AND 0xF = 5"
proof -
  have "(0x5000 OR (ucast flags AND 0x3F) :: u16) AND 0x3F = ucast flags AND 0x3F"
    by (simp add: bit.conj_disj_distrib2 and.assoc)
  also have "(ucast flags AND 0x3F :: u16) = ucast (flags AND 0x3F)"
    by (intro bit_word_eqI) (auto simp: bit_simps dest: bit_imp_le_length)
  finally have e: "(0x5000 OR (ucast flags AND 0x3F) :: u16) AND 0x3F = ucast flags" by (simp add: assms)
  show "(ucast ((0x5000 OR (ucast flags AND 0x3F) :: u16) AND 0x3F) :: u8) = flags"
    unfolding e by (intro bit_word_eqI) (auto simp: bit_simps)
  have m: "(ucast flags AND 0x3F :: u16) = take_bit 6 (ucast flags)"
    by (simp add: take_bit_eq_mask mask_eq_exp_minus_1)
  have "drop_bit 12 (ucast flags AND 0x3F :: u16) = 0" unfolding m by (intro bit_word_eqI) (simp add: bit_simps)
  then show "drop_bit 12 (0x5000 OR (ucast flags AND 0x3F) :: u16) AND 0xF = 5" by (simp add: drop_bit_or)
qed

lemma tcp_handle_segment:
  assumes "flags AND 0x3F = flags"
  shows "tcp_handle_packet snd_ip (tcp_segment c flags data) src dst s =
    (case find_conn_by_tuple src (c_dst_port c) (c_src_port c) s of
       None \<Rightarrow> tcp_no_conn snd_ip dst src (c_dst_port c) (c_src_port c) (c_seq c) flags s
     | Some i \<Rightarrow> tcp_on_conn snd_ip i flags (c_seq c) (c_ack c) data s)"
  by (simp add: tcp_handle_packet_def tcp_segment_fields[OF assms] Let_def split: option.split)
    (simp add: tcp_segment_fields[OF assms] offset_flags[OF assms])

section \<open>Retransmission ends\<close>

text \<open>A timer that was set \<open>d\<close> ticks ago, wrap-around included.\<close>

lemma not_yet_due:
  assumes "rt_sent_tick c = t" and "unat (rt_rto c) \<le> 2400" and "d < unat (rt_rto c)"
  shows "\<not> retransmit_due (t + of_nat d) c"
proof -
  have e: "rt_rto c = of_nat d + of_nat (unat (rt_rto c) - d)" using assms(3) by (simp add: of_nat_diff)
  have "t + of_nat d - (t + (of_nat d + of_nat m)) = - (of_nat m :: u32)" for m by simp
  then have "t + of_nat d - (t + rt_rto c) = - (of_nat (unat (rt_rto c) - d) :: u32)" using e by metis
  moreover have "sint (- (of_nat m :: u32)) < 0" if "0 < m" "m \<le> 2400" for m
  proof -
    have "- (of_nat m :: u32) = word_of_int (- int m)" by simp
    then have "sint (- (of_nat m :: u32)) = signed_take_bit 31 (- int m)" by (simp only: signed_of_int) simp
    moreover have "signed_take_bit 31 (- int m) = - int m" by (rule signed_take_bit_int_eq_self) (use that in auto)
    ultimately show ?thesis using that by simp
  qed
  ultimately have "sint (t + of_nat d - (t + rt_rto c)) < 0" using assms(2,3) by (metis diff_le_self le_trans zero_less_diff)
  then show ?thesis unfolding retransmit_due_def assms(1) by simp
qed

lemma due_now: "c_active c \<Longrightarrow> rt_seg c \<noteq> None \<Longrightarrow> retransmit_due (rt_sent_tick c + rt_rto c) c"
  by (simp add: retransmit_due_def)

text \<open>The ticks of one waiting period, the last one included.\<close>

definition period :: "u32 \<Rightarrow> nat \<Rightarrow> u32 list" where
  "period t n = map (\<lambda>d. t + of_nat d) [1..<n + 1]"

lemma period_split: "0 < n \<Longrightarrow> period t n = map (\<lambda>d. t + of_nat d) [1..<n] @ [t + of_nat n]"
  by (simp add: period_def)

lemma period_run:
  assumes "c = conns s i" and "unat (rt_rto c) \<le> 2400" and "0 < unat (rt_rto c)" and "rt_sent_tick c = t"
  shows "ofold (\<lambda>now. tcp_tick_conn snd_ip now i) (period t (unat (rt_rto c))) s = tcp_tick_conn snd_ip (t + rt_rto c) i s"
proof -
  have "ofold (\<lambda>now. tcp_tick_conn snd_ip now i) (map (\<lambda>d. t + of_nat d) [1..<unat (rt_rto c)]) s = Some s"
    using not_yet_due[OF assms(4,2)] assms(1) by (intro ofold_stay) (auto simp: tcp_tick_conn_def)
  then show ?thesis using assms(3) by (simp add: period_split ofold_append split: option.split)
qed


definition armed :: "u32 \<Rightarrow> u8 list \<Rightarrow> u32 \<Rightarrow> int \<Rightarrow> u32 \<Rightarrow> tcp_conn \<Rightarrow> bool" where
  "armed dst seg rto r t c \<longleftrightarrow> c_active c \<and> c_dst_ip c = dst \<and> rt_seg c = Some seg \<and> rt_rto c = rto \<and> rt_retries c = r \<and> rt_sent_tick c = t"

text \<open>A link that takes every packet without touching this connection; \<open>f\<close> is its effect.\<close>

definition quiet_link :: "sender \<Rightarrow> (net \<Rightarrow> net) \<Rightarrow> u32 \<Rightarrow> u8 list \<Rightarrow> nat \<Rightarrow> bool" where
  "quiet_link snd_ip f dst seg i \<longleftrightarrow>
     (\<forall>s. (\<exists>r. snd_ip dst 6 seg (- 1) s = Some (r, f s)) \<and> conns (f s) = conns s) \<and> (\<forall>g s. f (upd_conn i g s) = upd_conn i g (f s))"

lemma resend_period:
  assumes "quiet_link snd_ip f dst seg i" and "armed dst seg rto r t (conns s i)" and "0 < rto" "unat rto \<le> 2400" and "r < 5"
    and s': "s' = upd_conn i (back_off (t + rto)) (f s)"
  shows "ofold (\<lambda>now. tcp_tick_conn snd_ip now i) (period t (unat rto)) s = Some s'"
    and "armed dst seg (if rto * 2 > TCP_RTO_MAX then TCP_RTO_MAX else rto * 2) (r + 1) (t + rto) (conns s' i)"
proof -
  let ?c = "conns s i"
  have c: "rt_rto ?c = rto" "rt_sent_tick ?c = t" "c_active ?c" "rt_seg ?c = Some seg" "c_dst_ip ?c = dst" "rt_retries ?c = r"
    using assms(2) by (simp_all add: armed_def)
  have p: "0 < unat rto" using assms(3) by (simp add: word_less_nat_alt)
  from assms(1) obtain x where x: "snd_ip dst 6 seg (- 1) (upd_conn i (back_off (t + rto)) s) = Some (x, f (upd_conn i (back_off (t + rto)) s))"
    unfolding quiet_link_def by blast
  have cm: "f (upd_conn i (back_off (t + rto)) s) = s'" and k: "conns (f s) = conns s"
    using assms(1) unfolding quiet_link_def s' by blast+
  have "tcp_tick_conn snd_ip (t + rto) i s = Some s'"
    using due_now[of ?c] assms(5) x cm by (simp add: tcp_tick_conn_def Let_def c TCP_MAX_RETRIES_def)
  then show "ofold (\<lambda>now. tcp_tick_conn snd_ip now i) (period t (unat rto)) s = Some s'"
    using period_run[OF refl, of s i t snd_ip] c p assms(4) by simp
  show "armed dst seg (if rto * 2 > TCP_RTO_MAX then TCP_RTO_MAX else rto * 2) (r + 1) (t + rto) (conns s' i)"
    using c k by (simp add: s' armed_def back_off_def Let_def)
qed

lemma give_up_period:
  assumes "armed dst seg rto r t (conns s i)" and "0 < rto" "unat rto \<le> 2400" and "5 \<le> r"
  shows "ofold (\<lambda>now. tcp_tick_conn snd_ip now i) (period t (unat rto)) s = Some (upd_conn i give_up s)"
proof -
  let ?c = "conns s i"
  have c: "rt_rto ?c = rto" "rt_sent_tick ?c = t" "c_active ?c" "rt_seg ?c = Some seg" "rt_retries ?c = r"
    using assms(1) by (simp_all add: armed_def)
  have p: "0 < unat rto" using assms(2) by (simp add: word_less_nat_alt)
  have "tcp_tick_conn snd_ip (t + rto) i s = Some (upd_conn i give_up s)"
    using due_now[of ?c] assms(4) by (simp add: tcp_tick_conn_def Let_def c TCP_MAX_RETRIES_def)
  then show ?thesis using period_run[OF refl, of s i t snd_ip] c p assms(3) by simp
qed

lemma period_append: "period t (a + b) = period t a @ period (t + of_nat a) b"
  by (induction b) (simp_all add: period_def ac_simps)

lemma waiting:
  assumes "armed dst seg rto r t (conns s i)" and "unat rto \<le> 2400" and "m < unat rto"
  shows "ofold (\<lambda>now. tcp_tick_conn snd_ip now i) (period t m) s = Some s"
  using not_yet_due[of "conns s i" t] assms unfolding period_def
  by (intro ofold_stay) (auto simp: tcp_tick_conn_def armed_def)

text \<open>How often the segment has been resent after so many ticks.\<close>

definition resends :: "nat \<Rightarrow> nat" where
  "resends n = length (filter (\<lambda>d. d \<le> n) [300, 900, 2100, 4500, 6900])"

text \<open>C27: An unanswered segment is resent with exponential backoff and not for ever. Polled at every tick, the connection resends it
  after 300, 900, 2100, 4500 and 6900 ticks (waiting 300, 600, 1200, 2400 and 2400) and at no other time; until tick 9300 it stays open, counts its
  retries and keeps the segment, and at tick 9300 it is closed and the segment released, across a wrap-around of the tick
  counter as well.\<close>

theorem tcp_gives_up:
  assumes "quiet_link snd_ip f dst seg i" and "armed dst seg TCP_RTO_INITIAL 0 t (conns s i)" and "n \<le> 9300"
  shows "\<exists>g s'. ofold (\<lambda>now. tcp_tick_conn snd_ip now i) (period t n) s = Some s' \<and> s' = upd_conn i g ((f ^^ resends n) s) \<and>
    (if n < 9300 then c_active (conns s' i) \<and> rt_seg (conns s' i) = Some seg \<and> rt_retries (conns s' i) = int (resends n)
     else \<not> c_active (conns s' i) \<and> c_state (conns s' i) = TCP_STATE_CLOSED \<and> rt_seg (conns s' i) = None)"
proof -
  note R = resend_period[OF assms(1)]
  let ?n = "\<lambda>now s. upd_conn i (back_off now) (f s)" let ?F = "ofold (\<lambda>now. tcp_tick_conn snd_ip now i)"
  have A0: "armed dst seg 300 0 t (conns s i)" using assms(2) by (simp add: TCP_RTO_INITIAL_def)
  let ?s1 = "?n (t + 300) s" let ?s2 = "?n (t + 900) ?s1" let ?s3 = "?n (t + 2100) ?s2" let ?s4 = "?n (t + 4500) ?s3" let ?s5 = "?n (t + 6900) ?s4"
  have P1: "?F (period t 300) s = Some ?s1" and A1: "armed dst seg 600 1 (t + 300) (conns ?s1 i)"
    using R[OF A0 _ _ _ refl] by (simp_all add: TCP_RTO_MAX_def add.commute[of t])
  have P2: "?F (period (t + 300) 600) ?s1 = Some ?s2" and A2: "armed dst seg 1200 2 (t + 900) (conns ?s2 i)"
    using R[OF A1 _ _ _ refl] by (simp_all add: TCP_RTO_MAX_def add.commute[of t])
  have P3: "?F (period (t + 900) 1200) ?s2 = Some ?s3" and A3: "armed dst seg 2400 3 (t + 2100) (conns ?s3 i)"
    using R[OF A2 _ _ _ refl] by (simp_all add: TCP_RTO_MAX_def add.commute[of t])
  have P4: "?F (period (t + 2100) 2400) ?s3 = Some ?s4" and A4: "armed dst seg 2400 4 (t + 4500) (conns ?s4 i)"
    using R[OF A3 _ _ _ refl] by (simp_all add: TCP_RTO_MAX_def add.commute[of t])
  have P5: "?F (period (t + 4500) 2400) ?s4 = Some ?s5" and A5: "armed dst seg 2400 5 (t + 6900) (conns ?s5 i)"
    using R[OF A4 _ _ _ refl] by (simp_all add: TCP_RTO_MAX_def add.commute[of t])
  have P6: "?F (period (t + 6900) 2400) ?s5 = Some (upd_conn i give_up ?s5)"
    using give_up_period[OF A5, where snd_ip = snd_ip] by simp
  have cut: "?F (period u (a + b)) x = ?F (period (u + of_nat a) b) y" if "?F (period u a) x = Some y" for u a b x y
    using that by (simp add: period_append ofold_append)
  have Q1: "?F (period t (300 + m)) s = ?F (period (t + 300) m) ?s1" for m using cut[OF P1] by simp
  have Q2: "?F (period t (900 + m)) s = ?F (period (t + 900) m) ?s2" for m using Q1[of "600 + m"] cut[OF P2] by (simp add: add.commute[of t])
  have Q3: "?F (period t (2100 + m)) s = ?F (period (t + 2100) m) ?s3" for m using Q2[of "1200 + m"] cut[OF P3] by (simp add: add.commute[of t])
  have Q4: "?F (period t (4500 + m)) s = ?F (period (t + 4500) m) ?s4" for m using Q3[of "2400 + m"] cut[OF P4] by (simp add: add.commute[of t])
  have Q5: "?F (period t (6900 + m)) s = ?F (period (t + 6900) m) ?s5" for m using Q4[of "2400 + m"] cut[OF P5] by (simp add: add.commute[of t])
  have comm: "f (upd_conn i g x) = upd_conn i g (f x)" for g x using assms(1) by (simp add: quiet_link_def)
  have twice: "upd_conn i g (upd_conn i h x) = upd_conn i (g \<circ> h) x" for g h x by (simp add: upd_conn_def)
  have f0: "\<exists>g. s = upd_conn i g ((f ^^ 0) s)" by (rule exI[of _ id]) (simp add: upd_conn_def)
  have f: "\<exists>g. ?s1 = upd_conn i g ((f ^^ 1) s)" "\<exists>g. ?s2 = upd_conn i g ((f ^^ 2) s)"
      "\<exists>g. ?s3 = upd_conn i g ((f ^^ 3) s)" "\<exists>g. ?s4 = upd_conn i g ((f ^^ 4) s)" "\<exists>g. ?s5 = upd_conn i g ((f ^^ 5) s)"
      "\<exists>g. upd_conn i give_up ?s5 = upd_conn i g ((f ^^ 5) s)"
    unfolding comm twice by (simp_all add: numeral_eq_Suc) blast+
  have open_conn: ?thesis if "?F (period t n) s = Some x" "resends n = r" "\<exists>g. x = upd_conn i g ((f ^^ r) s)" "armed dst seg rto q u (conns x i)"
      "q = int r" "n < 9300" for x rto q u r
    using that by (auto simp: armed_def)
  consider "n < 300" | "300 \<le> n" "n < 900" | "900 \<le> n" "n < 2100" | "2100 \<le> n" "n < 4500"
    | "4500 \<le> n" "n < 6900" | "6900 \<le> n" "n < 9300" | "n = 9300"
    using assms(3) by linarith
  then show ?thesis
  proof cases
    case 1
    have x: "?F (period t n) s = Some s" by (rule waiting[OF A0]) (use 1 in simp_all)
    have r: "resends n = 0" using 1 by (simp add: resends_def)
    show ?thesis by (rule open_conn[OF x r f0 A0]) (use 1 in simp_all)
  next
    case 2
    have "?F (period (t + 300) (n - 300)) ?s1 = Some ?s1" by (rule waiting[OF A1]) (use 2 in simp_all)
    then have x: "?F (period t n) s = Some ?s1" using Q1[of "n - 300"] 2 by simp
    have r: "resends n = 1" using 2 by (simp add: resends_def)
    show ?thesis by (rule open_conn[OF x r f(1) A1]) (use 2 in simp_all)
  next
    case 3
    have "?F (period (t + 900) (n - 900)) ?s2 = Some ?s2" by (rule waiting[OF A2]) (use 3 in simp_all)
    then have x: "?F (period t n) s = Some ?s2" using Q2[of "n - 900"] 3 by simp
    have r: "resends n = 2" using 3 by (simp add: resends_def)
    show ?thesis by (rule open_conn[OF x r f(2) A2]) (use 3 in simp_all)
  next
    case 4
    have "?F (period (t + 2100) (n - 2100)) ?s3 = Some ?s3" by (rule waiting[OF A3]) (use 4 in simp_all)
    then have x: "?F (period t n) s = Some ?s3" using Q3[of "n - 2100"] 4 by simp
    have r: "resends n = 3" using 4 by (simp add: resends_def)
    show ?thesis by (rule open_conn[OF x r f(3) A3]) (use 4 in simp_all)
  next
    case 5
    have "?F (period (t + 4500) (n - 4500)) ?s4 = Some ?s4" by (rule waiting[OF A4]) (use 5 in simp_all)
    then have x: "?F (period t n) s = Some ?s4" using Q4[of "n - 4500"] 5 by simp
    have r: "resends n = 4" using 5 by (simp add: resends_def)
    show ?thesis by (rule open_conn[OF x r f(4) A4]) (use 5 in simp_all)
  next
    case 6
    have "?F (period (t + 6900) (n - 6900)) ?s5 = Some ?s5" by (rule waiting[OF A5]) (use 6 in simp_all)
    then have x: "?F (period t n) s = Some ?s5" using Q5[of "n - 6900"] 6 by simp
    have r: "resends n = 5" using 6 by (simp add: resends_def)
    show ?thesis by (rule open_conn[OF x r f(5) A5]) (use 6 in simp_all)
  next
    case 7
    have "?F (period t n) s = Some (upd_conn i give_up ?s5)" using 7 Q5[of 2400] P6 by simp
    moreover have "resends n = 5" using 7 by (simp add: resends_def)
    moreover obtain g where "upd_conn i give_up ?s5 = upd_conn i g ((f ^^ 5) s)" using f(6) by blast
    moreover have "c_state (conns (upd_conn i give_up x) i) = TCP_STATE_CLOSED \<and> \<not> c_active (conns (upd_conn i give_up x) i) \<and> rt_seg (conns (upd_conn i give_up x) i) = None" for x
      by (simp add: give_up_def)
    ultimately show ?thesis using 7 by (metis less_irrefl)
  qed
qed

section \<open>The receive stream\<close>

text \<open>A link that always takes the packet and leaves the connections alone.\<close>

definition open_link :: "sender \<Rightarrow> u32 \<Rightarrow> bool" where
  "open_link snd_ip dst \<longleftrightarrow>
     (\<forall>data s. kmem s = [] \<longrightarrow> (\<exists>r s'. snd_ip dst 6 data (- 1) s = Some (r, s') \<and> conns s' = conns s \<and> kmem s' = [] \<and> wild s' = wild s))"

definition stream :: "tcp_conn \<Rightarrow> u8 list" where
  "stream c = (case recv_buf c of None \<Rightarrow> [] | Some b \<Rightarrow> b)"

definition conn_ok :: "tcp_conn \<Rightarrow> bool" where
  "conn_ok c \<longleftrightarrow> length (stream c) = unat (recv_len c) \<and> (recv_buf c \<noteq> None \<longrightarrow> recv_len c \<le> recv_cap c)"

lemma ack_consumes_nothing [simp]: "\<not> consumes_seq TCP_FLAG_ACK []" "advance_seq TCP_FLAG_ACK [] c = c"
  by (simp_all add: consumes_seq_def advance_seq_def seq_space_def tcp_consts Let_def)

lemma send_ack_open:
  assumes "open_link snd_ip (c_dst_ip (conns s i))" and "kmem s = []"
  shows "\<exists>s'. send_ack snd_ip i s = Some s' \<and> conns s' = conns s \<and> kmem s' = [] \<and> wild s' = wild s"
proof -
  let ?seg = "tcp_segment (conns s i) TCP_FLAG_ACK []"
  from assms obtain r s' where s': "snd_ip (c_dst_ip (conns s i)) 6 ?seg (- 1) s = Some (r, s')"
    "conns s' = conns s" "kmem s' = []" "wild s' = wild s"
    unfolding open_link_def by blast
  then have "send_ack snd_ip i s = Some (upd_conn i (advance_seq TCP_FLAG_ACK []) s')"
    using assms(2) by (simp add: send_ack_def send_segment_def Let_def)
  then show ?thesis using s' by auto
qed

lemma upd_conn_same: "f (conns s i) = conns s i \<Longrightarrow> upd_conn i f s = s"
  by (simp add: upd_conn_def)

lemma upd_conn_twice: "upd_conn i f (upd_conn i g s) = upd_conn i (\<lambda>c. f (g c)) s"
  by (simp add: upd_conn_def)

lemma upd_conn_cong: "f (conns s i) = g (conns s i) \<Longrightarrow> upd_conn i f s = upd_conn i g s"
  by (simp add: upd_conn_def)

lemma first_buf_eq:
  assumes "conn_ok (conns s i)" and "kmem s = []"
  shows "\<exists>cap. first_buf i n s = upd_conn i (\<lambda>c. c\<lparr>recv_buf := Some (stream c), recv_cap := cap\<rparr>) s \<and> recv_len (conns s i) \<le> cap"
proof (cases "recv_buf (conns s i)")
  case None
  let ?cap = "if n > 4096 then of_nat n else 4096 :: u32"
  from None assms have "recv_len (conns s i) = 0" by (simp add: conn_ok_def stream_def unat_eq_0)
  then have "first_buf i n s = upd_conn i (\<lambda>c. c\<lparr>recv_buf := Some (stream c), recv_cap := ?cap\<rparr>) s"
    using None assms(2) by (auto simp: first_buf_def stream_def intro!: upd_conn_cong)
  then show ?thesis using \<open>recv_len (conns s i) = 0\<close> by (intro exI[of _ ?cap]) simp
next
  case (Some b)
  then have "first_buf i n s = upd_conn i (\<lambda>c. c\<lparr>recv_buf := Some (stream c), recv_cap := recv_cap (conns s i)\<rparr>) s"
    by (simp add: first_buf_def stream_def upd_conn_same)
  then show ?thesis using assms(1) Some by (auto simp: conn_ok_def)
qed

lemma grow_buf_eq:
  assumes "recv_buf (conns s i) = Some b" and "length b = unat (recv_len (conns s i))" and "kmem s = []"
    and "unat (recv_len (conns s i)) + n < 2 ^ 32"
  shows "\<exists>cap. grow_buf i n s = upd_conn i (\<lambda>c. c\<lparr>recv_cap := cap\<rparr>) s \<and> unat (recv_len (conns s i)) + n \<le> unat cap"
proof -
  let ?c = "conns s i"
  have "n < 2 ^ 32" using assms(4) by simp
  then have u: "unat (recv_len ?c + of_nat n) = unat (recv_len ?c) + n"
    using assms(4) by (simp add: unat_word_ariths unsigned_of_nat take_bit_eq_mod)
  show ?thesis
  proof (cases "recv_len ?c + of_nat n > recv_cap ?c")
    case True
    then have "grow_buf i n s = upd_conn i (\<lambda>c. c\<lparr>recv_cap := recv_len ?c + of_nat n\<rparr>) s"
      using assms(1-3) by (auto simp: grow_buf_def Let_def intro!: upd_conn_cong)
    then show ?thesis using u by auto
  next
    case False
    then have "grow_buf i n s = upd_conn i (\<lambda>c. c\<lparr>recv_cap := recv_cap ?c\<rparr>) s" by (simp add: grow_buf_def upd_conn_same)
    then show ?thesis using False u by (auto simp: word_less_nat_alt not_less)
  qed
qed

lemma store_payload_eq:
  assumes "conn_ok (conns s i)" and "kmem s = []" and "unat (recv_len (conns s i)) + length p < 2 ^ 32"
  shows "\<exists>cap. store_payload i p s = upd_conn i (\<lambda>c. c\<lparr>recv_cap := cap, recv_buf := Some (stream c @ p),
      recv_len := recv_len c + of_nat (length p)\<rparr>) s \<and> unat (recv_len (conns s i)) + length p \<le> unat cap"
proof -
  from first_buf_eq[OF assms(1,2), of "length p"] obtain cap1 where
    1: "first_buf i (length p) s = upd_conn i (\<lambda>c. c\<lparr>recv_buf := Some (stream c), recv_cap := cap1\<rparr>) s" by blast
  let ?s = "upd_conn i (\<lambda>c. c\<lparr>recv_buf := Some (stream c), recv_cap := cap1\<rparr>) s"
  have l: "length (stream (conns s i)) = unat (recv_len (conns s i))" using assms(1) by (simp add: conn_ok_def)
  have "recv_buf (conns ?s i) = Some (stream (conns s i))" "recv_len (conns ?s i) = recv_len (conns s i)" "kmem ?s = []"
    using assms(2) by simp_all
  from grow_buf_eq[OF this(1), of "length p"] this l assms(3) obtain cap where
    2: "grow_buf i (length p) ?s = upd_conn i (\<lambda>c. c\<lparr>recv_cap := cap\<rparr>) ?s" "unat (recv_len (conns s i)) + length p \<le> unat cap"
    by auto
  have "store_payload i p s = upd_conn i (\<lambda>c. c\<lparr>recv_cap := cap, recv_buf := Some (stream c @ p), recv_len := recv_len c + of_nat (length p)\<rparr>) s"
    unfolding store_payload_def 1 2(1) using 2(2) l by (simp add: Let_def upd_conn_def)
  then show ?thesis using 2(2) by blast
qed


lemma ack_received_fields [simp]:
  "c_active (ack_received fl a c) = c_active c" "c_dst_ip (ack_received fl a c) = c_dst_ip c"
  "c_src_port (ack_received fl a c) = c_src_port c" "c_dst_port (ack_received fl a c) = c_dst_port c"
  "stream (ack_received fl a c) = stream c" "recv_len (ack_received fl a c) = recv_len c" "conn_ok (ack_received fl a c) = conn_ok c"
  "recv_buf (ack_received fl a c) = recv_buf c"
  "c_state (ack_received fl a c) = TCP_STATE_LISTEN \<longleftrightarrow> c_state c = TCP_STATE_LISTEN"
  by (simp_all add: ack_received_def Let_def stream_def conn_ok_def tcp_consts)

text \<open>What identifies a connection for the lookup of incoming segments.\<close>

definition same_key :: "tcp_conn \<Rightarrow> tcp_conn \<Rightarrow> bool" where
  "same_key c d \<longleftrightarrow> c_active c = c_active d \<and> (c_state c = TCP_STATE_LISTEN \<longleftrightarrow> c_state d = TCP_STATE_LISTEN) \<and>
     c_dst_ip c = c_dst_ip d \<and> c_src_port c = c_src_port d \<and> c_dst_port c = c_dst_port d"

lemma find_conn_same_key:
  assumes "conns s' = (conns s)(i := c')" and "same_key c' (conns s i)"
  shows "find_conn_by_tuple a p q s' = find_conn_by_tuple a p q s"
proof -
  have "same_key (conns s' j) (conns s j)" for j using assms by (auto simp: same_key_def)
  then have "(\<lambda>i. let c = conns s' i in c_active c \<and> c_state c \<noteq> TCP_STATE_LISTEN \<and> c_dst_ip c = a \<and> c_src_port c = p \<and> c_dst_port c = q) =
    (\<lambda>i. let c = conns s i in c_active c \<and> c_state c \<noteq> TCP_STATE_LISTEN \<and> c_dst_ip c = a \<and> c_src_port c = p \<and> c_dst_port c = q)"
    by (auto simp: same_key_def Let_def fun_eq_iff)
  then show ?thesis by (simp add: find_conn_by_tuple_def)
qed

lemma data_on_conn:
  assumes "conn_ok (conns s i)" and "kmem s = []" and "unat (recv_len (conns s i)) + length p < 2 ^ 32" and "p \<noteq> []"
    and "flags AND TCP_FLAG_ACK \<noteq> 0" and "open_link snd_ip (c_dst_ip (conns s i))"
  shows "\<exists>s' c'. tcp_on_conn snd_ip i flags sq ackno p s = Some s' \<and> conns s' = (conns s)(i := c') \<and> kmem s' = [] \<and> wild s' = wild s \<and>
    same_key c' (conns s i) \<and> conn_ok c' \<and> stream c' = stream (conns s i) @ p \<and> c_ack c' = sq + of_nat (length p)"
proof -
  let ?s = "upd_conn i (\<lambda>c. c\<lparr>c_ack := sq + of_nat (length p)\<rparr>) (upd_conn i (ack_received flags ackno) s)"
  let ?c = "ack_received flags ackno (conns s i)"
  have k: "conn_ok (conns ?s i)" "kmem ?s = []" "unat (recv_len (conns ?s i)) + length p < 2 ^ 32"
    using assms(1-3) ack_received_fields(7)[of flags ackno "conns s i"] by (simp_all add: conn_ok_def stream_def)
  from store_payload_eq[OF k] obtain cap where cap:
    "store_payload i p ?s = upd_conn i (\<lambda>c. c\<lparr>recv_cap := cap, recv_buf := Some (stream c @ p), recv_len := recv_len c + of_nat (length p)\<rparr>) ?s"
    "unat (recv_len (conns ?s i)) + length p \<le> unat cap" by blast
  let ?t = "store_payload i p ?s"
  have t: "conns ?t = (conns s)(i := conns ?t i)" "kmem ?t = []" "wild ?t = wild s" "c_dst_ip (conns ?t i) = c_dst_ip (conns s i)"
    unfolding cap(1) using assms(2) by simp_all
  have d: "same_key (conns ?t i) (conns s i)" "stream (conns ?t i) = stream (conns s i) @ p" "c_ack (conns ?t i) = sq + of_nat (length p)"
    unfolding cap(1) by (simp_all add: same_key_def) (simp_all add: stream_def)
  have "unat (recv_len (conns s i) + of_nat (length p)) = unat (recv_len (conns s i)) + length p"
    using assms(3) by (simp add: unat_word_ariths unsigned_of_nat take_bit_eq_mod)
  then have o: "conn_ok (conns ?t i)"
    unfolding cap(1) using cap(2) assms(1) by (simp add: conn_ok_def stream_def word_le_nat_alt)
  from send_ack_open[of snd_ip ?t i] t(2,4) assms(6) obtain s' where
    s': "send_ack snd_ip i ?t = Some s'" "conns s' = conns ?t" "kmem s' = []" "wild s' = wild ?t" by auto
  have "tcp_on_conn snd_ip i flags sq ackno p s = Some s'"
    using s'(1) assms(4,5) by (simp add: tcp_on_conn_def Let_def)
  then show ?thesis using s' t d o by metis
qed

text \<open>Data is taken without looking at its sequence number. A segment with payload for an open
  connection is appended to the receive stream and acknowledged, and the same segment arriving
  again (a retransmission whose acknowledgement was lost) is appended again: the reader gets the bytes twice.\<close>

theorem tcp_duplicate_delivered:
  assumes "length packet \<ge> 20" and "header_len = unat (drop_bit 12 (be16 packet 12) AND 0xF) * 4" and "header_len < length packet"
    and "find_conn_by_tuple src_ip (be16 packet 2) (be16 packet 0) s = Some i"
    and "(ucast (be16 packet 12 AND 0x3F) :: u8) AND TCP_FLAG_ACK \<noteq> 0"
    and "conn_ok (conns s i)" and "kmem s = []" and "unat (recv_len (conns s i)) + 2 * length packet < 2 ^ 31"
    and "open_link snd_ip (c_dst_ip (conns s i))" and "payload = drop header_len packet"
  shows "\<exists>s1 s2 s3. tcp_handle_packet snd_ip packet src_ip dst_ip s = Some s1 \<and> tcp_handle_packet snd_ip packet src_ip dst_ip s1 = Some s2 \<and>
    wild s2 = wild s \<and> c_ack (conns s2 i) = be32 packet 4 + of_nat (length payload) \<and>
    tcp_recv (int i) (-1) s2 = (int (length (stream (conns s i)) + 2 * length payload), stream (conns s i) @ payload @ payload, s3)"
proof -
  let ?fl = "ucast (be16 packet 12 AND 0x3F) :: u8" and ?sq = "be32 packet 4" and ?ak = "be32 packet 8"
  have p: "payload \<noteq> []" "length payload \<le> length packet" using assms(3,10) by simp_all
  have i: "i < TCP_MAX_CONNS" "c_active (conns s i)"
    using find_idx_SomeD[OF assms(4)[unfolded find_conn_by_tuple_def]] by (auto simp: Let_def)
  have h: "tcp_handle_packet snd_ip packet src_ip dst_ip t = tcp_on_conn snd_ip i ?fl ?sq ?ak payload t"
    if "find_conn_by_tuple src_ip (be16 packet 2) (be16 packet 0) t = Some i" for t
    using that assms(1-3,10) by (simp add: tcp_handle_packet_def Let_def)
  have L: "length (stream (conns s i)) = unat (recv_len (conns s i))" using assms(6) by (simp add: conn_ok_def)
  have b1: "unat (recv_len (conns s i)) + length payload < 2 ^ 32" using assms(8) p(2) by simp
  from data_on_conn[OF assms(6,7) b1 p(1) assms(5,9), of ?sq ?ak] obtain s1 c1 where
    1: "tcp_on_conn snd_ip i ?fl ?sq ?ak payload s = Some s1" "conns s1 = (conns s)(i := c1)" "kmem s1 = []" "wild s1 = wild s"
    "same_key c1 (conns s i)" "conn_ok c1" "stream c1 = stream (conns s i) @ payload" by blast
  have f1: "find_conn_by_tuple src_ip (be16 packet 2) (be16 packet 0) s1 = Some i"
    using find_conn_same_key[OF 1(2,5)] assms(4) by simp
  have c1: "conns s1 i = c1" "c_dst_ip c1 = c_dst_ip (conns s i)" using 1(2,5) by (simp_all add: same_key_def)
  have b2: "unat (recv_len (conns s1 i)) + length payload < 2 ^ 32"
    using 1(6,7) L assms(8) p(2) by (simp add: conn_ok_def c1)
  have "conn_ok (conns s1 i)" "open_link snd_ip (c_dst_ip (conns s1 i))" using 1(6) assms(9) c1 by simp_all
  from data_on_conn[OF this(1) 1(3) b2 p(1) assms(5) this(2), of ?sq ?ak] obtain s2 c2 where
    2: "tcp_on_conn snd_ip i ?fl ?sq ?ak payload s1 = Some s2" "conns s2 = (conns s1)(i := c2)" "wild s2 = wild s1"
    "same_key c2 c1" "conn_ok c2" "stream c2 = stream c1 @ payload" "c_ack c2 = ?sq + of_nat (length payload)" by (auto simp: c1)
  have c2: "conns s2 i = c2" using 2(2) by simp
  have st: "stream c2 = stream (conns s i) @ payload @ payload" using 2(6) 1(7) by simp
  have len: "unat (recv_len c2) = length (stream (conns s i)) + 2 * length payload" using 2(5) st by (simp add: conn_ok_def)
  have b: "stream c2 = (case recv_buf c2 of None \<Rightarrow> [] | Some b \<Rightarrow> b)" by (simp add: stream_def)
  have act: "c_active c2" using i(2) 1(5) 2(4) by (simp add: same_key_def)
  have nz: "recv_len c2 \<noteq> 0" using len p(1) by (auto simp: unat_eq_0)
  have "unat (recv_len c2) < 2 ^ 31" using len L assms(8) p(2) by linarith
  then have sg: "sint (recv_len c2) = int (unat (recv_len c2))" by (rule sint_small)
  have "\<exists>s3. tcp_recv (int i) (-1) s2 = (sint (recv_len c2), take (unat (recv_len c2)) (stream c2), s3)"
    using i(1) act nz by (simp add: tcp_recv_def conn_id_def c2 Let_def min_def b)
  then show ?thesis using h[OF assms(4)] h[OF f1] 1(1,4) 2(1,3,7) c2 sg len st by auto
qed

section \<open>Concrete runs\<close>

text \<open>A link that only logs, as the card's transmit path does when the address is known.\<close>

definition log_link :: sender where
  "log_link dst pr data i s = Some (0, s\<lparr>nic_tx := nic_tx s @ [data]\<rparr>)"

theorem tcp_gives_up_witness:
  "\<exists>g s'. ofold (\<lambda>now. tcp_tick_conn log_link now 0) (period 4294967000 1000)
       (net_zero\<lparr>conns := \<lambda>_. no_conn\<lparr>c_active := True, c_state := 1, rt_seg := Some [1], rt_rto := TCP_RTO_INITIAL, rt_sent_tick := 4294967000\<rparr>\<rparr>) = Some s' \<and>
     c_active (conns s' 0) \<and> rt_retries (conns s' 0) = 2"
proof -
  let ?s = "net_zero\<lparr>conns := \<lambda>_. no_conn\<lparr>c_active := True, c_state := 1, rt_seg := Some [1], rt_rto := TCP_RTO_INITIAL, rt_sent_tick := 4294967000\<rparr>\<rparr>"
  have q: "quiet_link log_link (\<lambda>s. s\<lparr>nic_tx := nic_tx s @ [[1]]\<rparr>) 0 [1] 0" by (simp add: quiet_link_def log_link_def upd_conn_def)
  have a: "armed 0 [1] TCP_RTO_INITIAL 0 4294967000 (conns ?s 0)" by (simp add: armed_def no_conn_def)
  have n: "(1000 :: nat) \<le> 9300" "(1000 :: nat) < 9300" "int (resends 1000) = 2" by (simp_all add: resends_def)
  show ?thesis using tcp_gives_up[OF q a n(1)] n(2,3) by (metis (no_types, lifting))
qed

definition established :: tcp_conn where
  "established = no_conn\<lparr>c_active := True, c_state := 3, c_dst_ip := 0x0202000A, c_src_port := 40000, c_dst_port := 80\<rparr>"

definition data_packet :: "u8 list" where
  "data_packet = tcp_segment (no_conn\<lparr>c_src_port := 80, c_dst_port := 40000\<rparr>) TCP_FLAG_ACK [104, 105]"

theorem tcp_duplicate_delivered_witness:
  "\<exists>s1 s2 s3. tcp_handle_packet log_link data_packet 0x0202000A 0x0F02000A (net_zero\<lparr>conns := (conns net_zero)(0 := established)\<rparr>) = Some s1 \<and>
     tcp_handle_packet log_link data_packet 0x0202000A 0x0F02000A s1 = Some s2 \<and> tcp_recv 0 (-1) s2 = (4, [104, 105, 104, 105], s3)"
proof -
  let ?s = "net_zero\<lparr>conns := (conns net_zero)(0 := established)\<rparr>"
  have f: "TCP_FLAG_ACK AND 0x3F = TCP_FLAG_ACK" by simp
  note F = tcp_segment_fields[OF f, of "no_conn\<lparr>c_src_port := 80, c_dst_port := 40000\<rparr>" "[104, 105]"] offset_flags[OF f]
  have p: "length data_packet \<ge> 20" "20 = unat (drop_bit 12 (be16 data_packet 12) AND 0xF) * 4" "20 < length data_packet"
    "(ucast (be16 data_packet 12 AND 0x3F) :: u8) AND TCP_FLAG_ACK \<noteq> 0" "be16 data_packet 2 = 40000" "be16 data_packet 0 = 80"
    "[104, 105] = drop 20 data_packet" "length data_packet = 22"
    unfolding data_packet_def F by (simp_all add: tcp_consts)
  have c: "find_conn_by_tuple 0x0202000A 40000 80 ?s = Some 0"
    by (simp add: find_conn_by_tuple_def find_idx_Some established_def TCP_MAX_CONNS_def tcp_consts)
  have e: "conn_ok (conns ?s 0)" "kmem ?s = []" "stream (conns ?s 0) = []" "recv_len (conns ?s 0) = 0" "open_link log_link (c_dst_ip (conns ?s 0))"
    by (simp_all add: conn_ok_def stream_def established_def no_conn_def net_zero_def open_link_def log_link_def)
  have c': "find_conn_by_tuple 0x0202000A (be16 data_packet 2) (be16 data_packet 0) ?s = Some 0" using c p(5,6) by simp
  have b: "unat (recv_len (conns ?s 0)) + 2 * length data_packet < 2 ^ 31" using e(4) p(8) by simp
  from tcp_duplicate_delivered[OF p(1,2,3) c' p(4) e(1,2) b e(5) p(7), of "0x0F02000A"]
  show ?thesis unfolding e(3) by auto
qed

end
