(* ===== verification/Inet.thy ===== *)
theory Inet
  imports Tcp
begin

text \<open>
  Ethernet, ARP, IP with its loopback ring, UDP, ICMP and the socket layer: \<open>ethernet.c\<close>, \<open>arp.c\<close>, \<open>ip.c\<close>, \<open>udp.c\<close>,
  \<open>icmp.c\<close>, \<open>net.c\<close>. Sending to a host whose address is not cached polls the network, and a packet received
  then may send again: \<open>ip_send\<close> counts that nesting, and the loopback loop its iterations, in fuel, \<open>None\<close>
  meaning that it has not returned. \<open>kernel_poll_net\<close> runs with preemption off, so its steps are not
  interleaved with another process.
\<close>

section \<open>Ethernet and ARP\<close>

definition ARP_CACHE_SIZE :: nat where "ARP_CACHE_SIZE = 16"
definition LO_QUEUE_LEN :: nat where "LO_QUEUE_LEN = 16"
definition LO_MAX_PKT :: nat where "LO_MAX_PKT = 2048"
definition UDP_DGRAM_MAX :: nat where "UDP_DGRAM_MAX = 1472"
definition UDP_QUEUE :: nat where "UDP_QUEUE = 4"
definition MAX_SOCKETS :: nat where "MAX_SOCKETS = 32"
definition SOCK_STREAM :: int where "SOCK_STREAM = 1"
definition SOCK_DGRAM :: int where "SOCK_DGRAM = 2"
definition ECHO_PORT :: u16 where "ECHO_PORT = 7"
definition ECHO_MAX :: nat where "ECHO_MAX = 16"
definition MAX_LISTENERS :: nat where "MAX_LISTENERS = 16"

definition eth_send :: "u8 list \<Rightarrow> u16 \<Rightarrow> u8 list \<Rightarrow> nat \<Rightarrow> net \<Rightarrow> int \<times> net" where
  "eth_send dst_mac type data iface s =
     (let (ok, s) = kmalloc_ok s in
      if \<not> ok then (- 1, s)
      else rtl8139_send_packet (dst_mac @ if_mac (net_interfaces s iface) @ be16_bytes type @ data) s)"

definition arp_init :: "net \<Rightarrow> net" where
  "arp_init s = s\<lparr>arp_cache := (\<lambda>i. if i < ARP_CACHE_SIZE then \<lparr>arp_ip = 0, arp_mac = replicate 6 0, arp_valid = False\<rparr> else arp_cache s i)\<rparr>"

definition arp_cache_lookup :: "u32 \<Rightarrow> net \<Rightarrow> u8 list option" where
  "arp_cache_lookup ip s =
     map_option (\<lambda>i. arp_mac (arp_cache s i)) (find_idx ARP_CACHE_SIZE (\<lambda>i. arp_valid (arp_cache s i) \<and> arp_ip (arp_cache s i) = ip))"

definition arp_cache_add :: "u32 \<Rightarrow> u8 list \<Rightarrow> net \<Rightarrow> net" where
  "arp_cache_add ip mac s =
     (case find_idx ARP_CACHE_SIZE (\<lambda>i. \<not> arp_valid (arp_cache s i) \<or> arp_ip (arp_cache s i) = ip) of
        Some i \<Rightarrow> s\<lparr>arp_cache := (arp_cache s)(i := \<lparr>arp_ip = ip, arp_mac = mac, arp_valid = True\<rparr>)\<rparr>
      | None \<Rightarrow> s\<lparr>arp_cache := (arp_cache s)(0 := (arp_cache s 0)\<lparr>arp_mac := mac, arp_ip := ip\<rparr>)\<rparr>)"

definition arp_send_request :: "u32 \<Rightarrow> nat \<Rightarrow> net \<Rightarrow> net" where
  "arp_send_request ip iface s =
     snd (eth_send (replicate 6 0xFF) 0x0806
       (be16_bytes 1 @ be16_bytes 0x0800 @ [6, 4] @ be16_bytes 1 @ if_mac (net_interfaces s iface) @
        ip_bytes (if_ip (net_interfaces s iface)) @ replicate 6 0 @ ip_bytes ip) iface s)"

definition arp_handle_packet :: "u8 list \<Rightarrow> net \<Rightarrow> net" where
  "arp_handle_packet p s =
     (if length p < 28 then s
      else
        (let sender_mac = take 6 (drop 8 p); s = arp_cache_add (ip_at p 14) sender_mac s in
         if be16 p 6 \<noteq> 1 then s
         else
           (case find_idx NUM_IFACES (\<lambda>i. if_name (net_interfaces s i) \<noteq> [] \<and> if_ip (net_interfaces s i) = ip_at p 24) of
              None \<Rightarrow> s
            | Some i \<Rightarrow>
                snd (eth_send sender_mac 0x0806
                  (take 4 p @ [6, 4] @ be16_bytes 2 @ if_mac (net_interfaces s i) @ take 4 (drop 24 p) @ sender_mac @
                   take 4 (drop 14 p)) i s))))"

text \<open>The busy wait of \<open>arp_resolve\<close>, one element per retry.\<close>

fun arp_wait :: "(net \<Rightarrow> net option) \<Rightarrow> u32 \<Rightarrow> nat \<Rightarrow> nat list \<Rightarrow> net \<Rightarrow> (u8 list option \<times> net) option" where
  "arp_wait poll ip iface [] s = Some (None, s)"
| "arp_wait poll ip iface (r # rs) s = do {
     s \<leftarrow> poll s;
     case arp_cache_lookup ip s of
       Some mac \<Rightarrow> Some (Some mac, s)
     | None \<Rightarrow> arp_wait poll ip iface rs (if r = 10 \<or> r = 50 then arp_send_request ip iface s else s)
   }"

definition arp_resolve :: "(net \<Rightarrow> net option) \<Rightarrow> u32 \<Rightarrow> nat \<Rightarrow> net \<Rightarrow> (u8 list option \<times> net) option" where
  "arp_resolve poll ip iface s =
     (case arp_cache_lookup ip s of
        Some mac \<Rightarrow> Some (Some mac, s)
      | None \<Rightarrow> arp_wait poll ip iface [0..<120] (arp_send_request ip iface s))"

section \<open>IP output\<close>

definition is_local_ip :: "u32 \<Rightarrow> net \<Rightarrow> bool" where
  "is_local_ip ip s \<longleftrightarrow> ip AND 0xFF = 0x7F \<or>
     find_idx NUM_IFACES (\<lambda>i. if_name (net_interfaces s i) \<noteq> [] \<and> if_ip (net_interfaces s i) = ip) \<noteq> None"

definition loopback_src_iface :: "u32 \<Rightarrow> net \<Rightarrow> nat" where
  "loopback_src_iface ip s =
     (case find_idx NUM_IFACES (\<lambda>i. if_name (net_interfaces s i) \<noteq> [] \<and> if_ip (net_interfaces s i) = ip) of
        Some i \<Rightarrow> i | None \<Rightarrow> 0)"

definition loopback_enqueue :: "u8 list \<Rightarrow> net \<Rightarrow> net" where
  "loopback_enqueue pkt s =
     (let next = (lo_head s + 1) mod LO_QUEUE_LEN in
      if length pkt > LO_MAX_PKT \<or> next = lo_tail s then s
      else s\<lparr>lo_ring := (lo_ring s)(lo_head s := pkt), lo_head := next\<rparr>)"

definition ip_header :: "u32 \<Rightarrow> u32 \<Rightarrow> u8 \<Rightarrow> nat \<Rightarrow> u16 \<Rightarrow> u8 list" where
  "ip_header src dst protocol packet_len ck =
     [0x45, 0] @ be16_bytes (of_nat packet_len) @ be16_bytes 0 @ be16_bytes 0 @ [64, protocol] @ be16_bytes ck @
     ip_bytes src @ ip_bytes dst"

definition ip_packet :: "u32 \<Rightarrow> u32 \<Rightarrow> u8 \<Rightarrow> u8 list \<Rightarrow> u8 list" where
  "ip_packet src dst protocol data =
     (let hdr = ip_header src dst protocol (20 + length data) in hdr (inet_checksum (hdr 0)) @ data)"

text \<open>Interface and hardware address for a destination that is not ours; \<open>None\<close> when there is no way.\<close>

definition ip_route :: "(net \<Rightarrow> net option) \<Rightarrow> u32 \<Rightarrow> int \<Rightarrow> net \<Rightarrow> ((nat \<times> u8 list) option \<times> net) option" where
  "ip_route poll dst_ip iface_idx s =
     (case (if iface_idx < 0 then find_idx NUM_IFACES (is_nic s) else Some (nat iface_idx)) of
        None \<Rightarrow> Some (None, s)
      | Some i \<Rightarrow>
          (let nm = if_netmask (net_interfaces s i); my_ip = if_ip (net_interfaces s i);
               subnet_bcast = (if nm \<noteq> 0 then my_ip OR NOT nm else 0xFFFFFFFF) in
           if dst_ip = 0xFFFFFFFF \<or> dst_ip = subnet_bcast then Some (Some (i, replicate 6 0xFF), s)
           else do {
             let next_hop = (if nm \<noteq> 0 \<and> dst_ip AND nm \<noteq> my_ip AND nm \<and> if_gateway (net_interfaces s i) \<noteq> 0
                             then if_gateway (net_interfaces s i) else dst_ip);
             (mac, s) \<leftarrow> arp_resolve poll next_hop i s;
             Some (map_option (\<lambda>m. (i, m)) mac, s)
           }))"

definition ip_transmit :: "(net \<Rightarrow> net option) \<Rightarrow> sender" where
  "ip_transmit poll dst_ip protocol data iface_idx s =
     (if is_local_ip dst_ip s then
        (let i = loopback_src_iface dst_ip s; (ok, s) = kmalloc_ok s in
         if \<not> ok then Some (- 1, s)
         else (let p = ip_packet (if_ip (net_interfaces s i)) dst_ip protocol data
               in Some (int (length p), loopback_enqueue p s)))
      else do {
        (via, s) \<leftarrow> ip_route poll dst_ip iface_idx s;
        case via of
          None \<Rightarrow> Some (- 1, s)
        | Some (i, mac) \<Rightarrow>
            (let (ok, s) = kmalloc_ok s in
             if \<not> ok then Some (- 1, s)
             else Some (eth_send mac 0x0800 (ip_packet (if_ip (net_interfaces s i)) dst_ip protocol data) i s))
      })"

section \<open>UDP and ICMP\<close>

definition udp_send :: "sender \<Rightarrow> u32 \<Rightarrow> u16 \<Rightarrow> u16 \<Rightarrow> u8 list \<Rightarrow> int \<Rightarrow> net \<Rightarrow> (int \<times> net) option" where
  "udp_send snd_ip dst_ip dst_port src_port data iface_idx s =
     (let (ok, s) = kmalloc_ok s in
      if \<not> ok then Some (- 1, s)
      else snd_ip dst_ip 17 (be16_bytes src_port @ be16_bytes dst_port @ be16_bytes (of_nat (8 + length data)) @ be16_bytes 0 @ data)
             iface_idx s)"

definition udp_register_listener :: "u16 \<Rightarrow> udp_handler option \<Rightarrow> net \<Rightarrow> net" where
  "udp_register_listener port h s =
     (let mine = (\<lambda>i. ul_active (udp_listeners s i) \<and> ul_port (udp_listeners s i) = port) in
      if h = None then
        s\<lparr>udp_listeners := (\<lambda>i. if i < MAX_LISTENERS \<and> mine i then (udp_listeners s i)\<lparr>ul_active := False, ul_handler := None\<rparr>
                               else udp_listeners s i)\<rparr>
      else
        (case find_idx MAX_LISTENERS mine of
           Some i \<Rightarrow> s\<lparr>udp_listeners := (udp_listeners s)(i := (udp_listeners s i)\<lparr>ul_handler := h\<rparr>)\<rparr>
         | None \<Rightarrow>
             (case find_idx MAX_LISTENERS (\<lambda>i. \<not> ul_active (udp_listeners s i)) of
                Some i \<Rightarrow> s\<lparr>udp_listeners := (udp_listeners s)(i := \<lparr>ul_port = port, ul_handler = h, ul_active = True\<rparr>)\<rparr>
              | None \<Rightarrow> s)))"

text \<open>A datagram for a user socket: whether one is bound to the port, and the queue after it.\<close>

definition nsock_udp_deliver :: "u16 \<Rightarrow> u8 list \<Rightarrow> u32 \<Rightarrow> u16 \<Rightarrow> net \<Rightarrow> bool \<times> net" where
  "nsock_udp_deliver dst_port data src_ip src_port s =
     (case find_idx MAX_SOCKETS (\<lambda>i. let n = nsocks s i in
             ns_in_use n \<and> ns_type n = SOCK_DGRAM \<and> ns_dq n \<noteq> None \<and> ns_local_port n = dst_port) of
        None \<Rightarrow> (False, s)
      | Some i \<Rightarrow>
          (let n = nsocks s i; next = (ns_dq_head n + 1) mod UDP_QUEUE in
           if next = ns_dq_tail n then (True, s)
           else (True, s\<lparr>nsocks := (nsocks s)(i := n\<lparr>ns_dq := map_option (\<lambda>q. q(ns_dq_head n :=
                     \<lparr>dg_src_ip = src_ip, dg_src_port = src_port, dg_data = take UDP_DGRAM_MAX data\<rparr>)) (ns_dq n),
                   ns_dq_head := next\<rparr>)\<rparr>)))"

definition udp_echo_handler :: "sender \<Rightarrow> u8 list \<Rightarrow> u32 \<Rightarrow> u16 \<Rightarrow> net \<Rightarrow> net option" where
  "udp_echo_handler snd_ip data src_ip src_port s = map_option snd (udp_send snd_ip src_ip src_port ECHO_PORT data (- 1) s)"

definition udp_handle_packet :: "sender \<Rightarrow> u8 list \<Rightarrow> u32 \<Rightarrow> net \<Rightarrow> net option" where
  "udp_handle_packet snd_ip p src_ip s =
     (if length p < 8 then Some s
      else
        (let dst_port = be16 p 2; src_port = be16 p 0; payload = drop 8 p;
             (claimed, s) = nsock_udp_deliver dst_port payload src_ip src_port s in
         if claimed then Some s
         else
           (case find_idx MAX_LISTENERS (\<lambda>i. ul_active (udp_listeners s i) \<and> ul_port (udp_listeners s i) = dst_port) of
              None \<Rightarrow> Some s
            | Some i \<Rightarrow>
                (case ul_handler (udp_listeners s i) of
                   None \<Rightarrow> Some (s\<lparr>wild := True\<rparr>)
                 | Some Udp_echo \<Rightarrow> udp_echo_handler snd_ip payload src_ip src_port s
                 | Some (Udp_client n) \<Rightarrow> Some (s\<lparr>udp_log := udp_log s @ [(n, payload, src_ip, src_port)]\<rparr>)))))"

text \<open>The ICMP checksum is stored without \<open>htons\<close>.\<close>

definition le16_bytes :: "u16 \<Rightarrow> u8 list" where
  "le16_bytes w = [ucast w, ucast (drop_bit 8 w)]"

definition icmp_send_echo :: "sender \<Rightarrow> u32 \<Rightarrow> u16 \<Rightarrow> u16 \<Rightarrow> int \<Rightarrow> net \<Rightarrow> (int \<times> net) option" where
  "icmp_send_echo snd_ip dst_ip ident sq iface_idx s =
     (let (ok, s) = kmalloc_ok s in
      if \<not> ok then Some (- 1, s)
      else
        (let body = be16_bytes ident @ be16_bytes sq @ map of_nat [0..<56]
         in snd_ip dst_ip 1 ([8, 0] @ le16_bytes (inet_checksum ([8, 0, 0, 0] @ body)) @ body) iface_idx s))"

definition icmp_handle_packet :: "sender \<Rightarrow> u8 list \<Rightarrow> u32 \<Rightarrow> net \<Rightarrow> net option" where
  "icmp_handle_packet snd_ip p src_ip s =
     (if length p < 8 then Some s
      else if p ! 0 = 8 then
        (let (ok, s) = kmalloc_ok s in
         if \<not> ok then Some s
         else map_option snd (snd_ip src_ip 1 ([0, 0] @ le16_bytes (inet_checksum ([0, 0, 0, 0] @ drop 4 p)) @ drop 4 p) (- 1) s))
      else if p ! 0 = 0 \<and> be16 p 4 = ping_ident s \<and> uint (be16 p 6) = ping_wait_seq s then
        Some (s\<lparr>ping_reply_tick := ticks s, ping_reply_ttl := g_last_rx_ttl s, ping_reply_len := length p, ping_got_reply := True\<rparr>)
      else Some s)"

section \<open>IP input and polling\<close>

definition ip_handle_packet :: "sender \<Rightarrow> u8 list \<Rightarrow> net \<Rightarrow> net option" where
  "ip_handle_packet snd_ip p s =
     (if length p < 20 then Some s
      else
        (let dst_ip = ip_at p 16 in
         if find_idx NUM_IFACES (\<lambda>i. if_name (net_interfaces s i) \<noteq> [] \<and> (if_ip (net_interfaces s i) = dst_ip \<or> dst_ip = 0xFFFFFFFF)) = None
         then Some s
         else
           (let s = s\<lparr>g_last_rx_ttl := p ! 8\<rparr>; total = unat (be16 p 2);
                ip_len = (if total \<ge> 20 \<and> total \<le> length p then total else length p);
                payload = take (ip_len - 20) (drop 20 p); src_ip = ip_at p 12 in
            if p ! 9 = 17 then udp_handle_packet snd_ip payload src_ip s
            else if p ! 9 = 1 then icmp_handle_packet snd_ip payload src_ip s
            else if p ! 9 = 6 then tcp_handle_packet snd_ip payload src_ip dst_ip s
            else Some s)))"

fun ip_loopback_poll :: "sender \<Rightarrow> nat \<Rightarrow> net \<Rightarrow> net option" where
  "ip_loopback_poll snd_ip 0 s = (if lo_tail s = lo_head s then Some s else None)"
| "ip_loopback_poll snd_ip (Suc n) s =
     (if lo_tail s = lo_head s then Some s
      else do {
        s' \<leftarrow> ip_handle_packet snd_ip (lo_ring s (lo_tail s)) (s\<lparr>lo_tail := (lo_tail s + 1) mod LO_QUEUE_LEN\<rparr>);
        ip_loopback_poll snd_ip n s'
      })"

definition eth_poll :: "sender \<Rightarrow> nat \<Rightarrow> net \<Rightarrow> net option" where
  "eth_poll snd_ip iface s =
     (let (f, s) = rtl8139_receive_packet 2048 s in
      if length f < 14 then Some s
      else if be16 f 12 = 0x0806 then Some (arp_handle_packet (drop 14 f) s)
      else if be16 f 12 = 0x0800 then ip_handle_packet snd_ip (drop 14 f) s
      else Some s)"

text \<open>The echo service takes over accepted clients and bounces what they sent.\<close>

lemma tcp_accept_marks:
  assumes "tcp_accept l s = (c, s')" and "0 \<le> c"
  shows "\<exists>i < TCP_MAX_CONNS. \<not> c_accepted (conns s i) \<and> s' = upd_conn i (\<lambda>c. c\<lparr>c_accepted := True\<rparr>) s"
  using assms by (auto simp: tcp_accept_def Let_def find_idx_Some split: if_splits option.splits)

lemma accepted_decreases:
  assumes "i < (n :: nat)" and "\<not> P i"
  shows "card {j. j < n \<and> \<not> (P j \<or> j = i)} < card {j. j < n \<and> \<not> P j}"
  using assms by (intro psubset_card_mono) auto

function echo_adopt :: "net \<Rightarrow> net" where
  "echo_adopt s =
     (let (c, s') = tcp_accept (echo_listen s) s in
      if c < 0 then s'
      else echo_adopt (case find_idx ECHO_MAX (\<lambda>i. echo_conns s' i < 0) of
                         Some i \<Rightarrow> s'\<lparr>echo_conns := (echo_conns s')(i := c)\<rparr> | None \<Rightarrow> s'))"
  by pat_completeness auto
termination
proof (relation "measure (\<lambda>s. card {j. j < TCP_MAX_CONNS \<and> \<not> c_accepted (conns s j)})", goal_cases)
  case 1
  then show ?case by simp
next
  case (2 s x c s')
  then have "tcp_accept (echo_listen s) s = (c, s')" "0 \<le> c" by auto
  from tcp_accept_marks[OF this] obtain i where i: "i < TCP_MAX_CONNS" "\<not> c_accepted (conns s i)"
    "s' = upd_conn i (\<lambda>c. c\<lparr>c_accepted := True\<rparr>) s" by blast
  let ?t = "case find_idx ECHO_MAX (\<lambda>i. echo_conns s' i < 0) of Some i \<Rightarrow> s'\<lparr>echo_conns := (echo_conns s')(i := c)\<rparr> | None \<Rightarrow> s'"
  have "conns ?t = conns s'" by (simp split: option.split)
  then have "c_accepted (conns ?t j) \<longleftrightarrow> c_accepted (conns s j) \<or> j = i" for j by (simp add: i(3) upd_conn_def)
  then show ?case using accepted_decreases[of i TCP_MAX_CONNS "\<lambda>j. c_accepted (conns s j)"] i(1,2) by simp
qed

declare echo_adopt.simps [simp del]

definition echo_bounce :: "sender \<Rightarrow> nat \<Rightarrow> net \<Rightarrow> net option" where
  "echo_bounce snd_ip i s =
     (let ec = echo_conns s i in
      if ec < 0 then Some s
      else if tcp_state ec s = int TCP_STATE_CLOSED then Some (s\<lparr>echo_conns := (echo_conns s)(i := - 1)\<rparr>)
      else
        (let (n, buf, s) = tcp_recv ec 512 s in
         if n > 0 then map_option snd (tcp_send snd_ip ec buf s) else Some s))"

definition tcp_echo_poll :: "sender \<Rightarrow> net \<Rightarrow> net option" where
  "tcp_echo_poll snd_ip s =
     (if echo_listen s < 0 then Some s else ofold (echo_bounce snd_ip) [0..<ECHO_MAX] (echo_adopt s))"

definition tcp_echo_init :: "net \<Rightarrow> net" where
  "tcp_echo_init s =
     (let s = s\<lparr>echo_conns := (\<lambda>i. if i < ECHO_MAX then - 1 else echo_conns s i)\<rparr>; (l, s) = tcp_listen ECHO_PORT s
      in udp_register_listener ECHO_PORT (Some Udp_echo) (s\<lparr>echo_listen := l\<rparr>))"

definition kernel_poll_net :: "sender \<Rightarrow> nat \<Rightarrow> net \<Rightarrow> net option" where
  "kernel_poll_net snd_ip n s = do {
     s \<leftarrow> ip_loopback_poll snd_ip n s;
     s \<leftarrow> ofold (\<lambda>i s. if is_nic s i then eth_poll snd_ip i s else Some s) [0..<NUM_IFACES] s;
     s \<leftarrow> tcp_tick snd_ip s;
     tcp_echo_poll snd_ip s
   }"

text \<open>\<open>ip_send\<close> itself: the poll of its address resolution may send in turn.\<close>

primrec ip_send :: "nat \<Rightarrow> sender" where
  "ip_send 0 = (\<lambda>_ _ _ _ _. None)"
| "ip_send (Suc n) = ip_transmit (kernel_poll_net (ip_send n) n)"

definition poll_net :: "nat \<Rightarrow> net \<Rightarrow> net option" where
  "poll_net n = kernel_poll_net (ip_send n) n"

section \<open>Sockets\<close>

definition init_net :: "net \<Rightarrow> net" where
  "init_net s =
     arp_init (s\<lparr>nsocks := (\<lambda>i. if i < MAX_SOCKETS then \<lparr>ns_in_use = False, ns_type = 0, ns_tcp_conn = 0, ns_local_port = 0,
         ns_listening = False, ns_dq = None, ns_dq_head = 0, ns_dq_tail = 0\<rparr> else nsocks s i),
       net_interfaces := (\<lambda>i. if i = 0 then \<lparr>if_name = ''lo'', if_mac = replicate 6 0, if_ip = 0x0100007F, if_netmask = 0xFF, if_gateway = 0\<rparr>
         else if i < NUM_IFACES then \<lparr>if_name = [], if_mac = replicate 6 0, if_ip = 0, if_netmask = 0, if_gateway = 0\<rparr>
         else net_interfaces s i)\<rparr>)"

definition nsock_valid :: "int \<Rightarrow> net \<Rightarrow> bool" where
  "nsock_valid i s \<longleftrightarrow> 0 \<le> i \<and> i < int MAX_SOCKETS \<and> ns_in_use (nsocks s (nat i))"

definition upd_sock :: "nat \<Rightarrow> (nsock \<Rightarrow> nsock) \<Rightarrow> net \<Rightarrow> net" where
  "upd_sock i f s = s\<lparr>nsocks := (nsocks s)(i := f (nsocks s i))\<rparr>"

definition nsock_create :: "int \<Rightarrow> net \<Rightarrow> int \<times> net" where
  "nsock_create type s =
     (if type \<noteq> SOCK_STREAM \<and> type \<noteq> SOCK_DGRAM then (- 1, s)
      else
        (case find_idx MAX_SOCKETS (\<lambda>i. \<not> ns_in_use (nsocks s i)) of
           None \<Rightarrow> (- 1, s)
         | Some i \<Rightarrow>
             (let s = upd_sock i (\<lambda>n. n\<lparr>ns_type := type, ns_tcp_conn := - 1, ns_local_port := 0, ns_listening := False,
                        ns_dq := None, ns_dq_head := 0, ns_dq_tail := 0\<rparr>) s in
              if type = SOCK_DGRAM then
                (let (ok, s) = kmalloc_ok s in
                 if \<not> ok then (- 1, s)
                 else (int i, upd_sock i (\<lambda>n. n\<lparr>ns_dq := Some (\<lambda>_. \<lparr>dg_src_ip = 0, dg_src_port = 0, dg_data = []\<rparr>), ns_in_use := True\<rparr>) s))
              else (int i, upd_sock i (\<lambda>n. n\<lparr>ns_in_use := True\<rparr>) s))))"

text \<open>The busy waits: at most \<open>m\<close> polls.\<close>

fun connect_wait :: "nat \<Rightarrow> int \<Rightarrow> nat \<Rightarrow> net \<Rightarrow> (int \<times> net) option" where
  "connect_wait n c 0 s = Some (- 1, s)"
| "connect_wait n c (Suc m) s = do {
     s \<leftarrow> poll_net n s;
     if tcp_state c s = int TCP_STATE_ESTABLISHED then Some (0, s)
     else if tcp_state c s = int TCP_STATE_CLOSED then Some (- 1, s)
     else connect_wait n c m s
   }"

definition nsock_connect :: "nat \<Rightarrow> int \<Rightarrow> u32 \<Rightarrow> u16 \<Rightarrow> net \<Rightarrow> (int \<times> net) option" where
  "nsock_connect n i ip port s =
     (if \<not> nsock_valid i s \<or> ns_type (nsocks s (nat i)) \<noteq> SOCK_STREAM then Some (- 1, s)
      else do {
        let sport = ephemeral s;
        let s = s\<lparr>ephemeral := (if sport + 1 \<ge> 60000 then 40000 else sport + 1)\<rparr>;
        (c, s) \<leftarrow> tcp_connect (ip_send n) ip port sport s;
        if c < 0 then Some (- 1, s)
        else connect_wait n c 3000 (upd_sock (nat i) (\<lambda>k. k\<lparr>ns_tcp_conn := c\<rparr>) s)
      })"

definition nsock_bind :: "int \<Rightarrow> u16 \<Rightarrow> net \<Rightarrow> int \<times> net" where
  "nsock_bind i port s = (if \<not> nsock_valid i s then (- 1, s) else (0, upd_sock (nat i) (\<lambda>k. k\<lparr>ns_local_port := port\<rparr>) s))"

definition nsock_listen :: "int \<Rightarrow> net \<Rightarrow> int \<times> net" where
  "nsock_listen i s =
     (if \<not> nsock_valid i s \<or> ns_local_port (nsocks s (nat i)) = 0 then (- 1, s)
      else
        (let (l, s) = tcp_listen (ns_local_port (nsocks s (nat i))) s in
         if l < 0 then (- 1, s) else (0, upd_sock (nat i) (\<lambda>k. k\<lparr>ns_tcp_conn := l, ns_listening := True\<rparr>) s)))"

definition accept_into :: "int \<Rightarrow> int \<Rightarrow> net \<Rightarrow> int \<times> net" where
  "accept_into i child s =
     (case find_idx MAX_SOCKETS (\<lambda>j. \<not> ns_in_use (nsocks s j)) of
        None \<Rightarrow> (- 1, s)
      | Some j \<Rightarrow> (int j, upd_sock j (\<lambda>k. k\<lparr>ns_in_use := True, ns_type := SOCK_STREAM, ns_tcp_conn := child,
                    ns_local_port := ns_local_port (nsocks s (nat i)), ns_listening := False\<rparr>) s))"

fun accept_wait :: "nat \<Rightarrow> int \<Rightarrow> int \<Rightarrow> nat \<Rightarrow> net \<Rightarrow> (int \<times> net) option" where
  "accept_wait n i lc 0 s = Some (- 1, s)"
| "accept_wait n i lc (Suc m) s =
     (let (child, s) = tcp_accept lc s in
      if child \<ge> 0 then Some (accept_into i child s)
      else do { s \<leftarrow> poll_net n s; accept_wait n i lc m s })"

definition nsock_accept :: "nat \<Rightarrow> int \<Rightarrow> net \<Rightarrow> (int \<times> net) option" where
  "nsock_accept n i s =
     (let k = nsocks s (nat i) in
      if \<not> nsock_valid i s \<or> \<not> ns_listening k \<or> ns_tcp_conn k < 0 then Some (- 1, s)
      else accept_wait n i (ns_tcp_conn k) 6000 s)"

definition nsock_send :: "nat \<Rightarrow> int \<Rightarrow> u8 list \<Rightarrow> net \<Rightarrow> (int \<times> net) option" where
  "nsock_send n i data s =
     (if \<not> nsock_valid i s \<or> ns_tcp_conn (nsocks s (nat i)) < 0 then Some (- 1, s)
      else do {
        (r, s) \<leftarrow> tcp_send (ip_send n) (ns_tcp_conn (nsocks s (nat i))) data s;
        Some (if r < 0 then - 1 else int (length data), s)
      })"

fun recv_wait :: "nat \<Rightarrow> int \<Rightarrow> u32 \<Rightarrow> nat \<Rightarrow> net \<Rightarrow> (int \<times> u8 list \<times> net) option" where
  "recv_wait n c len 0 s = Some (0, [], s)"
| "recv_wait n c len (Suc m) s =
     (let (r, buf, s) = tcp_recv c len s in
      if r > 0 then Some (r, buf, s)
      else if tcp_state c s = int TCP_STATE_CLOSED then Some (0, [], s)
      else do { s \<leftarrow> poll_net n s; recv_wait n c len m s })"

definition nsock_recv :: "nat \<Rightarrow> int \<Rightarrow> int \<Rightarrow> net \<Rightarrow> (int \<times> u8 list \<times> net) option" where
  "nsock_recv n i len s =
     (if \<not> nsock_valid i s \<or> ns_tcp_conn (nsocks s (nat i)) < 0 \<or> len \<le> 0 then Some (- 1, [], s)
      else recv_wait n (ns_tcp_conn (nsocks s (nat i))) (word_of_int len) 6000 s)"

definition nsock_sendto :: "nat \<Rightarrow> int \<Rightarrow> u8 list \<Rightarrow> u32 \<Rightarrow> u16 \<Rightarrow> net \<Rightarrow> (int \<times> net) option" where
  "nsock_sendto n i data ip port s =
     (if \<not> nsock_valid i s \<or> ns_type (nsocks s (nat i)) \<noteq> SOCK_DGRAM then Some (- 1, s)
      else do {
        let s = (if ns_local_port (nsocks s (nat i)) = 0
                 then (upd_sock (nat i) (\<lambda>k. k\<lparr>ns_local_port := eph s\<rparr>) s)\<lparr>eph := (if eph s + 1 \<ge> 60000 then 48000 else eph s + 1)\<rparr>
                 else s);
        (r, s) \<leftarrow> udp_send (ip_send n) ip port (ns_local_port (nsocks s (nat i))) data (- 1) s;
        Some (if r < 0 then - 1 else int (length data), s)
      })"

fun recvfrom_wait :: "nat \<Rightarrow> nat \<Rightarrow> int \<Rightarrow> nat \<Rightarrow> net \<Rightarrow> ((int \<times> u8 list \<times> u32 \<times> u16) option \<times> net) option" where
  "recvfrom_wait n i len 0 s = Some (None, s)"
| "recvfrom_wait n i len (Suc m) s =
     (let k = nsocks s i in
      if ns_dq_head k \<noteq> ns_dq_tail k then
        (let d = (case ns_dq k of Some q \<Rightarrow> q (ns_dq_tail k) | None \<Rightarrow> \<lparr>dg_src_ip = 0, dg_src_port = 0, dg_data = []\<rparr>);
             r = min (int (length (dg_data d))) len
         in Some (Some (r, take (nat r) (dg_data d), dg_src_ip d, dg_src_port d),
              upd_sock i (\<lambda>k. k\<lparr>ns_dq_tail := (ns_dq_tail k + 1) mod UDP_QUEUE\<rparr>) s))
      else do { s \<leftarrow> poll_net n s; recvfrom_wait n i len m s })"

text \<open>\<open>None\<close> in the result stands for the return value \<open>-1\<close>.\<close>

definition nsock_recvfrom :: "nat \<Rightarrow> int \<Rightarrow> int \<Rightarrow> net \<Rightarrow> ((int \<times> u8 list \<times> u32 \<times> u16) option \<times> net) option" where
  "nsock_recvfrom n i len s =
     (if \<not> nsock_valid i s \<or> ns_type (nsocks s (nat i)) \<noteq> SOCK_DGRAM \<or> ns_dq (nsocks s (nat i)) = None \<or> len \<le> 0 then Some (None, s)
      else recvfrom_wait n (nat i) len 6000 s)"

definition nsock_readable :: "int \<Rightarrow> net \<Rightarrow> bool" where
  "nsock_readable i s \<longleftrightarrow>
     (let k = nsocks s (nat i) in
      if \<not> nsock_valid i s then True
      else if ns_type k = SOCK_DGRAM then ns_dq k \<noteq> None \<and> ns_dq_head k \<noteq> ns_dq_tail k
      else ns_tcp_conn k < 0 \<or> tcp_recv_ready (ns_tcp_conn k) s)"

definition nsock_close :: "nat \<Rightarrow> int \<Rightarrow> net \<Rightarrow> (int \<times> net) option" where
  "nsock_close n i s =
     (if \<not> nsock_valid i s then Some (- 1, s)
      else do {
        let c = ns_tcp_conn (nsocks s (nat i));
        (r, s) \<leftarrow> (if c \<ge> 0 then tcp_close (ip_send n) c s else Some (0, s));
        Some (0, upd_sock (nat i) (\<lambda>k. k\<lparr>ns_dq := None, ns_in_use := False, ns_tcp_conn := - 1\<rparr>) s)
      })"

section \<open>Local delivery\<close>

definition owns :: "u32 \<Rightarrow> net \<Rightarrow> bool" where
  "owns a s \<longleftrightarrow> (\<exists>i < NUM_IFACES. if_name (net_interfaces s i) \<noteq> [] \<and> if_ip (net_interfaces s i) = a)"

lemma owns_iface:
  assumes "owns a s"
  shows "is_local_ip a s" "if_ip (net_interfaces s (loopback_src_iface a s)) = a"
proof -
  let ?P = "\<lambda>i. if_name (net_interfaces s i) \<noteq> [] \<and> if_ip (net_interfaces s i) = a"
  have "find_idx NUM_IFACES ?P \<noteq> None" using assms by (auto simp: owns_def)
  then obtain i where i: "find_idx NUM_IFACES ?P = Some i" by (cases "find_idx NUM_IFACES ?P") auto
  then show "is_local_ip a s" "if_ip (net_interfaces s (loopback_src_iface a s)) = a"
    using find_idx_SomeD(2)[OF i] by (simp_all add: is_local_ip_def loopback_src_iface_def del: find_idx_None)
qed

lemma ip_send_owned:
  assumes "owns a s" and "kmem s = []"
  shows "ip_send (Suc n) a pr data i s = Some (int (20 + length data), loopback_enqueue (ip_packet a a pr data) s)"
  using owns_iface[OF assms(1)] assms(2)
  by (simp add: ip_transmit_def Let_def ip_packet_def ip_header_def)

lemma length_ip_packet [simp]: "length (ip_packet a b pr data) = 20 + length data"
  by (simp add: ip_packet_def ip_header_def Let_def)

lemma ip_packet_fields:
  shows "ip_at (ip_packet a b pr data) 16 = b" "ip_at (ip_packet a b pr data) 12 = a" "ip_packet a b pr data ! 9 = pr"
    "ip_packet a b pr data ! 8 = 64" "be16 (ip_packet a b pr data) 2 = of_nat (20 + length data)" "drop 20 (ip_packet a b pr data) = data"
  by (simp_all add: ip_packet_def ip_header_def Let_def be16_bytes_def[of 0] be16_bytes_def[of "inet_checksum _"] nth_append)

lemma ip_handle_owned:
  assumes "owns b s" and "length data < 65000"
  shows "ip_handle_packet snd_ip (ip_packet a b pr data) s =
    (let s = s\<lparr>g_last_rx_ttl := 64\<rparr> in
     if pr = 17 then udp_handle_packet snd_ip data a s
     else if pr = 1 then icmp_handle_packet snd_ip data a s
     else if pr = 6 then tcp_handle_packet snd_ip data a b s
     else Some s)"
proof -
  have u: "unat (of_nat (20 + length data) :: u16) = 20 + length data"
    using assms(2) by (simp only: unsigned_of_nat take_bit_eq_mod) simp
  have f: "find_idx NUM_IFACES (\<lambda>i. if_name (net_interfaces s i) \<noteq> [] \<and> (if_ip (net_interfaces s i) = b \<or> b = 0xFFFFFFFF)) \<noteq> None"
    using assms(1) by (auto simp: owns_def)
  show ?thesis
    using u f by (auto simp: ip_handle_packet_def Let_def ip_packet_fields simp del: find_idx_None)
qed


text \<open>A datagram of the echo port to itself, and the state in which it circulates.\<close>

definition echo_dgram :: "u8 list \<Rightarrow> u8 list" where
  "echo_dgram data = be16_bytes ECHO_PORT @ be16_bytes ECHO_PORT @ be16_bytes (of_nat (8 + length data)) @ be16_bytes 0 @ data"

definition echo_bound :: "net \<Rightarrow> bool" where
  "echo_bound s \<longleftrightarrow>
     (\<forall>i < MAX_SOCKETS. \<not> (ns_in_use (nsocks s i) \<and> ns_type (nsocks s i) = SOCK_DGRAM \<and> ns_dq (nsocks s i) \<noteq> None \<and>
        ns_local_port (nsocks s i) = ECHO_PORT)) \<and>
     (\<exists>j. find_idx MAX_LISTENERS (\<lambda>i. ul_active (udp_listeners s i) \<and> ul_port (udp_listeners s i) = ECHO_PORT) = Some j \<and>
        ul_handler (udp_listeners s j) = Some Udp_echo)"

definition echo_storm :: "u32 \<Rightarrow> u8 list \<Rightarrow> net \<Rightarrow> bool" where
  "echo_storm a data s \<longleftrightarrow> owns a s \<and> echo_bound s \<and> kmem s = [] \<and> lo_tail s < LO_QUEUE_LEN \<and>
     lo_head s = (lo_tail s + 1) mod LO_QUEUE_LEN \<and> lo_ring s (lo_tail s) = ip_packet a a 17 (echo_dgram data)"

lemma udp_echo_bounces:
  assumes "echo_bound s" and "kmem s = []" and "owns a s"
  shows "udp_handle_packet (ip_send (Suc m)) (echo_dgram data) a s = Some (loopback_enqueue (ip_packet a a 17 (echo_dgram data)) s)"
proof -
  have d: "nsock_udp_deliver ECHO_PORT data a ECHO_PORT s = (False, s)"
  proof -
    have "find_idx MAX_SOCKETS (\<lambda>i. let n = nsocks s i in
        ns_in_use n \<and> ns_type n = SOCK_DGRAM \<and> ns_dq n \<noteq> None \<and> ns_local_port n = ECHO_PORT) = None"
      using assms(1) by (simp add: echo_bound_def Let_def)
    then show ?thesis by (simp add: nsock_udp_deliver_def del: find_idx_None)
  qed
  have p: "be16 (echo_dgram data) 2 = ECHO_PORT" "be16 (echo_dgram data) 0 = ECHO_PORT" "drop 8 (echo_dgram data) = data"
    "\<not> length (echo_dgram data) < 8" by (simp_all add: echo_dgram_def)
  have e: "udp_echo_handler (ip_send (Suc m)) data a ECHO_PORT s = Some (loopback_enqueue (ip_packet a a 17 (echo_dgram data)) s)"
    unfolding udp_echo_handler_def udp_send_def kmalloc_ok_all[OF assms(2)]
    by (simp add: ip_send_owned[OF assms(3,2)] echo_dgram_def del: ip_send.simps)
  from assms(1) obtain j where
    "find_idx MAX_LISTENERS (\<lambda>i. ul_active (udp_listeners s i) \<and> ul_port (udp_listeners s i) = ECHO_PORT) = Some j"
    "ul_handler (udp_listeners s j) = Some Udp_echo" by (auto simp: echo_bound_def)
  then show ?thesis unfolding udp_handle_packet_def by (simp add: Let_def p d e del: ip_send.simps)
qed

lemma echo_storm_step:
  assumes "echo_storm a data s" and "length data \<le> 1472"
  shows "\<exists>s'. ip_handle_packet (ip_send (Suc m)) (lo_ring s (lo_tail s)) (s\<lparr>lo_tail := (lo_tail s + 1) mod LO_QUEUE_LEN\<rparr>) = Some s' \<and>
    echo_storm a data s'"
proof -
  let ?t = "s\<lparr>lo_tail := (lo_tail s + 1) mod LO_QUEUE_LEN, g_last_rx_ttl := 64\<rparr>"
  let ?p = "ip_packet a a 17 (echo_dgram data)"
  have o: "owns a (s\<lparr>lo_tail := (lo_tail s + 1) mod LO_QUEUE_LEN\<rparr>)" "owns a ?t" "echo_bound ?t" "kmem ?t = []"
    using assms(1) by (simp_all add: echo_storm_def owns_def echo_bound_def)
  have l: "length (echo_dgram data) = 8 + length data" by (simp add: echo_dgram_def)
  have h: "ip_handle_packet (ip_send (Suc m)) ?p (s\<lparr>lo_tail := (lo_tail s + 1) mod LO_QUEUE_LEN\<rparr>) = Some (loopback_enqueue ?p ?t)"
    using ip_handle_owned[OF o(1), of "echo_dgram data" "ip_send (Suc m)" a 17] udp_echo_bounces[OF o(3,4,2)] assms(2) l
    by (simp add: Let_def del: ip_send.simps)
  have q: "loopback_enqueue ?p ?t = ?t\<lparr>lo_ring := (lo_ring s)(lo_head s := ?p), lo_head := (lo_head s + 1) mod LO_QUEUE_LEN\<rparr>"
    using assms l by (simp add: loopback_enqueue_def echo_storm_def LO_MAX_PKT_def LO_QUEUE_LEN_def mod_Suc)
  have "echo_storm a data (loopback_enqueue ?p ?t)"
    unfolding q using assms(1) by (simp add: echo_storm_def owns_def echo_bound_def LO_QUEUE_LEN_def)
  then show ?thesis using h assms(1) by (auto simp: echo_storm_def)
qed

lemma echo_storm_forever:
  assumes "echo_storm a data s" and "length data \<le> 1472"
  shows "ip_loopback_poll (ip_send (Suc m)) n s = None"
  using assms(1)
proof (induction n arbitrary: s)
  case 0
  then have "lo_tail s \<noteq> lo_head s" by (auto simp: echo_storm_def LO_QUEUE_LEN_def mod_Suc)
  then show ?case by simp
next
  case (Suc n)
  from echo_storm_step[OF Suc.prems assms(2)] obtain s' where
    s': "ip_handle_packet (ip_send (Suc m)) (lo_ring s (lo_tail s)) (s\<lparr>lo_tail := (lo_tail s + 1) mod LO_QUEUE_LEN\<rparr>) = Some s'"
    "echo_storm a data s'" by blast
  have "lo_tail s \<noteq> lo_head s" using Suc.prems by (auto simp: echo_storm_def LO_QUEUE_LEN_def mod_Suc)
  then show ?case using s' Suc.IH[OF s'(2)] by (simp del: ip_send.simps)
qed

text \<open>One forged datagram stops the machine: a frame from the wire that claims to come from our own
  address and the echo port is answered through the loopback ring to the echo service itself, and
  the next poll of the network never returns, whatever the number of steps it is given.\<close>

theorem udp_echo_storm:
  assumes "owns a s" and "echo_bound s" and "kmem s = []" and "rtl_initialized s" and "lo_tail s < LO_QUEUE_LEN" and "lo_head s = lo_tail s"
    and "nic_rx s = (t, frame) # r" and "frame = macs @ be16_bytes 0x0800 @ ip_packet a a 17 (echo_dgram data)" and "length macs = 12"
    and "length data \<le> 1472"
  shows "\<exists>s'. eth_poll (ip_send (Suc m)) i s = Some s' \<and> (\<forall>n. kernel_poll_net (ip_send (Suc m)) n s' = None)"
proof -
  let ?p = "ip_packet a a 17 (echo_dgram data)"
  let ?s = "s\<lparr>nic_rx := r, ticks := t\<rparr>" let ?t = "?s\<lparr>g_last_rx_ttl := 64\<rparr>"
  have l: "length (echo_dgram data) = 8 + length data" by (simp add: echo_dgram_def)
  have o: "owns a ?s" "owns a ?t" "echo_bound ?t" "kmem ?t = []"
    using assms(1-3) by (simp_all add: owns_def echo_bound_def)
  have h: "ip_handle_packet (ip_send (Suc m)) ?p ?s = Some (loopback_enqueue ?p ?t)"
    using ip_handle_owned[OF o(1), of "echo_dgram data" "ip_send (Suc m)" a 17] udp_echo_bounces[OF o(3,4,2)] assms(10) l
    by (simp add: Let_def del: ip_send.simps)
  have f: "take 2048 frame = frame" "be16 frame 12 = 0x0800" "drop 14 frame = ?p" "\<not> length frame < 14"
    using assms(8-10) l by (simp_all add: past_prefix)
  have e: "eth_poll (ip_send (Suc m)) i s = Some (loopback_enqueue ?p ?t)"
    using assms(4,7) f h by (simp add: eth_poll_def rtl8139_receive_packet_def Let_def del: ip_send.simps)
  have "echo_storm a data (loopback_enqueue ?p ?t)"
    using assms l o by (simp add: loopback_enqueue_def echo_storm_def LO_MAX_PKT_def LO_QUEUE_LEN_def mod_Suc owns_def echo_bound_def)
  from echo_storm_forever[OF this assms(10)] e show ?thesis
    by (simp add: kernel_poll_net_def del: ip_send.simps)
qed

section \<open>Concrete runs\<close>

text \<open>After \<open>init_net\<close>, with no card, or with a card at 10.0.2.15.\<close>

definition net_boot :: net where
  "net_boot = init_net net_zero"

lemmas net_boot_defs = net_boot_def net_zero_def init_net_def arp_init_def

lemma net_boot_facts: "\<not> ns_in_use (nsocks net_boot i)" "kmem net_boot = []" "lo_tail net_boot = 0" "lo_head net_boot = 0"
  "\<not> ul_active (udp_listeners net_boot i)"
  by (simp_all add: net_boot_defs)

definition net_card :: "u8 list \<Rightarrow> net" where
  "net_card frame = (udp_register_listener ECHO_PORT (Some Udp_echo) net_boot)\<lparr>rtl_initialized := True, nic_rx := [(5, frame)],
     net_interfaces := (net_interfaces net_boot)(1 := \<lparr>if_name = ''eth0'', if_mac = replicate 6 0, if_ip = 0x0F02000A, if_netmask = 0x00FFFFFF,
       if_gateway = 0x0202000A\<rparr>)\<rparr>"

lemma net_card_facts:
  "owns 0x0F02000A (net_card f)" "echo_bound (net_card f)" "kmem (net_card f) = []" "rtl_initialized (net_card f)" "lo_tail (net_card f) = 0"
  "lo_head (net_card f) = 0" "nic_rx (net_card f) = [(5, f)]"
proof -
  show "owns 0x0F02000A (net_card f)" unfolding owns_def by (intro exI[of _ 1]) (simp add: net_card_def NUM_IFACES_def)
  have "find_idx MAX_LISTENERS (\<lambda>i. ul_active (udp_listeners net_boot i) \<and> ul_port (udp_listeners net_boot i) = ECHO_PORT) = None"
    "find_idx MAX_LISTENERS (\<lambda>i. \<not> ul_active (udp_listeners net_boot i)) = Some 0" using net_boot_facts(5) by (simp_all add: find_idx_Some MAX_LISTENERS_def)
  then have u: "udp_register_listener ECHO_PORT (Some Udp_echo) net_boot =
      net_boot\<lparr>udp_listeners := (udp_listeners net_boot)(0 := \<lparr>ul_port = ECHO_PORT, ul_handler = Some Udp_echo, ul_active = True\<rparr>)\<rparr>"
    by (simp add: udp_register_listener_def Let_def del: find_idx_None)
  have "find_idx MAX_LISTENERS (\<lambda>i. ul_active (udp_listeners (net_card f) i) \<and> ul_port (udp_listeners (net_card f) i) = ECHO_PORT) = Some 0"
    by (simp add: net_card_def u find_idx_Some MAX_LISTENERS_def)
  then show "echo_bound (net_card f)" by (simp add: echo_bound_def net_card_def u net_boot_facts)
  show "kmem (net_card f) = []" "rtl_initialized (net_card f)" "lo_tail (net_card f) = 0" "lo_head (net_card f) = 0" "nic_rx (net_card f) = [(5, f)]"
    by (simp_all add: net_card_def u net_boot_facts)
qed

theorem udp_echo_storm_witness:
  "\<exists>s'. eth_poll (ip_send 3) 1 (net_card (replicate 12 0 @ be16_bytes 0x0800 @ ip_packet 0x0F02000A 0x0F02000A 17 (echo_dgram [104, 105]))) = Some s' \<and>
     (\<forall>n. kernel_poll_net (ip_send 3) n s' = None)"
proof -
  let ?f = "replicate 12 0 @ be16_bytes 0x0800 @ ip_packet 0x0F02000A 0x0F02000A 17 (echo_dgram [104, 105])"
  have "ip_send 3 = ip_send (Suc 2)" by (simp only: numeral_3_eq_3 numeral_2_eq_2)
  then show ?thesis
    using udp_echo_storm[OF net_card_facts(1-4), of ?f 5 ?f "[]" "replicate 12 0" "[104, 105]" 2 1] net_card_facts(5-7)[of ?f]
    by (simp add: LO_QUEUE_LEN_def del: ip_send.simps)
qed

end
