(* ===== verification/Net_Connect.thy ===== *)
theory Net_Connect
  imports Inet
begin

text \<open>
  The layers together: the loopback ring as a queue of packets, and a TCP connection opened over it
  through the socket layer.
\<close>

section \<open>The loopback ring is a queue\<close>

definition queued :: "net \<Rightarrow> u8 list list \<Rightarrow> bool" where
  "queued s ps \<longleftrightarrow> lo_tail s < LO_QUEUE_LEN \<and> length ps < LO_QUEUE_LEN \<and> lo_head s = (lo_tail s + length ps) mod LO_QUEUE_LEN \<and>
     (\<forall>j < length ps. lo_ring s ((lo_tail s + j) mod LO_QUEUE_LEN) = ps ! j)"

lemma ring_slot_inj: "t < LO_QUEUE_LEN \<Longrightarrow> i < LO_QUEUE_LEN \<Longrightarrow> j < LO_QUEUE_LEN \<Longrightarrow>
  (t + i) mod LO_QUEUE_LEN = (t + j) mod LO_QUEUE_LEN \<longleftrightarrow> i = j"
  by (auto simp: LO_QUEUE_LEN_def mod_if split: if_splits)

lemma enqueue_queued:
  assumes "queued s ps" and "length ps < 15" and "length p \<le> LO_MAX_PKT"
  shows "queued (loopback_enqueue p s) (ps @ [p])"
    and "loopback_enqueue p s = s\<lparr>lo_ring := (lo_ring s)(lo_head s := p), lo_head := (lo_head s + 1) mod LO_QUEUE_LEN\<rparr>"
proof -
  let ?t = "lo_tail s" and ?n = "length ps"
  have q: "?t < LO_QUEUE_LEN" "?n + 1 < LO_QUEUE_LEN" "lo_head s = (?t + ?n) mod LO_QUEUE_LEN"
    "\<And>j. j < ?n \<Longrightarrow> lo_ring s ((?t + j) mod LO_QUEUE_LEN) = ps ! j"
    using assms(1,2) by (auto simp: queued_def LO_QUEUE_LEN_def)
  have h: "(lo_head s + 1) mod LO_QUEUE_LEN = (?t + (?n + 1)) mod LO_QUEUE_LEN" unfolding q(3) by (simp add: mod_simps)
  have "(?t + (?n + 1)) mod LO_QUEUE_LEN \<noteq> (?t + 0) mod LO_QUEUE_LEN"
    using ring_slot_inj[of ?t "?n + 1" 0] q(1,2) by (simp add: LO_QUEUE_LEN_def)
  then have "(lo_head s + 1) mod LO_QUEUE_LEN \<noteq> ?t" using h q(1) by simp
  then show e: "loopback_enqueue p s = s\<lparr>lo_ring := (lo_ring s)(lo_head s := p), lo_head := (lo_head s + 1) mod LO_QUEUE_LEN\<rparr>"
    using assms(3) by (simp add: loopback_enqueue_def Let_def)
  have "lo_ring (loopback_enqueue p s) ((?t + j) mod LO_QUEUE_LEN) = (ps @ [p]) ! j" if "j < ?n + 1" for j
  proof (cases "j = ?n")
    case False
    then have "j < ?n" using that by simp
    then show ?thesis using ring_slot_inj[of ?t j ?n] q by (auto simp: e nth_append)
  qed (simp add: e q(3))
  then show "queued (loopback_enqueue p s) (ps @ [p])" using q h by (simp add: queued_def e)
qed

lemma poll_queued:
  assumes "queued s (p # ps)" and "s' = s\<lparr>lo_tail := (lo_tail s + 1) mod LO_QUEUE_LEN\<rparr>"
  shows "ip_loopback_poll snd_ip (Suc n) s = Option.bind (ip_handle_packet snd_ip p s') (ip_loopback_poll snd_ip n)" and "queued s' ps"
proof -
  have q: "lo_tail s < LO_QUEUE_LEN" "length ps + 1 < LO_QUEUE_LEN" "lo_head s = (lo_tail s + (length ps + 1)) mod LO_QUEUE_LEN"
    "\<And>j. j < length ps + 1 \<Longrightarrow> lo_ring s ((lo_tail s + j) mod LO_QUEUE_LEN) = (p # ps) ! j"
    using assms(1) by (auto simp: queued_def)
  have "lo_tail s \<noteq> lo_head s" using ring_slot_inj[of "lo_tail s" 0 "length ps + 1"] q(1-3) by (auto simp: LO_QUEUE_LEN_def)
  moreover have "lo_ring s (lo_tail s) = p" using q(4)[of 0] q(1) by simp
  ultimately show "ip_loopback_poll snd_ip (Suc n) s = Option.bind (ip_handle_packet snd_ip p s') (ip_loopback_poll snd_ip n)"
    by (simp add: assms(2))
  have "lo_ring s (((lo_tail s + 1) mod LO_QUEUE_LEN + j) mod LO_QUEUE_LEN) = ps ! j" if "j < length ps" for j
    using q(4)[of "j + 1"] that by (simp add: mod_simps)
  moreover have "lo_head s = ((lo_tail s + 1) mod LO_QUEUE_LEN + length ps) mod LO_QUEUE_LEN" using q(3) by (simp add: mod_simps)
  ultimately show "queued s' ps" using q(2) by (simp add: queued_def assms(2) LO_QUEUE_LEN_def)
qed

lemma poll_empty: "queued s [] \<Longrightarrow> ip_loopback_poll snd_ip n s = Some s"
  by (cases n) (simp_all add: queued_def)

section \<open>A connection over the loopback interface\<close>

abbreviation LO_ADDR :: u32 where "LO_ADDR \<equiv> 0x0100007F"

text \<open>The loopback interface is up, allocations succeed, no segment is to be dropped on purpose, and
  no card has a frame waiting.\<close>

definition lo_net :: "net \<Rightarrow> bool" where
  "lo_net s \<longleftrightarrow> kmem s = [] \<and> g_tcp_drop_tx s \<le> 0 \<and> if_name (net_interfaces s 0) = ''lo'' \<and> if_ip (net_interfaces s 0) = LO_ADDR \<and>
     ((\<forall>i < NUM_IFACES. \<not> is_nic s i) \<or> nic_rx s = [])"

lemma upd_conn_outside [simp]: "nic_rx (upd_conn i f s) = nic_rx s" "echo_conns (upd_conn i f s) = echo_conns s"
  by (simp_all add: upd_conn_def)

lemma lo_net_owns: "lo_net s \<Longrightarrow> owns LO_ADDR s"
  unfolding lo_net_def owns_def by (intro exI[of _ 0]) (simp add: NUM_IFACES_def)

text \<open>A connection after it has sent a segment.\<close>

definition sent :: "u8 \<Rightarrow> u8 list \<Rightarrow> u32 \<Rightarrow> tcp_conn \<Rightarrow> tcp_conn" where
  "sent flags data t c = advance_seq flags data
     (if consumes_seq flags data
      then c\<lparr>rt_seg := Some (tcp_segment c flags data), rt_ack_seq := c_seq c + seq_space flags data, rt_sent_tick := t,
             rt_rto := TCP_RTO_INITIAL, rt_retries := 0\<rparr>
      else c)"

lemma lo_send:
  assumes "lo_net s" and "queued s ps" and "length ps < 15" and "c_dst_ip (conns s i) = LO_ADDR"
  shows "\<exists>r s'. send_segment (ip_send (Suc n)) i flags [] s = Some (r, s') \<and> lo_net s' \<and> next_isn s' = next_isn s \<and> nsocks s' = nsocks s \<and>
    echo_listen s' = echo_listen s \<and> echo_conns s' = echo_conns s \<and> queued s' (ps @ [ip_packet LO_ADDR LO_ADDR 6 (tcp_segment (conns s i) flags [])]) \<and> conns s' = (conns s)(i := sent flags [] (ticks s) (conns s i))"
proof -
  let ?seg = "tcp_segment (conns s i) flags []" let ?p = "ip_packet LO_ADDR LO_ADDR 6 ?seg"
  let ?c = "\<lambda>c. if consumes_seq flags [] then c\<lparr>rt_seg := Some ?seg, rt_ack_seq := c_seq c + seq_space flags [], rt_sent_tick := ticks s,
             rt_rto := TCP_RTO_INITIAL, rt_retries := 0\<rparr> else c"
  let ?s = "upd_conn i ?c s"
  have km: "kmem s = []" "\<not> g_tcp_drop_tx s > 0" using assms(1) by (auto simp: lo_net_def)
  have a: "(if consumes_seq flags [] then arm_retransmit i flags [] ?seg s else s) = ?s"
    using km by (simp add: arm_retransmit_def upd_conn_same)
  have o: "owns LO_ADDR ?s" "kmem ?s = []" using lo_net_owns[OF assms(1)] km by (simp_all add: owns_def)
  have d: "c_dst_ip (conns ?s i) = LO_ADDR" using assms(4) by simp
  have snd: "send_segment (ip_send (Suc n)) i flags [] s = Some (int (20 + length ?seg), upd_conn i (advance_seq flags []) (loopback_enqueue ?p ?s))"
    unfolding send_segment_def kmalloc_ok_all[OF km(1)] Let_def prod.case a
    using km ip_send_owned[OF o] d by (simp del: ip_send.simps)
  have "queued ?s ps" using assms(2) by (simp add: queued_def)
  moreover have l: "length ?p \<le> LO_MAX_PKT" by (simp add: tcp_segment_def tcp_header_def Let_def LO_MAX_PKT_def)
  ultimately have q: "queued (loopback_enqueue ?p ?s) (ps @ [?p])"
    "loopback_enqueue ?p ?s = ?s\<lparr>lo_ring := (lo_ring ?s)(lo_head ?s := ?p), lo_head := (lo_head ?s + 1) mod LO_QUEUE_LEN\<rparr>"
    using enqueue_queued[OF _ assms(3)] by blast+
  have "queued (upd_conn i (advance_seq flags []) (loopback_enqueue ?p ?s)) (ps @ [?p])" using q(1) by (simp add: queued_def)
  moreover have "lo_net (upd_conn i (advance_seq flags []) (loopback_enqueue ?p ?s))" using assms(1) by (simp add: q(2) lo_net_def is_nic_def)
  ultimately show ?thesis using snd by (simp add: q(2) sent_def fun_eq_iff)
qed


lemma lo_deliver:
  assumes "lo_net s" and "flags AND 0x3F = flags"
  shows "ip_handle_packet snd_ip (ip_packet LO_ADDR LO_ADDR 6 (tcp_segment c flags [])) s =
    (let s = s\<lparr>g_last_rx_ttl := 64\<rparr> in
     case find_conn_by_tuple LO_ADDR (c_dst_port c) (c_src_port c) s of
       None \<Rightarrow> tcp_no_conn snd_ip LO_ADDR LO_ADDR (c_dst_port c) (c_src_port c) (c_seq c) flags s
     | Some i \<Rightarrow> tcp_on_conn snd_ip i flags (c_seq c) (c_ack c) [] s)"
  using ip_handle_owned[OF lo_net_owns[OF assms(1)], of "tcp_segment c flags []" snd_ip LO_ADDR 6]
  by (simp add: tcp_segment_fields[OF assms(2)] tcp_handle_segment[OF assms(2)] Let_def)

text \<open>Fields the two ends set on the way.\<close>

lemma sent_fields [simp]:
  "c_active (sent fl d t c) = c_active c" "c_state (sent fl d t c) = c_state c" "c_src_ip (sent fl d t c) = c_src_ip c"
  "c_dst_ip (sent fl d t c) = c_dst_ip c" "c_src_port (sent fl d t c) = c_src_port c" "c_dst_port (sent fl d t c) = c_dst_port c"
  "c_ack (sent fl d t c) = c_ack c" "c_accepted (sent fl d t c) = c_accepted c" "fl AND TCP_FLAG_RST = 0 \<Longrightarrow> c_seq (sent fl d t c) = c_seq c + seq_space fl d"
  "consumes_seq fl d \<Longrightarrow> rt_ack_seq (sent fl d t c) = c_seq c + seq_space fl d" "\<not> consumes_seq fl d \<Longrightarrow> rt_seg (sent fl d t c) = rt_seg c"
  by (simp_all add: sent_def advance_seq_def Let_def)

lemma open_fields [simp]:
  "c_active (open_conn st x y p q sq ak c)" "c_state (open_conn st x y p q sq ak c) = st" "c_dst_ip (open_conn st x y p q sq ak c) = y"
  "c_src_port (open_conn st x y p q sq ak c) = p" "c_dst_port (open_conn st x y p q sq ak c) = q" "c_seq (open_conn st x y p q sq ak c) = sq"
  "c_ack (open_conn st x y p q sq ak c) = ak" "\<not> c_accepted (open_conn st x y p q sq ak c)"
  by (simp_all add: open_conn_def)

text \<open>An end that a listener on the port would hand out, and two ends of the same connection.\<close>

definition pending :: "u16 \<Rightarrow> tcp_conn \<Rightarrow> bool" where
  "pending port c \<longleftrightarrow> c_active c \<and> \<not> c_accepted c \<and> c_src_port c = port \<and> (c_state c = TCP_STATE_ESTABLISHED \<or> c_state c = TCP_STATE_CLOSE_WAIT)"

definition clashes :: "u16 \<Rightarrow> u16 \<Rightarrow> tcp_conn \<Rightarrow> bool" where
  "clashes p q c \<longleftrightarrow> c_active c \<and> c_dst_ip c = LO_ADDR \<and> (c_src_port c = p \<and> c_dst_port c = q \<or> c_src_port c = q \<and> c_dst_port c = p)"

text \<open>Slot \<open>l\<close> listens on the port and has handed out all its ends, two slots are free, and of the other
  connections none has a segment outstanding or joins the two ports already.\<close>

definition listener_ready :: "nat \<Rightarrow> u16 \<Rightarrow> u16 \<Rightarrow> net \<Rightarrow> bool" where
  "listener_ready l port p s \<longleftrightarrow> l < TCP_MAX_CONNS \<and> c_active (conns s l) \<and> c_state (conns s l) = TCP_STATE_LISTEN \<and> c_src_port (conns s l) = port \<and>
     (\<exists>i < TCP_MAX_CONNS. \<exists>j < TCP_MAX_CONNS. i \<noteq> j \<and> \<not> c_active (conns s i) \<and> \<not> c_active (conns s j)) \<and>
     (\<forall>j < TCP_MAX_CONNS. c_active (conns s j) \<longrightarrow> rt_seg (conns s j) = None \<and> \<not> clashes p port (conns s j) \<and> \<not> pending port (conns s j))"

lemma find_slot_cong: "conns s = conns t \<Longrightarrow> find_slot s = find_slot t"
  by (simp add: find_slot_def)

lemma ready_slots:
  assumes "listener_ready l port p s"
  obtains a where "find_slot s = Some a" "a < TCP_MAX_CONNS" "\<not> c_active (conns s a)"
    and "\<And>A t. c_active A \<Longrightarrow> conns t = (conns s)(a := A) \<Longrightarrow>
      \<exists>b. find_slot t = Some b \<and> b < TCP_MAX_CONNS \<and> b \<noteq> a \<and> \<not> c_active (conns s b)"
proof -
  have free: "\<exists>j < TCP_MAX_CONNS. \<not> c_active (conns s j) \<and> j \<noteq> a" for a using assms unfolding listener_ready_def by metis
  have "find_slot s \<noteq> None" using free by (auto simp: find_slot_def)
  then obtain a where a: "find_slot s = Some a" by auto
  then have al: "a < TCP_MAX_CONNS" "\<not> c_active (conns s a)" by (auto simp: find_slot_def find_idx_Some)
  have "\<exists>b. find_slot t = Some b \<and> b < TCP_MAX_CONNS \<and> b \<noteq> a \<and> \<not> c_active (conns s b)"
    if "c_active A" "conns t = (conns s)(a := A)" for A t
  proof -
    have "find_slot t \<noteq> None" using free[of a] that by (auto simp: find_slot_def)
    then obtain b where "find_slot t = Some b" by auto
    then show ?thesis using that al by (auto simp: find_slot_def find_idx_Some split: if_splits)
  qed
  with a al show thesis using that by blast
qed

lemma ready_lookup:
  assumes ready: "listener_ready l port p s" and "a < TCP_MAX_CONNS" "b < TCP_MAX_CONNS" "a \<noteq> b" "\<not> c_active (conns s a)" "\<not> c_active (conns s b)"
    and "p \<noteq> port" and A: "c_active A" "c_state A \<noteq> TCP_STATE_LISTEN" "c_dst_ip A = LO_ADDR" "c_src_port A = p" "c_dst_port A = port"
  shows "conns t = (conns s)(a := A) \<Longrightarrow> find_conn_by_tuple LO_ADDR port p t = None"
    and "conns t = (conns s)(a := A) \<Longrightarrow> find_listener port t \<noteq> None"
    and "conns t = (conns s)(a := A, b := B) \<Longrightarrow> c_src_port B = port \<Longrightarrow> find_conn_by_tuple LO_ADDR p port t = Some a"
    and "conns t = (conns s)(a := A, b := B) \<Longrightarrow> c_src_port B = port \<Longrightarrow> c_active B \<Longrightarrow> c_state B \<noteq> TCP_STATE_LISTEN \<Longrightarrow>
      c_dst_ip B = LO_ADDR \<Longrightarrow> c_dst_port B = p \<Longrightarrow> find_conn_by_tuple LO_ADDR port p t = Some b"
proof -
  have l: "l < TCP_MAX_CONNS" "l \<noteq> a" "c_active (conns s l)" "c_state (conns s l) = TCP_STATE_LISTEN" "c_src_port (conns s l) = port"
    using assms by (auto simp: listener_ready_def)
  have no: "\<And>j. j < TCP_MAX_CONNS \<Longrightarrow> \<not> clashes p port (conns s j)" using ready by (auto simp: listener_ready_def clashes_def)
  show "conns t = (conns s)(a := A) \<Longrightarrow> find_conn_by_tuple LO_ADDR port p t = None"
    using no A \<open>p \<noteq> port\<close> by (auto simp: find_conn_by_tuple_def Let_def clashes_def)
  show "conns t = (conns s)(a := A) \<Longrightarrow> find_listener port t \<noteq> None"
    using l by (auto simp: find_listener_def Let_def)
  show "find_conn_by_tuple LO_ADDR p port t = Some a" if "conns t = (conns s)(a := A, b := B)" "c_src_port B = port"
  proof -
    have "\<not> (c_active (conns t j) \<and> c_dst_ip (conns t j) = LO_ADDR \<and> c_src_port (conns t j) = p \<and> c_dst_port (conns t j) = port)"
      if "j < TCP_MAX_CONNS" "j \<noteq> a" for j
      using no[OF that(1)] that(2) \<open>conns t = _\<close> \<open>c_src_port B = port\<close> \<open>p \<noteq> port\<close> by (auto simp: clashes_def)
    moreover have "conns t a = A" using that(1) \<open>a \<noteq> b\<close> by simp
    ultimately show ?thesis using A less_trans[OF _ assms(2)] assms(2) by (simp add: find_conn_by_tuple_def find_idx_Some Let_def)
  qed
  show "find_conn_by_tuple LO_ADDR port p t = Some b" if "conns t = (conns s)(a := A, b := B)" "c_src_port B = port" "c_active B"
    "c_state B \<noteq> TCP_STATE_LISTEN" "c_dst_ip B = LO_ADDR" "c_dst_port B = p"
  proof -
    have "\<not> (c_active (conns t j) \<and> c_dst_ip (conns t j) = LO_ADDR \<and> c_src_port (conns t j) = port \<and> c_dst_port (conns t j) = p)"
      if "j < TCP_MAX_CONNS" "j \<noteq> b" for j
      using no[OF that(1)] that(2) A \<open>conns t = _\<close> \<open>p \<noteq> port\<close> by (auto simp: clashes_def)
    moreover have "conns t b = B" using that(1) by simp
    ultimately show ?thesis using that less_trans[OF _ assms(3)] assms(3) by (simp add: find_conn_by_tuple_def find_idx_Some Let_def)
  qed
qed

text \<open>The echo service has nothing to do: its listener, when there is one, has no client to adopt, and
  the clients it has are open and have sent nothing new.\<close>

definition echo_idle :: "net \<Rightarrow> bool" where
  "echo_idle s \<longleftrightarrow> echo_listen s < 0 \<or>
     (conn_id (echo_listen s) \<and> c_active (conns s (nat (echo_listen s))) \<and> c_src_port (conns s (nat (echo_listen s))) = ECHO_PORT \<and>
      (\<forall>j < TCP_MAX_CONNS. \<not> pending ECHO_PORT (conns s j)) \<and>
      (\<forall>i < ECHO_MAX. 0 \<le> echo_conns s i \<longrightarrow> conn_id (echo_conns s i) \<and> c_active (conns s (nat (echo_conns s i))) \<and>
         c_state (conns s (nat (echo_conns s i))) \<noteq> TCP_STATE_CLOSED \<and> recv_len (conns s (nat (echo_conns s i))) = 0))"

lemma echo_idle_poll:
  assumes "echo_idle s"
  shows "tcp_echo_poll snd_ip s = Some s"
proof (cases "echo_listen s < 0")
  case False
  then have e: "\<And>j. j < TCP_MAX_CONNS \<Longrightarrow> \<not> pending ECHO_PORT (conns s j)" "c_src_port (conns s (nat (echo_listen s))) = ECHO_PORT"
    using assms by (simp_all add: echo_idle_def)
  then have "tcp_accept (echo_listen s) s = (- 1, s)" by (auto simp: tcp_accept_def Let_def pending_def split: option.splits simp: find_idx_Some)
  then have ad: "echo_adopt s = s" by (simp add: echo_adopt.simps)
  have "echo_bounce snd_ip i s = Some s" if "i < ECHO_MAX" for i
    using assms False that by (auto simp: echo_idle_def echo_bounce_def Let_def tcp_state_def tcp_recv_def)
  then have "ofold (echo_bounce snd_ip) [0..<ECHO_MAX] s = Some s" by (intro ofold_stay) simp
  then show ?thesis using False ad by (simp add: tcp_echo_poll_def)
qed (simp add: tcp_echo_poll_def)

lemma echo_idle_open:
  assumes "echo_idle s" and "\<not> c_active (conns s a)" "\<not> c_active (conns s b)" and "c_src_port A \<noteq> ECHO_PORT" "c_src_port B \<noteq> ECHO_PORT"
    and "conns t = (conns s)(a := A, b := B)" "echo_listen t = echo_listen s" "echo_conns t = echo_conns s"
  shows "echo_idle t"
  using assms by (auto simp: echo_idle_def pending_def)

lemma lo_net_irrelevant [simp]:
  "lo_net (s\<lparr>lo_tail := x\<rparr>) = lo_net s" "lo_net (s\<lparr>g_last_rx_ttl := y\<rparr>) = lo_net s" "lo_net (s\<lparr>next_isn := z\<rparr>) = lo_net s"
  "lo_net (upd_conn i f s) = lo_net s" "lo_net (s\<lparr>ephemeral := e\<rparr>) = lo_net s" "lo_net (upd_sock i h s) = lo_net s"
  by (simp_all add: lo_net_def upd_sock_def is_nic_def)

lemma queued_irrelevant [simp]:
  "queued (s\<lparr>g_last_rx_ttl := y\<rparr>) = queued s" "queued (s\<lparr>next_isn := z\<rparr>) = queued s" "queued (upd_conn i f s) = queued s"
  "queued (s\<lparr>ephemeral := e\<rparr>) = queued s" "queued (upd_sock i h s) = queued s"
  by (simp_all add: queued_def upd_sock_def fun_eq_iff)

lemma sent_ack [simp]: "sent TCP_FLAG_ACK [] t c = c"
  by (simp add: sent_def)

lemma syn_no_conn:
  assumes "find_listener p s \<noteq> None" and "find_slot s = Some b"
    and "B = (open_conn TCP_STATE_SYN_RCVD x y p q (next_isn s) (sq + 1) (conns s b))\<lparr>sent_unacked := 0\<rparr>"
    and "send_segment snd_ip b (TCP_FLAG_SYN OR TCP_FLAG_ACK) [] ((upd_conn b (\<lambda>_. B) s)\<lparr>next_isn := next_isn s + 1000\<rparr>) = Some (r, s')"
  shows "tcp_no_conn snd_ip x y p q sq TCP_FLAG_SYN s = Some s'"
proof -
  have u: "upd_conn b (\<lambda>c. (open_conn TCP_STATE_SYN_RCVD x y p q (next_isn s) (sq + 1) c)\<lparr>sent_unacked := 0\<rparr>) s = upd_conn b (\<lambda>_. B) s"
    by (rule upd_conn_cong) (simp add: assms(3))
  have f: "TCP_FLAG_SYN AND TCP_FLAG_RST = 0" "TCP_FLAG_SYN AND TCP_FLAG_SYN \<noteq> 0" "TCP_FLAG_SYN AND TCP_FLAG_ACK = 0" by (simp_all add: tcp_consts)
  show ?thesis unfolding tcp_no_conn_def f(1,3) using f(2) assms(1,2,4) by (simp add: u Let_def)
qed

lemma synack_on_conn:
  assumes "A = ack_received fl ak (conns s i)" and "c_state A = TCP_STATE_SYN_SENT" and f: "fl AND TCP_FLAG_SYN \<noteq> 0" "fl AND TCP_FLAG_ACK \<noteq> 0"
    and "send_segment snd_ip i TCP_FLAG_ACK [] (upd_conn i (\<lambda>_. A\<lparr>c_ack := sq + 1, c_state := TCP_STATE_ESTABLISHED\<rparr>) s) = Some (r, s')"
  shows "tcp_on_conn snd_ip i fl sq ak [] s = Some s'"
proof -
  have u: "upd_conn i (\<lambda>c. c\<lparr>c_ack := sq + 1, c_state := TCP_STATE_ESTABLISHED\<rparr>) (upd_conn i (ack_received fl ak) s) =
      upd_conn i (\<lambda>_. A\<lparr>c_ack := sq + 1, c_state := TCP_STATE_ESTABLISHED\<rparr>) s"
    by (simp add: upd_conn_def assms(1))
  show ?thesis using assms(2,5) f by (simp add: tcp_on_conn_def u send_ack_def Let_def assms(1)[symmetric])
qed

lemma ack_on_conn: "tcp_on_conn snd_ip i TCP_FLAG_ACK sq ak [] s = Some (upd_conn i (ack_received TCP_FLAG_ACK ak) s)"
  by (simp add: tcp_on_conn_def Let_def tcp_consts)

lemma ack_received_clears:
  assumes "flags AND TCP_FLAG_ACK \<noteq> 0" and "rt_ack_seq c = ak"
  shows "rt_seg (ack_received flags ak c) = None" "c_seq (ack_received flags ak c) = c_seq c" "c_ack (ack_received flags ak c) = c_ack c"
    "c_state c = TCP_STATE_SYN_SENT \<Longrightarrow> c_state (ack_received flags ak c) = TCP_STATE_SYN_SENT"
    "c_state c = TCP_STATE_SYN_RCVD \<Longrightarrow> c_state (ack_received flags ak c) = TCP_STATE_ESTABLISHED" "c_accepted (ack_received flags ak c) = c_accepted c"
  using assms by (auto simp: ack_received_def Let_def tcp_consts)

lemma handshake_poll:
  assumes ready: "listener_ready l port p s" and "a < TCP_MAX_CONNS" "\<not> c_active (conns s a)"
    and slot: "\<forall>A t. c_active A \<longrightarrow> conns t = (conns s)(a := A) \<longrightarrow> (\<exists>b. find_slot t = Some b \<and> b < TCP_MAX_CONNS \<and> b \<noteq> a \<and> \<not> c_active (conns s b))"
    and "p \<noteq> port" and A0: "c_active A0" "c_state A0 = TCP_STATE_SYN_SENT" "c_dst_ip A0 = LO_ADDR" "c_src_port A0 = p" "c_dst_port A0 = port" "c_seq A0 = isn"
    and t: "lo_net t" "queued t [ip_packet LO_ADDR LO_ADDR 6 (tcp_segment A0 TCP_FLAG_SYN [])]"
    "conns t = (conns s)(a := sent TCP_FLAG_SYN [] tk A0)" "next_isn t = isn'"
  shows "\<exists>b A B t'. ip_loopback_poll (ip_send (Suc m)) (Suc (Suc (Suc n))) t = Some t' \<and> lo_net t' \<and> queued t' [] \<and> conns t' = (conns s)(a := A, b := B) \<and>
    b < TCP_MAX_CONNS \<and> b \<noteq> a \<and> \<not> c_active (conns s b) \<and> c_active A \<and> c_active B \<and> c_state A = TCP_STATE_ESTABLISHED \<and> c_state B = TCP_STATE_ESTABLISHED \<and>
    rt_seg A = None \<and> rt_seg B = None \<and> c_src_port A = p \<and> c_dst_port A = port \<and> c_src_port B = port \<and> c_dst_port B = p \<and>
    c_seq A = isn + 1 \<and> c_ack A = isn' + 1 \<and> c_seq B = isn' + 1 \<and> c_ack B = isn + 1 \<and> \<not> c_accepted B \<and> nsocks t' = nsocks t \<and>
    echo_listen t' = echo_listen t \<and> echo_conns t' = echo_conns t"
proof -
  let ?A = "sent TCP_FLAG_SYN [] tk A0"
  let ?t1 = "t\<lparr>lo_tail := (lo_tail t + 1) mod LO_QUEUE_LEN\<rparr>" let ?u1 = "?t1\<lparr>g_last_rx_ttl := 64\<rparr>"
  note Q1 = poll_queued[OF t(2) refl]
  obtain b where b: "find_slot ?u1 = Some b" "b < TCP_MAX_CONNS" "\<not> c_active (conns s b)" "b \<noteq> a" using slot[rule_format, of ?A ?u1] A0 t(3) by auto
  note look = ready_lookup[OF ready assms(2) b(2) b(4)[symmetric] assms(3) b(3) \<open>p \<noteq> port\<close>]
  have L1: "find_conn_by_tuple LO_ADDR port p ?u1 = None" "find_listener port ?u1 \<noteq> None"
    using look(1,2)[of ?A ?u1] A0 t(3) by (simp_all add: tcp_consts)
  let ?Bopen = "(open_conn TCP_STATE_SYN_RCVD LO_ADDR LO_ADDR port p isn' (isn + 1) (conns ?u1 b))\<lparr>sent_unacked := 0\<rparr>"
  let ?v1 = "(upd_conn b (\<lambda>_. ?Bopen) ?u1)\<lparr>next_isn := isn' + 1000\<rparr>"
  let ?SA = "TCP_FLAG_SYN OR TCP_FLAG_ACK"
  have "lo_net ?v1" "queued ?v1 []" "conns ?v1 b = ?Bopen" "c_dst_ip ?Bopen = LO_ADDR" using t(1) Q1(2) by (simp_all add: queued_def)
  from lo_send[OF this(1,2), of b m ?SA] this(3,4) obtain r2 t2 where
    T2: "send_segment (ip_send (Suc m)) b ?SA [] ?v1 = Some (r2, t2)" "lo_net t2"
    "queued t2 [ip_packet LO_ADDR LO_ADDR 6 (tcp_segment ?Bopen ?SA [])]" "conns t2 = (conns ?v1)(b := sent ?SA [] (ticks ?v1) ?Bopen)" "nsocks t2 = nsocks t"
    "echo_listen t2 = echo_listen t" "echo_conns t2 = echo_conns t" by auto
  have h1: "ip_handle_packet (ip_send (Suc m)) (ip_packet LO_ADDR LO_ADDR 6 (tcp_segment A0 TCP_FLAG_SYN [])) ?t1 = Some t2"
    using syn_no_conn[OF L1(2) b(1), of ?Bopen LO_ADDR LO_ADDR p isn "ip_send (Suc m)" r2 t2] T2(1) t(1,4) L1(1) A0
    by (subst lo_deliver) (simp_all add: Let_def del: ip_send.simps)
  let ?B = "sent ?SA [] (ticks ?v1) ?Bopen"
  have c2: "conns t2 = (conns s)(a := ?A, b := ?B)" using T2(4) t(3) b(4) by (simp add: fun_eq_iff)
  let ?t2 = "t2\<lparr>lo_tail := (lo_tail t2 + 1) mod LO_QUEUE_LEN\<rparr>" let ?u2 = "?t2\<lparr>g_last_rx_ttl := 64\<rparr>"
  note Q2 = poll_queued[OF T2(3) refl]
  have L2: "find_conn_by_tuple LO_ADDR p port ?u2 = Some a" using look(3)[of ?A ?u2 ?B] A0 c2 by (simp add: tcp_consts)
  let ?A1 = "ack_received ?SA (isn + 1) ?A" let ?A2 = "?A1\<lparr>c_ack := isn' + 1, c_state := TCP_STATE_ESTABLISHED\<rparr>"
  have sa: "?SA AND TCP_FLAG_ACK \<noteq> 0" "?SA AND TCP_FLAG_SYN \<noteq> 0" "?SA AND TCP_FLAG_RST = 0" "TCP_FLAG_SYN AND TCP_FLAG_RST = 0" "TCP_FLAG_ACK AND TCP_FLAG_ACK \<noteq> 0" by (simp_all add: tcp_consts)
  note C1 = ack_received_clears[OF sa(1), of ?A "isn + 1"]
  have A1: "c_state ?A1 = TCP_STATE_SYN_SENT" "rt_seg ?A1 = None" "c_seq ?A1 = isn + 1" using C1 A0 sa by simp_all
  let ?v2 = "upd_conn a (\<lambda>_. ?A2) ?u2"
  have "lo_net ?v2" "queued ?v2 []" "c_dst_ip (conns ?v2 a) = LO_ADDR" using T2(2) Q2(2) A0 by simp_all
  from lo_send[OF this(1,2) _ this(3), of m TCP_FLAG_ACK] obtain r3 t3 where
    T3: "send_segment (ip_send (Suc m)) a TCP_FLAG_ACK [] ?v2 = Some (r3, t3)" "lo_net t3"
    "queued t3 [ip_packet LO_ADDR LO_ADDR 6 (tcp_segment ?A2 TCP_FLAG_ACK [])]" "conns t3 = (conns t2)(a := ?A2)" "nsocks t3 = nsocks t2"
    "echo_listen t3 = echo_listen t2" "echo_conns t3 = echo_conns t2" by auto
  have h2: "ip_handle_packet (ip_send (Suc m)) (ip_packet LO_ADDR LO_ADDR 6 (tcp_segment ?Bopen ?SA [])) ?t2 = Some t3"
    using synack_on_conn[of ?A1 ?SA "isn + 1" ?u2 a "ip_send (Suc m)" isn' r3 t3] sa T3(1) T2(2) L2 A1(1) c2 b(4)
      lo_deliver[of ?t2 ?SA "ip_send (Suc m)" ?Bopen] by (simp add: Let_def del: ip_send.simps)
  let ?t3 = "t3\<lparr>lo_tail := (lo_tail t3 + 1) mod LO_QUEUE_LEN\<rparr>" let ?u3 = "?t3\<lparr>g_last_rx_ttl := 64\<rparr>"
  note Q3 = poll_queued[OF T3(3) refl]
  have c3: "conns ?u3 = (conns s)(a := ?A2, b := ?B)" using T3(4) c2 b(4) by (simp add: fun_eq_iff)
  have L3: "find_conn_by_tuple LO_ADDR port p ?u3 = Some b" using look(4)[of ?A2 ?u3 ?B] A0 c3 by (simp add: tcp_consts)
  let ?t4 = "upd_conn b (ack_received TCP_FLAG_ACK (isn' + 1)) ?u3" let ?B1 = "ack_received TCP_FLAG_ACK (isn' + 1) ?B"
  have h3: "ip_handle_packet (ip_send (Suc m)) (ip_packet LO_ADDR LO_ADDR 6 (tcp_segment ?A2 TCP_FLAG_ACK [])) ?t3 = Some ?t4"
    using T3(2) L3 A0 by (subst lo_deliver) (simp_all add: Let_def ack_on_conn del: ip_send.simps)
  note C2 = ack_received_clears[OF sa(5), of ?B "isn' + 1"]
  have B1: "c_state ?B1 = TCP_STATE_ESTABLISHED" "rt_seg ?B1 = None" "c_seq ?B1 = isn' + 1" "c_ack ?B1 = isn + 1" "\<not> c_accepted ?B1" using C2 sa by simp_all
  have "conns ?t4 = (conns s)(a := ?A2, b := ?B1)" using c3 b(4) by (simp add: fun_eq_iff)
  moreover have "queued ?t4 []" "lo_net ?t4" "nsocks ?t4 = nsocks t"
    "echo_listen ?t4 = echo_listen t" "echo_conns ?t4 = echo_conns t" using Q3(2) T3(2,5-) T2(5-) by simp_all
  moreover have "ip_loopback_poll (ip_send (Suc m)) (Suc (Suc (Suc n))) t = Some ?t4"
    unfolding Q1(1) h1 bind.bind_lunit Q2(1) h2 Q3(1) h3 using poll_empty[OF \<open>queued ?t4 []\<close>] by simp
  ultimately show ?thesis using b A0 A1 B1
    by (intro exI[of _ b] exI[of _ ?A2] exI[of _ ?B1] exI[of _ ?t4]) simp
qed

lemma lo_rest_of_poll:
  assumes "lo_net s" and "echo_idle s" and "\<And>j. j < TCP_MAX_CONNS \<Longrightarrow> c_active (conns s j) \<Longrightarrow> rt_seg (conns s j) = None" and "ip_loopback_poll (ip_send n) n t = Some s"
  shows "poll_net n t = Some s"
proof -
  have "(if is_nic s i then eth_poll (ip_send n) i s else Some s) = Some s" if "i < NUM_IFACES" for i
    using assms(1) that by (auto simp: lo_net_def eth_poll_def rtl8139_receive_packet_def)
  then have e: "ofold (\<lambda>i s. if is_nic s i then eth_poll (ip_send n) i s else Some s) [0..<NUM_IFACES] s = Some s"
    by (intro ofold_stay) simp
  have "tcp_tick (ip_send n) s = Some s"
    unfolding tcp_tick_def using assms(3) by (intro ofold_stay) (auto simp: tcp_tick_conn_def retransmit_due_def)
  then show ?thesis using assms(4) e echo_idle_poll[OF assms(2)] by (simp add: poll_net_def kernel_poll_net_def)
qed

lemma upd_sock_fields [simp]: "conns (upd_sock i f s) = conns s" "next_isn (upd_sock i f s) = next_isn s"
  by (simp_all add: upd_sock_def)

text \<open>C26: A connect over the loopback interface, to a port other than the echo service's, completes in
  one poll when the network is otherwise at rest: the call returns 0, both ends are established with each
  other's sequence numbers, nothing is left to retransmit or in the ring, the listener hands out the server
  end on the next accept, and the other connections are as they were. At rest means that the ring is
  empty and no card has a frame waiting, that no connection has a segment outstanding, that the echo service
  has nothing to adopt or to bounce, that the listener has handed out its earlier ends and that two slots
  are free; allocations succeed.\<close>

theorem tcp_loopback_connect:
  assumes lo: "lo_net s" "queued s []" "echo_idle s" and ready: "listener_ready l port (ephemeral s) s"
    and sock: "nsock_valid k s" "ns_type (nsocks s (nat k)) = SOCK_STREAM"
    and ports: "ephemeral s \<noteq> port" "port \<noteq> ECHO_PORT" "ephemeral s \<noteq> ECHO_PORT" and n: "3 \<le> n"
  shows "\<exists>a b s' s''. nsock_connect n k LO_ADDR port s = Some (0, s') \<and> ns_tcp_conn (nsocks s' (nat k)) = int a \<and>
    tcp_state (int a) s' = int TCP_STATE_ESTABLISHED \<and> tcp_state (int b) s' = int TCP_STATE_ESTABLISHED \<and>
    c_dst_port (conns s' a) = port \<and> c_src_port (conns s' b) = port \<and> c_src_port (conns s' a) = c_dst_port (conns s' b) \<and>
    c_seq (conns s' a) = c_ack (conns s' b) \<and> c_seq (conns s' b) = c_ack (conns s' a) \<and>
    rt_seg (conns s' a) = None \<and> rt_seg (conns s' b) = None \<and> queued s' [] \<and> tcp_accept (int l) s' = (int b, s'') \<and>
    \<not> c_active (conns s a) \<and> \<not> c_active (conns s b) \<and> (\<forall>j. j \<noteq> a \<and> j \<noteq> b \<longrightarrow> conns s' j = conns s j)"
proof -
  obtain m where m: "n = Suc (Suc (Suc m))" using n by (metis add.commute le_Suc_ex numeral_3_eq_3 add_Suc_right add_0_right)
  let ?S = "ip_send n" and ?p = "ephemeral s" and ?N = "next_isn s"
  obtain a where a: "find_slot s = Some a" "a < TCP_MAX_CONNS" "\<not> c_active (conns s a)"
    and slot: "\<forall>A t. c_active A \<longrightarrow> conns t = (conns s)(a := A) \<longrightarrow> (\<exists>b. find_slot t = Some b \<and> b < TCP_MAX_CONNS \<and> b \<noteq> a \<and> \<not> c_active (conns s b))"
    using ready_slots[OF ready] by blast
  let ?s = "s\<lparr>ephemeral := (if ?p + 1 \<ge> 60000 then 40000 else ?p + 1)\<rparr>"
  let ?open = "\<lambda>c. (open_conn TCP_STATE_SYN_SENT LO_ADDR LO_ADDR ?p port ?N 0 c)\<lparr>sent_unacked := 0\<rparr>"
  let ?u = "(upd_conn a ?open ?s)\<lparr>next_isn := ?N + 1000\<rparr>"
  have "lo_net ?u" "queued ?u []" "c_dst_ip (conns ?u a) = LO_ADDR" using lo(1,2) by simp_all
  from lo_send[OF this(1,2) _ this(3), of "Suc (Suc m)" TCP_FLAG_SYN] obtain r t where
    t: "send_segment ?S a TCP_FLAG_SYN [] ?u = Some (r, t)" "lo_net t" "next_isn t = ?N + 1000" "nsocks t = nsocks s"
    "echo_listen t = echo_listen s" "echo_conns t = echo_conns s"
    "queued t [ip_packet LO_ADDR LO_ADDR 6 (tcp_segment (?open (conns s a)) TCP_FLAG_SYN [])]"
    "conns t = (conns s)(a := sent TCP_FLAG_SYN [] (ticks s) (?open (conns s a)))"
    unfolding m by auto
  have "find_slot ?s = Some a" using a(1) by (simp add: find_slot_def)
  moreover have "local_source LO_ADDR ?s = Some LO_ADDR" by (simp add: local_source_def)
  ultimately have con: "tcp_connect ?S LO_ADDR port ?p ?s = Some (int a, t)" using t(1) by (simp add: tcp_connect_def)
  let ?t = "upd_sock (nat k) (\<lambda>k. k\<lparr>ns_tcp_conn := int a\<rparr>) t"
  have T: "lo_net ?t" "queued ?t [ip_packet LO_ADDR LO_ADDR 6 (tcp_segment (?open (conns s a)) TCP_FLAG_SYN [])]"
    "conns ?t = (conns s)(a := sent TCP_FLAG_SYN [] (ticks s) (?open (conns s a)))" "next_isn ?t = ?N + 1000"
    using t by simp_all
  have O: "c_active (?open (conns s a))" "c_state (?open (conns s a)) = TCP_STATE_SYN_SENT" "c_dst_ip (?open (conns s a)) = LO_ADDR"
    "c_src_port (?open (conns s a)) = ?p" "c_dst_port (?open (conns s a)) = port" "c_seq (?open (conns s a)) = ?N" by simp_all
  from handshake_poll[OF ready a(2,3) slot ports(1) O T, where m = "Suc (Suc m)" and n = m] obtain b A B t' where
    H: "ip_loopback_poll ?S n ?t = Some t'" "lo_net t'" "queued t' []" "conns t' = (conns s)(a := A, b := B)"
    and b: "b < TCP_MAX_CONNS" "b \<noteq> a" "\<not> c_active (conns s b)" and AB: "c_active A" "c_active B" "c_state A = TCP_STATE_ESTABLISHED" "c_state B = TCP_STATE_ESTABLISHED"
    "rt_seg A = None" "rt_seg B = None" "c_src_port A = ?p" "c_dst_port A = port" "c_src_port B = port" "c_dst_port B = ?p"
    "c_seq A = ?N + 1" "c_ack A = ?N + 1000 + 1" "c_seq B = ?N + 1000 + 1" "c_ack B = ?N + 1" "\<not> c_accepted B" "nsocks t' = nsocks ?t"
    and E: "echo_listen t' = echo_listen ?t" "echo_conns t' = echo_conns ?t"
    unfolding m by blast
  have none: "rt_seg (conns t' j) = None" if "j < TCP_MAX_CONNS" "c_active (conns t' j)" for j
    using that ready AB(5,6) by (auto simp: H(4) listener_ready_def split: if_splits)
  have idle: "echo_idle t'" using echo_idle_open[OF lo(3) a(3) b(3) _ _ H(4)] E t(5,6) AB ports by (simp add: upd_sock_def)
  have st: "tcp_state (int a) t' = int TCP_STATE_ESTABLISHED" "tcp_state (int b) t' = int TCP_STATE_ESTABLISHED"
    using a(2) b AB by (simp_all add: tcp_state_def conn_id_def H(4))
  have e: "(3000 :: nat) = Suc 2999" by simp
  have "connect_wait n (int a) 3000 ?t = Some (0, t')"
    unfolding e connect_wait.simps using lo_rest_of_poll[OF H(2) idle none H(1)] st(1) by simp
  then have C: "nsock_connect n k LO_ADDR port s = Some (0, t')"
    using sock con by (simp add: nsock_connect_def Let_def)
  have l: "l < TCP_MAX_CONNS" "l \<noteq> a" "l \<noteq> b" "c_active (conns s l)" "c_state (conns s l) = TCP_STATE_LISTEN" "c_src_port (conns s l) = port"
    and np: "\<And>j. j < TCP_MAX_CONNS \<Longrightarrow> \<not> pending port (conns s j)"
    using ready a(3) b(3) by (auto simp: listener_ready_def pending_def)
  have acc: "find_idx TCP_MAX_CONNS (\<lambda>i. let c = conns t' i in i \<noteq> nat (int l) \<and> c_active c \<and> \<not> c_accepted c \<and>
      c_src_port c = c_src_port (conns t' (nat (int l))) \<and> (c_state c = TCP_STATE_ESTABLISHED \<or> c_state c = TCP_STATE_CLOSE_WAIT)) = Some b"
    using l b AB ports(1) np less_trans[OF _ b(1)] by (auto simp: find_idx_Some H(4) Let_def pending_def split: if_splits)
  have "l < TCP_MAX_CONNS" "c_active (conns t' l)" "c_state (conns t' l) = TCP_STATE_LISTEN" using l by (simp_all add: H(4))
  then obtain s'' where "tcp_accept (int l) t' = (int b, s'')" using acc by (simp add: tcp_accept_def conn_id_def)
  moreover have "ns_tcp_conn (nsocks t' (nat k)) = int a" using AB(16) by (simp add: upd_sock_def)
  ultimately show ?thesis using C st H(3,4) AB a(3) b by (intro exI[of _ a] exI[of _ b] exI[of _ t'] exI[of _ s'']) simp
qed

section \<open>A concrete run\<close>

text \<open>The network as the kernel starts it, with the echo listener in slot 0, then a server on port 9 and a
  client socket.\<close>

definition started :: net where
  "started = tcp_echo_init (tcp_init net_boot)"

definition server_net :: net where
  "server_net = snd (nsock_create SOCK_STREAM (snd (tcp_listen 9 started)))"

lemma tcp_init_inactive: "j < TCP_MAX_CONNS \<Longrightarrow> \<not> c_active (conns (tcp_init s) j)"
proof -
  have "c_active (conns (fold (\<lambda>i. upd_conn i (\<lambda>c. c\<lparr>c_active := False\<rparr>)) xs s) j) \<longleftrightarrow> j \<notin> set xs \<and> c_active (conns s j)" for xs
    by (induction xs arbitrary: s) auto
  then show "j < TCP_MAX_CONNS \<Longrightarrow> \<not> c_active (conns (tcp_init s) j)" by (simp add: tcp_init_def)
qed

lemma tcp_init_keeps: "\<exists>C. tcp_init s = s\<lparr>conns := C\<rparr>"
proof -
  have "\<exists>C. fold (\<lambda>i. upd_conn i (\<lambda>c. c\<lparr>c_active := False\<rparr>)) xs s = s\<lparr>conns := C\<rparr>" for xs
  proof (induction xs arbitrary: s)
    case Nil
    show ?case by (intro exI[of _ "conns s"]) simp
  next
    case (Cons x xs)
    from Cons[of "upd_conn x (\<lambda>c. c\<lparr>c_active := False\<rparr>) s"] show ?case by (auto simp: upd_conn_def)
  qed
  then show ?thesis by (simp add: tcp_init_def)
qed

lemma listen_fresh:
  assumes "\<And>j. j < TCP_MAX_CONNS \<Longrightarrow> c_active (conns s j) \<longleftrightarrow> j < k" and "k < TCP_MAX_CONNS"
  shows "tcp_listen port s = (int k, upd_conn k (open_conn TCP_STATE_LISTEN 0 0 port 0 0 0) s)"
proof -
  have "find_slot s = Some k" using assms less_trans[OF _ assms(2)] by (simp add: find_slot_def find_idx_Some)
  then show ?thesis by (simp add: tcp_listen_def)
qed

definition listen_conn :: "u16 \<Rightarrow> tcp_conn \<Rightarrow> bool" where
  "listen_conn port c \<longleftrightarrow> c_active c \<and> c_state c = TCP_STATE_LISTEN \<and> c_src_port c = port \<and> c_dst_ip c = 0 \<and> rt_seg c = None"

lemma listen_conn_idle [simp]: "listen_conn p c \<Longrightarrow> \<not> pending q c" "listen_conn p c \<Longrightarrow> \<not> clashes q q' c"
  by (auto simp: listen_conn_def pending_def clashes_def tcp_consts)

lemma udp_register_keeps: "\<exists>U. udp_register_listener port h s = s\<lparr>udp_listeners := U\<rparr>"
proof -
  have "\<exists>U. s = s\<lparr>udp_listeners := U\<rparr>" by (intro exI[of _ "udp_listeners s"]) simp
  then show ?thesis by (auto simp: udp_register_listener_def Let_def split: option.split)
qed

lemma started_shape:
  obtains C U where "started = net_boot\<lparr>conns := C(0 := open_conn TCP_STATE_LISTEN 0 0 ECHO_PORT 0 0 0 (C 0)), echo_listen := 0,
    echo_conns := (\<lambda>i. if i < ECHO_MAX then - 1 else echo_conns net_boot i), udp_listeners := U\<rparr>" "\<And>j. j < TCP_MAX_CONNS \<Longrightarrow> \<not> c_active (C j)"
proof -
  obtain C where C: "tcp_init net_boot = net_boot\<lparr>conns := C\<rparr>" using tcp_init_keeps by blast
  have off: "\<not> c_active (C j)" if "j < TCP_MAX_CONNS" for j using tcp_init_inactive[OF that, of net_boot] C by simp
  let ?E = "\<lambda>i. if i < ECHO_MAX then - 1 else echo_conns net_boot i"
  have "tcp_listen ECHO_PORT (net_boot\<lparr>conns := C, echo_conns := ?E\<rparr>) =
      (int 0, upd_conn 0 (open_conn TCP_STATE_LISTEN 0 0 ECHO_PORT 0 0 0) (net_boot\<lparr>conns := C, echo_conns := ?E\<rparr>))"
    by (rule listen_fresh) (use off in \<open>auto simp: TCP_MAX_CONNS_def\<close>)
  moreover obtain U where "udp_register_listener ECHO_PORT (Some Udp_echo) (upd_conn 0 (open_conn TCP_STATE_LISTEN 0 0 ECHO_PORT 0 0 0)
      (net_boot\<lparr>conns := C, echo_conns := ?E\<rparr>)\<lparr>echo_listen := 0\<rparr>) = (upd_conn 0 (open_conn TCP_STATE_LISTEN 0 0 ECHO_PORT 0 0 0)
      (net_boot\<lparr>conns := C, echo_conns := ?E\<rparr>)\<lparr>echo_listen := 0\<rparr>)\<lparr>udp_listeners := U\<rparr>" using udp_register_keeps by blast
  ultimately have "started = net_boot\<lparr>conns := C(0 := open_conn TCP_STATE_LISTEN 0 0 ECHO_PORT 0 0 0 (C 0)), echo_listen := 0, echo_conns := ?E,
      udp_listeners := U\<rparr>" by (simp add: started_def tcp_echo_init_def C upd_conn_def cong: if_cong)
  with off show thesis using that by blast
qed

lemma server_net_facts:
  "lo_net server_net" "queued server_net []" "nsock_valid 0 server_net" "ns_type (nsocks server_net 0) = SOCK_STREAM" "ephemeral server_net = 40000"
  "echo_listen server_net = 0" "\<And>i. i < ECHO_MAX \<Longrightarrow> echo_conns server_net i = - 1"
  "listen_conn ECHO_PORT (conns server_net 0)" "listen_conn 9 (conns server_net 1)"
  "\<And>j. j < TCP_MAX_CONNS \<Longrightarrow> c_active (conns server_net j) \<longleftrightarrow> j < 2"
proof -
  obtain C U where st: "started = net_boot\<lparr>conns := C(0 := open_conn TCP_STATE_LISTEN 0 0 ECHO_PORT 0 0 0 (C 0)), echo_listen := 0,
    echo_conns := (\<lambda>i. if i < ECHO_MAX then - 1 else echo_conns net_boot i), udp_listeners := U\<rparr>" and off: "\<And>j. j < TCP_MAX_CONNS \<Longrightarrow> \<not> c_active (C j)"
    by (rule started_shape, rule that)
  have l: "tcp_listen 9 started = (int 1, upd_conn 1 (open_conn TCP_STATE_LISTEN 0 0 9 0 0 0) started)"
    by (rule listen_fresh) (use off in \<open>auto simp: st TCP_MAX_CONNS_def\<close>)
  have "find_idx MAX_SOCKETS (\<lambda>i. \<not> ns_in_use (nsocks (upd_conn 1 (open_conn TCP_STATE_LISTEN 0 0 9 0 0 0) started) i)) = Some 0"
    by (simp add: find_idx_Some st net_boot_facts MAX_SOCKETS_def)
  then have s: "server_net = upd_sock 0 (\<lambda>n. n\<lparr>ns_type := SOCK_STREAM, ns_tcp_conn := - 1, ns_local_port := 0, ns_listening := False,
      ns_dq := None, ns_dq_head := 0, ns_dq_tail := 0, ns_in_use := True\<rparr>) (upd_conn 1 (open_conn TCP_STATE_LISTEN 0 0 9 0 0 0) started)"
    by (simp add: server_net_def l nsock_create_def upd_sock_def SOCK_STREAM_def SOCK_DGRAM_def Let_def)
  have b: "lo_net net_boot" "queued net_boot []" "ephemeral net_boot = 40000"
    by (auto simp: lo_net_def queued_def net_boot_defs LO_QUEUE_LEN_def is_nic_def)
  show "lo_net server_net" using b(1) by (simp add: s st upd_sock_def upd_conn_def lo_net_def is_nic_def)
  show "queued server_net []" using b(2) by (simp add: s st upd_sock_def upd_conn_def queued_def)
  show "nsock_valid 0 server_net" "ns_type (nsocks server_net 0) = SOCK_STREAM" "ephemeral server_net = 40000" "echo_listen server_net = 0"
    using b(3) by (simp_all add: s st upd_conn_def upd_sock_def nsock_valid_def upd_sock_def MAX_SOCKETS_def)
  show "\<And>i. i < ECHO_MAX \<Longrightarrow> echo_conns server_net i = - 1" by (simp add: s st upd_sock_def upd_conn_def upd_sock_def)
  show "listen_conn ECHO_PORT (conns server_net 0)" "listen_conn 9 (conns server_net 1)" by (simp_all add: s st upd_conn_def upd_sock_def listen_conn_def open_conn_def)
  show "\<And>j. j < TCP_MAX_CONNS \<Longrightarrow> c_active (conns server_net j) \<longleftrightarrow> j < 2" using off by (auto simp: s st upd_conn_def upd_sock_def)
qed

theorem tcp_loopback_connect_witness:
  "\<exists>a b s' s''. nsock_connect 3 0 LO_ADDR 9 server_net = Some (0, s') \<and> tcp_state a s' = int TCP_STATE_ESTABLISHED \<and>
     tcp_state b s' = int TCP_STATE_ESTABLISHED \<and> tcp_accept 1 s' = (b, s'')"
proof -
  note f = server_net_facts
  have c: "\<not> pending q (conns server_net j) \<and> \<not> clashes q q' (conns server_net j) \<and> (c_active (conns server_net j) \<longrightarrow> rt_seg (conns server_net j) = None)"
    if "j < TCP_MAX_CONNS" for j q q'
  proof (cases "j < 2")
    case True
    then have "j = 0 \<or> j = 1" by auto
    then show ?thesis using f(8,9) by (auto simp: listen_conn_def)
  qed (use f(10)[OF that] in \<open>simp add: pending_def clashes_def\<close>)
  have "echo_idle server_net" using f(6,7,8) c by (simp add: echo_idle_def conn_id_def TCP_MAX_CONNS_def listen_conn_def)
  moreover have "\<exists>i < TCP_MAX_CONNS. \<exists>j < TCP_MAX_CONNS. i \<noteq> j \<and> \<not> c_active (conns server_net i) \<and> \<not> c_active (conns server_net j)"
    using f(10)[of 2] f(10)[of 3] by (intro exI[of _ 2] conjI exI[of _ 3]) (auto simp: TCP_MAX_CONNS_def)
  then have "listener_ready 1 9 (ephemeral server_net) server_net"
    using f(9) c by (simp add: listener_ready_def listen_conn_def) (simp add: TCP_MAX_CONNS_def)
  ultimately show ?thesis using tcp_loopback_connect[of server_net 1 9 0 3] f(1-5) by (fastforce simp: ECHO_PORT_def)
qed

end
