(* ===== verification/Printf.thy ===== *)
theory Printf
  imports Nyx_Prelude
begin

text \<open>
  Text: numbers in a base, \<open>itoa\<close> and \<open>lltoa\<close> of \<open>src/kernel/screen.c\<close>, and the formatter \<open>vsnprintf\<close> of \<open>src/kernel/kernel.c\<close>.
  A C string is the list of its bytes before the terminating zero. The variable arguments are a list of integer slots and strings
  (or the null pointer); taking an argument that is not there or not of the kind the directive asks for is undefined, and so is
  the result then.
\<close>

section \<open>Strings and numbers\<close>

definition str :: "string \<Rightarrow> u8 list" where "str = map of_char"

definition is_digit :: "u8 \<Rightarrow> bool" where "is_digit c \<longleftrightarrow> 0x30 \<le> c \<and> c \<le> 0x39"

definition digit :: "nat \<Rightarrow> u8" where "digit d = str ''0123456789abcdefghijklmnopqrstuvwxyz'' ! d"

fun udigits :: "nat \<Rightarrow> nat \<Rightarrow> u8 list" where
  "udigits base n = (if base < 2 \<or> n < base then [digit (n mod base)] else udigits base (n div base) @ [digit (n mod base)])"

declare udigits.simps [simp del]

definition MINUS :: u8 where "MINUS = 0x2D"

definition itoa :: "u32 \<Rightarrow> nat \<Rightarrow> u8 list" where
  "itoa v base =
     (if base < 2 \<or> base > 36 then []
      else if sint v < 0 \<and> base = 10 then MINUS # udigits base (unat (- v)) else udigits base (unat v))"

definition lltoa :: "u64 \<Rightarrow> nat \<Rightarrow> u8 list" where
  "lltoa v base =
     (if base < 2 \<or> base > 36 then []
      else if sint v < 0 \<and> base = 10 then MINUS # udigits base (unat (- v)) else udigits base (unat v))"

section \<open>The formatter\<close>

datatype arg = Num u64 | Text "u8 list option"

text \<open>What follows a percent sign: the width, the precision, whether the number is long, and the rest.\<close>

definition scan_num :: "u8 list \<Rightarrow> nat \<times> u8 list" where
  "scan_num f = (foldl (\<lambda>n c. n * 10 + unat (c - 0x30)) 0 (takeWhile is_digit f), dropWhile is_digit f)"

definition is_flag :: "u8 \<Rightarrow> bool" where "is_flag c \<longleftrightarrow> c \<in> set (str ''lhzt'')"

definition directive :: "u8 list \<Rightarrow> nat \<times> nat option \<times> bool \<times> u8 list" where
  "directive f =
     (let (width, f) = scan_num f;
          (prec, f) = (if f \<noteq> [] \<and> hd f = 0x2E then let (p, f) = scan_num (tl f) in (Some p, f) else (None, f));
          long_flag = 0x6C \<in> set (takeWhile is_flag f)
      in (width, prec, long_flag, dropWhile is_flag f))"

definition conversions :: "u8 list" where "conversions = str ''csdiuxXp''"

text \<open>
  The three ways to store bytes: one, a string, and a padding of zeros. Each has its own test whether fewer than
  \<open>lim\<close> bytes have been written; the limit is the signed \<open>size - 1\<close>.
\<close>

definition room :: "int \<Rightarrow> u8 list \<Rightarrow> bool" where "room lim out \<longleftrightarrow> int (length out) < lim"

definition put_byte :: "int \<Rightarrow> u8 \<Rightarrow> u8 list \<Rightarrow> u8 list" where
  "put_byte lim c out = (if room lim out then out @ [c] else out)"

fun put_string :: "int \<Rightarrow> u8 list \<Rightarrow> u8 list \<Rightarrow> u8 list" where
  "put_string lim [] out = out"
| "put_string lim (c # s) out = (if room lim out then put_string lim s (out @ [c]) else out)"

fun put_pad :: "int \<Rightarrow> nat \<Rightarrow> u8 list \<Rightarrow> u8 list" where
  "put_pad lim 0 out = out"
| "put_pad lim (Suc n) out = (if room lim out then put_pad lim n (out @ [0x30]) else out)"

definition put_number :: "int \<Rightarrow> nat \<Rightarrow> u8 list \<Rightarrow> u8 list \<Rightarrow> u8 list" where
  "put_number lim w t out = put_string lim t (if w > length t then put_pad lim (w - length t) out else out)"

text \<open>One conversion, by its letter.\<close>

definition put_conv :: "int \<Rightarrow> nat \<Rightarrow> nat option \<Rightarrow> bool \<Rightarrow> u8 \<Rightarrow> arg \<Rightarrow> u8 list \<Rightarrow> u8 list option" where
  "put_conv lim width prec long_flag c a out =
     (case a of
        Text s \<Rightarrow> if c = 0x73 then Some (put_string lim (case s of None \<Rightarrow> str ''(null)'' | Some s \<Rightarrow> s) out) else None
      | Num v \<Rightarrow>
          let w = (if long_flag then v else ucast (ucast v :: u32)) in
          if c = 0x63 then Some (put_byte lim (ucast v) out)
          else if c = 0x64 \<or> c = 0x69 then
            let val = (if long_flag then v else scast (ucast v :: u32)); neg = sint val < 0; val = (if neg then - val else val);
                t = (if long_flag then lltoa val 10 else itoa (ucast val) 10);
                out = (if neg then put_byte lim MINUS out else out)
            in Some (put_number lim (case prec of None \<Rightarrow> 0 | Some p \<Rightarrow> p) t out)
          else if c = 0x75 then Some (put_number lim width (itoa (ucast w) 10) out)
          else if c = 0x78 \<or> c = 0x58 then Some (put_number lim width (udigits 16 (unat w)) out)
          else if c = 0x70 then Some (put_string lim (itoa (ucast v) 16) (put_byte lim 0x78 (put_byte lim 0x30 out)))
          else None)"

lemma directive_length: "directive f = (w, p, l, g) \<Longrightarrow> length g \<le> length f"
  by (auto simp: directive_def scan_num_def Let_def split: if_splits
      intro!: le_trans [OF length_dropWhile_le] diff_le_mono le_trans [OF diff_le_self])

text \<open>
  One turn of the loop on a format that is not empty: the bytes written, and the format and arguments left. An
  unknown directive is copied with its percent sign.
\<close>

definition put_turn :: "int \<Rightarrow> u8 list \<Rightarrow> arg list \<Rightarrow> u8 list \<Rightarrow> (u8 list \<times> u8 list \<times> arg list) option" where
  "put_turn lim fmt args out =
     (if hd fmt \<noteq> 0x25 then Some (out @ [hd fmt], tl fmt, args)
      else if tl fmt \<noteq> [] \<and> hd (tl fmt) = 0x25 then Some (out @ [0x25], tl (tl fmt), args)
      else case directive (tl fmt) of (width, prec, long_flag, f) \<Rightarrow>
        if f \<noteq> [] \<and> hd f \<in> set conversions then
          (case args of [] \<Rightarrow> None
           | a # args \<Rightarrow> map_option (\<lambda>out. (out, tl f, args)) (put_conv lim width prec long_flag (hd f) a out))
        else let out = put_byte lim 0x25 out in
          if f \<noteq> [] \<and> room lim out then Some (out @ [hd f], tl f, args) else Some (out, f, args))"

lemma put_turn_shorter: "put_turn lim fmt args out = Some (out', fmt', args') \<Longrightarrow> fmt \<noteq> [] \<Longrightarrow> length fmt' < length fmt"
  by (cases fmt) (auto simp: put_turn_def Let_def split: if_splits list.splits prod.splits dest!: directive_length)

function vsnprintf_loop :: "int \<Rightarrow> u8 list \<Rightarrow> arg list \<Rightarrow> u8 list \<Rightarrow> u8 list option" where
  "vsnprintf_loop lim fmt args out =
     (if fmt = [] \<or> \<not> room lim out then Some out
      else case put_turn lim fmt args out of
        None \<Rightarrow> None
      | Some (out, fmt, args) \<Rightarrow> vsnprintf_loop lim fmt args out)"
  by pat_completeness auto
termination
  by (relation "measure (\<lambda>(lim, fmt, args, out). length fmt)") (auto dest: put_turn_shorter)

declare vsnprintf_loop.simps [simp del]

text \<open>The text written; the limit is computed in a signed 32-bit integer. The terminator is stored after it, whatever the size.\<close>

definition vsnprintf :: "nat \<Rightarrow> u8 list \<Rightarrow> arg list \<Rightarrow> u8 list option" where
  "vsnprintf sz fmt args = vsnprintf_loop (sint (of_nat sz :: u32) - 1) fmt args []"

definition vsnprintf_stores :: "nat \<Rightarrow> u8 list \<Rightarrow> arg list \<Rightarrow> u8 list option" where
  "vsnprintf_stores sz fmt args = map_option (\<lambda>t. t @ [0]) (vsnprintf sz fmt args)"

section \<open>The text of a format\<close>

text \<open>What a directive stands for, without a buffer.\<close>

definition emit :: "nat \<Rightarrow> u8 list \<Rightarrow> u8 list \<Rightarrow> u8 list" where "emit lim out s = out @ take (lim - length out) s"

definition pad0 :: "nat \<Rightarrow> u8 list \<Rightarrow> u8 list" where "pad0 w t = replicate (w - length t) 0x30 @ t"

definition convert :: "nat \<Rightarrow> nat option \<Rightarrow> bool \<Rightarrow> u8 \<Rightarrow> arg \<Rightarrow> u8 list option" where
  "convert width prec long_flag c a =
     (case a of
        Text s \<Rightarrow> if c = 0x73 then Some (case s of None \<Rightarrow> str ''(null)'' | Some s \<Rightarrow> s) else None
      | Num v \<Rightarrow>
          let w = (if long_flag then v else ucast (ucast v :: u32)) in
          if c = 0x63 then Some [ucast v]
          else if c = 0x64 \<or> c = 0x69 then
            let val = (if long_flag then v else scast (ucast v :: u32)); neg = sint val < 0; val = (if neg then - val else val);
                t = (if long_flag then lltoa val 10 else itoa (ucast val) 10)
            in Some ((if neg then [MINUS] else []) @ pad0 (case prec of None \<Rightarrow> 0 | Some p \<Rightarrow> p) t)
          else if c = 0x75 then Some (pad0 width (itoa (ucast w) 10))
          else if c = 0x78 \<or> c = 0x58 then Some (pad0 width (udigits 16 (unat w)))
          else if c = 0x70 then Some (str ''0x'' @ itoa (ucast v) 16)
          else None)"

definition piece :: "u8 list \<Rightarrow> arg list \<Rightarrow> (u8 list \<times> u8 list \<times> arg list) option" where
  "piece fmt args =
     (if hd fmt \<noteq> 0x25 then Some ([hd fmt], tl fmt, args)
      else if tl fmt \<noteq> [] \<and> hd (tl fmt) = 0x25 then Some ([0x25], tl (tl fmt), args)
      else case directive (tl fmt) of (width, prec, long_flag, f) \<Rightarrow>
        if f = [] then Some ([0x25], [], args)
        else if hd f \<in> set conversions then
          (case args of [] \<Rightarrow> None
           | a # args \<Rightarrow> map_option (\<lambda>t. (t, tl f, args)) (convert width prec long_flag (hd f) a))
        else Some ([0x25, hd f], tl f, args))"

lemma piece_shorter: "piece fmt args = Some (t, fmt', args') \<Longrightarrow> fmt \<noteq> [] \<Longrightarrow> length fmt' < length fmt"
  by (cases fmt) (auto simp: piece_def split: if_splits list.splits prod.splits dest!: directive_length)

function format_text :: "u8 list \<Rightarrow> arg list \<Rightarrow> u8 list option" where
  "format_text fmt args =
     (if fmt = [] then Some []
      else case piece fmt args of
        None \<Rightarrow> None
      | Some (t, fmt, args) \<Rightarrow> map_option (\<lambda>r. t @ r) (format_text fmt args))"
  by pat_completeness auto
termination
  by (relation "measure (\<lambda>(fmt, args). length fmt)") (auto dest: piece_shorter)

declare format_text.simps [simp del]

section \<open>Properties\<close>

lemma digit_10: "d < 10 \<Longrightarrow> is_digit (digit d)" "d < 10 \<Longrightarrow> ucast (digit d - 0x30) = (of_nat d :: u32)"
proof -
  have "\<forall>d\<in>set [0..<10]. is_digit (digit d) \<and> ucast (digit d - 0x30) = (of_nat d :: u32)"
    by (simp add: upt_rec is_digit_def digit_def str_def of_char_def)
  then show "d < 10 \<Longrightarrow> is_digit (digit d)" "d < 10 \<Longrightarrow> ucast (digit d - 0x30) = (of_nat d :: u32)" by auto
qed

lemma udigits_digits: "c \<in> set (udigits 10 n) \<Longrightarrow> is_digit c"
  by (induction "10 :: nat" n rule: udigits.induct) (subst (asm) (2) udigits.simps, auto simp: digit_10 split: if_splits)

lemma length_udigits: "n < 10 ^ k \<Longrightarrow> 0 < k \<Longrightarrow> length (udigits 10 n) \<le> k"
proof (induction k arbitrary: n)
  case (Suc k)
  show ?case
  proof (cases "n < 10")
    case True
    then show ?thesis by (subst udigits.simps) simp
  next
    case False
    with Suc.prems have "n div 10 < 10 ^ k" "0 < k" by (cases k; simp add: div_less_iff_less_mult mult.commute)+
    with Suc.IH [of "n div 10"] False show ?thesis by (subst udigits.simps) simp
  qed
qed simp

text \<open>The guarded stores cut the text off where the room ends.\<close>

lemma room_iff: "room (int lim) out \<longleftrightarrow> length out < lim"
  by (simp add: room_def)

lemma put_byte_emit: "put_byte (int lim) c out = emit lim out [c]"
  by (auto simp: put_byte_def emit_def room_iff)

lemma put_string_emit: "put_string (int lim) s out = emit lim out s"
proof (induction s arbitrary: out)
  case (Cons c s)
  have "lim - length out = Suc (lim - Suc (length out))" if "length out < lim" using that by simp
  with Cons show ?case by (auto simp: emit_def room_iff)
qed (simp add: emit_def)

lemma put_pad_emit: "put_pad (int lim) n out = emit lim out (replicate n 0x30)"
proof (induction n arbitrary: out)
  case (Suc n)
  have "lim - length out = Suc (lim - Suc (length out))" if "length out < lim" using that by simp
  with Suc show ?case by (auto simp: emit_def room_iff)
qed (simp add: emit_def)

lemma emit_emit: "length out \<le> lim \<Longrightarrow> emit lim (emit lim out s) t = emit lim out (s @ t)"
  by (auto simp: emit_def min_def)

lemma length_emit: "length out \<le> lim \<Longrightarrow> length (emit lim out s) \<le> lim"
  by (simp add: emit_def)

lemma put_number_emit: "length out \<le> lim \<Longrightarrow> put_number (int lim) w t out = emit lim out (pad0 w t)"
  by (simp add: put_number_def put_string_emit put_pad_emit emit_emit pad0_def)

lemma put_conv_emit:
  assumes "length out \<le> lim"
  shows "put_conv (int lim) width prec l c a out = map_option (emit lim out) (convert width prec l c a)"
proof (cases a)
  case (Num v)
  have neg: "put_number (int lim) w t (if neg then put_byte (int lim) MINUS out else out) = emit lim out ((if neg then [MINUS] else []) @ pad0 w t)" for neg w t
    using assms by (simp add: put_number_emit put_byte_emit length_emit emit_emit)
  have hex: "put_string (int lim) t (put_byte (int lim) 0x78 (put_byte (int lim) 0x30 out)) = emit lim out (str ''0x'' @ t)" for t
    using assms by (simp add: put_string_emit put_byte_emit length_emit emit_emit) (simp add: str_def of_char_def)
  show ?thesis
    using assms unfolding put_conv_def convert_def Num by (simp only: Let_def arg.case neg hex) (simp add: put_byte_emit put_number_emit)
qed (simp add: put_conv_def convert_def put_string_emit)

lemma put_turn_piece:
  assumes "piece fmt args = Some (t, f, a)" "length out < lim"
  shows "\<exists>g. put_turn (int lim) fmt args out = Some (emit lim out t, g, a) \<and> (length (emit lim out t) < lim \<longrightarrow> g = f)"
proof -
  have one: "emit lim out [c] = out @ [c]" for c using assms(2) by (simp add: emit_def)
  have two: "emit lim out [c, d] = (if length out + 1 < lim then out @ [c, d] else out @ [c])" for c d
    using assms(2) by (auto simp: emit_def take_Cons' split: if_splits)
  obtain w p l h where d: "directive (tl fmt) = (w, p, l, h)" by (metis prod_cases4)
  show ?thesis
    using assms(1) assms(2) unfolding piece_def put_turn_def d
    by (auto simp: one two put_conv_emit put_byte_def room_iff Let_def split: if_splits list.splits)
qed

lemma vsnprintf_loop_text:
  "format_text fmt args = Some t \<Longrightarrow> length out \<le> lim \<Longrightarrow> vsnprintf_loop (int lim) fmt args out = Some (emit lim out t)"
proof (induction fmt args arbitrary: out t rule: format_text.induct)
  case (1 fmt args)
  show ?case
  proof (cases "fmt = [] \<or> lim \<le> length out")
    case True
    then show ?thesis using 1(2,3) by (auto simp: format_text.simps [of fmt] vsnprintf_loop.simps room_iff emit_def)
  next
    case False
    with 1(2) obtain u f a r where p: "piece fmt args = Some (u, f, a)" "format_text f a = Some r" "t = u @ r"
      by (auto simp: format_text.simps [of fmt] split: option.splits)
    obtain g where g: "put_turn (int lim) fmt args out = Some (emit lim out u, g, a)" "length (emit lim out u) < lim \<longrightarrow> g = f"
      using put_turn_piece [OF p(1), of out lim] False by (meson linorder_not_le)
    have e: "length (emit lim out u) \<le> lim" "emit lim (emit lim out u) r = emit lim out t"
      using 1(3) by (simp_all add: length_emit emit_emit p(3))
    have step: "vsnprintf_loop (int lim) fmt args out = vsnprintf_loop (int lim) g a (emit lim out u)"
      using False g(1) by (subst vsnprintf_loop.simps) (simp add: room_iff)
    show ?thesis
    proof (cases "length (emit lim out u) < lim")
      case True
      with g(2) 1(1) [OF _ p(1) refl refl p(2) e(1)] False step e(2) show ?thesis by simp
    next
      case full: False
      then have "emit lim (emit lim out u) r = emit lim out u" by (simp add: emit_def [of lim "emit lim out u"])
      moreover have "vsnprintf_loop (int lim) g a (emit lim out u) = Some (emit lim out u)" using full by (subst vsnprintf_loop.simps) (simp add: room_iff)
      ultimately show ?thesis using step e(2) by simp
    qed
  qed
qed

lemma vsnprintf_text: "format_text fmt args = Some t \<Longrightarrow> 0 < sz \<Longrightarrow> sz < 2 ^ 31 \<Longrightarrow> vsnprintf sz fmt args = Some (take (sz - 1) t)"
  using vsnprintf_loop_text [of fmt args t "[]" "sz - 1"] by (simp add: vsnprintf_def sint_of_nat_small emit_def of_nat_diff)

text \<open>Formats are read piece by piece.\<close>

lemma format_steps:
  "format_text [] args = Some []"
  "c \<noteq> 0x25 \<Longrightarrow> format_text (c # f) args = map_option ((#) c) (format_text f args)"
  "format_text (0x25 # 0x73 # f) (Text (Some s) # args) = map_option ((@) s) (format_text f args)"
  "format_text (0x25 # 0x75 # f) (Num v # args) = map_option ((@) (itoa (ucast v) 10)) (format_text f args)"
proof -
  show "format_text [] args = Some []" by (simp add: format_text.simps)
  show "c \<noteq> 0x25 \<Longrightarrow> format_text (c # f) args = map_option ((#) c) (format_text f args)"
    by (subst format_text.simps) (simp add: piece_def cong: map_option_cong)
  have d: "directive (0x73 # f) = (0, None, False, 0x73 # f)" "directive (0x75 # f) = (0, None, False, 0x75 # f)"
    by (simp_all add: directive_def scan_num_def is_digit_def is_flag_def str_def of_char_def)
  have c: "(0x73 :: u8) \<in> set conversions" "(0x75 :: u8) \<in> set conversions"
    by (simp_all add: conversions_def str_def of_char_def)
  show "format_text (0x25 # 0x73 # f) (Text (Some s) # args) = map_option ((@) s) (format_text f args)"
    by (subst format_text.simps) (simp add: piece_def d c convert_def)
  have "ucast (ucast (ucast v :: u32) :: u64) = (ucast v :: u32)" by (rule bit_word_eqI) (simp add: bit_simps)
  then show "format_text (0x25 # 0x75 # f) (Num v # args) = map_option ((@) (itoa (ucast v) 10)) (format_text f args)"
    by (subst format_text.simps) (simp add: piece_def d c convert_def pad0_def Let_def)
qed

lemma itoa_small: "unat (v :: u32) < 2 ^ 31 \<Longrightarrow> itoa v 10 = udigits 10 (unat v)"
  using sint_of_nat_small [of "unat v"] by (simp add: itoa_def)

section \<open>Formats as a list of items\<close>

text \<open>
  A format seen from outside: bytes to copy, percent signs, and directives with a width, a precision, length letters, a conversion and its
  argument. The text of a directive is written down in terms of the number it stands for.
\<close>

datatype item = Lit u8 | Percent | Dir nat "nat option" "u8 list" u8 arg

definition render :: "item \<Rightarrow> u8 list" where
  "render x =
     (case x of
        Lit c \<Rightarrow> [c]
      | Percent \<Rightarrow> [0x25, 0x25]
      | Dir w p fl c a \<Rightarrow> 0x25 # (if w = 0 then [] else udigits 10 w) @ (case p of None \<Rightarrow> [] | Some p \<Rightarrow> 0x2E # udigits 10 p) @ fl @ [c])"

definition item_args :: "item \<Rightarrow> arg list" where
  "item_args x = (case x of Dir w p fl c a \<Rightarrow> [a] | _ \<Rightarrow> [])"

definition signed_of :: "bool \<Rightarrow> u64 \<Rightarrow> int" where "signed_of l v = (if l then sint v else sint (ucast v :: u32))"
definition unsigned_of :: "bool \<Rightarrow> u64 \<Rightarrow> nat" where "unsigned_of l v = (if l then unat v else unat (ucast v :: u32))"

definition item_text :: "item \<Rightarrow> u8 list" where
  "item_text x =
     (case x of
        Lit c \<Rightarrow> [c]
      | Percent \<Rightarrow> [0x25]
      | Dir w p fl c (Text s) \<Rightarrow> (case s of None \<Rightarrow> str ''(null)'' | Some s \<Rightarrow> s)
      | Dir w p fl c (Num v) \<Rightarrow>
          let l = 0x6C \<in> set fl; z = signed_of l v; n = unsigned_of l v in
          if c = 0x63 then [ucast v]
          else if c = 0x64 \<or> c = 0x69 then (if z < 0 then [MINUS] else []) @ pad0 (case p of None \<Rightarrow> 0 | Some p \<Rightarrow> p) (udigits 10 (nat \<bar>z\<bar>))
          else if c = 0x75 then pad0 w (udigits 10 n)
          else if c = 0x78 \<or> c = 0x58 then pad0 w (udigits 16 n)
          else str ''0x'' @ udigits 16 (unat v))"

text \<open>
  The directives for which this is what the formatter prints: a string with \<open>s\<close>, a number with the others; with \<open>d\<close> not the least number of its
  type, with \<open>u\<close> less than 2 to the 31, and with \<open>p\<close> less than 2 to the 32, since the larger ones pass through an \<open>int\<close>.
\<close>

definition item_ok :: "item \<Rightarrow> bool" where
  "item_ok x =
     (case x of
        Lit c \<Rightarrow> c \<noteq> 0x25
      | Percent \<Rightarrow> True
      | Dir w p fl c a \<Rightarrow>
          w < 2 ^ 31 \<and> (case p of None \<Rightarrow> True | Some p \<Rightarrow> p < 2 ^ 31) \<and> (\<forall>f\<in>set fl. is_flag f) \<and> c \<in> set conversions \<and>
          (case a of
             Text s \<Rightarrow> c = 0x73
           | Num v \<Rightarrow>
               c \<noteq> 0x73 \<and>
               (c = 0x64 \<or> c = 0x69 \<longrightarrow> signed_of (0x6C \<in> set fl) v \<noteq> (if 0x6C \<in> set fl then - (2 ^ 63) else - (2 ^ 31))) \<and>
               (c = 0x75 \<longrightarrow> unsigned_of (0x6C \<in> set fl) v < 2 ^ 31) \<and> (c = 0x70 \<longrightarrow> unat v < 2 ^ 32)))"

lemma scan_udigits: "foldl (\<lambda>n c. n * 10 + unat (c - 0x30)) 0 (udigits 10 n) = n"
proof (induction n rule: less_induct)
  case (less n)
  have d: "unat (digit k - 0x30) = k" if "k < 10" for k
  proof -
    have "\<forall>k\<in>set [0..<10]. unat (digit k - 0x30) = k" by (simp add: upt_rec digit_def str_def of_char_def)
    then show ?thesis using that by auto
  qed
  show ?case
  proof (cases "n < 10")
    case True
    then show ?thesis by (subst udigits.simps) (simp add: d)
  next
    case False
    with less [of "n div 10"] show ?thesis by (subst udigits.simps) (simp add: d)
  qed
qed

lemma scan_num_udigits:
  assumes "g = [] \<or> \<not> is_digit (hd g)"
  shows "scan_num (udigits 10 n @ g) = (n, g)" "scan_num g = (0, g)"
proof -
  have all: "\<forall>c\<in>set (udigits 10 n). is_digit c" using udigits_digits by blast
  have "takeWhile is_digit g = []" "dropWhile is_digit g = g" using assms by (cases g; simp)+
  with all show "scan_num (udigits 10 n @ g) = (n, g)" "scan_num g = (0, g)"
    by (simp_all add: scan_num_def scan_udigits takeWhile_append2 dropWhile_append2)
qed

lemma conversions_plain:
  assumes "c \<in> set conversions"
  shows "\<not> is_digit c" "\<not> is_flag c" "c \<noteq> 0x2E" "c \<noteq> 0x25"
  using assms by (auto simp: conversions_def is_digit_def is_flag_def str_def of_char_def)

lemma flag_plain: "is_flag c \<Longrightarrow> \<not> is_digit c \<and> c \<noteq> 0x2E \<and> c \<noteq> 0x25"
  by (auto simp: is_digit_def is_flag_def str_def of_char_def)

lemma directive_render:
  assumes "\<forall>f\<in>set fl. is_flag f" "c \<in> set conversions"
  shows "directive ((if w = 0 then [] else udigits 10 w) @ (case p of None \<Rightarrow> [] | Some p \<Rightarrow> 0x2E # udigits 10 p) @ fl @ c # rest) =
    (w, p, 0x6C \<in> set fl, c # rest)"
proof -
  let ?g = "fl @ c # rest"
  have g: "\<not> is_digit (hd ?g)" "hd ?g \<noteq> 0x2E" "?g \<noteq> []" using assms conversions_plain [OF assms(2)] flag_plain by (cases fl; auto)+
  let ?p = "(case p of None \<Rightarrow> [] | Some p \<Rightarrow> 0x2E # udigits 10 p) @ ?g"
  have dot: "\<not> is_digit 0x2E" by (simp add: is_digit_def)
  have p0: "?p = [] \<or> \<not> is_digit (hd ?p)" using g(1) dot by (cases p) auto
  have s: "scan_num ((if w = 0 then [] else udigits 10 w) @ ?p) = (w, ?p)" using scan_num_udigits [OF p0] by simp
  have fl: "takeWhile is_flag ?g = fl" "dropWhile is_flag ?g = c # rest"
    using assms conversions_plain [OF assms(2)] by (simp_all add: takeWhile_append2 dropWhile_append2)
  have q: "scan_num (udigits 10 n @ ?g) = (n, ?g)" for n by (rule scan_num_udigits(1)) (use g(1) in simp)
  show ?thesis
    unfolding directive_def s by (cases p) (simp_all add: Let_def g q fl)
qed


text \<open>The digits of a number's magnitude.\<close>

lemma magnitude:
  fixes v :: "'a::len word"
  assumes "sint v \<noteq> - (2 ^ (LENGTH('a) - 1))"
  shows "unat (if sint v < 0 then - v else v) = nat \<bar>sint v\<bar>" "nat \<bar>sint v\<bar> < 2 ^ (LENGTH('a) - 1)"
proof -
  have r: "- (2 ^ (LENGTH('a) - 1)) \<le> sint v" "sint v < 2 ^ (LENGTH('a) - 1)" using sint_ge [of v] sint_lt [of v] by simp_all
  then have b: "\<bar>sint v\<bar> < 2 ^ (LENGTH('a) - 1)" using assms by linarith
  then show "nat \<bar>sint v\<bar> < 2 ^ (LENGTH('a) - 1)" by (simp add: nat_less_iff)
  have "(if sint v < 0 then - v else v) = word_of_int \<bar>sint v\<bar>" by (simp add: abs_if flip: wi_hom_neg)
  moreover have "\<bar>sint v\<bar> < 2 ^ LENGTH('a)" using b less_le_trans [OF b, of "2 ^ LENGTH('a)"] by simp
  ultimately show "unat (if sint v < 0 then - v else v) = nat \<bar>sint v\<bar>"
    by (simp add: unsigned_of_int take_bit_int_eq_self)
qed

lemma lltoa_small: "unat (v :: u64) < 2 ^ 63 \<Longrightarrow> lltoa v 10 = udigits 10 (unat v)"
proof -
  assume "unat v < 2 ^ 63"
  then have "uint v < 2 ^ 63" unfolding uint_nat by (simp only: of_nat_less_numeral_power_cancel_iff)
  then have "signed_take_bit 63 (uint v) = uint v" by (intro signed_take_bit_int_eq_self) (use uint_ge_0 [of v] in linarith)+
  then have "sint v = uint v" by (simp add: sint_uint)
  then show ?thesis by (simp add: lltoa_def not_less)
qed

lemma ucast_minus: "ucast (- y :: u64) = - (ucast y :: u32)"
proof transfer
  fix y :: int
  have "take_bit 32 (- take_bit 64 y) = take_bit 32 (- take_bit 32 (take_bit 64 y))" by (rule take_bit_minus [symmetric])
  also have "\<dots> = take_bit 32 (- y)" by (simp add: take_bit_minus min_def)
  finally show "take_bit LENGTH(32) (take_bit LENGTH(64) (- y)) = take_bit LENGTH(32) (- take_bit LENGTH(64) y)" by (simp add: min_def)
qed

lemma convert_item:
  assumes "item_ok (Dir w p fl c a)"
  shows "convert w p (0x6C \<in> set fl) c a = Some (item_text (Dir w p fl c a))"
proof (cases a)
  case (Text s)
  with assms show ?thesis by (simp add: item_ok_def convert_def item_text_def)
next
  case (Num v)
  let ?l = "0x6C \<in> set fl"
  have ok: "c \<in> set conversions" "c \<noteq> 0x73" "c = 0x75 \<Longrightarrow> unsigned_of ?l v < 2 ^ 31" "c = 0x70 \<Longrightarrow> unat v < 2 ^ 32"
      "c = 0x64 \<or> c = 0x69 \<Longrightarrow> signed_of ?l v \<noteq> (if ?l then - (2 ^ 63) else - (2 ^ 31))"
    using assms Num by (simp_all add: item_ok_def)
  define val :: u64 where "val = (if ?l then v else scast (ucast v :: u32))"
  have "signed_take_bit 63 (sint (ucast v :: u32)) = sint (ucast v :: u32)"
    using sint_ge [of "ucast v :: u32"] sint_lt [of "ucast v :: u32"] by (intro signed_take_bit_int_eq_self) simp_all
  then have val: "sint val = signed_of ?l v" by (simp add: val_def signed_of_def signed_scast_eq)
  have d: "(if ?l then lltoa (if sint val < 0 then - val else val) 10 else itoa (ucast (if sint val < 0 then - val else val)) 10) =
      udigits 10 (nat \<bar>signed_of ?l v\<bar>)" if "c = 0x64 \<or> c = 0x69"
  proof (cases ?l)
    case True
    then have "sint v \<noteq> - (2 ^ 63)" "val = v" "sint v = signed_of ?l v" using ok(5) [OF that] by (simp_all add: val_def signed_of_def)
    with magnitude [of v] have "unat (if sint v < 0 then - v else v) = nat \<bar>signed_of ?l v\<bar>" "nat \<bar>signed_of ?l v\<bar> < 2 ^ 63" by simp_all
    then show ?thesis using lltoa_small [of "if sint v < 0 then - v else v"] True \<open>val = v\<close> by (cases "sint v < 0") simp_all
  next
    case False
    let ?u = "ucast v :: u32"
    have u: "sint ?u \<noteq> - (2 ^ 31)" "sint val = sint ?u" "sint ?u = signed_of ?l v" using False ok(5) [OF that] val by (simp_all add: signed_of_def)
    have "ucast (if sint val < 0 then - val else val) = (if sint ?u < 0 then - ?u else ?u)"
    proof -
      have "ucast (scast ?u :: u64) = ?u" by (rule bit_word_eqI) (simp add: bit_simps)
      then show ?thesis using False by (simp add: u(2) ucast_minus) (simp add: val_def)
    qed
    moreover have "unat (if sint ?u < 0 then - ?u else ?u) = nat \<bar>signed_of ?l v\<bar>" "nat \<bar>signed_of ?l v\<bar> < 2 ^ 31"
      using magnitude [of ?u] u by simp_all
    ultimately show ?thesis using itoa_small [of "if sint ?u < 0 then - ?u else ?u"] False by simp
  qed
  have n: "itoa (ucast (if ?l then v else ucast (ucast v :: u32))) 10 = udigits 10 (unsigned_of ?l v)" if "c = 0x75"
  proof -
    let ?x = "ucast (if ?l then v else ucast (ucast v :: u32)) :: u32"
    have "ucast (ucast (ucast v :: u32) :: u64) = (ucast v :: u32)" by (rule bit_word_eqI) (simp add: bit_simps)
    then have "unat ?x = unsigned_of ?l v"
      using ok(3) [OF that] by (simp add: unsigned_of_def split: if_splits) (simp add: unsigned_ucast_eq take_bit_nat_eq_self)
    then show ?thesis using ok(3) [OF that] by (simp add: itoa_small)
  qed
  have h: "unat (if ?l then v else ucast (ucast v :: u32)) = unsigned_of ?l v"
  proof -
    have "unat (ucast x :: u64) = unat x" for x :: u32 using u32_bound [of x] by (simp add: unsigned_ucast_eq take_bit_eq_mod)
    from this [of "ucast v"] show ?thesis by (simp only: unsigned_of_def if_split) simp
  qed
  have pp: "itoa (ucast v) 16 = udigits 16 (unat v)" if "c = 0x70"
    using ok(4) [OF that] by (simp add: itoa_def unsigned_ucast_eq take_bit_nat_eq_self)
  have cc: "c = 0x63 \<or> c = 0x64 \<or> c = 0x69 \<or> c = 0x75 \<or> c = 0x78 \<or> c = 0x58 \<or> c = 0x70"
    using ok(1,2) by (auto simp: conversions_def str_def of_char_def)
  show ?thesis
    using cc d n h pp val unfolding Num convert_def item_text_def Let_def arg.case item.case val_def [symmetric] by auto
qed


lemma format_items: "\<forall>x\<in>set its. item_ok x \<Longrightarrow>
  format_text (concat (map render its)) (concat (map item_args its)) = Some (concat (map item_text its))"
proof (induction its)
  case (Cons x its)
  let ?f = "concat (map render its)" and ?a = "concat (map item_args its)"
  have IH: "format_text ?f ?a = Some (concat (map item_text its))" using Cons by simp
  have "piece (render x @ ?f) (item_args x @ ?a) = Some (item_text x, ?f, ?a)"
  proof (cases x)
    case (Dir w p fl c a)
    have ok: "\<forall>f\<in>set fl. is_flag f" "c \<in> set conversions" using Cons.prems Dir by (simp_all add: item_ok_def)
    let ?d = "(if w = 0 then [] else udigits 10 w) @ (case p of None \<Rightarrow> [] | Some p \<Rightarrow> 0x2E # udigits 10 p) @ fl @ c # ?f"
    have "hd ?d \<noteq> 0x25"
    proof -
      have "udigits 10 w \<noteq> []" by (subst udigits.simps) simp
      then have "is_digit (hd (udigits 10 w))" using udigits_digits hd_in_set by blast
      then have "hd (udigits 10 w) \<noteq> 0x25" by (auto simp: is_digit_def)
      then show ?thesis using ok conversions_plain(4) [OF ok(2)] flag_plain \<open>udigits 10 w \<noteq> []\<close> by (cases p; cases fl) auto
    qed
    moreover have "render x @ ?f = 0x25 # ?d" "item_args x = [a]" by (simp_all add: Dir render_def item_args_def)
    moreover have "item_ok (Dir w p fl c a)" using Cons.prems Dir by simp
    ultimately show ?thesis using directive_render [OF ok, of w p ?f] convert_item [of w p fl c a] ok(2)
      by (simp add: piece_def Dir)
  qed (use Cons.prems in \<open>simp_all add: piece_def render_def item_args_def item_text_def item_ok_def\<close>)
  moreover have "render x \<noteq> []" by (simp add: render_def split: item.split)
  ultimately show ?case using IH by (subst format_text.simps) simp
qed (simp add: format_text.simps)

text \<open>C34: the formatter prints the text of its format, cut off at the buffer. For a format made of bytes, percent signs and directives with any
  width, precision and length letters, whose arguments are in the range the conversion handles, and a buffer of a size between 1 and 2 to the 31, what \<open>vsnprintf\<close> stores is the
  text written out for those items, as much of it as fits, and a terminator, all inside the buffer.
\<close>

theorem vsnprintf_truncates:
  assumes "\<forall>x\<in>set its. item_ok x" "0 < sz" "sz < 2 ^ 31"
  shows "\<exists>out. vsnprintf_stores sz (concat (map render its)) (concat (map item_args its)) = Some out \<and>
    out = take (sz - 1) (concat (map item_text its)) @ [0] \<and> length out \<le> sz"
  using vsnprintf_text [OF format_items [OF assms(1)] assms(2,3)] assms(2) by (auto simp: vsnprintf_stores_def)

theorem vsnprintf_truncates_witness:
  "vsnprintf_stores 6 (str ''%d of %4x'') [Num (- 7), Num 30] = Some (str ''-7 of'' @ [0])"
proof -
  let ?its = "[Dir 0 None [] 0x64 (Num (- 7)), Lit 0x20, Lit 0x6F, Lit 0x66, Lit 0x20, Dir 4 None [] 0x78 (Num 30)]"
  have ok: "\<forall>x\<in>set ?its. item_ok x"
    by (simp add: item_ok_def signed_of_def unsigned_of_def conversions_def str_def of_char_def)
  have f: "concat (map render ?its) = str ''%d of %4x''" by code_simp
  have a: "concat (map item_args ?its) = [Num (- 7), Num 30]" by (simp add: item_args_def)
  have t: "take (6 - 1) (concat (map item_text ?its)) @ [0] = str ''-7 of'' @ [0]" by code_simp
  from vsnprintf_truncates [OF ok, of 6] show ?thesis unfolding f a t by simp
qed

end
