(* ===== verification/Sha256.thy ===== *)
theory Sha256
  imports Nyx_Prelude
begin

text \<open>
  SHA-256, HMAC and PBKDF2 as \<open>src/kernel/sha256.c\<close> computes them, beside the definitions of FIPS 180-4,
  RFC 2104 and RFC 8018. The context keeps a block under construction; an array is a function from
  the index, and what a local context holds before \<open>sha256_init\<close> is arbitrary.
\<close>

section \<open>The implementation\<close>

type_synonym hash8 = "u32 \<times> u32 \<times> u32 \<times> u32 \<times> u32 \<times> u32 \<times> u32 \<times> u32"

definition SHA256_DIGEST_SIZE :: nat where "SHA256_DIGEST_SIZE = 32"
definition SHA256_BLOCK_SIZE :: nat where "SHA256_BLOCK_SIZE = 64"

record sha256_ctx =
  data :: "u8 arr"
  datalen :: nat
  bitlen :: u64
  hstate :: hash8

definition K :: "u32 list" where
  "K = concat [
    [0x428a2f98, 0x71374491, 0xb5c0fbcf, 0xe9b5dba5],
    [0x3956c25b, 0x59f111f1, 0x923f82a4, 0xab1c5ed5],
    [0xd807aa98, 0x12835b01, 0x243185be, 0x550c7dc3],
    [0x72be5d74, 0x80deb1fe, 0x9bdc06a7, 0xc19bf174],
    [0xe49b69c1, 0xefbe4786, 0x0fc19dc6, 0x240ca1cc],
    [0x2de92c6f, 0x4a7484aa, 0x5cb0a9dc, 0x76f988da],
    [0x983e5152, 0xa831c66d, 0xb00327c8, 0xbf597fc7],
    [0xc6e00bf3, 0xd5a79147, 0x06ca6351, 0x14292967],
    [0x27b70a85, 0x2e1b2138, 0x4d2c6dfc, 0x53380d13],
    [0x650a7354, 0x766a0abb, 0x81c2c92e, 0x92722c85],
    [0xa2bfe8a1, 0xa81a664b, 0xc24b8b70, 0xc76c51a3],
    [0xd192e819, 0xd6990624, 0xf40e3585, 0x106aa070],
    [0x19a4c116, 0x1e376c08, 0x2748774c, 0x34b0bcb5],
    [0x391c0cb3, 0x4ed8aa4a, 0x5b9cca4f, 0x682e6ff3],
    [0x748f82ee, 0x78a5636f, 0x84c87814, 0x8cc70208],
    [0x90befffa, 0xa4506ceb, 0xbef9a3f7, 0xc67178f2]]"

definition ROTR :: "u32 \<Rightarrow> nat \<Rightarrow> u32" where
  "ROTR a b = drop_bit b a OR push_bit (32 - b) a"

definition CH :: "u32 \<Rightarrow> u32 \<Rightarrow> u32 \<Rightarrow> u32" where
  "CH x y z = (x AND y) XOR (NOT x AND z)"

definition MAJ :: "u32 \<Rightarrow> u32 \<Rightarrow> u32 \<Rightarrow> u32" where
  "MAJ x y z = (x AND y) XOR (x AND z) XOR (y AND z)"

definition EP0 :: "u32 \<Rightarrow> u32" where "EP0 x = ROTR x 2 XOR ROTR x 13 XOR ROTR x 22"
definition EP1 :: "u32 \<Rightarrow> u32" where "EP1 x = ROTR x 6 XOR ROTR x 11 XOR ROTR x 25"
definition SIG0 :: "u32 \<Rightarrow> u32" where "SIG0 x = ROTR x 7 XOR ROTR x 18 XOR drop_bit 3 x"
definition SIG1 :: "u32 \<Rightarrow> u32" where "SIG1 x = ROTR x 17 XOR ROTR x 19 XOR drop_bit 10 x"

definition block_word :: "u8 arr \<Rightarrow> nat \<Rightarrow> u32" where
  "block_word b i = push_bit 24 (ucast (b (i * 4))) OR push_bit 16 (ucast (b (i * 4 + 1))) OR
     push_bit 8 (ucast (b (i * 4 + 2))) OR ucast (b (i * 4 + 3))"

definition schedule :: "u8 arr \<Rightarrow> u32 arr" where
  "schedule b =
     fold (\<lambda>i W. W(i := SIG1 (W (i - 2)) + W (i - 7) + SIG0 (W (i - 15)) + W (i - 16))) [16..<64]
       (\<lambda>i. if i < 16 then block_word b i else 0)"

fun round_step :: "u32 arr \<Rightarrow> nat \<Rightarrow> hash8 \<Rightarrow> hash8" where
  "round_step W i (a, b, c, d, e, f, g, h) =
     (let T1 = h + EP1 e + CH e f g + K ! i + W i; T2 = EP0 a + MAJ a b c
      in (T1 + T2, a, b, c, d + T1, e, f, g))"

fun add_state :: "hash8 \<Rightarrow> hash8 \<Rightarrow> hash8" where
  "add_state (a, b, c, d, e, f, g, h) (a', b', c', d', e', f', g', h') =
     (a + a', b + b', c + c', d + d', e + e', f + f', g + g', h + h')"

definition sha256_transform :: "sha256_ctx \<Rightarrow> sha256_ctx" where
  "sha256_transform c = c\<lparr>hstate := add_state (hstate c) (fold (round_step (schedule (data c))) [0..<64] (hstate c))\<rparr>"

definition sha256_init :: "sha256_ctx \<Rightarrow> sha256_ctx" where
  "sha256_init c = c\<lparr>datalen := 0, bitlen := 0, hstate :=
     (0x6a09e667, 0xbb67ae85, 0x3c6ef372, 0xa54ff53a, 0x510e527f, 0x9b05688c, 0x1f83d9ab, 0x5be0cd19)\<rparr>"

definition update_byte :: "u8 \<Rightarrow> sha256_ctx \<Rightarrow> sha256_ctx" where
  "update_byte b c =
     (let c = c\<lparr>data := (data c)(datalen c := b), datalen := datalen c + 1\<rparr> in
      if datalen c = SHA256_BLOCK_SIZE
      then (let c = sha256_transform c in c\<lparr>bitlen := bitlen c + of_nat (SHA256_BLOCK_SIZE * 8), datalen := 0\<rparr>)
      else c)"

definition sha256_update :: "u8 list \<Rightarrow> sha256_ctx \<Rightarrow> sha256_ctx" where
  "sha256_update bs c = fold update_byte bs c"

text \<open>\<open>while (datalen < n) data[datalen++] = 0;\<close>\<close>

function zero_fill :: "nat \<Rightarrow> sha256_ctx \<Rightarrow> sha256_ctx" where
  "zero_fill n c =
     (if datalen c < n then zero_fill n (c\<lparr>data := (data c)(datalen c := 0), datalen := datalen c + 1\<rparr>) else c)"
  by auto
termination by (relation "measure (\<lambda>(n, c). n - datalen c)") auto

declare zero_fill.simps [simp del]

definition word_bytes :: "u32 \<Rightarrow> u8 list" where
  "word_bytes w = map (\<lambda>i. ucast (drop_bit (24 - i * 8) w)) [0..<4]"

fun hash_bytes :: "hash8 \<Rightarrow> u8 list" where
  "hash_bytes (a, b, c, d, e, f, g, h) = concat (map word_bytes [a, b, c, d, e, f, g, h])"

definition sha256_final :: "sha256_ctx \<Rightarrow> u8 list" where
  "sha256_final c =
     (let bits = bitlen c + of_nat (datalen c * 8);
          c = c\<lparr>data := (data c)(datalen c := 0x80), datalen := datalen c + 1\<rparr>;
          c = (if datalen c > 56 then (sha256_transform (zero_fill SHA256_BLOCK_SIZE c))\<lparr>datalen := 0\<rparr> else c);
          c = zero_fill 56 c;
          c = c\<lparr>data := (\<lambda>i. if 56 \<le> i \<and> i < 64 then ucast (drop_bit ((63 - i) * 8) bits) else data c i)\<rparr>
      in hash_bytes (hstate (sha256_transform c)))"

definition hmac_sha256 :: "sha256_ctx \<Rightarrow> u8 list \<Rightarrow> u8 list \<Rightarrow> u8 list" where
  "hmac_sha256 ctx0 key msg =
     (let k = (if length key > SHA256_BLOCK_SIZE
               then sha256_final (sha256_update key (sha256_init ctx0)) @ replicate (SHA256_BLOCK_SIZE - SHA256_DIGEST_SIZE) 0
               else key @ replicate (SHA256_BLOCK_SIZE - length key) 0);
          ipad = map (\<lambda>b. b XOR 0x36) k; opad = map (\<lambda>b. b XOR 0x5c) k;
          inner = sha256_final (sha256_update msg (sha256_update ipad (sha256_init ctx0)))
      in sha256_final (sha256_update inner (sha256_update opad (sha256_init ctx0))))"

text \<open>
  The loop counter is a 32-bit integer: with the largest iteration count the test \<open>i \<le> iterations\<close> never
  fails, and the value is None. The block on the stack has room for a salt of 32 bytes; a longer one
  overruns it, which is also None.
\<close>

partial_function (option) pbkdf2_loop :: "(u8 list \<Rightarrow> u8 list) \<Rightarrow> u32 \<Rightarrow> u32 \<Rightarrow> u8 list \<Rightarrow> u8 list \<Rightarrow> u8 list option" where
  "pbkdf2_loop prf iterations i U T =
     (if i \<le> iterations then pbkdf2_loop prf iterations (i + 1) (prf U) (map2 (XOR) T (prf U)) else Some T)"

definition pbkdf2_hmac_sha256 :: "sha256_ctx \<Rightarrow> u8 list \<Rightarrow> u8 list \<Rightarrow> u32 \<Rightarrow> u8 list option" where
  "pbkdf2_hmac_sha256 ctx0 password salt iterations =
     (if length salt > SHA256_DIGEST_SIZE then None
      else (let U = hmac_sha256 ctx0 password (salt @ [0, 0, 0, 1])
            in pbkdf2_loop (hmac_sha256 ctx0 password) iterations 2 U U))"

definition hexdig :: string where "hexdig = ''0123456789abcdef''"

definition sha256_to_hex :: "u8 list \<Rightarrow> string" where
  "sha256_to_hex h = concat (map (\<lambda>b. [hexdig ! unat (drop_bit 4 b AND 0xF), hexdig ! unat (b AND 0xF)]) h)"

section \<open>The standards\<close>

text \<open>
  FIPS 180-4, sections 4.1.2, 5.1.1 and 6.2, on messages of bytes; the big-endian reading and writing of integers are
  arithmetic.
\<close>

definition octets :: "nat \<Rightarrow> nat \<Rightarrow> u8 list" where
  "octets k n = map (\<lambda>i. of_nat (n div 256 ^ (k - 1 - i))) [0..<k]"

definition octets_val :: "u8 list \<Rightarrow> nat" where
  "octets_val bs = foldl (\<lambda>n b. 256 * n + unat b) 0 bs"

definition fips_Sigma0 :: "u32 \<Rightarrow> u32" where "fips_Sigma0 x = word_rotr 2 x XOR word_rotr 13 x XOR word_rotr 22 x"
definition fips_Sigma1 :: "u32 \<Rightarrow> u32" where "fips_Sigma1 x = word_rotr 6 x XOR word_rotr 11 x XOR word_rotr 25 x"
definition fips_sigma0 :: "u32 \<Rightarrow> u32" where "fips_sigma0 x = word_rotr 7 x XOR word_rotr 18 x XOR drop_bit 3 x"
definition fips_sigma1 :: "u32 \<Rightarrow> u32" where "fips_sigma1 x = word_rotr 17 x XOR word_rotr 19 x XOR drop_bit 10 x"

fun fips_W :: "u8 list \<Rightarrow> nat \<Rightarrow> u32" where
  "fips_W M t =
     (if t < 16 then of_nat (octets_val (take 4 (drop (4 * t) M)))
      else fips_sigma1 (fips_W M (t - 2)) + fips_W M (t - 7) + fips_sigma0 (fips_W M (t - 15)) + fips_W M (t - 16))"

declare fips_W.simps [simp del]

primrec fips_rounds :: "u8 list \<Rightarrow> hash8 \<Rightarrow> nat \<Rightarrow> hash8" where
  "fips_rounds M H 0 = H"
| "fips_rounds M H (Suc t) =
     (let (a, b, c, d, e, f, g, h) = fips_rounds M H t;
          T1 = h + fips_Sigma1 e + ((e AND f) XOR (NOT e AND g)) + K ! t + fips_W M t;
          T2 = fips_Sigma0 a + ((a AND b) XOR (a AND c) XOR (b AND c))
      in (T1 + T2, a, b, c, d + T1, e, f, g))"

definition fips_compress :: "u8 list \<Rightarrow> hash8 \<Rightarrow> hash8" where
  "fips_compress M H = add_state H (fips_rounds M H 64)"

definition fips_pad :: "u8 list \<Rightarrow> u8 list" where
  "fips_pad m = m @ [0x80] @ replicate ((119 - length m mod 64) mod 64) 0 @ octets 8 (8 * length m)"

fun blocks :: "u8 list \<Rightarrow> u8 list list" where
  "blocks m = (if length m < 64 then [] else take 64 m # blocks (drop 64 m))"

declare blocks.simps [simp del]

definition fips_H0 :: hash8 where
  "fips_H0 = (0x6a09e667, 0xbb67ae85, 0x3c6ef372, 0xa54ff53a, 0x510e527f, 0x9b05688c, 0x1f83d9ab, 0x5be0cd19)"

fun hash_words :: "hash8 \<Rightarrow> u32 list" where
  "hash_words (a, b, c, d, e, f, g, h) = [a, b, c, d, e, f, g, h]"

definition fips_sha256 :: "u8 list \<Rightarrow> u8 list" where
  "fips_sha256 m = concat (map (octets 4 \<circ> unat) (hash_words (fold fips_compress (blocks (fips_pad m)) fips_H0)))"

text \<open>RFC 2104 with block length 64, and RFC 8018 for one block of output.\<close>

definition rfc_hmac :: "u8 list \<Rightarrow> u8 list \<Rightarrow> u8 list" where
  "rfc_hmac key m =
     (let k0 = (if length key > 64 then fips_sha256 key else key); k = k0 @ replicate (64 - length k0) 0
      in fips_sha256 (map (\<lambda>b. b XOR 0x5c) k @ fips_sha256 (map (\<lambda>b. b XOR 0x36) k @ m)))"

primrec rfc_U :: "u8 list \<Rightarrow> u8 list \<Rightarrow> nat \<Rightarrow> u8 list" where
  "rfc_U p s 0 = rfc_hmac p (s @ [0, 0, 0, 1])"
| "rfc_U p s (Suc n) = rfc_hmac p (rfc_U p s n)"

primrec rfc_F :: "u8 list \<Rightarrow> u8 list \<Rightarrow> nat \<Rightarrow> u8 list" where
  "rfc_F p s 0 = rfc_U p s 0"
| "rfc_F p s (Suc n) = map2 (XOR) (rfc_F p s n) (rfc_U p s (Suc n))"

definition rfc_pbkdf2 :: "u8 list \<Rightarrow> u8 list \<Rightarrow> nat \<Rightarrow> u8 list" where
  "rfc_pbkdf2 p s c = rfc_F p s (c - 1)"

section \<open>Words and rounds\<close>

lemma ROTR_rotr:
  assumes "b < 32"
  shows "ROTR x b = word_rotr b x"
proof (rule bit_word_eqI)
  fix n :: nat
  assume "n < LENGTH(32)"
  with assms show "bit (ROTR x b) n = bit (word_rotr b x) n"
    by (auto simp: ROTR_def bit_simps mod_if add.commute [of n b] dest: bit_imp_le_length)
qed

lemma sigma_eq: "EP0 x = fips_Sigma0 x" "EP1 x = fips_Sigma1 x" "SIG0 x = fips_sigma0 x" "SIG1 x = fips_sigma1 x"
  by (simp_all add: EP0_def EP1_def SIG0_def SIG1_def fips_Sigma0_def fips_Sigma1_def fips_sigma0_def fips_sigma1_def ROTR_rotr)

lemma be_word_add:
  fixes a b c d :: u8
  shows "push_bit 24 (ucast a) OR push_bit 16 (ucast b) OR push_bit 8 (ucast c) OR ucast d =
    (of_nat (256 * (256 * (256 * unat a + unat b) + unat c) + unat d) :: u32)"
proof -
  have "push_bit 24 (ucast a) OR push_bit 16 (ucast b) OR push_bit 8 (ucast c) OR (ucast d :: u32) =
      push_bit 24 (ucast a) + (push_bit 16 (ucast b) + (push_bit 8 (ucast c) + (ucast d :: u32)))"
    by (subst disjunctive_add, force simp: bit_simps dest: bit_imp_le_length)+ simp
  also have "\<dots> = of_nat (256 * (256 * (256 * unat a + unat b) + unat c) + unat d)"
    by (simp add: push_bit_eq_mult algebra_simps of_nat_unat)
  finally show ?thesis .
qed

lemma take4: "4 * t + 4 \<le> length M \<Longrightarrow> take 4 (drop (4 * t) M) = [M ! (4 * t), M ! (4 * t + 1), M ! (4 * t + 2), M ! (4 * t + 3)]"
  by (rule nth_equalityI) (auto simp: less_Suc_eq numeral_eq_Suc)

lemma block_word_fips:
  assumes "length M = 64" "\<And>i. i < 64 \<Longrightarrow> b i = M ! i" "t < 16"
  shows "block_word b t = fips_W M t"
  using assms by (simp add: block_word_def fips_W.simps be_word_add octets_val_def take4 mult.commute [of t 4])

lemma schedule_step:
  assumes "\<forall>t<n. V t = fips_W M t" "16 \<le> n"
  shows "\<forall>t<Suc n. (V(n := SIG1 (V (n - 2)) + V (n - 7) + SIG0 (V (n - 15)) + V (n - 16))) t = fips_W M t"
  using assms by (simp add: less_Suc_eq all_conj_distrib sigma_eq fips_W.simps [of M n])

lemma schedule_fips:
  assumes "length M = 64" "\<And>i. i < 64 \<Longrightarrow> b i = M ! i" "t < 64"
  shows "schedule b t = fips_W M t"
proof -
  let ?f = "\<lambda>i W. W(i := SIG1 (W (i - 2)) + W (i - 7) + SIG0 (W (i - 15)) + W (i - 16))"
  let ?W = "\<lambda>i. if i < 16 then block_word b i else 0"
  have "16 \<le> n \<Longrightarrow> n \<le> 64 \<Longrightarrow> \<forall>t<n. fold ?f [16..<n] ?W t = fips_W M t" for n
  proof (induction n rule: dec_induct)
    case base
    then show ?case using assms by (simp add: block_word_fips)
  next
    case (step n)
    then have "\<forall>t<n. fold ?f [16..<n] ?W t = fips_W M t" by (simp del: fun_upd_apply)
    from schedule_step [OF this] step.hyps show ?case by (simp del: fun_upd_apply)
  qed
  from this [of 64] assms(3) show ?thesis unfolding schedule_def by (simp del: upt_rec_numeral fun_upd_apply)
qed

lemma rounds_fips:
  assumes "length M = 64" "\<And>i. i < 64 \<Longrightarrow> b i = M ! i" "n \<le> 64"
  shows "fold (round_step (schedule b)) [0..<n] H = fips_rounds M H n"
  using assms(3)
proof (induction n)
  case (Suc n)
  then show ?case
    by (simp add: schedule_fips [OF assms(1,2)] sigma_eq CH_def MAJ_def Let_def split: prod.split)
qed simp

lemma transform_fips:
  assumes "length M = 64" "\<And>i. i < 64 \<Longrightarrow> data c i = M ! i"
  shows "sha256_transform c = c\<lparr>hstate := fips_compress M (hstate c)\<rparr>"
  using rounds_fips [OF assms, of 64] by (simp add: sha256_transform_def fips_compress_def del: upt_rec_numeral)

section \<open>Padding and blocks\<close>

lemma blocks_append:
  assumes "length xs mod 64 = 0"
  shows "blocks (xs @ ys) = blocks xs @ blocks ys"
  using assms
proof (induction xs rule: blocks.induct)
  case (1 xs)
  show ?case
  proof (cases "length xs < 64")
    case True
    with 1 have "xs = []" by simp
    then show ?thesis by (simp add: blocks.simps [of "[]"])
  next
    case False
    with 1 show ?thesis by (simp add: blocks.simps [of "xs @ ys"] blocks.simps [of xs] mod_if [of "length xs"])
  qed
qed

lemma blocks_one: "length B = 64 \<Longrightarrow> blocks B = [B]"
  by (simp add: blocks.simps [of B] blocks.simps [of "[]"])

lemma blocks_two: "length xs mod 64 = 0 \<Longrightarrow> length B = 64 \<Longrightarrow> length C = 64 \<Longrightarrow> blocks (xs @ B @ C) = blocks xs @ [B, C]"
  by (simp add: blocks_append blocks_one)

lemma blocks_nil: "blocks [] = []"
  by (simp add: blocks.simps)

text \<open>The context after the bytes \<open>m\<close>: the whole blocks are compressed, the rest is in the buffer.\<close>

definition absorbed :: "u8 list \<Rightarrow> sha256_ctx \<Rightarrow> bool" where
  "absorbed m c \<longleftrightarrow>
     (\<exists>xs r. m = xs @ r \<and> length xs mod 64 = 0 \<and> length r < 64 \<and> datalen c = length r \<and>
        (\<forall>i<length r. data c i = r ! i) \<and> hstate c = fold fips_compress (blocks xs) fips_H0 \<and>
        bitlen c = of_nat (8 * length xs))"

lemma absorbed_init: "absorbed [] (sha256_init c)"
  by (simp add: absorbed_def sha256_init_def blocks_nil fips_H0_def)

lemma absorbed_byte:
  assumes "absorbed m c"
  shows "absorbed (m @ [b]) (update_byte b c)"
proof -
  from assms obtain xs r where m: "m = xs @ r" "length xs mod 64 = 0" "length r < 64" "datalen c = length r"
      "\<forall>i<length r. data c i = r ! i" "hstate c = fold fips_compress (blocks xs) fips_H0" "bitlen c = of_nat (8 * length xs)"
    unfolding absorbed_def by (elim exE conjE) (rule that)
  let ?c = "c\<lparr>data := (data c)(datalen c := b), datalen := datalen c + 1\<rparr>"
  have d: "i < length (r @ [b]) \<Longrightarrow> data ?c i = (r @ [b]) ! i" for i
    using m by (auto simp: nth_append less_Suc_eq)
  show ?thesis
  proof (cases "length r = 63")
    case True
    then have "sha256_transform ?c = ?c\<lparr>hstate := fips_compress (r @ [b]) (hstate ?c)\<rparr>"
      using d by (intro transform_fips) auto
    with m True show ?thesis
      unfolding absorbed_def
      by (intro exI [of _ "xs @ r @ [b]"] exI [of _ "[]"])
        (simp add: update_byte_def SHA256_BLOCK_SIZE_def blocks_append blocks_one mod_add_left_eq [symmetric, of "length xs"])
  next
    case False
    with m d show ?thesis
      unfolding absorbed_def
      by (intro exI [of _ xs] exI [of _ "r @ [b]"])
        (simp add: update_byte_def SHA256_BLOCK_SIZE_def)
  qed
qed

lemma absorbed_update:
  assumes "absorbed m c"
  shows "absorbed (m @ bs) (sha256_update bs c)"
  using assms
proof (induction bs arbitrary: m c)
  case (Cons b bs)
  from Cons.IH [OF absorbed_byte [OF Cons.prems, of b]] show ?case by (simp add: sha256_update_def)
qed (simp add: sha256_update_def)

lemma absorbed_updates: "absorbed m c \<Longrightarrow> absorbed (m @ concat ms) (fold sha256_update ms c)"
proof (induction ms arbitrary: m c)
  case (Cons bs ms)
  from Cons.IH [OF absorbed_update [OF Cons.prems, of bs]] show ?case by simp
qed simp

lemma drop_bit_octet:
  assumes "8 * e + 8 \<le> LENGTH('a::len)"
  shows "ucast (drop_bit (8 * e) (of_nat n :: 'a word)) = (of_nat (n div 256 ^ e) :: u8)"
proof -
  have "n div 256 ^ e = drop_bit (8 * e) n"
    by (simp add: drop_bit_eq_div power_mult)
  with assms show ?thesis
    by (intro bit_word_eqI) (auto simp: bit_simps)
qed

lemma word_bytes_octets: "word_bytes w = octets 4 (unat w)"
proof -
  have "ucast (drop_bit (24 - i * 8) w) = (of_nat (unat w div 256 ^ (4 - 1 - i)) :: u8)" if "i < 4" for i
    using drop_bit_octet [of "3 - i" "unat w", where 'a = 32] that
    by (simp add: diff_mult_distrib mult.commute [of 8])
  then show ?thesis by (simp add: word_bytes_def octets_def)
qed

lemma hash_bytes_octets: "hash_bytes H = concat (map (octets 4 \<circ> unat) (hash_words H))"
  by (cases H rule: hash_words.cases) (simp add: word_bytes_octets)

lemma length_octets [simp]: "length (octets k n) = k"
  by (simp add: octets_def)

lemma zero_fill_eq:
  "zero_fill n c = c\<lparr>data := (\<lambda>i. if datalen c \<le> i \<and> i < n then 0 else data c i), datalen := max (datalen c) n\<rparr>"
proof (induction n c rule: zero_fill.induct)
  case (1 n c)
  show ?case
  proof (cases "datalen c < n")
    case True
    with 1 have "zero_fill n c = c\<lparr>data := (\<lambda>i. if Suc (datalen c) \<le> i \<and> i < n then 0 else ((data c)(datalen c := 0)) i), datalen := n\<rparr>"
      by (simp add: zero_fill.simps [of n c] max_def cong: if_cong)
    also have "(\<lambda>i. if Suc (datalen c) \<le> i \<and> i < n then 0 else ((data c)(datalen c := 0)) i) =
        (\<lambda>i. if datalen c \<le> i \<and> i < n then 0 else data c i)"
      using True by (auto simp: fun_eq_iff)
    finally show ?thesis using True by (simp add: max_def)
  next
    case False
    then have "(\<lambda>i. if datalen c \<le> i \<and> i < n then 0 else data c i) = data c" by (auto simp: fun_eq_iff)
    with False show ?thesis by (simp add: zero_fill.simps [of n c] max_def)
  qed
qed

text \<open>The padding gives one more block when the rest leaves room for the length, and two otherwise.\<close>

lemma blocks_pad:
  assumes "m = xs @ r" "length xs mod 64 = 0" "length r < 64"
  shows "blocks (fips_pad m) = blocks xs @
    (if length r < 56 then [r @ [0x80] @ replicate (55 - length r) 0 @ octets 8 (8 * length m)]
     else [r @ [0x80] @ replicate (63 - length r) 0, replicate 56 0 @ octets 8 (8 * length m)])"
proof -
  have r: "length m mod 64 = length r"
    using assms by (simp add: mod_add_left_eq [symmetric, of "length xs"])
  show ?thesis
  proof (cases "length r < 56")
    case True
    then have "(119 - length r) mod 64 = 55 - length r" by (simp add: mod_if)
    with True assms r show ?thesis by (simp add: fips_pad_def blocks_append blocks_one)
  next
    case False
    then have "replicate ((119 - length r) mod 64) (0 :: u8) = replicate (63 - length r) 0 @ replicate 56 0"
      using assms by (simp add: mod_if flip: replicate_add)
    with assms r have "fips_pad m = xs @ (r @ [0x80] @ replicate (63 - length r) 0) @ replicate 56 0 @ octets 8 (8 * length m)"
      by (simp add: fips_pad_def)
    then have "blocks (fips_pad m) = blocks xs @ [r @ [0x80] @ replicate (63 - length r) 0, replicate 56 0 @ octets 8 (8 * length m)]"
      using assms by (simp only:) (rule blocks_two; simp)
    with False show ?thesis by simp
  qed
qed

lemma length_bytes:
  "(\<lambda>i. if 56 \<le> i \<and> i < 64 then ucast (drop_bit ((63 - i) * 8) (of_nat n :: u64)) else d i) =
   (\<lambda>i. if 56 \<le> i \<and> i < 64 then octets 8 n ! (i - 56) else d i)"
proof -
  have "ucast (drop_bit ((63 - i) * 8) (of_nat n :: u64)) = octets 8 n ! (i - 56)" if "56 \<le> i" "i < 64" for i
  proof -
    from that have "8 - 1 - (i - 56) = 63 - i" by simp
    with that show ?thesis
      using drop_bit_octet [of "63 - i" n, where 'a = 64] by (simp add: octets_def mult.commute [of 8])
  qed
  then show ?thesis by (simp add: fun_eq_iff)
qed

definition with_length :: "nat \<Rightarrow> sha256_ctx \<Rightarrow> sha256_ctx" where
  "with_length n c = c\<lparr>data := (\<lambda>i. if 56 \<le> i \<and> i < 64 then octets 8 n ! (i - 56) else data c i)\<rparr>"

definition with_mark :: "sha256_ctx \<Rightarrow> sha256_ctx" where
  "with_mark c = c\<lparr>data := (data c)(datalen c := 0x80), datalen := datalen c + 1\<rparr>"

lemma final_one_block:
  assumes "length r < 56" "datalen c = length r" "\<forall>i<length r. data c i = r ! i"
  shows "hstate (sha256_transform (with_length n (zero_fill 56 (with_mark c)))) =
    fips_compress (r @ [0x80] @ replicate (55 - length r) 0 @ octets 8 n) (hstate c)"
proof -
  have "data (with_length n (zero_fill 56 (with_mark c))) i = (r @ [0x80] @ replicate (55 - length r) 0 @ octets 8 n) ! i"
    if "i < 64" for i
    using that assms by (auto simp: with_length_def with_mark_def zero_fill_eq nth_append nth_Cons')
  then show ?thesis
    using assms by (subst transform_fips) (auto simp: with_length_def with_mark_def zero_fill_eq)
qed

lemma final_two_blocks:
  assumes "56 \<le> length r" "length r < 64" "datalen c = length r" "\<forall>i<length r. data c i = r ! i"
  shows "hstate (sha256_transform (with_length n (zero_fill 56 ((sha256_transform (zero_fill 64 (with_mark c)))\<lparr>datalen := 0\<rparr>)))) =
    fips_compress (replicate 56 0 @ octets 8 n) (fips_compress (r @ [0x80] @ replicate (63 - length r) 0) (hstate c))"
proof -
  have "data (zero_fill 64 (with_mark c)) i = (r @ [0x80] @ replicate (63 - length r) 0) ! i" if "i < 64" for i
    using that assms by (auto simp: with_mark_def zero_fill_eq nth_append nth_Cons')
  then have first: "sha256_transform (zero_fill 64 (with_mark c)) =
      (zero_fill 64 (with_mark c))\<lparr>hstate := fips_compress (r @ [0x80] @ replicate (63 - length r) 0) (hstate c)\<rparr>"
    using assms by (subst transform_fips) (auto simp: with_mark_def zero_fill_eq)
  show ?thesis
    unfolding first
    by (subst transform_fips [of "replicate 56 0 @ octets 8 n"])
      (auto simp: with_length_def with_mark_def zero_fill_eq nth_append)
qed

lemma final_fips:
  assumes "absorbed m c"
  shows "sha256_final c = fips_sha256 m"
proof -
  from assms obtain xs r where m: "m = xs @ r" "length xs mod 64 = 0" "length r < 64" "datalen c = length r"
      "\<forall>i<length r. data c i = r ! i" "hstate c = fold fips_compress (blocks xs) fips_H0" "bitlen c = of_nat (8 * length xs)"
    unfolding absorbed_def by (elim exE conjE) (rule that)
  have bits: "bitlen c + of_nat (datalen c * 8) = of_nat (8 * length m)"
    using m by (simp add: algebra_simps)
  have "sha256_final c = hash_bytes (hstate (sha256_transform (with_length (8 * length m) (zero_fill 56
      (if datalen (with_mark c) > 56 then (sha256_transform (zero_fill 64 (with_mark c)))\<lparr>datalen := 0\<rparr> else with_mark c)))))"
    unfolding sha256_final_def bits Let_def with_length_def with_mark_def length_bytes SHA256_BLOCK_SIZE_def ..
  also have "datalen (with_mark c) > 56 \<longleftrightarrow> \<not> length r < 56"
    using m by (auto simp: with_mark_def)
  finally show ?thesis
    using m by (simp add: fips_sha256_def blocks_pad hash_bytes_octets final_one_block final_two_blocks not_less)
qed

section \<open>The properties\<close>

text \<open>Hashing a message fed in any number of pieces gives the FIPS 180-4 digest of the whole message, whatever the
  context held before \<open>sha256_init\<close>.
\<close>

theorem sha256_is_fips:
  "sha256_final (fold sha256_update ms (sha256_init ctx0)) = fips_sha256 (concat ms)"
  using absorbed_updates [OF absorbed_init, of ms ctx0] by (simp add: final_fips)

lemma sha256_once: "sha256_final (sha256_update m (sha256_init ctx0)) = fips_sha256 m"
  using final_fips [OF absorbed_update [OF absorbed_init]] by simp

lemma sha256_twice: "sha256_final (sha256_update m (sha256_update k (sha256_init ctx0))) = fips_sha256 (k @ m)"
  using final_fips [OF absorbed_update [OF absorbed_update [OF absorbed_init]]] by simp

lemma length_fips_sha256 [simp]: "length (fips_sha256 m) = 32"
  by (cases "fold fips_compress (blocks (fips_pad m)) fips_H0" rule: hash_words.cases) (simp add: fips_sha256_def)

lemma hmac_is_rfc: "hmac_sha256 ctx0 key msg = rfc_hmac key msg"
  by (simp add: hmac_sha256_def rfc_hmac_def sha256_once sha256_twice SHA256_BLOCK_SIZE_def SHA256_DIGEST_SIZE_def Let_def)

lemma pbkdf2_loop_rfc:
  assumes "unat iterations < 2 ^ 32 - 1" "2 \<le> unat i" "unat i \<le> unat iterations + 1"
  shows "pbkdf2_loop (rfc_hmac p) iterations i (rfc_U p s (unat i - 2)) (rfc_F p s (unat i - 2)) = Some (rfc_F p s (unat iterations - 1))"
  using assms
proof (induction "unat iterations + 1 - unat i" arbitrary: i)
  case 0
  then have "unat i = unat iterations + 1" by simp
  then show ?case by (simp add: pbkdf2_loop.simps [of _ _ i] word_le_nat_alt)
next
  case (Suc k)
  then have le: "i \<le> iterations" and i: "unat (i + 1) = Suc (unat i)" "Suc (unat i) - 2 = Suc (unat i - 2)"
    by (auto simp: word_le_nat_alt unat_word_ariths)
  with Suc(1) [of "i + 1"] Suc(2-) show ?case
    by (simp add: pbkdf2_loop.simps [of _ _ i])
qed

lemma pbkdf2_loop_ends: "pbkdf2_loop h iterations i U T = Some r \<Longrightarrow> iterations \<noteq> - 1"
proof (erule pbkdf2_loop.raw_induct [where P = "\<lambda>h iterations i U T r. iterations \<noteq> - 1", rotated])
  fix loop and h :: "u8 list \<Rightarrow> u8 list" and iterations i :: u32 and U T r
  assume IH: "\<And>h iterations i U T r. loop h iterations i U T = Some r \<Longrightarrow> iterations \<noteq> - 1"
    and "(if i \<le> iterations then loop h iterations (i + 1) (h U) (map2 (XOR) T (h U)) else Some T) = Some r"
  then show "iterations \<noteq> - 1" by (cases "i \<le> iterations") auto
qed

lemma pbkdf2_loop_endless: "pbkdf2_loop h (- 1) i U T = None"
  using pbkdf2_loop_ends [of h "- 1" i U T] by (cases "pbkdf2_loop h (- 1) i U T") auto

lemma pbkdf2_value:
  assumes "length salt \<le> 32"
  shows "pbkdf2_hmac_sha256 ctx0 password salt iterations =
    (if iterations = - 1 then None else Some (rfc_pbkdf2 password salt (unat iterations)))"
proof (cases "iterations = - 1 \<or> iterations = 0")
  case True
  then show ?thesis
    using assms
    by (auto simp: pbkdf2_hmac_sha256_def SHA256_DIGEST_SIZE_def Let_def pbkdf2_loop_endless
        hmac_is_rfc [abs_def] rfc_pbkdf2_def pbkdf2_loop.simps [of _ 0])
next
  case False
  have "unat (- 1 :: u32) = 2 ^ 32 - 1"
    by (simp add: unsigned_minus_1_eq_mask mask_eq_exp_minus_1)
  with False have "unat iterations \<noteq> 2 ^ 32 - 1" by (metis word_unat_eq_iff)
  moreover have "unat iterations < 2 ^ 32" using unsigned_less [of iterations] by simp
  ultimately have "unat iterations < 2 ^ 32 - 1" by linarith
  moreover from False have "0 < unat iterations" by (simp add: unat_gt_0)
  ultimately show ?thesis
    using False assms pbkdf2_loop_rfc [of iterations 2 password salt]
    by (simp add: pbkdf2_hmac_sha256_def SHA256_DIGEST_SIZE_def Let_def hmac_is_rfc [abs_def] rfc_pbkdf2_def)
qed

lemma length_rfc_hmac [simp]: "length (rfc_hmac k m) = 32"
  by (simp add: rfc_hmac_def Let_def)

lemma length_rfc_F: "length (rfc_F p s n) = 32 \<and> length (rfc_U p s n) = 32"
  by (induction n) simp_all

lemma length_rfc_pbkdf2 [simp]: "length (rfc_pbkdf2 p s n) = 32"
  using length_rfc_F by (simp add: rfc_pbkdf2_def)

text \<open>C28: the key derivation is PBKDF2 of RFC 8018 over HMAC of RFC 2104 over SHA-256, for every password, every salt of at
  most 32 bytes and every iteration count but the largest; with that one the loop never ends.
\<close>

theorem pbkdf2_is_rfc:
  assumes "length salt \<le> 32"
  shows "pbkdf2_hmac_sha256 ctx0 password salt iterations =
    (if iterations = - 1 then None else Some (rfc_pbkdf2 password salt (unat iterations)))"
  using assms by (rule pbkdf2_value)

theorem pbkdf2_is_rfc_witness:
  "pbkdf2_hmac_sha256 \<lparr>data = (\<lambda>_. 0), datalen = 0, bitlen = 0, hstate = fips_H0\<rparr> [0x61] [1, 2, 3] 10000 =
    Some (rfc_pbkdf2 [0x61] [1, 2, 3] 10000)"
  using pbkdf2_is_rfc [of "[1, 2, 3]" "\<lparr>data = (\<lambda>_. 0), datalen = 0, bitlen = 0, hstate = fips_H0\<rparr>" "[0x61]" 10000] by simp

end
