(* ===== verification/Ext2_Disk.thy ===== *)
theory Ext2_Disk
  imports Nyx_Prelude
begin

text \<open>
  The block layer of the ext2 driver, \<open>src/kernel/ext2.c\<close>: sectors, blocks, the superblock, group descriptors,
  inodes, the two bitmaps and the clock. A packed on-disk structure (\<open>ext2_superblock_t\<close>, \<open>ext2_bgd_t\<close>,
  \<open>ext2_inode_t\<close>) is the list of its bytes, a field is read and stored at its offset, and \<open>memcpy\<close> moves bytes.

  The five staging buffers carry no data from one call to the next, and by the division of roles in the
  comment of the source no function finds its buffer overwritten while it still reads it; a buffer is
  therefore the list read into it, and only whether \<open>get_buf_n\<close> can provide it is kept, in \<open>bufs\<close>. A drive
  answers every request: the code never looks at the result of \<open>ata_read_sectors\<close>.
\<close>

section \<open>Bytes\<close>

definition get16 :: "u8 list \<Rightarrow> nat \<Rightarrow> u16" where
  "get16 b i = ucast (b ! i) OR push_bit 8 (ucast (b ! (i + 1)))"

definition get32 :: "u8 list \<Rightarrow> nat \<Rightarrow> u32" where
  "get32 b i = ucast (b ! i) OR push_bit 8 (ucast (b ! (i + 1))) OR push_bit 16 (ucast (b ! (i + 2))) OR
     push_bit 24 (ucast (b ! (i + 3)))"

definition poke :: "u8 list \<Rightarrow> nat \<Rightarrow> u8 list \<Rightarrow> u8 list" where
  "poke b i v = take i b @ v @ drop (i + length v) b"

abbreviation put16 :: "u8 list \<Rightarrow> nat \<Rightarrow> u16 \<Rightarrow> u8 list" where "put16 b i v \<equiv> poke b i (le_bytes 2 v)"
abbreviation put32 :: "u8 list \<Rightarrow> nat \<Rightarrow> u32 \<Rightarrow> u8 list" where "put32 b i v \<equiv> poke b i (le_bytes 4 v)"

section \<open>State\<close>

record rtc_time =
  second :: u8
  minute :: u8
  hour :: u8
  day :: u8
  month :: u8
  year :: u16

record ext2_fs =
  drive :: u8
  part_start_lba :: u32
  sb :: "u8 list"
  block_size :: u32
  inodes_per_group :: u32
  blocks_per_group :: u32
  bgd_blocks :: u32
  bgd_block :: u32
  inode_size :: u32
  bufs :: "nat \<Rightarrow> bool"
  disk :: "u8 \<times> u32 \<Rightarrow> u8 list"
  clock :: rtc_time

definition EXT2_SUPER_MAGIC :: u16 where "EXT2_SUPER_MAGIC = 0xEF53"
definition EXT2_ROOT_INO :: u32 where "EXT2_ROOT_INO = 2"
definition EXT2_S_IFREG :: u16 where "EXT2_S_IFREG = 0x8000"
definition EXT2_S_IFDIR :: u16 where "EXT2_S_IFDIR = 0x4000"
definition EXT2_FT_REG_FILE :: u8 where "EXT2_FT_REG_FILE = 1"
definition EXT2_FT_DIR :: u8 where "EXT2_FT_DIR = 2"
definition SB_SIZE :: nat where "SB_SIZE = 1024"
definition BGD_SIZE :: nat where "BGD_SIZE = 32"
definition INODE_SIZE :: nat where "INODE_SIZE = 128"

definition sb_total_blocks :: "u8 list \<Rightarrow> u32" where "sb_total_blocks b = get32 b 4"
definition sb_free_blocks :: "u8 list \<Rightarrow> u32" where "sb_free_blocks b = get32 b 12"
definition sb_free_inodes :: "u8 list \<Rightarrow> u32" where "sb_free_inodes b = get32 b 16"
definition sb_first_data_block :: "u8 list \<Rightarrow> u32" where "sb_first_data_block b = get32 b 20"
definition sb_log_block_size :: "u8 list \<Rightarrow> u32" where "sb_log_block_size b = get32 b 24"
definition sb_blocks_per_group :: "u8 list \<Rightarrow> u32" where "sb_blocks_per_group b = get32 b 32"
definition sb_inodes_per_group :: "u8 list \<Rightarrow> u32" where "sb_inodes_per_group b = get32 b 40"
definition sb_magic :: "u8 list \<Rightarrow> u16" where "sb_magic b = get16 b 56"
definition sb_inode_size :: "u8 list \<Rightarrow> u16" where "sb_inode_size b = get16 b 88"

definition block_bitmap :: "u8 list \<Rightarrow> u32" where "block_bitmap b = get32 b 0"
definition inode_bitmap :: "u8 list \<Rightarrow> u32" where "inode_bitmap b = get32 b 4"
definition inode_table :: "u8 list \<Rightarrow> u32" where "inode_table b = get32 b 8"
definition free_blocks_count :: "u8 list \<Rightarrow> u16" where "free_blocks_count b = get16 b 12"
definition free_inodes_count :: "u8 list \<Rightarrow> u16" where "free_inodes_count b = get16 b 14"
definition used_dirs_count :: "u8 list \<Rightarrow> u16" where "used_dirs_count b = get16 b 16"

definition i_mode :: "u8 list \<Rightarrow> u16" where "i_mode b = get16 b 0"
definition i_size :: "u8 list \<Rightarrow> u32" where "i_size b = get32 b 4"
definition i_links :: "u8 list \<Rightarrow> u16" where "i_links b = get16 b 26"
definition i_block :: "u8 list \<Rightarrow> nat \<Rightarrow> u32" where "i_block b k = get32 b (40 + 4 * k)"

definition set_mode :: "u16 \<Rightarrow> u8 list \<Rightarrow> u8 list" where "set_mode v b = put16 b 0 v"
definition set_size :: "u32 \<Rightarrow> u8 list \<Rightarrow> u8 list" where "set_size v b = put32 b 4 v"
definition set_atime :: "u32 \<Rightarrow> u8 list \<Rightarrow> u8 list" where "set_atime v b = put32 b 8 v"
definition set_ctime :: "u32 \<Rightarrow> u8 list \<Rightarrow> u8 list" where "set_ctime v b = put32 b 12 v"
definition set_mtime :: "u32 \<Rightarrow> u8 list \<Rightarrow> u8 list" where "set_mtime v b = put32 b 16 v"
definition set_dtime :: "u32 \<Rightarrow> u8 list \<Rightarrow> u8 list" where "set_dtime v b = put32 b 20 v"
definition set_links :: "u16 \<Rightarrow> u8 list \<Rightarrow> u8 list" where "set_links v b = put16 b 26 v"
definition set_blocks_512 :: "u32 \<Rightarrow> u8 list \<Rightarrow> u8 list" where "set_blocks_512 v b = put32 b 28 v"
definition set_block :: "nat \<Rightarrow> u32 \<Rightarrow> u8 list \<Rightarrow> u8 list" where "set_block k v b = put32 b (40 + 4 * k) v"

section \<open>Sectors and blocks\<close>

text \<open>The command registers of the drive hold 28 bits of a sector number.\<close>

definition ata_read_sector :: "u8 \<Rightarrow> u32 \<Rightarrow> ext2_fs \<Rightarrow> u8 list" where
  "ata_read_sector drv lba s = disk s (drv, lba AND 0x0FFFFFFF)"

definition ata_write_sector :: "u8 \<Rightarrow> u32 \<Rightarrow> u8 list \<Rightarrow> ext2_fs \<Rightarrow> ext2_fs" where
  "ata_write_sector drv lba b s = s\<lparr>disk := (disk s)((drv, lba AND 0x0FFFFFFF) := b)\<rparr>"

definition read_sectors :: "u32 \<Rightarrow> nat \<Rightarrow> ext2_fs \<Rightarrow> u8 list" where
  "read_sectors lba n s = concat (map (\<lambda>i. ata_read_sector (drive s) (part_start_lba s + lba + of_nat i) s) [0..<n])"

definition write_sectors :: "u32 \<Rightarrow> nat \<Rightarrow> u8 list \<Rightarrow> ext2_fs \<Rightarrow> ext2_fs" where
  "write_sectors lba n b s =
     fold (\<lambda>i s. ata_write_sector (drive s) (part_start_lba s + lba + of_nat i) (take 512 (drop (i * 512) b)) s) [0..<n] s"

definition block_to_lba :: "u32 \<Rightarrow> ext2_fs \<Rightarrow> u32" where
  "block_to_lba block s = block * (block_size s div 512)"

definition ext2_read_block :: "u32 \<Rightarrow> ext2_fs \<Rightarrow> u8 list" where
  "ext2_read_block block s =
     concat (map (\<lambda>i. read_sectors (block_to_lba block s + of_nat i) 1 s) [0..<unat (block_size s div 512)])"

definition ext2_write_block :: "u32 \<Rightarrow> u8 list \<Rightarrow> ext2_fs \<Rightarrow> ext2_fs" where
  "ext2_write_block block b s =
     fold (\<lambda>i s. write_sectors (block_to_lba block s + of_nat i) 1 (take 512 (drop (i * 512) b)) s)
       [0..<unat (block_size s div 512)] s"

section \<open>The clock\<close>

definition ext2_now :: "ext2_fs \<Rightarrow> u32" where
  "ext2_now s =
     (let t = clock s in
      if year t < 1970 \<or> month t < 1 \<or> month t > 12 then 0
      else let y = int (unat (year t)); m = (ucast (month t) :: u32);
               d = (if day t \<noteq> 0 then ucast (day t) else 1 :: u32);
               y = y - (if m \<le> 2 then 1 else 0);
               era = (if y \<ge> 0 then y else y - 399) div 400;
               yoe = (word_of_int (y - era * 400) :: u32);
               doy = (153 * (m + (if m > 2 then - 3 else 9)) + 2) div 5 + d - 1;
               doe = yoe * 365 + yoe div 4 - yoe div 100 + doy;
               days = era * 146097 + int (unat doe) - 719468
           in word_of_int (days * 86400 + int (unat (hour t)) * 3600 + int (unat (minute t)) * 60 + int (unat (second t))))"

section \<open>Mounting\<close>

definition ext2_mount :: "u8 \<Rightarrow> u32 \<Rightarrow> ext2_fs \<Rightarrow> int \<times> ext2_fs" where
  "ext2_mount drv part_lba s =
     (let s = s\<lparr>drive := drv, part_start_lba := part_lba\<rparr>;
          s = s\<lparr>sb := take SB_SIZE (read_sectors 2 2 s)\<rparr>
      in if sb_magic (sb s) \<noteq> EXT2_SUPER_MAGIC then (- 1, s)
      else if sb_log_block_size (sb s) > 2 then (- 1, s)
      else let s = s\<lparr>block_size := push_bit (unat (sb_log_block_size (sb s))) 1024,
                     inodes_per_group := sb_inodes_per_group (sb s), blocks_per_group := sb_blocks_per_group (sb s),
                     inode_size := (if sb_inode_size (sb s) \<noteq> 0 then ucast (sb_inode_size (sb s)) else 128)\<rparr>
      in if inodes_per_group s = 0 \<or> blocks_per_group s = 0 then (- 1, s)
      else if inode_size s < 128 \<or> inode_size s > block_size s then (- 1, s)
      else if blocks_per_group s > block_size s * 8 then (- 1, s)
      else if inodes_per_group s > block_size s * 8 then (- 1, s)
      else let s = s\<lparr>bgd_block := (if block_size s = 1024 then 2 else 1)\<rparr>;
               block_groups = (sb_total_blocks (sb s) + blocks_per_group s - 1) div blocks_per_group s;
               bgd_size = block_groups * 32
      in (0, s\<lparr>bgd_blocks := (bgd_size + block_size s - 1) div block_size s\<rparr>))"

section \<open>Group descriptors and inodes\<close>

text \<open>The block of a group descriptor, and the position of the descriptor in it.\<close>

definition bgd_place :: "u32 \<Rightarrow> ext2_fs \<Rightarrow> u32 \<times> nat" where
  "bgd_place g s =
     (let bgd_per_block = block_size s div 32
      in (bgd_block s + g div bgd_per_block, unat (g mod bgd_per_block) * BGD_SIZE))"

definition read_block_group_bgd :: "u32 \<Rightarrow> ext2_fs \<Rightarrow> u8 list option" where
  "read_block_group_bgd g s =
     (let (block, off) = bgd_place g s
      in if \<not> bufs s 4 then None else Some (take BGD_SIZE (drop off (ext2_read_block block s))))"

definition write_bgd :: "u32 \<Rightarrow> u8 list \<Rightarrow> ext2_fs \<Rightarrow> ext2_fs" where
  "write_bgd g bgd s =
     (let (block, off) = bgd_place g s
      in if \<not> bufs s 4 then s else ext2_write_block block (poke (ext2_read_block block s) off bgd) s)"

text \<open>The block of an inode and the position of the inode in it, given the group's descriptor.\<close>

definition inode_place :: "u32 \<Rightarrow> u8 list \<Rightarrow> ext2_fs \<Rightarrow> u32 \<times> nat" where
  "inode_place ino bgd s =
     (let index = (ino - 1) mod inodes_per_group s; inodes_per_block = block_size s div inode_size s
      in (inode_table bgd + index div inodes_per_block, unat ((index mod inodes_per_block) * inode_size s)))"

definition ext2_read_inode :: "u32 \<Rightarrow> ext2_fs \<Rightarrow> u8 list option" where
  "ext2_read_inode ino s =
     (if ino = 0 then None
      else case read_block_group_bgd ((ino - 1) div inodes_per_group s) s of
        None \<Rightarrow> None
      | Some bgd \<Rightarrow>
          let (block, off) = inode_place ino bgd s
          in if \<not> bufs s 4 then None else Some (take INODE_SIZE (drop off (ext2_read_block block s))))"

definition ext2_write_inode :: "u32 \<Rightarrow> u8 list \<Rightarrow> ext2_fs \<Rightarrow> int \<times> ext2_fs" where
  "ext2_write_inode ino inode s =
     (if ino = 0 then (- 1, s)
      else case read_block_group_bgd ((ino - 1) div inodes_per_group s) s of
        None \<Rightarrow> (- 1, s)
      | Some bgd \<Rightarrow>
          let (block, off) = inode_place ino bgd s
          in if \<not> bufs s 0 then (- 1, s)
             else (0, ext2_write_block block (poke (ext2_read_block block s) off inode) s))"

text \<open>
  The block a file keeps at position \<open>iblock\<close>. The position is a \<open>nat\<close>: a block has at most 1024 pointers, so the
  32-bit arithmetic of the code does not wrap.
\<close>

definition ptrs_per_block :: "ext2_fs \<Rightarrow> nat" where
  "ptrs_per_block s = unat (block_size s div 4)"

definition ext2_read_inode_block :: "u8 list \<Rightarrow> nat \<Rightarrow> ext2_fs \<Rightarrow> u8 list option" where
  "ext2_read_inode_block inode iblock s =
     (let ptrs = ptrs_per_block s in
      if iblock < 12 then
        (if i_block inode iblock = 0 then None else Some (ext2_read_block (i_block inode iblock) s))
      else let iblock = iblock - 12 in
      if iblock < ptrs then
        (if i_block inode 12 = 0 then None
         else let indirect = ext2_read_block (i_block inode 12) s in
           if get32 indirect (4 * iblock) = 0 then None else Some (ext2_read_block (get32 indirect (4 * iblock)) s))
      else let iblock = iblock - ptrs in
      if iblock < ptrs * ptrs then
        (if i_block inode 13 = 0 then None
         else let dindirect = ext2_read_block (i_block inode 13) s; block_idx = get32 dindirect (4 * (iblock div ptrs)) in
           if block_idx = 0 then None
           else let indirect = ext2_read_block block_idx s; target = get32 indirect (4 * (iblock mod ptrs)) in
             if target = 0 then None else Some (ext2_read_block target s))
      else None)"

section \<open>Summary counters\<close>

definition bgd_adjust_dir_count :: "int \<Rightarrow> ext2_fs \<Rightarrow> ext2_fs" where
  "bgd_adjust_dir_count delta s =
     (case read_block_group_bgd 0 s of
        None \<Rightarrow> s
      | Some bgd \<Rightarrow>
          let bgd = (if delta > 0 then put16 bgd 16 (used_dirs_count bgd + 1)
                     else if used_dirs_count bgd > 0 then put16 bgd 16 (used_dirs_count bgd - 1) else bgd)
          in write_bgd 0 bgd s)"

definition ext2_sync_bgd :: "u32 \<Rightarrow> ext2_fs \<Rightarrow> int \<times> ext2_fs" where
  "ext2_sync_bgd g s =
     (case read_block_group_bgd g s of None \<Rightarrow> (- 1, s) | Some bgd \<Rightarrow> (0, write_bgd g bgd s))"

definition ext2_sync_superblock :: "ext2_fs \<Rightarrow> ext2_fs" where
  "ext2_sync_superblock s = write_sectors 2 2 (poke (replicate 1024 0) 0 (sb s)) s"

section \<open>Bitmaps\<close>

definition find_free_bit :: "u8 list \<Rightarrow> nat \<Rightarrow> nat option" where
  "find_free_bit bitmap size_bits = find_idx size_bits (\<lambda>i. bitmap ! (i div 8) AND mask_bit (i mod 8) = 0)"

definition bit_to_block :: "u32 \<Rightarrow> ext2_fs \<Rightarrow> u32" where "bit_to_block b s = sb_first_data_block (sb s) + b"
definition block_to_bit :: "u32 \<Rightarrow> ext2_fs \<Rightarrow> u32" where "block_to_bit b s = b - sb_first_data_block (sb s)"

definition set_bit_at :: "nat \<Rightarrow> u8 list \<Rightarrow> u8 list" where
  "set_bit_at i b = b[i div 8 := b ! (i div 8) OR mask_bit (i mod 8)]"

definition clear_bit_at :: "nat \<Rightarrow> u8 list \<Rightarrow> u8 list" where
  "clear_bit_at i b = b[i div 8 := b ! (i div 8) AND NOT (mask_bit (i mod 8))]"

text \<open>At most one block of bits, whatever the superblock claims.\<close>

definition group_bits :: "u32 \<Rightarrow> ext2_fs \<Rightarrow> nat" where
  "group_bits n s = unat (if n > block_size s * 8 then block_size s * 8 else n)"

definition ext2_alloc_block :: "ext2_fs \<Rightarrow> u32 \<times> ext2_fs" where
  "ext2_alloc_block s =
     (case read_block_group_bgd 0 s of
        None \<Rightarrow> (0, s)
      | Some bgd \<Rightarrow>
          if \<not> bufs s 1 then (0, s)
          else let buf = ext2_read_block (block_bitmap bgd) s in
          case find_free_bit buf (group_bits (blocks_per_group s) s) of
            None \<Rightarrow> (0, s)
          | Some i \<Rightarrow>
              let block_num = bit_to_block (of_nat i) s in
              if block_num \<ge> sb_total_blocks (sb s) then (0, s)
              else let s = ext2_write_block (block_bitmap bgd) (set_bit_at i buf) s;
                       bgd = (if free_blocks_count bgd > 0 then put16 bgd 12 (free_blocks_count bgd - 1) else bgd);
                       s = write_bgd 0 bgd s;
                       s = (if sb_free_blocks (sb s) > 0 then s\<lparr>sb := put32 (sb s) 12 (sb_free_blocks (sb s) - 1)\<rparr> else s);
                       s = ext2_write_block block_num (replicate (unat (block_size s)) 0) s
                   in (block_num, s))"

definition ext2_alloc_inode :: "ext2_fs \<Rightarrow> u32 \<times> ext2_fs" where
  "ext2_alloc_inode s =
     (case read_block_group_bgd 0 s of
        None \<Rightarrow> (0, s)
      | Some bgd \<Rightarrow>
          if \<not> bufs s 0 then (0, s)
          else let buf = ext2_read_block (inode_bitmap bgd) s in
          case find_free_bit buf (group_bits (inodes_per_group s) s) of
            None \<Rightarrow> (0, s)
          | Some i \<Rightarrow>
              let s = ext2_write_block (inode_bitmap bgd) (set_bit_at i buf) s;
                  bgd = (if free_inodes_count bgd > 0 then put16 bgd 14 (free_inodes_count bgd - 1) else bgd);
                  s = write_bgd 0 bgd s;
                  s = (if sb_free_inodes (sb s) > 0 then s\<lparr>sb := put32 (sb s) 16 (sb_free_inodes (sb s) - 1)\<rparr> else s)
              in (of_nat i + 1, s))"

definition ext2_free_block :: "u32 \<Rightarrow> ext2_fs \<Rightarrow> ext2_fs" where
  "ext2_free_block block_num s =
     (if block_num < sb_first_data_block (sb s) then s
      else let b = block_to_bit block_num s in
      if b \<ge> block_size s * 8 then s
      else case read_block_group_bgd 0 s of
        None \<Rightarrow> s
      | Some bgd \<Rightarrow>
          if \<not> bufs s 1 then s
          else let buf = ext2_read_block (block_bitmap bgd) s; i = unat b in
          if buf ! (i div 8) AND mask_bit (i mod 8) \<noteq> 0
          then let s = ext2_write_block (block_bitmap bgd) (clear_bit_at i buf) s;
                   s = write_bgd 0 (put16 bgd 12 (free_blocks_count bgd + 1)) s
               in s\<lparr>sb := put32 (sb s) 12 (sb_free_blocks (sb s) + 1)\<rparr>
          else s)"

text \<open>The inode's descriptor is read from its own group but stored back as the descriptor of group 0.\<close>

definition ext2_free_inode :: "u32 \<Rightarrow> ext2_fs \<Rightarrow> ext2_fs" where
  "ext2_free_inode ino s =
     (if ino < EXT2_ROOT_INO then s
      else case read_block_group_bgd ((ino - 1) div inodes_per_group s) s of
        None \<Rightarrow> s
      | Some bgd \<Rightarrow>
          if \<not> bufs s 0 then s
          else let buf = ext2_read_block (inode_bitmap bgd) s; i = unat ((ino - 1) mod inodes_per_group s) in
          if buf ! (i div 8) AND mask_bit (i mod 8) \<noteq> 0
          then let s = ext2_write_block (inode_bitmap bgd) (clear_bit_at i buf) s;
                   s = write_bgd 0 (put16 bgd 14 (free_inodes_count bgd + 1)) s
               in s\<lparr>sb := put32 (sb s) 16 (sb_free_inodes (sb s) + 1)\<rparr>
          else s)"

section \<open>Releasing a file's blocks\<close>

definition free_indirect :: "u32 \<Rightarrow> ext2_fs \<Rightarrow> ext2_fs" where
  "free_indirect b s =
     (let indirect = ext2_read_block b s;
          s = fold (\<lambda>i s. if get32 indirect (4 * i) \<noteq> 0 then ext2_free_block (get32 indirect (4 * i)) s else s)
                [0..<ptrs_per_block s] s
      in ext2_free_block b s)"

definition free_inode_blocks :: "u8 list \<Rightarrow> ext2_fs \<Rightarrow> u8 list \<times> ext2_fs" where
  "free_inode_blocks inode s =
     (let (inode, s) = fold (\<lambda>i (inode, s).
            if i_block inode i \<noteq> 0 then (set_block i 0 inode, ext2_free_block (i_block inode i) s) else (inode, s))
            [0..<12] (inode, s);
          (inode, s) = (if i_block inode 12 \<noteq> 0 then (set_block 12 0 inode, free_indirect (i_block inode 12) s) else (inode, s))
      in if i_block inode 13 \<noteq> 0
         then let dindirect = ext2_read_block (i_block inode 13) s;
                  s = fold (\<lambda>i s. if get32 dindirect (4 * i) \<noteq> 0 then free_indirect (get32 dindirect (4 * i)) s else s)
                        [0..<ptrs_per_block s] s
              in (set_block 13 0 inode, ext2_free_block (i_block inode 13) s)
         else (inode, s))"

section \<open>Blocks as a store\<close>

text \<open>What a client of a block device relies on, and what follows for a sequence of writes.\<close>

locale block_store =
  fixes rd :: "'b \<Rightarrow> 's \<Rightarrow> 'd" and wr :: "'b \<Rightarrow> 'd \<Rightarrow> 's \<Rightarrow> 's"
    and sound :: "'s \<Rightarrow> bool" and valid :: "'s \<Rightarrow> 'b \<Rightarrow> bool" and fits :: "'s \<Rightarrow> 'd \<Rightarrow> bool"
  assumes rd_wr: "sound s \<Longrightarrow> valid s b \<Longrightarrow> fits s d \<Longrightarrow> rd b (wr b d s) = d"
    and rd_wr_other: "sound s \<Longrightarrow> valid s b \<Longrightarrow> valid s c \<Longrightarrow> c \<noteq> b \<Longrightarrow> rd c (wr b d s) = rd c s"
    and sound_wr: "sound s \<Longrightarrow> fits s d \<Longrightarrow> sound (wr b d s)"
    and valid_wr: "valid (wr b d s) = valid s"
    and fits_wr: "fits (wr b d s) = fits s"
begin

abbreviation wrs :: "('b \<times> 'd) list \<Rightarrow> 's \<Rightarrow> 's" where
  "wrs \<equiv> fold (\<lambda>(b, d). wr b d)"

lemma wrs_keep:
  assumes "sound s" "\<forall>(b, d) \<in> set ws. valid s b \<and> fits s d"
  shows "sound (wrs ws s) \<and> valid (wrs ws s) = valid s \<and> fits (wrs ws s) = fits s"
  using assms by (induction ws arbitrary: s) (auto simp: sound_wr valid_wr fits_wr)

lemma wrs_other:
  assumes "sound s" "\<forall>(b, d) \<in> set ws. valid s b \<and> fits s d" "valid s c" "c \<notin> fst ` set ws"
  shows "rd c (wrs ws s) = rd c s"
  using assms
proof (induction ws arbitrary: s)
  case (Cons w ws)
  then show ?case
    by (cases w) (auto simp: sound_wr valid_wr fits_wr rd_wr_other)
qed simp

text \<open>Writes to distinct blocks all read back.\<close>

lemma wrs_read_back:
  assumes "sound s" "\<forall>(b, d) \<in> set ws. valid s b \<and> fits s d" "distinct (map fst ws)" "(b, d) \<in> set ws"
  shows "rd b (wrs ws s) = d"
  using assms
proof (induction ws arbitrary: s)
  case (Cons w ws)
  obtain c e where w: "w = (c, e)" by (cases w)
  show ?case
  proof (cases "(b, d) = w")
    case True
    with Cons.prems w have "rd b (wrs ws (wr c e s)) = rd b (wr c e s)"
      by (intro wrs_other) (auto simp: sound_wr valid_wr fits_wr)
    with True Cons.prems w show ?thesis by (simp add: rd_wr)
  next
    case False
    with Cons w show ?thesis by (auto simp: sound_wr valid_wr fits_wr)
  qed
qed simp

end

text \<open>
  A sound volume: the driver holds the geometry \<open>ext2_mount\<close> accepts, sectors have 512 bytes, and the volume lies below the
  28-bit limit of the drive.
\<close>

definition vol_ok :: "ext2_fs \<Rightarrow> bool" where
  "vol_ok s \<longleftrightarrow> block_size s \<in> {1024, 2048, 4096} \<and> (\<forall>k. length (disk s k) = 512) \<and>
     unat (part_start_lba s) + unat (sb_total_blocks (sb s)) * unat (block_size s div 512) \<le> 2 ^ 28"

definition in_vol :: "ext2_fs \<Rightarrow> u32 \<Rightarrow> bool" where
  "in_vol s b \<longleftrightarrow> b < sb_total_blocks (sb s)"

definition block_data :: "ext2_fs \<Rightarrow> u8 list \<Rightarrow> bool" where
  "block_data s d \<longleftrightarrow> length d = unat (block_size s)"

definition sector_of :: "u32 \<Rightarrow> nat \<Rightarrow> ext2_fs \<Rightarrow> u8 \<times> u32" where
  "sector_of b i s = (drive s, (part_start_lba s + (block_to_lba b s + of_nat i)) AND 0x0FFFFFFF)"

definition chunk :: "nat \<Rightarrow> u8 list \<Rightarrow> u8 list" where
  "chunk i d = take 512 (drop (i * 512) d)"

lemma read_block_sectors: "ext2_read_block b s = concat (map (\<lambda>i. disk s (sector_of b i s)) [0..<unat (block_size s div 512)])"
  by (simp add: ext2_read_block_def read_sectors_def ata_read_sector_def sector_of_def add.assoc)

lemma write_sector_one:
  "write_sectors lba (Suc 0) d s = s\<lparr>disk := (disk s)((drive s, (part_start_lba s + lba) AND 0x0FFFFFFF) := take 512 d)\<rparr>"
  by (simp add: write_sectors_def ata_write_sector_def)

lemma write_block_fold:
  "fold (\<lambda>i s. write_sectors (block_to_lba b s + of_nat i) 1 (take 512 (drop (i * 512) d)) s) is s =
   s\<lparr>disk := fold (\<lambda>i f. f(sector_of b i s := chunk i d)) is (disk s)\<rparr>"
proof (induction "is" arbitrary: s)
  case (Cons i "is")
  then show ?case
    by (simp add: write_sector_one sector_of_def block_to_lba_def chunk_def)
qed simp

lemma write_block_disk:
  "ext2_write_block b d s = s\<lparr>disk := fold (\<lambda>i f. f(sector_of b i s := chunk i d)) [0..<unat (block_size s div 512)] (disk s)\<rparr>"
  unfolding ext2_write_block_def by (rule write_block_fold)

lemma fold_upd_other: "k \<notin> g ` set is \<Longrightarrow> fold (\<lambda>i f. f(g i := v i)) is f k = f k"
  by (induction "is" arbitrary: f) auto

lemma fold_upd_same:
  assumes "inj_on g (set is)" "distinct is" "i \<in> set is"
  shows "fold (\<lambda>i f. f(g i := v i)) is f (g i) = v i"
  using assms
proof (induction "is" arbitrary: f)
  case (Cons j "is")
  show ?case
  proof (cases "i = j")
    case True
    with Cons.prems have "g i \<notin> g ` set is" by (auto simp: inj_on_def)
    with True show ?thesis by (simp add: fold_upd_other del: fun_upd_apply) simp
  next
    case False
    with Cons show ?thesis by simp
  qed
qed simp

lemma block_size_cases:
  assumes "vol_ok s"
  obtains "block_size s = 1024" "unat (block_size s div 512) = 2" "unat (block_size s) = 1024"
  | "block_size s = 2048" "unat (block_size s div 512) = 4" "unat (block_size s) = 2048"
  | "block_size s = 4096" "unat (block_size s div 512) = 8" "unat (block_size s) = 4096"
proof -
  from assms have "block_size s = 1024 \<or> block_size s = 2048 \<or> block_size s = 4096"
    unfolding vol_ok_def by blast
  then show ?thesis
  proof (elim disjE)
    assume "block_size s = 1024"
    then show ?thesis by (intro that(1)) simp_all
  next
    assume "block_size s = 2048"
    then show ?thesis by (intro that(2)) simp_all
  next
    assume "block_size s = 4096"
    then show ?thesis by (intro that(3)) simp_all
  qed
qed

lemma take_bit_word_eq_self_nat: "unat x < 2 ^ n \<Longrightarrow> take_bit n x = x" for x :: "'a::len word"
  by (simp add: word_unat_eq_iff unsigned_take_bit_eq take_bit_nat_eq_self)

lemma sector_of_disk [simp]: "sector_of b i (s\<lparr>disk := f\<rparr>) = sector_of b i s"
  by (simp add: sector_of_def block_to_lba_def)

lemma unat_sector:
  assumes "vol_ok s" "in_vol s b" "i < unat (block_size s div 512)"
  shows "unat (snd (sector_of b i s)) = unat (part_start_lba s) + unat b * unat (block_size s div 512) + i"
proof -
  let ?n = "unat (block_size s div 512)"
  have "unat b + 1 \<le> unat (sb_total_blocks (sb s))"
    using assms(2) by (simp add: in_vol_def word_less_nat_alt)
  then have "(unat b + 1) * ?n \<le> unat (sb_total_blocks (sb s)) * ?n" by (rule mult_le_mono1)
  with assms have lt: "unat (part_start_lba s) + unat b * ?n + i < 2 ^ 28"
    by (simp add: vol_ok_def)
  have i: "unat (of_nat i :: u32) = i" using lt by (simp add: unat_of_nat)
  have "unat (b * (block_size s div 512)) = unat b * ?n"
    using lt by (simp add: unat_word_ariths)
  then have "unat (block_to_lba b s + of_nat i) = unat b * ?n + i"
    using lt i by (simp add: block_to_lba_def unat_word_ariths)
  then have "unat (part_start_lba s + (block_to_lba b s + of_nat i)) = unat (part_start_lba s) + unat b * ?n + i"
    using lt by (simp add: unat_word_ariths)
  moreover have "x AND 0x0FFFFFFF = x" if "unat x < 2 ^ 28" for x :: u32
  proof -
    have "(0x0FFFFFFF :: u32) = mask 28" by (simp add: mask_eq_exp_minus_1)
    moreover have "take_bit 28 x = x" using that by (intro take_bit_word_eq_self_nat)
    ultimately show ?thesis by (simp add: take_bit_eq_mask)
  qed
  ultimately show ?thesis using lt by (simp add: sector_of_def)
qed

lemma sector_of_inj:
  assumes "vol_ok s" "in_vol s b" "in_vol s c" "i < unat (block_size s div 512)" "j < unat (block_size s div 512)"
    "sector_of b i s = sector_of c j s"
  shows "b = c \<and> i = j"
proof -
  let ?n = "unat (block_size s div 512)"
  from assms(6) have "unat (snd (sector_of b i s)) = unat (snd (sector_of c j s))" by simp
  then have eq: "unat b * ?n + i = unat c * ?n + j"
    unfolding unat_sector [OF assms(1,2,4)] unat_sector [OF assms(1,3,5)] by simp
  have "unat b = (unat b * ?n + i) div ?n" "i = (unat b * ?n + i) mod ?n" using assms(4) by simp_all
  moreover have "unat c = (unat c * ?n + j) div ?n" "j = (unat c * ?n + j) mod ?n" using assms(5) by simp_all
  ultimately show ?thesis using eq by (metis word_unat_eq_iff)
qed

lemma concat_chunks: "length d = 512 * n \<Longrightarrow> concat (map (\<lambda>i. chunk i d) [0..<n]) = d"
proof (induction n arbitrary: d)
  case (Suc n)
  have "chunk i (take (512 * n) d) = chunk i d" if "i < n" for i
  proof -
    from that have "512 \<le> 512 * n - i * 512" by (simp add: mult.commute flip: diff_mult_distrib2)
    then show ?thesis by (simp add: chunk_def drop_take take_take min_def)
  qed
  moreover have "concat (map (\<lambda>i. chunk i (take (512 * n) d)) [0..<n]) = take (512 * n) d"
    using Suc by simp
  ultimately have "concat (map (\<lambda>i. chunk i d) [0..<n]) = take (512 * n) d"
    by (metis (no_types, lifting) map_cong atLeastLessThan_iff set_upt)
  moreover have "chunk n d = drop (512 * n) d"
    using Suc.prems by (simp add: chunk_def mult.commute)
  ultimately show ?case by simp
qed simp

lemma length_chunk: "512 * i + 512 \<le> length d \<Longrightarrow> length (chunk i d) = 512"
  by (simp add: chunk_def)

lemma blk_read_write:
  assumes "vol_ok s" "in_vol s b" "block_data s d"
  shows "ext2_read_block b (ext2_write_block b d s) = d"
proof -
  let ?n = "unat (block_size s div 512)"
  have "inj_on (\<lambda>i. sector_of b i s) (set [0..<?n])"
    using sector_of_inj [OF assms(1,2,2)] by (auto simp: inj_on_def)
  then have "map (\<lambda>i. disk (ext2_write_block b d s) (sector_of b i s)) [0..<?n] = map (\<lambda>i. chunk i d) [0..<?n]"
    using fold_upd_same [of "\<lambda>i. sector_of b i s" "[0..<?n]"] by (intro map_cong) (auto simp: write_block_disk)
  moreover have "length d = 512 * ?n"
    using assms by (cases rule: block_size_cases) (auto simp: block_data_def)
  ultimately show ?thesis
    using concat_chunks [of d ?n] by (simp add: read_block_sectors write_block_disk del: map_eq_conv)
qed

lemma blk_write_other:
  assumes "vol_ok s" "in_vol s b" "in_vol s c" "c \<noteq> b"
  shows "ext2_read_block c (ext2_write_block b d s) = ext2_read_block c s"
proof -
  let ?n = "unat (block_size s div 512)"
  have "sector_of c i s \<notin> (\<lambda>i. sector_of b i s) ` set [0..<?n]" if "i < ?n" for i
    using sector_of_inj [OF assms(1,3,2) that] assms(4) by force
  then have "map (\<lambda>i. disk (ext2_write_block b d s) (sector_of c i s)) [0..<?n] = map (\<lambda>i. disk s (sector_of c i s)) [0..<?n]"
    by (intro map_cong) (auto simp: write_block_disk fold_upd_other)
  then show ?thesis
    by (simp add: read_block_sectors write_block_disk del: map_eq_conv)
qed

lemma write_block_fields [simp]:
  "drive (ext2_write_block b d s) = drive s" "part_start_lba (ext2_write_block b d s) = part_start_lba s"
  "sb (ext2_write_block b d s) = sb s" "block_size (ext2_write_block b d s) = block_size s"
  "inodes_per_group (ext2_write_block b d s) = inodes_per_group s" "blocks_per_group (ext2_write_block b d s) = blocks_per_group s"
  "bgd_block (ext2_write_block b d s) = bgd_block s" "inode_size (ext2_write_block b d s) = inode_size s"
  "bufs (ext2_write_block b d s) = bufs s" "clock (ext2_write_block b d s) = clock s"
  "bgd_blocks (ext2_write_block b d s) = bgd_blocks s"
  by (simp_all add: write_block_disk)

lemma block_bytes: "vol_ok s \<Longrightarrow> unat (block_size s) = 512 * unat (block_size s div 512)"
  by (erule block_size_cases) simp_all

lemma fold_upd_pred:
  assumes "\<forall>i\<in>set is. Q (v i)" "\<forall>k. Q (f k)"
  shows "Q (fold (\<lambda>i f. f(g i := v i)) is f k)"
  using assms by (induction "is" arbitrary: f) auto

lemma vol_ok_write [simp]:
  assumes "vol_ok s" "block_data s d"
  shows "vol_ok (ext2_write_block b d s)"
proof -
  let ?n = "unat (block_size s div 512)"
  have "512 * i + 512 \<le> length d" if "i < ?n" for i
    using assms that block_bytes [OF assms(1)] by (simp add: block_data_def)
  then have "\<forall>i\<in>set [0..<?n]. length (chunk i d) = 512" by (simp add: length_chunk)
  then have "length (disk (ext2_write_block b d s) k) = 512" for k
    using assms(1) by (simp add: write_block_disk fold_upd_pred [where Q = "\<lambda>x. length x = 512"] vol_ok_def)
  with assms(1) show ?thesis by (simp add: vol_ok_def)
qed

lemma in_vol_write [simp]: "in_vol (ext2_write_block b d s) = in_vol s"
  by (simp add: in_vol_def fun_eq_iff)

lemma block_data_write [simp]: "block_data (ext2_write_block b d s) = block_data s"
  by (simp add: block_data_def fun_eq_iff)

lemma sector_length: "vol_ok s \<Longrightarrow> length (disk s k) = 512"
  unfolding vol_ok_def by blast

lemma length_read_block [simp]: "vol_ok s \<Longrightarrow> length (ext2_read_block b s) = unat (block_size s)"
  by (simp add: read_block_sectors length_concat o_def sector_length sum_list_triv block_bytes)

interpretation vol: block_store ext2_read_block ext2_write_block vol_ok in_vol block_data
  by unfold_locales (simp_all add: blk_read_write blk_write_other)

section \<open>Fields\<close>

lemma length_poke [simp]: "i + length v \<le> length b \<Longrightarrow> length (poke b i v) = length b"
  by (simp add: poke_def)

lemma nth_poke:
  "i + length v \<le> length b \<Longrightarrow> j < length b \<Longrightarrow> poke b i v ! j = (if i \<le> j \<and> j < i + length v then v ! (j - i) else b ! j)"
  by (auto simp: poke_def nth_append)

lemma get32_put32: "i + 4 \<le> length b \<Longrightarrow> get32 (put32 b i v) i = v"
  by (rule bit_word_eqI) (auto simp: get32_def nth_poke le_bytes_def bit_simps, rule ccontr, simp)

lemma get16_put16: "i + 2 \<le> length b \<Longrightarrow> get16 (put16 b i v) i = v"
  by (rule bit_word_eqI) (auto simp: get16_def nth_poke le_bytes_def bit_simps)

lemma get32_poke:
  assumes "i + length v \<le> length b" "j + 4 \<le> length b" "j + 4 \<le> i \<or> i + length v \<le> j"
  shows "get32 (poke b i v) j = get32 b j"
  using assms by (auto simp: get32_def nth_poke)

lemma get16_poke:
  assumes "i + length v \<le> length b" "j + 2 \<le> length b" "j + 2 \<le> i \<or> i + length v \<le> j"
  shows "get16 (poke b i v) j = get16 b j"
  using assms by (auto simp: get16_def nth_poke)

lemma get32_zero: "i + 4 \<le> n \<Longrightarrow> get32 (replicate n 0) i = 0"
  by (simp add: get32_def)

lemma take_drop_poke:
  assumes "i + length v \<le> length b" "j + n \<le> i \<or> i + length v \<le> j"
  shows "take n (drop j (poke b i v)) = take n (drop j b)"
  using assms by (intro nth_equalityI) (auto simp: nth_poke poke_def)

lemma take_drop_poke_same: "i + length v \<le> length b \<Longrightarrow> take (length v) (drop i (poke b i v)) = v"
  by (simp add: poke_def)

section \<open>The clock against the calendar\<close>

definition leap :: "nat \<Rightarrow> bool" where
  "leap y \<longleftrightarrow> (4 dvd y \<and> \<not> 100 dvd y) \<or> 400 dvd y"

definition month_days :: "nat \<Rightarrow> nat \<Rightarrow> nat" where
  "month_days y m = (if m = 2 then (if leap y then 29 else 28) else if m \<in> {4, 6, 9, 11} then 30 else 31)"

definition unix_days :: "nat \<Rightarrow> nat \<Rightarrow> nat \<Rightarrow> nat" where
  "unix_days y m d = (\<Sum>k = 1970..<y. if leap k then 366 else 365) + (\<Sum>k = 1..<m. month_days y k) + (d - 1)"

definition gregorian :: "nat \<Rightarrow> nat" where
  "gregorian y = 365 * y + y div 4 + y div 400 - y div 100"

lemma gregorian_Suc: "gregorian (Suc y) = gregorian y + (if leap (Suc y) then 366 else 365)"
proof -
  have "Suc y div k = y div k + (if k dvd Suc y then 1 else 0)" if "0 < k" for k
    using that by (simp add: div_Suc dvd_eq_mod_eq_0)
  moreover have "y div 100 \<le> y div 4 + y div 400" for y :: nat by (simp add: trans_le_add1 div_le_mono2)
  moreover have "100 dvd Suc y \<Longrightarrow> 4 dvd Suc y" "400 dvd Suc y \<Longrightarrow> 100 dvd Suc y"
    by (auto elim!: dvd_trans [rotated])
  ultimately show ?thesis by (auto simp: gregorian_def leap_def)
qed

lemma years_gregorian: "1970 \<le> y \<Longrightarrow> (\<Sum>k = 1970..<y. if leap k then 366 else 365) + 719162 = gregorian (y - 1)"
proof (induction y rule: dec_induct)
  case base
  then show ?case by (simp add: gregorian_def)
next
  case (step y)
  then obtain z where "y = Suc z" by (cases y) auto
  with step show ?case by (simp add: gregorian_Suc)
qed

lemma doe_nat:
  assumes "r < 400" "dd < 1000"
  shows "unat (of_nat r * 365 + of_nat r div 4 - of_nat r div 100 + of_nat dd :: u32) = r * 365 + r div 4 - r div 100 + dd"
proof -
  have r: "unat (of_nat r :: u32) = r" using assms by (simp add: unat_of_nat)
  have 1: "unat (of_nat r * 365 + of_nat r div 4 :: u32) = r * 365 + r div 4"
    using assms by (simp add: unat_word_ariths r unat_div)
  have "unat (of_nat r * 365 + of_nat r div 4 - of_nat r div 100 :: u32) = r * 365 + r div 4 - r div 100"
    by (subst unat_sub) (simp_all add: word_le_nat_alt 1 unat_div r div_le_mono2 trans_le_add2)
  with assms show ?thesis by (simp add: unat_word_ariths unat_of_nat)
qed

lemma gregorian_era: "gregorian n = n div 400 * 146097 + (n mod 400 * 365 + n mod 400 div 4 - n mod 400 div 100)"
proof -
  define q r where "q = n div 400" and "r = n mod 400"
  then have n: "n = 400 * q + r" and r: "r < 400" by simp_all
  have "(400 * q + r) div 4 = 100 * q + r div 4" "(400 * q + r) div 100 = 4 * q + r div 100" by simp_all
  moreover have "r div 100 \<le> r div 4" by (simp add: div_le_mono2)
  moreover have "n div 400 = q" "n mod 400 = r" by (simp_all add: q_def r_def)
  ultimately show ?thesis using n by (simp add: gregorian_def mult.commute)
qed

lemma month_cases: "1 \<le> M \<Longrightarrow> M \<le> 12 \<Longrightarrow> M \<in> {1, 2, 3, 4, 5, 6, 7, 8, 9, 10, 11, 12 :: nat}"
  unfolding insert_iff empty_iff by presburger

lemma day_of_year:
  assumes "1 \<le> M" "M \<le> 12" "1 \<le> D"
  shows "(153 * (of_nat M + (if (of_nat M :: u32) > 2 then - 3 else 9)) + 2) div 5 + of_nat D - 1 =
    (of_nat ([306, 337, 0, 31, 61, 92, 122, 153, 184, 214, 245, 275] ! (M - 1) + (D - 1)) :: u32)"
proof -
  from assms have "M \<in> {1, 2, 3, 4, 5, 6, 7, 8, 9, 10, 11, 12}" by (intro month_cases)
  with assms show ?thesis by (elim insertE) (simp_all add: of_nat_diff)
qed

lemma month_offset:
  assumes "1970 \<le> Y" "1 \<le> M" "M \<le> 12"
  shows "gregorian (Y - (if M \<le> 2 then 1 else 0)) + [306, 337, 0, 31, 61, 92, 122, 153, 184, 214, 245, 275] ! (M - 1) =
    gregorian (Y - 1) + 306 + (\<Sum>k = 1..<M. month_days Y k)"
proof -
  from assms have Y: "Y = Suc (Y - 1)" by simp
  have "gregorian Y = gregorian (Y - 1) + (if leap Y then 366 else 365)"
    using gregorian_Suc [of "Y - 1"] Y by simp
  moreover from assms have "M \<in> {1, 2, 3, 4, 5, 6, 7, 8, 9, 10, 11, 12}" by (intro month_cases)
  ultimately show ?thesis
    by (elim insertE) (simp_all add: month_days_def atLeastLessThan_nat_numeral)
qed

lemma civil_days:
  fixes Y M D :: nat
  defines "n \<equiv> Y - (if M \<le> 2 then 1 else 0)"
  assumes "1970 \<le> Y" "1 \<le> M" "M \<le> 12" "1 \<le> D" "D < 256"
  shows "int (n div 400) * 146097 + int (unat (of_nat (n mod 400) * 365 + of_nat (n mod 400) div 4 - of_nat (n mod 400) div 100 +
      ((153 * (of_nat M + (if (of_nat M :: u32) > 2 then - 3 else 9)) + 2) div 5 + of_nat D - 1) :: u32)) - 719468 =
    int (unix_days Y M D)"
proof -
  let ?c = "[306, 337, 0, 31, 61, 92, 122, 153, 184, 214, 245, 275] ! (M - 1) :: nat"
  have "?c \<le> 337"
    using month_cases [OF assms(3,4)] by (elim insertE) simp_all
  with assms(6) have "?c + (D - 1) < 1000" by simp
  then have "unat (of_nat (n mod 400) * 365 + of_nat (n mod 400) div 4 - of_nat (n mod 400) div 100 +
      ((153 * (of_nat M + (if (of_nat M :: u32) > 2 then - 3 else 9)) + 2) div 5 + of_nat D - 1) :: u32) =
      n mod 400 * 365 + n mod 400 div 4 - n mod 400 div 100 + (?c + (D - 1))"
    using assms(3-5) by (simp only: day_of_year) (rule doe_nat; simp)
  moreover have "gregorian n + ?c = (\<Sum>k = 1970..<Y. if leap k then 366 else 365) + 719162 + 306 + (\<Sum>k = 1..<M. month_days Y k)"
    using month_offset [OF assms(2-4)] years_gregorian [OF assms(2)] by (simp only: n_def)
  ultimately have "n div 400 * 146097 + unat (of_nat (n mod 400) * 365 + of_nat (n mod 400) div 4 - of_nat (n mod 400) div 100 +
      ((153 * (of_nat M + (if (of_nat M :: u32) > 2 then - 3 else 9)) + 2) div 5 + of_nat D - 1) :: u32) = unix_days Y M D + 719468"
    using gregorian_era [of n] by (simp only: unix_days_def)
  from arg_cong [OF this, of int] show ?thesis by simp
qed

text \<open>C32: the time stamp the driver writes into inodes is the number of seconds since 1 January 1970 in the Gregorian
  calendar, modulo 2 to the 32, for every date of the clock from 1970 on, and 0 when the clock gives no such date.
\<close>

theorem ext2_now_is_unix_time:
  assumes "day (clock s) \<noteq> 0"
  shows "ext2_now s =
    (let t = clock s in
     if unat (year t) < 1970 \<or> unat (month t) \<notin> {1..12} then 0
     else of_nat (unix_days (unat (year t)) (unat (month t)) (unat (day t)) * 86400 +
            unat (hour t) * 3600 + unat (minute t) * 60 + unat (second t)))"
proof (cases "unat (year (clock s)) < 1970 \<or> unat (month (clock s)) \<notin> {1..12}")
  case True
  then show ?thesis by (auto simp: ext2_now_def Let_def word_less_nat_alt not_le)
next
  case False
  define Y M D where "Y = unat (year (clock s))" and "M = unat (month (clock s))" and "D = unat (day (clock s))"
  define n where "n = Y - (if M \<le> 2 then 1 else 0)"
  have ranges: "1970 \<le> Y" "1 \<le> M" "M \<le> 12" "1 \<le> D" "D < 256"
    using False assms u8_bound [of "day (clock s)"] by (auto simp: Y_def M_def D_def unat_gt_0 Suc_le_eq)
  have words: "(ucast (month (clock s)) :: u32) = of_nat M" "(ucast (day (clock s)) :: u32) = of_nat D"
    by (simp_all add: M_def D_def of_nat_unat)
  have le2: "(of_nat M :: u32) \<le> 2 \<longleftrightarrow> M \<le> 2"
    using ranges by (simp add: word_le_nat_alt unat_of_nat)
  have y: "int Y - (if M \<le> 2 then 1 else 0) = int n"
    using ranges by (simp add: n_def)
  have era: "(if int n \<ge> 0 then int n else int n - 399) div 400 = int (n div 400)"
    by (simp add: zdiv_int)
  have "int n - int (n div 400) * 400 = int (n mod 400)"
    using div_mult_mod_eq [of n 400] by linarith
  then have yoe: "(word_of_int (int n - int (n div 400) * 400) :: u32) = of_nat (n mod 400)" by simp
  have guard: "\<not> (year (clock s) < 1970 \<or> month (clock s) < 1 \<or> 12 < month (clock s))"
    using False by (auto simp: word_less_nat_alt)
  have "ext2_now s = word_of_int (int (unix_days Y M D) * 86400 + int (unat (hour (clock s))) * 3600 +
      int (unat (minute (clock s))) * 60 + int (unat (second (clock s))))"
    unfolding ext2_now_def Let_def if_not_P [OF guard] if_P [OF assms] words le2 Y_def [symmetric] y era yoe
    using civil_days [OF ranges, folded n_def] by (simp only:)
  with False show ?thesis by (simp add: Y_def M_def D_def Let_def)
qed

text \<open>29 February 2024, 12:00:00.\<close>

theorem ext2_now_is_unix_time_witness:
  "ext2_now \<lparr>drive = 0, part_start_lba = 0, sb = [], block_size = 1024, inodes_per_group = 1, blocks_per_group = 1,
     bgd_blocks = 1, bgd_block = 2, inode_size = 128, bufs = (\<lambda>_. True), disk = (\<lambda>_. []),
     clock = \<lparr>second = 0, minute = 0, hour = 12, day = 29, month = 2, year = 2024\<rparr>\<rparr> = 1709208000"
proof -
  have "unix_days 2024 2 29 = 19782"
    using years_gregorian [of 2024] by (simp add: unix_days_def month_days_def gregorian_def)
  then show ?thesis
    by (subst ext2_now_is_unix_time) simp_all
qed

section \<open>What mounting checks\<close>

definition geometry_ok :: "ext2_fs \<Rightarrow> bool" where
  "geometry_ok s \<longleftrightarrow> block_size s \<in> {1024, 2048, 4096} \<and> inodes_per_group s \<noteq> 0 \<and> blocks_per_group s \<noteq> 0 \<and>
     128 \<le> inode_size s \<and> inode_size s \<le> block_size s \<and>
     blocks_per_group s \<le> block_size s * 8 \<and> inodes_per_group s \<le> block_size s * 8"

lemma shift_1024:
  assumes "w \<le> (2 :: u32)"
  shows "push_bit (unat w) 1024 = (1024 :: u32) \<or> push_bit (unat w) 1024 = (2048 :: u32) \<or> push_bit (unat w) 1024 = (4096 :: u32)"
proof -
  from assms have "unat w \<le> 2" by (simp add: word_le_nat_alt)
  then have "unat w \<in> {0, 1, 2}" by auto
  then show ?thesis by auto
qed

lemma mount_geometry: "ext2_mount drv lba s = (0, s') \<Longrightarrow> geometry_ok s'"
  using shift_1024 [of "sb_log_block_size (take SB_SIZE (read_sectors 2 2 (s\<lparr>drive := drv, part_start_lba := lba\<rparr>)))"]
  by (auto simp: ext2_mount_def Let_def geometry_ok_def not_less split: if_splits)

lemma slot_bound:
  assumes "k < p" "p = bs div w" "n \<le> w"
  shows "k * w + n \<le> (bs :: nat)"
proof -
  from assms have "(k + 1) * w \<le> p * w" by (intro mult_le_mono1) simp
  also have "\<dots> \<le> bs" using assms(2) by simp
  finally show ?thesis using assms(3) by simp
qed

lemma bgd_place_bound:
  assumes "geometry_ok s"
  shows "snd (bgd_place g s) + BGD_SIZE \<le> unat (block_size s)"
proof -
  from assms have "block_size s div 32 \<noteq> 0" by (auto simp: geometry_ok_def)
  then have "unat (g mod (block_size s div 32)) < unat (block_size s div 32)"
    by (simp add: word_less_nat_alt [symmetric] word_mod_less_divisor word_greater_zero_iff)
  then show ?thesis
    using slot_bound [of "unat (g mod (block_size s div 32))" "unat (block_size s div 32)" "unat (block_size s)" 32 32]
    by (simp add: bgd_place_def BGD_SIZE_def unat_div Let_def)
qed

lemma inode_place_bound:
  assumes "geometry_ok s"
  shows "snd (inode_place ino bgd s) + INODE_SIZE \<le> unat (block_size s)"
proof -
  let ?k = "((ino - 1) mod inodes_per_group s) mod (block_size s div inode_size s)"
  from assms have "unat (inode_size s) \<le> unat (block_size s)" "128 \<le> unat (inode_size s)"
    by (auto simp: geometry_ok_def word_le_nat_alt)
  then have "0 < unat (block_size s) div unat (inode_size s)" by (simp add: div_greater_zero_iff)
  then have "block_size s div inode_size s \<noteq> 0" by (simp add: unat_gt_0 [symmetric] unat_div)
  then have k: "unat ?k < unat (block_size s div inode_size s)"
    by (simp add: word_less_nat_alt [symmetric] word_mod_less_divisor word_greater_zero_iff)
  have fit: "unat ?k * unat (inode_size s) + 128 \<le> unat (block_size s)"
    using slot_bound [OF k] \<open>128 \<le> unat (inode_size s)\<close> by (simp add: unat_div)
  then have "unat (?k * inode_size s) = unat ?k * unat (inode_size s)"
    using u32_bound [of "block_size s"] by (simp add: unat_word_ariths)
  with fit show ?thesis by (simp add: inode_place_def Let_def INODE_SIZE_def)
qed

text \<open>C31: a mount that succeeds leaves a geometry in which nothing later divides by zero or leaves a block buffer: the block size
  is 1024, 2048 or 4096, every inode number and every group number select a whole structure inside its block, and
  both bitmap scans stay within one block, whatever the bytes on the disk.
\<close>

theorem ext2_mount_geometry:
  assumes "ext2_mount drv lba s = (0, s')"
  shows "unat (block_size s') \<in> {1024, 2048, 4096} \<and> inodes_per_group s' \<noteq> 0 \<and> block_size s' div inode_size s' \<noteq> 0 \<and>
    (\<forall>ino bgd. snd (inode_place ino bgd s') + INODE_SIZE \<le> unat (block_size s')) \<and>
    (\<forall>g. snd (bgd_place g s') + BGD_SIZE \<le> unat (block_size s')) \<and>
    group_bits (blocks_per_group s') s' \<le> 8 * unat (block_size s') \<and>
    group_bits (inodes_per_group s') s' \<le> 8 * unat (block_size s')"
proof -
  from mount_geometry [OF assms] have g: "geometry_ok s'" .
  then have bs: "block_size s' \<in> {1024, 2048, 4096}" by (simp add: geometry_ok_def)
  then have "unat (block_size s') \<in> {1024, 2048, 4096}" "unat (block_size s' * 8) = 8 * unat (block_size s')" by auto
  moreover from g have "block_size s' div inode_size s' \<noteq> 0"
    by (auto simp: geometry_ok_def unat_gt_0 [symmetric] unat_div word_le_nat_alt div_greater_zero_iff)
  moreover from g have "inodes_per_group s' \<noteq> 0" "group_bits (blocks_per_group s') s' \<le> unat (block_size s' * 8)"
      "group_bits (inodes_per_group s') s' \<le> unat (block_size s' * 8)"
    by (auto simp: geometry_ok_def group_bits_def word_le_nat_alt)
  ultimately show ?thesis using inode_place_bound [OF g] bgd_place_bound [OF g] by metis
qed

text \<open>The superblock of a volume of 64 blocks of 1024 bytes with eight inodes.\<close>

definition sample_sb :: "u8 list" where
  "sample_sb = put16 (put16 (put32 (put32 (put32 (put32 (replicate 1024 0) 4 64) 20 1) 32 8192) 40 8) 56 0xEF53) 88 128"

lemma length_sample_sb: "length sample_sb = 1024"
  by (simp add: sample_sb_def)

lemma sample_sb_fields: "sb_total_blocks sample_sb = 64" "sb_first_data_block sample_sb = 1" "sb_log_block_size sample_sb = 0"
  "sb_blocks_per_group sample_sb = 8192" "sb_inodes_per_group sample_sb = 8" "sb_magic sample_sb = 0xEF53" "sb_inode_size sample_sb = 128"
  by (simp_all add: sample_sb_def sb_total_blocks_def sb_first_data_block_def sb_log_block_size_def sb_blocks_per_group_def
      sb_inodes_per_group_def sb_magic_def sb_inode_size_def get32_put32 get16_put16 get32_poke get16_poke get32_zero)

definition sample_disk :: "u8 \<times> u32 \<Rightarrow> u8 list" where
  "sample_disk k = (if snd k = 2 then take 512 sample_sb else if snd k = 3 then drop 512 sample_sb else replicate 512 0)"

definition blank_fs :: ext2_fs where
  "blank_fs = \<lparr>drive = 0, part_start_lba = 0, sb = [], block_size = 0, inodes_per_group = 0, blocks_per_group = 0, bgd_blocks = 0,
     bgd_block = 0, inode_size = 0, bufs = (\<lambda>_. True), disk = sample_disk,
     clock = \<lparr>second = 0, minute = 0, hour = 12, day = 29, month = 2, year = 2024\<rparr>\<rparr>"

lemma sample_mounts: "fst (ext2_mount 0 0 blank_fs) = 0" "block_size (snd (ext2_mount 0 0 blank_fs)) = 1024"
proof -
  have "take SB_SIZE (read_sectors 2 2 (blank_fs\<lparr>drive := 0, part_start_lba := 0\<rparr>)) = sample_sb"
    using length_sample_sb
    by (simp add: read_sectors_def ata_read_sector_def blank_fs_def sample_disk_def SB_SIZE_def numeral_2_eq_2)
  then show "fst (ext2_mount 0 0 blank_fs) = 0" "block_size (snd (ext2_mount 0 0 blank_fs)) = 1024"
    by (simp_all add: ext2_mount_def sample_sb_fields EXT2_SUPER_MAGIC_def)
qed

theorem ext2_mount_geometry_witness:
  "fst (ext2_mount 0 0 blank_fs) = 0 \<and> inodes_per_group (snd (ext2_mount 0 0 blank_fs)) \<noteq> 0"
  using ext2_mount_geometry [of 0 0 blank_fs "snd (ext2_mount 0 0 blank_fs)"] sample_mounts
  by (simp add: prod_eq_iff)

end
