(* ===== verification/Ext2.thy ===== *)
theory Ext2
  imports Ext2_Disk
begin

text \<open>
  Paths, directories and files of the ext2 driver, \<open>src/kernel/ext2.c\<close>. A C string is the list of its bytes before the
  terminating zero. Every scan of a directory follows the record lengths found on the disk and is a total
  function: the guards of the code make the offset grow.
\<close>

section \<open>Directory entries\<close>

definition MAX_PATH :: nat where "MAX_PATH = 256"
definition MAX_FILENAME :: nat where "MAX_FILENAME = 128"
definition EXT2_DIRENT_HDR :: nat where "EXT2_DIRENT_HDR = 8"

definition SLASH :: u8 where "SLASH = 0x2F"
definition DOT :: u8 where "DOT = 0x2E"

definition de_inode :: "u8 list \<Rightarrow> nat \<Rightarrow> u32" where "de_inode b off = get32 b off"
definition de_rec_len :: "u8 list \<Rightarrow> nat \<Rightarrow> nat" where "de_rec_len b off = unat (get16 b (off + 4))"
definition de_name_len :: "u8 list \<Rightarrow> nat \<Rightarrow> nat" where "de_name_len b off = unat (b ! (off + 6))"
definition de_file_type :: "u8 list \<Rightarrow> nat \<Rightarrow> u8" where "de_file_type b off = b ! (off + 7)"
definition de_name :: "u8 list \<Rightarrow> nat \<Rightarrow> nat \<Rightarrow> u8 list" where "de_name b off n = take n (drop (off + 8) b)"

text \<open>The string that starts at a zero-terminated copy of some bytes.\<close>

definition cstr :: "u8 list \<Rightarrow> u8 list" where "cstr b = takeWhile (\<lambda>c. c \<noteq> 0) b"

section \<open>Path resolution\<close>

text \<open>One block of the search in \<open>resolve_path\<close>; \<open>limit\<close> is the number of bytes left in the directory.\<close>

function scan_block :: "nat \<Rightarrow> nat \<Rightarrow> u8 list \<Rightarrow> u8 list \<Rightarrow> nat \<Rightarrow> u32 option" where
  "scan_block bs limit component b off =
     (if off + EXT2_DIRENT_HDR \<le> bs \<and> off < limit then
        if de_rec_len b off < EXT2_DIRENT_HDR then None
        else if off + de_rec_len b off > bs then None
        else if de_inode b off = 0 then scan_block bs limit component b (off + de_rec_len b off)
        else let name_len = de_name_len b off in
          if off + EXT2_DIRENT_HDR + name_len > bs then None
          else if name_len \<ge> MAX_FILENAME then scan_block bs limit component b (off + de_rec_len b off)
          else if cstr (de_name b off name_len) = component then Some (de_inode b off)
          else scan_block bs limit component b (off + de_rec_len b off)
      else None)"
  by auto
termination
  by (relation "measure (\<lambda>(bs, limit, component, b, off). bs - off)") (auto simp: EXT2_DIRENT_HDR_def)

declare scan_block.simps [simp del]

text \<open>The number of blocks an inode can address.\<close>

definition max_iblock :: "ext2_fs \<Rightarrow> nat" where
  "max_iblock s = 12 + ptrs_per_block s + ptrs_per_block s * ptrs_per_block s"

lemma read_inode_block_max: "ext2_read_inode_block inode i s = Some b \<Longrightarrow> i < max_iblock s"
  by (auto simp: ext2_read_inode_block_def max_iblock_def Let_def split: if_splits)

function dir_search :: "u8 list \<Rightarrow> u8 list \<Rightarrow> u32 \<Rightarrow> nat \<Rightarrow> ext2_fs \<Rightarrow> u32 option" where
  "dir_search dir_inode component bytes_left iblock s =
     (if bytes_left > 0 then
        case ext2_read_inode_block dir_inode iblock s of
          None \<Rightarrow> None
        | Some b \<Rightarrow>
            (case scan_block (unat (block_size s)) (unat bytes_left) component b 0 of
               Some ino \<Rightarrow> Some ino
             | None \<Rightarrow> dir_search dir_inode component (bytes_left - block_size s) (iblock + 1) s)
      else None)"
  by auto
termination
  by (relation "measure (\<lambda>(d, c, l, i, s). max_iblock s - i)") (auto dest: read_inode_block_max)

declare dir_search.simps [simp del]

function resolve_from :: "u8 list \<Rightarrow> u32 \<Rightarrow> ext2_fs \<Rightarrow> u32" where
  "resolve_from p cur_ino s =
     (if p = [] then cur_ino
      else let component = takeWhile (\<lambda>c. c \<noteq> SLASH) p; rest = tl (dropWhile (\<lambda>c. c \<noteq> SLASH) p) in
      if length component > MAX_FILENAME - 1 then 0
      else if component = [] then resolve_from rest cur_ino s
      else case ext2_read_inode cur_ino s of
        None \<Rightarrow> 0
      | Some dir_inode \<Rightarrow>
          (case dir_search dir_inode component (i_size dir_inode) 0 s of
             None \<Rightarrow> 0
           | Some ino \<Rightarrow> resolve_from rest ino s))"
  by auto
termination
proof (relation "measure (\<lambda>(p, c, s). length p)", goal_cases)
  case (2 p c s component rest)
  then show ?case by (cases p) (auto simp: less_Suc_eq_le le_diff_conv intro: le_trans [OF length_dropWhile_le])
next
  case (3 p c s component rest)
  then show ?case by (cases p) (auto simp: less_Suc_eq_le le_diff_conv intro: le_trans [OF length_dropWhile_le])
qed simp

declare resolve_from.simps [simp del]

definition resolve_path :: "u8 list \<Rightarrow> ext2_fs \<Rightarrow> u32" where
  "resolve_path path s =
     (if path = [] \<or> hd path \<noteq> SLASH then 0
      else if tl path = [] then EXT2_ROOT_INO
      else resolve_from (tl path) EXT2_ROOT_INO s)"

definition ext2_get_size :: "u8 list \<Rightarrow> ext2_fs \<Rightarrow> u32" where
  "ext2_get_size path s =
     (let ino = resolve_path path s in
      if ino = 0 then 0 else case ext2_read_inode ino s of None \<Rightarrow> 0 | Some inode \<Rightarrow> i_size inode)"

section \<open>Reading a file\<close>

function read_blocks :: "u8 list \<Rightarrow> nat \<Rightarrow> nat \<Rightarrow> ext2_fs \<Rightarrow> u8 list" where
  "read_blocks inode remaining iblock s =
     (if remaining > 0 then
        case ext2_read_inode_block inode iblock s of
          None \<Rightarrow> []
        | Some b \<Rightarrow>
            let chunk = min remaining (unat (block_size s))
            in take chunk b @ read_blocks inode (remaining - chunk) (iblock + 1) s
      else [])"
  by auto
termination
  by (relation "measure (\<lambda>(d, r, i, s). max_iblock s - i)") (auto dest: read_inode_block_max)

declare read_blocks.simps [simp del]

text \<open>None is the result -1; otherwise the bytes stored in the caller's buffer, whose number is returned.\<close>

definition ext2_read_file :: "u8 list \<Rightarrow> nat \<Rightarrow> ext2_fs \<Rightarrow> u8 list option" where
  "ext2_read_file path maxlen s =
     (let ino = resolve_path path s in
      if ino = 0 then None
      else case ext2_read_inode ino s of
        None \<Rightarrow> None
      | Some inode \<Rightarrow>
          if i_mode inode AND EXT2_S_IFREG = 0 then None
          else Some (read_blocks inode (min (unat (i_size inode)) maxlen) 0 s))"

section \<open>Writing a file\<close>

text \<open>
  The block for position \<open>iblock\<close>, allocated when the file has none: the inode, the driver and the block number, which
  is 0 where the code returns -1. The freshly changed inode is not on the disk yet.
\<close>

definition block_for_write :: "u8 list \<Rightarrow> nat \<Rightarrow> ext2_fs \<Rightarrow> u32 \<times> u8 list \<times> ext2_fs" where
  "block_for_write inode iblock s =
     (if iblock < 12 then
        if i_block inode iblock = 0 then
          let (b, s) = ext2_alloc_block s; inode = set_block iblock b inode
          in (b, inode, s)
        else (i_block inode iblock, inode, s)
      else let sind_iblock = iblock - 12 in
      if sind_iblock < ptrs_per_block s then
        let (inode, s) =
              (if i_block inode 12 = 0 then let (b, s) = ext2_alloc_block s in (set_block 12 b inode, s) else (inode, s))
        in if i_block inode 12 = 0 then (0, inode, s)
        else let indirect = ext2_read_block (i_block inode 12) s in
        if get32 indirect (4 * sind_iblock) = 0 then
          let (b, s) = ext2_alloc_block s
          in if b = 0 then (0, inode, s)
             else (b, inode, ext2_write_block (i_block inode 12) (put32 indirect (4 * sind_iblock) b) s)
        else (get32 indirect (4 * sind_iblock), inode, s)
      else (0, inode, s))"

lemma block_for_write_max: "block_for_write inode i s = (b, inode', s') \<Longrightarrow> b \<noteq> 0 \<Longrightarrow> i < 12 + ptrs_per_block s"
  by (auto simp: block_for_write_def Let_def split: if_splits)

lemma sync_fields [simp]: "block_size (s\<lparr>sb := v\<rparr>) = block_size s" "bufs (s\<lparr>sb := v\<rparr>) = bufs s"
  by simp_all

lemma alloc_block_size [simp]: "block_size (snd (ext2_alloc_block s)) = block_size s"
  by (auto simp: ext2_alloc_block_def Let_def write_bgd_def split: option.splits prod.splits)

lemma block_for_write_size: "block_for_write inode i s = (b, inode', s') \<Longrightarrow> block_size s' = block_size s"
  using alloc_block_size [of s]
  by (auto simp: block_for_write_def Let_def split: if_splits prod.splits) (metis alloc_block_size snd_conv)+

function write_blocks :: "u8 list \<Rightarrow> u8 list \<Rightarrow> nat \<Rightarrow> ext2_fs \<Rightarrow> u8 list option \<times> ext2_fs" where
  "write_blocks inode data iblock s =
     (if data \<noteq> [] then
        if \<not> bufs s 0 then (None, s)
        else let bs = unat (block_size s); chunk = min (length data) bs;
                 block_buf = poke (replicate bs 0) 0 (take chunk data);
                 (block_num, inode', s') = block_for_write inode iblock s
             in if block_num = 0 then (None, s')
                else write_blocks inode' (drop chunk data) (iblock + 1) (ext2_write_block block_num block_buf s')
      else (Some inode, s))"
  by auto
termination
proof (relation "measure (\<lambda>(d, r, i, s). 12 + ptrs_per_block s - i)", goal_cases)
  case (2 inode data iblock s bs chunk block_buf x block_num y inode' s')
  then have "block_for_write inode iblock s = (block_num, inode', s')" by (metis prod.collapse)
  with 2 block_for_write_max [of inode iblock s block_num inode' s'] block_for_write_size [of inode iblock s block_num inode' s']
  show ?case by (simp add: ptrs_per_block_def)
qed simp

declare write_blocks.simps [simp del]

section \<open>Creating entries\<close>

definition align4 :: "nat \<Rightarrow> nat" where "align4 n = (n + 3) div 4 * 4"

text \<open>\<open>split_parent_child\<close>: the parent path and the last component, or None for -1.\<close>

definition split_parent_child :: "u8 list \<Rightarrow> nat \<Rightarrow> nat \<Rightarrow> (u8 list \<times> u8 list) option" where
  "split_parent_child path parent_sz child_sz =
     (if path = [] \<or> hd path \<noteq> SLASH then None
      else let child = rev (takeWhile (\<lambda>c. c \<noteq> SLASH) (rev path)); last_slash = length path - length child - 1 in
      if child = [] \<or> length child \<ge> child_sz then None
      else if last_slash = 0 then Some ([SLASH], child)
      else if last_slash \<ge> parent_sz then None
      else Some (take last_slash path, child))"

text \<open>Header and name of an entry at \<open>off\<close> whose record has \<open>rec\<close> bytes.\<close>

definition put_entry :: "u8 list \<Rightarrow> nat \<Rightarrow> u32 \<Rightarrow> u8 \<Rightarrow> u8 list \<Rightarrow> nat \<Rightarrow> u8 list" where
  "put_entry b off ino file_type name rec =
     (let b = put32 b off ino;
          b = poke b (off + 6) [of_nat (length name), file_type];
          b = poke b (off + 8) (replicate (rec - EXT2_DIRENT_HDR) 0)
      in poke b (off + 8) name)"

text \<open>The block with the new entry in the first record that has room for it.\<close>

function insert_scan :: "nat \<Rightarrow> nat \<Rightarrow> u8 list \<Rightarrow> u32 \<Rightarrow> u8 \<Rightarrow> u8 list \<Rightarrow> nat \<Rightarrow> u8 list option" where
  "insert_scan bs entry_size name new_ino file_type b off =
     (if off + EXT2_DIRENT_HDR \<le> bs then
        let rec_len = de_rec_len b off in
        if rec_len < EXT2_DIRENT_HDR then None
        else if off + rec_len > bs then None
        else if de_inode b off = 0 then
          if rec_len \<ge> entry_size then Some (put_entry b off new_ino file_type name rec_len)
          else insert_scan bs entry_size name new_ino file_type b (off + rec_len)
        else let min_size = align4 (EXT2_DIRENT_HDR + de_name_len b off) in
          if rec_len \<ge> min_size + entry_size then
            let remaining = rec_len - min_size;
                b = put16 b (off + 4) (of_nat min_size);
                b = put16 b (off + min_size + 4) (of_nat remaining)
            in Some (put_entry b (off + min_size) new_ino file_type name remaining)
          else insert_scan bs entry_size name new_ino file_type b (off + rec_len)
      else None)"
  by auto
termination
  by (relation "measure (\<lambda>(bs, e, n, i, t, b, off). bs - off)") (auto simp: EXT2_DIRENT_HDR_def)

declare insert_scan.simps [simp del]

text \<open>The direct blocks in order: whether the entry was placed, the block position where the loop stopped, the driver.\<close>

function insert_blocks :: "u8 list \<Rightarrow> nat \<Rightarrow> u8 list \<Rightarrow> u32 \<Rightarrow> u8 \<Rightarrow> nat \<Rightarrow> ext2_fs \<Rightarrow> bool \<times> nat \<times> ext2_fs" where
  "insert_blocks parent_inode entry_size name new_ino file_type iblock s =
     (if iblock < 12 \<and> iblock * unat (block_size s) < unat (i_size parent_inode) then
        if i_block parent_inode iblock = 0 then (False, iblock, s)
        else case insert_scan (unat (block_size s)) entry_size name new_ino file_type
                    (ext2_read_block (i_block parent_inode iblock) s) 0 of
               Some b \<Rightarrow> (True, iblock, ext2_write_block (i_block parent_inode iblock) b s)
             | None \<Rightarrow> insert_blocks parent_inode entry_size name new_ino file_type (iblock + 1) s
      else (False, iblock, s))"
  by auto
termination
  by (relation "measure (\<lambda>(d, e, n, i, t, k, s). 12 - k)") auto

declare insert_blocks.simps [simp del]

definition add_dirent_to_parent :: "u32 \<Rightarrow> u8 list \<Rightarrow> u32 \<Rightarrow> u8 \<Rightarrow> ext2_fs \<Rightarrow> int \<times> ext2_fs" where
  "add_dirent_to_parent parent_ino name new_ino file_type s =
     (case ext2_read_inode parent_ino s of
        None \<Rightarrow> (- 1, s)
      | Some parent_inode \<Rightarrow>
          if i_mode parent_inode AND EXT2_S_IFDIR = 0 then (- 1, s)
          else if length name = 0 \<or> length name \<ge> MAX_FILENAME then (- 1, s)
          else if \<not> bufs s 0 then (- 1, s)
          else let (found_space, iblock, s) =
                     insert_blocks parent_inode (align4 (EXT2_DIRENT_HDR + length name)) name new_ino file_type 0 s
          in if found_space then (0, snd (ext2_write_inode parent_ino parent_inode s))
          else if iblock \<ge> 12 then (- 1, s)
          else let (new_block, s) = ext2_alloc_block s in
          if new_block = 0 then (- 1, s)
          else let b = put16 (replicate (unat (block_size s)) 0) 4 (ucast (block_size s));
                   b = put_entry b 0 new_ino file_type name EXT2_DIRENT_HDR;
                   s = ext2_write_block new_block b s;
                   parent_inode = set_size (i_size parent_inode + block_size s) (set_block iblock new_block parent_inode)
               in (0, snd (ext2_write_inode parent_ino parent_inode s)))"

text \<open>The all-zero inode with the fields both creators set.\<close>

definition new_inode :: "u16 \<Rightarrow> u32 \<Rightarrow> u16 \<Rightarrow> u32 \<Rightarrow> u32 \<Rightarrow> u8 list" where
  "new_inode mode sz links blocks now =
     set_mtime now (set_ctime now (set_atime now
       (set_blocks_512 blocks (set_links links (set_size sz (set_mode mode (replicate INODE_SIZE 0)))))))"

definition ext2_create_file :: "u8 list \<Rightarrow> ext2_fs \<Rightarrow> int \<times> ext2_fs" where
  "ext2_create_file path s =
     (if path = [] \<or> hd path \<noteq> SLASH then (- 1, s)
      else if resolve_path path s \<noteq> 0 then (- 1, s)
      else case split_parent_child path MAX_PATH MAX_FILENAME of
        None \<Rightarrow> (- 1, s)
      | Some (parent_path, filename) \<Rightarrow>
          let parent_ino = resolve_path parent_path s in
          if parent_ino = 0 then (- 1, s)
          else let (new_ino, s) = ext2_alloc_inode s in
          if new_ino = 0 then (- 1, s)
          else let (r, s) = ext2_write_inode new_ino (new_inode (EXT2_S_IFREG OR 0x1A4) 0 1 0 (ext2_now s)) s in
          if r < 0 then (- 1, ext2_free_inode new_ino s)
          else let (r, s) = add_dirent_to_parent parent_ino filename new_ino EXT2_FT_REG_FILE s in
          if r < 0 then (- 1, ext2_free_inode new_ino s)
          else (0, ext2_sync_superblock s))"

text \<open>The part of \<open>ext2_write_file\<close> after the inode number is known.\<close>

definition write_inode_data :: "u32 \<Rightarrow> u8 list \<Rightarrow> ext2_fs \<Rightarrow> int \<times> ext2_fs" where
  "write_inode_data ino data s =
     (case ext2_read_inode ino s of
        None \<Rightarrow> (- 1, s)
      | Some inode \<Rightarrow>
          if i_mode inode AND EXT2_S_IFREG = 0 then (- 1, s)
          else case write_blocks inode data 0 s of
            (None, s) \<Rightarrow> (- 1, s)
          | (Some inode, s) \<Rightarrow>
              let len = of_nat (length data);
                  blocks_needed = (len + block_size s - 1) div block_size s;
                  meta_blocks = (if i_block inode 12 \<noteq> 0 then 1 else 0);
                  inode = set_size len inode;
                  inode = set_blocks_512 ((blocks_needed + meta_blocks) * (block_size s div 512)) inode;
                  inode = set_mtime (ext2_now s) (set_ctime (ext2_now s) inode);
                  s = snd (ext2_write_inode ino inode s);
                  s = ext2_sync_superblock s
              in (int (length data), s))"

definition ext2_write_file :: "u8 list \<Rightarrow> u8 list \<Rightarrow> ext2_fs \<Rightarrow> int \<times> ext2_fs" where
  "ext2_write_file path data s =
     (let ino = resolve_path path s in
      if ino = 0 then
        let (r, s) = ext2_create_file path s in
        if r < 0 then (- 1, s)
        else let ino = resolve_path path s in if ino = 0 then (- 1, s) else write_inode_data ino data s
      else write_inode_data ino data s)"

section \<open>Listing\<close>

record dirent =
  d_ino :: u32
  d_name :: "u8 list"
  d_type :: u32

function list_block :: "nat \<Rightarrow> nat \<Rightarrow> nat \<Rightarrow> u8 list \<Rightarrow> nat \<Rightarrow> dirent list \<Rightarrow> dirent list" where
  "list_block bs limit max_entries b off entries =
     (if off + EXT2_DIRENT_HDR \<le> bs \<and> off < limit \<and> length entries < max_entries then
        if de_rec_len b off < EXT2_DIRENT_HDR then entries
        else if off + de_rec_len b off > bs then entries
        else if de_inode b off = 0 then list_block bs limit max_entries b (off + de_rec_len b off) entries
        else let name_len = (if de_name_len b off \<ge> MAX_FILENAME then MAX_FILENAME - 1 else de_name_len b off) in
          if off + EXT2_DIRENT_HDR + name_len > bs then entries
          else let entries =
                 (if name_len > 0
                  then entries @ [\<lparr>d_ino = de_inode b off, d_name = cstr (de_name b off name_len),
                                    d_type = (if de_file_type b off = EXT2_FT_DIR then 1 else 0)\<rparr>]
                  else entries)
               in list_block bs limit max_entries b (off + de_rec_len b off) entries
      else entries)"
  by auto
termination
  by (relation "measure (\<lambda>(bs, l, m, b, off, e). bs - off)") (auto simp: EXT2_DIRENT_HDR_def)

declare list_block.simps [simp del]

function list_blocks :: "u8 list \<Rightarrow> nat \<Rightarrow> u32 \<Rightarrow> nat \<Rightarrow> dirent list \<Rightarrow> ext2_fs \<Rightarrow> dirent list" where
  "list_blocks inode max_entries bytes_left iblock entries s =
     (if bytes_left > 0 \<and> length entries < max_entries then
        case ext2_read_inode_block inode iblock s of
          None \<Rightarrow> entries
        | Some b \<Rightarrow>
            list_blocks inode max_entries (bytes_left - block_size s) (iblock + 1)
              (list_block (unat (block_size s)) (unat bytes_left) max_entries b 0 entries) s
      else entries)"
  by auto
termination
  by (relation "measure (\<lambda>(d, m, l, i, e, s). max_iblock s - i)") (auto dest: read_inode_block_max)

declare list_blocks.simps [simp del]

definition ext2_readdir :: "u8 list \<Rightarrow> nat \<Rightarrow> ext2_fs \<Rightarrow> dirent list option" where
  "ext2_readdir path max_entries s =
     (let ino = resolve_path path s in
      if ino = 0 then None
      else case ext2_read_inode ino s of
        None \<Rightarrow> None
      | Some inode \<Rightarrow>
          if i_mode inode AND EXT2_S_IFDIR = 0 then None
          else Some (list_blocks inode max_entries (i_size inode) 0 [] s))"

section \<open>Directories\<close>

text \<open>The first block of a new directory.\<close>

definition dot_entries :: "u32 \<Rightarrow> u32 \<Rightarrow> u32 \<Rightarrow> u8 list" where
  "dot_entries bs new_ino parent_ino =
     (let b = put_entry (put16 (replicate (unat bs) 0) 4 12) 0 new_ino EXT2_FT_DIR [DOT] EXT2_DIRENT_HDR
      in put_entry (put16 b 16 (ucast (bs - 12))) 12 parent_ino EXT2_FT_DIR [DOT, DOT] EXT2_DIRENT_HDR)"

definition ext2_mkdir :: "u8 list \<Rightarrow> ext2_fs \<Rightarrow> int \<times> ext2_fs" where
  "ext2_mkdir path s =
     (if path = [] \<or> hd path \<noteq> SLASH then (- 1, s)
      else if resolve_path path s \<noteq> 0 then (- 1, s)
      else case split_parent_child path MAX_PATH MAX_FILENAME of
        None \<Rightarrow> (- 1, s)
      | Some (parent_path, dirname) \<Rightarrow>
          let parent_ino = resolve_path parent_path s in
          if parent_ino = 0 then (- 1, s)
          else let (new_ino, s) = ext2_alloc_inode s in
          if new_ino = 0 then (- 1, s)
          else let inode = new_inode (EXT2_S_IFDIR OR 0x1FF) (block_size s) 2 (block_size s div 512) (ext2_now s);
                   (first_block, s) = ext2_alloc_block s in
          if first_block = 0 then (- 1, ext2_free_inode new_ino s)
          else let inode = set_block 0 first_block inode in
          if \<not> bufs s 0 then (- 1, ext2_free_inode new_ino (ext2_free_block first_block s))
          else let s = ext2_write_block first_block (dot_entries (block_size s) new_ino parent_ino) s;
                   (r, s) = ext2_write_inode new_ino inode s in
          if r < 0 then (- 1, ext2_free_inode new_ino (ext2_free_block first_block s))
          else let (r, s) = add_dirent_to_parent parent_ino dirname new_ino EXT2_FT_DIR s in
          if r < 0 then (- 1, ext2_free_inode new_ino (snd (free_inode_blocks inode s)))
          else let s = (case ext2_read_inode parent_ino s of
                          None \<Rightarrow> s
                        | Some pinode \<Rightarrow> snd (ext2_write_inode parent_ino (set_links (i_links pinode + 1) pinode) s));
                   s = bgd_adjust_dir_count 1 s
               in (0, ext2_sync_superblock s))"

section \<open>Removal\<close>

text \<open>Whether a block of a directory holds an entry other than the two dots.\<close>

function block_in_use :: "nat \<Rightarrow> nat \<Rightarrow> u8 list \<Rightarrow> nat \<Rightarrow> bool" where
  "block_in_use bs limit b off =
     (if off + EXT2_DIRENT_HDR \<le> bs \<and> off < limit then
        if de_rec_len b off < EXT2_DIRENT_HDR then False
        else if off + de_rec_len b off > bs then False
        else let nl = de_name_len b off in
          if off + EXT2_DIRENT_HDR + nl > bs then False
          else if de_inode b off \<noteq> 0 \<and> \<not> (nl = 1 \<and> b ! (off + 8) = DOT) \<and>
                  \<not> (nl = 2 \<and> b ! (off + 8) = DOT \<and> b ! (off + 9) = DOT) then True
          else block_in_use bs limit b (off + de_rec_len b off)
      else False)"
  by auto
termination
  by (relation "measure (\<lambda>(bs, l, b, off). bs - off)") (auto simp: EXT2_DIRENT_HDR_def)

declare block_in_use.simps [simp del]

function dir_in_use :: "u8 list \<Rightarrow> u32 \<Rightarrow> nat \<Rightarrow> ext2_fs \<Rightarrow> bool" where
  "dir_in_use dir_inode bytes_left iblock s =
     (if bytes_left > 0 then
        case ext2_read_inode_block dir_inode iblock s of
          None \<Rightarrow> False
        | Some b \<Rightarrow>
            if block_in_use (unat (block_size s)) (unat bytes_left) b 0 then True
            else if bytes_left < block_size s then False
            else dir_in_use dir_inode (bytes_left - block_size s) (iblock + 1) s
      else False)"
  by auto
termination
  by (relation "measure (\<lambda>(d, l, i, s). max_iblock s - i)") (auto dest: read_inode_block_max)

declare dir_in_use.simps [simp del]

text \<open>The block with the entry of the given name cleared.\<close>

function remove_scan :: "nat \<Rightarrow> nat \<Rightarrow> u8 list \<Rightarrow> u8 list \<Rightarrow> nat \<Rightarrow> u8 list option" where
  "remove_scan bs limit child_name b off =
     (if off + EXT2_DIRENT_HDR \<le> bs \<and> off < limit then
        if de_rec_len b off < EXT2_DIRENT_HDR then None
        else if off + de_rec_len b off > bs then None
        else let nl = de_name_len b off in
          if off + EXT2_DIRENT_HDR + nl > bs then None
          else if de_inode b off \<noteq> 0 \<and> nl = length child_name \<and> nl < MAX_FILENAME \<and> cstr (de_name b off nl) = child_name
          then Some (put32 b off 0)
          else remove_scan bs limit child_name b (off + de_rec_len b off)
      else None)"
  by auto
termination
  by (relation "measure (\<lambda>(bs, l, n, b, off). bs - off)") (auto simp: EXT2_DIRENT_HDR_def)

declare remove_scan.simps [simp del]

function remove_blocks :: "u8 list \<Rightarrow> u8 list \<Rightarrow> u32 \<Rightarrow> nat \<Rightarrow> ext2_fs \<Rightarrow> bool \<times> ext2_fs" where
  "remove_blocks parent_inode child_name bytes_left piblock s =
     (if bytes_left > 0 \<and> piblock < 12 then
        if i_block parent_inode piblock = 0 then (False, s)
        else case ext2_read_inode_block parent_inode piblock s of
          None \<Rightarrow> (False, s)
        | Some b \<Rightarrow>
            (case remove_scan (unat (block_size s)) (unat bytes_left) child_name b 0 of
               Some b \<Rightarrow> (True, ext2_write_block (i_block parent_inode piblock) b s)
             | None \<Rightarrow>
                 if bytes_left < block_size s then (False, s)
                 else remove_blocks parent_inode child_name (bytes_left - block_size s) (piblock + 1) s)
      else (False, s))"
  by auto
termination
  by (relation "measure (\<lambda>(d, n, l, i, s). 12 - i)") auto

declare remove_blocks.simps [simp del]

text \<open>The link count of the removed inode, and its release when no link is left.\<close>

definition drop_link :: "u32 \<Rightarrow> u8 list \<Rightarrow> ext2_fs \<Rightarrow> ext2_fs" where
  "drop_link ino inode s =
     (if i_links inode > 0 then
        let inode = set_links (i_links inode - 1) inode in
        if i_links inode = 0 then
          let (inode, s) = free_inode_blocks inode s;
              inode = set_size 0 (set_dtime (ext2_now s) inode);
              s = snd (ext2_write_inode ino inode s)
          in ext2_free_inode ino s
        else snd (ext2_write_inode ino inode s)
      else s)"

definition ext2_unlink :: "u8 list \<Rightarrow> ext2_fs \<Rightarrow> int \<times> ext2_fs" where
  "ext2_unlink path s =
     (if path = [] \<or> hd path \<noteq> SLASH then (- 1, s)
      else let ino = resolve_path path s in
      if ino = 0 \<or> ino < EXT2_ROOT_INO then (- 1, s)
      else case ext2_read_inode ino s of
        None \<Rightarrow> (- 1, s)
      | Some inode \<Rightarrow>
          let isdir = (i_mode inode AND EXT2_S_IFDIR \<noteq> 0) in
          if isdir \<and> dir_in_use inode (i_size inode) 0 s then (- 1, s)
          else case split_parent_child path MAX_PATH MAX_FILENAME of
            None \<Rightarrow> (- 1, s)
          | Some (parent_path, child_name) \<Rightarrow>
              let parent_ino = resolve_path parent_path s in
              if parent_ino = 0 then (- 1, s)
              else case ext2_read_inode parent_ino s of
                None \<Rightarrow> (- 1, s)
              | Some parent_inode \<Rightarrow>
                  let (removed, s) = remove_blocks parent_inode child_name (i_size parent_inode) 0 s in
                  if \<not> removed then (- 1, s)
                  else let parent_inode = (if isdir then set_links (i_links parent_inode - 1) parent_inode else parent_inode);
                           s = drop_link ino inode s;
                           s = snd (ext2_write_inode parent_ino parent_inode s);
                           s = (if isdir then bgd_adjust_dir_count (- 1) s else s)
                       in (0, ext2_sync_superblock s))"

end
