(* ===== verification/Ext2_Alloc.thy ===== *)
theory Ext2_Alloc
  imports Ext2
begin

text \<open>
  The block allocator of \<open>src/kernel/ext2.c\<close> against the set of used blocks: which blocks the bitmap of group 0 calls used,
  what \<open>ext2_alloc_block\<close> and \<open>ext2_free_block\<close> do to that set, and what they leave alone.
\<close>

section \<open>The bitmap as a set\<close>

definition gd :: "ext2_fs \<Rightarrow> u8 list" where
  "gd s = take BGD_SIZE (ext2_read_block (bgd_block s) s)"

definition bmap :: "ext2_fs \<Rightarrow> u32" where "bmap s = block_bitmap (gd s)"

definition bit_at :: "u8 list \<Rightarrow> nat \<Rightarrow> bool" where "bit_at b i = bit (b ! (i div 8)) (i mod 8)"

definition used :: "ext2_fs \<Rightarrow> u32 \<Rightarrow> bool" where
  "used s b \<longleftrightarrow> sb_first_data_block (sb s) \<le> b \<and> unat (block_to_bit b s) < 8 * unat (block_size s) \<and>
     bit_at (ext2_read_block (bmap s) s) (unat (block_to_bit b s))"

definition desc :: "ext2_fs \<Rightarrow> u32 \<times> u32 \<times> u32" where
  "desc s = (block_bitmap (gd s), inode_bitmap (gd s), inode_table (gd s))"

definition same_geom :: "ext2_fs \<Rightarrow> ext2_fs \<Rightarrow> bool" where
  "same_geom s s' \<longleftrightarrow> drive s' = drive s \<and> part_start_lba s' = part_start_lba s \<and> block_size s' = block_size s \<and>
     inodes_per_group s' = inodes_per_group s \<and> blocks_per_group s' = blocks_per_group s \<and> bgd_block s' = bgd_block s \<and>
     inode_size s' = inode_size s \<and> bufs s' = bufs s \<and> clock s' = clock s \<and> length (sb s') = length (sb s) \<and>
     sb_total_blocks (sb s') = sb_total_blocks (sb s) \<and> sb_first_data_block (sb s') = sb_first_data_block (sb s)"

text \<open>A mounted volume whose descriptor and bitmap of group 0 are two different used blocks of it.\<close>

definition fs_ok :: "ext2_fs \<Rightarrow> bool" where
  "fs_ok s \<longleftrightarrow> vol_ok s \<and> geometry_ok s \<and> (\<forall>n. bufs s n) \<and> length (sb s) = SB_SIZE \<and>
     in_vol s (bgd_block s) \<and> in_vol s (bmap s) \<and> bgd_block s \<noteq> bmap s \<and> used s (bgd_block s) \<and> used s (bmap s) \<and>
     sb_first_data_block (sb s) \<le> 1 \<and> (sb_first_data_block (sb s) = 0 \<longrightarrow> used s 0)"

lemma fs_ok_parts:
  assumes "fs_ok s"
  shows "vol_ok s" "geometry_ok s" "bufs s n" "length (sb s) = 1024" "in_vol s (bgd_block s)" "in_vol s (bmap s)"
    "bgd_block s \<noteq> bmap s" "used s (bgd_block s)" "used s (bmap s)" "sb_first_data_block (sb s) \<le> 1"
    "sb_first_data_block (sb s) = 0 \<Longrightarrow> used s 0"
  using assms by (simp_all add: fs_ok_def SB_SIZE_def)

lemma bit_at_set:
  assumes "i div 8 < length b" "j div 8 < length b"
  shows "bit_at (set_bit_at i b) j \<longleftrightarrow> j = i \<or> bit_at b j"
proof (cases "j div 8 = i div 8")
  case True
  moreover from True have "j mod 8 = i mod 8 \<longleftrightarrow> j = i" by (metis div_mult_mod_eq)
  ultimately show ?thesis using assms by (auto simp: bit_at_def set_bit_at_def mask_simps)
qed (use assms in \<open>auto simp: bit_at_def set_bit_at_def\<close>)

lemma bit_at_clear:
  assumes "i div 8 < length b" "j div 8 < length b"
  shows "bit_at (clear_bit_at i b) j \<longleftrightarrow> j \<noteq> i \<and> bit_at b j"
proof (cases "j div 8 = i div 8")
  case True
  moreover from True have "j mod 8 = i mod 8 \<longleftrightarrow> j = i" by (metis div_mult_mod_eq)
  ultimately show ?thesis using assms by (auto simp: bit_at_def clear_bit_at_def mask_simps)
qed (use assms in \<open>auto simp: bit_at_def clear_bit_at_def\<close>)

lemma length_set_bit [simp]: "length (set_bit_at i b) = length b" "length (clear_bit_at i b) = length b"
  by (simp_all add: set_bit_at_def clear_bit_at_def)

lemma same_geom_refl [simp]: "same_geom s s"
  by (simp add: same_geom_def)

lemma same_geom_trans: "same_geom s t \<Longrightarrow> same_geom t u \<Longrightarrow> same_geom s u"
  by (simp add: same_geom_def)

lemma same_geom_write [simp]: "same_geom s (ext2_write_block b d s)"
  by (simp add: same_geom_def)

lemma same_geom_derived:
  assumes "same_geom s s'"
  shows "in_vol s' = in_vol s" "block_data s' = block_data s" "ptrs_per_block s' = ptrs_per_block s"
    "block_to_bit b s' = block_to_bit b s" "geometry_ok s' = geometry_ok s" "ext2_now s' = ext2_now s"
  using assms by (auto simp: same_geom_def in_vol_def block_data_def ptrs_per_block_def block_to_bit_def geometry_ok_def ext2_now_def)

section \<open>Group descriptor 0\<close>

lemma bgd_place_0: "bgd_place 0 s = (bgd_block s, 0)"
  by (simp add: bgd_place_def Let_def)

lemma read_bgd_0: "bufs s 4 \<Longrightarrow> read_block_group_bgd 0 s = Some (gd s)"
  by (simp add: read_block_group_bgd_def bgd_place_0 gd_def)

lemma write_bgd_0: "bufs s 4 \<Longrightarrow> write_bgd 0 d s = ext2_write_block (bgd_block s) (poke (ext2_read_block (bgd_block s) s) 0 d) s"
  by (simp add: write_bgd_def bgd_place_0)

lemma length_gd: "fs_ok s \<Longrightarrow> length (gd s) = 32"
  using bgd_place_bound [of s 0] by (simp add: gd_def BGD_SIZE_def bgd_place_0 fs_ok_parts min_def)

lemma read_block_sb [simp]: "ext2_read_block b (s\<lparr>sb := v\<rparr>) = ext2_read_block b s"
  by (simp add: read_block_sectors sector_of_def block_to_lba_def)

lemma sb_noop: "sb s = v \<Longrightarrow> s\<lparr>sb := v\<rparr> = s"
  by auto

lemma gd_sb [simp]: "gd (s\<lparr>sb := v\<rparr>) = gd s"
  by (simp add: gd_def)

text \<open>A change of the counters only.\<close>

definition counters :: "u8 list \<Rightarrow> u8 list \<Rightarrow> bool" where
  "counters g g' \<longleftrightarrow> length g' = length g \<and> block_bitmap g' = block_bitmap g \<and> inode_bitmap g' = inode_bitmap g \<and> inode_table g' = inode_table g"

definition sb_counters :: "u8 list \<Rightarrow> u8 list \<Rightarrow> bool" where
  "sb_counters v v' \<longleftrightarrow> length v' = length v \<and> sb_total_blocks v' = sb_total_blocks v \<and> sb_first_data_block v' = sb_first_data_block v"

lemma counters_put16:
  assumes "length g = 32" "k \<in> {12, 14, 16}"
  shows "counters g (put16 g k x)"
  using assms by (auto simp: counters_def block_bitmap_def inode_bitmap_def inode_table_def get32_poke)

lemma counters_refl [simp]: "counters g g" "sb_counters v v"
  by (simp_all add: counters_def sb_counters_def)

lemma sb_counters_put32:
  assumes "length v = 1024" "k \<in> {12, 16}"
  shows "sb_counters v (put32 v k x)"
  using assms by (auto simp: sb_counters_def sb_total_blocks_def sb_first_data_block_def get32_poke)

text \<open>The state after a bitmap, descriptor and superblock update, before the new block is cleared.\<close>

definition remap :: "u8 list \<Rightarrow> u8 list \<Rightarrow> u8 list \<Rightarrow> ext2_fs \<Rightarrow> ext2_fs" where
  "remap bm g v s = (ext2_write_block (bgd_block s) (poke (ext2_read_block (bgd_block s) s) 0 g) (ext2_write_block (bmap s) bm s))\<lparr>sb := v\<rparr>"

lemma remap_props:
  assumes "fs_ok s" "block_data s bm" "counters (gd s) g" "sb_counters (sb s) v"
  shows "same_geom s (remap bm g v s)" "vol_ok (remap bm g v s)" "desc (remap bm g v s) = desc s"
    "ext2_read_block (bmap s) (remap bm g v s) = bm"
    "in_vol s c \<Longrightarrow> c \<noteq> bmap s \<Longrightarrow> c \<noteq> bgd_block s \<Longrightarrow> ext2_read_block c (remap bm g v s) = ext2_read_block c s"
proof -
  note p = fs_ok_parts [OF assms(1)]
  let ?p = "poke (ext2_read_block (bgd_block s) s) 0 g"
  let ?t = "ext2_write_block (bmap s) bm s"
  have g: "length g = 32" using assms(3) length_gd [OF assms(1)] by (simp add: counters_def)
  have bs: "32 \<le> unat (block_size s)" using p(1) by (cases rule: block_size_cases) simp_all
  with g p have pd: "block_data s ?p" by (simp add: block_data_def)
  have t: "vol_ok ?t" using p(1) assms(2) by simp
  show "same_geom s (remap bm g v s)"
    using assms(4) by (simp add: remap_def same_geom_def sb_counters_def)
  have "vol_ok (ext2_write_block (bgd_block s) ?p ?t)" using t pd by simp
  with assms(4) show "vol_ok (remap bm g v s)" by (simp add: remap_def vol_ok_def sb_counters_def)
  have "ext2_read_block (bgd_block s) (remap bm g v s) = ?p"
    using p t pd by (simp add: remap_def blk_read_write)
  then have "gd (remap bm g v s) = g"
    using g by (simp add: gd_def remap_def poke_def BGD_SIZE_def)
  with assms(3) show "desc (remap bm g v s) = desc s" by (simp add: desc_def counters_def)
  show "ext2_read_block (bmap s) (remap bm g v s) = bm"
    using p t assms(2) by (simp add: remap_def blk_write_other blk_read_write)
  show "ext2_read_block c (remap bm g v s) = ext2_read_block c s" if "in_vol s c" "c \<noteq> bmap s" "c \<noteq> bgd_block s"
    using p t that by (simp add: remap_def blk_write_other)
qed

lemma find_free_bit_Some:
  "find_free_bit b n = Some i \<Longrightarrow> i < n \<and> \<not> bit_at b i \<and> (\<forall>j<i. bit_at b j)"
  unfolding find_free_bit_def find_idx_Some by (simp add: bit_at_def mask_simps)

lemma alloc_shape:
  assumes "fs_ok s" "ext2_alloc_block s = (b, s')" "b \<noteq> 0"
  obtains i g v where "find_free_bit (ext2_read_block (bmap s) s) (group_bits (blocks_per_group s) s) = Some i"
    "b = bit_to_block (of_nat i) s" "in_vol s b" "counters (gd s) g" "sb_counters (sb s) v"
    "s' = ext2_write_block b (replicate (unat (block_size s)) 0) (remap (set_bit_at i (ext2_read_block (bmap s) s)) g v s)"
proof -
  note p = fs_ok_parts [OF assms(1)]
  let ?bm = "ext2_read_block (bmap s) s"
  obtain i where i: "find_free_bit ?bm (group_bits (blocks_per_group s) s) = Some i" "bit_to_block (of_nat i) s < sb_total_blocks (sb s)"
    using assms p by (auto simp: ext2_alloc_block_def read_bgd_0 bmap_def Let_def not_le split: option.splits if_splits)
  define g where "g = (if free_blocks_count (gd s) > 0 then put16 (gd s) 12 (free_blocks_count (gd s) - 1) else gd s)"
  define v where "v = (if sb_free_blocks (sb s) > 0 then put32 (sb s) 12 (sb_free_blocks (sb s) - 1) else sb s)"
  have g: "counters (gd s) g" using length_gd [OF assms(1)] by (simp add: g_def counters_put16)
  have v: "sb_counters (sb s) v" using p(4) by (simp add: v_def sb_counters_put32)
  from i(2) have "\<not> sb_total_blocks (sb s) \<le> bit_to_block (of_nat i) s" by simp
  with i(1) p have "ext2_alloc_block s = (bit_to_block (of_nat i) s,
      ext2_write_block (bit_to_block (of_nat i) s) (replicate (unat (block_size s)) 0) (remap (set_bit_at i ?bm) g v s))"
    by (simp add: ext2_alloc_block_def read_bgd_0 write_bgd_0 bmap_def [symmetric] g_def [symmetric] remap_def v_def blk_write_other
        Let_def sb_noop)
  with assms(2) have "s' = ext2_write_block b (replicate (unat (block_size s)) 0) (remap (set_bit_at i ?bm) g v s)"
      "b = bit_to_block (of_nat i) s" by auto
  with i g v show ?thesis using that by (simp add: in_vol_def)
qed

section \<open>Allocation and release on the set of used blocks\<close>

lemma block_bits: "vol_ok s \<Longrightarrow> 8 * unat (block_size s) \<le> 32768" "vol_ok s \<Longrightarrow> unat (block_size s * 8) = 8 * unat (block_size s)"
  by (erule block_size_cases; simp)+

lemma group_bits_le: "vol_ok s \<Longrightarrow> group_bits n s \<le> 8 * unat (block_size s)"
  by (erule block_size_cases) (auto simp: group_bits_def word_le_nat_alt word_less_nat_alt)

lemma bit_index:
  assumes "vol_ok s" "i < 8 * unat (block_size s)" "b = bit_to_block (of_nat i) s" "in_vol s b" "b \<noteq> 0"
    "sb_first_data_block (sb s) \<le> 1"
  shows "unat (block_to_bit b s) = i" "sb_first_data_block (sb s) \<le> b"
proof -
  have "i < 32769" using assms(2) block_bits(1) [OF assms(1)] by linarith
  then have i: "unat (of_nat i :: u32) = i" by (simp add: unat_of_nat)
  with assms(3) show "unat (block_to_bit b s) = i" by (simp add: block_to_bit_def bit_to_block_def)
  have "1 \<le> b" using assms(5) by (simp add: word_le_nat_alt Suc_le_eq unat_gt_0)
  with assms(6) show "sb_first_data_block (sb s) \<le> b" by (rule order_trans)
qed

text \<open>Blocks of group 0, the ones the bitmap describes.\<close>

definition in_group0 :: "ext2_fs \<Rightarrow> u32 \<Rightarrow> bool" where
  "in_group0 s b \<longleftrightarrow> sb_first_data_block (sb s) \<le> b \<and> unat (block_to_bit b s) < 8 * unat (block_size s)"

lemma block_to_bit_inj: "block_to_bit b s = block_to_bit c s \<longleftrightarrow> b = c"
  by (simp add: block_to_bit_def)

lemma alloc_block_props:
  assumes "fs_ok s" "ext2_alloc_block s = (b, s')" "b \<noteq> 0"
  shows "in_vol s b" "in_group0 s b" "\<not> used s b" "b \<noteq> bmap s" "b \<noteq> bgd_block s"
    "same_geom s s'" "desc s' = desc s" "fs_ok s'"
    "used s' c \<longleftrightarrow> used s c \<or> c = b"
    "ext2_read_block b s' = replicate (unat (block_size s)) 0"
    "in_vol s c \<Longrightarrow> c \<noteq> bmap s \<Longrightarrow> c \<noteq> bgd_block s \<Longrightarrow> c \<noteq> b \<Longrightarrow> ext2_read_block c s' = ext2_read_block c s"
proof -
  note p = fs_ok_parts [OF assms(1)]
  let ?bm = "ext2_read_block (bmap s) s"
  let ?z = "replicate (unat (block_size s)) 0"
  obtain i g v where i: "find_free_bit ?bm (group_bits (blocks_per_group s) s) = Some i"
    and b: "b = bit_to_block (of_nat i) s" "in_vol s b" and g: "counters (gd s) g" "sb_counters (sb s) v"
    and s': "s' = ext2_write_block b ?z (remap (set_bit_at i ?bm) g v s)"
    using alloc_shape [OF assms(1-3)] by blast
  have lt: "i < 8 * unat (block_size s)" "\<not> bit_at ?bm i"
    using find_free_bit_Some [OF i] group_bits_le [OF p(1), of "blocks_per_group s"] by auto
  note bi = bit_index [OF p(1) lt(1) b(1,2) assms(3) p(10)]
  have bm: "block_data s (set_bit_at i ?bm)" using p(1) by (simp add: block_data_def)
  note r = remap_props [OF assms(1) bm g]
  show "in_vol s b" "in_group0 s b" using b lt bi by (simp_all add: in_group0_def)
  show nu: "\<not> used s b" using lt bi by (simp add: used_def)
  with p show ne: "b \<noteq> bmap s" "b \<noteq> bgd_block s" by auto
  have vol: "in_vol (remap (set_bit_at i ?bm) g v s) = in_vol s" "block_data (remap (set_bit_at i ?bm) g v s) = block_data s"
    using same_geom_derived [OF r(1)] by simp_all
  show sg: "same_geom s s'" using r(1) s' same_geom_trans by fastforce
  have other: "ext2_read_block c s' = ext2_read_block c (remap (set_bit_at i ?bm) g v s)" if "in_vol s c" "c \<noteq> b" for c
    using that r(2) b vol by (simp add: s' blk_write_other)
  have bgd: "bgd_block s' = bgd_block s" "bgd_block (remap (set_bit_at i ?bm) g v s) = bgd_block s" using sg r(1) by (simp_all add: same_geom_def)
  have "gd s' = gd (remap (set_bit_at i ?bm) g v s)"
    using other [OF p(5)] ne bgd by (simp add: gd_def)
  with r(3) show d: "desc s' = desc s" by (simp add: desc_def)
  then have bm': "bmap s' = bmap s" by (simp add: desc_def bmap_def)
  have "ext2_read_block (bmap s') s' = set_bit_at i ?bm"
    using other [OF p(6)] ne r(4) bm' by simp
  then show used: "used s' c \<longleftrightarrow> used s c \<or> c = b" for c
  proof -
    have "unat (block_to_bit c s) = i \<longleftrightarrow> c = b"
      using bi(1) block_to_bit_inj [of c s b] by (metis word_unat_eq_iff)
    then show ?thesis
      using sg lt bi p(1) \<open>ext2_read_block (bmap s') s' = set_bit_at i ?bm\<close> same_geom_derived(4) [OF sg]
      by (auto simp: used_def same_geom_def bit_at_set less_mult_imp_div_less mult.commute [of 8])
  qed
  show "ext2_read_block b s' = ?z"
    using r(2) b vol by (simp add: s' blk_read_write block_data_def)
  show "ext2_read_block c s' = ext2_read_block c s" if "in_vol s c" "c \<noteq> bmap s" "c \<noteq> bgd_block s" "c \<noteq> b"
    using that other r(5) by simp
  have "vol_ok s'" using r(2) vol by (simp add: s' block_data_def)
  with p used sg bm' show "fs_ok s'"
    by (auto simp: fs_ok_def same_geom_def SB_SIZE_def same_geom_derived [OF sg])
qed

lemma find_free_bit_None: "find_free_bit b n = None \<Longrightarrow> j < n \<Longrightarrow> bit_at b j"
  by (simp add: find_free_bit_def bit_at_def mask_simps)

lemma alloc_block_fails:
  assumes "fs_ok s" "ext2_alloc_block s = (0, s')"
  shows "s' = s \<and> (case find_free_bit (ext2_read_block (bmap s) s) (group_bits (blocks_per_group s) s) of
    None \<Rightarrow> True | Some i \<Rightarrow> sb_total_blocks (sb s) \<le> bit_to_block (of_nat i) s)"
proof (cases "find_free_bit (ext2_read_block (bmap s) s) (group_bits (blocks_per_group s) s)")
  case None
  with assms show ?thesis by (auto simp: ext2_alloc_block_def read_bgd_0 bmap_def fs_ok_parts)
next
  case (Some i)
  note p = fs_ok_parts [OF assms(1)]
  have "bit_to_block (of_nat i) s \<noteq> 0"
  proof
    assume z: "bit_to_block (of_nat i) s = 0"
    have "i < 32769"
      using find_free_bit_Some [OF Some] group_bits_le [OF p(1), of "blocks_per_group s"] block_bits(1) [OF p(1)] by linarith
    then have i: "unat (of_nat i :: u32) = i" by (simp add: unat_of_nat)
    have "unat (sb_first_data_block (sb s)) \<le> 1" using p(10) by (simp add: word_le_nat_alt)
    with z i \<open>i < 32769\<close> have "i = 0" "sb_first_data_block (sb s) = 0"
      by (auto simp: bit_to_block_def unat_word_ariths word_unat_eq_iff)
    with p(11) have "bit_at (ext2_read_block (bmap s) s) i" by (simp add: used_def block_to_bit_def)
    with find_free_bit_Some [OF Some] show False by simp
  qed
  with assms p Some show ?thesis
    by (cases "sb_total_blocks (sb s) \<le> bit_to_block (of_nat i) s") (auto simp: ext2_alloc_block_def read_bgd_0 bmap_def Let_def)
qed

lemma alloc_block_full:
  assumes "fs_ok s" "ext2_alloc_block s = (0, s')" "in_vol s c" "sb_first_data_block (sb s) \<le> c"
    "unat (block_to_bit c s) < unat (blocks_per_group s)"
  shows "used s c"
proof -
  note p = fs_ok_parts [OF assms(1)]
  let ?bm = "ext2_read_block (bmap s) s"
  have gb: "group_bits (blocks_per_group s) s = unat (blocks_per_group s)" "unat (blocks_per_group s) \<le> 8 * unat (block_size s)"
    using p(2) block_bits(2) [OF p(1)] by (auto simp: geometry_ok_def group_bits_def not_less word_le_nat_alt word_less_nat_alt)
  have "bit_at ?bm (unat (block_to_bit c s))"
  proof (cases "find_free_bit ?bm (group_bits (blocks_per_group s) s)")
    case None
    with gb assms(5) show ?thesis by (simp add: find_free_bit_None)
  next
    case (Some i)
    have "i < 32769"
      using find_free_bit_Some [OF Some] gb block_bits(1) [OF p(1)] by linarith
    then have i: "unat (of_nat i :: u32) = i" by (simp add: unat_of_nat)
    have f: "unat (sb_first_data_block (sb s)) \<le> 1" using p(10) by (simp add: word_le_nat_alt)
    have "sb_total_blocks (sb s) \<le> bit_to_block (of_nat i) s" using alloc_block_fails [OF assms(1,2)] Some by simp
    with assms(3) have "c < bit_to_block (of_nat i) s" by (simp add: in_vol_def)
    then have "unat c < unat (sb_first_data_block (sb s)) + i"
      using f i \<open>i < 32769\<close> by (simp add: word_less_nat_alt bit_to_block_def unat_word_ariths)
    moreover have "unat (block_to_bit c s) = unat c - unat (sb_first_data_block (sb s))"
      using assms(4) by (simp add: block_to_bit_def unat_sub)
    ultimately have "unat (block_to_bit c s) < i" using assms(4) by (simp add: word_le_nat_alt)
    with find_free_bit_Some [OF Some] show ?thesis by simp
  qed
  with gb assms show ?thesis by (simp add: used_def)
qed

lemma free_block_props:
  assumes "fs_ok s" "used s b" "b \<noteq> bmap s" "b \<noteq> bgd_block s" "b \<noteq> 0"
  shows "same_geom s (ext2_free_block b s)" "desc (ext2_free_block b s) = desc s" "fs_ok (ext2_free_block b s)"
    "used (ext2_free_block b s) c \<longleftrightarrow> used s c \<and> c \<noteq> b"
    "in_vol s c \<Longrightarrow> c \<noteq> bmap s \<Longrightarrow> c \<noteq> bgd_block s \<Longrightarrow> ext2_read_block c (ext2_free_block b s) = ext2_read_block c s"
proof -
  note p = fs_ok_parts [OF assms(1)]
  let ?bm = "ext2_read_block (bmap s) s"
  let ?i = "unat (block_to_bit b s)"
  define g where "g = put16 (gd s) 12 (free_blocks_count (gd s) + 1)"
  define v where "v = put32 (sb s) 12 (sb_free_blocks (sb s) + 1)"
  have g: "counters (gd s) g" "sb_counters (sb s) v" using length_gd [OF assms(1)] p(4) by (simp_all add: g_def v_def counters_put16 sb_counters_put32)
  have u: "sb_first_data_block (sb s) \<le> b" "?i < 8 * unat (block_size s)" "bit_at ?bm ?i" using assms(2) by (simp_all add: used_def)
  have "\<not> block_size s * 8 \<le> block_to_bit b s"
    using u(2) block_bits(2) [OF p(1)] by (simp add: word_le_nat_alt)
  with u p have s': "ext2_free_block b s = remap (clear_bit_at ?i ?bm) g v s"
    by (simp add: ext2_free_block_def read_bgd_0 write_bgd_0 bmap_def [symmetric] Let_def remap_def g_def v_def blk_write_other
        mask_simps bit_at_def not_less)
  have bm: "block_data s (clear_bit_at ?i ?bm)" using p(1) by (simp add: block_data_def)
  note r = remap_props [OF assms(1) bm g]
  show sg: "same_geom s (ext2_free_block b s)" and d: "desc (ext2_free_block b s) = desc s" using r s' by simp_all
  then have bm': "bmap (ext2_free_block b s) = bmap s" by (simp add: desc_def bmap_def)
  show used: "used (ext2_free_block b s) c \<longleftrightarrow> used s c \<and> c \<noteq> b" for c
  proof -
    have "unat (block_to_bit c s) = ?i \<longleftrightarrow> c = b"
      using block_to_bit_inj [of c s b] by (metis word_unat_eq_iff)
    then show ?thesis
      using sg u p(1) r(4) s' bm' same_geom_derived(4) [OF sg]
      by (auto simp: used_def same_geom_def bit_at_clear less_mult_imp_div_less mult.commute [of 8])
  qed
  show "ext2_read_block c (ext2_free_block b s) = ext2_read_block c s" if "in_vol s c" "c \<noteq> bmap s" "c \<noteq> bgd_block s"
    using that r(5) s' by simp
  have "vol_ok (ext2_free_block b s)" using r(2) s' by simp
  with p used sg bm' assms(3-5) show "fs_ok (ext2_free_block b s)"
    by (auto simp: fs_ok_def same_geom_def SB_SIZE_def same_geom_derived [OF sg])
qed

end
