(* ===== verification/Ext2_Files.thy ===== *)
theory Ext2_Files
  imports Ext2_Alloc
begin

text \<open>
  File contents in \<open>src/kernel/ext2.c\<close>: which blocks a file owns, how \<open>ext2_write_file\<close> extends them, and that what it
  wrote is what \<open>ext2_read_file\<close> returns.
\<close>

section \<open>Fields of an inode\<close>

lemma i_block_set_block:
  assumes "length b = 128" "j < 15" "k < 15"
  shows "i_block (set_block k v b) j = (if j = k then v else i_block b j)"
proof (cases "j = k")
  case False
  then have "40 + 4 * j + 4 \<le> 40 + 4 * k \<or> 40 + 4 * k + 4 \<le> 40 + 4 * j" by linarith
  with False assms show ?thesis by (simp add: i_block_def set_block_def get32_poke)
qed (use assms in \<open>simp add: i_block_def set_block_def get32_put32\<close>)

lemma length_set_block [simp]: "length b = 128 \<Longrightarrow> k < 15 \<Longrightarrow> length (set_block k v b) = 128"
  by (simp add: set_block_def)

lemma i_mode_set_block: "length b = 128 \<Longrightarrow> k < 15 \<Longrightarrow> i_mode (set_block k v b) = i_mode b"
  by (simp add: i_mode_def set_block_def get16_poke)

section \<open>The blocks of a file\<close>

text \<open>The block number at a position the writer can reach: twelve direct ones and one indirect block.\<close>

definition fptr :: "u8 list \<Rightarrow> ext2_fs \<Rightarrow> nat \<Rightarrow> u32" where
  "fptr inode s i =
     (if i < 12 then i_block inode i
      else if i_block inode 12 = 0 then 0
      else get32 (ext2_read_block (i_block inode 12) s) (4 * (i - 12)))"

definition max_file :: "ext2_fs \<Rightarrow> nat" where "max_file s = 12 + ptrs_per_block s"

definition own :: "ext2_fs \<Rightarrow> u32 set \<Rightarrow> u32 \<Rightarrow> bool" where
  "own s P b \<longleftrightarrow> in_vol s b \<and> used s b \<and> b \<noteq> bmap s \<and> b \<noteq> bgd_block s \<and> b \<notin> P"

definition prot :: "ext2_fs \<Rightarrow> u32 set \<Rightarrow> bool" where
  "prot s P \<longleftrightarrow> (\<forall>c\<in>P. in_vol s c \<and> used s c \<and> c \<noteq> bmap s \<and> c \<noteq> bgd_block s)"

text \<open>The blocks of a file are its own: used, different from each other and outside the set \<open>P\<close>.\<close>

definition file_ok :: "u32 set \<Rightarrow> u8 list \<Rightarrow> ext2_fs \<Rightarrow> bool" where
  "file_ok P inode s \<longleftrightarrow> length inode = 128 \<and>
     (\<forall>i<max_file s. fptr inode s i \<noteq> 0 \<longrightarrow> own s P (fptr inode s i)) \<and>
     (\<forall>i<max_file s. \<forall>j<max_file s. fptr inode s i \<noteq> 0 \<and> fptr inode s i = fptr inode s j \<longrightarrow> i = j) \<and>
     (i_block inode 12 \<noteq> 0 \<longrightarrow> own s P (i_block inode 12) \<and> (\<forall>i<max_file s. fptr inode s i \<noteq> i_block inode 12))"

lemma file_okD:
  assumes "file_ok P inode s"
  shows "length inode = 128" "i < max_file s \<Longrightarrow> fptr inode s i \<noteq> 0 \<Longrightarrow> own s P (fptr inode s i)"
    "i < max_file s \<Longrightarrow> j < max_file s \<Longrightarrow> fptr inode s i \<noteq> 0 \<Longrightarrow> fptr inode s i = fptr inode s j \<Longrightarrow> i = j"
    "i_block inode 12 \<noteq> 0 \<Longrightarrow> own s P (i_block inode 12)"
    "i_block inode 12 \<noteq> 0 \<Longrightarrow> i < max_file s \<Longrightarrow> fptr inode s i \<noteq> i_block inode 12"
  using assms by (auto simp: file_ok_def)

text \<open>One step of a write: what it keeps. Only the contents at position \<open>k\<close> may change.\<close>

definition evolves :: "u32 set \<Rightarrow> nat \<Rightarrow> u8 list \<times> ext2_fs \<Rightarrow> u8 list \<times> ext2_fs \<Rightarrow> bool" where
  "evolves P k x y \<longleftrightarrow> (case x of (inode, s) \<Rightarrow> case y of (inode', s') \<Rightarrow>
     fs_ok s' \<and> same_geom s s' \<and> desc s' = desc s \<and> prot s' P \<and> file_ok P inode' s' \<and> i_mode inode' = i_mode inode \<and>
     (\<forall>c\<in>P. ext2_read_block c s' = ext2_read_block c s) \<and>
     (\<forall>j<max_file s. fptr inode s j \<noteq> 0 \<longrightarrow> fptr inode' s' j = fptr inode s j) \<and>
     (\<forall>j<max_file s. j \<noteq> k \<and> fptr inode s j \<noteq> 0 \<longrightarrow> ext2_read_block (fptr inode s j) s' = ext2_read_block (fptr inode s j) s))"

lemma max_file_geom: "same_geom s s' \<Longrightarrow> max_file s' = max_file s"
  by (simp add: max_file_def same_geom_derived)

lemma evolves_trans:
  assumes "evolves P k x y" "evolves P k y z"
  shows "evolves P k x z"
proof -
  obtain inode s where x: "x = (inode, s)" by (cases x)
  obtain inode1 s1 where y: "y = (inode1, s1)" by (cases y)
  obtain inode2 s2 where z: "z = (inode2, s2)" by (cases z)
  from assms x y z show ?thesis
    using max_file_geom [of s s1] same_geom_trans [of s s1 s2] by (simp add: evolves_def) metis
qed

section \<open>Allocating for a file\<close>

text \<open>The effect of an allocation on everything that is in use.\<close>

lemma alloc_keeps:
  assumes "fs_ok s" "ext2_alloc_block s = (b, s')" "b \<noteq> 0"
  shows "own s P c \<Longrightarrow> own s' P c" "own s P c \<Longrightarrow> c \<noteq> b" "own s P c \<Longrightarrow> ext2_read_block c s' = ext2_read_block c s"
    "prot s P \<Longrightarrow> prot s' P" "prot s P \<Longrightarrow> b \<notin> P" "prot s P \<Longrightarrow> own s' P b"
    "prot s P \<Longrightarrow> c \<in> P \<Longrightarrow> ext2_read_block c s' = ext2_read_block c s" "max_file s' = max_file s"
proof -
  note a = alloc_block_props [OF assms]
  have g: "in_vol s' = in_vol s" "bmap s' = bmap s" "bgd_block s' = bgd_block s"
    using a(6,7) same_geom_derived(1) [OF a(6)] by (simp_all add: desc_def bmap_def same_geom_def)
  show "own s P c \<Longrightarrow> own s' P c" "own s P c \<Longrightarrow> c \<noteq> b" "prot s P \<Longrightarrow> prot s' P" and np: "prot s P \<Longrightarrow> b \<notin> P"
    using a(3) by (auto simp: own_def prot_def g a(9))
  then show "prot s P \<Longrightarrow> own s' P b"
    using a(1,4,5) by (simp add: own_def g a(9))
  show "own s P c \<Longrightarrow> ext2_read_block c s' = ext2_read_block c s"
    using a(3) by (intro a(11)) (auto simp: own_def)
  show "prot s P \<Longrightarrow> c \<in> P \<Longrightarrow> ext2_read_block c s' = ext2_read_block c s"
    using a(3) by (intro a(11)) (auto simp: prot_def)
  show "max_file s' = max_file s" using a(6) by (rule max_file_geom)
qed

lemma alloc_direct:
  assumes "fs_ok s" "prot s P" "file_ok P inode s" "ext2_alloc_block s = (b, s')" "b \<noteq> 0" "i < 12" "i_block inode i = 0"
  shows "evolves P k (inode, s) (set_block i b inode, s')" "fptr (set_block i b inode) s' i = b"
proof -
  note f = file_okD [OF assms(3)]
  note a = alloc_block_props [OF assms(1,4,5)]
  note kp = alloc_keeps [OF assms(1,4,5)]
  let ?n = "set_block i b inode"
  have ib: "i_block ?n j = (if j = i then b else i_block inode j)" if "j < 15" for j
    using that f(1) assms(6) by (simp add: i_block_set_block)
  have p: "fptr ?n s' j = (if j = i then b else fptr inode s j)" for j
    using assms(6) ib f(4) kp(3) by (auto simp: fptr_def)
  then show "fptr ?n s' i = b" by simp
  have m: "max_file s' = max_file s" by (rule kp)
  have "file_ok P ?n s'"
    unfolding file_ok_def m p
  proof (intro conjI allI impI)
    show "length ?n = 128" using f(1) assms(6) by simp
    fix j
    assume j: "j < max_file s"
    show "own s' P (if j = i then b else fptr inode s j)" if "(if j = i then b else fptr inode s j) \<noteq> 0"
      using that j f(2) kp(1,6) assms(2) by (auto split: if_splits)
    fix l
    assume l: "l < max_file s" and e: "(if j = i then b else fptr inode s j) \<noteq> 0 \<and> (if j = i then b else fptr inode s j) = (if l = i then b else fptr inode s l)"
    show "j = l"
    proof (cases "j = i"; cases "l = i")
      assume "j \<noteq> i" "l \<noteq> i"
      with e f(3) [OF j l] show ?thesis by auto
    qed (use e j l f(2) kp(2) assms(5) in auto)
  next
    assume "i_block ?n 12 \<noteq> 0"
    then have z: "i_block inode 12 \<noteq> 0" "i_block ?n 12 = i_block inode 12" using ib [of 12] assms(6) by auto
    then show "own s' P (i_block ?n 12)" using f(4) kp(1) by simp
    show "(if j = i then b else fptr inode s j) \<noteq> i_block ?n 12" if "j < max_file s" for j
      using z that f(4,5) kp(2) by auto
  qed
  moreover have "fptr inode s i = 0" using assms(6,7) by (simp add: fptr_def)
  moreover have "ext2_read_block (fptr inode s j) s' = ext2_read_block (fptr inode s j) s" if "j < max_file s" "fptr inode s j \<noteq> 0" for j
    using f(2) [OF that] by (rule kp(3))
  ultimately show "evolves P k (inode, s) (?n, s')"
    using a(6-8) kp(4,7) [OF assms(2)] i_mode_set_block [OF f(1), of i b] assms(6) by (simp add: evolves_def p)
qed

text \<open>A fresh indirect block: it is zero, so no position behind it is set.\<close>

lemma alloc_indirect:
  assumes "fs_ok s" "prot s P" "file_ok P inode s" "ext2_alloc_block s = (b, s')" "b \<noteq> 0" "i_block inode 12 = 0"
  shows "evolves P k (inode, s) (set_block 12 b inode, s')"
proof -
  note f = file_okD [OF assms(3)]
  note a = alloc_block_props [OF assms(1,4,5)]
  note kp = alloc_keeps [OF assms(1,4,5)]
  let ?n = "set_block 12 b inode"
  have ib: "i_block ?n j = (if j = 12 then b else i_block inode j)" if "j < 15" for j
    using that f(1) by (simp add: i_block_set_block)
  have p: "fptr ?n s' j = fptr inode s j" if "j < max_file s" for j
    using that ib assms(5,6) a(10) by (auto simp: fptr_def max_file_def ptrs_per_block_def unat_div get32_zero)
  have m: "max_file s' = max_file s" by (rule kp)
  have "file_ok P ?n s'"
    unfolding file_ok_def m
  proof (intro conjI allI impI)
    show "length ?n = 128" using f(1) by simp
    show "own s' P (fptr ?n s' j)" if "j < max_file s" "fptr ?n s' j \<noteq> 0" for j
      using that f(2) [of j] kp(1) p by auto
    show "j = l" if "j < max_file s" "l < max_file s" "fptr ?n s' j \<noteq> 0 \<and> fptr ?n s' j = fptr ?n s' l" for j l
      using that f(3) [of j l] p by auto
    show "own s' P (i_block ?n 12)" using ib [of 12] kp(6) [OF assms(2)] by simp
    show "fptr ?n s' j \<noteq> i_block ?n 12" if "j < max_file s" for j
      using that f(2) [of j] kp(2) p ib [of 12] assms(5) by auto
  qed
  moreover have "ext2_read_block (fptr inode s j) s' = ext2_read_block (fptr inode s j) s" if "j < max_file s" "fptr inode s j \<noteq> 0" for j
    using f(2) [OF that] by (rule kp(3))
  ultimately show ?thesis
    using a(6-8) kp(4,7) [OF assms(2)] i_mode_set_block [OF f(1), of 12 b] by (simp add: evolves_def p)
qed

section \<open>Storing into a block of the file\<close>

lemma write_own:
  assumes "fs_ok s" "in_vol s b" "b \<noteq> bmap s" "b \<noteq> bgd_block s" "block_data s d"
  defines "s' \<equiv> ext2_write_block b d s"
  shows "fs_ok s'" "same_geom s s'" "desc s' = desc s" "used s' c \<longleftrightarrow> used s c" "own s' P c \<longleftrightarrow> own s P c" "prot s' P \<longleftrightarrow> prot s P"
    "in_vol s c \<Longrightarrow> c \<noteq> b \<Longrightarrow> ext2_read_block c s' = ext2_read_block c s" "ext2_read_block b s' = d" "max_file s' = max_file s"
proof -
  note p = fs_ok_parts [OF assms(1)]
  show rd: "in_vol s c \<Longrightarrow> c \<noteq> b \<Longrightarrow> ext2_read_block c s' = ext2_read_block c s" for c
    using p(1) assms(2) by (simp add: s'_def blk_write_other)
  show "ext2_read_block b s' = d" using p(1) assms(2,5) by (simp add: s'_def blk_read_write)
  show sg: "same_geom s s'" by (simp add: s'_def)
  then show "max_file s' = max_file s" by (rule max_file_geom)
  have gd: "gd s' = gd s" using rd [OF p(5)] assms(4) sg by (simp add: gd_def same_geom_def)
  then show "desc s' = desc s" by (simp add: desc_def)
  from gd have bm: "bmap s' = bmap s" by (simp add: bmap_def)
  show u: "used s' c \<longleftrightarrow> used s c" for c
    using rd [OF p(6)] assms(3) sg bm by (auto simp: used_def same_geom_def same_geom_derived [OF sg])
  have iv: "in_vol s' = in_vol s" "bgd_block s' = bgd_block s" using sg by (simp_all add: same_geom_derived [OF sg] same_geom_def)
  show "own s' P c \<longleftrightarrow> own s P c" "prot s' P \<longleftrightarrow> prot s P"
    by (simp_all add: own_def prot_def u iv bm)
  have "vol_ok s'" using p(1) assms(5) by (simp add: s'_def)
  with p sg show "fs_ok s'" by (simp add: fs_ok_def u iv bm same_geom_def SB_SIZE_def same_geom_derived [OF sg])
qed

lemma write_data:
  assumes "fs_ok s" "prot s P" "file_ok P inode s" "i < max_file s" "fptr inode s i \<noteq> 0" "block_data s d"
  defines "s' \<equiv> ext2_write_block (fptr inode s i) d s"
  shows "evolves P i (inode, s) (inode, s')" "ext2_read_block (fptr inode s' i) s' = d" "fptr inode s' i = fptr inode s i"
proof -
  note f = file_okD [OF assms(3)]
  let ?b = "fptr inode s i"
  have o: "in_vol s ?b" "?b \<noteq> bmap s" "?b \<noteq> bgd_block s" "?b \<notin> P" using f(2) [OF assms(4,5)] by (simp_all add: own_def)
  note w = write_own [OF assms(1) o(1-3) assms(6), folded s'_def]
  have p: "fptr inode s' j = fptr inode s j" for j
    using w(7) [of "i_block inode 12"] f(4) f(5) [OF _ assms(4)] by (auto simp: fptr_def own_def)
  then show "fptr inode s' i = ?b" "ext2_read_block (fptr inode s' i) s' = d" using w(8) by simp_all
  have "file_ok P inode s'" using assms(3) unfolding file_ok_def w(5,9) p .
  moreover have "ext2_read_block (fptr inode s j) s' = ext2_read_block (fptr inode s j) s"
    if "j < max_file s" "j \<noteq> i" "fptr inode s j \<noteq> 0" for j
    using that f(2) [OF that(1,3)] f(3) [OF that(1) assms(4) that(3)] by (intro w(7)) (auto simp: own_def)
  moreover have "ext2_read_block c s' = ext2_read_block c s" if "c \<in> P" for c
    using that assms(2) o(4) by (intro w(7)) (auto simp: prot_def)
  ultimately show "evolves P i (inode, s) (inode, s')"
    using w(1-3,6) assms(2) by (simp add: evolves_def p)
qed

lemma alloc_entry:
  assumes "fs_ok s" "prot s P" "file_ok P inode s" "ext2_alloc_block s = (b, s1)" "b \<noteq> 0" "i_block inode 12 \<noteq> 0"
    "12 \<le> i" "i < max_file s" "fptr inode s i = 0"
  defines "s' \<equiv> ext2_write_block (i_block inode 12) (put32 (ext2_read_block (i_block inode 12) s) (4 * (i - 12)) b) s1"
  shows "evolves P k (inode, s) (inode, s')" "fptr inode s' i = b"
proof -
  note f = file_okD [OF assms(3)]
  note a = alloc_block_props [OF assms(1,4,5)]
  note kp = alloc_keeps [OF assms(1,4,5)]
  let ?x = "i_block inode 12"
  let ?t = "ext2_read_block ?x s"
  have x: "own s P ?x" "own s1 P ?x" using f(4) [OF assms(6)] kp(1) by auto
  have vs: "vol_ok s" using assms(1) by (rule fs_ok_parts)
  have sz: "4 * (j - 12) + 4 \<le> unat (block_size s)" if "12 \<le> j" "j < max_file s" for j
    using that by (simp add: max_file_def ptrs_per_block_def unat_div)
  have len: "length ?t = unat (block_size s)" using vs by simp
  have bd: "block_data s1 (put32 ?t (4 * (i - 12)) b)"
    using sz [OF assms(7,8)] len a(6) by (simp add: block_data_def same_geom_def)
  have x1: "in_vol s1 ?x" "?x \<noteq> bmap s1" "?x \<noteq> bgd_block s1" "?x \<notin> P" using x(2) by (simp_all add: own_def)
  note w = write_own [OF a(8) x1(1-3) bd, folded s'_def]
  have p: "fptr inode s' j = (if j = i then b else fptr inode s j)" if "j < max_file s" for j
  proof (cases "j < 12")
    case True
    then show ?thesis using assms(7) by (simp add: fptr_def)
  next
    case False
    then have "j = i \<or> 4 * (j - 12) + 4 \<le> 4 * (i - 12) \<or> 4 * (i - 12) + 4 \<le> 4 * (j - 12)" using assms(7) by linarith
    with False that assms(6,7) show ?thesis
      using sz [OF _ that] sz [OF assms(7,8)] len by (auto simp: fptr_def w(8) get32_put32 get32_poke)
  qed
  then show "fptr inode s' i = b" using assms(8) by simp
  have m: "max_file s' = max_file s" using w(9) kp(8) by simp
  have ow: "own s P c \<Longrightarrow> own s' P c" "own s' P b" for c using kp(1,6) w(5) assms(2) by auto
  have "file_ok P inode s'"
    unfolding file_ok_def m
  proof (intro conjI allI impI)
    show "length inode = 128" by (rule f)
    show "own s' P (fptr inode s' j)" if "j < max_file s" "fptr inode s' j \<noteq> 0" for j
      using that f(2) [of j] ow p by auto
    show "j = l" if "j < max_file s" "l < max_file s" "fptr inode s' j \<noteq> 0 \<and> fptr inode s' j = fptr inode s' l" for j l
      using that f(2) [of j] f(2) [of l] f(3) [of j l] kp(2) p by (auto split: if_splits)
    show "own s' P ?x" using x ow by simp
    show "fptr inode s' j \<noteq> ?x" if "j < max_file s" for j
      using that f(5) [OF assms(6), of j] x kp(2) p by auto
  qed
  moreover have "ext2_read_block (fptr inode s j) s' = ext2_read_block (fptr inode s j) s" if "j < max_file s" "fptr inode s j \<noteq> 0" for j
  proof -
    have "own s P (fptr inode s j)" using f(2) that by simp
    then have "ext2_read_block (fptr inode s j) s' = ext2_read_block (fptr inode s j) s1"
      using f(5) [OF assms(6) that(1)] kp(1) [of P] by (intro w(7)) (auto simp: own_def)
    with \<open>own s P (fptr inode s j)\<close> show ?thesis by (simp add: kp(3))
  qed
  moreover have "ext2_read_block c s' = ext2_read_block c s" if "c \<in> P" for c
  proof -
    have "ext2_read_block c s' = ext2_read_block c s1"
      using that kp(4) [OF assms(2)] x1(4) by (intro w(7)) (auto simp: prot_def)
    with that show ?thesis using kp(7) [OF assms(2)] by simp
  qed
  moreover have "same_geom s s'" using a(6) w(2) by (rule same_geom_trans)
  ultimately show "evolves P k (inode, s) (inode, s')"
    using w(1,3,6) a(7) kp(4) [OF assms(2)] assms(9) by (auto simp: evolves_def p)
qed

text \<open>One iteration of the write loop: a block for the position, then the data.\<close>

lemma ptrs_geom: "same_geom s s' \<Longrightarrow> ptrs_per_block s' = ptrs_per_block s"
  by (simp add: same_geom_derived)

lemma block_for_write_props:
  assumes "fs_ok s" "prot s P" "file_ok P inode s" "block_for_write inode i s = (b, inode', s')" "b \<noteq> 0"
  shows "evolves P i (inode, s) (inode', s') \<and> fptr inode' s' i = b \<and> i < max_file s"
proof (cases "fptr inode s i = 0")
  case False
  have i: "i < max_file s" using block_for_write_max [OF assms(4,5)] by (simp add: max_file_def)
  have "block_for_write inode i s = (fptr inode s i, inode, s)"
    using False i by (auto simp: block_for_write_def fptr_def max_file_def Let_def split: if_splits)
  with assms i show ?thesis by (auto simp: evolves_def)
next
  case True
  have i: "i < max_file s" using block_for_write_max [OF assms(4,5)] by (simp add: max_file_def)
  show ?thesis
  proof (cases "i < 12")
    case direct: True
    obtain b' s1 where a: "ext2_alloc_block s = (b', s1)" by (cases "ext2_alloc_block s")
    with direct True assms(4) have "b' = b" "s1 = s'" "inode' = set_block i b inode" "i_block inode i = 0"
      by (auto simp: block_for_write_def fptr_def Let_def)
    with a alloc_direct [OF assms(1-3), of b s'] direct assms(5) i show ?thesis by simp
  next
    case indirect: False
    obtain inode1 s1 where x: "evolves P i (inode, s) (inode1, s1)" "i_block inode1 12 \<noteq> 0" "fptr inode1 s1 i = 0"
      and rest: "block_for_write inode i s = (let (b, s2) = ext2_alloc_block s1 in
          if b = 0 then (0, inode1, s2)
          else (b, inode1, ext2_write_block (i_block inode1 12) (put32 (ext2_read_block (i_block inode1 12) s1) (4 * (i - 12)) b) s2))"
    proof (cases "i_block inode 12 = 0")
      case False
      with assms(1-3) True indirect i show ?thesis
        by (intro that [of inode s]) (auto simp: evolves_def block_for_write_def fptr_def max_file_def Let_def)
    next
      case None: True
      obtain x s1 where a: "ext2_alloc_block s = (x, s1)" by (cases "ext2_alloc_block s")
      have l: "length inode = 128" using assms(3) by (simp add: file_ok_def)
      have ip: "i - 12 < ptrs_per_block s" using indirect i by (simp add: max_file_def)
      have x0: "x \<noteq> 0"
        using assms(4,5) ip None indirect i a l by (auto simp: block_for_write_def max_file_def i_block_set_block Let_def)
      have ev: "evolves P i (inode, s) (set_block 12 x inode, s1)"
        using alloc_indirect [OF assms(1-3) a x0 None] .
      have sg: "same_geom s s1" using alloc_block_props(6) [OF assms(1) a x0] .
      have z: "get32 (ext2_read_block x s1) (4 * (i - 12)) = 0"
        using alloc_block_props(10) [OF assms(1) a x0] indirect i by (simp add: get32_zero max_file_def ptrs_per_block_def unat_div)
      show ?thesis
        using None indirect ip a l x0 z
        by (intro that [OF ev]) (simp_all add: i_block_set_block fptr_def block_for_write_def ptrs_geom [OF sg] Let_def split: prod.split)
    qed
    obtain b' s2 where a: "ext2_alloc_block s1 = (b', s2)" by (cases "ext2_alloc_block s1")
    with rest assms(4,5) have e: "b' = b" "inode' = inode1"
        "s' = ext2_write_block (i_block inode1 12) (put32 (ext2_read_block (i_block inode1 12) s1) (4 * (i - 12)) b) s2"
      by (auto split: if_splits)
    have ok: "fs_ok s1" "prot s1 P" "file_ok P inode1 s1" "max_file s1 = max_file s"
      using x(1) max_file_geom [of s s1] by (simp_all add: evolves_def)
    have i': "12 \<le> i" "i < max_file s1" using indirect i ok(4) by simp_all
    have "evolves P i (inode1, s1) (inode1, s')" "fptr inode1 s' i = b"
      using alloc_entry [OF ok(1-3) a [unfolded e(1)] assms(5) x(2) i' x(3)] by (simp_all add: e(3))
    with evolves_trans [OF x(1)] e(2) i show ?thesis by simp
  qed
qed

section \<open>The write loop\<close>

text \<open>The bytes of the block at position \<open>i\<close> of a file with contents \<open>data\<close>, filled up with zeros.\<close>

definition padded :: "nat \<Rightarrow> u8 list \<Rightarrow> u8 list" where
  "padded bs d = take bs d @ replicate (bs - length d) 0"

lemma padded_poke: "poke (replicate bs 0) 0 (take (min (length d) bs) d) = padded bs d"
  by (simp add: poke_def padded_def min_def)

text \<open>Position \<open>i\<close> holds the piece of \<open>data\<close> that starts \<open>i - k\<close> blocks in, for all positions from \<open>k\<close> on that \<open>data\<close> reaches.\<close>

definition holds :: "u8 list \<Rightarrow> ext2_fs \<Rightarrow> nat \<Rightarrow> u8 list \<Rightarrow> bool" where
  "holds inode s k data \<longleftrightarrow>
     (\<forall>i. (i - k) * unat (block_size s) < length data \<and> k \<le> i \<longrightarrow> i < max_file s \<and> fptr inode s i \<noteq> 0 \<and>
        ext2_read_block (fptr inode s i) s = padded (unat (block_size s)) (drop ((i - k) * unat (block_size s)) data))"

text \<open>Steps that leave the positions below \<open>k\<close> alone.\<close>

definition evolves_from :: "u32 set \<Rightarrow> nat \<Rightarrow> u8 list \<times> ext2_fs \<Rightarrow> u8 list \<times> ext2_fs \<Rightarrow> bool" where
  "evolves_from P k x y \<longleftrightarrow> (case x of (inode, s) \<Rightarrow> case y of (inode', s') \<Rightarrow>
     fs_ok s' \<and> same_geom s s' \<and> desc s' = desc s \<and> prot s' P \<and> file_ok P inode' s' \<and> i_mode inode' = i_mode inode \<and>
     (\<forall>c\<in>P. ext2_read_block c s' = ext2_read_block c s) \<and>
     (\<forall>j<k. j < max_file s \<and> fptr inode s j \<noteq> 0 \<longrightarrow>
        fptr inode' s' j = fptr inode s j \<and> ext2_read_block (fptr inode s j) s' = ext2_read_block (fptr inode s j) s))"

lemma write_blocks_props:
  assumes "fs_ok s" "prot s P" "file_ok P inode s" "write_blocks inode data k s = (Some inode', s')"
  shows "evolves_from P k (inode, s) (inode', s') \<and> holds inode' s' k data"
  using assms
proof (induction inode data k s rule: write_blocks.induct)
  case (1 inode data k s)
  show ?case
  proof (cases "data = []")
    case True
    with 1 show ?thesis by (auto simp: write_blocks.simps [of inode "[]"] evolves_from_def holds_def)
  next
    case False
    let ?bs = "unat (block_size s)"
    let ?d = "padded ?bs data"
    have bs: "0 < ?bs" using fs_ok_parts(1) [OF 1(2)] by (cases rule: block_size_cases) simp_all
    obtain b inode1 s1 where bw: "block_for_write inode k s = (b, inode1, s1)" by (cases "block_for_write inode k s")
    have buf: "bufs s 0" using fs_ok_parts(3) [OF 1(2)] .
    from 1(5) False bw buf have b: "b \<noteq> 0" and
      wb: "write_blocks inode1 (drop (min (length data) ?bs) data) (k + 1) (ext2_write_block b ?d s1) = (Some inode', s')"
      by (auto simp: write_blocks.simps [of inode data] padded_poke Let_def split: if_splits)
    have ev: "evolves P k (inode, s) (inode1, s1)" "fptr inode1 s1 k = b" "k < max_file s"
      using block_for_write_props [OF 1(2-4) bw b] by auto
    have ok1: "fs_ok s1" "prot s1 P" "file_ok P inode1 s1" "same_geom s s1" "max_file s1 = max_file s"
      using ev(1) max_file_geom [of s s1] by (simp_all add: evolves_def)
    have bd: "block_data s1 ?d" using ok1(4) by (simp add: block_data_def padded_def same_geom_def)
    define s2 where "s2 = ext2_write_block b ?d s1"
    have wd: "evolves P k (inode1, s1) (inode1, s2)" "ext2_read_block b s2 = ?d" "fptr inode1 s2 k = b"
      using write_data [OF ok1(1-3) _ _ bd, of k] ev b ok1(5) by (simp_all add: s2_def)
    have ev2: "evolves P k (inode, s) (inode1, s2)" using evolves_trans [OF ev(1) wd(1)] .
    have ok2: "fs_ok s2" "prot s2 P" "file_ok P inode1 s2" "same_geom s s2" "max_file s2 = max_file s"
      using ev2 max_file_geom [of s s2] by (simp_all add: evolves_def)
    have IH: "evolves_from P (k + 1) (inode1, s2) (inode', s') \<and> holds inode' s' (k + 1) (drop (min (length data) ?bs) data)"
      using 1(1) [OF _ _ refl refl refl bw [symmetric] refl refl] False buf b ok2 wb by (simp add: s2_def padded_poke)
    have dr: "drop (min (length data) ?bs) data = drop ?bs data" by (simp add: min_def)
    have sz: "block_size s' = block_size s" "max_file s' = max_file s"
      using IH ok2(4,5) max_file_geom [of s2 s'] by (simp_all add: evolves_from_def same_geom_def)
    have "holds inode' s' k data"
      unfolding holds_def sz
    proof (intro allI impI)
      fix i
      assume i: "(i - k) * ?bs < length data \<and> k \<le> i"
      show "i < max_file s \<and> fptr inode' s' i \<noteq> 0 \<and> ext2_read_block (fptr inode' s' i) s' = padded ?bs (drop ((i - k) * ?bs) data)"
      proof (cases "i = k")
        case True
        have "fptr inode' s' k = b \<and> ext2_read_block b s' = ?d"
          using IH wd(2,3) b ev(3) ok2(5) by (auto simp: evolves_from_def)
        with True b ev(3) show ?thesis by simp
      next
        case False
        with i obtain m where "i = k + 1 + m" by (metis le_neq_implies_less less_iff_Suc_add add_Suc_right add_Suc Suc_eq_plus1)
        then have e: "(i - k) * ?bs = (i - (k + 1)) * ?bs + ?bs" "k + 1 \<le> i" by simp_all
        with i have "(i - (k + 1)) * ?bs < length (drop ?bs data)" by simp
        with IH e(2) have "i < max_file s' \<and> fptr inode' s' i \<noteq> 0 \<and>
            ext2_read_block (fptr inode' s' i) s' = padded ?bs (drop ((i - (k + 1)) * ?bs) (drop ?bs data))"
          unfolding holds_def dr sz by blast
        with e(1) sz show ?thesis by (simp add: add.commute)
      qed
    qed
    moreover have "evolves_from P k (inode, s) (inode', s')"
      using IH ev2 ok2(5) same_geom_trans [of s s2 s'] by (simp add: evolves_from_def evolves_def) (metis less_SucI less_irrefl)
    ultimately show ?thesis by simp
  qed
qed

section \<open>Reading back\<close>

lemma read_inode_block_fptr:
  "i < max_file s \<Longrightarrow> fptr inode s i \<noteq> 0 \<Longrightarrow> ext2_read_inode_block inode i s = Some (ext2_read_block (fptr inode s i) s)"
  by (auto simp: ext2_read_inode_block_def fptr_def max_file_def Let_def split: if_splits)

lemma holds_tail:
  assumes "holds inode s k data" "0 < unat (block_size s)"
  shows "holds inode s (k + 1) (drop (unat (block_size s)) data)"
  unfolding holds_def
proof (intro allI impI)
  fix i
  let ?bs = "unat (block_size s)"
  assume i: "(i - (k + 1)) * ?bs < length (drop ?bs data) \<and> k + 1 \<le> i"
  then obtain m where m: "i = k + 1 + m" using le_Suc_ex by blast
  with i have "(i - k) * ?bs < length data \<and> k \<le> i" by simp
  with assms(1) have "i < max_file s \<and> fptr inode s i \<noteq> 0 \<and>
      ext2_read_block (fptr inode s i) s = padded ?bs (drop ((i - k) * ?bs) data)"
    unfolding holds_def by blast
  with m show "i < max_file s \<and> fptr inode s i \<noteq> 0 \<and>
      ext2_read_block (fptr inode s i) s = padded ?bs (drop ((i - (k + 1)) * ?bs) (drop ?bs data))"
    by (simp add: add.commute)
qed

lemma read_blocks_holds:
  assumes "holds inode s k data" "0 < unat (block_size s)" "n \<le> length data"
  shows "read_blocks inode n k s = take n data"
  using assms
proof (induction n arbitrary: k data rule: less_induct)
  case (less n)
  let ?bs = "unat (block_size s)"
  show ?case
  proof (cases "n = 0")
    case True
    then show ?thesis by (simp add: read_blocks.simps [of inode 0])
  next
    case False
    let ?c = "min n ?bs"
    from less.prems False have "k < max_file s \<and> fptr inode s k \<noteq> 0 \<and> ext2_read_block (fptr inode s k) s = padded ?bs data"
      unfolding holds_def by (metis diff_self_eq_0 drop0 le_refl less_le_trans mult_0 neq0_conv)
    then have rd: "ext2_read_inode_block inode k s = Some (padded ?bs data)" by (simp add: read_inode_block_fptr)
    have tk: "take ?c (padded ?bs data) = take ?c data" using less.prems(3) by (simp add: padded_def min_def)
    have "read_blocks inode (n - ?c) (k + 1) s = take (n - ?c) (drop ?bs data)"
    proof (cases "n \<le> ?bs")
      case True
      then show ?thesis by (simp add: min_def read_blocks.simps [of inode 0])
    next
      case gt: False
      then show ?thesis
        using less.prems False holds_tail [OF less.prems(1,2)] by (intro less.IH) (auto simp: min_def)
    qed
    with rd tk False show ?thesis
      by (cases "n \<le> ?bs") (simp_all add: read_blocks.simps [of inode n] min_def take_add [symmetric] Let_def)
  qed
qed

end
