(* ===== verification/Ext2_Inodes.thy ===== *)
theory Ext2_Inodes
  imports Ext2_Files
begin

text \<open>
  The inode table of group 0 and the superblock copy in \<open>src/kernel/ext2.c\<close>: storing an inode changes that inode and no other,
  path resolution depends only on the directories it goes through, and a file written through
  \<open>ext2_write_file\<close> is read back by \<open>ext2_read_file\<close>.
\<close>

section \<open>The inode table\<close>

definition group0 :: "ext2_fs \<Rightarrow> u32 \<Rightarrow> bool" where
  "group0 s ino \<longleftrightarrow> ino \<noteq> 0 \<and> ino - 1 < inodes_per_group s"

definition iblk :: "u32 \<Rightarrow> ext2_fs \<Rightarrow> u32" where "iblk ino s = fst (inode_place ino (gd s) s)"
definition ioff :: "u32 \<Rightarrow> ext2_fs \<Rightarrow> nat" where "ioff ino s = snd (inode_place ino (gd s) s)"

definition itable :: "ext2_fs \<Rightarrow> u32 set" where "itable s = {iblk ino s | ino. group0 s ino}"

lemma iblk_in_itable: "group0 s ino \<Longrightarrow> iblk ino s \<in> itable s"
  by (auto simp: itable_def)

lemma place_geom:
  assumes "same_geom s s'" "desc s' = desc s"
  shows "iblk ino s' = iblk ino s" "ioff ino s' = ioff ino s" "group0 s' = group0 s" "itable s' = itable s"
proof -
  have "inode_place ino (gd s') s' = inode_place ino (gd s) s" for ino
    using assms by (simp add: inode_place_def same_geom_def desc_def)
  then show "iblk ino s' = iblk ino s" "ioff ino s' = ioff ino s" for ino by (simp_all add: iblk_def ioff_def)
  moreover show g: "group0 s' = group0 s" using assms(1) by (simp add: group0_def fun_eq_iff same_geom_def)
  ultimately show "itable s' = itable s" by (simp add: itable_def)
qed

lemma read_inode_group0:
  assumes "\<forall>n. bufs s n" "group0 s ino"
  shows "ext2_read_inode ino s = Some (take 128 (drop (ioff ino s) (ext2_read_block (iblk ino s) s)))"
proof -
  have "(ino - 1) div inodes_per_group s = 0" using assms(2) by (simp add: group0_def div_word_less)
  with assms show ?thesis
    by (simp add: ext2_read_inode_def group0_def read_bgd_0 iblk_def ioff_def INODE_SIZE_def split: prod.split)
qed

lemma write_inode_group0:
  assumes "\<forall>n. bufs s n" "group0 s ino"
  shows "ext2_write_inode ino d s = (0, ext2_write_block (iblk ino s) (poke (ext2_read_block (iblk ino s) s) (ioff ino s) d) s)"
proof -
  have "(ino - 1) div inodes_per_group s = 0" using assms(2) by (simp add: group0_def div_word_less)
  with assms show ?thesis
    by (simp add: ext2_write_inode_def group0_def read_bgd_0 iblk_def ioff_def split: prod.split)
qed

lemma ioff_bound: "geometry_ok s \<Longrightarrow> ioff ino s + 128 \<le> unat (block_size s)"
  using inode_place_bound [of s ino "gd s"] by (simp add: ioff_def INODE_SIZE_def)

text \<open>Two inodes of a block are at least the size of an inode apart.\<close>

lemma inode_slots_apart:
  assumes "geometry_ok s" "group0 s i" "group0 s j" "i \<noteq> j" "iblk i s = iblk j s"
  shows "ioff i s + 128 \<le> ioff j s \<or> ioff j s + 128 \<le> ioff i s"
proof -
  let ?p = "block_size s div inode_size s"
  have idx: "(i - 1) mod inodes_per_group s = i - 1" "(j - 1) mod inodes_per_group s = j - 1"
    using assms(2,3) by (simp_all add: group0_def mod_word_less)
  have q: "(i - 1) div ?p = (j - 1) div ?p"
    using assms(5) by (simp add: iblk_def inode_place_def Let_def idx)
  have ne: "(i - 1) mod ?p \<noteq> (j - 1) mod ?p"
  proof
    assume "(i - 1) mod ?p = (j - 1) mod ?p"
    with q have "i - 1 = j - 1" by (metis div_mult_mod_eq)
    with assms(4) show False by simp
  qed
  have sz: "unat (inode_size s) \<le> unat (block_size s)" "128 \<le> unat (inode_size s)"
    using assms(1) by (auto simp: geometry_ok_def word_le_nat_alt)
  have k: "unat (((x - 1) mod ?p) * inode_size s) = unat ((x - 1) mod ?p) * unat (inode_size s)" for x
  proof -
    have "0 < unat (block_size s) div unat (inode_size s)" using sz by (simp add: div_greater_zero_iff)
    then have "unat ((x - 1) mod ?p) < unat ?p" by (simp add: unat_mod unat_div)
    then have "unat ((x - 1) mod ?p) * unat (inode_size s) + 128 \<le> unat (block_size s)"
      using slot_bound [of "unat ((x - 1) mod ?p)" "unat ?p"] sz by (simp add: unat_div)
    then show ?thesis using u32_bound [of "block_size s"] by (simp add: unat_word_ariths)
  qed
  let ?a = "unat ((i - 1) mod ?p)" and ?b = "unat ((j - 1) mod ?p)"
  have off: "ioff i s = ?a * unat (inode_size s)" "ioff j s = ?b * unat (inode_size s)"
    by (simp_all add: ioff_def inode_place_def Let_def idx k)
  have "?a \<noteq> ?b" using ne by (simp add: word_unat_eq_iff)
  then have "?a + 1 \<le> ?b \<or> ?b + 1 \<le> ?a" by linarith
  then have "(?a + 1) * unat (inode_size s) \<le> ?b * unat (inode_size s) \<or> (?b + 1) * unat (inode_size s) \<le> ?a * unat (inode_size s)"
    using mult_le_mono1 by blast
  with off sz show ?thesis by auto
qed

text \<open>Storing an inode.\<close>

lemma write_inode_props:
  assumes "fs_ok s" "prot s P" "group0 s ino" "iblk ino s \<in> P" "length d = 128"
  defines "s' \<equiv> snd (ext2_write_inode ino d s)"
  shows "fs_ok s'" "same_geom s s'" "desc s' = desc s" "prot s' P" "ext2_read_inode ino s' = Some d"
    "group0 s i \<Longrightarrow> i \<noteq> ino \<Longrightarrow> in_vol s (iblk i s) \<Longrightarrow> ext2_read_inode i s' = ext2_read_inode i s"
    "in_vol s c \<Longrightarrow> c \<noteq> iblk ino s \<Longrightarrow> ext2_read_block c s' = ext2_read_block c s" "used s' c \<longleftrightarrow> used s c"
proof -
  note p = fs_ok_parts [OF assms(1)]
  let ?b = "iblk ino s"
  let ?t = "ext2_read_block ?b s"
  have b: "in_vol s ?b" "?b \<noteq> bmap s" "?b \<noteq> bgd_block s" using assms(2,4) by (auto simp: prot_def)
  have fit: "ioff ino s + length d \<le> length ?t" using ioff_bound [OF p(2)] p(1) assms(5) by simp
  then have bd: "block_data s (poke ?t (ioff ino s) d)" using p(1) by (simp add: block_data_def)
  have s': "s' = ext2_write_block ?b (poke ?t (ioff ino s) d) s"
    using write_inode_group0 [of s ino d] p(3) assms(3) by (simp add: s'_def)
  note w = write_own [OF assms(1) b bd, folded s']
  show "fs_ok s'" "same_geom s s'" "desc s' = desc s" "prot s' P" "used s' c \<longleftrightarrow> used s c" using w assms(2) by simp_all
  note g = place_geom [OF w(2,3)]
  have bufs: "\<forall>n. bufs s' n" "\<forall>n. bufs s n" using w(1) p(3) by (simp_all add: fs_ok_def)
  show "ext2_read_inode ino s' = Some d"
    using read_inode_group0 [OF bufs(1), of ino] assms(3,5) fit w(8) take_drop_poke_same [OF fit] by (simp add: g)
  show rd: "in_vol s c \<Longrightarrow> c \<noteq> ?b \<Longrightarrow> ext2_read_block c s' = ext2_read_block c s" for c by (rule w(7))
  show "ext2_read_inode i s' = ext2_read_inode i s" if "group0 s i" "i \<noteq> ino" "in_vol s (iblk i s)"
  proof (cases "iblk i s = ?b")
    case True
    then have "take 128 (drop (ioff i s) (poke ?t (ioff ino s) d)) = take 128 (drop (ioff i s) ?t)"
      using inode_slots_apart [OF p(2) that(1) assms(3) that(2)] fit assms(5) by (intro take_drop_poke) auto
    with True that w(8) show ?thesis
      using read_inode_group0 [OF bufs(1), of i] read_inode_group0 [OF bufs(2), of i] by (simp add: g)
  next
    case False
    with that show ?thesis
      using read_inode_group0 [OF bufs(1), of i] read_inode_group0 [OF bufs(2), of i] rd by (simp add: g)
  qed
qed

section \<open>The superblock copy\<close>

text \<open>The block that holds sectors 2 and 3.\<close>

definition sbb :: "ext2_fs \<Rightarrow> u32" where "sbb s = (if block_size s = 1024 then 1 else 0)"

lemma write_two_sectors:
  "write_sectors lba 2 d s = s\<lparr>disk := (disk s)((drive s, (part_start_lba s + lba) AND 0x0FFFFFFF) := take 512 d,
     (drive s, (part_start_lba s + lba + 1) AND 0x0FFFFFFF) := take 512 (drop 512 d))\<rparr>"
  by (simp add: write_sectors_def ata_write_sector_def numeral_2_eq_2)

lemma sbb_sectors:
  assumes "vol_ok s"
  shows "sector_of (sbb s) (2 mod unat (block_size s div 512)) s = (drive s, (part_start_lba s + 2) AND 0x0FFFFFFF)"
    "sector_of (sbb s) (2 mod unat (block_size s div 512) + 1) s = (drive s, (part_start_lba s + 2 + 1) AND 0x0FFFFFFF)"
  using assms
  by (cases rule: block_size_cases; simp add: sector_of_def sbb_def block_to_lba_def add.assoc)+

lemma sync_props:
  assumes "fs_ok s" "prot s P" "sbb s \<in> P"
  defines "s' \<equiv> ext2_sync_superblock s"
  shows "same_geom s s'" "in_vol s c \<Longrightarrow> c \<noteq> sbb s \<Longrightarrow> ext2_read_block c s' = ext2_read_block c s"
    "fs_ok s'" "desc s' = desc s" "used s' c \<longleftrightarrow> used s c"
proof -
  note p = fs_ok_parts [OF assms(1)]
  let ?n = "unat (block_size s div 512)"
  let ?d = "poke (replicate 1024 0) 0 (sb s)"
  have n: "2 mod ?n + 1 < ?n" using p(1) by (cases rule: block_size_cases) simp_all
  have s': "s' = s\<lparr>disk := (disk s)(sector_of (sbb s) (2 mod ?n) s := take 512 ?d,
      sector_of (sbb s) (2 mod ?n + 1) s := take 512 (drop 512 ?d))\<rparr>"
    unfolding s'_def ext2_sync_superblock_def write_two_sectors sbb_sectors [OF p(1)] by (rule refl)
  show sg: "same_geom s s'" by (simp add: s' same_geom_def)
  have sv: "in_vol s (sbb s)" "sbb s \<noteq> bmap s" "sbb s \<noteq> bgd_block s" using assms(2,3) by (auto simp: prot_def)
  show rd: "ext2_read_block c s' = ext2_read_block c s" if "in_vol s c" "c \<noteq> sbb s" for c
  proof -
    have "sector_of c i s \<noteq> sector_of (sbb s) j s" if "i < ?n" "j < ?n" for i j
      using sector_of_inj [OF p(1) \<open>in_vol s c\<close> sv(1) that] \<open>c \<noteq> sbb s\<close> by blast
    then have "map (\<lambda>i. disk s' (sector_of c i s)) [0..<?n] = map (\<lambda>i. disk s (sector_of c i s)) [0..<?n]"
      using n by (intro map_cong) (auto simp: s')
    then show ?thesis
      by (simp add: read_block_sectors s' del: map_eq_conv fun_upd_apply)
  qed
  have gd: "gd s' = gd s" using rd [OF p(5)] sv(3) sg by (simp add: gd_def same_geom_def)
  then show "desc s' = desc s" by (simp add: desc_def)
  from gd have bm: "bmap s' = bmap s" by (simp add: bmap_def)
  show u: "used s' c \<longleftrightarrow> used s c" for c
    using rd [OF p(6)] sv(2) sg bm by (auto simp: used_def same_geom_def same_geom_derived [OF sg])
  have "vol_ok s'" using p(1,4) by (auto simp: vol_ok_def s' poke_def)
  with p sg show "fs_ok s'"
    by (auto simp: fs_ok_def u bm same_geom_def SB_SIZE_def same_geom_derived [OF sg])
qed

section \<open>What path resolution depends on\<close>

text \<open>A directory of direct blocks only, all of them in \<open>D\<close>.\<close>

definition dir_in :: "u32 set \<Rightarrow> u8 list \<Rightarrow> bool" where
  "dir_in D d \<longleftrightarrow> (\<forall>i<12. i_block d i \<noteq> 0 \<longrightarrow> i_block d i \<in> D) \<and> i_block d 12 = 0 \<and> i_block d 13 = 0"

text \<open>The walk along a path looks only into directories other than inode \<open>ino\<close> whose blocks are in \<open>D\<close>.\<close>

function walk_in :: "u32 set \<Rightarrow> u32 \<Rightarrow> u8 list \<Rightarrow> u32 \<Rightarrow> ext2_fs \<Rightarrow> bool" where
  "walk_in D ino p cur s =
     (if p = [] then True
      else let component = takeWhile (\<lambda>c. c \<noteq> SLASH) p; rest = tl (dropWhile (\<lambda>c. c \<noteq> SLASH) p) in
      if length component > MAX_FILENAME - 1 then True
      else if component = [] then walk_in D ino rest cur s
      else cur \<noteq> ino \<and> group0 s cur \<and>
        (case ext2_read_inode cur s of
           None \<Rightarrow> True
         | Some d \<Rightarrow> dir_in D d \<and>
             (case dir_search d component (i_size d) 0 s of None \<Rightarrow> True | Some i \<Rightarrow> walk_in D ino rest i s)))"
  by auto
termination
proof (relation "measure (\<lambda>(D, ino, p, c, s). length p)", goal_cases)
  case (2 D ino p c s component rest)
  then show ?case by (cases p) (auto simp: less_Suc_eq_le le_diff_conv intro: le_trans [OF length_dropWhile_le])
next
  case (3 D ino p c s component rest)
  then show ?case by (cases p) (auto simp: less_Suc_eq_le le_diff_conv intro: le_trans [OF length_dropWhile_le])
qed simp

declare walk_in.simps [simp del]

lemma dir_search_frame:
  assumes "dir_in D d" "same_geom s s'" "\<forall>c\<in>D. ext2_read_block c s' = ext2_read_block c s"
  shows "dir_search d component l i s' = dir_search d component l i s"
proof -
  have "ext2_read_inode_block d i s' = ext2_read_inode_block d i s" for i
    using assms by (auto simp: ext2_read_inode_block_def dir_in_def Let_def same_geom_derived [OF assms(2)])
  moreover have "block_size s' = block_size s" using assms(2) by (simp add: same_geom_def)
  ultimately show ?thesis
  proof (induction d component l i s rule: dir_search.induct)
    case (1 d component l i s)
    then show ?case
      by (simp add: dir_search.simps [of d component l i] split: option.split)
  qed
qed

lemma resolve_frame:
  assumes "walk_in D ino p cur s" "same_geom s s'" "\<forall>c\<in>D. ext2_read_block c s' = ext2_read_block c s"
    "\<forall>i. group0 s i \<and> i \<noteq> ino \<longrightarrow> ext2_read_inode i s' = ext2_read_inode i s"
  shows "resolve_from p cur s' = resolve_from p cur s"
  using assms
proof (induction D ino p cur s rule: walk_in.induct)
  case (1 D ino p cur s)
  let ?c = "takeWhile (\<lambda>c. c \<noteq> SLASH) p" and ?r = "tl (dropWhile (\<lambda>c. c \<noteq> SLASH) p)"
  consider "p = [] \<or> length ?c > MAX_FILENAME - 1" | "p \<noteq> []" "\<not> length ?c > MAX_FILENAME - 1" "?c = []"
    | "p \<noteq> []" "\<not> length ?c > MAX_FILENAME - 1" "?c \<noteq> []" by blast
  then show ?case
  proof cases
    case 1
    then show ?thesis by (auto simp: resolve_from.simps [of p cur] Let_def)
  next
    case 2
    then show ?thesis
      using 1 by (simp add: resolve_from.simps [of p cur] walk_in.simps [of D ino p cur s] Let_def)
  next
    case 3
    with "1.prems"(1) have w: "cur \<noteq> ino" "group0 s cur"
      by (simp_all add: walk_in.simps [of D ino p cur s] Let_def)
    then have rd: "ext2_read_inode cur s' = ext2_read_inode cur s" using "1.prems"(4) by blast
    show ?thesis
    proof (cases "ext2_read_inode cur s")
      case None
      with 3 rd show ?thesis by (simp add: resolve_from.simps [of p cur] Let_def)
    next
      case (Some d)
      with 3 "1.prems"(1) have d: "dir_in D d"
          "case dir_search d ?c (i_size d) 0 s of None \<Rightarrow> True | Some i \<Rightarrow> walk_in D ino ?r i s"
        by (simp_all add: walk_in.simps [of D ino p cur s] Let_def)
      have ds: "dir_search d ?c (i_size d) 0 s' = dir_search d ?c (i_size d) 0 s"
        using dir_search_frame [OF d(1) "1.prems"(2,3)] .
      show ?thesis
      proof (cases "dir_search d ?c (i_size d) 0 s")
        case None
        with 3 rd Some ds show ?thesis by (simp add: resolve_from.simps [of p cur] Let_def)
      next
        case found: (Some i)
        with d(2) have "resolve_from ?r i s' = resolve_from ?r i s"
          using "1.IH"(2) [OF 3(1) refl refl 3(2,3) Some found] "1.prems"(2-4) by simp
        with 3 rd Some ds found show ?thesis by (simp add: resolve_from.simps [of p cur] Let_def)
      qed
    qed
  qed
qed

section \<open>Writing and reading a file\<close>

text \<open>The blocks a file must not own: the inode table, the superblock copy and a set \<open>D\<close> of other blocks.\<close>

definition reserved :: "u32 set \<Rightarrow> ext2_fs \<Rightarrow> u32 set" where
  "reserved D s = itable s \<union> {sbb s} \<union> D"

definition layout_ok :: "u32 set \<Rightarrow> ext2_fs \<Rightarrow> bool" where
  "layout_ok D s \<longleftrightarrow> fs_ok s \<and> prot s (reserved D s) \<and> D \<inter> (itable s \<union> {sbb s}) = {} \<and> sbb s \<notin> itable s"

text \<open>Contents and block list do not depend on the other fields of the inode.\<close>

lemma holds_frame:
  assumes "holds inode s 0 data" "file_ok P inode s" "same_geom s s'" "i_block inode' 12 = i_block inode 12"
    "\<forall>i<12. i_block inode' i = i_block inode i" "\<forall>c. own s P c \<longrightarrow> ext2_read_block c s' = ext2_read_block c s"
  shows "holds inode' s' 0 data"
proof -
  note f = file_okD [OF assms(2)]
  have p: "fptr inode' s' i = fptr inode s i" for i
    using assms(4-6) f(4) by (auto simp: fptr_def)
  have "block_size s' = block_size s" "max_file s' = max_file s"
    using assms(3) max_file_geom [OF assms(3)] by (simp_all add: same_geom_def)
  with assms(1,6) f(2) show ?thesis unfolding holds_def p by metis
qed

lemma read_inode_length: "fs_ok s \<Longrightarrow> group0 s ino \<Longrightarrow> ext2_read_inode ino s = Some inode \<Longrightarrow> length inode = 128"
  using ioff_bound [of s ino] by (auto simp: read_inode_group0 fs_ok_def)

lemma stamped_inode:
  fixes t n sz :: u32
  assumes "length inode = 128"
  defines "d \<equiv> set_mtime t (set_ctime t (set_blocks_512 n (set_size sz inode)))"
  shows "length d = 128" "i_mode d = i_mode inode" "i_size d = sz" "k < 15 \<Longrightarrow> i_block d k = i_block inode k"
  using assms by (simp_all add: set_mtime_def set_ctime_def set_blocks_512_def set_size_def i_mode_def i_size_def i_block_def
      get16_poke get32_poke get32_put32)

lemma write_inode_data_props:
  assumes "layout_ok D s" "group0 s ino" "ext2_read_inode ino s = Some inode" "file_ok (reserved D s) inode s"
    "write_inode_data ino data s = (int (length data), s')"
  shows "same_geom s s'" "\<forall>c\<in>D. ext2_read_block c s' = ext2_read_block c s"
    "\<forall>i. group0 s i \<and> i \<noteq> ino \<longrightarrow> ext2_read_inode i s' = ext2_read_inode i s"
    "\<exists>inode'. ext2_read_inode ino s' = Some inode' \<and> i_mode inode' AND EXT2_S_IFREG \<noteq> 0 \<and>
       i_size inode' = of_nat (length data) \<and> holds inode' s' 0 data"
proof -
  let ?P = "reserved D s"
  have ok: "fs_ok s" "prot s ?P" "D \<inter> (itable s \<union> {sbb s}) = {}" "sbb s \<notin> itable s"
    using assms(1) by (simp_all add: layout_ok_def)
  have m: "i_mode inode AND EXT2_S_IFREG \<noteq> 0"
    using assms(3,5) by (auto simp: write_inode_data_def split: if_splits)
  obtain inode1 s1 where wb: "write_blocks inode data 0 s = (Some inode1, s1)"
    using assms(3,5) m by (cases "write_blocks inode data 0 s") (auto simp: write_inode_data_def split: option.splits)
  have ev: "evolves_from ?P 0 (inode, s) (inode1, s1)" "holds inode1 s1 0 data"
    using write_blocks_props [OF ok(1,2) assms(4) wb] by auto
  then have s1: "fs_ok s1" "same_geom s s1" "desc s1 = desc s" "prot s1 ?P" "file_ok ?P inode1 s1" "i_mode inode1 = i_mode inode"
      "\<forall>c\<in>?P. ext2_read_block c s1 = ext2_read_block c s"
    by (simp_all add: evolves_from_def)
  note g1 = place_geom [OF s1(2,3)]
  have l1: "length inode1 = 128" using s1(5) by (simp add: file_ok_def)
  let ?bn = "(of_nat (length data) + block_size s1 - 1) div block_size s1"
  define d where "d = set_mtime (ext2_now s1) (set_ctime (ext2_now s1)
     (set_blocks_512 ((?bn + (if i_block inode1 12 \<noteq> 0 then 1 else 0)) * (block_size s1 div 512)) (set_size (of_nat (length data)) inode1)))"
  have d: "length d = 128" "i_mode d = i_mode inode1" "i_size d = of_nat (length data)" "k < 15 \<Longrightarrow> i_block d k = i_block inode1 k" for k
    unfolding d_def by (rule stamped_inode [OF l1]; assumption?)+
  define s2 where "s2 = snd (ext2_write_inode ino d s1)"
  have s': "s' = ext2_sync_superblock s2"
    using assms(3,5) m wb by (simp add: write_inode_data_def Let_def d_def s2_def)
  have ib: "iblk ino s1 \<in> ?P" "group0 s1 ino"
    using iblk_in_itable [OF assms(2)] assms(2) by (simp_all add: reserved_def g1)
  note w = write_inode_props [OF s1(1,4) ib(2,1) d(1), folded s2_def]
  have sg2: "same_geom s s2" using s1(2) w(2) by (rule same_geom_trans)
  have sb2: "sbb s2 = sbb s" using sg2 by (simp add: sbb_def same_geom_def)
  then have "sbb s2 \<in> ?P" by (simp add: reserved_def)
  note y = sync_props [OF w(1,4) this, folded s']
  show sg: "same_geom s s'" using sg2 y(1) by (rule same_geom_trans)
  have iv: "in_vol s1 = in_vol s" "in_vol s2 = in_vol s" using same_geom_derived(1) [OF s1(2)] same_geom_derived(1) [OF sg2] by simp_all
  have rd: "ext2_read_block c s' = ext2_read_block c s1" if "in_vol s c" "c \<noteq> iblk ino s" "c \<noteq> sbb s" for c
    using that y(2) [of c] w(7) [of c] by (simp add: iv sb2 g1)
  show "\<forall>c\<in>D. ext2_read_block c s' = ext2_read_block c s"
  proof
    fix c
    assume "c \<in> D"
    then have "c \<in> ?P" "c \<noteq> sbb s" "c \<noteq> iblk ino s" "in_vol s c"
      using ok(2,3) iblk_in_itable [OF assms(2)] by (auto simp: reserved_def prot_def)
    with rd s1(7) show "ext2_read_block c s' = ext2_read_block c s" by simp
  qed
  have tab: "iblk i s \<in> ?P" "in_vol s (iblk i s)" "iblk i s \<noteq> sbb s" if "group0 s i" for i
    using iblk_in_itable [OF that] ok(2,4) by (auto simp: reserved_def prot_def)
  have g': "iblk i s' = iblk i s2" "iblk i s2 = iblk i s" "ioff i s' = ioff i s2" "group0 s' = group0 s" "group0 s2 = group0 s" for i
    using place_geom [OF y(1,4)] place_geom [OF w(2,3)] g1 by simp_all
  have bufs: "\<forall>n. bufs s n" "\<forall>n. bufs s1 n" "\<forall>n. bufs s2 n" "\<forall>n. bufs s' n"
    using ok(1) s1(1) w(1) y(3) by (simp_all add: fs_ok_def)
  have sync: "ext2_read_inode i s' = ext2_read_inode i s2" if "group0 s i" for i
    using that tab [OF that] y(2) [of "iblk i s2"] read_inode_group0 [OF bufs(4), of i] read_inode_group0 [OF bufs(3), of i]
    by (simp add: g' iv sb2)
  show "\<forall>i. group0 s i \<and> i \<noteq> ino \<longrightarrow> ext2_read_inode i s' = ext2_read_inode i s"
  proof (intro allI impI)
    fix i
    assume i: "group0 s i \<and> i \<noteq> ino"
    then have "ext2_read_inode i s' = ext2_read_inode i s1"
      using sync w(6) [of i] tab [of i] by (simp add: g1 iv)
    also have "\<dots> = ext2_read_inode i s"
      using i tab [of i] s1(7) read_inode_group0 [OF bufs(2), of i] read_inode_group0 [OF bufs(1), of i] by (simp add: g1)
    finally show "ext2_read_inode i s' = ext2_read_inode i s" .
  qed
  have "\<forall>c. own s1 ?P c \<longrightarrow> ext2_read_block c s' = ext2_read_block c s1"
    using rd tab [OF assms(2)] by (auto simp: own_def iv reserved_def)
  then have "holds d s' 0 data"
    using s1(2) sg d(4) by (intro holds_frame [OF ev(2) s1(5)]) (auto simp: same_geom_def)
  then show "\<exists>inode'. ext2_read_inode ino s' = Some inode' \<and> i_mode inode' AND EXT2_S_IFREG \<noteq> 0 \<and>
       i_size inode' = of_nat (length data) \<and> holds inode' s' 0 data"
    using sync [OF assms(2)] w(5) d(2,3) m s1(6) by auto
qed

end
