(* ===== verification/Ext2_Volume.thy ===== *)
theory Ext2_Volume
  imports Ext2_Inodes
begin

text \<open>
  The properties of the ext2 driver as a whole, and a small volume on which they apply: 64 blocks of 1024 bytes, the descriptor
  in block 2, the bitmaps in blocks 3 and 4, eight inodes in block 5 and a root directory in block 6 with one empty file.
\<close>

section \<open>A sample volume\<close>

definition base_fs :: ext2_fs where
  "base_fs = \<lparr>drive = 0, part_start_lba = 0, sb = sample_sb, block_size = 1024, inodes_per_group = 8, blocks_per_group = 8192,
     bgd_blocks = 1, bgd_block = 2, inode_size = 128, bufs = (\<lambda>_. True), disk = (\<lambda>_. replicate 512 0),
     clock = \<lparr>second = 0, minute = 0, hour = 12, day = 29, month = 2, year = 2024\<rparr>\<rparr>"

definition desc_blk :: "u8 list" where "desc_blk = put32 (put32 (put32 (replicate 1024 0) 0 3) 4 4) 8 5"
definition bm_blk :: "u8 list" where "bm_blk = poke (replicate 1024 0) 0 [0x7F]"
definition root_inode :: "u8 list" where "root_inode = set_block 0 6 (new_inode 0x41FF 1024 2 2 0)"
definition file_inode :: "u8 list" where "file_inode = new_inode 0x81A4 0 1 0 0"
definition sub_inode :: "u8 list" where "sub_inode = set_block 0 7 (new_inode 0x41FF 1024 2 2 0)"
definition tab_blk :: "u8 list \<Rightarrow> u8 list" where "tab_blk x = poke (poke (replicate 1024 0) 128 root_inode) 256 x"
definition dir_blk :: "u8 list" where "dir_blk = put_entry (put16 (replicate 1024 0) 4 1024) 0 3 1 [0x61] 8"
definition dot_blk :: "u8 list" where "dot_blk = dot_entries 1024 3 2"

text \<open>The volume with \<open>t\<close>, \<open>d\<close> and \<open>e\<close> in blocks 5, 6 and 7, and the one with \<open>x\<close> as inode 3.\<close>

definition small_fs :: "u8 list \<Rightarrow> u8 list \<Rightarrow> u8 list \<Rightarrow> ext2_fs" where
  "small_fs t d e = ext2_write_block 7 e (ext2_write_block 6 d (ext2_write_block 5 t
     (ext2_write_block 3 bm_blk (ext2_write_block 2 desc_blk base_fs))))"

definition sample_fs :: "u8 list \<Rightarrow> ext2_fs" where "sample_fs x = small_fs (tab_blk x) dir_blk dot_blk"

lemma length_new_inode: "length (new_inode m sz l b t) = 128"
  by (simp add: new_inode_def set_mtime_def set_ctime_def set_atime_def set_blocks_512_def set_links_def set_size_def set_mode_def INODE_SIZE_def)

lemma sample_lengths:
  "length desc_blk = 1024" "length bm_blk = 1024" "length root_inode = 128" "length file_inode = 128" "length sub_inode = 128"
  "length x = 128 \<Longrightarrow> length (tab_blk x) = 1024" "length dir_blk = 1024" "length dot_blk = 1024"
  by (simp_all add: desc_blk_def bm_blk_def root_inode_def file_inode_def sub_inode_def tab_blk_def dir_blk_def dot_blk_def dot_entries_def
      put_entry_def length_new_inode EXT2_DIRENT_HDR_def)

lemma base_ok: "vol_ok base_fs" "in_vol base_fs b \<longleftrightarrow> b < 64" "block_data base_fs d \<longleftrightarrow> length d = 1024"
  by (simp_all add: vol_ok_def base_fs_def in_vol_def block_data_def sample_sb_fields)

lemma small_fields: "block_size (small_fs t d e) = 1024" "sb (small_fs t d e) = sample_sb" "bufs (small_fs t d e) = (\<lambda>_. True)" "bgd_block (small_fs t d e) = 2"
  "inodes_per_group (small_fs t d e) = 8" "blocks_per_group (small_fs t d e) = 8192" "inode_size (small_fs t d e) = 128"
  by (simp_all add: small_fs_def) (simp_all add: base_fs_def)

lemma small_reads:
  assumes "length t = 1024" "length d = 1024" "length e = 1024"
  shows "ext2_read_block 2 (small_fs t d e) = desc_blk" "ext2_read_block 3 (small_fs t d e) = bm_blk" "ext2_read_block 5 (small_fs t d e) = t"
    "ext2_read_block 6 (small_fs t d e) = d" "ext2_read_block 7 (small_fs t d e) = e"
  using assms by (simp_all add: small_fs_def blk_read_write blk_write_other base_ok sample_lengths)

lemma small_vol: "length t = 1024 \<Longrightarrow> length d = 1024 \<Longrightarrow> length e = 1024 \<Longrightarrow> vol_ok (small_fs t d e)" "in_vol (small_fs t d e) b \<longleftrightarrow> b < 64"
  by (simp_all add: small_fs_def base_ok sample_lengths)

lemma small_gd:
  assumes "length t = 1024" "length d = 1024" "length e = 1024"
  shows "block_bitmap (gd (small_fs t d e)) = 3" "inode_bitmap (gd (small_fs t d e)) = 4" "inode_table (gd (small_fs t d e)) = 5"
proof -
  have "get32 (take 32 desc_blk) i = get32 desc_blk i" if "i + 4 \<le> 32" for i
    using that sample_lengths(1) by (simp add: get32_def)
  then show "block_bitmap (gd (small_fs t d e)) = 3" "inode_bitmap (gd (small_fs t d e)) = 4" "inode_table (gd (small_fs t d e)) = 5"
    using assms
    by (simp_all add: gd_def small_fields small_reads BGD_SIZE_def block_bitmap_def inode_bitmap_def inode_table_def)
      (simp_all add: desc_blk_def get32_put32 get32_poke)
qed

lemma bit_127: "bit (0x7F :: u8) n \<longleftrightarrow> n < 7"
proof -
  have "(0x7F :: u8) = mask 7" by (simp add: mask_eq_exp_minus_1)
  then have "bit (0x7F :: u8) n \<longleftrightarrow> bit (mask 7 :: u8) n" by (rule arg_cong)
  also have "\<dots> \<longleftrightarrow> n < 7" by (auto simp: bit_mask_iff)
  finally show ?thesis .
qed

lemma small_used:
  assumes "length t = 1024" "length d = 1024" "length e = 1024"
  shows "used (small_fs t d e) b \<longleftrightarrow> b \<in> {1, 2, 3, 4, 5, 6, 7}"
proof -
  let ?i = "unat (b - 1)"
  have nth: "bm_blk ! k = (if k = 0 then 0x7F else 0)" if "k < 1024" for k
    using that by (simp add: bm_blk_def nth_poke)
  have "used (small_fs t d e) b \<longleftrightarrow> 1 \<le> b \<and> ?i < 8192 \<and> bit (bm_blk ! (?i div 8)) (?i mod 8)"
    using assms by (simp add: used_def small_fields sample_sb_fields block_to_bit_def bmap_def small_gd small_reads bit_at_def)
  also have "\<dots> \<longleftrightarrow> 1 \<le> b \<and> ?i < 7"
  proof (cases "?i < 8")
    case True
    then have "bm_blk ! (?i div 8) = 0x7F" "?i mod 8 = ?i" using nth [of 0] by simp_all
    with True show ?thesis unfolding bit_127 [symmetric] by simp
  next
    case False
    then have "?i < 8192 \<Longrightarrow> bm_blk ! (?i div 8) = 0" using nth [of "?i div 8"] by (simp add: less_mult_imp_div_less)
    with False show ?thesis by auto
  qed
  also have "\<dots> \<longleftrightarrow> 1 \<le> unat b \<and> unat b \<le> 7"
    by (auto simp: word_le_nat_alt unat_sub)
  also have "\<dots> \<longleftrightarrow> unat b \<in> {1, 2, 3, 4, 5, 6, 7}" by auto
  also have "\<dots> \<longleftrightarrow> b \<in> {1, 2, 3, 4, 5, 6, 7}" by (auto simp: word_unat_eq_iff)
  finally show ?thesis .
qed

lemma small_fs_ok: "length t = 1024 \<Longrightarrow> length d = 1024 \<Longrightarrow> length e = 1024 \<Longrightarrow> fs_ok (small_fs t d e)"
  using sample_lengths length_sample_sb
  by (simp add: fs_ok_def small_vol small_used small_fields sample_sb_fields bmap_def small_gd geometry_ok_def SB_SIZE_def)

lemma sample_fields: "block_size (sample_fs x) = 1024" "sb (sample_fs x) = sample_sb" "bufs (sample_fs x) = (\<lambda>_. True)" "bgd_block (sample_fs x) = 2"
  "inodes_per_group (sample_fs x) = 8" "blocks_per_group (sample_fs x) = 8192" "inode_size (sample_fs x) = 128"
  by (simp_all add: sample_fs_def small_fields)

lemma sample_small:
  assumes "length x = 128"
  shows "ext2_read_block 2 (sample_fs x) = desc_blk" "ext2_read_block 3 (sample_fs x) = bm_blk" "ext2_read_block 5 (sample_fs x) = tab_blk x"
    "ext2_read_block 6 (sample_fs x) = dir_blk" "ext2_read_block 7 (sample_fs x) = dot_blk"
    "vol_ok (sample_fs x)" "block_bitmap (gd (sample_fs x)) = 3" "inode_bitmap (gd (sample_fs x)) = 4" "inode_table (gd (sample_fs x)) = 5"
    "used (sample_fs x) b \<longleftrightarrow> b \<in> {1, 2, 3, 4, 5, 6, 7}" "fs_ok (sample_fs x)"
  using assms by (simp_all add: sample_fs_def sample_lengths small_reads small_vol small_gd small_used small_fs_ok)

lemmas sample_reads = sample_small(1-5)
lemmas sample_gd = sample_small(7-9)
lemmas sample_used = sample_small(10)
lemmas sample_fs_ok = sample_small(11)

lemma sample_vol: "length x = 128 \<Longrightarrow> vol_ok (sample_fs x)" "in_vol (sample_fs x) b \<longleftrightarrow> b < 64"
  by (simp_all add: sample_small) (simp add: sample_fs_def small_vol)

text \<open>C30: on a mounted volume the block allocator is the least element of the complement of the set of used blocks: a
  successful \<open>ext2_alloc_block\<close> returns the lowest block of the volume the bitmap does not call used, adds exactly that block to
  the set, clears it and changes no other block but the bitmap and the group descriptor; it fails only when every block of
  group 0 is used, and then changes nothing. \<open>ext2_free_block\<close> takes the block out again.
\<close>

theorem ext2_block_allocator:
  assumes "fs_ok s" "ext2_alloc_block s = (b, s')"
  shows "(if b = 0
     then s' = s \<and> (\<forall>c. in_vol s c \<and> sb_first_data_block (sb s) \<le> c \<and>
            unat (block_to_bit c s) < unat (blocks_per_group s) \<longrightarrow> used s c)
     else in_vol s b \<and> \<not> used s b \<and> (\<forall>c. used s' c \<longleftrightarrow> used s c \<or> c = b) \<and>
       (\<forall>c. sb_first_data_block (sb s) \<le> c \<and> c < b \<longrightarrow> used s c) \<and>
       ext2_read_block b s' = replicate (unat (block_size s)) 0 \<and>
       (\<forall>c. in_vol s c \<and> c \<notin> {b, bmap s, bgd_block s} \<longrightarrow> ext2_read_block c s' = ext2_read_block c s) \<and>
       (\<forall>c. used (ext2_free_block b s') c \<longleftrightarrow> used s c))"
proof (cases "b = 0")
  case True
  with assms show ?thesis using alloc_block_fails [of s s'] alloc_block_full [of s s'] by simp
next
  case False
  note p = fs_ok_parts [OF assms(1)]
  note a = alloc_block_props [OF assms False]
  obtain i where i: "find_free_bit (ext2_read_block (bmap s) s) (group_bits (blocks_per_group s) s) = Some i"
      "b = bit_to_block (of_nat i) s"
    using alloc_shape [OF assms False] by metis
  have lowest: "used s c" if "sb_first_data_block (sb s) \<le> c" "c < b" for c
  proof -
    have lt: "i < 8 * unat (block_size s)"
      using find_free_bit_Some [OF i(1)] group_bits_le [OF p(1), of "blocks_per_group s"] by linarith
    have "unat (block_to_bit b s) = i" "sb_first_data_block (sb s) \<le> b"
      using bit_index [OF p(1) lt i(2) a(1) False p(10)] by simp_all
    with that have "unat (block_to_bit c s) < i"
      by (simp add: block_to_bit_def unat_sub word_less_nat_alt word_le_nat_alt)
    with that lt find_free_bit_Some [OF i(1)] show ?thesis by (simp add: used_def)
  qed
  have "bmap s' = bmap s" "bgd_block s' = bgd_block s"
    using a(6,7) by (simp_all add: bmap_def desc_def same_geom_def)
  then have "used (ext2_free_block b s') c \<longleftrightarrow> used s c" for c
    using free_block_props(4) [OF a(8), of b c] a(3,4,5,9) False by auto
  with False a lowest show ?thesis by simp
qed


theorem ext2_block_allocator_witness:
  "\<exists>b s'. ext2_alloc_block (sample_fs file_inode) = (b, s') \<and> b \<noteq> 0 \<and> used s' b \<and> \<not> used (sample_fs file_inode) b"
proof -
  let ?s = "sample_fs file_inode"
  obtain b s' where a: "ext2_alloc_block ?s = (b, s')" by (cases "ext2_alloc_block ?s")
  note t = ext2_block_allocator [OF sample_fs_ok [OF sample_lengths(4)] a]
  have "b \<noteq> 0"
  proof
    assume "b = 0"
    with t have "used ?s 8"
      by (simp add: sample_vol sample_fields sample_sb_fields block_to_bit_def)
    then show False using sample_lengths by (simp add: sample_used)
  qed
  with t a show ?thesis by simp
qed

section \<open>Writing and reading\<close>

lemma write_file_reads_back:
  assumes "layout_ok D s" "resolve_path path s = ino" "group0 s ino" "tl path = [] \<or> walk_in D ino (tl path) EXT2_ROOT_INO s"
    "ext2_read_inode ino s = Some inode" "file_ok (reserved D s) inode s"
    "ext2_write_file path data s = (int (length data), s')" "length data < 2 ^ 32"
  shows "same_geom s s' \<and> resolve_path path s' = ino \<and> ext2_read_file path n s' = Some (take n data) \<and>
    (\<forall>c\<in>D. ext2_read_block c s' = ext2_read_block c s) \<and>
    (\<forall>i. group0 s i \<and> i \<noteq> ino \<longrightarrow> ext2_read_inode i s' = ext2_read_inode i s)"
proof -
  have i0: "ino \<noteq> 0" using assms(3) by (simp add: group0_def)
  then have wd: "write_inode_data ino data s = (int (length data), s')"
    using assms(2,7) by (simp add: ext2_write_file_def Let_def)
  note w = write_inode_data_props [OF assms(1,3,5,6) wd]
  obtain inode' where r: "ext2_read_inode ino s' = Some inode'" "i_mode inode' AND EXT2_S_IFREG \<noteq> 0"
      "i_size inode' = of_nat (length data)" "holds inode' s' 0 data"
    using w(4) by blast
  have res: "resolve_path path s' = ino"
    using assms(2,4) resolve_frame [OF _ w(1-3)] by (auto simp: resolve_path_def)
  moreover have "0 < unat (block_size s')"
    using assms(1) w(1) fs_ok_parts(1) [of s] by (auto simp: layout_ok_def same_geom_def elim!: block_size_cases)
  moreover have "unat (i_size inode') = length data" using assms(8) r(3) by (simp add: unat_of_nat)
  ultimately have "ext2_read_file path n s' = Some (take n data)"
    using r i0 read_blocks_holds [of inode' s' 0 data "min (length data) n"] by (simp add: ext2_read_file_def Let_def min_def)
  with w(1-3) res show ?thesis by simp
qed

text \<open>C29: a file written through the driver reads back. When a path leads to a regular file of group 0 that owns its blocks and
  \<open>ext2_write_file\<close> accepts the data, \<open>ext2_read_file\<close> returns exactly the data (or as much of it as the buffer takes), whether the
  blocks were there before or are allocated on the way, with or without the indirect block; no other inode of the
  group and no block outside the file changes its contents but the bitmap, the descriptor, the inode table and the superblock.
\<close>

theorem ext2_write_read:
  assumes "layout_ok D s" "resolve_path path s = ino" "group0 s ino" "tl path = [] \<or> walk_in D ino (tl path) EXT2_ROOT_INO s"
    "ext2_read_inode ino s = Some inode" "file_ok (reserved D s) inode s"
    "ext2_write_file path data s = (int (length data), s')" "length data < 2 ^ 32"
  shows "ext2_read_file path n s' = Some (take n data) \<and>
    (\<forall>c\<in>D. ext2_read_block c s' = ext2_read_block c s) \<and>
    (\<forall>i. group0 s i \<and> i \<noteq> ino \<longrightarrow> ext2_read_inode i s' = ext2_read_inode i s)"
  using write_file_reads_back [OF assms] by blast

lemma small_place:
  assumes "length t = 1024" "length d = 1024" "length e = 1024"
  shows "group0 (small_fs t d e) ino \<Longrightarrow> iblk ino (small_fs t d e) = 5" "itable (small_fs t d e) = {5}" "sbb (small_fs t d e) = 1"
    "ioff 2 (small_fs t d e) = 128" "ioff 3 (small_fs t d e) = 256" "ioff 4 (small_fs t d e) = 384"
proof -
  show b: "group0 (small_fs t d e) ino \<Longrightarrow> iblk ino (small_fs t d e) = 5" for ino
    using assms by (simp add: iblk_def inode_place_def group0_def small_fields small_gd mod_word_less div_word_less)
  have "group0 (small_fs t d e) 2" by (simp add: group0_def small_fields)
  with b have "itable (small_fs t d e) \<subseteq> {5}" "5 \<in> itable (small_fs t d e)"
    using b [of 2] iblk_in_itable [of "small_fs t d e" 2] by (auto simp: itable_def)
  then show "itable (small_fs t d e) = {5}" by blast
  show "sbb (small_fs t d e) = 1" by (simp add: sbb_def small_fields)
  show "ioff 2 (small_fs t d e) = 128" "ioff 3 (small_fs t d e) = 256" "ioff 4 (small_fs t d e) = 384"
    by (simp_all add: ioff_def inode_place_def small_fields)
qed

lemma small_group0: "group0 (small_fs t d e) 2" "group0 (small_fs t d e) 3" "group0 (small_fs t d e) 4"
  by (simp_all add: group0_def small_fields)

lemma small_layout: "length t = 1024 \<Longrightarrow> length d = 1024 \<Longrightarrow> length e = 1024 \<Longrightarrow> D \<subseteq> {6, 7} \<Longrightarrow> layout_ok D (small_fs t d e)"
  by (auto simp: layout_ok_def small_fs_ok prot_def reserved_def small_place small_vol small_used bmap_def small_gd small_fields)

lemma sample_place:
  assumes "length x = 128"
  shows "group0 (sample_fs x) ino \<Longrightarrow> iblk ino (sample_fs x) = 5" "itable (sample_fs x) = {5}" "sbb (sample_fs x) = 1"
    "ioff 2 (sample_fs x) = 128" "ioff 3 (sample_fs x) = 256" "layout_ok {6} (sample_fs x)"
  using assms by (simp_all add: sample_fs_def sample_lengths small_place small_layout)

lemmas sample_layout = sample_place(6)

lemma sample_group0: "group0 (sample_fs x) 2" "group0 (sample_fs x) 3"
  by (simp_all add: sample_fs_def small_group0)

lemma sample_inodes:
  assumes "length x = 128"
  shows "ext2_read_inode 2 (sample_fs x) = Some root_inode" "ext2_read_inode 3 (sample_fs x) = Some x"
proof -
  have "take 128 (drop 128 (tab_blk x)) = root_inode" "take 128 (drop 256 (tab_blk x)) = x"
    using assms sample_lengths take_drop_poke_same [of 128 root_inode "replicate 1024 0"]
      take_drop_poke_same [of 256 x "poke (replicate 1024 0) 128 root_inode"]
    by (simp_all add: tab_blk_def take_drop_poke)
  then show "ext2_read_inode 2 (sample_fs x) = Some root_inode" "ext2_read_inode 3 (sample_fs x) = Some x"
    using assms sample_group0 by (simp_all add: read_inode_group0 sample_fields sample_place sample_reads)
qed

lemma new_inode_fields:
  "i_mode (new_inode m sz l b t) = m" "i_size (new_inode m sz l b t) = sz" "i_links (new_inode m sz l b t) = l"
  "k < 15 \<Longrightarrow> i_block (new_inode m sz l b t) k = 0"
  by (simp_all add: new_inode_def set_mtime_def set_ctime_def set_atime_def set_blocks_512_def set_links_def set_size_def set_mode_def
      INODE_SIZE_def i_mode_def i_size_def i_links_def i_block_def get16_put16 get32_put32 get32_poke get16_poke get32_zero)

lemma set_block_0_fields:
  assumes "length i = 128"
  shows "i_size (set_block 0 v i) = i_size i" "i_links (set_block 0 v i) = i_links i"
  using assms by (simp_all add: i_size_def i_links_def set_block_def get32_poke get16_poke)

lemma dir_inode_fields:
  "i_size root_inode = 1024" "k < 15 \<Longrightarrow> i_block root_inode k = (if k = 0 then 6 else 0)"
  "i_size sub_inode = 1024" "i_mode sub_inode = 0x41FF" "i_links sub_inode = 2" "i_block sub_inode 0 = 7"
  using length_new_inode
  by (simp_all add: root_inode_def sub_inode_def i_block_set_block i_mode_set_block set_block_0_fields new_inode_fields)

lemma dir_blk_entry: "de_inode dir_blk 0 = 3" "de_rec_len dir_blk 0 = 1024" "de_name_len dir_blk 0 = 1" "de_name dir_blk 0 (Suc 0) = [0x61]"
proof -
  show "de_inode dir_blk 0 = 3" "de_rec_len dir_blk 0 = 1024"
    by (simp_all add: dir_blk_def put_entry_def de_inode_def de_rec_len_def EXT2_DIRENT_HDR_def get32_poke get16_poke get32_put32 get16_put16)
  show "de_name_len dir_blk 0 = 1" by (simp add: dir_blk_def put_entry_def de_name_len_def EXT2_DIRENT_HDR_def nth_poke)
  show "de_name dir_blk 0 (Suc 0) = [0x61]"
    using take_drop_poke_same [of 8 "[0x61]" "poke (put32 (put16 (replicate 1024 0) 4 1024) 0 3) 6 [1, 1]"]
    by (simp add: dir_blk_def put_entry_def de_name_def EXT2_DIRENT_HDR_def poke_def [of _ 8 "[]"])
qed

lemma sample_lookup: "length x = 128 \<Longrightarrow> dir_search root_inode [0x61] 1024 0 (sample_fs x) = Some 3"
  using dir_inode_fields(2) [of 0]
  by (simp add: dir_search.simps [of root_inode] ext2_read_inode_block_def sample_reads sample_fields scan_block.simps [of _ _ _ _ 0]
      dir_blk_entry EXT2_DIRENT_HDR_def MAX_FILENAME_def cstr_def)

lemma sample_resolve:
  assumes "length x = 128"
  shows "resolve_path [0x2F, 0x61] (sample_fs x) = 3" "walk_in {6} 3 [0x61] EXT2_ROOT_INO (sample_fs x)"
proof -
  have w: "takeWhile (\<lambda>c. c \<noteq> SLASH) [0x61] = [0x61]" "dropWhile (\<lambda>c. c \<noteq> SLASH) [0x61] = []" by (simp_all add: SLASH_def)
  note sz = dir_inode_fields(1)
  show "resolve_path [0x2F, 0x61] (sample_fs x) = 3"
    using w sz assms by (simp add: resolve_path_def SLASH_def resolve_from.simps [of "[0x61]"] resolve_from.simps [of "[]"]
        MAX_FILENAME_def EXT2_ROOT_INO_def sample_inodes sample_lookup)
  show "walk_in {6} 3 [0x61] EXT2_ROOT_INO (sample_fs x)"
    using w sz assms by (simp add: walk_in.simps [of _ _ "[0x61]"] walk_in.simps [of _ _ "[]"] MAX_FILENAME_def EXT2_ROOT_INO_def sample_inodes
        sample_lookup group0_def sample_fields dir_in_def dir_inode_fields)
qed

lemma empty_file_ok: "file_ok P file_inode s"
proof -
  have b: "i_block file_inode k = 0" if "k < 15" for k using that by (simp add: file_inode_def new_inode_fields)
  then have "fptr file_inode s i = 0" for i by (simp add: fptr_def)
  with b [of 12] show ?thesis by (simp add: file_ok_def sample_lengths)
qed

lemma file_inode_mode: "i_mode file_inode AND EXT2_S_IFREG \<noteq> 0"
  by (simp add: file_inode_def new_inode_fields EXT2_S_IFREG_def)

text \<open>A block written to an empty file of the small volume.\<close>

lemma small_write:
  assumes "length t = 1024" "length d = 1024" "length e = 1024" "length xs \<le> 1024"
  shows "\<exists>inode s2. write_blocks file_inode xs 0 (small_fs t d e) = (Some inode, s2)"
proof -
  let ?s = "small_fs t d e"
  obtain b s1 where a: "ext2_alloc_block ?s = (b, s1)" by (cases "ext2_alloc_block ?s")
  have "b \<noteq> 0"
  proof
    assume "b = 0"
    with a have "used ?s 8"
      by (intro alloc_block_full [OF small_fs_ok [OF assms(1-3)]])
        (simp_all add: small_vol small_fields sample_sb_fields block_to_bit_def)
    then show False using assms by (simp add: small_used)
  qed
  moreover have "i_block file_inode 0 = 0" by (simp add: file_inode_def new_inode_fields)
  ultimately have "block_for_write file_inode 0 ?s = (b, set_block 0 b file_inode, s1)"
    using a by (simp add: block_for_write_def)
  with \<open>b \<noteq> 0\<close> assms(4) show ?thesis
    by (cases "xs = []") (simp_all add: write_blocks.simps [of _ xs] write_blocks.simps [of _ "[]"] small_fields min_def)
qed

lemma sample_write: "\<exists>s'. ext2_write_file [0x2F, 0x61] [7] (sample_fs file_inode) = (int (length [7 :: u8]), s')"
  using small_write [of "tab_blk file_inode" dir_blk dot_blk "[7]", folded sample_fs_def] file_inode_mode
  by (auto simp: ext2_write_file_def sample_resolve write_inode_data_def sample_inodes sample_lengths Let_def)

theorem ext2_write_read_witness:
  "\<exists>s'. ext2_write_file [0x2F, 0x61] [7] (sample_fs file_inode) = (1, s') \<and> ext2_read_file [0x2F, 0x61] 10 s' = Some [7]"
proof -
  note l = sample_lengths(4)
  obtain s' where w: "ext2_write_file [0x2F, 0x61] [7] (sample_fs file_inode) = (int (length [7 :: u8]), s')" using sample_write by blast
  have "tl [0x2F, 0x61 :: u8] = [] \<or> walk_in {6} 3 (tl [0x2F, 0x61]) EXT2_ROOT_INO (sample_fs file_inode)"
    using sample_resolve(2) [OF l] by simp
  from ext2_write_read [OF sample_layout [OF l] sample_resolve(1) [OF l] sample_group0(2) this sample_inodes(2) [OF l] empty_file_ok w, of 10] w
  show ?thesis by simp
qed

section \<open>Removing a directory\<close>

lemma write_bgd_props:
  assumes "fs_ok s" "counters (gd s) g"
  defines "s' \<equiv> write_bgd 0 g s"
  shows "fs_ok s'" "same_geom s s'" "desc s' = desc s" "used s' c \<longleftrightarrow> used s c" "prot s' P \<longleftrightarrow> prot s P"
    "in_vol s c \<Longrightarrow> c \<noteq> bgd_block s \<Longrightarrow> ext2_read_block c s' = ext2_read_block c s"
proof -
  note p = fs_ok_parts [OF assms(1)]
  let ?d = "poke (ext2_read_block (bgd_block s) s) 0 g"
  have g: "length g = 32" using assms(2) length_gd [OF assms(1)] by (simp add: counters_def)
  have "32 \<le> unat (block_size s)" using p(1) by (cases rule: block_size_cases) simp_all
  with g p(1) have bd: "block_data s ?d" by (simp add: block_data_def)
  have s': "s' = ext2_write_block (bgd_block s) ?d s" using p(3) by (simp add: s'_def write_bgd_0)
  show rd: "in_vol s c \<Longrightarrow> c \<noteq> bgd_block s \<Longrightarrow> ext2_read_block c s' = ext2_read_block c s" for c
    using p(1,5) by (simp add: s' blk_write_other)
  show sg: "same_geom s s'" by (simp add: s')
  have "ext2_read_block (bgd_block s) s' = ?d" using p(1,5) bd by (simp add: s' blk_read_write)
  then have "gd s' = g" using g sg by (simp add: gd_def same_geom_def poke_def BGD_SIZE_def)
  with assms(2) show ds: "desc s' = desc s" by (simp add: desc_def counters_def)
  then have bm: "bmap s' = bmap s" by (simp add: desc_def bmap_def)
  show u: "used s' c \<longleftrightarrow> used s c" for c
    using rd [OF p(6)] p(7) sg bm by (auto simp: used_def same_geom_def same_geom_derived [OF sg])
  have iv: "in_vol s' = in_vol s" "bgd_block s' = bgd_block s" using sg by (simp_all add: same_geom_derived [OF sg] same_geom_def)
  show "prot s' P \<longleftrightarrow> prot s P" by (simp add: prot_def u iv bm)
  have "vol_ok s'" using p(1) bd by (simp add: s')
  with p sg show "fs_ok s'" by (simp add: fs_ok_def u iv bm same_geom_def SB_SIZE_def same_geom_derived [OF sg])
qed

text \<open>Steps that keep the allocation state and change blocks of \<open>W\<close> only.\<close>

definition quiet :: "u32 set \<Rightarrow> ext2_fs \<Rightarrow> ext2_fs \<Rightarrow> bool" where
  "quiet W s s' \<longleftrightarrow> fs_ok s' \<and> same_geom s s' \<and> desc s' = desc s \<and> (\<forall>c. used s' c \<longleftrightarrow> used s c) \<and>
     (\<forall>c. in_vol s c \<and> c \<notin> W \<longrightarrow> ext2_read_block c s' = ext2_read_block c s)"

lemma quiet_trans: "quiet W s t \<Longrightarrow> quiet V t u \<Longrightarrow> quiet (W \<union> V) s u"
  using same_geom_derived(1) [of s t] same_geom_trans [of s t u] by (auto simp: quiet_def)

lemma quiet_keeps:
  assumes "quiet W s s'"
  shows "fs_ok s'" "prot s' P = prot s P" "group0 s' = group0 s" "iblk i s' = iblk i s" "sbb s' = sbb s" "bgd_block s' = bgd_block s"
    "in_vol s' = in_vol s"
proof -
  have q: "fs_ok s'" "same_geom s s'" "desc s' = desc s" "used s' c = used s c" for c using assms by (simp_all add: quiet_def)
  show "fs_ok s'" by (rule q)
  show "group0 s' = group0 s" "iblk i s' = iblk i s" using place_geom [OF q(2,3)] by simp_all
  show sb: "sbb s' = sbb s" "bgd_block s' = bgd_block s" using q(2) by (simp_all add: sbb_def same_geom_def)
  show "in_vol s' = in_vol s" using same_geom_derived(1) [OF q(2)] .
  with q(3) sb show "prot s' P = prot s P" by (simp add: prot_def q(4) desc_def bmap_def)
qed

lemma quiet_inode:
  assumes "quiet W s s'" "group0 s i" "in_vol s (iblk i s)" "iblk i s \<notin> W" "fs_ok s"
  shows "ext2_read_inode i s' = ext2_read_inode i s"
proof -
  have g: "ioff i s' = ioff i s" using place_geom(2) assms(1) by (simp add: quiet_def)
  have "\<forall>n. bufs s n" "\<forall>n. bufs s' n" using assms(5) quiet_keeps(1) [OF assms(1)] by (simp_all add: fs_ok_def)
  with assms g quiet_keeps [OF assms(1)] show ?thesis
    by (simp add: read_inode_group0 quiet_def)
qed

lemma quiet_block: "fs_ok s \<Longrightarrow> prot s P \<Longrightarrow> b \<in> P \<Longrightarrow> block_data s d \<Longrightarrow> quiet {b} s (ext2_write_block b d s)"
  using write_own [of s b d] by (auto simp: quiet_def prot_def)

lemma quiet_write_inode:
  "fs_ok s \<Longrightarrow> prot s P \<Longrightarrow> group0 s i \<Longrightarrow> iblk i s \<in> P \<Longrightarrow> length d = 128 \<Longrightarrow> quiet {iblk i s} s (snd (ext2_write_inode i d s))"
  using write_inode_props [of s P i d] by (auto simp: quiet_def)

lemma quiet_sync: "fs_ok s \<Longrightarrow> prot s P \<Longrightarrow> sbb s \<in> P \<Longrightarrow> quiet {sbb s} s (ext2_sync_superblock s)"
  using sync_props [of s P] by (auto simp: quiet_def)

lemma quiet_adjust:
  assumes "fs_ok s"
  shows "quiet {bgd_block s} s (bgd_adjust_dir_count x s)"
proof -
  define g where "g = (if x > 0 then put16 (gd s) 16 (used_dirs_count (gd s) + 1)
    else if used_dirs_count (gd s) > 0 then put16 (gd s) 16 (used_dirs_count (gd s) - 1) else gd s)"
  have "counters (gd s) g" using length_gd [OF assms] by (simp add: g_def counters_put16)
  moreover have "bgd_adjust_dir_count x s = write_bgd 0 g s"
    using fs_ok_parts(3) [OF assms] by (simp add: bgd_adjust_dir_count_def read_bgd_0 g_def)
  ultimately show ?thesis using write_bgd_props [OF assms] by (auto simp: quiet_def)
qed

lemma remove_scan_length: "length b = bs \<Longrightarrow> remove_scan bs limit name b off = Some b' \<Longrightarrow> length b' = bs"
proof (induction bs limit name b off rule: remove_scan.induct)
  case (1 bs limit name b off)
  then show ?case
    by (auto simp: remove_scan.simps [of bs limit name b off] EXT2_DIRENT_HDR_def Let_def split: if_splits)
qed

lemma remove_blocks_writes:
  assumes "vol_ok s" "remove_blocks d name l k s = (True, s')"
  shows "\<exists>i b. i < 12 \<and> i_block d i \<noteq> 0 \<and> block_data s b \<and> s' = ext2_write_block (i_block d i) b s"
  using assms
proof (induction d name l k s rule: remove_blocks.induct)
  case (1 d name l k s)
  show ?case
  proof (cases "l > 0 \<and> k < 12 \<and> i_block d k \<noteq> 0")
    case False
    with 1 show ?thesis by (auto simp: remove_blocks.simps [of d name l k s] split: if_splits)
  next
    case True
    then have rd: "ext2_read_inode_block d k s = Some (ext2_read_block (i_block d k) s)"
      by (simp add: ext2_read_inode_block_def)
    show ?thesis
    proof (cases "remove_scan (unat (block_size s)) (unat l) name (ext2_read_block (i_block d k) s) 0")
      case None
      with True rd 1 show ?thesis
        by (auto simp: remove_blocks.simps [of d name l k s] split: if_splits)
    next
      case (Some b)
      with remove_scan_length [OF _ this] True rd 1(2,3) show ?thesis
        by (auto simp: remove_blocks.simps [of d name l k s] block_data_def)
    qed
  qed
qed

lemma set_links_fields:
  assumes "length b = 128"
  shows "length (set_links v b) = 128" "i_links (set_links v b) = v"
  using assms by (simp_all add: set_links_def i_links_def get16_put16)

text \<open>Removing an empty directory releases nothing. A directory has two links, from its parent and from its own dot entry;
  \<open>ext2_unlink\<close> takes one away, finds one left and keeps the inode: after a successful removal the set of used blocks is what it
  was, the inode is still in the table with one link, and the inode bitmap and every other block outside the directory tree are
  unchanged, although no entry leads to the directory any more.
\<close>

theorem rmdir_leaks_directory:
  assumes "layout_ok D s" "resolve_path path s = ino" "group0 s ino" "ext2_read_inode ino s = Some inode"
    "i_mode inode AND EXT2_S_IFDIR \<noteq> 0" "i_links inode = 2"
    "split_parent_child path MAX_PATH MAX_FILENAME = Some (parent_path, name)" "resolve_path parent_path s = parent" "group0 s parent"
    "parent \<noteq> ino" "ext2_read_inode parent s = Some parent_inode" "dir_in D parent_inode" "ext2_unlink path s = (0, s')"
  shows "(\<forall>c. used s' c \<longleftrightarrow> used s c) \<and> ext2_read_inode ino s' = Some (set_links 1 inode) \<and>
    (\<forall>c. in_vol s c \<and> c \<notin> reserved D s \<and> c \<noteq> bgd_block s \<longrightarrow> ext2_read_block c s' = ext2_read_block c s)"
proof -
  let ?P = "reserved D s"
  have ok: "fs_ok s" "prot s ?P" "D \<inter> (itable s \<union> {sbb s}) = {}" "sbb s \<notin> itable s" using assms(1) by (simp_all add: layout_ok_def)
  have l: "length inode = 128" "length parent_inode = 128" using read_inode_length [OF ok(1)] assms(3,4,9,11) by auto
  have "path \<noteq> []" "hd path = SLASH" using assms(7) by (auto simp: split_parent_child_def split: if_splits)
  moreover have "\<not> (ino = 0 \<or> ino < EXT2_ROOT_INO)" "parent \<noteq> 0"
    using assms(2-9,13) \<open>path \<noteq> []\<close> \<open>hd path = SLASH\<close> by (auto simp: ext2_unlink_def group0_def Let_def split: if_splits)
  ultimately obtain s1 where rb: "remove_blocks parent_inode name (i_size parent_inode) 0 s = (True, s1)"
    and s': "s' = ext2_sync_superblock (bgd_adjust_dir_count (- 1)
      (snd (ext2_write_inode parent (set_links (i_links parent_inode - 1) parent_inode) (drop_link ino inode s1))))"
    using assms(2-11,13) by (auto simp: ext2_unlink_def Let_def split: if_splits prod.splits)
  obtain k b where w: "k < 12" "i_block parent_inode k \<noteq> 0" "block_data s b" "s1 = ext2_write_block (i_block parent_inode k) b s"
    using remove_blocks_writes [OF fs_ok_parts(1) [OF ok(1)] rb] by blast
  let ?x = "i_block parent_inode k"
  have x: "?x \<in> D" "?x \<in> ?P" using assms(12) w(1,2) by (simp_all add: dir_in_def reserved_def)
  have tab: "iblk i s \<in> ?P" "in_vol s (iblk i s)" "iblk i s \<noteq> sbb s" "iblk i s \<noteq> ?x" "iblk i s \<noteq> bgd_block s" if "group0 s i" for i
    using iblk_in_itable [OF that] ok(2-4) x(1) by (auto simp: reserved_def prot_def)
  define s2 where "s2 = drop_link ino inode s1"
  define s3 where "s3 = snd (ext2_write_inode parent (set_links (i_links parent_inode - 1) parent_inode) s2)"
  define s4 where "s4 = bgd_adjust_dir_count (- 1) s3"
  note sl = set_links_fields [OF l(1)] set_links_fields [OF l(2)]
  have q1: "quiet {?x} s s1" using quiet_block [OF ok(1,2) x(2) w(3)] w(4) by simp
  note k1 = quiet_keeps [OF q1]
  have dl: "s2 = snd (ext2_write_inode ino (set_links 1 inode) s1)"
    using assms(6) sl by (simp add: s2_def drop_link_def)
  have "quiet {iblk ino s1} s1 s2"
    unfolding dl using ok(2) tab(1) [OF assms(3)] assms(3) sl by (intro quiet_write_inode [where P = ?P]) (simp_all add: k1)
  then have q2: "quiet {iblk ino s} s1 s2" by (simp add: k1)
  note k2 = quiet_keeps [OF q2]
  have rd2: "ext2_read_inode ino s2 = Some (set_links 1 inode)"
    unfolding dl using ok(2) tab(1) [OF assms(3)] assms(3) sl by (intro write_inode_props [where P = ?P]) (simp_all add: k1)
  have "quiet {iblk parent s2} s2 s3"
    unfolding s3_def using ok(2) tab(1) [OF assms(9)] assms(9) sl by (intro quiet_write_inode [where P = ?P]) (simp_all add: k1 k2)
  then have q3: "quiet {iblk parent s} s2 s3" by (simp add: k1 k2)
  have rd3: "ext2_read_inode ino s3 = ext2_read_inode ino s2"
    unfolding s3_def using ok(2) tab [OF assms(3)] tab(1) [OF assms(9)] assms(3,9,10) sl
    by (intro write_inode_props(6) [where P = ?P]) (simp_all add: k1 k2)
  note k3 = quiet_keeps [OF q3]
  have q4: "quiet {bgd_block s} s3 s4" using quiet_adjust [OF k3(1)] by (simp add: s4_def k1 k2 k3)
  note k4 = quiet_keeps [OF q4]
  have "quiet {sbb s4} s4 s'"
    unfolding s' s2_def [symmetric] s3_def [symmetric] s4_def [symmetric] using ok(2)
    by (intro quiet_sync [where P = ?P]) (simp_all add: k1 k2 k3 k4 reserved_def)
  then have q5: "quiet {sbb s} s4 s'" by (simp add: k1 k2 k3 k4)
  have q: "quiet ({?x} \<union> {iblk ino s} \<union> {iblk parent s} \<union> {bgd_block s} \<union> {sbb s}) s s'"
    using quiet_trans [OF quiet_trans [OF quiet_trans [OF quiet_trans [OF q1 q2] q3] q4] q5] .
  have "ext2_read_inode ino s' = ext2_read_inode ino s3"
    using quiet_inode [OF quiet_trans [OF q4 q5], of ino] tab [OF assms(3)] assms(3) k3(1) by (simp add: k1 k2 k3)
  with rd3 rd2 q x(2) tab(1) [OF assms(3)] tab(1) [OF assms(9)] show ?thesis
    by (auto simp: quiet_def reserved_def)
qed

lemma dot_blk_entries:
  "de_inode dot_blk 0 = 3" "de_rec_len dot_blk 0 = 12" "de_name_len dot_blk 0 = 1" "dot_blk ! 8 = DOT"
  "de_rec_len dot_blk 12 = 1012" "de_name_len dot_blk 12 = 2" "dot_blk ! 20 = DOT" "dot_blk ! 21 = DOT"
  by (simp_all add: dot_blk_def dot_entries_def put_entry_def de_inode_def de_rec_len_def de_name_len_def EXT2_DIRENT_HDR_def
      get32_poke get16_poke get32_put32 get16_put16 nth_poke)

lemma sub_is_empty: "\<not> dir_in_use sub_inode 1024 0 (sample_fs sub_inode)"
proof -
  have "\<not> block_in_use 1024 1024 dot_blk 0"
    by (simp add: block_in_use.simps [of _ _ _ 0] block_in_use.simps [of _ _ _ 12] block_in_use.simps [of _ _ _ 1024]
        dot_blk_entries EXT2_DIRENT_HDR_def)
  moreover have "ext2_read_inode_block sub_inode 0 (sample_fs sub_inode) = Some dot_blk"
    by (simp add: ext2_read_inode_block_def dir_inode_fields sample_reads sample_lengths)
  ultimately show ?thesis
    by (simp add: dir_in_use.simps [of _ 1024] dir_in_use.simps [of _ 0] sample_fields)
qed

lemma sample_remove: "fst (remove_blocks root_inode [0x61] 1024 0 (sample_fs sub_inode))"
proof -
  have "remove_scan 1024 1024 [0x61] dir_blk 0 = Some (put32 dir_blk 0 0)"
    by (simp add: remove_scan.simps [of _ _ _ _ 0] dir_blk_entry EXT2_DIRENT_HDR_def MAX_FILENAME_def cstr_def)
  moreover have "ext2_read_inode_block root_inode 0 (sample_fs sub_inode) = Some dir_blk"
    by (simp add: ext2_read_inode_block_def dir_inode_fields sample_reads sample_lengths)
  ultimately show ?thesis
    by (simp add: remove_blocks.simps [of _ _ 1024] sample_fields dir_inode_fields)
qed

lemma sample_split: "split_parent_child [0x2F, 0x61] MAX_PATH MAX_FILENAME = Some ([0x2F], [0x61])"
  by (simp add: split_parent_child_def SLASH_def MAX_FILENAME_def)

lemma sample_unlink: "fst (ext2_unlink [0x2F, 0x61] (sample_fs sub_inode)) = 0"
proof -
  obtain s1 where "remove_blocks root_inode [0x61] 1024 0 (sample_fs sub_inode) = (True, s1)"
    using sample_remove by (cases "remove_blocks root_inode [0x61] 1024 0 (sample_fs sub_inode)") auto
  with sub_is_empty show ?thesis
  by (simp add: ext2_unlink_def SLASH_def sample_resolve sample_lengths EXT2_ROOT_INO_def sample_inodes dir_inode_fields sample_split
      resolve_path_def [of "[0x2F]"] Let_def)
qed

theorem rmdir_leaks_directory_witness:
  "\<exists>s'. ext2_unlink [0x2F, 0x61] (sample_fs sub_inode) = (0, s') \<and> used s' 7 \<and> ext2_read_inode 3 s' = Some (set_links 1 sub_inode)"
proof -
  let ?s = "sample_fs sub_inode"
  note l = sample_lengths(5)
  obtain s' where u: "ext2_unlink [0x2F, 0x61] ?s = (0, s')"
    using sample_unlink by (cases "ext2_unlink [0x2F, 0x61] ?s") auto
  have r: "resolve_path [0x2F] ?s = 2" by (simp add: resolve_path_def SLASH_def EXT2_ROOT_INO_def)
  have m: "i_mode sub_inode AND EXT2_S_IFDIR \<noteq> 0" by (simp add: dir_inode_fields EXT2_S_IFDIR_def)
  have d: "dir_in {6} root_inode" by (simp add: dir_in_def dir_inode_fields)
  from rmdir_leaks_directory [OF sample_layout [OF l] sample_resolve(1) [OF l] sample_group0(2) sample_inodes(2) [OF l] m dir_inode_fields(5)
      sample_split r sample_group0(1) _ sample_inodes(1) [OF l] d u]
  show ?thesis using u by (simp add: sample_used l)
qed

section \<open>Releasing an inode of another group\<close>

text \<open>
  \<open>ext2_free_inode\<close> reads the descriptor of the inode's own group but stores it as the descriptor of group 0: after
  releasing an inode of any other group, group 0 has that group's bitmaps and inode table.
\<close>

theorem free_inode_overwrites_group0:
  assumes "vol_ok s" "geometry_ok s" "\<forall>n. bufs s n" "in_vol s (bgd_block s)" "EXT2_ROOT_INO \<le> ino"
    "read_block_group_bgd ((ino - 1) div inodes_per_group s) s = Some d"
    "let i = unat ((ino - 1) mod inodes_per_group s) in bit_at (ext2_read_block (inode_bitmap d) s) i"
  shows "gd (ext2_free_inode ino s) = put16 d 14 (free_inodes_count d + 1)"
proof -
  let ?i = "unat ((ino - 1) mod inodes_per_group s)"
  let ?bm = "ext2_read_block (inode_bitmap d) s"
  let ?t = "ext2_write_block (inode_bitmap d) (clear_bit_at ?i ?bm) s"
  let ?g = "put16 d 14 (free_inodes_count d + 1)"
  have "length d = 32"
    using assms(1-3,6) bgd_place_bound [OF assms(2), of "(ino - 1) div inodes_per_group s"]
    by (auto simp: read_block_group_bgd_def BGD_SIZE_def split: prod.splits)
  then have g: "length ?g = 32" by simp
  have t: "vol_ok ?t" using assms(1) by (simp add: block_data_def)
  have "ext2_free_inode ino s = (write_bgd 0 ?g ?t)\<lparr>sb := put32 (sb s) 16 (sb_free_inodes (sb s) + 1)\<rparr>"
    using assms(3,5-7) by (simp add: ext2_free_inode_def Let_def mask_simps bit_at_def write_bgd_0)
  moreover have "block_data ?t (poke (ext2_read_block (bgd_block s) ?t) 0 ?g)"
    using g t assms(1) bgd_place_bound [OF assms(2), of 0] by (simp add: block_data_def BGD_SIZE_def bgd_place_0)
  ultimately show ?thesis
    using assms(3,4) t g by (simp add: write_bgd_0 gd_def blk_read_write poke_def [of _ 0] BGD_SIZE_def)
qed

end
