(* ===== verification/Auth.thy ===== *)
theory Auth
  imports Printf Sha256 Ext2_Volume "HOL-Library.Sublist"
begin

text \<open>
  User accounts, \<open>src/kernel/auth.c\<close>: the password file on the ext2 volume and the in-memory table used without one. A C
  string is the list of its bytes before the terminating zero. The cycle counter, the timer tick and the clock
  that feed the salt generator are an endless supply of samples in the state, and so is what an uninitialised
  hash context on the stack holds; a password derivation may fail to return, so results are optional.
\<close>

section \<open>Constants and state\<close>

definition COLON :: u8 where "COLON = 0x3A"
definition NEWLINE :: u8 where "NEWLINE = 0x0A"

definition XENC_KEY :: "u8 list" where "XENC_KEY = str ''NyxOS_AUTH_v5.3''"
definition XENC_KEY_LEN :: nat where "XENC_KEY_LEN = 15"
definition MAX_FALLBACK_USERS :: nat where "MAX_FALLBACK_USERS = 8"
definition AUTH_MAX_USER :: nat where "AUTH_MAX_USER = 32"
definition AUTH_PATH :: "u8 list" where "AUTH_PATH = str ''/etc/passwd''"
definition AVATAR_COUNT :: int where "AVATAR_COUNT = 4"
definition PBKDF2_ITERATIONS :: u32 where "PBKDF2_ITERATIONS = 10000"

record fallback_user =
  username :: "u8 list"
  salt_hex :: "u8 list"
  iterations :: u32
  fb_hash :: "u8 list"
  avatar :: int

text \<open>One round of samples: two readings of the cycle counter, the tick, seconds and minutes.\<close>

type_synonym sample = "u64 \<times> u32 \<times> u8 \<times> u8 \<times> u64"

record auth =
  fs :: ext2_fs
  salt_rng :: u64
  fb_users :: "fallback_user list"
  samples :: "nat \<Rightarrow> sample"
  stack_ctx :: sha256_ctx

section \<open>Salt and password hash\<close>

definition nibble :: "u8 \<Rightarrow> u8" where
  "nibble c = (if 0x30 \<le> c \<and> c \<le> 0x39 then c - 0x30 else if 0x61 \<le> c \<and> c \<le> 0x66 then c - 0x61 + 10 else c - 0x41 + 10)"

definition salt_bytes :: "u8 list \<Rightarrow> u8 list" where
  "salt_bytes hex = map (\<lambda>i. push_bit 4 (nibble (hex ! (i * 2))) OR nibble (hex ! (i * 2 + 1))) [0..<8]"

definition hash_password :: "sha256_ctx \<Rightarrow> u8 list \<Rightarrow> u8 list \<Rightarrow> u32 \<Rightarrow> u8 list option" where
  "hash_password ctx0 password hex n = pbkdf2_hmac_sha256 ctx0 password (salt_bytes hex) n"

definition salt_next :: "u64 \<Rightarrow> u64 \<times> u64" where
  "salt_next rng =
     (let rng = rng + 0x9E3779B97F4A7C15; z = rng;
          z = (z XOR drop_bit 30 z) * 0xBF58476D1CE4E5B9;
          z = (z XOR drop_bit 27 z) * 0x94D049BB133111EB
      in (z XOR drop_bit 31 z, rng))"

definition hex_char :: "u8 \<Rightarrow> u8" where "hex_char n = str hexdig ! unat (n AND 0xF)"

fun salt_digits :: "nat \<Rightarrow> u64 \<Rightarrow> u8 list \<times> u64" where
  "salt_digits 0 rng = ([], rng)"
| "salt_digits (Suc n) rng =
     (let (v, rng) = salt_next rng; b = ucast (drop_bit 24 v) :: u8; (ds, rng) = salt_digits n rng
      in (hex_char (drop_bit 4 b) # hex_char b # ds, rng))"

definition gen_random_salt :: "auth \<Rightarrow> u8 list \<times> auth" where
  "gen_random_salt a =
     (let (tsc1, tick, sec, mins, tsc2) = samples a 0;
          rng = salt_rng a XOR tsc1 XOR push_bit 20 (ucast tick) XOR push_bit 8 (ucast sec) XOR push_bit 40 (ucast mins) XOR push_bit 1 tsc2;
          (hex, rng) = salt_digits 8 rng
      in (hex, a\<lparr>salt_rng := rng, samples := (\<lambda>i. samples a (i + 1))\<rparr>))"

section \<open>The password file\<close>

definition xor_buf :: "u8 list \<Rightarrow> u8 list" where
  "xor_buf b = map (\<lambda>i. b ! i XOR XENC_KEY ! (i mod XENC_KEY_LEN)) [0..<length b]"

definition format_entry :: "nat \<Rightarrow> u8 list \<Rightarrow> u8 list \<Rightarrow> u32 \<Rightarrow> u8 list \<Rightarrow> nat \<Rightarrow> u8 list" where
  "format_entry bufsz user hex n h av =
     the (vsnprintf bufsz (str ''%s:%s:%u:%s:%u'' @ [NEWLINE])
       [Text (Some user), Text (Some hex), Num (ucast n), Text (Some (str (sha256_to_hex h))), Num (of_nat av)])"






definition passwd_exists :: "auth \<Rightarrow> bool" where
  "passwd_exists a \<longleftrightarrow> block_size (fs a) \<noteq> 0 \<and> resolve_path AUTH_PATH (fs a) \<noteq> 0"

definition read_passwd :: "nat \<Rightarrow> auth \<Rightarrow> u8 list option" where
  "read_passwd sz a = (if block_size (fs a) = 0 then None else map_option xor_buf (ext2_read_file AUTH_PATH sz (fs a)))"

definition write_passwd :: "u8 list \<Rightarrow> auth \<Rightarrow> int \<times> auth" where
  "write_passwd b a =
     (if block_size (fs a) = 0 then (- 1, a)
      else let tmp = xor_buf (take (if length b < 4096 then length b else 4095) b);
               s = snd (ext2_mkdir (str ''/etc'') (fs a));
               s = snd (ext2_create_file AUTH_PATH s);
               (r, s) = ext2_write_file AUTH_PATH tmp s
           in (r, a\<lparr>fs := s\<rparr>))"

section \<open>The in-memory table\<close>

definition add_fallback :: "u8 list \<Rightarrow> u8 list \<Rightarrow> int \<Rightarrow> auth \<Rightarrow> auth option" where
  "add_fallback user pass av a =
     (if length (fb_users a) \<ge> MAX_FALLBACK_USERS then Some a
      else let (hex, a) = gen_random_salt a in
        (case hash_password (stack_ctx a) pass hex PBKDF2_ITERATIONS of None \<Rightarrow> None
         | Some h \<Rightarrow> Some (a\<lparr>fb_users := fb_users a @ [\<lparr>username = take (AUTH_MAX_USER - 1) user, salt_hex = hex,
               iterations = PBKDF2_ITERATIONS, fb_hash = h, avatar = av\<rparr>]\<rparr>)))"




section \<open>Accounts\<close>

definition auth_setup :: "auth \<Rightarrow> auth option" where
  "auth_setup a =
     (if block_size (fs a) = 0 then
        Option.bind (add_fallback (str ''nyx'') (str ''nyx'') 0 a) (\<lambda>a.
        Option.bind (add_fallback (str ''root'') (str ''root'') 1 a) (add_fallback (str ''admin'') (str ''admin'') 2))
      else if passwd_exists a then Some a
      else let (hex, a) = gen_random_salt a in
        (case hash_password (stack_ctx a) (str ''nyx'') hex PBKDF2_ITERATIONS of None \<Rightarrow> None
         | Some h \<Rightarrow>
             let (r, a) = write_passwd (format_entry (128 + SHA256_DIGEST_SIZE * 2) (str ''nyx'') hex PBKDF2_ITERATIONS h 0) a
             in if r > 0 then Some a else add_fallback (str ''nyx'') (str ''nyx'') 0 a))"

text \<open>The pieces of a text that end in a newline or a zero; what follows the last of these is dropped.\<close>

fun segments :: "u8 list \<Rightarrow> u8 list \<Rightarrow> u8 list list" where
  "segments acc [] = []"
| "segments acc (c # cs) = (if c = NEWLINE \<or> c = 0 then acc # segments [] cs else segments (acc @ [c]) cs)"





definition account_name :: "u8 list \<Rightarrow> u8 list" where
  "account_name seg = take (AUTH_MAX_USER - 1) (takeWhile (\<lambda>c. c \<noteq> COLON) seg)"

definition auth_list_users :: "auth \<Rightarrow> u8 list list" where
  "auth_list_users a =
     (if block_size (fs a) = 0 \<or> \<not> passwd_exists a then map username (fb_users a)
      else case read_passwd 2047 a of
        None \<Rightarrow> []
      | Some buf \<Rightarrow> filter (\<lambda>n. n \<noteq> []) (map account_name (filter (\<lambda>g. g \<noteq> []) (segments [] (buf @ [0])))))"

definition is_user :: "u8 list \<Rightarrow> u8 list \<Rightarrow> bool" where
  "is_user user seg \<longleftrightarrow> length user < length seg \<and> take (length user) seg = user \<and> seg ! length user = COLON"

text \<open>The text up to and with the \<open>n\<close>-th colon, how many colons were missing, and the rest.\<close>

fun take_fields :: "nat \<Rightarrow> u8 list \<Rightarrow> u8 list \<times> nat \<times> u8 list" where
  "take_fields 0 p = ([], 0, p)"
| "take_fields (Suc n) [] = ([], Suc n, [])"
| "take_fields (Suc n) (c # p) = (let (f, m, r) = take_fields (if c = COLON then n else Suc n) p in (c # f, m, r))"



text \<open>Bytes are appended while the output is shorter than a limit.\<close>

definition put_to :: "nat \<Rightarrow> u8 list \<Rightarrow> u8 list \<Rightarrow> u8 list" where
  "put_to limit bs out = out @ take (limit - length out) bs"

definition set_avatar_line :: "u8 list \<Rightarrow> int \<Rightarrow> u8 list \<Rightarrow> u8 list \<Rightarrow> u8 list" where
  "set_avatar_line user av seg out =
     (if seg = [] then out
      else put_to 3199 [NEWLINE]
        (if is_user user seg then
           let (f, m, r) = take_fields 4 seg; out = put_to 3192 f out;
               out = (if m \<noteq> 0 then put_to 3192 [COLON] out else out)
           in put_to 3198 [0x30 + of_int av] out
         else put_to 3198 seg out))"

definition auth_set_avatar :: "u8 list \<Rightarrow> int \<Rightarrow> auth \<Rightarrow> auth" where
  "auth_set_avatar user av a =
     (let av = (if av < 0 \<or> av \<ge> AVATAR_COUNT then 0 else av) in
      if block_size (fs a) = 0 \<or> \<not> passwd_exists a then
        a\<lparr>fb_users := map (\<lambda>u. if username u = user then u\<lparr>avatar := av\<rparr> else u) (fb_users a)\<rparr>
      else case read_passwd 3071 a of
        None \<Rightarrow> a
      | Some buf \<Rightarrow> snd (write_passwd (fold (set_avatar_line user av) (segments [] (buf @ [0])) []) a))"

section \<open>Entries\<close>









lemma length_xor_buf [simp]: "length (xor_buf b) = length b"
  by (simp add: xor_buf_def)





















section \<open>Passwords\<close>













section \<open>Adding an account\<close>








section \<open>A volume with an empty password file\<close>



















end
