(* ===== verification/Vfs.thy ===== *)
theory Vfs
  imports Kernel_State Printf Ext2
begin

text \<open>
  The virtual file system of \<open>src/kernel/vfs.c\<close>: a tree of nodes in a fixed pool, special nodes under \<open>/dev\<close> and \<open>/proc\<close>, and
  mounted ext2 volumes. A node pointer, and so a handle that \<open>vfs_open\<close> returns, is the index of the node in the pool; no node is the
  null pointer and the error value. The process table, the clock and the memory counters are read from the kernel state; what the
  kernel allocator answers to each request, the contents of a fresh block or nothing, is a supply in the state. An operation whose
  result is optional has none when it accesses memory outside a buffer.
\<close>

section \<open>Constants and state\<close>

definition MAX_INODES :: nat where "MAX_INODES = 256"
definition MAX_NAME :: nat where "MAX_NAME = 64"
definition MAX_CHILDREN :: nat where "MAX_CHILDREN = 128"
definition BLOCK_SIZE :: nat where "BLOCK_SIZE = 512"
definition VFS_MOUNT_DIRENTS :: nat where "VFS_MOUNT_DIRENTS = 64"
definition SIZEOF_DIRENT :: nat where "SIZEOF_DIRENT = 136"
definition FS_TYPE_EXT2 :: int where "FS_TYPE_EXT2 = 1"
definition MAX_MOUNT_POINTS :: nat where "MAX_MOUNT_POINTS = 8"

definition DEV_NULL :: u32 where "DEV_NULL = 1"
definition DEV_ZERO :: u32 where "DEV_ZERO = 2"
definition DEV_RANDOM :: u32 where "DEV_RANDOM = 3"

definition PROC_MEMINFO :: u32 where "PROC_MEMINFO = 1"
definition PROC_UPTIME :: u32 where "PROC_UPTIME = 2"
definition PROC_VERSION :: u32 where "PROC_VERSION = 3"
definition PROC_CPUINFO :: u32 where "PROC_CPUINFO = 4"
definition PROC_PID_DIR :: u32 where "PROC_PID_DIR = 5"
definition PROC_PID_STATUS :: u32 where "PROC_PID_STATUS = 6"
definition PROC_PID_CMDLINE :: u32 where "PROC_PID_CMDLINE = 7"
definition PROC_PID_MAPS :: u32 where "PROC_PID_MAPS = 8"

definition KERNEL_VERSION :: "u8 list" where "KERNEL_VERSION = str ''5.9.17''"

text \<open>
  A node. The buffer of a file is the whole block the allocator gave, which may be longer than the file; a mounted directory keeps
  its entries in the same pointer, here \<open>n_dents\<close>.
\<close>

record vfs_node =
  n_name :: "u8 list"
  n_type :: u32
  n_size :: u32
  n_data :: "u8 list option"
  n_dents :: "dirent list option"
  n_parent :: "nat option"
  n_children :: "nat list"
  n_readdir_idx :: nat
  n_mount_backed :: bool
  n_open_refs :: u32
  n_orphaned :: bool
  n_on_free_list :: bool
  n_mpath :: "u8 list"
  n_mount_ent :: "nat option"
  n_dev_type :: u32
  n_proc_type :: u32
  n_proc_pid :: u32

definition zero_node :: vfs_node where
  "zero_node = \<lparr>n_name = [], n_type = 0, n_size = 0, n_data = None, n_dents = None, n_parent = None, n_children = [],
     n_readdir_idx = 0, n_mount_backed = False, n_open_refs = 0, n_orphaned = False, n_on_free_list = False, n_mpath = [],
     n_mount_ent = None, n_dev_type = 0, n_proc_type = 0, n_proc_pid = 0\<rparr>"

record mount_entry =
  mount_type :: int
  mount_point :: "u8 list"

record vfs =
  nodes :: "nat \<Rightarrow> vfs_node"
  node_count :: nat
  free_nodes :: "nat list"
  current_dir :: nat
  proc_node :: "nat option"
  mount_table :: "mount_entry list"
  dev_rng_state :: u64
  ext2_vol :: ext2_fs
  answers :: "nat \<Rightarrow> nat \<Rightarrow> u8 list option"
  name_tail :: "u8 list"

definition updn :: "nat \<Rightarrow> (vfs_node \<Rightarrow> vfs_node) \<Rightarrow> vfs \<Rightarrow> vfs" where
  "updn n f v = v\<lparr>nodes := (nodes v)(n := f (nodes v n))\<rparr>"

definition kmalloc_buf :: "nat \<Rightarrow> vfs \<Rightarrow> u8 list option \<times> vfs" where
  "kmalloc_buf sz v = (answers v 0 sz, v\<lparr>answers := (\<lambda>i. answers v (i + 1))\<rparr>)"

section \<open>The node pool\<close>

definition alloc_node :: "vfs \<Rightarrow> nat option \<times> vfs" where
  "alloc_node v =
     (case free_nodes v of
        n # ns \<Rightarrow> (Some n, updn n (\<lambda>_. zero_node) (v\<lparr>free_nodes := ns\<rparr>))
      | [] \<Rightarrow> if node_count v < MAX_INODES
              then (Some (node_count v), updn (node_count v) (\<lambda>_. zero_node) (v\<lparr>node_count := node_count v + 1\<rparr>))
              else (None, v))"

definition free_node :: "nat \<Rightarrow> vfs \<Rightarrow> vfs" where
  "free_node n v =
     (if \<not> n_on_free_list (nodes v n) \<and> length (free_nodes v) < MAX_INODES
      then updn n (\<lambda>x. x\<lparr>n_on_free_list := True\<rparr>) (v\<lparr>free_nodes := n # free_nodes v\<rparr>) else v)"

definition release_node :: "nat \<Rightarrow> vfs \<Rightarrow> vfs" where
  "release_node n v =
     (if n_open_refs (nodes v n) > 0 then updn n (\<lambda>x. x\<lparr>n_orphaned := True\<rparr>) v
      else free_node n (updn n (\<lambda>x. x\<lparr>n_data := None, n_dents := None, n_size := 0, n_children := []\<rparr>) v))"

definition vfs_append_child :: "nat \<Rightarrow> nat \<Rightarrow> vfs \<Rightarrow> int \<times> vfs" where
  "vfs_append_child p c v =
     (if length (n_children (nodes v p)) \<ge> MAX_CHILDREN then (- 1, v)
      else (0, updn p (\<lambda>x. x\<lparr>n_children := n_children x @ [c]\<rparr>) v))"

definition find_child :: "nat \<Rightarrow> u8 list \<Rightarrow> vfs \<Rightarrow> nat option" where
  "find_child d nm v = List.find (\<lambda>c. n_name (nodes v c) = nm) (n_children (nodes v d))"

section \<open>Paths\<close>

definition path_token :: "u8 list \<Rightarrow> (u8 list \<times> u8 list) option" where
  "path_token p =
     (let q = dropWhile (\<lambda>c. c = SLASH) p in
      if q = [] then None
      else let t = take (MAX_NAME - 1) (takeWhile (\<lambda>c. c \<noteq> SLASH) q) in Some (t, drop (length t) q))"

lemma path_token_shorter: "path_token p = Some (t, r) \<Longrightarrow> length r < length p"
proof -
  let ?q = "dropWhile (\<lambda>c. c = SLASH) p"
  assume a: "path_token p = Some (t, r)"
  then have q: "?q \<noteq> []" and t: "t = take 63 (takeWhile (\<lambda>c. c \<noteq> SLASH) ?q)" and r: "r = drop (length t) ?q"
    by (auto simp: path_token_def MAX_NAME_def Let_def split: if_splits)
  from q have "hd ?q \<noteq> SLASH" by (rule hd_dropWhile)
  with q t have "t \<noteq> []" by (cases ?q) auto
  with q have "length (drop (length t) ?q) < length ?q" by simp
  with r show ?thesis using length_dropWhile_le [of "\<lambda>c. c = SLASH" p] by simp
qed

text \<open>The loop of \<open>resolve_path\<close> from a directory.\<close>

function walk :: "u8 list \<Rightarrow> nat \<Rightarrow> vfs \<Rightarrow> nat option" where
  "walk p dir v =
     (case path_token p of
        None \<Rightarrow> Some dir
      | Some (t, rest) \<Rightarrow>
          if rest \<noteq> [] then
            (case find_child dir t v of
               None \<Rightarrow> None
             | Some c \<Rightarrow> if n_type (nodes v c) \<noteq> 1 then None else walk rest c v)
          else find_child dir t v)"
  by pat_completeness auto
termination by (relation "measure (\<lambda>(p, d, v). length p)") (auto dest: path_token_shorter)

declare walk.simps [simp del]

definition start_dir :: "u8 list \<Rightarrow> vfs \<Rightarrow> u8 list \<times> nat" where
  "start_dir path v = (let b = take 255 path in if b \<noteq> [] \<and> hd b = SLASH then (tl b, 0) else (b, current_dir v))"

definition vfs_resolve_path :: "u8 list \<Rightarrow> vfs \<Rightarrow> nat option" where
  "vfs_resolve_path path v = (if path = [] then Some (current_dir v) else let (p, d) = start_dir path v in walk p d v)"

text \<open>The loop of \<open>resolve_parent\<close>: the directory, the parent of the last component and its name so far.\<close>

function parent_walk :: "u8 list \<Rightarrow> nat \<Rightarrow> nat \<Rightarrow> u8 list \<Rightarrow> vfs \<Rightarrow> nat \<times> u8 list" where
  "parent_walk p dir res prev v =
     (case path_token p of
        None \<Rightarrow> (res, prev)
      | Some (t, rest) \<Rightarrow>
          (case find_child dir t v of
             None \<Rightarrow> (dir, t)
           | Some c \<Rightarrow> if n_type (nodes v c) \<noteq> 1 then (dir, t) else parent_walk rest c dir t v))"
  by pat_completeness auto
termination by (relation "measure (\<lambda>(p, d, r, n, v). length p)") (auto dest: path_token_shorter)

declare parent_walk.simps [simp del]

text \<open>
  The name in the caller's buffer as the string functions read it. At most 63 bytes are copied and the last byte of the buffer is never
  written: a shorter name is padded with zeros, one of 63 bytes runs on into whatever follows, \<open>name_tail\<close>.
\<close>

definition child_name :: "u8 list \<Rightarrow> vfs \<Rightarrow> u8 list" where
  "child_name nm v = (if length nm < MAX_NAME - 1 then nm else nm @ name_tail v)"

definition resolve_parent :: "u8 list \<Rightarrow> vfs \<Rightarrow> (nat \<times> u8 list) option" where
  "resolve_parent path v =
     (if path = [] then None
      else let (p, d) = start_dir path v; (r, nm) = parent_walk p d d [] v in Some (r, child_name nm v))"

section \<open>Generated nodes\<close>

definition dev_rand_byte :: "kern \<Rightarrow> vfs \<Rightarrow> u8 \<times> vfs" where
  "dev_rand_byte k v =
     (let r = dev_rng_state v;
          r = (if r = 0 then let r = push_bit 16 (ucast (tick_count k)) XOR 0x9E3779B97F4A7C15 in if r = 0 then 0x1234567ABCDEF else r
               else r);
          r = r XOR push_bit 13 r; r = r XOR drop_bit 7 r; r = r XOR push_bit 17 r
      in (ucast (drop_bit 33 r), v\<lparr>dev_rng_state := r\<rparr>))"

fun dev_rand_bytes :: "nat \<Rightarrow> kern \<Rightarrow> vfs \<Rightarrow> u8 list \<times> vfs" where
  "dev_rand_bytes 0 k v = ([], v)"
| "dev_rand_bytes (Suc n) k v = (let (b, v) = dev_rand_byte k v; (bs, v) = dev_rand_bytes n k v in (b # bs, v))"

definition proc_make :: "nat \<Rightarrow> u8 list \<Rightarrow> u32 \<Rightarrow> u32 \<Rightarrow> u32 \<Rightarrow> vfs \<Rightarrow> nat option \<times> vfs" where
  "proc_make p nm ty ptype i v =
     (if length (n_children (nodes v p)) \<ge> MAX_CHILDREN then (None, v)
      else case alloc_node v of
        (None, v) \<Rightarrow> (None, v)
      | (Some n, v) \<Rightarrow>
          let v = updn n (\<lambda>x. x\<lparr>n_name := take (MAX_NAME - 1) nm, n_type := ty, n_proc_type := ptype, n_proc_pid := i, n_parent := Some p\<rparr>) v
          in (Some n, updn p (\<lambda>x. x\<lparr>n_children := n_children x @ [n]\<rparr>) v))"

definition proc_utoa :: "u32 \<Rightarrow> u8 list" where "proc_utoa w = udigits 10 (unat w)"

definition region_label :: "u64 \<Rightarrow> u8 list" where
  "region_label a =
     (if a \<ge> 0x7FFF00000000 then str ''[stack]'' else if a \<ge> 0x100000000 then str ''[mmap]'' else if a \<ge> 0x31000000 then str ''[dynlib]''
      else if a \<ge> 0x30000000 - 0x1000 then str ''[libc]'' else if a < 0x100000 then str ''[program]'' else str ''[heap]'')"

definition NL :: u8 where "NL = 0x0A"
definition TAB :: u8 where "TAB = 0x09"

definition map_lines :: "nat \<Rightarrow> vm_region list \<Rightarrow> u8 list" where
  "map_lines bufsz rs =
     fold (\<lambda>r out. if length out < bufsz - 64
           then out @ the (vsnprintf (bufsz - length out) (str ''%012llx-%012llx r%c%c  %s'' @ [NL])
             [Num (r_start r), Num (r_end r), Num (if r_writable r then 0x77 else 0x2D), Num (if r_exec r then 0x78 else 0x2D),
              Text (Some (region_label (r_start r)))])
           else out) rs []"

definition proc_generate :: "vfs_node \<Rightarrow> nat \<Rightarrow> kern \<Rightarrow> u8 list" where
  "proc_generate ino bufsz k =
     (let ty = n_proc_type ino; q = find_process (ucast (n_proc_pid ino)) k; p = procs k q; m = v_pmm (vm_of k) in
      if ty = PROC_MEMINFO then
        the (vsnprintf bufsz (str ''MemTotal: %u kB'' @ [NL] @ str ''MemUsed:  %u kB'' @ [NL] @ str ''MemFree:  %u kB'' @ [NL])
          [Num (memory_total m div 1024), Num (memory_used m div 1024),
           Num ((if memory_total m > memory_used m then memory_total m - memory_used m else 0) div 1024)])
      else if ty = PROC_UPTIME then
        the (vsnprintf bufsz (str ''%u.%02u'' @ [NL]) [Num (ucast (tick_count k div 1000)), Num (ucast (tick_count k mod 1000 div 10))])
      else if ty = PROC_VERSION then the (vsnprintf bufsz (str ''NyxOS version %s (x86_64)'' @ [NL]) [Text (Some KERNEL_VERSION)])
      else if ty = PROC_CPUINFO then
        the (vsnprintf bufsz (str ''arch'' @ [TAB] @ str '': x86_64'' @ [NL] @ str ''vendor'' @ [TAB] @ str '': NyxOS'' @ [NL]) [])
      else if ty = PROC_PID_STATUS then
        (if q = 0 then []
         else the (vsnprintf bufsz (str ''Name:'' @ [TAB] @ str ''%s'' @ [NL] @ str ''Pid:'' @ [TAB] @ str ''%u'' @ [NL] @
             str ''PPid:'' @ [TAB] @ str ''%u'' @ [NL] @ str ''State:'' @ [TAB] @ str ''%s'' @ [NL])
           [Text (Some (str (comm p))), Num (ucast (pid p)), Num (ucast (ppid p)),
            Text (Some (if state p = 1 then str ''R (running)'' else if state p = 2 then str ''Z (zombie)''
              else if state p = 3 then str ''S (sleeping)'' else str ''P (parked)''))]))
      else if ty = PROC_PID_CMDLINE then
        (if q = 0 then [] else the (vsnprintf bufsz (str ''%s'' @ [NL]) [Text (Some (str (if cmdline p \<noteq> [] then cmdline p else comm p)))]))
      else if ty = PROC_PID_MAPS then
        (if q = 0 \<or> page_directory p = 0 then [] else map_lines bufsz (vm_collect_regions (page_directory p) 24 (vm_of k)))
      else [])"

text \<open>Dropping the directories of processes that are gone: the last entry takes the place of a dropped one.\<close>

function proc_prune :: "nat \<Rightarrow> nat list \<Rightarrow> kern \<Rightarrow> vfs \<Rightarrow> nat list \<times> vfs" where
  "proc_prune i cs k v =
     (if i < length cs then
        let c = cs ! i; x = nodes v c in
        if n_proc_type x = PROC_PID_DIR \<and> find_process (ucast (n_proc_pid x)) k = 0 then
          let v = fold release_node (n_children x) v;
              v = updn c (\<lambda>x. x\<lparr>n_children := []\<rparr>) v;
              v = release_node c v
          in proc_prune i (butlast (cs[i := last cs])) k v
        else proc_prune (i + 1) cs k v
      else (cs, v))"
  by pat_completeness auto
termination by (relation "measure (\<lambda>(i, cs, k, v). length cs - i)") auto

declare proc_prune.simps [simp del]

definition proc_add :: "nat \<Rightarrow> kern \<Rightarrow> u64 \<Rightarrow> vfs \<Rightarrow> vfs" where
  "proc_add pn k q v =
     (if q = 0 \<or> pid (procs k q) = 0 then v
      else let i = pid (procs k q) in
        if \<exists>c\<in>set (n_children (nodes v pn)). n_proc_type (nodes v c) = PROC_PID_DIR \<and> n_proc_pid (nodes v c) = i then v
        else case proc_make pn (proc_utoa i) 1 PROC_PID_DIR i v of
          (None, v) \<Rightarrow> v
        | (Some d, v) \<Rightarrow>
            let v = snd (proc_make d (str ''status'') 0 PROC_PID_STATUS i v);
                v = snd (proc_make d (str ''cmdline'') 0 PROC_PID_CMDLINE i v)
            in snd (proc_make d (str ''maps'') 0 PROC_PID_MAPS i v))"

definition proc_sync :: "kern \<Rightarrow> vfs \<Rightarrow> vfs" where
  "proc_sync k v =
     (case proc_node v of
        None \<Rightarrow> v
      | Some pn \<Rightarrow>
          let (cs, v) = proc_prune 0 (n_children (nodes v pn)) k v;
              v = updn pn (\<lambda>x. x\<lparr>n_children := cs\<rparr>) v
          in fold (proc_add pn k) (ptable k) v)"

section \<open>Mounts\<close>

definition on_mount :: "u8 list \<Rightarrow> mount_entry \<Rightarrow> bool" where
  "on_mount path me \<longleftrightarrow> (let l = length (mount_point me) in
     take l path = mount_point me \<and> (length path = l \<or> l < length path \<and> path ! l = SLASH))"

definition vfs_find_mount :: "u8 list \<Rightarrow> vfs \<Rightarrow> nat option" where
  "vfs_find_mount path v = List.find (\<lambda>i. on_mount path (mount_table v ! i)) [0..<length (mount_table v)]"

text \<open>The path within the volume, and the same with the volume's root for the empty path; whether the operations are set.\<close>

definition sub_path :: "u8 list \<Rightarrow> nat \<Rightarrow> vfs \<Rightarrow> u8 list" where
  "sub_path path m v = drop (length (mount_point (mount_table v ! m))) path"

definition sub_or_root :: "u8 list \<Rightarrow> nat \<Rightarrow> vfs \<Rightarrow> u8 list" where
  "sub_or_root path m v = (if sub_path path m v = [] then [SLASH] else sub_path path m v)"

definition has_ops :: "nat \<Rightarrow> vfs \<Rightarrow> bool" where "has_ops m v \<longleftrightarrow> mount_type (mount_table v ! m) = FS_TYPE_EXT2"

definition on_vol :: "(ext2_fs \<Rightarrow> int \<times> ext2_fs) \<Rightarrow> vfs \<Rightarrow> int \<times> vfs" where
  "on_vol f v = (let (r, s) = f (ext2_vol v) in (r, v\<lparr>ext2_vol := s\<rparr>))"

section \<open>Opening and closing\<close>

text \<open>A new node of the tree under a directory, or nothing when the pool or the directory is full.\<close>

definition new_child :: "nat \<Rightarrow> u8 list \<Rightarrow> u32 \<Rightarrow> (vfs_node \<Rightarrow> vfs_node) \<Rightarrow> vfs \<Rightarrow> nat option \<times> vfs" where
  "new_child p nm ty f v =
     (case alloc_node v of
        (None, v) \<Rightarrow> (None, v)
      | (Some n, v) \<Rightarrow>
          let v = updn n (\<lambda>x. f (x\<lparr>n_name := take (MAX_NAME - 1) nm, n_type := ty, n_parent := Some p\<rparr>)) v;
              (r, v) = vfs_append_child p n v
          in if r \<noteq> 0 then (None, free_node n v) else (Some n, v))"

definition create_at :: "u8 list \<Rightarrow> u32 \<Rightarrow> vfs \<Rightarrow> nat option \<times> vfs" where
  "create_at path ty v =
     (case resolve_parent path v of
        None \<Rightarrow> (None, v)
      | Some (p, nm) \<Rightarrow> if n_type (nodes v p) \<noteq> 1 then (None, v) else new_child p nm ty (\<lambda>x. x) v)"

text \<open>Filling the node of a mounted file: an absent one is created empty on the volume, an existing one is read.\<close>

definition mirror_load :: "nat \<Rightarrow> u8 list \<Rightarrow> nat \<Rightarrow> bool \<Rightarrow> vfs \<Rightarrow> vfs" where
  "mirror_load n sub m exists v =
     (if \<not> exists then (if has_ops m v then snd (on_vol (ext2_write_file sub []) v) else v)
      else let sz = ext2_get_size sub (ext2_vol v) in
        if sz > 0 then
          case kmalloc_buf (unat sz) v of
            (None, v) \<Rightarrow> v
          | (Some b, v) \<Rightarrow>
              (let r = (case ext2_read_file sub (unat sz) (ext2_vol v) of None \<Rightarrow> [] | Some r \<Rightarrow> r)
               in updn n (\<lambda>x. x\<lparr>n_data := Some (r @ drop (length r) b), n_size := of_nat (length r)\<rparr>) v)
        else v)"

definition open_mount :: "u8 list \<Rightarrow> u32 \<Rightarrow> nat \<Rightarrow> vfs \<Rightarrow> nat option \<times> vfs" where
  "open_mount path flags m v =
     (let sub = sub_or_root path m v;
          (dents, v) = kmalloc_buf (SIZEOF_DIRENT * VFS_MOUNT_DIRENTS) v;
          nd = (if has_ops m v \<and> dents \<noteq> None then ext2_readdir sub VFS_MOUNT_DIRENTS (ext2_vol v) else None)
      in case nd of
           Some es \<Rightarrow>
             (case alloc_node v of
                (None, v) \<Rightarrow> (None, v)
              | (Some n, v) \<Rightarrow>
                  (Some n, updn n (\<lambda>x. x\<lparr>n_type := 1, n_mount_backed := True, n_mount_ent := Some m, n_mpath := take (MAX_NAME - 1) sub,
                      n_dents := Some es, n_size := of_nat (length es), n_open_refs := 1\<rparr>) v))
         | None \<Rightarrow>
             let exists = has_ops m v \<and> resolve_path sub (ext2_vol v) \<noteq> 0 in
             if \<not> exists \<and> flags AND 1 = 0 then (None, v)
             else case alloc_node v of
               (None, v) \<Rightarrow> (None, v)
             | (Some n, v) \<Rightarrow>
                 let v = updn n (\<lambda>x. x\<lparr>n_type := 0, n_mount_backed := True, n_mount_ent := Some m, n_mpath := take (MAX_NAME - 1) sub\<rparr>) v;
                     v = mirror_load n sub m exists v
                 in (Some n, updn n (\<lambda>x. x\<lparr>n_open_refs := 1\<rparr>) v))"

definition vfs_open :: "u8 list \<Rightarrow> u32 \<Rightarrow> kern \<Rightarrow> vfs \<Rightarrow> nat option \<times> vfs" where
  "vfs_open path flags k v =
     (let v = proc_sync k v in
      case vfs_find_mount path v of
        Some m \<Rightarrow> open_mount path flags m v
      | None \<Rightarrow>
          let ino = vfs_resolve_path path v in
          if flags AND 1 \<noteq> 0 then
            case (case ino of Some n \<Rightarrow> (Some n, v) | None \<Rightarrow> create_at path 0 v) of
              (None, v) \<Rightarrow> (None, v)
            | (Some n, v) \<Rightarrow>
                let v = (if flags AND 2 \<noteq> 0 then updn n (\<lambda>x. x\<lparr>n_data := None, n_dents := None, n_size := 0\<rparr>) v else v)
                in (Some n, updn n (\<lambda>x. x\<lparr>n_open_refs := n_open_refs x + 1\<rparr>) v)
          else case ino of
            None \<Rightarrow> (None, v)
          | Some n \<Rightarrow> (Some n, updn n (\<lambda>x. x\<lparr>n_readdir_idx := 0, n_open_refs := n_open_refs x + 1\<rparr>) v))"

definition vfs_dup :: "nat option \<Rightarrow> vfs \<Rightarrow> vfs" where
  "vfs_dup h v = (case h of None \<Rightarrow> v | Some n \<Rightarrow> updn n (\<lambda>x. x\<lparr>n_open_refs := n_open_refs x + 1\<rparr>) v)"

definition vfs_close :: "nat option \<Rightarrow> vfs \<Rightarrow> vfs" where
  "vfs_close h v =
     (case h of
        None \<Rightarrow> v
      | Some n \<Rightarrow>
          let v = (if n_open_refs (nodes v n) > 0 then updn n (\<lambda>x. x\<lparr>n_open_refs := n_open_refs x - 1\<rparr>) v else v) in
          if n_open_refs (nodes v n) > 0 then v
          else if n_mount_backed (nodes v n) \<or> n_orphaned (nodes v n)
          then free_node n (updn n (\<lambda>x. x\<lparr>n_data := None, n_dents := None, n_size := 0\<rparr>) v) else v)"

section \<open>Reading and writing\<close>

text \<open>Copying to and from buffers, where going past the end of one has no result.\<close>

definition read_buf :: "nat \<Rightarrow> nat \<Rightarrow> u8 list \<Rightarrow> u8 list option" where
  "read_buf off n b = (if off + n \<le> length b then Some (take n (drop off b)) else None)"

definition write_buf :: "nat \<Rightarrow> u8 list \<Rightarrow> u8 list \<Rightarrow> u8 list option" where
  "write_buf off bs b = (if off + length bs \<le> length b then Some (take off b @ bs @ drop (off + length bs) b) else None)"

definition vfs_read :: "nat option \<Rightarrow> nat \<Rightarrow> vfs \<Rightarrow> (int \<times> u8 list) option" where
  "vfs_read h n v =
     (case h of
        None \<Rightarrow> Some (- 1, [])
      | Some i \<Rightarrow>
          let x = nodes v i; n = min n (unat (n_size x)) in
          if n_type x \<noteq> 0 then Some (- 1, [])
          else case n_data x of None \<Rightarrow> Some (int n, []) | Some b \<Rightarrow> map_option (\<lambda>bs. (int n, bs)) (read_buf 0 n b))"

definition flush_mount_node :: "nat \<Rightarrow> vfs \<Rightarrow> vfs option" where
  "flush_mount_node i v =
     (let x = nodes v i in
      case n_mount_ent x of
        None \<Rightarrow> Some v
      | Some m \<Rightarrow>
          if \<not> n_mount_backed x \<or> \<not> has_ops m v then Some v
          else map_option (\<lambda>bs. snd (on_vol (ext2_write_file (n_mpath x) bs) v))
            (read_buf 0 (unat (n_size x)) (case n_data x of None \<Rightarrow> [0] | Some b \<Rightarrow> b)))"

definition vfs_write :: "nat option \<Rightarrow> u8 list \<Rightarrow> vfs \<Rightarrow> (int \<times> vfs) option" where
  "vfs_write h bs v =
     (case h of
        None \<Rightarrow> Some (- 1, v)
      | Some i \<Rightarrow>
          let x = nodes v i; put = (\<lambda>b v. Option.bind (write_buf 0 bs b) (\<lambda>b.
                let v = updn i (\<lambda>x. x\<lparr>n_data := Some b, n_size := of_nat (length bs)\<rparr>) v
                in map_option (\<lambda>v. (int (length bs), v)) (flush_mount_node i v)))
          in if n_type x \<noteq> 0 then Some (- 1, v)
          else case n_data x of
            Some b \<Rightarrow>
              if unat (n_size x) < length bs then
                case kmalloc_buf (length bs + BLOCK_SIZE) v of
                  (None, v) \<Rightarrow> Some (- 1, v)
                | (Some nb, v) \<Rightarrow> Option.bind (read_buf 0 (unat (n_size x)) b) (\<lambda>old. Option.bind (write_buf 0 old nb) (\<lambda>nb. put nb v))
              else put b v
          | None \<Rightarrow>
              (case kmalloc_buf (length bs + BLOCK_SIZE) v of (None, v) \<Rightarrow> Some (- 1, v) | (Some nb, v) \<Rightarrow> put nb v))"

definition vfs_pread :: "nat option \<Rightarrow> u32 \<Rightarrow> u32 \<Rightarrow> kern \<Rightarrow> vfs \<Rightarrow> (int \<times> u8 list \<times> vfs) option" where
  "vfs_pread h cnt off k v =
     (case h of
        None \<Rightarrow> Some (- 1, [], v)
      | Some i \<Rightarrow>
          let x = nodes v i in
          if n_type x \<noteq> 0 then Some (- 1, [], v)
          else if n_dev_type x = DEV_NULL then Some (0, [], v)
          else if n_dev_type x = DEV_ZERO then Some (sint cnt, replicate (unat cnt) 0, v)
          else if n_dev_type x = DEV_RANDOM then let (bs, v) = dev_rand_bytes (unat cnt) k v in Some (sint cnt, bs, v)
          else if n_proc_type x \<noteq> 0 then
            let g = proc_generate x 1024 k; n = min (unat cnt) (length g - unat off) in
            if unat off \<ge> length g then Some (0, [], v) else Some (int n, take n (drop (unat off) g), v)
          else if off \<ge> n_size x then Some (0, [], v)
          else let n = min cnt (n_size x - off) in
            case n_data x of
              None \<Rightarrow> Some (sint n, [], v)
            | Some b \<Rightarrow> map_option (\<lambda>bs. (sint n, bs, v)) (read_buf (unat off) (unat n) b))"

definition vfs_pwrite :: "nat option \<Rightarrow> u8 list \<Rightarrow> u32 \<Rightarrow> vfs \<Rightarrow> (int \<times> vfs) option" where
  "vfs_pwrite h bs off v =
     (case h of
        None \<Rightarrow> Some (- 1, v)
      | Some i \<Rightarrow>
          let x = nodes v i; cnt = of_nat (length bs) :: u32; end = off + cnt in
          if n_type x \<noteq> 0 then Some (- 1, v)
          else if n_dev_type x \<noteq> 0 then Some (sint cnt, v)
          else if end < off then Some (- 1, v)
          else let put = (\<lambda>b v. Option.bind (if bs = [] then Some b else write_buf (unat off) bs b) (\<lambda>b.
                 let v = updn i (\<lambda>x. x\<lparr>n_data := Some b, n_size := max end (n_size x)\<rparr>) v
                 in map_option (\<lambda>v. (sint cnt, v)) (flush_mount_node i v)))
          in if n_data x = None \<or> end > n_size x then
               case kmalloc_buf (unat (end + of_nat BLOCK_SIZE)) v of
                 (None, v) \<Rightarrow> Some (- 1, v)
               | (Some _, v) \<Rightarrow>
                   let nd = replicate (unat (end + of_nat BLOCK_SIZE)) 0 in
                   (case n_data x of
                      None \<Rightarrow> put nd v
                    | Some b \<Rightarrow> Option.bind (read_buf 0 (unat (n_size x)) b) (\<lambda>old. Option.bind (write_buf 0 old nd) (\<lambda>nd. put nd v)))
             else put (the (n_data x)) v)"

definition vfs_fsize :: "nat option \<Rightarrow> vfs \<Rightarrow> u32" where
  "vfs_fsize h v = (case h of None \<Rightarrow> 0 | Some i \<Rightarrow> if n_type (nodes v i) \<noteq> 0 then 0 else n_size (nodes v i))"

definition vfs_fdata :: "nat option \<Rightarrow> vfs \<Rightarrow> u8 list option" where
  "vfs_fdata h v = (case h of None \<Rightarrow> None | Some i \<Rightarrow> if n_type (nodes v i) \<noteq> 0 then None else n_data (nodes v i))"

section \<open>The tree\<close>

definition vfs_isdir :: "u8 list \<Rightarrow> kern \<Rightarrow> vfs \<Rightarrow> bool \<times> vfs" where
  "vfs_isdir path k v =
     (if vfs_find_mount path v \<noteq> None then (True, v)
      else let v = proc_sync k v
        in (case vfs_resolve_path path v of None \<Rightarrow> False | Some n \<Rightarrow> n_type (nodes v n) = 1, v))"

text \<open>The size and whether the path is a directory.\<close>

definition vfs_stat :: "u8 list \<Rightarrow> kern \<Rightarrow> vfs \<Rightarrow> (u32 \<times> bool) option \<times> vfs" where
  "vfs_stat path k v =
     (let (d, v) = vfs_isdir path k v in
      if d then (Some (0, True), v)
      else case vfs_open path 0 k v of
        (None, v) \<Rightarrow> (None, v)
      | (Some n, v) \<Rightarrow> let sz = vfs_fsize (Some n) v in (Some (if sint sz > 0 then sz else 0, False), vfs_close (Some n) v))"

definition vfs_fstat :: "nat option \<Rightarrow> vfs \<Rightarrow> (u32 \<times> bool) option" where
  "vfs_fstat h v =
     (case h of
        None \<Rightarrow> None
      | Some n \<Rightarrow> let sz = vfs_fsize h v in Some (if sint sz > 0 then sz else 0, n_type (nodes v n) = 1))"

definition vfs_create_from_mem :: "u8 list \<Rightarrow> u8 list \<Rightarrow> u32 \<Rightarrow> vfs \<Rightarrow> nat option \<times> vfs" where
  "vfs_create_from_mem path bs sz v =
     (case resolve_parent path v of
        None \<Rightarrow> (None, v)
      | Some (p, nm) \<Rightarrow>
          if n_type (nodes v p) \<noteq> 1 then (None, v) else new_child p nm 0 (\<lambda>x. x\<lparr>n_size := sz, n_data := Some bs\<rparr>) v)"

definition ret :: "nat option \<times> vfs \<Rightarrow> int \<times> vfs" where
  "ret r = (if fst r = None then - 1 else 0, snd r)"

text \<open>The part of \<open>vfs_mkdir\<close> after the mount check.\<close>

definition mkdir_tree :: "u8 list \<Rightarrow> vfs \<Rightarrow> int \<times> vfs" where
  "mkdir_tree path v =
     (case resolve_parent path v of
        None \<Rightarrow> (- 1, v)
      | Some (p, nm) \<Rightarrow>
          if n_type (nodes v p) \<noteq> 1 \<or> find_child p nm v \<noteq> None then (- 1, v) else ret (new_child p nm 1 (\<lambda>x. x) v))"

definition vfs_mkdir :: "u8 list \<Rightarrow> vfs \<Rightarrow> int \<times> vfs" where
  "vfs_mkdir path v =
     (case vfs_find_mount path v of
        Some m \<Rightarrow> if has_ops m v then on_vol (ext2_mkdir (sub_path path m v)) v else mkdir_tree path v
      | None \<Rightarrow> mkdir_tree path v)"

definition unlink_tree :: "u8 list \<Rightarrow> vfs \<Rightarrow> int \<times> vfs" where
  "unlink_tree path v =
     (case resolve_parent path v of
        None \<Rightarrow> (- 1, v)
      | Some (p, nm) \<Rightarrow>
          if n_type (nodes v p) \<noteq> 1 then (- 1, v)
          else case find_child p nm v of
            None \<Rightarrow> (- 1, v)
          | Some c \<Rightarrow>
              if n_type (nodes v c) = 1 \<and> n_children (nodes v c) \<noteq> [] then (- 1, v)
              else let v = updn p (\<lambda>x. x\<lparr>n_children := remove1 c (n_children x)\<rparr>) v;
                       v = updn c (\<lambda>x. x\<lparr>n_parent := None\<rparr>) v
                in (0, release_node c v))"

definition vfs_unlink :: "u8 list \<Rightarrow> vfs \<Rightarrow> int \<times> vfs" where
  "vfs_unlink path v =
     (case vfs_find_mount path v of
        Some m \<Rightarrow> if has_ops m v then on_vol (ext2_unlink (sub_path path m v)) v else unlink_tree path v
      | None \<Rightarrow> unlink_tree path v)"

text \<open>Loading the source of a copy from the tree.\<close>

definition cp_tree :: "u8 list \<Rightarrow> vfs \<Rightarrow> (u8 list option \<times> vfs) option" where
  "cp_tree src v =
     (case vfs_resolve_path src v of
        None \<Rightarrow> Some (None, v)
      | Some n \<Rightarrow>
          let x = nodes v n; ssize = unat (n_size x) in
          if n_type x \<noteq> 0 then Some (None, v)
          else case kmalloc_buf (if ssize = 0 then 1 else ssize) v of
            (None, v) \<Rightarrow> Some (None, v)
          | (Some b, v) \<Rightarrow>
              (case n_data x of
                 None \<Rightarrow> Some (Some (take ssize b), v)
               | Some d \<Rightarrow> map_option (\<lambda>bs. (Some bs, v)) (read_buf 0 ssize d)))"

text \<open>Loading the source of a copy: its bytes, the allocation included; a read past the end of a buffer has no result.\<close>

definition cp_load :: "u8 list \<Rightarrow> vfs \<Rightarrow> (u8 list option \<times> vfs) option" where
  "cp_load src v =
     (case vfs_find_mount src v of
        Some m \<Rightarrow>
          if \<not> has_ops m v then cp_tree src v
          else let sub = sub_or_root src m v in
            if ext2_readdir sub 1 (ext2_vol v) \<noteq> None \<or> resolve_path sub (ext2_vol v) = 0 then Some (None, v)
            else let ssize = unat (ext2_get_size sub (ext2_vol v)) in
              (case kmalloc_buf (if ssize = 0 then 1 else ssize) v of
                 (None, v) \<Rightarrow> Some (None, v)
               | (Some _, v) \<Rightarrow> if ssize = 0 then Some (Some [], v) else Some (ext2_read_file sub ssize (ext2_vol v), v))
      | None \<Rightarrow> cp_tree src v)"

definition cp_store_tree :: "u8 list \<Rightarrow> u8 list \<Rightarrow> vfs \<Rightarrow> int \<times> vfs" where
  "cp_store_tree dst bs v =
     (case resolve_parent dst v of
        None \<Rightarrow> (- 1, v)
      | Some (p, nm) \<Rightarrow>
          if n_type (nodes v p) \<noteq> 1 \<or> find_child p nm v \<noteq> None then (- 1, v)
          else case alloc_node v of
            (None, v) \<Rightarrow> (- 1, v)
          | (Some n, v) \<Rightarrow>
              let v = updn n (\<lambda>x. x\<lparr>n_name := take (MAX_NAME - 1) nm, n_type := 0, n_parent := Some p, n_size := of_nat (length bs)\<rparr>) v;
                  v = (if bs = [] then v
                       else case kmalloc_buf (length bs) v of
                         (None, v) \<Rightarrow> updn n (\<lambda>x. x\<lparr>n_size := 0\<rparr>) v
                       | (Some _, v) \<Rightarrow> updn n (\<lambda>x. x\<lparr>n_data := Some bs\<rparr>) v);
                  (r, v) = vfs_append_child p n v
              in if r = 0 then (0, v) else (- 1, free_node n v))"

definition cp_store :: "u8 list \<Rightarrow> u8 list \<Rightarrow> vfs \<Rightarrow> int \<times> vfs" where
  "cp_store dst bs v =
     (case vfs_find_mount dst v of
        Some m \<Rightarrow>
          if has_ops m v then let (r, v) = on_vol (ext2_write_file (sub_or_root dst m v) bs) v in (if r \<ge> 0 then 0 else - 1, v)
          else cp_store_tree dst bs v
      | None \<Rightarrow> cp_store_tree dst bs v)"

definition vfs_cp :: "u8 list \<Rightarrow> u8 list \<Rightarrow> vfs \<Rightarrow> (int \<times> vfs) option" where
  "vfs_cp src dst v =
     (case cp_load src v of
        None \<Rightarrow> None
      | Some (None, v) \<Rightarrow> Some (- 1, v)
      | Some (Some bs, v) \<Rightarrow> Some (cp_store dst bs v))"

definition rename_tree :: "u8 list \<Rightarrow> u8 list \<Rightarrow> vfs \<Rightarrow> vfs" where
  "rename_tree old new v =
     (case resolve_parent old v of
        None \<Rightarrow> v
      | Some (p, nm) \<Rightarrow>
          (case find_child p nm v of
             None \<Rightarrow> v
           | Some c \<Rightarrow>
               (case resolve_parent new v of
                  None \<Rightarrow> updn c (\<lambda>x. x\<lparr>n_name := take (MAX_NAME - 1) new\<rparr>) v
                | Some (np, new_name) \<Rightarrow>
                    let v = updn c (\<lambda>x. x\<lparr>n_name := take (MAX_NAME - 1) new_name\<rparr>) v in
                    if np = p then v
                    else case vfs_append_child np c v of (r, v) \<Rightarrow>
                      if r \<noteq> 0 then v
                      else updn c (\<lambda>x. x\<lparr>n_parent := Some np\<rparr>) (updn p (\<lambda>x. x\<lparr>n_children := remove1 c (n_children x)\<rparr>) v))))"

definition vfs_rename :: "u8 list \<Rightarrow> u8 list \<Rightarrow> vfs \<Rightarrow> vfs option" where
  "vfs_rename old new v =
     (if vfs_find_mount old v \<noteq> None \<or> vfs_find_mount new v \<noteq> None then
        map_option (\<lambda>(r, v). if r = 0 then snd (vfs_unlink old v) else v) (vfs_cp old new v)
      else Some (rename_tree old new v))"

definition vfs_readdir :: "nat option \<Rightarrow> vfs \<Rightarrow> dirent option \<times> vfs" where
  "vfs_readdir h v =
     (case h of
        None \<Rightarrow> (None, v)
      | Some d \<Rightarrow>
          let x = nodes v d; i = n_readdir_idx x; next = updn d (\<lambda>x. x\<lparr>n_readdir_idx := i + 1\<rparr>) v in
          if n_type x \<noteq> 1 then (None, v)
          else if n_mount_backed x then
            (case n_dents x of
               None \<Rightarrow> (None, v)
             | Some es \<Rightarrow> if i \<ge> unat (n_size x) then (None, v) else (Some (es ! i), next))
          else if i \<ge> length (n_children x) then (None, v)
          else let c = n_children x ! i in
            (Some \<lparr>d_ino = of_nat c, d_name = take (MAX_FILENAME - 1) (n_name (nodes v c)), d_type = n_type (nodes v c)\<rparr>, next))"

definition ensure_mount_stub :: "u8 list \<Rightarrow> vfs \<Rightarrow> vfs" where
  "ensure_mount_stub mp v =
     (if vfs_resolve_path mp v \<noteq> None then v
      else case resolve_parent mp v of
        None \<Rightarrow> v
      | Some (p, nm) \<Rightarrow>
          if n_type (nodes v p) \<noteq> 1 \<or> length (n_children (nodes v p)) \<ge> MAX_CHILDREN \<or> find_child p nm v \<noteq> None then v
          else snd (new_child p nm 1 (\<lambda>x. x) v))"

definition vfs_mount :: "u8 list \<Rightarrow> int \<Rightarrow> vfs \<Rightarrow> int \<times> vfs" where
  "vfs_mount mp ty v =
     (if length (mount_table v) \<ge> MAX_MOUNT_POINTS then (- 1, v)
      else (0, ensure_mount_stub mp (v\<lparr>mount_table := mount_table v @ [\<lparr>mount_type = ty, mount_point = take (MAX_PATH - 1) mp\<rparr>]\<rparr>)))"

fun cwd_parts :: "nat \<Rightarrow> nat option \<Rightarrow> vfs \<Rightarrow> u8 list list" where
  "cwd_parts 0 d v = []"
| "cwd_parts (Suc n) None v = []"
| "cwd_parts (Suc n) (Some d) v = (if d = 0 then [] else n_name (nodes v d) # cwd_parts n (n_parent (nodes v d)) v)"

definition vfs_getcwd :: "vfs \<Rightarrow> u8 list" where
  "vfs_getcwd v =
     (if current_dir v = 0 then [SLASH]
      else fold (\<lambda>part out. if length out < 250 then out @ SLASH # take (254 - length out) part else out)
        (rev (cwd_parts 32 (Some (current_dir v)) v)) [])"

definition vfs_setcwd_node :: "nat option \<Rightarrow> vfs \<Rightarrow> vfs" where
  "vfs_setcwd_node n v = (case n of None \<Rightarrow> v | Some n \<Rightarrow> v\<lparr>current_dir := n\<rparr>)"

definition vfs_path_node :: "u8 list \<Rightarrow> vfs \<Rightarrow> nat option" where
  "vfs_path_node path v =
     (case vfs_resolve_path path v of None \<Rightarrow> None | Some n \<Rightarrow> if n_type (nodes v n) = 1 then Some n else None)"

definition vfs_chdir :: "u8 list \<Rightarrow> vfs \<Rightarrow> int \<times> vfs" where
  "vfs_chdir path v =
     (if vfs_find_mount path v \<noteq> None then
        (case (case vfs_resolve_path path v of Some d \<Rightarrow> (Some d, v) | None \<Rightarrow> create_at path 1 v) of
           (None, v) \<Rightarrow> (- 1, v)
         | (Some d, v) \<Rightarrow> (0, v\<lparr>current_dir := d\<rparr>))
      else case vfs_path_node path v of None \<Rightarrow> (- 1, v) | Some d \<Rightarrow> (0, v\<lparr>current_dir := d\<rparr>))"

definition touch_tree :: "u8 list \<Rightarrow> vfs \<Rightarrow> int \<times> vfs" where
  "touch_tree path v = (if vfs_resolve_path path v \<noteq> None then (0, v) else ret (create_at path 0 v))"

definition vfs_touch :: "u8 list \<Rightarrow> vfs \<Rightarrow> int \<times> vfs" where
  "vfs_touch path v =
     (case vfs_find_mount path v of
        Some m \<Rightarrow>
          if has_ops m v then let (r, v) = on_vol (ext2_write_file (sub_or_root path m v) []) v in (if r \<ge> 0 then 0 else - 1, v)
          else touch_tree path v
      | None \<Rightarrow> touch_tree path v)"

definition write_file_tree :: "u8 list \<Rightarrow> u8 list \<Rightarrow> vfs \<Rightarrow> int \<times> vfs" where
  "write_file_tree path bs v =
     (case (case vfs_resolve_path path v of Some n \<Rightarrow> (Some n, v) | None \<Rightarrow> create_at path 0 v) of
        (None, v) \<Rightarrow> (- 1, v)
      | (Some n, v) \<Rightarrow>
          if n_type (nodes v n) \<noteq> 0 then (- 1, v)
          else case kmalloc_buf (length bs) v of
            (None, v) \<Rightarrow>
              let v = updn n (\<lambda>x. x\<lparr>n_data := None\<rparr>) v
              in if bs \<noteq> [] then (- 1, v) else (0, updn n (\<lambda>x. x\<lparr>n_size := 0\<rparr>) v)
          | (Some b, v) \<Rightarrow>
              (int (length bs), updn n (\<lambda>x. x\<lparr>n_data := Some (bs @ drop (length bs) b), n_size := of_nat (length bs)\<rparr>) v))"

definition vfs_write_file :: "u8 list \<Rightarrow> u8 list \<Rightarrow> vfs \<Rightarrow> int \<times> vfs" where
  "vfs_write_file path bs v =
     (case vfs_find_mount path v of
        Some m \<Rightarrow> if has_ops m v then on_vol (ext2_write_file (sub_or_root path m v) bs) v else write_file_tree path bs v
      | None \<Rightarrow> write_file_tree path bs v)"

section \<open>Boot\<close>

definition boot_dirs :: "u8 list list" where
  "boot_dirs = map str [''/home'', ''/home/user'', ''/tmp'', ''/etc'', ''/var'', ''/opt'', ''/dev'', ''/bin'', ''/proc'', ''/sys'']"

definition make_dev :: "kern \<Rightarrow> u8 list \<times> u32 \<Rightarrow> vfs \<Rightarrow> vfs" where
  "make_dev k d v =
     (case vfs_open (fst d) 1 k v of (None, v) \<Rightarrow> v | (Some n, v) \<Rightarrow> updn n (\<lambda>x. x\<lparr>n_dev_type := snd d\<rparr>) v)"

definition boot_root :: "vfs \<Rightarrow> vfs" where
  "boot_root v =
     (let (root, v) = alloc_node (v\<lparr>node_count := 0\<rparr>); root = the root
      in (updn root (\<lambda>x. x\<lparr>n_name := [SLASH], n_type := 1, n_parent := Some root\<rparr>) v)\<lparr>current_dir := root\<rparr>)"

definition init_vfs :: "kern \<Rightarrow> vfs \<Rightarrow> vfs option" where
  "init_vfs k v =
     (let v = boot_root v;
          v = fold (\<lambda>d v. snd (vfs_mkdir d v)) boot_dirs v;
          (fd, v) = vfs_open (str ''/home/user/welcome.txt'') 1 k v
      in Option.bind (vfs_write fd (str ''Welcome to NyxOS v1.0.0'' @ [NL]) v) (\<lambda>(r, v).
         Option.bind (vfs_write fd (str ''Type 'help' for commands.'' @ [NL]) v) (\<lambda>(r, v).
           let v = vfs_close fd v;
               v = fold (make_dev k) [(str ''/dev/null'', DEV_NULL), (str ''/dev/zero'', DEV_ZERO), (str ''/dev/random'', DEV_RANDOM),
                     (str ''/dev/urandom'', DEV_RANDOM)] v;
               v = v\<lparr>proc_node := vfs_resolve_path (str ''/proc'') v\<rparr>
           in Some (case proc_node v of
                None \<Rightarrow> v
              | Some pn \<Rightarrow> fold (\<lambda>(nm, pt) v. snd (proc_make pn nm 0 pt 0 v))
                  [(str ''meminfo'', PROC_MEMINFO), (str ''uptime'', PROC_UPTIME), (str ''version'', PROC_VERSION), (str ''cpuinfo'', PROC_CPUINFO)] v))))"

end
