(* ===== verification/Vfs_Pool.thy ===== *)
theory Vfs_Pool
  imports Vfs Ext2_Volume "HOL-Library.Multiset"
begin

text \<open>
  The node pool of the virtual file system: an invariant over the pool, the tree and the handles held outside, which every operation
  keeps, and what follows from it for the handles. The handles are a multiset of nodes.
\<close>

section \<open>The invariant\<close>

definition in_use :: "vfs \<Rightarrow> nat \<Rightarrow> bool" where "in_use v n \<longleftrightarrow> n < node_count v \<and> n \<notin> set (free_nodes v)"

definition transient :: "vfs \<Rightarrow> nat \<Rightarrow> bool" where "transient v n \<longleftrightarrow> n_mount_backed (nodes v n) \<or> n_orphaned (nodes v n)"

definition pid_dir :: "vfs \<Rightarrow> nat \<Rightarrow> bool" where "pid_dir v n \<longleftrightarrow> n_proc_type (nodes v n) = PROC_PID_DIR"

definition kids :: "vfs \<Rightarrow> nat \<Rightarrow> nat list" where "kids v n = n_children (nodes v n)"

text \<open>Nodes the kernel keeps a pointer to: they are outside the directories that come and go with processes.\<close>

definition anchor_ok :: "vfs \<Rightarrow> nat \<Rightarrow> bool" where
  "anchor_ok v a \<longleftrightarrow> in_use v a \<and> \<not> transient v a \<and> \<not> pid_dir v a \<and> (\<forall>p. in_use v p \<and> pid_dir v p \<longrightarrow> a \<notin> set (kids v p))"

definition anchors :: "vfs \<Rightarrow> nat set" where "anchors v = {0, current_dir v} \<union> set_option (proc_node v)"

definition free_ok :: "vfs \<Rightarrow> bool" where
  "free_ok v \<longleftrightarrow> node_count v \<le> MAX_INODES \<and> distinct (free_nodes v) \<and> (\<forall>n\<in>set (free_nodes v). n < node_count v) \<and>
     (\<forall>n<node_count v. n_on_free_list (nodes v n) \<longleftrightarrow> n \<in> set (free_nodes v))"

definition tree_ok :: "vfs \<Rightarrow> bool" where
  "tree_ok v \<longleftrightarrow> (\<forall>p. in_use v p \<longrightarrow> distinct (kids v p) \<and> length (kids v p) \<le> MAX_CHILDREN \<and>
     (\<forall>c\<in>set (kids v p). in_use v c \<and> c \<noteq> 0 \<and> \<not> transient v c) \<and> (\<forall>q c. in_use v q \<and> c \<in> set (kids v p) \<and> c \<in> set (kids v q) \<longrightarrow> p = q))"

definition refs_ok :: "vfs \<Rightarrow> nat multiset \<Rightarrow> bool" where
  "refs_ok v H \<longleftrightarrow> (\<forall>n. n < node_count v \<longrightarrow> unat (n_open_refs (nodes v n)) = count H n) \<and> (\<forall>n\<in>#H. in_use v n)"

definition pool_ok :: "vfs \<Rightarrow> nat multiset \<Rightarrow> bool" where
  "pool_ok v H \<longleftrightarrow> free_ok v \<and> tree_ok v \<and> refs_ok v H \<and> (\<forall>a\<in>anchors v. anchor_ok v a)"

lemmas pool_defs = pool_ok_def free_ok_def tree_ok_def refs_ok_def anchors_def anchor_ok_def in_use_def transient_def pid_dir_def kids_def

text \<open>The invariant reads only these fields.\<close>

definition same_pool :: "vfs \<Rightarrow> vfs \<Rightarrow> bool" where
  "same_pool v v' \<longleftrightarrow> node_count v' = node_count v \<and> free_nodes v' = free_nodes v \<and> current_dir v' = current_dir v \<and>
     proc_node v' = proc_node v \<and>
     (\<forall>n. n_children (nodes v' n) = n_children (nodes v n) \<and> n_open_refs (nodes v' n) = n_open_refs (nodes v n) \<and>
        n_orphaned (nodes v' n) = n_orphaned (nodes v n) \<and> n_on_free_list (nodes v' n) = n_on_free_list (nodes v n) \<and>
        n_mount_backed (nodes v' n) = n_mount_backed (nodes v n) \<and> n_proc_type (nodes v' n) = n_proc_type (nodes v n))"

lemma same_pool_ok: "same_pool v v' \<Longrightarrow> pool_ok v' H \<longleftrightarrow> pool_ok v H"
  by (simp add: same_pool_def pool_defs)

lemma same_pool_refl [simp]: "same_pool v v"
  by (simp add: same_pool_def)

lemma same_pool_trans [trans]: "same_pool u v \<Longrightarrow> same_pool v w \<Longrightarrow> same_pool u w"
  by (simp add: same_pool_def)

section \<open>Taking a node\<close>

lemma updn_fields [simp]:
  "node_count (updn n f v) = node_count v" "free_nodes (updn n f v) = free_nodes v" "current_dir (updn n f v) = current_dir v"
  "proc_node (updn n f v) = proc_node v" "mount_table (updn n f v) = mount_table v" "ext2_vol (updn n f v) = ext2_vol v"
  "answers (updn n f v) = answers v" "nodes (updn n f v) m = (if m = n then f (nodes v n) else nodes v m)"
  by (simp_all add: updn_def)

lemma in_use_updn [simp]: "in_use (updn n f v) = in_use v"
  by (auto simp: in_use_def)

lemma pool_in_use: "pool_ok v H \<Longrightarrow> in_use v p \<Longrightarrow> c \<in> set (kids v p) \<Longrightarrow> in_use v c"
  by (auto simp: pool_ok_def tree_ok_def)

text \<open>A fresh node is one nobody holds: not in the tree, no handle, no anchor.\<close>

definition fresh :: "vfs \<Rightarrow> nat multiset \<Rightarrow> nat \<Rightarrow> bool" where
  "fresh v H n \<longleftrightarrow> in_use v n \<and> n \<notin># H \<and> n \<notin> anchors v \<and> (\<forall>p. in_use v p \<longrightarrow> n \<notin> set (kids v p)) \<and> kids v n = [] \<and> \<not> transient v n"

lemma alloc_node_pool:
  assumes "pool_ok v H" "alloc_node v = (Some n, v')"
  shows "pool_ok v' H" "fresh v' H n" "\<not> in_use v n" "nodes v' n = zero_node" "m \<noteq> n \<Longrightarrow> nodes v' m = nodes v m"
    "in_use v' m \<longleftrightarrow> in_use v m \<or> m = n" "anchors v' = anchors v" "mount_table v' = mount_table v" "ext2_vol v' = ext2_vol v" "answers v' = answers v"
proof -
  note ok = assms(1) [unfolded pool_ok_def]
  have nl: "\<not> in_use v n \<and> in_use v' n"
    using assms(2) ok by (auto simp: alloc_node_def in_use_def free_ok_def split: list.splits if_splits)
  then show "\<not> in_use v n" by simp
  show z: "nodes v' n = zero_node" and other: "m \<noteq> n \<Longrightarrow> nodes v' m = nodes v m" for m
    using assms(2) by (auto simp: alloc_node_def split: list.splits if_splits)
  show lv: "in_use v' m \<longleftrightarrow> in_use v m \<or> m = n" for m
    using assms(2) ok by (auto simp: alloc_node_def in_use_def free_ok_def less_Suc_eq split: list.splits if_splits)
  have fields: "current_dir v' = current_dir v" "proc_node v' = proc_node v"
    using assms(2) by (auto simp: alloc_node_def split: list.splits if_splits)
  then show an: "anchors v' = anchors v" by (simp add: anchors_def)
  show "mount_table v' = mount_table v" "ext2_vol v' = ext2_vol v" "answers v' = answers v"
    using assms(2) by (auto simp: alloc_node_def split: list.splits if_splits)
  have kid: "kids v' m = (if m = n then [] else kids v m)" for m
    using z other by (simp add: kids_def zero_node_def)
  have tr: "transient v' m = (if m = n then False else transient v m)" "pid_dir v' m = (if m = n then False else pid_dir v m)" for m
    using z other by (simp_all add: transient_def pid_dir_def zero_node_def PROC_PID_DIR_def)
  have notin: "n \<notin> set (kids v p)" if "in_use v p" for p
    using that ok nl by (auto simp: tree_ok_def)
  have "free_ok v'"
    using assms(2) ok by (auto simp: alloc_node_def free_ok_def zero_node_def MAX_INODES_def less_Suc_eq split: list.splits if_splits)
  moreover have "tree_ok v'" using ok notin by (auto simp: tree_ok_def lv kid tr)
  moreover have "refs_ok v' H"
  proof -
    have h: "n \<notin># H" using ok nl by (auto simp: refs_ok_def)
    then have "unat (n_open_refs (nodes v' m)) = count H m" if "m < node_count v'" for m
      using that assms(2) ok z
      by (cases "m = n") (auto simp: other alloc_node_def refs_ok_def zero_node_def not_in_iff less_Suc_eq split: list.splits if_splits)
    with ok show ?thesis by (auto simp: refs_ok_def lv)
  qed
  moreover have "\<forall>a\<in>anchors v'. anchor_ok v' a"
  proof
    fix a
    assume "a \<in> anchors v'"
    with an ok have a: "anchor_ok v a" by auto
    then have "a \<noteq> n" using nl by (auto simp: anchor_ok_def)
    with a show "anchor_ok v' a" by (auto simp: anchor_ok_def lv kid tr)
  qed
  ultimately show "pool_ok v' H" by (simp add: pool_ok_def)
  show "fresh v' H n"
    using ok nl notin by (auto simp: fresh_def lv kid tr an refs_ok_def anchor_ok_def)
qed

text \<open>Updates of fields the invariant does not read.\<close>

definition keeps :: "(vfs_node \<Rightarrow> vfs_node) \<Rightarrow> bool" where
  "keeps f \<longleftrightarrow> (\<forall>x. n_children (f x) = n_children x \<and> n_open_refs (f x) = n_open_refs x \<and> n_orphaned (f x) = n_orphaned x \<and>
     n_on_free_list (f x) = n_on_free_list x \<and> n_mount_backed (f x) = n_mount_backed x \<and> n_proc_type (f x) = n_proc_type x)"

lemma same_pool_updn [simp]: "keeps f \<Longrightarrow> same_pool v (updn n f v)"
  by (simp add: keeps_def same_pool_def)

lemma same_pool_env [simp]:
  "same_pool v (v\<lparr>answers := a\<rparr>)" "same_pool v (v\<lparr>ext2_vol := s\<rparr>)" "same_pool v (v\<lparr>mount_table := m\<rparr>)" "same_pool v (v\<lparr>dev_rng_state := r\<rparr>)"
  "same_pool v (v\<lparr>name_tail := t\<rparr>)"
  by (simp_all add: same_pool_def)

lemma same_pool_fresh: "same_pool v v' \<Longrightarrow> fresh v' H n \<longleftrightarrow> fresh v H n"
  by (simp add: same_pool_def fresh_def in_use_def anchors_def kids_def transient_def)

lemma same_pool_in_use: "same_pool v v' \<Longrightarrow> in_use v' = in_use v"
  by (auto simp: same_pool_def in_use_def)

lemma fresh_updn: "fresh v H n \<Longrightarrow> keeps f \<Longrightarrow> fresh (updn n f v) H n"
  using same_pool_fresh [OF same_pool_updn] by blast

lemma free_ok_updn:
  assumes "\<And>x. n_on_free_list (f x) = n_on_free_list x"
  shows "free_ok (updn n f v) = free_ok v"
proof -
  have "n_on_free_list (nodes (updn n f v) m) = n_on_free_list (nodes v m)" for m using assms by simp
  then show ?thesis unfolding free_ok_def by (simp only: updn_fields(1,2))
qed

lemma refs_ok_updn:
  assumes "\<And>x. n_open_refs (f x) = n_open_refs x"
  shows "refs_ok (updn n f v) H = refs_ok v H"
proof -
  have "n_open_refs (nodes (updn n f v) m) = n_open_refs (nodes v m)" for m using assms by simp
  then show ?thesis unfolding refs_ok_def by (simp only: updn_fields(1,2) in_use_updn)
qed

section \<open>The tree\<close>

text \<open>Nodes outside the tree: what removing a child leaves, and what may be released or put back.\<close>

definition detached :: "vfs \<Rightarrow> nat \<Rightarrow> bool" where
  "detached v n \<longleftrightarrow> in_use v n \<and> n \<notin> anchors v \<and> (\<forall>p. in_use v p \<longrightarrow> n \<notin> set (kids v p))"

lemma fresh_detached: "fresh v H n \<Longrightarrow> detached v n \<and> \<not> transient v n"
  by (simp add: fresh_def detached_def)

lemma attach_pool:
  assumes "pool_ok v H" "detached v n" "\<not> transient v n" "in_use v p" "length (kids v p) < MAX_CHILDREN"
  shows "pool_ok (updn p (\<lambda>x. x\<lparr>n_children := n_children x @ [n]\<rparr>) v) H"
proof -
  let ?v = "updn p (\<lambda>x. x\<lparr>n_children := n_children x @ [n]\<rparr>) v"
  have kid: "kids ?v m = (if m = p then kids v p @ [n] else kids v m)" for m by (simp add: kids_def)
  have tr: "transient ?v = transient v" "pid_dir ?v = pid_dir v" by (simp_all add: transient_def pid_dir_def fun_eq_iff)
  have "free_ok ?v" "refs_ok ?v H" using assms(1) by (simp_all add: free_ok_updn refs_ok_updn pool_ok_def)
  moreover have "tree_ok ?v" using assms by (auto simp: pool_ok_def tree_ok_def kid tr detached_def anchors_def)
  moreover have "\<forall>a\<in>anchors ?v. anchor_ok ?v a"
    using assms(1,2) by (auto simp: pool_ok_def anchor_ok_def kid tr detached_def anchors_def)
  ultimately show ?thesis by (simp add: pool_ok_def)
qed

lemma free_node_pool:
  assumes "pool_ok v H" "in_use v n" "n \<notin># H" "n \<notin> anchors v" "\<forall>p. in_use v p \<longrightarrow> n \<notin> set (kids v p)"
  shows "pool_ok (free_node n v) H" "in_use (free_node n v) m \<longleftrightarrow> in_use v m \<and> m \<noteq> n" "anchors (free_node n v) = anchors v"
    "kids (free_node n v) = kids v" "pid_dir (free_node n v) = pid_dir v"
proof -
  have nf: "\<not> n_on_free_list (nodes v n)" using assms(1,2) by (auto simp: pool_ok_def free_ok_def in_use_def)
  have "card (set (free_nodes v)) \<le> card {..<node_count v} - 1"
    using assms(1,2) card_mono [of "{..<node_count v} - {n}" "set (free_nodes v)"]
    by (auto simp: pool_ok_def free_ok_def in_use_def card_Diff_singleton)
  then have "length (free_nodes v) < MAX_INODES"
    using assms(1,2) by (auto simp: pool_ok_def free_ok_def in_use_def distinct_card)
  with nf have e: "free_node n v = updn n (\<lambda>x. x\<lparr>n_on_free_list := True\<rparr>) (v\<lparr>free_nodes := n # free_nodes v\<rparr>)"
    by (simp add: free_node_def)
  show lv: "in_use (free_node n v) m \<longleftrightarrow> in_use v m \<and> m \<noteq> n" for m by (auto simp: e in_use_def)
  show an: "anchors (free_node n v) = anchors v" by (simp add: e anchors_def)
  show kid: "kids (free_node n v) = kids v" and pd: "pid_dir (free_node n v) = pid_dir v" by (simp_all add: e kids_def pid_dir_def fun_eq_iff)
  have tr: "transient (free_node n v) = transient v" by (simp add: e transient_def fun_eq_iff)
  have "free_ok (free_node n v)" using assms(1,2) by (auto simp: e pool_ok_def free_ok_def in_use_def)
  moreover have "tree_ok (free_node n v)" using assms(1,5) by (auto simp: pool_ok_def tree_ok_def lv kid tr)
  moreover have "refs_ok (free_node n v) H" using assms(1,3) by (auto simp: pool_ok_def refs_ok_def lv) (auto simp: e)
  moreover have "\<forall>a\<in>anchors v. anchor_ok (free_node n v) a"
    using assms(1,4) by (auto simp: pool_ok_def anchor_ok_def lv kid tr pd)
  ultimately show "pool_ok (free_node n v) H" by (simp add: pool_ok_def an)
qed

lemma set_kids_pool:
  assumes "pool_ok v H" "in_use v p" "set cs \<subseteq> set (kids v p)" "distinct cs"
  shows "pool_ok (updn p (\<lambda>x. x\<lparr>n_children := cs\<rparr>) v) H"
proof -
  let ?v = "updn p (\<lambda>x. x\<lparr>n_children := cs\<rparr>) v"
  have kid: "kids ?v m = (if m = p then cs else kids v m)" for m by (simp add: kids_def)
  have tr: "transient ?v = transient v" "pid_dir ?v = pid_dir v" by (simp_all add: transient_def pid_dir_def fun_eq_iff)
  have "length cs \<le> length (kids v p)"
    using assms(3,4) card_length [of "kids v p"]
    by (metis List.finite_set card_mono distinct_card le_trans)
  then have len: "length cs \<le> MAX_CHILDREN" using assms(1,2) by (force simp: pool_ok_def tree_ok_def)
  have "free_ok ?v" "refs_ok ?v H" using assms(1) by (simp_all add: free_ok_updn refs_ok_updn pool_ok_def)
  moreover have "tree_ok ?v"
    unfolding tree_ok_def in_use_updn tr
  proof (intro allI impI)
    fix m
    assume m: "in_use v m"
    have t: "tree_ok v" using assms(1) by (simp add: pool_ok_def)
    have sub: "set (kids ?v q) \<subseteq> set (kids v q)" for q using assms(3) by (simp add: kid)
    have "distinct (kids ?v m)" "length (kids ?v m) \<le> MAX_CHILDREN" using t m assms(4) len by (simp_all add: kid tree_ok_def)
    moreover have "\<forall>c\<in>set (kids ?v m). in_use v c \<and> c \<noteq> 0 \<and> \<not> transient v c" using t m sub unfolding tree_ok_def by blast
    moreover have "\<forall>q c. in_use v q \<and> c \<in> set (kids ?v m) \<and> c \<in> set (kids ?v q) \<longrightarrow> m = q" using t m sub unfolding tree_ok_def by blast
    ultimately show "distinct (kids ?v m) \<and> length (kids ?v m) \<le> MAX_CHILDREN \<and>
      (\<forall>c\<in>set (kids ?v m). in_use v c \<and> c \<noteq> 0 \<and> \<not> transient v c) \<and>
      (\<forall>q c. in_use v q \<and> c \<in> set (kids ?v m) \<and> c \<in> set (kids ?v q) \<longrightarrow> m = q)" by blast
  qed
  moreover have "\<forall>a\<in>anchors ?v. anchor_ok ?v a"
    using assms(1-3) by (auto simp: pool_ok_def anchor_ok_def kid tr anchors_def)
  ultimately show ?thesis by (simp add: pool_ok_def)
qed

lemma orphan_pool:
  assumes "pool_ok v H" "detached v n"
  shows "pool_ok (updn n (\<lambda>x. x\<lparr>n_orphaned := True\<rparr>) v) H"
proof -
  let ?v = "updn n (\<lambda>x. x\<lparr>n_orphaned := True\<rparr>) v"
  have kid: "kids ?v = kids v" "pid_dir ?v = pid_dir v" by (simp_all add: kids_def pid_dir_def fun_eq_iff)
  have tr: "m \<noteq> n \<Longrightarrow> transient ?v m = transient v m" for m by (auto simp: transient_def)
  have "free_ok ?v" "refs_ok ?v H" using assms(1) by (simp_all add: free_ok_updn refs_ok_updn pool_ok_def)
  moreover have "tree_ok ?v"
    using assms unfolding pool_ok_def tree_ok_def detached_def in_use_updn kid by (metis tr)
  moreover have "\<forall>a\<in>anchors ?v. anchor_ok ?v a"
    using assms by (auto simp: pool_ok_def anchor_ok_def kid tr anchors_def detached_def)
  ultimately show ?thesis by (simp add: pool_ok_def)
qed

lemma release_node_pool:
  assumes "pool_ok v H" "detached v n"
  shows "pool_ok (release_node n v) H" "anchors (release_node n v) = anchors v" "pid_dir (release_node n v) = pid_dir v"
    "in_use (release_node n v) m \<Longrightarrow> in_use v m" "in_use v m \<Longrightarrow> m \<noteq> n \<Longrightarrow> in_use (release_node n v) m"
    "m \<noteq> n \<Longrightarrow> kids (release_node n v) m = kids v m" "set (kids (release_node n v) m) \<subseteq> set (kids v m)"
proof -
  let ?w = "updn n (\<lambda>x. x\<lparr>n_data := None, n_dents := None, n_size := 0, n_children := []\<rparr>) v"
  have w: "updn n (\<lambda>x. x\<lparr>n_children := []\<rparr>) (updn n (\<lambda>x. x\<lparr>n_data := None, n_dents := None, n_size := 0\<rparr>) v) = ?w"
    by (simp add: updn_def)
  have iu: "in_use v n" using assms(2) by (simp add: detached_def)
  have "pool_ok (updn n (\<lambda>x. x\<lparr>n_data := None, n_dents := None, n_size := 0\<rparr>) v) H"
    using assms(1) same_pool_ok [OF same_pool_updn] by (simp add: keeps_def)
  then have ok: "pool_ok ?w H" unfolding w [symmetric] by (rule set_kids_pool) (use iu in simp_all)
  have an: "anchors ?w = anchors v" by (simp add: anchors_def)
  have kid: "kids ?w m = (if m = n then [] else kids v m)" for m by (simp add: kids_def)
  have pd: "pid_dir ?w = pid_dir v" by (simp add: pid_dir_def fun_eq_iff)
  have "pool_ok (release_node n v) H \<and> anchors (release_node n v) = anchors v \<and> pid_dir (release_node n v) = pid_dir v \<and>
    (\<forall>m. (in_use (release_node n v) m \<longrightarrow> in_use v m) \<and> (in_use v m \<and> m \<noteq> n \<longrightarrow> in_use (release_node n v) m) \<and>
      (m \<noteq> n \<longrightarrow> kids (release_node n v) m = kids v m) \<and> set (kids (release_node n v) m) \<subseteq> set (kids v m))"
  proof (cases "n_open_refs (nodes v n) > 0")
    case True
    then have e: "release_node n v = updn n (\<lambda>x. x\<lparr>n_orphaned := True\<rparr>) v" by (simp add: release_node_def)
    show ?thesis using orphan_pool [OF assms] by (simp add: e anchors_def pid_dir_def kids_def fun_eq_iff)
  next
    case False
    then have e: "release_node n v = free_node n ?w" by (simp add: release_node_def)
    have "n_open_refs (nodes v n) = 0" using False by (simp add: word_gt_0)
    then have "count H n = 0" using assms(1) iu by (auto simp: pool_ok_def refs_ok_def in_use_def)
    then have "n \<notin># H" by (simp add: not_in_iff)
    moreover have "n \<notin> anchors ?w" "in_use ?w n" "\<forall>p. in_use ?w p \<longrightarrow> n \<notin> set (kids ?w p)"
      using assms(2) by (simp_all add: detached_def an kid)
    ultimately show ?thesis using free_node_pool [OF ok, of n] by (simp add: e an pd kid)
  qed
  then show "pool_ok (release_node n v) H" "anchors (release_node n v) = anchors v" "pid_dir (release_node n v) = pid_dir v"
    "in_use (release_node n v) m \<Longrightarrow> in_use v m" "in_use v m \<Longrightarrow> m \<noteq> n \<Longrightarrow> in_use (release_node n v) m"
    "m \<noteq> n \<Longrightarrow> kids (release_node n v) m = kids v m" "set (kids (release_node n v) m) \<subseteq> set (kids v m)"
    by simp_all
qed

section \<open>Creating nodes\<close>

lemma fresh_init:
  assumes "pool_ok v H" "fresh v H n"
    "\<And>x. n_children (f x) = n_children x \<and> n_open_refs (f x) = n_open_refs x \<and> n_orphaned (f x) = n_orphaned x \<and>
       n_on_free_list (f x) = n_on_free_list x \<and> n_mount_backed (f x) = n_mount_backed x"
  shows "pool_ok (updn n f v) H" "fresh (updn n f v) H n"
proof -
  let ?v = "updn n f v"
  have kid: "kids ?v = kids v" using assms(3) by (simp add: kids_def fun_eq_iff)
  have tr: "transient ?v = transient v" using assms(3) by (simp add: transient_def fun_eq_iff)
  have pd: "m \<noteq> n \<Longrightarrow> pid_dir ?v m = pid_dir v m" for m by (simp add: pid_dir_def)
  have an: "anchors ?v = anchors v" by (simp add: anchors_def)
  have "free_ok ?v" "refs_ok ?v H" using assms(1,3) by (simp_all add: free_ok_updn refs_ok_updn pool_ok_def)
  moreover have "tree_ok ?v" using assms(1) by (simp add: pool_ok_def tree_ok_def kid tr)
  moreover have "anchor_ok ?v a" if "a \<in> anchors v" for a
  proof -
    have "a \<noteq> n" "anchor_ok v a" using that assms(1,2) by (auto simp: pool_ok_def fresh_def)
    then show ?thesis using assms(2) pd by (metis anchor_ok_def fresh_def in_use_updn kid tr empty_iff list.set(1))
  qed
  ultimately show "pool_ok ?v H" by (simp add: pool_ok_def an)
  show "fresh ?v H n" using assms(2) by (simp add: fresh_def kid tr an)
qed

lemma alloc_node_None: "alloc_node v = (None, v') \<Longrightarrow> v' = v"
  by (auto simp: alloc_node_def split: list.splits if_splits)

text \<open>What an operation that only adds nodes to the tree guarantees: everything in use stays, and so do the anchors.\<close>

definition grows :: "nat multiset \<Rightarrow> vfs \<Rightarrow> vfs \<Rightarrow> bool" where
  "grows H v v' \<longleftrightarrow> pool_ok v' H \<and> (\<forall>n. in_use v n \<longrightarrow> in_use v' n) \<and> anchors v' = anchors v \<and> proc_node v' = proc_node v \<and>
     current_dir v' = current_dir v"

lemma pool_grows_refl: "pool_ok v H \<Longrightarrow> grows H v v"
  by (simp add: grows_def)

lemma pool_grows_trans: "grows H u v \<Longrightarrow> grows H v w \<Longrightarrow> grows H u w"
  by (auto simp: grows_def)

lemma grows_same: "pool_ok v H \<Longrightarrow> same_pool v v' \<Longrightarrow> grows H v v'"
  using same_pool_ok [of v v' H] same_pool_in_use [of v v'] by (auto simp: grows_def same_pool_def anchors_def)

lemma new_child_pool:
  assumes "pool_ok v H" "in_use v p" "new_child p nm ty f v = (r, v')" "keeps f"
  shows "grows H v v'" "r = Some n \<Longrightarrow> in_use v' n \<and> n \<notin># H \<and> \<not> in_use v n"
proof -
  have "grows H v v' \<and> (\<forall>n. r = Some n \<longrightarrow> in_use v' n \<and> n \<notin># H \<and> \<not> in_use v n)"
  proof (cases "alloc_node v")
    case (Pair a v1)
    show ?thesis
    proof (cases a)
      case None
      with Pair assms(1,3) alloc_node_None [of v v1] show ?thesis by (auto simp: new_child_def intro: pool_grows_refl)
    next
      case (Some m)
      note al = alloc_node_pool [OF assms(1) Pair [unfolded Some]]
      let ?f = "\<lambda>x. f (x\<lparr>n_name := take (MAX_NAME - 1) nm, n_type := ty, n_parent := Some p\<rparr>)"
      let ?v2 = "updn m ?f v1"
      have k: "keeps ?f" using assms(4) by (simp add: keeps_def)
      note f2 = fresh_init [OF al(1,2), of ?f]
      have v2: "pool_ok ?v2 H" "fresh ?v2 H m" using f2 k by (simp_all add: keeps_def)
      have p: "p \<noteq> m" "in_use ?v2 p" using assms(2) al(3,6) by auto
      have cp: "current_dir v1 = current_dir v" "proc_node v1 = proc_node v"
        using Pair by (auto simp: alloc_node_def split: list.splits if_splits)
      show ?thesis
      proof (cases "length (kids ?v2 p) < MAX_CHILDREN")
        case True
        then have "v' = updn p (\<lambda>x. x\<lparr>n_children := n_children x @ [m]\<rparr>) ?v2" "r = Some m"
          using assms(3) Pair Some p(1) by (simp_all add: new_child_def vfs_append_child_def kids_def)
        with attach_pool [OF v2(1) fresh_detached [OF v2(2), THEN conjunct1] fresh_detached [OF v2(2), THEN conjunct2] p(2) True] al v2(2) cp show ?thesis by (simp add: grows_def anchors_def fresh_def)
      next
        case False
        then have v': "v' = free_node m ?v2" "r = None"
          using assms(3) Pair Some p(1) by (simp_all add: new_child_def vfs_append_child_def kids_def)
        have "in_use ?v2 m" "m \<notin># H" "m \<notin> anchors ?v2" "\<forall>p. in_use ?v2 p \<longrightarrow> m \<notin> set (kids ?v2 p)"
          using v2(2) by (simp_all add: fresh_def)
        note fr = free_node_pool [OF v2(1) this]
        have "in_use v' x \<longleftrightarrow> in_use ?v2 x \<and> x \<noteq> m" for x unfolding v' by (rule fr(2))
        then have "\<forall>x. in_use v x \<longrightarrow> in_use v' x" using al(3,6) by auto
        with fr al(7) cp show ?thesis by (simp add: grows_def v' anchors_def) (simp add: free_node_def)
      qed
    qed
  qed
  then show "grows H v v'" "r = Some n \<Longrightarrow> in_use v' n \<and> n \<notin># H \<and> \<not> in_use v n" by auto
qed

lemma find_child_in_use: "pool_ok v H \<Longrightarrow> in_use v d \<Longrightarrow> find_child d nm v = Some c \<Longrightarrow> in_use v c \<and> c \<in> set (kids v d)"
  by (auto simp: find_child_def kids_def find_Some_iff pool_in_use in_set_conv_nth dest!: pool_in_use [of v H d c])

lemma walk_in_use: "pool_ok v H \<Longrightarrow> in_use v d \<Longrightarrow> walk p d v = Some n \<Longrightarrow> in_use v n"
proof (induction p d v rule: walk.induct)
  case (1 p d v)
  then show ?case
    by (auto simp: walk.simps [of p d v] split: option.splits if_splits prod.splits dest: find_child_in_use)
qed

lemma parent_walk_in_use: "pool_ok v H \<Longrightarrow> in_use v d \<Longrightarrow> in_use v r \<Longrightarrow> in_use v (fst (parent_walk p d r nm v))"
proof (induction p d r nm v rule: parent_walk.induct)
  case (1 p d r nm v)
  then show ?case
    by (subst parent_walk.simps) (auto split: option.splits if_splits prod.splits dest: find_child_in_use)
qed

lemma start_dir_in_use: "pool_ok v H \<Longrightarrow> in_use v (snd (start_dir path v))"
  by (auto simp: start_dir_def Let_def pool_ok_def anchors_def anchor_ok_def)

lemma resolve_in_use:
  assumes "pool_ok v H" "vfs_resolve_path path v = Some n"
  shows "in_use v n"
proof (cases "path = []")
  case True
  with assms show ?thesis by (auto simp: vfs_resolve_path_def pool_ok_def anchors_def anchor_ok_def)
next
  case False
  obtain p d where d: "start_dir path v = (p, d)" by (cases "start_dir path v")
  with False assms(2) have "walk p d v = Some n" by (simp add: vfs_resolve_path_def)
  moreover have "in_use v d" using start_dir_in_use [OF assms(1), of path] d by simp
  ultimately show ?thesis using walk_in_use [OF assms(1)] by blast
qed

lemma resolve_parent_in_use:
  assumes "pool_ok v H" "resolve_parent path v = Some (p, nm)"
  shows "in_use v p"
proof -
  obtain q d where d: "start_dir path v = (q, d)" by (cases "start_dir path v")
  with assms(2) obtain nm' where "parent_walk q d d [] v = (p, nm')" by (auto simp: resolve_parent_def split: if_splits prod.splits)
  moreover have "in_use v d" using start_dir_in_use [OF assms(1), of path] d by simp
  ultimately show ?thesis using parent_walk_in_use [OF assms(1), of d d q "[]"] by simp
qed

lemma create_at_pool:
  assumes "pool_ok v H" "create_at path ty v = (r, v')"
  shows "grows H v v'" "r = Some n \<Longrightarrow> in_use v' n"
  using assms pool_grows_refl [OF assms(1)] resolve_parent_in_use [OF assms(1), of path] new_child_pool [OF assms(1), of _ _ ty "\<lambda>x. x" r v']
  by (auto simp: create_at_def keeps_def split: option.splits if_splits prod.splits)

section \<open>The directories of processes\<close>

lemma proc_make_pool:
  assumes "pool_ok v H" "in_use v p" "proc_make p nm ty pt i v = (r, v')"
  shows "grows H v v'" "r = Some n \<Longrightarrow> in_use v' n"
proof -
  have "grows H v v' \<and> (\<forall>n. r = Some n \<longrightarrow> in_use v' n)"
  proof (cases "length (n_children (nodes v p)) \<ge> MAX_CHILDREN")
    case True
    with assms(1,3) show ?thesis by (simp add: proc_make_def pool_grows_refl)
  next
    case room: False
    obtain a v1 where al0: "alloc_node v = (a, v1)" by (cases "alloc_node v")
    show ?thesis
    proof (cases a)
      case None
      with al0 room assms(1,3) alloc_node_None [of v v1] show ?thesis by (auto simp: proc_make_def intro: pool_grows_refl)
    next
      case (Some m)
      note al = alloc_node_pool [OF assms(1) al0 [unfolded Some]]
      let ?f = "\<lambda>x. x\<lparr>n_name := take (MAX_NAME - 1) nm, n_type := ty, n_proc_type := pt, n_proc_pid := i, n_parent := Some p\<rparr>"
      let ?v2 = "updn m ?f v1"
      note v2 = fresh_init [OF al(1,2), of ?f, simplified]
      have p: "p \<noteq> m" "in_use ?v2 p" using assms(2) al(3,6) by auto
      have k: "kids ?v2 p = n_children (nodes v p)" using p(1) al(5) [of p] by (simp add: kids_def)
      have "v' = updn p (\<lambda>x. x\<lparr>n_children := n_children x @ [m]\<rparr>) ?v2" "r = Some m"
        using assms(3) al0 Some room by (simp_all add: proc_make_def Let_def)
      moreover have "pool_ok (updn p (\<lambda>x. x\<lparr>n_children := n_children x @ [m]\<rparr>) ?v2) H"
        by (rule attach_pool) (use v2 p k room fresh_detached [OF v2(2)] in simp_all)
      moreover have "current_dir v1 = current_dir v" "proc_node v1 = proc_node v"
        using al0 by (auto simp: alloc_node_def split: list.splits if_splits)
      ultimately show ?thesis using al(6) by (simp add: grows_def anchors_def)
    qed
  qed
  then show "grows H v v'" "r = Some n \<Longrightarrow> in_use v' n" by auto
qed

lemma proc_add_pool:
  assumes "pool_ok v H" "in_use v pn"
  shows "grows H v (proc_add pn k q v)"
proof -
  obtain r v1 where m: "proc_make pn (proc_utoa (pid (procs k q))) 1 PROC_PID_DIR (pid (procs k q)) v = (r, v1)" by (cases "proc_make pn (proc_utoa (pid (procs k q))) 1 PROC_PID_DIR (pid (procs k q)) v")
  note g1 = proc_make_pool [OF assms m]
  have step: "grows H v2 (snd (proc_make d nm ty pt i v2)) \<and> in_use (snd (proc_make d nm ty pt i v2)) d"
    if "pool_ok v2 H" "in_use v2 d" for d nm ty pt i v2
    using proc_make_pool(1) [OF that, of nm ty pt i] that by (cases "proc_make d nm ty pt i v2") (auto simp: grows_def)
  show ?thesis
  proof (cases "r")
    case None
    with m g1(1) pool_grows_refl [OF assms(1)] show ?thesis by (auto simp: proc_add_def Let_def)
  next
    case (Some d)
    let ?i = "pid (procs k q)"
    let ?v2 = "snd (proc_make d (str ''status'') 0 PROC_PID_STATUS ?i v1)"
    let ?v3 = "snd (proc_make d (str ''cmdline'') 0 PROC_PID_CMDLINE ?i ?v2)"
    have "pool_ok v1 H" "in_use v1 d" using g1 Some by (simp_all add: grows_def)
    note s2 = step [OF this, of "str ''status''" 0 PROC_PID_STATUS ?i]
    then have "pool_ok ?v2 H" "in_use ?v2 d" by (simp_all add: grows_def)
    note s3 = step [OF this, of "str ''cmdline''" 0 PROC_PID_CMDLINE ?i]
    then have "pool_ok ?v3 H" "in_use ?v3 d" by (simp_all add: grows_def)
    note s4 = step [OF this, of "str ''maps''" 0 PROC_PID_MAPS ?i]
    have "grows H v (snd (proc_make d (str ''maps'') 0 PROC_PID_MAPS ?i ?v3))"
      using g1(1) s2 s3 s4 by (blast intro: pool_grows_trans)
    with m Some pool_grows_refl [OF assms(1)] show ?thesis by (simp add: proc_add_def Let_def)
  qed
qed

lemma release_node_commute:
  "d \<noteq> p \<Longrightarrow> release_node d (updn p (\<lambda>x. x\<lparr>n_children := cs\<rparr>) v) = updn p (\<lambda>x. x\<lparr>n_children := cs\<rparr>) (release_node d v)"
  by (simp add: release_node_def free_node_def updn_def fun_upd_twist)

lemma fold_release_commute:
  "p \<notin> set ds \<Longrightarrow> fold release_node ds (updn p (\<lambda>x. x\<lparr>n_children := cs\<rparr>) v) = updn p (\<lambda>x. x\<lparr>n_children := cs\<rparr>) (fold release_node ds v)"
  by (induction ds arbitrary: v) (simp_all add: release_node_commute)

lemma release_node_detached:
  assumes "pool_ok v H" "detached v n" "detached v m" "m \<noteq> n"
  shows "detached (release_node n v) m"
  unfolding detached_def
proof (intro conjI allI impI)
  note r = release_node_pool [OF assms(1,2)]
  show "in_use (release_node n v) m" using r(5) assms(3,4) by (auto simp: detached_def)
  show "m \<notin> anchors (release_node n v)" using r(2) assms(3) by (simp add: detached_def)
  show "m \<notin> set (kids (release_node n v) p)" if "in_use (release_node n v) p" for p
    using r(4) [OF that] r(7) [of p] assms(3) by (auto simp: detached_def)
qed

lemma fold_release_pool:
  assumes "pool_ok v H" "\<forall>d\<in>set ds. detached v d" "distinct ds"
  shows "pool_ok (fold release_node ds v) H \<and> anchors (fold release_node ds v) = anchors v \<and>
    (\<forall>m. m \<notin> set ds \<longrightarrow> (in_use v m \<longrightarrow> in_use (fold release_node ds v) m) \<and> (detached v m \<longrightarrow> detached (fold release_node ds v) m))"
  using assms
proof (induction ds arbitrary: v)
  case (Cons d ds)
  note r = release_node_pool [OF Cons.prems(1), of d]
  have d: "detached v d" using Cons.prems(2) by simp
  have "\<forall>e\<in>set ds. detached (release_node d v) e"
    using Cons.prems release_node_detached [OF Cons.prems(1) d] by auto
  note IH = Cons.IH [OF r(1) [OF d] this] Cons.prems(3)
  show ?case
  proof (intro conjI allI impI)
    show "pool_ok (fold release_node (d # ds) v) H" "anchors (fold release_node (d # ds) v) = anchors v"
      using IH r(2) [OF d] by simp_all
    fix m
    assume m: "m \<notin> set (d # ds)"
    show "in_use v m \<Longrightarrow> in_use (fold release_node (d # ds) v) m" using IH m r(5) [OF d, of m] by simp
    show "detached v m \<Longrightarrow> detached (fold release_node (d # ds) v) m"
      using IH m release_node_detached [OF Cons.prems(1) d, of m] by simp
  qed
qed simp

lemma swap_last:
  assumes "distinct cs" "i < length cs"
  shows "set (butlast (cs[i := last cs])) = set cs - {cs ! i}" "distinct (butlast (cs[i := last cs]))"
proof -
  obtain ys y where cs: "cs = ys @ [y]" using assms(2) by (cases cs rule: rev_cases) auto
  have "set (butlast (cs[i := last cs])) = set cs - {cs ! i} \<and> distinct (butlast (cs[i := last cs]))"
  proof (cases "i < length ys")
    case True
    with assms(1) cs show ?thesis
      by (auto simp: list_update_append butlast_append nth_append set_update_distinct distinct_list_update)
  next
    case False
    with assms cs have "i = length ys" by simp
    with assms(1) cs show ?thesis by (auto simp: list_update_append)
  qed
  then show "set (butlast (cs[i := last cs])) = set cs - {cs ! i}" "distinct (butlast (cs[i := last cs]))" by simp_all
qed

abbreviation set_kids :: "nat \<Rightarrow> nat list \<Rightarrow> vfs \<Rightarrow> vfs" where "set_kids n cs \<equiv> updn n (\<lambda>x. x\<lparr>n_children := cs\<rparr>)"

lemma drop_pid_dir:
  assumes "pool_ok w H" "pn \<in> anchors w" "c \<in> set (kids w pn)" "pid_dir w c" "set cs = set (kids w pn) - {c}" "distinct cs"
  defines "w3 \<equiv> set_kids c [] (set_kids pn cs w)"
  shows "pool_ok (release_node c (fold release_node (kids w c) w3)) H" "anchors (release_node c (fold release_node (kids w c) w3)) = anchors w"
    "c \<noteq> pn" "pn \<notin> set (kids w c)" "c \<notin> set (kids w c)"
proof -
  have a: "anchor_ok w pn" "tree_ok w" using assms(1,2) by (auto simp: pool_ok_def)
  then have pn: "in_use w pn" "\<not> pid_dir w pn" by (simp_all add: anchor_ok_def)
  then show cpn: "c \<noteq> pn" using assms(4) by auto
  have c: "in_use w c" "c \<noteq> 0" "\<And>q. in_use w q \<Longrightarrow> c \<in> set (kids w q) \<Longrightarrow> q = pn"
    using a(2) pn(1) assms(3) unfolding tree_ok_def by blast+
  show "pn \<notin> set (kids w c)" using a(1) c(1) assms(4) by (auto simp: anchor_ok_def)
  show cc: "c \<notin> set (kids w c)" using c(1,3) cpn by blast
  have "pool_ok (set_kids pn cs w) H" by (rule set_kids_pool) (use assms(1,5,6) pn(1) in auto)
  then have ok: "pool_ok w3 H" unfolding w3_def by (rule set_kids_pool) (use c(1) in simp_all)
  have an: "anchors w3 = anchors w" by (simp add: w3_def anchors_def)
  have kid: "kids w3 q = (if q = c then [] else if q = pn then cs else kids w q)" for q using cpn by (simp add: w3_def kids_def)
  have iu: "in_use w3 = in_use w" by (simp add: w3_def)
  have noa: "a \<notin> anchors w" if "in_use w p" "pid_dir w p" "a \<in> set (kids w p)" for a p
    using that assms(1) by (auto simp: pool_ok_def anchor_ok_def)
  have ca: "c \<notin> anchors w" using assms(1,4) by (auto simp: pool_ok_def anchor_ok_def)
  have dc: "detached w3 c" using c ca assms(5) by (auto simp: detached_def iu an kid)
  have "\<forall>d\<in>set (kids w c). detached w3 d"
  proof
    fix d
    assume d: "d \<in> set (kids w c)"
    have "in_use w d" "\<And>q. in_use w q \<Longrightarrow> d \<in> set (kids w q) \<Longrightarrow> q = c"
      using a(2) c(1) d unfolding tree_ok_def by blast+
    moreover have "d \<notin> set cs" using calculation(2) [OF pn(1)] assms(5) cpn by auto
    ultimately show "detached w3 d" using noa [OF c(1) assms(4) d] by (auto simp: detached_def iu an kid)
  qed
  moreover have "distinct (kids w c)" using a(2) c(1) by (simp add: tree_ok_def)
  ultimately have f: "pool_ok (fold release_node (kids w c) w3) H" "anchors (fold release_node (kids w c) w3) = anchors w3"
      "detached (fold release_node (kids w c) w3) c"
    using fold_release_pool [OF ok] dc cc by simp_all
  from release_node_pool(1,2) [OF f(1,3)] f(2) an
  show "pool_ok (release_node c (fold release_node (kids w c) w3)) H" "anchors (release_node c (fold release_node (kids w c) w3)) = anchors w"
    by simp_all
qed

lemma proc_prune_pool:
  assumes "pool_ok (set_kids pn cs v) H" "pn \<in> anchors v" "proc_prune i cs k v = (cs', v')"
  shows "pool_ok (set_kids pn cs' v') H \<and> anchors v' = anchors v"
  using assms
proof (induction i cs k v arbitrary: cs' v' rule: proc_prune.induct)
  case (1 i cs k v)
  let ?w = "set_kids pn cs v"
  let ?c = "cs ! i"
  have pn: "pn \<in> anchors ?w" using 1(4) by (simp add: anchors_def)
  have inpn: "in_use ?w pn" "tree_ok ?w" using 1(3) pn unfolding pool_ok_def anchor_ok_def by blast+
  have kpn: "kids ?w pn = cs" by (simp add: kids_def)
  have dist: "distinct cs" using inpn kpn unfolding tree_ok_def by metis
  consider "\<not> i < length cs" | "i < length cs" "\<not> (n_proc_type (nodes v ?c) = PROC_PID_DIR \<and> find_process (ucast (n_proc_pid (nodes v ?c))) k = 0)"
    | "i < length cs" "n_proc_type (nodes v ?c) = PROC_PID_DIR" "find_process (ucast (n_proc_pid (nodes v ?c))) k = 0" by blast
  then show ?case
  proof cases
    case 1
    with \<open>pool_ok ?w H\<close> \<open>proc_prune i cs k v = (cs', v')\<close> show ?thesis by (simp add: proc_prune.simps)
  next
    case 2
    with \<open>proc_prune i cs k v = (cs', v')\<close> have "proc_prune (i + 1) cs k v = (cs', v')" by (simp add: proc_prune.simps [of i cs] Let_def split: if_splits)
    from 1(2) [OF 2(1) refl refl 2(2) 1(3,4) this] show ?thesis .
  next
    case 3
    let ?cs = "butlast (cs[i := last cs])"
    let ?K = "n_children (nodes v ?c)"
    let ?v3 = "release_node ?c (set_kids ?c [] (fold release_node ?K v))"
    have pd: "pid_dir ?w ?c" using 3(2) by (auto simp: pid_dir_def)
    have cin: "?c \<in> set (kids ?w pn)" using 3(1) by (simp add: kpn)
    note d = drop_pid_dir [OF 1(3) pn cin pd, of ?cs, unfolded kpn, OF swap_last [OF dist 3(1)]]
    have K: "kids ?w ?c = ?K" using d(3) by (simp add: kids_def)
    have ww: "set_kids pn ?cs ?w = set_kids pn ?cs v" by (simp add: updn_def)
    have "set_kids pn ?cs ?v3 = release_node ?c (fold release_node ?K (set_kids ?c [] (set_kids pn ?cs v)))"
    proof -
      have "set_kids pn ?cs ?v3 = release_node ?c (set_kids pn ?cs (set_kids ?c [] (fold release_node ?K v)))"
        using d(3) by (simp add: release_node_commute)
      also have "set_kids pn ?cs (set_kids ?c [] (fold release_node ?K v)) = set_kids ?c [] (set_kids pn ?cs (fold release_node ?K v))"
        using d(3) by (simp add: updn_def fun_upd_twist)
      also have "\<dots> = fold release_node ?K (set_kids ?c [] (set_kids pn ?cs v))"
        using d(4,5) by (simp add: K fold_release_commute)
      finally show ?thesis .
    qed
    with d(1,2) have ok: "pool_ok (set_kids pn ?cs ?v3) H" "anchors (set_kids pn ?cs ?v3) = anchors ?w" by (simp_all add: K ww)
    have an: "anchors (set_kids n ds u) = anchors u" for n ds u by (simp add: anchors_def)
    have "proc_prune i ?cs k ?v3 = (cs', v')"
      using 3 \<open>proc_prune i cs k v = (cs', v')\<close> by (simp add: proc_prune.simps [of i cs] Let_def)
    from 1(1) [OF 3(1) refl refl _ refl refl refl ok(1) _ this] 3 ok(2) 1(4) show ?thesis by (simp add: an)
  qed
qed

lemma fold_proc_add:
  "pool_ok v H \<Longrightarrow> in_use v pn \<Longrightarrow> pool_ok (fold (proc_add pn k) qs v) H"
proof (induction qs arbitrary: v)
  case (Cons q qs)
  with proc_add_pool [OF Cons.prems, of k q] show ?case by (simp add: grows_def)
qed simp

lemma proc_sync_pool:
  assumes "pool_ok v H"
  shows "pool_ok (proc_sync k v) H"
proof (cases "proc_node v")
  case None
  with assms show ?thesis by (simp add: proc_sync_def)
next
  case (Some pn)
  obtain cs v1 where p: "proc_prune 0 (n_children (nodes v pn)) k v = (cs, v1)" by (cases "proc_prune 0 (n_children (nodes v pn)) k v")
  have pn: "pn \<in> anchors v" using Some by (simp add: anchors_def)
  have id: "set_kids pn (n_children (nodes v pn)) v = v" by (simp add: updn_def)
  have r: "pool_ok (set_kids pn cs v1) H" "anchors v1 = anchors v"
    using proc_prune_pool [of pn "n_children (nodes v pn)" v H 0 k cs v1] p assms pn id by simp_all
  then have "pn \<in> anchors (set_kids pn cs v1)" using pn by (simp add: anchors_def)
  with r(1) have "in_use (set_kids pn cs v1) pn" unfolding pool_ok_def anchor_ok_def by blast
  with r(1) show ?thesis by (simp add: proc_sync_def Some p fold_proc_add)
qed

section \<open>Handles\<close>

text \<open>A handle more and a handle less.\<close>

lemma take_ref_pool:
  assumes "pool_ok v H" "in_use v n" "size H < 2 ^ 32 - 1"
    "\<And>x. n_open_refs (f x) = n_open_refs x + 1" "\<And>x. n_children (f x) = n_children x \<and> n_orphaned (f x) = n_orphaned x \<and>
       n_on_free_list (f x) = n_on_free_list x \<and> n_mount_backed (f x) = n_mount_backed x \<and> n_proc_type (f x) = n_proc_type x"
  shows "pool_ok (updn n f v) (add_mset n H)"
proof -
  have "count H n < 2 ^ 32 - 1" using assms(3) count_le_size [of H n] by linarith
  moreover have "unat (n_open_refs (nodes v n)) = count H n" using assms(1,2) by (simp add: pool_ok_def refs_ok_def in_use_def)
  ultimately have "unat (n_open_refs (nodes v n) + 1) = Suc (count H n)" by (simp add: unat_word_ariths)
  moreover have "tree_ok (updn n f v)" "\<forall>a\<in>anchors (updn n f v). anchor_ok (updn n f v) a"
  proof -
    have e: "kids (updn n f v) = kids v" "transient (updn n f v) = transient v" "pid_dir (updn n f v) = pid_dir v" "anchors (updn n f v) = anchors v"
      using assms(5) by (simp_all add: kids_def transient_def pid_dir_def anchors_def fun_eq_iff)
    show "tree_ok (updn n f v)" "\<forall>a\<in>anchors (updn n f v). anchor_ok (updn n f v) a"
      using assms(1) by (simp_all add: pool_ok_def tree_ok_def anchor_ok_def e)
  qed
  moreover have "free_ok (updn n f v)" using assms(1,5) by (simp add: free_ok_updn pool_ok_def)
  ultimately show ?thesis using assms(1,2,4) by (auto simp: pool_ok_def refs_ok_def)
qed

lemma drop_ref_pool:
  assumes "pool_ok v H" "n \<in># H"
  shows "pool_ok (updn n (\<lambda>x. x\<lparr>n_open_refs := n_open_refs x - 1\<rparr>) v) (H - {#n#})" "n_open_refs (nodes v n) > 0"
proof -
  let ?v = "updn n (\<lambda>x. x\<lparr>n_open_refs := n_open_refs x - 1\<rparr>) v"
  have c: "unat (n_open_refs (nodes v n)) = count H n" using assms by (auto simp: pool_ok_def refs_ok_def in_use_def)
  moreover have "0 < count H n" using assms(2) by simp
  ultimately have pos: "0 < unat (n_open_refs (nodes v n))" by simp
  then show "n_open_refs (nodes v n) > 0" by (simp add: unat_gt_0 word_gt_0)
  from pos have "n_open_refs (nodes v n) \<noteq> 0" by auto
  then have "unat (n_open_refs (nodes v n) - 1) = count H n - 1" using unat_minus_one c by metis
  moreover have e: "kids ?v = kids v" "transient ?v = transient v" "pid_dir ?v = pid_dir v" "anchors ?v = anchors v"
    by (simp_all add: kids_def transient_def pid_dir_def anchors_def fun_eq_iff)
  moreover have "free_ok ?v" using assms(1) by (simp add: free_ok_updn pool_ok_def)
  ultimately show "pool_ok ?v (H - {#n#})"
    using assms(1) by (auto simp: pool_ok_def refs_ok_def tree_ok_def anchor_ok_def dest: in_diffD)
qed

lemma vfs_dup_pool: "pool_ok v H \<Longrightarrow> n \<in># H \<Longrightarrow> size H < 2 ^ 32 - 1 \<Longrightarrow> pool_ok (vfs_dup (Some n) v) (add_mset n H)"
  unfolding vfs_dup_def option.case by (rule take_ref_pool) (auto simp: pool_ok_def refs_ok_def)

lemma vfs_close_pool:
  assumes "pool_ok v H" "n \<in># H"
  shows "pool_ok (vfs_close (Some n) v) (H - {#n#})"
proof -
  let ?v = "updn n (\<lambda>x. x\<lparr>n_open_refs := n_open_refs x - 1\<rparr>) v"
  let ?w = "updn n (\<lambda>x. x\<lparr>n_data := None, n_dents := None, n_size := 0\<rparr>) ?v"
  note d = drop_ref_pool [OF assms]
  show ?thesis
  proof (cases "n_open_refs (nodes ?v n) > 0 \<or> \<not> transient ?v n")
    case True
    then have "vfs_close (Some n) v = ?v" using d(2) by (auto simp: vfs_close_def transient_def Let_def)
    with d(1) show ?thesis by simp
  next
    case False
    then have e: "vfs_close (Some n) v = free_node n ?w" using d(2) by (simp add: vfs_close_def transient_def)
    have sp: "same_pool ?v ?w" by (simp add: keeps_def)
    then have ok: "pool_ok ?w (H - {#n#})" using d(1) same_pool_ok by blast
    have iu: "in_use v n" using assms by (auto simp: pool_ok_def refs_ok_def)
    have tr: "transient ?w n" using False by (simp add: transient_def)
    have "n \<notin># H - {#n#}"
    proof -
      have "n_open_refs (nodes ?v n) = 0" using False by (simp add: word_gt_0)
      moreover have "n < node_count ?v" using iu by (simp add: in_use_def)
      then have "unat (n_open_refs (nodes ?v n)) = count (H - {#n#}) n"
        using d(1) unfolding pool_ok_def refs_ok_def by blast
      ultimately show ?thesis by (simp add: not_in_iff)
    qed
    moreover have "n \<notin> anchors ?w" using ok tr by (auto simp: pool_ok_def anchor_ok_def)
    moreover have "\<forall>p. in_use ?w p \<longrightarrow> n \<notin> set (kids ?w p)" using ok tr unfolding pool_ok_def tree_ok_def by blast
    ultimately show ?thesis using free_node_pool(1) [OF ok, of n] iu by (simp add: e)
  qed
qed

lemma first_ref_pool:
  assumes "pool_ok v H" "in_use v n" "n \<notin># H" "size H < 2 ^ 32 - 1"
  shows "pool_ok (updn n (\<lambda>x. x\<lparr>n_open_refs := 1\<rparr>) v) (add_mset n H)"
proof -
  have "unat (n_open_refs (nodes v n)) = count H n" using assms(1,2) by (simp add: pool_ok_def refs_ok_def in_use_def)
  with assms(3) have "n_open_refs (nodes v n) = 0" by (simp add: not_in_iff unat_eq_zero)
  then have "updn n (\<lambda>x. x\<lparr>n_open_refs := 1\<rparr>) v = updn n (\<lambda>x. x\<lparr>n_open_refs := n_open_refs x + 1\<rparr>) v"
    by (simp add: updn_def)
  moreover have "pool_ok (updn n (\<lambda>x. x\<lparr>n_open_refs := n_open_refs x + 1\<rparr>) v) (add_mset n H)"
    by (rule take_ref_pool) (use assms in simp_all)
  ultimately show ?thesis by simp
qed

lemma mirror_pool:
  assumes "pool_ok v H" "fresh v H n"
    "\<And>x. n_children (f x) = n_children x \<and> n_open_refs (f x) = n_open_refs x \<and> n_on_free_list (f x) = n_on_free_list x \<and> n_proc_type (f x) = n_proc_type x"
  shows "pool_ok (updn n f v) H"
proof -
  let ?v = "updn n f v"
  have e: "kids ?v = kids v" "pid_dir ?v = pid_dir v" "anchors ?v = anchors v"
    using assms(3) by (simp_all add: kids_def pid_dir_def anchors_def fun_eq_iff)
  have tr: "m \<noteq> n \<Longrightarrow> transient ?v m = transient v m" for m by (simp add: transient_def)
  have "free_ok ?v" "refs_ok ?v H" using assms(1,3) by (simp_all add: free_ok_updn refs_ok_updn pool_ok_def)
  moreover have "tree_ok ?v" using assms(1,2) unfolding pool_ok_def tree_ok_def fresh_def in_use_updn e by (metis tr)
  moreover have "anchor_ok ?v a" if "a \<in> anchors v" for a
  proof -
    have "a \<noteq> n" "anchor_ok v a" using that assms(1,2) by (auto simp: pool_ok_def fresh_def)
    then show ?thesis by (simp add: anchor_ok_def e tr)
  qed
  ultimately show ?thesis by (simp add: pool_ok_def e)
qed

lemma kmalloc_buf_pool: "kmalloc_buf n v = (r, v') \<Longrightarrow> same_pool v v'"
  by (auto simp: kmalloc_buf_def)

lemma on_vol_pool: "same_pool v (snd (on_vol f v))"
  by (simp add: on_vol_def split: prod.split)

abbreviation plus_handle :: "nat option \<Rightarrow> nat multiset \<Rightarrow> nat multiset" where
  "plus_handle r H \<equiv> (case r of None \<Rightarrow> H | Some n \<Rightarrow> add_mset n H)"

lemma mirror_load_pool: "same_pool v (mirror_load n sub m ex v)"
proof (cases "kmalloc_buf (unat (ext2_get_size sub (ext2_vol v))) v")
  case (Pair r w)
  have "same_pool v (updn n (\<lambda>x. x\<lparr>n_data := d, n_size := z\<rparr>) w)" for d z
    by (rule same_pool_trans [OF kmalloc_buf_pool [OF Pair]]) (simp add: keeps_def)
  with Pair on_vol_pool kmalloc_buf_pool [OF Pair] show ?thesis
    by (simp add: mirror_load_def Let_def split: option.split)
qed

lemma open_mount_pool:
  assumes "pool_ok v H" "size H < 2 ^ 32 - 1" "open_mount path flags m v = (r, v')"
  shows "pool_ok v' (plus_handle r H)"
proof -
  let ?sub = "sub_or_root path m v"
  obtain d v1 where k: "kmalloc_buf (SIZEOF_DIRENT * VFS_MOUNT_DIRENTS) v = (d, v1)" by (cases "kmalloc_buf (SIZEOF_DIRENT * VFS_MOUNT_DIRENTS) v")
  have ok1: "pool_ok v1 H" using same_pool_ok [OF kmalloc_buf_pool [OF k]] assms(1) by simp
  obtain a v2 where al0: "alloc_node v1 = (a, v2)" by (cases "alloc_node v1")
  show ?thesis
  proof (cases a)
    case None
    with al0 alloc_node_None have "alloc_node v1 = (None, v1)" by blast
    with assms(3) ok1 k show ?thesis by (auto simp: open_mount_def Let_def split: option.splits if_splits)
  next
    case (Some n)
    note al = alloc_node_pool [OF ok1 al0 [unfolded Some]]
    have fr: "in_use v2 n" "n \<notin># H" using al(2) by (simp_all add: fresh_def)
    have ref: "pool_ok (updn n (\<lambda>x. x\<lparr>n_open_refs := 1\<rparr>) w) (add_mset n H)" if "same_pool (updn n f v2) w"
      "\<And>x. n_children (f x) = n_children x \<and> n_open_refs (f x) = n_open_refs x \<and> n_on_free_list (f x) = n_on_free_list x \<and> n_proc_type (f x) = n_proc_type x" for f w
    proof (rule first_ref_pool)
      show "pool_ok w H" using mirror_pool [OF al(1,2), of f] that same_pool_ok by blast
      show "in_use w n" using same_pool_in_use [OF that(1)] fr(1) by simp
    qed (use fr assms(2) in simp_all)
    let ?d = "\<lambda>es x. x\<lparr>n_type := 1, n_mount_backed := True, n_mount_ent := Some m, n_mpath := take (MAX_NAME - 1) ?sub,
        n_dents := Some es, n_size := of_nat (length es)\<rparr>"
    have dir: "updn n (\<lambda>x. x\<lparr>n_open_refs := 1\<rparr>) (updn n (?d es) v2) =
        updn n (\<lambda>x. x\<lparr>n_type := 1, n_mount_backed := True, n_mount_ent := Some m, n_mpath := take (MAX_NAME - 1) ?sub,
          n_dents := Some es, n_size := of_nat (length es), n_open_refs := 1\<rparr>) v2" for es
      by (simp add: updn_def)
    have "pool_ok (updn n (\<lambda>x. x\<lparr>n_type := 1, n_mount_backed := True, n_mount_ent := Some m, n_mpath := take (MAX_NAME - 1) ?sub,
          n_dents := Some es, n_size := of_nat (length es), n_open_refs := 1\<rparr>) v2) (add_mset n H)" for es
      unfolding dir [symmetric] by (rule ref [of "?d es"]) simp_all
    moreover have "pool_ok (updn n (\<lambda>x. x\<lparr>n_open_refs := 1\<rparr>) w) (add_mset n H)"
      if "same_pool (updn n (\<lambda>x. x\<lparr>n_type := 0, n_mount_backed := True, n_mount_ent := Some m, n_mpath := take (MAX_NAME - 1) ?sub\<rparr>) v2) w" for w
      using that by (rule ref) simp
    ultimately show ?thesis
      using assms(3) k al0 Some ok1 mirror_load_pool
      by (auto simp: open_mount_def Let_def split: option.splits if_splits prod.splits)
  qed
qed

lemma vfs_open_pool:
  assumes "pool_ok v H" "size H < 2 ^ 32 - 1" "vfs_open path flags k v = (r, v')"
  shows "pool_ok v' (plus_handle r H)"
proof -
  let ?v = "proc_sync k v"
  have ok: "pool_ok ?v H" by (rule proc_sync_pool) (rule assms(1))
  have ref: "pool_ok (updn n (\<lambda>x. x\<lparr>n_open_refs := n_open_refs x + 1\<rparr>) w) (add_mset n H)" if "pool_ok w H" "in_use w n" for n w
    by (rule take_ref_pool) (use that assms(2) in simp_all)
  have ref0: "pool_ok (updn n (\<lambda>x. x\<lparr>n_readdir_idx := 0, n_open_refs := n_open_refs x + 1\<rparr>) w) (add_mset n H)" if "pool_ok w H" "in_use w n" for n w
    by (rule take_ref_pool) (use that assms(2) in simp_all)
  have trunc: "pool_ok (updn n (\<lambda>x. x\<lparr>n_data := None, n_dents := None, n_size := 0\<rparr>) w) H" if "pool_ok w H" for n w
    using that same_pool_ok [OF same_pool_updn] by (simp add: keeps_def)
  show ?thesis
  proof (cases "vfs_find_mount path ?v")
    case (Some m)
    with assms(3) open_mount_pool [OF ok assms(2)] show ?thesis by (simp add: vfs_open_def)
  next
    case None
    obtain a w where c: "(case vfs_resolve_path path ?v of Some n \<Rightarrow> (Some n, ?v) | None \<Rightarrow> create_at path 0 ?v) = (a, w)" by fastforce
    have w: "pool_ok w H" "a = Some n \<Longrightarrow> in_use w n" for n
      using c ok resolve_in_use [OF ok] create_at_pool [OF ok] by (auto simp: grows_def split: option.splits)
    show ?thesis
    proof (cases "flags AND 1 \<noteq> 0")
      case True
      with assms(3) None c have "(case (a, w) of (None, v) \<Rightarrow> (None, v)
          | (Some n, v) \<Rightarrow> let v = (if flags AND 2 \<noteq> 0 then updn n (\<lambda>x. x\<lparr>n_data := None, n_dents := None, n_size := 0\<rparr>) v else v)
                in (Some n, updn n (\<lambda>x. x\<lparr>n_open_refs := n_open_refs x + 1\<rparr>) v)) = (r, v')"
        by (simp add: vfs_open_def Let_def)
      then show ?thesis
        using w ref [OF trunc [OF w(1)]] ref [OF w(1)] by (auto simp: Let_def split: option.splits if_splits)
    next
      case False
      with assms(3) None ok ref0 resolve_in_use [OF ok, of path] show ?thesis
        by (auto simp: vfs_open_def Let_def split: option.splits)
    qed
  qed
qed

section \<open>Removing and moving\<close>

text \<open>The node a path names for removal is not one the kernel keeps a pointer to.\<close>

definition spares :: "u8 list \<Rightarrow> vfs \<Rightarrow> bool" where
  "spares path v \<longleftrightarrow> (\<forall>p nm c. resolve_parent path v = Some (p, nm) \<and> find_child p nm v = Some c \<longrightarrow> c \<notin> anchors v)"

lemma detach_pool:
  assumes "pool_ok v H" "in_use v p" "c \<in> set (kids v p)" "c \<notin> anchors v"
  shows "pool_ok (set_kids p (remove1 c (n_children (nodes v p))) v) H" "detached (set_kids p (remove1 c (n_children (nodes v p))) v) c"
    "\<not> transient (set_kids p (remove1 c (n_children (nodes v p))) v) c"
proof -
  let ?cs = "remove1 c (n_children (nodes v p))"
  let ?v = "set_kids p ?cs v"
  have t: "tree_ok v" using assms(1) by (simp add: pool_ok_def)
  have k: "distinct (kids v p)" "in_use v c" "\<not> transient v c" "\<And>q. in_use v q \<Longrightarrow> c \<in> set (kids v q) \<Longrightarrow> q = p"
    using t assms(2,3) unfolding tree_ok_def by blast+
  have cs: "set ?cs = set (kids v p) - {c}" "distinct ?cs" using k(1) by (simp_all add: kids_def)
  then show "pool_ok ?v H" by (intro set_kids_pool [OF assms(1,2)]) auto
  have kid: "kids ?v q = (if q = p then ?cs else kids v q)" for q by (simp add: kids_def)
  show "detached ?v c" using k(2,4) assms(4) cs(1) by (auto simp: detached_def kid anchors_def)
  show "\<not> transient ?v c" using k(3) by (auto simp: transient_def)
qed

lemma unlink_tree_pool:
  assumes "pool_ok v H" "spares path v" "unlink_tree path v = (r, v')"
  shows "pool_ok v' H"
proof (cases "resolve_parent path v")
  case None
  with assms(1,3) show ?thesis by (simp add: unlink_tree_def)
next
  case (Some pn)
  obtain p nm where pn: "pn = (p, nm)" by (cases pn)
  note p = resolve_parent_in_use [OF assms(1) Some [unfolded pn]]
  show ?thesis
  proof (cases "find_child p nm v")
    case None
    with assms(1,3) Some pn show ?thesis by (auto simp: unlink_tree_def split: if_splits)
  next
    case fc: (Some c)
    have c: "c \<in> set (kids v p)" "c \<notin> anchors v"
      using find_child_in_use [OF assms(1) p fc] assms(2) Some pn fc by (auto simp: spares_def)
    note d = detach_pool [OF assms(1) p c]
    let ?v1 = "set_kids p (remove1 c (n_children (nodes v p))) v"
    have v1: "updn p (\<lambda>x. x\<lparr>n_children := remove1 c (n_children x)\<rparr>) v = ?v1" by (simp add: updn_def)
    let ?v2 = "updn c (\<lambda>x. x\<lparr>n_parent := None\<rparr>) ?v1"
    have sp: "same_pool ?v1 ?v2" by (simp add: keeps_def)
    have "pool_ok ?v2 H" "detached ?v2 c"
      using d(1,2) same_pool_ok [OF sp] sp by (simp_all add: detached_def same_pool_def in_use_def anchors_def kids_def)
    note rel = release_node_pool(1) [OF this]
    have "v' = v \<or> v' = release_node c ?v2"
      using assms(3) Some pn fc unfolding v1 [symmetric] by (auto simp: unlink_tree_def Let_def split: if_splits)
    with rel assms(1) show ?thesis by blast
  qed
qed

lemma rename_tree_pool:
  assumes "pool_ok v H" "spares old v"
  shows "pool_ok (rename_tree old new v) H"
proof -
  have nm: "pool_ok (updn c (\<lambda>x. x\<lparr>n_name := s\<rparr>) v) H" for c s
    using assms(1) same_pool_ok [OF same_pool_updn] by (simp add: keeps_def)
  have move: "pool_ok (updn c (\<lambda>x. x\<lparr>n_parent := Some np\<rparr>) (updn p (\<lambda>x. x\<lparr>n_children := remove1 c (n_children x)\<rparr>)
        (updn np (\<lambda>x. x\<lparr>n_children := n_children x @ [c]\<rparr>) w))) H"
    if "pool_ok w H" "in_use w p" "in_use w np" "np \<noteq> p" "c \<in> set (kids w p)" "c \<notin> anchors w" "length (kids w np) < MAX_CHILDREN" for c p np w
  proof -
    let ?w1 = "set_kids p (remove1 c (n_children (nodes w p))) w"
    let ?w2 = "updn np (\<lambda>x. x\<lparr>n_children := n_children x @ [c]\<rparr>) ?w1"
    note d = detach_pool [OF that(1,2,5,6)]
    have "kids ?w1 np = kids w np" using that(4) by (simp add: kids_def)
    then have "pool_ok ?w2 H" using that by (intro attach_pool [OF d]) simp_all
    moreover have "updn p (\<lambda>x. x\<lparr>n_children := remove1 c (n_children x)\<rparr>) (updn np (\<lambda>x. x\<lparr>n_children := n_children x @ [c]\<rparr>) w) = ?w2"
      using that(4) by (simp add: updn_def fun_upd_twist)
    ultimately show ?thesis using same_pool_ok [OF same_pool_updn] by (simp add: keeps_def)
  qed
  show ?thesis
  proof (cases "resolve_parent old v")
    case None
    with assms(1) show ?thesis by (simp add: rename_tree_def)
  next
    case (Some pn)
    obtain p nm0 where pn: "pn = (p, nm0)" by (cases pn)
    note p = resolve_parent_in_use [OF assms(1) Some [unfolded pn]]
    show ?thesis
    proof (cases "find_child p nm0 v")
      case None
      with assms(1) Some pn show ?thesis by (simp add: rename_tree_def)
    next
      case fc: (Some c)
      have c: "c \<in> set (kids v p)" "c \<notin> anchors v"
        using find_child_in_use [OF assms(1) p fc] assms(2) Some pn fc by (auto simp: spares_def)
      show ?thesis
      proof (cases "resolve_parent new v")
        case None
        with Some pn fc nm show ?thesis by (simp add: rename_tree_def)
      next
        case npn: (Some np')
        obtain np nn where np: "np' = (np, nn)" by (cases np')
        let ?w = "updn c (\<lambda>x. x\<lparr>n_name := take (MAX_NAME - 1) nn\<rparr>) v"
        have "in_use v np" using resolve_parent_in_use [OF assms(1) npn [unfolded np]] .
        moreover have "kids ?w = kids v" "anchors ?w = anchors v" by (simp_all add: kids_def anchors_def fun_eq_iff)
        ultimately show ?thesis
          using Some pn fc npn np nm move [OF nm, of c "take (MAX_NAME - 1) nn" p np c] p c
          by (auto simp: rename_tree_def Let_def vfs_append_child_def kids_def not_le)
      qed
    qed
  qed
qed

section \<open>The other operations\<close>

lemma new_child_ret: "pool_ok v H \<Longrightarrow> in_use v p \<Longrightarrow> keeps f \<Longrightarrow> pool_ok (snd (new_child p nm ty f v)) H"
  using new_child_pool(1) [of v H p nm ty f] by (cases "new_child p nm ty f v") (simp add: grows_def)

lemma create_at_ret: "pool_ok v H \<Longrightarrow> pool_ok (snd (create_at path ty v)) H"
  using create_at_pool(1) [of v H path ty] by (cases "create_at path ty v") (simp add: grows_def)

lemma on_vol_ok: "pool_ok v H \<Longrightarrow> pool_ok (snd (on_vol f v)) H"
  using same_pool_ok [OF on_vol_pool] by blast

lemma on_vol_ok': "on_vol f v = (r, v') \<Longrightarrow> pool_ok v H \<Longrightarrow> pool_ok v' H"
  using on_vol_ok [of v H f] by simp

lemma vfs_mkdir_pool: "pool_ok v H \<Longrightarrow> pool_ok (snd (vfs_mkdir path v)) H"
  by (auto simp: vfs_mkdir_def mkdir_tree_def ret_def keeps_def on_vol_ok split: option.split intro!: new_child_ret dest: resolve_parent_in_use)

lemma vfs_touch_pool: "pool_ok v H \<Longrightarrow> pool_ok (snd (vfs_touch path v)) H"
  using create_at_ret [of v H path 0]
  by (auto simp: vfs_touch_def touch_tree_def ret_def Let_def split: option.split prod.split dest: on_vol_ok')

lemma vfs_unlink_pool: "pool_ok v H \<Longrightarrow> spares path v \<Longrightarrow> pool_ok (snd (vfs_unlink path v)) H"
  using unlink_tree_pool [of v H path] by (cases "unlink_tree path v") (auto simp: vfs_unlink_def on_vol_ok split: option.split)

lemma write_file_tree_pool:
  assumes "pool_ok v H"
  shows "pool_ok (snd (write_file_tree path bs v)) H"
proof -
  obtain a w where c: "(case vfs_resolve_path path v of Some n \<Rightarrow> (Some n, v) | None \<Rightarrow> create_at path 0 v) = (a, w)" by fastforce
  then have w: "pool_ok w H" using assms create_at_ret [OF assms, of path 0] by (auto split: option.splits)
  obtain b u where k: "kmalloc_buf (length bs) w = (b, u)" by (cases "kmalloc_buf (length bs) w")
  have u: "pool_ok u H" using same_pool_ok [OF kmalloc_buf_pool [OF k]] w by simp
  have set: "pool_ok (updn n f u') H" if "pool_ok u' H" "keeps f" for n f u' using that same_pool_ok [OF same_pool_updn] by blast
  show ?thesis unfolding write_file_tree_def c using w u k set by (auto simp: Let_def keeps_def split: option.split)
qed

lemma vfs_write_file_pool: "pool_ok v H \<Longrightarrow> pool_ok (snd (vfs_write_file path bs v)) H"
  by (auto simp: vfs_write_file_def on_vol_ok write_file_tree_pool split: option.split)

lemma cp_tree_pool: "cp_tree src v = Some (b, v') \<Longrightarrow> same_pool v v'"
  by (auto simp: cp_tree_def Let_def split: option.splits if_splits prod.splits dest: kmalloc_buf_pool)

lemma cp_load_pool: "cp_load src v = Some (b, v') \<Longrightarrow> same_pool v v'"
  by (auto simp: cp_load_def Let_def split: option.splits if_splits prod.splits dest: kmalloc_buf_pool cp_tree_pool)

lemma cp_store_tree_pool:
  assumes "pool_ok v H"
  shows "pool_ok (snd (cp_store_tree dst bs v)) H"
proof (cases "resolve_parent dst v")
  case None
  with assms show ?thesis by (simp add: cp_store_tree_def)
next
  case (Some pn)
  obtain p nm where pn: "pn = (p, nm)" by (cases pn)
  note p = resolve_parent_in_use [OF assms Some [unfolded pn]]
  obtain a v1 where al0: "alloc_node v = (a, v1)" by (cases "alloc_node v")
  show ?thesis
  proof (cases a)
    case None
    with al0 alloc_node_None [of v v1] assms Some pn show ?thesis by (auto simp: cp_store_tree_def)
  next
    case a: (Some n)
    note al = alloc_node_pool [OF assms al0 [unfolded a]]
    let ?f = "\<lambda>x. x\<lparr>n_name := take (MAX_NAME - 1) nm, n_type := 0, n_parent := Some p, n_size := of_nat (length bs)\<rparr>"
    let ?v2 = "updn n ?f v1"
    obtain b v3 where k: "kmalloc_buf (length bs) ?v2 = (b, v3)" by (cases "kmalloc_buf (length bs) ?v2")
    define v4 where "v4 = (if bs = [] then ?v2 else case b of None \<Rightarrow> updn n (\<lambda>x. x\<lparr>n_size := 0\<rparr>) v3 | Some _ \<Rightarrow> updn n (\<lambda>x. x\<lparr>n_data := Some bs\<rparr>) v3)"
    have k3: "same_pool ?v2 v3" by (rule kmalloc_buf_pool) (rule k)
    have "same_pool v1 ?v2" by (simp add: keeps_def)
    moreover have "same_pool ?v2 v4"
      using k3 same_pool_trans [OF k3 same_pool_updn] by (auto simp: v4_def keeps_def split: option.split)
    ultimately have sp: "same_pool v1 v4" by (rule same_pool_trans)
    have ok: "pool_ok v4 H" "fresh v4 H n" "in_use v4 p"
      using same_pool_ok [OF sp] same_pool_fresh [OF sp] same_pool_in_use [OF sp] al p by simp_all
    note fd = fresh_detached [OF ok(2)]
    have app: "length (kids v4 p) < MAX_CHILDREN \<Longrightarrow> pool_ok (updn p (\<lambda>x. x\<lparr>n_children := n_children x @ [n]\<rparr>) v4) H"
      using attach_pool [OF ok(1) _ _ ok(3)] fd by blast
    have fr: "pool_ok (free_node n v4) H" using free_node_pool(1) [OF ok(1), of n] ok(2) by (simp add: fresh_def)
    have "snd (cp_store_tree dst bs v) =
      (if n_type (nodes v p) \<noteq> 1 \<or> find_child p nm v \<noteq> None then v
       else if length (kids v4 p) < MAX_CHILDREN then updn p (\<lambda>x. x\<lparr>n_children := n_children x @ [n]\<rparr>) v4 else free_node n v4)"
      using k by (cases b) (auto simp: cp_store_tree_def Some pn al0 a v4_def vfs_append_child_def kids_def Let_def)
    then show ?thesis using assms app fr by auto
  qed
qed

lemma cp_store_pool: "pool_ok v H \<Longrightarrow> pool_ok (snd (cp_store dst bs v)) H"
  by (auto simp: cp_store_def cp_store_tree_pool Let_def split: option.split prod.split dest: on_vol_ok')

lemma vfs_cp_pool: "pool_ok v H \<Longrightarrow> vfs_cp src dst v = Some (r, v') \<Longrightarrow> pool_ok v' H"
  by (auto simp: vfs_cp_def split: option.splits dest!: cp_load_pool same_pool_ok [of v _ H] dest: sym)
    (metis cp_store_pool snd_conv)

lemma vfs_rename_pool:
  assumes "pool_ok v H" "spares old v" "vfs_rename old new v = Some v'" "\<forall>r w. vfs_cp old new v = Some (r, w) \<longrightarrow> spares old w"
  shows "pool_ok v' H"
proof (cases "vfs_find_mount old v \<noteq> None \<or> vfs_find_mount new v \<noteq> None")
  case True
  with assms(3) obtain r w where c: "vfs_cp old new v = Some (r, w)" "v' = (if r = 0 then snd (vfs_unlink old w) else w)"
    by (auto simp: vfs_rename_def)
  have "pool_ok w H" using vfs_cp_pool [OF assms(1) c(1)] .
  with c assms(4) vfs_unlink_pool show ?thesis by auto
next
  case False
  with assms(3) rename_tree_pool [OF assms(1,2)] show ?thesis by (auto simp: vfs_rename_def)
qed

lemma vfs_mount_pool: "pool_ok v H \<Longrightarrow> pool_ok (snd (vfs_mount mp ty v)) H"
proof -
  assume ok: "pool_ok v H"
  let ?v = "v\<lparr>mount_table := mount_table v @ [\<lparr>mount_type = ty, mount_point = take (MAX_PATH - 1) mp\<rparr>]\<rparr>"
  have "pool_ok ?v H" using same_pool_ok [OF same_pool_env(3)] ok by blast
  then have "pool_ok (ensure_mount_stub mp ?v) H"
    by (auto simp: ensure_mount_stub_def keeps_def split: option.split intro!: new_child_ret dest: resolve_parent_in_use)
  with ok show ?thesis by (simp add: vfs_mount_def)
qed

lemma vfs_isdir_pool: "pool_ok v H \<Longrightarrow> vfs_isdir path k v = (d, v') \<Longrightarrow> pool_ok v' H"
  by (auto simp: vfs_isdir_def Let_def proc_sync_pool split: if_splits)

lemma vfs_stat_pool:
  assumes "pool_ok v H" "size H < 2 ^ 32 - 1" "vfs_stat path k v = (r, v')"
  shows "pool_ok v' H"
proof -
  obtain d v1 where i: "vfs_isdir path k v = (d, v1)" by (cases "vfs_isdir path k v")
  obtain a v2 where o: "vfs_open path 0 k v1 = (a, v2)" by (cases "vfs_open path 0 k v1")
  have ok1: "pool_ok v1 H" using vfs_isdir_pool [OF assms(1) i] .
  have ok2: "pool_ok v2 (plus_handle a H)" using vfs_open_pool [OF ok1 assms(2) o] .
  show ?thesis
  proof (cases a)
    case None
    with assms(3) i o ok1 ok2 show ?thesis by (auto simp: vfs_stat_def split: if_splits)
  next
    case (Some n)
    with ok2 vfs_close_pool [of v2 "add_mset n H" n] have "pool_ok (vfs_close (Some n) v2) H" by simp
    with assms(3) i o ok1 Some show ?thesis by (auto simp: vfs_stat_def Let_def split: if_splits)
  qed
qed

lemma create_from_mem_pool: "pool_ok v H \<Longrightarrow> pool_ok (snd (vfs_create_from_mem path bs sz v)) H"
  by (auto simp: vfs_create_from_mem_def keeps_def split: option.split intro!: new_child_ret dest: resolve_parent_in_use)

lemma cwd_pool:
  assumes "pool_ok w H" "anchor_ok (w\<lparr>current_dir := d\<rparr>) d"
  shows "pool_ok (w\<lparr>current_dir := d\<rparr>) H"
proof -
  have e: "kids (w\<lparr>current_dir := d\<rparr>) = kids w" "transient (w\<lparr>current_dir := d\<rparr>) = transient w" "pid_dir (w\<lparr>current_dir := d\<rparr>) = pid_dir w"
      "in_use (w\<lparr>current_dir := d\<rparr>) = in_use w"
    by (simp_all add: kids_def transient_def pid_dir_def in_use_def fun_eq_iff)
  have "free_ok (w\<lparr>current_dir := d\<rparr>) = free_ok w" "tree_ok (w\<lparr>current_dir := d\<rparr>) = tree_ok w" "refs_ok (w\<lparr>current_dir := d\<rparr>) H = refs_ok w H"
      "anchor_ok (w\<lparr>current_dir := d\<rparr>) = anchor_ok w"
    by (simp_all add: free_ok_def tree_ok_def refs_ok_def anchor_ok_def e fun_eq_iff)
  moreover have "anchors (w\<lparr>current_dir := d\<rparr>) \<subseteq> insert d (anchors w)" by (auto simp: anchors_def)
  ultimately show ?thesis using assms unfolding pool_ok_def by auto
qed

lemma vfs_chdir_pool:
  assumes "pool_ok v H" "vfs_chdir path v = (r, v')" "anchor_ok v' (current_dir v')"
  shows "pool_ok v' H"
proof -
  note cwd = cwd_pool [where H = H]
  obtain a w where c: "(case vfs_resolve_path path v of Some d \<Rightarrow> (Some d, v) | None \<Rightarrow> create_at path 1 v) = (a, w)" by fastforce
  then have w: "pool_ok w H" using assms(1) create_at_ret [OF assms(1), of path 1] by (auto split: option.splits)
  have "v' = v \<or> v' = w \<or> (\<exists>d. v' = v\<lparr>current_dir := d\<rparr>) \<or> (\<exists>d. v' = w\<lparr>current_dir := d\<rparr>)"
    using assms(2) unfolding vfs_chdir_def c by (auto split: option.splits if_splits)
  with assms(1,3) w cwd show ?thesis by auto
qed

section \<open>Reading and writing\<close>

lemma flush_pool: "flush_mount_node n v = Some v' \<Longrightarrow> same_pool v v'"
  by (auto simp: flush_mount_node_def Let_def on_vol_pool split: option.splits if_splits)

lemma vfs_readdir_pool: "same_pool v (snd (vfs_readdir h v))"
  by (simp add: vfs_readdir_def Let_def keeps_def split: option.split)

lemma dev_rand_bytes_pool: "dev_rand_bytes n k v = (bs, v') \<Longrightarrow> same_pool v v'"
proof (induction n arbitrary: v bs v')
  case (Suc n)
  obtain b w where w: "dev_rand_byte k v = (b, w)" by (cases "dev_rand_byte k v")
  then have "same_pool v w" by (auto simp: dev_rand_byte_def Let_def)
  moreover obtain cs u where u: "dev_rand_bytes n k w = (cs, u)" by (cases "dev_rand_bytes n k w")
  moreover have "same_pool w u" using Suc.IH [OF u] .
  ultimately show ?case using Suc.prems w same_pool_trans by auto
qed simp

lemma vfs_pread_pool: "vfs_pread h c f k v = Some (r, bs, v') \<Longrightarrow> same_pool v v'"
  by (auto simp: vfs_pread_def Let_def split: option.splits if_splits prod.splits dest: dev_rand_bytes_pool)

lemma put_pool:
  assumes "same_pool v w" "keeps f" "flush_mount_node n (updn n f w) = Some v'"
  shows "same_pool v v'"
  using same_pool_trans [OF same_pool_trans [OF assms(1) same_pool_updn [OF assms(2)]] flush_pool [OF assms(3)]] .

lemma vfs_pwrite_pool: "vfs_pwrite h bs f v = Some (r, v') \<Longrightarrow> same_pool v v'"
  by (auto simp: vfs_pwrite_def Let_def bind_eq_Some_conv split: option.splits if_splits prod.splits
      dest!: kmalloc_buf_pool elim!: put_pool [rotated 2] simp: keeps_def)

lemma vfs_write_pool: "vfs_write h bs v = Some (r, v') \<Longrightarrow> same_pool v v'"
  by (auto simp: vfs_write_def Let_def bind_eq_Some_conv split: option.splits if_splits prod.splits
      dest!: kmalloc_buf_pool elim!: put_pool [rotated 2] simp: keeps_def)

section \<open>Reachable states\<close>

text \<open>
  A step is one operation of the file system, on paths and handles of the caller's choice; handles are those of earlier opens. The
  kernel state and the bytes behind a name buffer may change arbitrarily between the steps. The flag of a step says that it takes away a node the kernel itself points
  to: an unlink or a rename of the current directory or \<open>/proc\<close>, or a current directory that is not, or not for long, a directory of the tree. The code
  does not refuse such an operation.
\<close>

inductive vfs_step :: "vfs \<Rightarrow> nat multiset \<Rightarrow> vfs \<Rightarrow> nat multiset \<Rightarrow> bool \<Rightarrow> bool" where
  step_open: "vfs_open path flags k v = (r, v') \<Longrightarrow> size H < 2 ^ 32 - 1 \<Longrightarrow> vfs_step v H v' (plus_handle r H) False"
| step_close: "n \<in># H \<Longrightarrow> vfs_step v H (vfs_close (Some n) v) (H - {#n#}) False"
| step_dup: "n \<in># H \<Longrightarrow> size H < 2 ^ 32 - 1 \<Longrightarrow> vfs_step v H (vfs_dup (Some n) v) (add_mset n H) False"
| step_read: "vfs_pread (Some n) cnt off k v = Some (r, bs, v') \<Longrightarrow> n \<in># H \<Longrightarrow> vfs_step v H v' H False"
| step_pwrite: "vfs_pwrite (Some n) bs off v = Some (r, v') \<Longrightarrow> n \<in># H \<Longrightarrow> vfs_step v H v' H False"
| step_write: "vfs_write (Some n) bs v = Some (r, v') \<Longrightarrow> n \<in># H \<Longrightarrow> vfs_step v H v' H False"
| step_readdir: "n \<in># H \<Longrightarrow> vfs_step v H (snd (vfs_readdir (Some n) v)) H False"
| step_mkdir: "vfs_step v H (snd (vfs_mkdir path v)) H False"
| step_unlink: "vfs_step v H (snd (vfs_unlink path v)) H (\<not> spares path v)"
| step_rename: "vfs_rename old new v = Some v' \<Longrightarrow>
    vfs_step v H v' H (\<not> (spares old v \<and> (\<forall>r w. vfs_cp old new v = Some (r, w) \<longrightarrow> spares old w)))"
| step_touch: "vfs_step v H (snd (vfs_touch path v)) H False"
| step_write_file: "vfs_step v H (snd (vfs_write_file path bs v)) H False"
| step_cp: "vfs_cp src dst v = Some (r, v') \<Longrightarrow> vfs_step v H v' H False"
| step_create: "vfs_step v H (snd (vfs_create_from_mem path bs sz v)) H False"
| step_stat: "vfs_stat path k v = (st, v') \<Longrightarrow> size H < 2 ^ 32 - 1 \<Longrightarrow> vfs_step v H v' H False"
| step_isdir: "vfs_isdir path k v = (d, v') \<Longrightarrow> vfs_step v H v' H False"
| step_chdir: "vfs_chdir path v = (r, v') \<Longrightarrow> vfs_step v H v' H (\<not> anchor_ok v' (current_dir v'))"
| step_setcwd: "vfs_setcwd_node n v = v' \<Longrightarrow> vfs_step v H v' H (\<not> anchor_ok v' (current_dir v'))"
| step_mount: "vfs_step v H (snd (vfs_mount mp ty v)) H False"
| step_dev: "vfs_step v H (updn n (\<lambda>x. x\<lparr>n_dev_type := dt\<rparr>) v) H False"
| step_proc: "vfs_step v H (v\<lparr>proc_node := Some pn\<rparr>) H (\<not> anchor_ok v pn)"
| step_proc_file: "proc_node v = Some pn \<Longrightarrow> vfs_step v H (snd (proc_make pn nm 0 pt 0 v)) H False"
| step_tail: "vfs_step v H (v\<lparr>name_tail := t\<rparr>) H False"

text \<open>The states since boot; the flag says that some step took a node away from the kernel.\<close>

inductive vfs_reach :: "vfs \<Rightarrow> nat multiset \<Rightarrow> bool \<Rightarrow> bool" where
  reach_boot: "free_nodes v = [] \<Longrightarrow> proc_node v = None \<Longrightarrow> vfs_reach (boot_root v) {#} False"
| reach_step: "vfs_reach v H lost \<Longrightarrow> vfs_step v H v' H' l \<Longrightarrow> vfs_reach v' H' (lost \<or> l)"

lemma boot_pool:
  assumes "free_nodes v = []" "proc_node v = None"
  shows "pool_ok (boot_root v) {#}"
proof -
  have b: "boot_root v = (updn 0 (\<lambda>x. x\<lparr>n_name := [SLASH], n_type := 1, n_parent := Some 0\<rparr>)
      (updn 0 (\<lambda>_. zero_node) (v\<lparr>node_count := 1\<rparr>)))\<lparr>current_dir := 0\<rparr>"
    using assms by (simp add: boot_root_def alloc_node_def MAX_INODES_def updn_def)
  show ?thesis using assms by (simp add: b pool_defs zero_node_def MAX_INODES_def MAX_CHILDREN_def PROC_PID_DIR_def)
qed

lemma proc_node_pool:
  assumes "pool_ok v H" "anchor_ok v pn"
  shows "pool_ok (v\<lparr>proc_node := Some pn\<rparr>) H"
proof -
  let ?v = "v\<lparr>proc_node := Some pn\<rparr>"
  have e: "kids ?v = kids v" "transient ?v = transient v" "pid_dir ?v = pid_dir v" "in_use ?v = in_use v"
    by (simp_all add: kids_def transient_def pid_dir_def in_use_def fun_eq_iff)
  have "free_ok ?v = free_ok v" "tree_ok ?v = tree_ok v" "refs_ok ?v H = refs_ok v H" "anchor_ok ?v = anchor_ok v"
    by (simp_all add: free_ok_def tree_ok_def refs_ok_def anchor_ok_def e fun_eq_iff)
  moreover have "anchors ?v \<subseteq> insert pn (anchors v)" by (auto simp: anchors_def)
  ultimately show ?thesis using assms unfolding pool_ok_def by auto
qed

lemma vfs_setcwd_pool:
  assumes "pool_ok v H" "vfs_setcwd_node n v = v'" "anchor_ok v' (current_dir v')"
  shows "pool_ok v' H"
  using assms cwd_pool by (auto simp: vfs_setcwd_node_def split: option.splits)

lemma vfs_step_pool: "vfs_step v H v' H' l \<Longrightarrow> \<not> l \<Longrightarrow> pool_ok v H \<Longrightarrow> pool_ok v' H'"
proof (induction rule: vfs_step.induct)
  case (step_read n cnt off k v r bs v' H)
  then show ?case using same_pool_ok [OF vfs_pread_pool] by blast
next
  case (step_pwrite n bs off v r v' H)
  then show ?case using same_pool_ok [OF vfs_pwrite_pool] by blast
next
  case (step_write n bs v r v' H)
  then show ?case using same_pool_ok [OF vfs_write_pool] by blast
next
  case (step_readdir n H v)
  then show ?case using same_pool_ok [OF vfs_readdir_pool] by blast
next
  case (step_dev v H n dt)
  then show ?case using same_pool_ok [OF same_pool_updn] by (simp add: keeps_def)
next
  case (step_tail v H t)
  then show ?case using same_pool_ok [OF same_pool_env(5)] by blast
next
  case (step_proc_file v pn H nm pt)
  then have "in_use v pn" by (auto simp: pool_ok_def anchors_def anchor_ok_def)
  with step_proc_file proc_make_pool(1) [of v H pn nm 0 pt 0] show ?case by (cases "proc_make pn nm 0 pt 0 v") (simp add: grows_def)
qed (auto intro: vfs_open_pool vfs_close_pool vfs_dup_pool vfs_mkdir_pool vfs_unlink_pool vfs_rename_pool vfs_touch_pool
    vfs_write_file_pool vfs_cp_pool create_from_mem_pool vfs_stat_pool vfs_isdir_pool vfs_chdir_pool vfs_setcwd_pool vfs_mount_pool proc_node_pool)

lemma vfs_reach_pool: "vfs_reach v H lost \<Longrightarrow> \<not> lost \<Longrightarrow> pool_ok v H"
  by (induction rule: vfs_reach.induct) (auto intro: boot_pool vfs_step_pool)

text \<open>C35: the node pool does not recycle what somebody holds, as long as nobody takes a node away from the kernel itself. In every state that opening, closing, duplicating, reading, writing, creating,
  removing, renaming, copying, mounting, changing the current directory and the appearance and disappearance of processes lead to, provided
  that no unlink or rename hit the current directory or \<open>/proc\<close> and the current directory was never set to a node outside the tree or inside the directory
  of a process (which the code does not prevent), a node's count of open references is the
  number of handles to it, and the next node the pool gives out is none with a handle, in a directory, the root, the current directory
  or \<open>/proc\<close>; no two directories share an entry.
\<close>

theorem vfs_pool_inv:
  assumes "vfs_reach v H False"
  shows "(\<forall>n<node_count v. unat (n_open_refs (nodes v n)) = count H n) \<and>
    (\<forall>n. fst (alloc_node v) = Some n \<longrightarrow> n \<notin># H \<and> n \<notin> {0, current_dir v} \<union> set_option (proc_node v) \<and>
       (\<forall>p<node_count v. p \<notin> set (free_nodes v) \<longrightarrow> n \<notin> set (n_children (nodes v p)))) \<and>
    (\<forall>p q c. p < node_count v \<and> q < node_count v \<and> p \<notin> set (free_nodes v) \<and> q \<notin> set (free_nodes v) \<and>
       c \<in> set (n_children (nodes v p)) \<and> c \<in> set (n_children (nodes v q)) \<longrightarrow> p = q)"
proof -
  have ok: "pool_ok v H" using vfs_reach_pool [OF assms] by simp
  then have parts: "refs_ok v H" "tree_ok v" by (simp_all add: pool_ok_def)
  have "n \<notin># H \<and> n \<notin> anchors v \<and> (\<forall>p. in_use v p \<longrightarrow> n \<notin> set (kids v p))" if "fst (alloc_node v) = Some n" for n
  proof -
    obtain v' where al: "alloc_node v = (Some n, v')" using \<open>fst (alloc_node v) = Some n\<close> by (cases "alloc_node v") simp
    note a = alloc_node_pool [OF ok al]
    have "\<not> in_use v n" by (rule a(3))
    then show ?thesis using parts ok unfolding pool_ok_def refs_ok_def tree_ok_def anchor_ok_def by blast
  qed
  with parts show ?thesis
    unfolding refs_ok_def tree_ok_def anchors_def in_use_def kids_def by blast
qed

section \<open>A file system after boot\<close>

definition vfs0 :: vfs where
  "vfs0 = boot_root \<lparr>nodes = (\<lambda>_. zero_node), node_count = 0, free_nodes = [], current_dir = 0, proc_node = None, mount_table = [],
     dev_rng_state = 0, ext2_vol = base_fs, answers = (\<lambda>_ n. Some (replicate n 0)), name_tail = []\<rparr>"

lemma vfs0_fields: "node_count vfs0 = 1" "free_nodes vfs0 = []" "current_dir vfs0 = 0" "proc_node vfs0 = None" "mount_table vfs0 = []"
  "nodes vfs0 0 = zero_node\<lparr>n_name := [SLASH], n_type := 1, n_parent := Some 0\<rparr>" "answers vfs0 i n = Some (replicate n 0)"
  by (simp_all add: vfs0_def boot_root_def alloc_node_def MAX_INODES_def)

lemma vfs0_reach: "vfs_reach vfs0 {#} False"
  unfolding vfs0_def by (rule reach_boot) simp_all

lemma open_a:
  "vfs_open (SLASH # [0x61]) 1 kern_example vfs0 = (Some 1, snd (vfs_open (SLASH # [0x61]) 1 kern_example vfs0))"
proof -
  have t: "path_token [0x61] = Some ([0x61], [])" by (simp add: path_token_def SLASH_def MAX_NAME_def)
  have r: "vfs_resolve_path (SLASH # [0x61]) vfs0 = None"
    by (simp add: vfs_resolve_path_def start_dir_def walk.simps t find_child_def vfs0_fields zero_node_def)
  have p: "resolve_parent (SLASH # [0x61]) vfs0 = Some (0, [0x61])"
    by (simp add: resolve_parent_def start_dir_def parent_walk.simps t find_child_def vfs0_fields zero_node_def child_name_def MAX_NAME_def)
  show ?thesis
    by (simp add: vfs_open_def proc_sync_def vfs0_fields vfs_find_mount_def r create_at_def p new_child_def alloc_node_def MAX_INODES_def
        vfs_append_child_def MAX_CHILDREN_def zero_node_def Let_def)
qed

theorem vfs_pool_inv_witness:
  "\<exists>v. vfs_reach v {#1#} False \<and> unat (n_open_refs (nodes v 1)) = 1 \<and> fst (alloc_node v) \<noteq> Some 1"
proof -
  let ?v = "snd (vfs_open (SLASH # [0x61]) 1 kern_example vfs0)"
  have "vfs_step vfs0 {#} ?v (plus_handle (Some 1) {#}) False" using step_open [OF open_a, of "{#}"] by simp
  from reach_step [OF vfs0_reach this] have r: "vfs_reach ?v {#1#} False" by simp
  have "1 < node_count ?v"
    using vfs_reach_pool [OF r] by (simp add: pool_ok_def refs_ok_def in_use_def)
  with vfs_pool_inv [OF r] have "unat (n_open_refs (nodes ?v 1)) = 1 \<and> fst (alloc_node ?v) \<noteq> Some 1" by auto
  with r show ?thesis by blast
qed

end
