(* ===== verification/Vfs_Files.thy ===== *)
theory Vfs_Files
  imports Vfs_Pool
begin

text \<open>
  Reading and writing through a handle, against a file as a list of bytes, and the write that leaves its buffer.
\<close>

section \<open>Files as byte lists\<close>

definition plain_file :: "vfs \<Rightarrow> nat \<Rightarrow> bool" where
  "plain_file v n \<longleftrightarrow> (let x = nodes v n in n_type x = 0 \<and> n_dev_type x = 0 \<and> n_proc_type x = 0 \<and>
     (case n_data x of None \<Rightarrow> n_size x = 0 | Some b \<Rightarrow> unat (n_size x) \<le> length b))"

definition contents :: "vfs \<Rightarrow> nat \<Rightarrow> u8 list" where
  "contents v n = (let x = nodes v n in case n_data x of None \<Rightarrow> [] | Some b \<Rightarrow> take (unat (n_size x)) b)"

text \<open>Writing at a position; a gap is filled with zeros.\<close>

definition write_at :: "nat \<Rightarrow> u8 list \<Rightarrow> u8 list \<Rightarrow> u8 list" where
  "write_at off bs c = take off (c @ replicate (off - length c) 0) @ bs @ drop (off + length bs) c"

lemma length_contents: "plain_file v n \<Longrightarrow> length (contents v n) = unat (n_size (nodes v n))"
  by (auto simp: plain_file_def contents_def Let_def split: option.splits)

lemma write_buf_eq: "off + length bs \<le> length b \<Longrightarrow> write_buf off bs b = Some (take off b @ bs @ drop (off + length bs) b)"
  by (simp add: write_buf_def)

lemma write_buf_length: "write_buf off bs b = Some b' \<Longrightarrow> length b' = length b"
  by (auto simp: write_buf_def split: if_splits)

lemma write_at_take:
  assumes "off + length bs \<le> length b" "z \<le> length b" "\<forall>i<length b. z \<le> i \<longrightarrow> i < off \<longrightarrow> b ! i = 0"
  shows "take (max (off + length bs) z) (take off b @ bs @ drop (off + length bs) b) = write_at off bs (take z b)"
proof -
  have "take off b = take off (take z b @ replicate (off - length (take z b)) 0)"
  proof (rule nth_equalityI)
    fix i
    assume "i < length (take off b)"
    then have i: "i < off" "i < length b" by auto
    show "take off b ! i = take off (take z b @ replicate (off - length (take z b)) 0) ! i"
    proof (cases "i < z")
      case True
      with i assms(2) show ?thesis by (simp add: nth_append)
    next
      case False
      with i assms(2,3) show ?thesis by (simp add: nth_append)
    qed
  qed (use assms(1,2) in auto)
  moreover have "take (z - (off + length bs)) (drop (off + length bs) b) = drop (off + length bs) (take z b)"
    by (simp add: drop_take)
  moreover have "take (max (off + length bs) z) (take off b @ bs @ drop (off + length bs) b) =
      take off b @ bs @ take (z - (off + length bs)) (drop (off + length bs) b)"
    using assms(1) by (auto simp: max_def)
  ultimately show ?thesis by (simp add: write_at_def)
qed

text \<open>The last part of \<open>vfs_pwrite\<close>: the bytes go into the buffer and the node is flushed.\<close>

definition put_bytes :: "nat \<Rightarrow> u8 list \<Rightarrow> u32 \<Rightarrow> u8 list \<Rightarrow> vfs \<Rightarrow> (int \<times> vfs) option" where
  "put_bytes n bs off b v =
     Option.bind (if bs = [] then Some b else write_buf (unat off) bs b) (\<lambda>b.
       let v = updn n (\<lambda>x. x\<lparr>n_data := Some b, n_size := max (off + of_nat (length bs)) (n_size x)\<rparr>) v
       in map_option (\<lambda>v. (sint (of_nat (length bs) :: u32), v)) (flush_mount_node n v))"

lemma on_vol_nodes: "\<exists>s. snd (on_vol f v) = v\<lparr>ext2_vol := s\<rparr>"
  by (auto simp: on_vol_def split: prod.split)

lemma flush_nodes:
  assumes "plain_file v n"
  shows "\<exists>s. flush_mount_node n v = Some (v\<lparr>ext2_vol := s\<rparr>)"
proof -
  obtain bs where bs: "read_buf 0 (unat (n_size (nodes v n))) (case n_data (nodes v n) of None \<Rightarrow> [0] | Some b \<Rightarrow> b) = Some bs"
    using assms by (auto simp: plain_file_def read_buf_def Let_def split: option.splits)
  have "v\<lparr>ext2_vol := ext2_vol v\<rparr> = v" by simp
  then have id: "\<exists>s. v = v\<lparr>ext2_vol := s\<rparr>" by metis
  show ?thesis unfolding flush_mount_node_def Let_def bs using id on_vol_nodes by (auto split: option.split)
qed

lemma put_bytes_result:
  assumes "unat off + length bs \<le> length b" "unat (n_size (nodes v n)) \<le> length b" "unat off + length bs < 2 ^ 32" "length bs < 2 ^ 31"
    "\<forall>i<length b. unat (n_size (nodes v n)) \<le> i \<longrightarrow> i < unat off \<longrightarrow> b ! i = 0"
    "n_type (nodes v n) = 0" "n_dev_type (nodes v n) = 0" "n_proc_type (nodes v n) = 0"
  shows "\<exists>v'. put_bytes n bs off b v = Some (int (length bs), v') \<and> plain_file v' n \<and>
    contents v' n = write_at (unat off) bs (take (unat (n_size (nodes v n))) b) \<and> (\<forall>m. m \<noteq> n \<longrightarrow> nodes v' m = nodes v m)"
proof -
  let ?b = "take (unat off) b @ bs @ drop (unat off + length bs) b"
  let ?f = "\<lambda>x. x\<lparr>n_data := Some ?b, n_size := max (off + of_nat (length bs)) (n_size x)\<rparr>"
  have e: "unat (off + of_nat (length bs)) = unat off + length bs"
    using assms(1,3) by (simp add: unat_word_ariths unat_of_nat)
  then have sz: "unat (max (off + of_nat (length bs)) (n_size (nodes v n))) = max (unat off + length bs) (unat (n_size (nodes v n)))"
    by (auto simp: max_def word_le_nat_alt)
  have p: "plain_file (updn n ?f v) n"
    using assms(1,2,6-8) sz by (simp add: plain_file_def)
  obtain s where s: "flush_mount_node n (updn n ?f v) = Some ((updn n ?f v)\<lparr>ext2_vol := s\<rparr>)" using flush_nodes [OF p] by blast
  have w: "(if bs = [] then Some b else write_buf (unat off) bs b) = Some ?b" using assms(1) by (simp add: write_buf_eq)
  have "put_bytes n bs off b v = Some (int (length bs), (updn n ?f v)\<lparr>ext2_vol := s\<rparr>)"
    unfolding put_bytes_def w using s assms(4) by (simp add: sint_of_nat_small)
  moreover have "contents ((updn n ?f v)\<lparr>ext2_vol := s\<rparr>) n = write_at (unat off) bs (take (unat (n_size (nodes v n))) b)"
    using write_at_take [OF assms(1,2,5)] sz by (simp add: contents_def)
  moreover have "plain_file ((updn n ?f v)\<lparr>ext2_vol := s\<rparr>) n" using p by (simp add: plain_file_def)
  ultimately show ?thesis by auto
qed

lemma vfs_pwrite_put:
  assumes "plain_file v n" "unat off + length bs < 2 ^ 32"
  shows "vfs_pwrite (Some n) bs off v =
    (if n_data (nodes v n) = None \<or> unat off + length bs > unat (n_size (nodes v n)) then
       case kmalloc_buf (unat (off + of_nat (length bs) + 512)) v of
         (None, w) \<Rightarrow> Some (- 1, w)
       | (Some _, w) \<Rightarrow> Option.bind (write_buf 0 (contents v n) (replicate (unat (off + of_nat (length bs) + 512)) 0)) (\<lambda>nd. put_bytes n bs off nd w)
     else put_bytes n bs off (the (n_data (nodes v n))) v)"
proof -
  have e: "unat (off + of_nat (length bs)) = unat off + length bs" using assms(2) by (simp add: unat_word_ariths unat_of_nat)
  then have "\<not> off + of_nat (length bs) < off" "off + of_nat (length bs) > n_size (nodes v n) \<longleftrightarrow> unat off + length bs > unat (n_size (nodes v n))"
    by (simp_all add: word_less_nat_alt)
  moreover have "write_buf 0 [] (replicate k 0) = Some (replicate k 0)" for k by (simp add: write_buf_def)
  moreover have "n_data (nodes v n) = Some b \<Longrightarrow> read_buf 0 (unat (n_size (nodes v n))) b = Some (contents v n)" for b
    using assms(1) by (simp add: plain_file_def read_buf_def contents_def Let_def)
  ultimately show ?thesis
    using assms(1)
    by (auto simp: vfs_pwrite_def put_bytes_def plain_file_def BLOCK_SIZE_def Let_def contents_def split: option.splits prod.splits)
qed

text \<open>A grown buffer holds the old contents followed by zeros.\<close>

lemma grown_buffer:
  assumes "length c \<le> k"
  shows "write_buf 0 c (replicate k 0) = Some (c @ replicate (k - length c) (0 :: u8))"
  using assms by (simp add: write_buf_def)

lemma vfs_pread_contents:
  assumes "plain_file v n" "unat cnt < 2 ^ 31"
  shows "vfs_pread (Some n) cnt pos k v =
    (let bs = take (unat cnt) (drop (unat pos) (contents v n)) in Some (int (length bs), bs, v))"
proof -
  let ?x = "nodes v n"
  have len: "length (contents v n) = unat (n_size ?x)" using assms(1) by (rule length_contents)
  show ?thesis
  proof (cases "n_size ?x \<le> pos")
    case True
    with assms(1) len show ?thesis
      by (simp add: vfs_pread_def plain_file_def word_le_nat_alt DEV_NULL_def DEV_ZERO_def DEV_RANDOM_def Let_def)
  next
    case False
    then have lt: "unat pos < unat (n_size ?x)" by (simp add: word_le_nat_alt)
    with assms(1) obtain b where b: "n_data ?x = Some b" "unat (n_size ?x) \<le> length b"
      by (auto simp: plain_file_def Let_def split: option.splits)
    let ?m = "min cnt (n_size ?x - pos)"
    have m: "unat ?m = min (unat cnt) (unat (n_size ?x) - unat pos)"
      using lt by (auto simp: min_def word_le_nat_alt unat_sub)
    then have "read_buf (unat pos) (unat ?m) b = Some (take (unat ?m) (drop (unat pos) b))" using lt b(2) by (simp add: read_buf_def)
    moreover have "take (unat ?m) (drop (unat pos) b) = take (unat cnt) (drop (unat pos) (contents v n))"
      using b lt m by (simp add: contents_def drop_take min.commute)
    moreover have "sint ?m = int (length (take (unat cnt) (drop (unat pos) (contents v n))))"
      using m assms(2) len by (simp add: sint_small min.commute)
    ultimately show ?thesis
      using assms(1) b(1) False by (simp add: vfs_pread_def plain_file_def DEV_NULL_def DEV_ZERO_def DEV_RANDOM_def Let_def)
  qed
qed

lemma vfs_pwrite_writes:
  assumes "plain_file v n" "unat off + length bs < 2 ^ 32 - 512" "length bs < 2 ^ 31"
  shows "\<exists>r v'. vfs_pwrite (Some n) bs off v = Some (r, v') \<and>
    (if r = - 1 then nodes v' = nodes v \<and> answers v 0 (unat off + length bs + 512) = None
     else r = int (length bs) \<and> plain_file v' n \<and> contents v' n = write_at (unat off) bs (contents v n) \<and>
       (\<forall>m. m \<noteq> n \<longrightarrow> nodes v' m = nodes v m))"
proof -
  let ?x = "nodes v n" let ?sz = "unat (n_size ?x)" let ?k = "unat off + length bs + 512"
  have k: "unat (off + of_nat (length bs) + 512) = ?k" using assms(2) by (simp add: unat_word_ariths unat_of_nat)
  have len: "length (contents v n) = ?sz" using assms(1) by (rule length_contents)
  have eq: "vfs_pwrite (Some n) bs off v =
    (if n_data ?x = None \<or> unat off + length bs > ?sz then
       case kmalloc_buf ?k v of (None, w) \<Rightarrow> Some (- 1, w)
       | (Some _, w) \<Rightarrow> Option.bind (write_buf 0 (contents v n) (replicate ?k 0)) (\<lambda>nd. put_bytes n bs off nd w)
     else put_bytes n bs off (the (n_data ?x)) v)"
    using vfs_pwrite_put [OF assms(1), of off bs] assms(2) unfolding k by simp
  show ?thesis
  proof (cases "n_data ?x = None \<or> unat off + length bs > ?sz")
    case True
    let ?w = "v\<lparr>answers := \<lambda>i. answers v (i + 1)\<rparr>"
    have le: "?sz \<le> ?k" using True assms(1) by (auto simp: plain_file_def Let_def)
    let ?b = "contents v n @ replicate (?k - ?sz) 0"
    have e: "vfs_pwrite (Some n) bs off v = (case answers v 0 ?k of None \<Rightarrow> Some (- 1, ?w) | Some _ \<Rightarrow> put_bytes n bs off ?b ?w)"
      using True le len eq by (simp add: kmalloc_buf_def grown_buffer split: option.split)
    have "\<exists>v'. put_bytes n bs off ?b ?w = Some (int (length bs), v') \<and> plain_file v' n \<and>
      contents v' n = write_at (unat off) bs (take (unat (n_size (nodes ?w n))) ?b) \<and> (\<forall>m. m \<noteq> n \<longrightarrow> nodes v' m = nodes ?w m)"
      using assms len le by (intro put_bytes_result) (auto simp: plain_file_def Let_def nth_append)
    with len e show ?thesis by (cases "answers v 0 ?k") (auto intro!: exI [of _ "int (length bs)"])
  next
    case False
    then obtain b where b: "n_data ?x = Some b" "unat off + length bs \<le> ?sz" by auto
    with assms(1) have lb: "?sz \<le> length b" by (simp add: plain_file_def Let_def)
    have t: "take ?sz b = contents v n" using b by (simp add: contents_def)
    have "\<exists>v'. put_bytes n bs off b v = Some (int (length bs), v') \<and> plain_file v' n \<and>
      contents v' n = write_at (unat off) bs (take ?sz b) \<and> (\<forall>m. m \<noteq> n \<longrightarrow> nodes v' m = nodes v m)"
      using assms b lb by (intro put_bytes_result) (auto simp: plain_file_def Let_def)
    with b False eq t show ?thesis by (auto intro!: exI [of _ "int (length bs)"])
  qed
qed

section \<open>Writing through a handle\<close>

text \<open>C36: a regular file is a list of bytes. Writing at an offset through a handle either finds no memory and changes no node, or
  stores exactly the bytes given, fills a gap after the old end with zeros, keeps every other byte and every other node, and
  returns the count; reading at any offset afterwards returns that part of the list and no more.
\<close>

theorem vfs_pwrite_pread:
  assumes "plain_file v n" "unat off + length bs < 2 ^ 32 - 512" "length bs < 2 ^ 31"
  shows "\<exists>r v'. vfs_pwrite (Some n) bs off v = Some (r, v') \<and>
    (if r = - 1 then nodes v' = nodes v \<and> answers v 0 (unat off + length bs + 512) = None
     else r = int (length bs) \<and> (\<forall>m. m \<noteq> n \<longrightarrow> nodes v' m = nodes v m) \<and>
       (\<forall>cnt pos k. unat cnt < 2 ^ 31 \<longrightarrow>
         (let got = take (unat cnt) (drop (unat pos) (write_at (unat off) bs (contents v n)))
          in vfs_pread (Some n) cnt pos k v' = Some (int (length got), got, v'))))"
proof -
  obtain r v' where p: "vfs_pwrite (Some n) bs off v = Some (r, v')"
    and c: "if r = - 1 then nodes v' = nodes v \<and> answers v 0 (unat off + length bs + 512) = None
      else r = int (length bs) \<and> plain_file v' n \<and> contents v' n = write_at (unat off) bs (contents v n) \<and>
        (\<forall>m. m \<noteq> n \<longrightarrow> nodes v' m = nodes v m)"
    using vfs_pwrite_writes [OF assms] by blast
  have rd: "vfs_pread (Some n) cnt pos k v' =
      (let got = take (unat cnt) (drop (unat pos) (write_at (unat off) bs (contents v n))) in Some (int (length got), got, v'))"
    if "r \<noteq> - 1" "unat cnt < 2 ^ 31" for cnt pos k
    using vfs_pread_contents [of v' n cnt pos k] that c by simp
  show ?thesis
    by (rule exI [of _ r], rule exI [of _ v'], rule conjI [OF p]) (use c rd in \<open>simp add: Let_def split: if_splits\<close>)
qed

text \<open>C39: near the end of the 32-bit range a write leaves its buffer. The end offset is checked against wrap-around, but not the
  block of 512 bytes added to it for the allocation: when the write ends in the last 512 bytes of the range, the buffer allocated is
  smaller than 512 bytes and the data goes to an address about 4 GB behind it. A program gets there with one \<open>lseek\<close> and one \<open>write\<close>.
\<close>

theorem vfs_pwrite_wraps:
  assumes "plain_file v n" "bs \<noteq> []" "2 ^ 32 - 512 \<le> unat off + length bs" "unat off + length bs < 2 ^ 32"
    "unat (n_size (nodes v n)) < unat off + length bs" "answers v 0 (unat off + length bs + 512 - 2 ^ 32) \<noteq> None"
  shows "vfs_pwrite (Some n) bs off v = None"
proof -
  let ?k = "unat off + length bs + 512 - 2 ^ 32"
  have e: "unat (off + of_nat (length bs)) = unat off + length bs" using assms(4) by (simp add: unat_word_ariths unat_of_nat)
  have k: "unat (off + of_nat (length bs) + 512) = ?k"
    using assms(3,4) unfolding unat_word_ariths(1) [of "off + of_nat (length bs)"] e by (simp add: le_mod_geq)
  obtain w b where w: "kmalloc_buf ?k v = (Some b, w)" using assms(6) by (auto simp: kmalloc_buf_def)
  have none: "put_bytes n bs off nd w = None" if "length nd = ?k" for nd
  proof -
    have "\<not> unat off + length bs \<le> length nd" using that assms(3,4) by simp
    with assms(2) show ?thesis by (simp add: put_bytes_def write_buf_def)
  qed
  have "Option.bind (write_buf 0 (contents v n) (replicate ?k 0)) (\<lambda>nd. put_bytes n bs off nd w) = None"
  proof (cases "write_buf 0 (contents v n) (replicate ?k 0)")
    case (Some nd)
    have "length nd = ?k" using write_buf_length [OF Some] by (simp only: length_replicate)
    from none [OF this] Some show ?thesis by (simp only: bind.simps)
  qed (simp only: bind.simps)
  with w assms(5) show ?thesis
    unfolding vfs_pwrite_put [OF assms(1,4)] k by (simp only: prod.case option.case simp_thms if_True)
qed

text \<open>A file that has just been created.\<close>

definition fresh_file :: vfs where "fresh_file = snd (vfs_open (SLASH # [0x61]) 1 kern_example vfs0)"

lemma fresh_file_node: "nodes fresh_file 1 = zero_node\<lparr>n_name := [0x61], n_parent := Some 0, n_open_refs := 1\<rparr>"
  "answers fresh_file i m = Some (replicate m 0)" "mount_table fresh_file = []"
  "nodes fresh_file 0 = zero_node\<lparr>n_name := [SLASH], n_type := 1, n_parent := Some 0, n_children := [1]\<rparr>"
proof -
  have t: "path_token [0x61] = Some ([0x61], [])" by (simp add: path_token_def SLASH_def MAX_NAME_def)
  have r: "vfs_resolve_path (SLASH # [0x61]) vfs0 = None"
    by (simp add: vfs_resolve_path_def start_dir_def walk.simps t find_child_def vfs0_fields zero_node_def)
  have p: "resolve_parent (SLASH # [0x61]) vfs0 = Some (0, [0x61])"
    by (simp add: resolve_parent_def start_dir_def parent_walk.simps t find_child_def vfs0_fields zero_node_def child_name_def MAX_NAME_def)
  show "nodes fresh_file 1 = zero_node\<lparr>n_name := [0x61], n_parent := Some 0, n_open_refs := 1\<rparr>"
    "answers fresh_file i m = Some (replicate m 0)" "mount_table fresh_file = []"
    "nodes fresh_file 0 = zero_node\<lparr>n_name := [SLASH], n_type := 1, n_parent := Some 0, n_children := [1]\<rparr>"
    by (simp_all add: fresh_file_def vfs_open_def proc_sync_def vfs0_fields vfs_find_mount_def r create_at_def p new_child_def alloc_node_def
        MAX_INODES_def MAX_NAME_def vfs_append_child_def MAX_CHILDREN_def zero_node_def Let_def)
qed

lemma fresh_file_reach: "vfs_reach fresh_file {#1#} False"
  using reach_step [OF vfs0_reach step_open [OF open_a, of "{#}"]] by (simp add: fresh_file_def)

lemma fresh_file_plain: "plain_file fresh_file 1" "contents fresh_file 1 = []"
  by (simp_all add: plain_file_def contents_def fresh_file_node zero_node_def del: One_nat_def)

theorem vfs_pwrite_pread_witness:
  "\<exists>v'. vfs_pwrite (Some 1) [7, 8] 3 fresh_file = Some (2, v') \<and> vfs_pread (Some 1) 10 1 kern_example v' = Some (4, [0, 0, 7, 8], v')"
proof -
  have "unat (3 :: u32) + length [7, 8 :: u8] < 2 ^ 32 - 512" "length [7, 8 :: u8] < 2 ^ 31" by simp_all
  from vfs_pwrite_pread [OF fresh_file_plain(1) this] obtain r v' where p: "vfs_pwrite (Some 1) [7, 8] 3 fresh_file = Some (r, v')"
    and c: "if r = - 1 then nodes v' = nodes fresh_file \<and> answers fresh_file 0 (unat (3 :: u32) + length [7, 8 :: u8] + 512) = None
      else r = int (length [7, 8 :: u8]) \<and> (\<forall>m. m \<noteq> 1 \<longrightarrow> nodes v' m = nodes fresh_file m) \<and>
       (\<forall>cnt pos k. unat cnt < 2 ^ 31 \<longrightarrow>
         (let got = take (unat cnt) (drop (unat pos) (write_at (unat (3 :: u32)) [7, 8] (contents fresh_file 1)))
          in vfs_pread (Some 1) cnt pos k v' = Some (int (length got), got, v')))"
    by blast
  have w: "write_at (unat (3 :: u32)) [7, 8] (contents fresh_file 1) = [0, 0, 0, 7, 8]"
  proof -
    have "unat (3 :: u32) = Suc (Suc (Suc 0))" by simp
    then show ?thesis unfolding fresh_file_plain write_at_def by (simp only: list.size) simp
  qed
  from c have r: "r = 2" unfolding fresh_file_node by (simp split: if_splits)
  with c have "\<forall>cnt pos k. unat cnt < 2 ^ 31 \<longrightarrow>
         (let got = take (unat cnt) (drop (unat pos) [0, 0, 0, 7, 8])
          in vfs_pread (Some 1) cnt pos k v' = Some (int (length got), got, v'))" unfolding w by simp
  from this [rule_format, of 10 1 kern_example] have "vfs_pread (Some (Suc 0)) 10 1 kern_example v' = Some (4, [0, 0, 7, 8], v')"
    by (simp add: Let_def)
  with r p show ?thesis by auto
qed

theorem vfs_pwrite_wraps_witness: "vfs_pwrite (Some 1) [7] (- 2) fresh_file = None"
proof -
  have "unat (- 2 :: u32) = 4294967294" by simp
  then show ?thesis
    by (intro vfs_pwrite_wraps) (simp_all add: fresh_file_plain fresh_file_node zero_node_def del: One_nat_def)
qed

end
