(* ===== verification/Vfs_Paths.thy ===== *)
theory Vfs_Paths
  imports Vfs_Files
begin

text \<open>
  Paths against the tree as a map from lists of names to nodes: path resolution looks the names up, making a directory adds
  one entry to the map, removing takes one away; and what happens when a name in the middle of a path is no directory.
\<close>

section \<open>Names\<close>

definition name_ok :: "u8 list \<Rightarrow> bool" where
  "name_ok c \<longleftrightarrow> c \<noteq> [] \<and> SLASH \<notin> set c \<and> length c < MAX_NAME"

definition join :: "u8 list list \<Rightarrow> u8 list" where
  "join cs = concat (map (\<lambda>c. SLASH # c) cs)"

text \<open>The node a list of names leads to from the root.\<close>

fun lookup_from :: "nat \<Rightarrow> u8 list list \<Rightarrow> vfs \<Rightarrow> nat option" where
  "lookup_from d [] v = Some d"
| "lookup_from d (c # cs) v = (if n_type (nodes v d) = 1 then Option.bind (find_child d c v) (\<lambda>x. lookup_from x cs v) else None)"

definition names :: "vfs \<Rightarrow> u8 list list \<Rightarrow> nat option" where
  "names v cs = lookup_from 0 cs v"

lemma lookup_snoc:
  "lookup_from d (cs @ [c]) v = Option.bind (lookup_from d cs v) (\<lambda>x. if n_type (nodes v x) = 1 then find_child x c v else None)"
proof (induction cs arbitrary: d)
  case Nil
  show ?case by (cases "find_child d c v") simp_all
next
  case (Cons a cs)
  then show ?case by (cases "find_child d a v") simp_all
qed

lemma names_snoc: "names v (cs @ [c]) = Option.bind (names v cs) (\<lambda>x. if n_type (nodes v x) = 1 then find_child x c v else None)"
  by (simp add: names_def lookup_snoc)

lemma names_nil [simp]: "names v [] = Some 0"
  by (simp add: names_def)

section \<open>Path resolution\<close>

lemma name_token:
  assumes "name_ok c"
  shows "path_token (c @ join cs) = Some (c, join cs)" "path_token (SLASH # c @ join cs) = Some (c, join cs)"
proof -
  have tw: "takeWhile (\<lambda>x. x \<noteq> SLASH) (c @ join cs) = c"
    using assms by (cases cs) (auto simp: name_ok_def join_def takeWhile_append takeWhile_eq_all_conv)
  have dw: "dropWhile (\<lambda>x. x = SLASH) (c @ join cs) = c @ join cs"
    using assms by (cases c) (auto simp: name_ok_def)
  have "c @ join cs \<noteq> []" using assms by (simp add: name_ok_def)
  then show "path_token (c @ join cs) = Some (c, join cs)" "path_token (SLASH # c @ join cs) = Some (c, join cs)"
    using assms by (simp_all add: path_token_def dw tw name_ok_def MAX_NAME_def Let_def)
qed

lemma join_nil [simp]: "join [] = []" "path_token [] = None"
  by (simp_all add: join_def path_token_def)

lemma join_cons: "join (c # cs) = SLASH # c @ join cs"
  by (simp add: join_def)

lemma token_join: "name_ok c \<Longrightarrow> path_token (join (c # cs)) = Some (c, join cs)"
  by (simp add: join_cons name_token)

lemma join_empty_iff: "join cs = [] \<longleftrightarrow> cs = []"
  by (cases cs) (simp_all add: join_cons)

lemma walk_join:
  "\<forall>c\<in>set cs. name_ok c \<Longrightarrow> n_type (nodes v d) = 1 \<Longrightarrow> walk (join cs) d v = lookup_from d cs v"
proof (induction cs arbitrary: d)
  case Nil
  show ?case by (simp add: walk.simps)
next
  case (Cons c cs)
  have t: "path_token (join (c # cs)) = Some (c, join cs)" using Cons.prems(1) by (intro token_join) simp
  show ?case
  proof (cases "find_child d c v")
    case None
    with t Cons.prems(2) show ?thesis by (simp add: walk.simps [of "join (c # cs)"])
  next
    case (Some x)
    show ?thesis
    proof (cases "cs = []")
      case True
      with t Some Cons.prems(2) show ?thesis by (simp add: walk.simps [of "join [c]"])
    next
      case False
      then obtain e es where "cs = e # es" by (cases cs) auto
      with t Some Cons False show ?thesis by (simp add: walk.simps [of "join (c # e # es)"] join_empty_iff)
    qed
  qed
qed

text \<open>The leading slash is taken off before the loop, which skips slashes anyway.\<close>

lemma walk_tl: "cs \<noteq> [] \<Longrightarrow> \<forall>c\<in>set cs. name_ok c \<Longrightarrow> walk (tl (join cs)) d v = walk (join cs) d v"
  by (cases cs) (simp_all add: join_cons walk.simps [of "_ @ join _"] walk.simps [of "SLASH # _"] name_token)

lemma parent_walk_tl:
  "cs \<noteq> [] \<Longrightarrow> \<forall>c\<in>set cs. name_ok c \<Longrightarrow> parent_walk (tl (join cs)) d r p v = parent_walk (join cs) d r p v"
  by (cases cs) (simp_all add: join_cons parent_walk.simps [of "_ @ join _"] parent_walk.simps [of "SLASH # _"] name_token)

lemma start_join: "cs \<noteq> [] \<Longrightarrow> length (join cs) \<le> 255 \<Longrightarrow> start_dir (join cs) v = (tl (join cs), 0)"
  by (cases cs) (simp_all add: start_dir_def join_cons)

lemma resolve_join:
  assumes "cs \<noteq> []" "\<forall>c\<in>set cs. name_ok c" "length (join cs) \<le> 255" "n_type (nodes v 0) = 1"
  shows "vfs_resolve_path (join cs) v = names v cs"
  using assms by (simp add: vfs_resolve_path_def join_empty_iff start_join walk_tl walk_join names_def)

lemma parent_walk_join:
  assumes "\<forall>c\<in>set (ds @ [nm]). name_ok c" "n_type (nodes v d) = 1" "lookup_from d ds v = Some p" "n_type (nodes v p) = 1"
  shows "parent_walk (join (ds @ [nm])) d r q v = (p, nm)"
  using assms
proof (induction ds arbitrary: d r q)
  case Nil
  then have t: "path_token (join [nm]) = Some (nm, join [])" by (intro token_join) simp
  with Nil show ?case by (simp add: parent_walk.simps [of "join [nm]"] parent_walk.simps [of "[]"] split: option.split)
next
  case (Cons c ds)
  then have t: "path_token (join (c # ds @ [nm])) = Some (c, join (ds @ [nm]))" by (intro token_join) simp
  from Cons.prems obtain x where x: "find_child d c v = Some x" "lookup_from x ds v = Some p" by (auto simp: bind_eq_Some_conv)
  have "n_type (nodes v x) = 1" using x(2) Cons.prems(4) by (cases ds) (auto split: if_splits)
  with Cons x t show ?case by (simp add: parent_walk.simps [of "join (c # ds @ [nm])"])
qed

lemma parent_join:
  assumes "\<forall>c\<in>set (ds @ [nm]). name_ok c" "length (join (ds @ [nm])) \<le> 255" "n_type (nodes v 0) = 1"
    "names v ds = Some p" "n_type (nodes v p) = 1"
  shows "resolve_parent (join (ds @ [nm])) v = Some (p, child_name nm v)"
proof -
  have "parent_walk (tl (join (ds @ [nm]))) 0 0 [] v = (p, nm)"
    using parent_walk_tl [of "ds @ [nm]"] parent_walk_join [OF assms(1,3) _ assms(5)] assms(1,4) by (simp add: names_def)
  then show ?thesis using assms(2) by (simp add: resolve_parent_def join_empty_iff start_join)
qed

lemma short_name: "length nm \<le> 62 \<Longrightarrow> child_name nm v = nm"
  by (simp add: child_name_def MAX_NAME_def)

section \<open>The map of names\<close>

lemma root_in_use: "pool_ok v H \<Longrightarrow> in_use v 0"
  by (auto simp: pool_ok_def anchors_def anchor_ok_def)

lemma find_child_kid: "find_child d c v = Some x \<Longrightarrow> x \<in> set (kids v d) \<and> n_name (nodes v x) = c"
  by (auto simp: find_child_def kids_def find_Some_iff)

lemma names_in_use: "pool_ok v H \<Longrightarrow> names v cs = Some x \<Longrightarrow> in_use v x"
proof (induction cs arbitrary: x rule: rev_induct)
  case (snoc c cs)
  then show ?case using find_child_in_use by (auto simp: names_snoc bind_eq_Some_conv split: if_splits)
qed (simp add: root_in_use)

lemma names_snocD: "names v (cs @ [c]) = Some x \<Longrightarrow> \<exists>d. names v cs = Some d \<and> n_type (nodes v d) = 1 \<and> x \<in> set (kids v d) \<and> n_name (nodes v x) = c"
  using find_child_kid by (fastforce simp: names_snoc bind_eq_Some_conv split: if_splits)

text \<open>No two lists of names lead to the same node.\<close>

lemma names_inj:
  assumes "pool_ok v H" "names v cs = Some x" "names v ds = Some x"
  shows "cs = ds"
  using assms(2,3)
proof (induction cs arbitrary: ds x rule: rev_induct)
  case Nil
  have "x \<noteq> 0" if "names v (es @ [e]) = Some x" for es e x
  proof -
    obtain d where "names v es = Some d" "x \<in> set (kids v d)" using names_snocD [OF \<open>names v (es @ [e]) = Some x\<close>] by blast
    with names_in_use [OF assms(1)] assms(1) show ?thesis by (auto simp: pool_ok_def tree_ok_def)
  qed
  with Nil show ?case by (cases ds rule: rev_cases) auto
next
  case (snoc c cs)
  have nz: "x \<noteq> 0"
    using names_snocD [OF snoc.prems(1)] names_in_use [OF assms(1)] assms(1) by (auto simp: pool_ok_def tree_ok_def)
  with snoc.prems(2) obtain es e where ds: "ds = es @ [e]" by (cases ds rule: rev_cases) auto
  obtain d d' where d: "names v cs = Some d" "x \<in> set (kids v d)" "n_name (nodes v x) = c"
    and d': "names v es = Some d'" "x \<in> set (kids v d')" "n_name (nodes v x) = e"
    using names_snocD [OF snoc.prems(1)] names_snocD [of v es e x] snoc.prems(2) ds by blast
  have "in_use v d" "in_use v d'" using names_in_use [OF assms(1)] d(1) d'(1) by blast+
  with d(2) d'(2) assms(1) have "d = d'" unfolding pool_ok_def tree_ok_def by blast
  with snoc.IH [OF d(1)] d' d(3) ds show ?case by simp
qed

text \<open>What the map depends on.\<close>

lemma find_child_cong:
  assumes "n_children (nodes v' d) = n_children (nodes v d)" "\<forall>x\<in>set (n_children (nodes v d)). n_name (nodes v' x) = n_name (nodes v x)"
  shows "find_child d c v' = find_child d c v"
  unfolding find_child_def assms(1) using assms(2) by (auto intro!: find_cong)

lemma names_cong:
  assumes "pool_ok v H"
    "\<And>d. in_use v d \<Longrightarrow> n_children (nodes v' d) = n_children (nodes v d) \<and> n_name (nodes v' d) = n_name (nodes v d) \<and> n_type (nodes v' d) = n_type (nodes v d)"
  shows "names v' = names v"
proof
  fix cs
  show "names v' cs = names v cs"
  proof (induction cs rule: rev_induct)
    case (snoc c cs)
    have "(if n_type (nodes v' x) = 1 then find_child x c v' else None) = (if n_type (nodes v x) = 1 then find_child x c v else None)"
      if "names v cs = Some x" for x
    proof -
      have x: "in_use v x" using names_in_use [OF assms(1) that] .
      then have "find_child x c v' = find_child x c v"
        using assms(2) pool_in_use [OF assms(1) x] by (intro find_child_cong) (auto simp: kids_def)
      with assms(2) [OF x] show ?thesis by simp
    qed
    with snoc.IH show ?case by (cases "names v cs") (simp_all add: names_snoc)
  qed simp
qed

lemma find_append: "List.find P (xs @ ys) = (case List.find P xs of None \<Rightarrow> List.find P ys | Some x \<Rightarrow> Some x)"
  by (induction xs) simp_all

lemma find_remove1_other: "\<not> P c \<Longrightarrow> List.find P (remove1 c xs) = List.find P xs"
  by (induction xs) auto

lemma find_remove1_same:
  "c \<in> set xs \<Longrightarrow> f c = k \<Longrightarrow> distinct (map f xs) \<Longrightarrow> List.find (\<lambda>x. f x = k) (remove1 c xs) = None"
  by (auto simp: find_None_iff distinct_map inj_on_def distinct_remove1)

lemma names_add:
  assumes "pool_ok v H" "names v ds = Some p" "n_type (nodes v p) = 1" "find_child p nm v = None" "\<not> in_use v n"
    "n_children (nodes v' p) = n_children (nodes v p) @ [n]" "n_name (nodes v' n) = nm" "n_children (nodes v' n) = []"
    "\<And>d. in_use v d \<Longrightarrow> n_name (nodes v' d) = n_name (nodes v d) \<and> n_type (nodes v' d) = n_type (nodes v d) \<and>
       (d \<noteq> p \<longrightarrow> n_children (nodes v' d) = n_children (nodes v d))"
  shows "names v' = (names v)(ds @ [nm] \<mapsto> n)"
proof
  fix cs
  have gone: "names v (ds @ [nm]) = None" using assms(2-4) by (simp add: names_snoc)
  have kid: "in_use v y" if "in_use v x" "y \<in> set (n_children (nodes v x))" for x y
    using pool_in_use [OF assms(1) that(1)] that(2) by (simp add: kids_def)
  have nms: "\<forall>y\<in>set (n_children (nodes v x)). n_name (nodes v' y) = n_name (nodes v y)" if "in_use v x" for x
    using kid [OF that] assms(9) by blast
  have at_p: "find_child p c v' = (if c = nm then Some n else find_child p c v)" for c
  proof -
    have "in_use v p" using names_in_use [OF assms(1,2)] .
    then have "List.find (\<lambda>x. n_name (nodes v' x) = c) (n_children (nodes v p)) = find_child p c v"
      unfolding find_child_def using nms by (intro find_cong) auto
    with assms(4,7) show ?thesis by (auto simp: find_child_def [of p c v'] assms(6) find_append split: option.split)
  qed
  show "names v' cs = ((names v)(ds @ [nm] \<mapsto> n)) cs"
  proof (induction cs rule: rev_induct)
    case (snoc c cs)
    show ?case
    proof (cases "cs = ds @ [nm]")
      case True
      then have "names v' cs = Some n" "names v cs = None" "cs @ [c] \<noteq> ds @ [nm]" using snoc.IH gone by simp_all
      with assms(8) show ?thesis by (simp add: names_snoc find_child_def)
    next
      case False
      show ?thesis
      proof (cases "names v cs")
        case None
        with snoc.IH False assms(2) show ?thesis by (auto simp: names_snoc)
      next
        case (Some x)
        have x: "in_use v x" using names_in_use [OF assms(1) Some] .
        have "x = p \<longleftrightarrow> cs = ds" by (metis names_inj [OF assms(1)] assms(2) Some option.inject)
        moreover have "find_child x c v' = find_child x c v" if "x \<noteq> p"
          using that x assms(9) nms by (intro find_child_cong) auto
        moreover have "names v' cs = Some x" "n_type (nodes v' x) = n_type (nodes v x)" using snoc.IH False Some assms(9) [OF x] by simp_all
        ultimately show ?thesis using Some at_p assms(3) by (cases "x = p") (simp_all add: names_snoc)
      qed
    qed
  qed simp
qed

lemma names_remove:
  assumes "pool_ok v H" "names v ds = Some p" "n_type (nodes v p) = 1" "find_child p nm v = Some c"
    "distinct (map (\<lambda>x. n_name (nodes v x)) (n_children (nodes v p)))" "n_type (nodes v c) \<noteq> 1 \<or> n_children (nodes v c) = []"
    "n_children (nodes v' p) = remove1 c (n_children (nodes v p))"
    "\<And>d. d \<noteq> c \<Longrightarrow> n_name (nodes v' d) = n_name (nodes v d) \<and> n_type (nodes v' d) = n_type (nodes v d) \<and>
       (d \<noteq> p \<longrightarrow> n_children (nodes v' d) = n_children (nodes v d))"
  shows "names v' = (names v)(ds @ [nm] := None)"
proof
  fix cs
  have c: "names v (ds @ [nm]) = Some c" using assms(2-4) by (simp add: names_snoc)
  have p: "in_use v p" using names_in_use [OF assms(1,2)] .
  have ck: "c \<in> set (n_children (nodes v p))" "n_name (nodes v c) = nm" using find_child_kid [OF assms(4)] by (simp_all add: kids_def)
  have dist: "distinct (n_children (nodes v p))" using assms(5) by (simp add: distinct_map)
  have pc: "p \<noteq> c" using names_inj [OF assms(1,2), of "ds @ [nm]"] c by auto
  have at_p: "find_child p e v' = (if e = nm then None else find_child p e v)" for e
  proof -
    have "find_child p e v' = List.find (\<lambda>x. n_name (nodes v x) = e) (remove1 c (n_children (nodes v p)))"
      unfolding find_child_def assms(7) using dist assms(8) by (intro find_cong) (auto simp: set_remove1_eq)
    then show ?thesis
      using find_remove1_same [OF ck assms(5)] find_remove1_other [of "\<lambda>x. n_name (nodes v x) = e" c] ck(2) by (auto simp: find_child_def)
  qed
  show "names v' cs = ((names v)(ds @ [nm] := None)) cs"
  proof (induction cs rule: rev_induct)
    case (snoc e cs)
    show ?case
    proof (cases "cs = ds @ [nm]")
      case True
      then have "names v' cs = None" "names v cs = Some c" "cs @ [e] \<noteq> ds @ [nm]" using snoc.IH c by simp_all
      with assms(6) show ?thesis by (auto simp: names_snoc find_child_def)
    next
      case False
      show ?thesis
      proof (cases "names v cs")
        case None
        with snoc.IH False assms(2) show ?thesis by (auto simp: names_snoc)
      next
        case (Some x)
        have x: "in_use v x" using names_in_use [OF assms(1) Some] .
        have xc: "x \<noteq> c" using names_inj [OF assms(1) Some, of "ds @ [nm]"] c False by auto
        have xp: "x = p \<longleftrightarrow> cs = ds" by (metis names_inj [OF assms(1)] assms(2) Some option.inject)
        have "find_child x e v' = find_child x e v" if "x \<noteq> p"
        proof -
          have "c \<notin> set (n_children (nodes v x))"
            using that x p ck(1) assms(1) unfolding pool_ok_def tree_ok_def kids_def by blast
          then show ?thesis using that xc assms(8) by (intro find_child_cong ballI) metis+
        qed
        moreover have "names v' cs = Some x" "n_type (nodes v' x) = n_type (nodes v x)" using snoc.IH False Some assms(8) [OF xc] by simp_all
        ultimately show ?thesis using Some at_p assms(3) xp by (cases "x = p") (simp_all add: names_snoc)
      qed
    qed
  qed simp
qed

section \<open>Making and removing\<close>

lemma new_child_names:
  assumes "pool_ok v H" "names v ds = Some p" "n_type (nodes v p) = 1" "find_child p nm v = None" "length nm < MAX_NAME"
    "new_child p nm ty (\<lambda>x. x) v = (r, v')"
  shows "if fst (alloc_node v) = None \<or> length (n_children (nodes v p)) \<ge> MAX_CHILDREN then r = None \<and> names v' = names v
    else \<exists>n. r = Some n \<and> names v' = (names v)(ds @ [nm] \<mapsto> n) \<and> n_type (nodes v' n) = ty \<and> \<not> in_use v n"
proof (cases "alloc_node v")
  case (Pair a v1)
  show ?thesis
  proof (cases a)
    case None
    with Pair assms(6) alloc_node_None [of v v1] show ?thesis by (auto simp: new_child_def)
  next
    case (Some n)
    note al = alloc_node_pool [OF assms(1) Pair [unfolded Some]]
    have p: "in_use v p" using names_in_use [OF assms(1,2)] .
    have use: "d \<noteq> n" if "in_use v d" for d using that al(3) by auto
    let ?v2 = "updn n (\<lambda>x. x\<lparr>n_name := take (MAX_NAME - 1) nm, n_type := ty, n_parent := Some p\<rparr>) v1"
    have k: "n_children (nodes ?v2 p) = n_children (nodes v p)" using use [OF p] al(5) by simp
    show ?thesis
    proof (cases "length (n_children (nodes v p)) < MAX_CHILDREN")
      case True
      then have e: "r = Some n" "v' = updn p (\<lambda>x. x\<lparr>n_children := n_children x @ [n]\<rparr>) ?v2"
        using assms(6) Pair Some k by (simp_all add: new_child_def vfs_append_child_def)
      have "names v' = (names v)(ds @ [nm] \<mapsto> n)"
      proof (rule names_add [OF assms(1-4) al(3)])
        show "n_children (nodes v' p) = n_children (nodes v p) @ [n]" using use [OF p] al(5) by (simp add: e(2))
        show "n_name (nodes v' n) = nm" "n_children (nodes v' n) = []"
          using use [OF p] assms(5) al(4) by (simp_all add: e(2) zero_node_def MAX_NAME_def)
      qed (use use al(5) in \<open>auto simp: e(2)\<close>)
      with True e Pair Some use [OF p] al(3) show ?thesis by auto
    next
      case False
      then have e: "r = None" "v' = free_node n ?v2"
        using assms(6) Pair Some k by (simp_all add: new_child_def vfs_append_child_def)
      have "names v' = names v" by (rule names_cong [OF assms(1)]) (use use al(5) in \<open>auto simp: e(2) free_node_def\<close>)
      with False e(1) show ?thesis by simp
    qed
  qed
qed

text \<open>C37: making a directory adds one name, for names of up to 62 bytes. The tree stands for a map from lists of names to nodes; the path resolution of the
  operations is a lookup in that map. Making a directory fails without effect when the name exists, fails without changing the map when
  the pool or the parent directory is full, and otherwise adds exactly the new name, for a directory that no other name leads to.
\<close>

theorem vfs_mkdir_names:
  assumes "vfs_reach v H False" "n_type (nodes v 0) = 1" "\<forall>c\<in>set (ds @ [nm]). name_ok c" "length (join (ds @ [nm])) \<le> 255"
    "vfs_find_mount (join (ds @ [nm])) v = None" "names v ds = Some p" "n_type (nodes v p) = 1" "length nm \<le> 62"
  shows "vfs_resolve_path (join (ds @ [nm])) v = names v (ds @ [nm]) \<and>
    (\<exists>r v'. vfs_mkdir (join (ds @ [nm])) v = (r, v') \<and>
      (if names v (ds @ [nm]) \<noteq> None then r = - 1 \<and> v' = v
       else if fst (alloc_node v) = None \<or> length (n_children (nodes v p)) \<ge> MAX_CHILDREN then r = - 1 \<and> names v' = names v
       else r = 0 \<and> (\<exists>n. names v' = (names v)(ds @ [nm] \<mapsto> n) \<and> n_type (nodes v' n) = 1 \<and> n \<notin> ran (names v))))"
proof -
  have ok: "pool_ok v H" using vfs_reach_pool [OF assms(1)] by simp
  have par: "resolve_parent (join (ds @ [nm])) v = Some (p, nm)" using parent_join [OF assms(3,4,2,6,7)] short_name [OF assms(8)] by simp
  have at: "names v (ds @ [nm]) = find_child p nm v" using assms(6,7) by (simp add: names_snoc)
  obtain r v' where nc: "new_child p nm 1 (\<lambda>x. x) v = (r, v')" by (cases "new_child p nm 1 (\<lambda>x. x) v")
  have mk: "vfs_mkdir (join (ds @ [nm])) v = (if find_child p nm v \<noteq> None then (- 1, v) else (if r = None then - 1 else 0, v'))"
    using assms(5,7) par nc by (simp add: vfs_mkdir_def mkdir_tree_def ret_def)
  have ran: "n \<notin> ran (names v)" if "\<not> in_use v n" for n using names_in_use [OF ok] that by (auto simp: ran_def)
  have "vfs_resolve_path (join (ds @ [nm])) v = names v (ds @ [nm])" using resolve_join assms(2-4) by blast
  moreover have "\<exists>r v'. vfs_mkdir (join (ds @ [nm])) v = (r, v') \<and>
      (if names v (ds @ [nm]) \<noteq> None then r = - 1 \<and> v' = v
       else if fst (alloc_node v) = None \<or> length (n_children (nodes v p)) \<ge> MAX_CHILDREN then r = - 1 \<and> names v' = names v
       else r = 0 \<and> (\<exists>n. names v' = (names v)(ds @ [nm] \<mapsto> n) \<and> n_type (nodes v' n) = 1 \<and> n \<notin> ran (names v)))"
  proof (cases "find_child p nm v")
    case None
    have "length nm < MAX_NAME" using assms(3) by (simp add: name_ok_def)
    from new_child_names [OF ok assms(6,7) None this nc] None at mk ran show ?thesis by (auto split: if_splits)
  qed (simp add: at mk)
  ultimately show ?thesis by blast
qed

lemma release_node_others: "d \<noteq> c \<Longrightarrow> nodes (release_node c v) d = nodes v d"
  by (simp add: release_node_def free_node_def)

text \<open>C38: removing takes one name away, for names of up to 62 bytes. When the names in the parent directory are distinct, removing a file or an empty directory
  takes exactly its name from the map and every other name keeps its node; a missing name and a directory with entries are refused
  without effect.
\<close>

theorem vfs_unlink_names:
  assumes "vfs_reach v H False" "n_type (nodes v 0) = 1" "\<forall>c\<in>set (ds @ [nm]). name_ok c" "length (join (ds @ [nm])) \<le> 255"
    "vfs_find_mount (join (ds @ [nm])) v = None" "names v ds = Some p" "n_type (nodes v p) = 1"
    "distinct (map (\<lambda>x. n_name (nodes v x)) (n_children (nodes v p)))" "length nm \<le> 62"
  shows "case names v (ds @ [nm]) of
      None \<Rightarrow> vfs_unlink (join (ds @ [nm])) v = (- 1, v)
    | Some c \<Rightarrow> if n_type (nodes v c) = 1 \<and> n_children (nodes v c) \<noteq> [] then vfs_unlink (join (ds @ [nm])) v = (- 1, v)
        else \<exists>v'. vfs_unlink (join (ds @ [nm])) v = (0, v') \<and> names v' = (names v)(ds @ [nm] := None)"
proof -
  have ok: "pool_ok v H" using vfs_reach_pool [OF assms(1)] by simp
  have par: "resolve_parent (join (ds @ [nm])) v = Some (p, nm)" using parent_join [OF assms(3,4,2,6,7)] short_name [OF assms(9)] by simp
  have at: "names v (ds @ [nm]) = find_child p nm v" using assms(6,7) by (simp add: names_snoc)
  show ?thesis
  proof (cases "find_child p nm v")
    case None
    with at par assms(5,7) show ?thesis by (simp add: vfs_unlink_def unlink_tree_def)
  next
    case (Some c)
    let ?v1 = "updn p (\<lambda>x. x\<lparr>n_children := remove1 c (n_children x)\<rparr>) v"
    let ?v' = "release_node c (updn c (\<lambda>x. x\<lparr>n_parent := None\<rparr>) ?v1)"
    have un: "vfs_unlink (join (ds @ [nm])) v =
        (if n_type (nodes v c) = 1 \<and> n_children (nodes v c) \<noteq> [] then (- 1, v) else (0, ?v'))"
      using Some par assms(5,7) by (simp add: vfs_unlink_def unlink_tree_def Let_def)
    have pc: "p \<noteq> c" using names_inj [OF ok assms(6), of "ds @ [nm]"] at Some by auto
    have "names ?v' = (names v)(ds @ [nm] := None)" if "n_type (nodes v c) \<noteq> 1 \<or> n_children (nodes v c) = []"
    proof (rule names_remove [OF ok assms(6,7) Some assms(8) that])
      show "n_children (nodes ?v' p) = remove1 c (n_children (nodes v p))" using pc by (simp add: release_node_others)
    qed (auto simp: release_node_others)
    with Some at un show ?thesis by auto
  qed
qed

text \<open>C40: a path through a file removes the file. When a name of up to 62 bytes in the middle of a path belongs to a regular file, the path leads to
  nothing, but the search for the parent directory of its last name stops at that file and takes it for the one meant: removing
  the path succeeds and takes the file out of its directory.
\<close>

theorem unlink_removes_ancestor:
  assumes "vfs_reach v H False" "n_type (nodes v 0) = 1" "name_ok a" "length (SLASH # a @ SLASH # rest) \<le> 255"
    "vfs_find_mount (SLASH # a @ SLASH # rest) v = None" "find_child 0 a v = Some c" "n_type (nodes v c) = 0" "length a \<le> 62"
  shows "vfs_resolve_path (SLASH # a @ SLASH # rest) v = None \<and>
    (\<exists>v'. vfs_unlink (SLASH # a @ SLASH # rest) v = (0, v') \<and> c \<notin> set (n_children (nodes v' 0)))"
proof -
  have ok: "pool_ok v H" using vfs_reach_pool [OF assms(1)] by simp
  have tw: "takeWhile (\<lambda>x. x \<noteq> SLASH) (a @ SLASH # rest) = a"
    using assms(3) by (auto simp: name_ok_def takeWhile_append takeWhile_eq_all_conv)
  have dw: "dropWhile (\<lambda>x. x = SLASH) (a @ SLASH # rest) = a @ SLASH # rest"
    using assms(3) by (cases a) (auto simp: name_ok_def)
  have t: "path_token (a @ SLASH # rest) = Some (a, SLASH # rest)"
    using assms(3) by (simp add: path_token_def dw tw name_ok_def MAX_NAME_def Let_def)
  have st: "start_dir (SLASH # a @ SLASH # rest) v = (a @ SLASH # rest, 0)" using assms(4) by (simp add: start_dir_def)
  have "vfs_resolve_path (SLASH # a @ SLASH # rest) v = None"
    using assms(6,7) t by (simp add: vfs_resolve_path_def st walk.simps [of "a @ SLASH # rest"])
  moreover have par: "resolve_parent (SLASH # a @ SLASH # rest) v = Some (0, a)"
    using assms(6,7) t short_name [OF assms(8)] by (simp add: resolve_parent_def st parent_walk.simps [of "a @ SLASH # rest"])
  let ?v' = "release_node c (updn c (\<lambda>x. x\<lparr>n_parent := None\<rparr>) (updn 0 (\<lambda>x. x\<lparr>n_children := remove1 c (n_children x)\<rparr>) v))"
  have "vfs_unlink (SLASH # a @ SLASH # rest) v = (0, ?v')"
    using assms(2,5-7) par by (simp add: vfs_unlink_def unlink_tree_def Let_def)
  moreover have "c \<notin> set (n_children (nodes ?v' 0))"
  proof -
    have "c \<noteq> 0" "distinct (kids v 0)"
      using ok find_child_kid [OF assms(6)] root_in_use [OF ok] by (auto simp: pool_ok_def tree_ok_def)
    then show ?thesis by (simp add: release_node_others kids_def)
  qed
  ultimately show ?thesis by blast
qed

text \<open>
  A name of 63 bytes: the byte after it in the caller's buffer is whatever the stack held. If that is not zero, the file with that name is
  not found, and removing it fails.
\<close>

lemma unlink_long_name:
  assumes "n_type (nodes v 0) = 1" "name_ok nm" "length nm = 63" "vfs_find_mount (join [nm]) v = None" "name_tail v \<noteq> []"
    "\<forall>c\<in>set (n_children (nodes v 0)). length (n_name (nodes v c)) < MAX_NAME"
  shows "vfs_unlink (join [nm]) v = (- 1, v)"
proof -
  have par: "resolve_parent (join [nm]) v = Some (0, nm @ name_tail v)"
    using parent_join [of "[]" nm v 0] assms(1-3) by (simp add: child_name_def MAX_NAME_def join_def)
  have "find_child 0 (nm @ name_tail v) v = None"
    using assms(3,5,6) by (auto simp: find_child_def find_None_iff MAX_NAME_def)
  with par assms(1,4) show ?thesis by (simp add: vfs_unlink_def unlink_tree_def)
qed

section \<open>Instances\<close>

lemma name_a: "name_ok [0x61]" "join [[0x61]] = [SLASH, 0x61]"
  by (simp_all add: name_ok_def SLASH_def MAX_NAME_def join_def)

theorem vfs_mkdir_names_witness:
  "\<exists>v' n. vfs_mkdir [SLASH, 0x61] vfs0 = (0, v') \<and> names v' = (names vfs0)([[0x61]] \<mapsto> n) \<and> n \<noteq> 0"
proof -
  have none: "names vfs0 [[0x61]] = None" by (simp add: names_def find_child_def vfs0_fields zero_node_def)
  have room: "fst (alloc_node vfs0) \<noteq> None" "length (n_children (nodes vfs0 0)) < MAX_CHILDREN"
    by (simp_all add: alloc_node_def vfs0_fields MAX_INODES_def MAX_CHILDREN_def zero_node_def)
  have "n_type (nodes vfs0 0) = 1" "\<forall>c\<in>set ([] @ [[0x61]]). name_ok c" "length (join ([] @ [[0x61 :: u8]])) \<le> 255"
    "vfs_find_mount (join ([] @ [[0x61]])) vfs0 = None" "names vfs0 [] = Some 0"
    by (simp_all add: vfs0_fields vfs_find_mount_def name_a zero_node_def)
  from vfs_mkdir_names [OF vfs0_reach this(1-5) this(1)] none room
  obtain v' n where "vfs_mkdir [SLASH, 0x61] vfs0 = (0, v')" "names v' = (names vfs0)([[0x61]] \<mapsto> n)" "n \<notin> ran (names vfs0)"
    by (auto simp: name_a)
  moreover have "n \<noteq> 0" using calculation(3) ranI [of "names vfs0" "[]" 0] by (metis names_nil)
  ultimately show ?thesis by blast
qed

lemma fresh_file_names: "n_type (nodes fresh_file 0) = 1" "find_child 0 [0x61] fresh_file = Some 1" "n_type (nodes fresh_file 1) = 0"
  "vfs_find_mount p fresh_file = None" "names fresh_file [[0x61]] = Some 1"
  by (simp_all add: names_def find_child_def fresh_file_node zero_node_def vfs_find_mount_def del: One_nat_def)

theorem vfs_unlink_names_witness:
  "\<exists>v'. vfs_unlink [SLASH, 0x61] fresh_file = (0, v') \<and> names v' = (names fresh_file)([[0x61]] := None)"
proof -
  have a: "\<forall>c\<in>set ([] @ [[0x61]]). name_ok c" "length (join ([] @ [[0x61 :: u8]])) \<le> 255" "names fresh_file [] = Some 0"
    "distinct (map (\<lambda>x. n_name (nodes fresh_file x)) (n_children (nodes fresh_file 0)))"
    by (simp_all add: name_a fresh_file_node zero_node_def)
  from vfs_unlink_names [OF fresh_file_reach fresh_file_names(1) a(1,2) fresh_file_names(4) a(3) fresh_file_names(1) a(4)]
  show ?thesis using fresh_file_names(3,5) by (simp add: name_a del: One_nat_def)
qed

theorem unlink_removes_ancestor_witness:
  "vfs_resolve_path [SLASH, 0x61, SLASH, 0x78] fresh_file = None \<and> fst (vfs_unlink [SLASH, 0x61, SLASH, 0x78] fresh_file) = 0"
  using unlink_removes_ancestor [OF fresh_file_reach fresh_file_names(1) name_a(1) _ fresh_file_names(4,2,3), of "[0x78]"]
  by (auto simp del: One_nat_def)

end
