(* ===== verification/Spec2Isabelle.thy ===== *)
theory Spec2Isabelle
  imports Kmalloc Page_Tables Signal Lifecycle Net_Connect Auth Vfs_Paths
begin

text \<open>
  Verification of the NyxOS kernel.

  NyxOS is a 64-bit hobby kernel for x86 with a preemptive scheduler, virtual memory, a network stack, an ext2 driver, a tree of files
  in memory, user accounts and a graphical desktop. The development translates the parts of \<open>src/kernel\<close> that keep state and make
  decisions into executable HOL definitions, one per C function or loop, and proves what makes them correct, or shows on the
  definitions where they are not. The graphical desktop, the device drivers and the user programs are outside.

  \<^bold>\<open>How the code is modelled.\<close> A C integer is a word of its width, so that wrap-around is the one of the code. A structure is a record. An object
  that others point to (process, page-table word, heap header, slab page, file node) is kept in a store indexed by its
  address or its index in its table, so that aliasing is the one of the code. Fallible and blocking code returns options: \<open>None\<close> is a kernel panic, an access outside
  a buffer, or a call that does not return; each theory says which. A blocking call is one pass of its loop, which returns or parks, and a
  sequence of passes is stated as such. Interrupts are off or a lock is held in the operations modelled, so each is one step; what
  runs between two steps is another step. Where a loop follows pointers or record lengths found in memory it is a partial
  function, a function with a termination proof, or one with fuel, and the theorems say that it returns.

  \<^bold>\<open>Theories and files.\<close>
  \<^item> \<open>Nyx_Prelude\<close>: the integer types, static arrays, the collections of rewrite rules, facts on words, bit masks and scans of
    tables, and the locale of an allocator of objects.
  \<^item> Memory. \<open>Pmm\<close> (\<open>memory.c\<close>): the bitmap of page frames, their reference counts and pinning, and initialisation from the
    firmware map; the locale of a source of frames. \<open>Heap\<close> (\<open>heap.c\<close>): the first-fit heap against a list of
    blocks. \<open>Slab\<close> (\<open>slab.c\<close>): six caches of fixed-size objects on frames of the page allocator. \<open>Kmalloc\<close> (\<open>memory.c\<close>):
    \<open>kmalloc\<close>, \<open>kfree\<close> and \<open>krealloc\<close> over both. \<open>Paging\<close> and \<open>Page_Tables\<close> (\<open>paging.c\<close>, user copies of \<open>syscall.c\<close>): page tables
    in physical memory, copy-on-write, protection, and the leaf entries an address space stands for. \<open>Mmap\<close> (\<open>mmap.c\<close>, the fault handler of
    \<open>paging.c\<close>): mappings and demand paging.
  \<^item> Processes. \<open>Kernel_State\<close> (\<open>kernel.h\<close>): the process table. \<open>Signal\<close> (\<open>signal.c\<close>), \<open>Pipe\<close> (\<open>pipe.c\<close>), \<open>Sched\<close> (\<open>process.c\<close>, \<open>smp.c\<close>),
    \<open>Lifecycle\<close> (\<open>process.c\<close>: creation, fork, threads, exec, futexes, waiting, reaping).
  \<^item> Network. \<open>Net_State\<close>, \<open>Tcp\<close> (\<open>tcp.c\<close>), \<open>Inet\<close> (\<open>ethernet.c\<close>, \<open>arp.c\<close>, \<open>ip.c\<close>, \<open>udp.c\<close>, \<open>icmp.c\<close>, \<open>net.c\<close>), \<open>Net_Connect\<close> (the layers together).
  \<^item> Storage. \<open>Ext2_Disk\<close>, \<open>Ext2\<close>, \<open>Ext2_Alloc\<close>, \<open>Ext2_Files\<close>, \<open>Ext2_Inodes\<close>, \<open>Ext2_Volume\<close> (\<open>ext2.c\<close>, \<open>ext2.h\<close>, the sector access of \<open>ata.c\<close>);
    \<open>Vfs\<close> (\<open>vfs.c\<close>: the node pool, the tree, \<open>/dev\<close>, \<open>/proc\<close>, mounts), \<open>Vfs_Pool\<close>, \<open>Vfs_Files\<close>, \<open>Vfs_Paths\<close>.
  \<^item> Accounts. \<open>Sha256\<close> (\<open>sha256.c\<close>), \<open>Printf\<close> (\<open>vsnprintf\<close> of \<open>kernel.c\<close>, \<open>itoa\<close> of \<open>screen.c\<close>), \<open>Auth\<close> (\<open>auth.c\<close>).

  \<^bold>\<open>What the lemmas show.\<close>
  \<^item> Page frames: an invariant of the bitmap and the counts over all sequences of operations; initialisation frees exactly the
    usable frames; a shared frame is released by exactly its last owner; a pinned one never.
  \<^item> Heap, slab, \<open>kmalloc\<close>: allocated objects are inside the pool, aligned and pairwise disjoint, freeing gives back what was taken, and
    the concrete lists refine the abstract heap. The locale of an object allocator states this once and is interpreted on the heap and on
    \<open>kmalloc\<close>; the slab and the page tables take their frames through the locale of a frame source, interpreted on the page allocator.
  \<^item> Address spaces: mapping changes one leaf entry; a copy-on-write fault gives a private copy with the same bytes; protection
    keeps shared pages write-protected; a user copy touches user pages only, but writes to a shared frame. Mappings of a process
    never overlap, and a fault in one maps exactly its page and touches no frame in use.
  \<^item> Pipes are byte queues; a sleeping reader is woken by a write or by the last writer, unless another reader has gone to sleep on the pipe after it, and
    then it is not. A signal handler returns to the interrupted
    registers and mask; the unblockable signals cannot be masked. The scheduler resumes only saved frames and starves no
    process. Waiting collects a child exactly once.
  \<^item> Network: on a network at rest, with the echo service running, a connection through the loopback interface reaches the established state on both sides; an
    unacknowledged segment is resent at five fixed times and the connection then given up.
  \<^item> ext2: a mounted volume has a geometry without divisions by zero or accesses outside a block; the block allocator refines a
    set; a file that was written is read back and the rest of the volume is unchanged, by way of the locale of a block store, interpreted on
    the sectors of the disk.
  \<^item> File tree: the pool never recycles a node with a handle or in the tree, and none the kernel points to as long as nobody removes the current directory or
    \<open>/proc\<close>, which the code does not refuse; a file is a list of bytes; the tree is a map from lists of names to nodes that making
    and removing change at one place, for names of up to 62 bytes; a name of 63 bytes loses its terminator.
  \<^item> Accounts: hashing is FIPS 180-4, RFC 2104 and RFC 8018; an added account verifies with the passwords that have its key, besides what the built-in table accepts, and leaves the others alone; the formatter
    prints the text of its format cut off at the buffer.
  \<^item> Where the code does not do what it means to, a theorem shows it on the definitions: the writes to a shared frame, the
    write at the end of the 32-bit range, the removal through a file, and, below the main properties, leaked directories, duplicated TCP data, the echo
    storm of two UDP ports and descriptors closed by an exiting leader.

  \<^bold>\<open>Fuel and bounds.\<close> Nested sends of the network stack and the iterations of its loopback loop are counted in fuel, and the theorems about them give an
  amount that is enough. The page-table and disk scans are total. File offsets, sizes and reference counts are words; hypotheses bound them only where the code wraps, and the
  wrap itself is then a theorem of its own or is listed with the findings.

  \<^bold>\<open>Not modelled.\<close> The desktop and its windows, fonts, image and sound output, keyboard and mouse, serial and framebuffer drivers (device
  input and output); the boot code, descriptor tables, interrupt stubs and context switches (assembly and tables the processor reads); the DHCP, DNS
  and HTTP clients and the ping command; the kernel shell and the login screen (console dialogues); the ELF loader, an argument of \<open>execve\<close>; the dispatch of system
  calls to the operations modelled; the user programs and their library; the archive of programs built into the kernel (data).
\<close>

end
